(* ===== verification/Prelude.thy ===== *)
theory Prelude
  imports Main "HOL-Library.Word" "HOL-Library.List_Lexorder"
begin

text \<open>
  Shared vocabulary of the development: results of code that may raise
  (\<open>'e + 'a\<close>, \<open>Inl\<close> the exception), sequencing of such code, Python dictionaries as
  association lists in insertion order, and the generic facts on lists, maps and words that
  the component theories use.

  Three collections carry the proofs: \<open>res_simps\<close> (how results sequence), \<open>dict_simps\<close>
  (what a dictionary holds after an update) and \<open>step_defs\<close> (the operations of a component,
  unfolded when an invariant is pushed through a step).
\<close>

named_theorems res_simps
named_theorems dict_simps
named_theorems step_defs

section \<open>Results\<close>

fun rbind :: "'e + 'a \<Rightarrow> ('a \<Rightarrow> 'e + 'b) \<Rightarrow> 'e + 'b" where
  "rbind (Inl e) f = Inl e"
| "rbind (Inr x) f = f x"

definition guard :: "bool \<Rightarrow> 'e \<Rightarrow> 'e + unit" where
  "guard ok e = (if ok then Inr () else Inl e)"

lemma rbind_cong [fundef_cong]:
  "m = n \<Longrightarrow> (\<And>x. n = Inr x \<Longrightarrow> f x = g x) \<Longrightarrow> rbind m f = rbind n g"
  by (cases n) auto

lemma rbind_eq_Inr_iff [res_simps]:
  "rbind m f = Inr y \<longleftrightarrow> (\<exists>x. m = Inr x \<and> f x = Inr y)"
  by (cases m) auto

lemma rbind_eq_Inl_iff:
  "rbind m f = Inl e \<longleftrightarrow> m = Inl e \<or> (\<exists>x. m = Inr x \<and> f x = Inl e)"
  by (cases m) auto

lemma rbind_InrE:
  assumes "rbind m f = Inr y"
  obtains x where "m = Inr x" "f x = Inr y"
  using assms by (cases m) auto

lemma rbind_InlE:
  assumes "rbind m f = Inl e"
  obtains "m = Inl e" | x where "m = Inr x" "f x = Inl e"
  using assms by (cases m) auto

lemma rbind_Inr_right [simp]: "rbind m Inr = m"
  by (cases m) auto

lemma rbind_assoc: "rbind (rbind m f) g = rbind m (\<lambda>x. rbind (f x) g)"
  by (cases m) auto

lemma guard_eq_Inr_iff [res_simps]: "guard ok e = Inr u \<longleftrightarrow> ok"
  by (simp add: guard_def)

lemma guard_eq_Inl_iff [res_simps]: "guard ok e = Inl e' \<longleftrightarrow> \<not> ok \<and> e' = e"
  by (auto simp: guard_def)

lemma guard_simps [simp]: "guard True e = Inr ()" "guard False e = Inl e"
  by (simp_all add: guard_def)

definition opt_res :: "'e \<Rightarrow> 'a option \<Rightarrow> 'e + 'a" where
  "opt_res e x = (case x of None \<Rightarrow> Inl e | Some y \<Rightarrow> Inr y)"

lemma opt_res_simps [simp]: "opt_res e None = Inl e" "opt_res e (Some y) = Inr y"
  by (simp_all add: opt_res_def)

lemma opt_res_eq_Inr_iff [res_simps]: "opt_res e x = Inr y \<longleftrightarrow> x = Some y"
  by (cases x) auto

section \<open>Dictionaries in insertion order\<close>

text \<open>
  \<open>d[k] = v\<close> keeps the position of a key that is present and appends a new one.
\<close>

fun dput :: "'k \<Rightarrow> 'v \<Rightarrow> ('k \<times> 'v) list \<Rightarrow> ('k \<times> 'v) list" where
  "dput k v [] = [(k, v)]"
| "dput k v ((k', v') # d) = (if k = k' then (k, v) # d else (k', v') # dput k v d)"

definition dpop :: "'k \<Rightarrow> ('k \<times> 'v) list \<Rightarrow> ('k \<times> 'v) list" where
  "dpop k d = filter (\<lambda>p. fst p \<noteq> k) d"

abbreviation dkeys :: "('k \<times> 'v) list \<Rightarrow> 'k list" where
  "dkeys d \<equiv> List.map fst d"

lemma map_of_dput [simp]: "map_of (dput k v d) = (map_of d)(k \<mapsto> v)"
  by (induction k v d rule: dput.induct) auto

lemma map_of_dpop [simp]: "map_of (dpop k d) = (map_of d)(k := None)"
  by (induction d) (auto simp: dpop_def fun_eq_iff)

lemma set_dkeys_dput [dict_simps]: "set (dkeys (dput k v d)) = insert k (set (dkeys d))"
  by (induction k v d rule: dput.induct) auto

lemma set_dkeys_dpop [dict_simps]: "set (dkeys (dpop k d)) = set (dkeys d) - {k}"
  by (induction d) (auto simp: dpop_def)

lemma distinct_dput [intro]: "distinct (dkeys d) \<Longrightarrow> distinct (dkeys (dput k v d))"
proof (induction k v d rule: dput.induct)
  case (2 k v k' v' d)
  then show ?case using set_dkeys_dput [of k v d] by auto
qed simp

lemma distinct_dpop [intro]: "distinct (dkeys d) \<Longrightarrow> distinct (dkeys (dpop k d))"
  by (simp add: dpop_def distinct_map_filter)

lemma length_dput [dict_simps]:
  "length (dput k v d) = (if k \<in> set (dkeys d) then length d else Suc (length d))"
  by (induction k v d rule: dput.induct) auto

lemma length_dpop_le [dict_simps]: "length (dpop k d) \<le> length d"
  by (simp add: dpop_def)

lemma dput_new [dict_simps]: "k \<notin> set (dkeys d) \<Longrightarrow> dput k v d = d @ [(k, v)]"
  by (induction k v d rule: dput.induct) auto

lemma map_of_None_iff: "map_of d k = None \<longleftrightarrow> k \<notin> set (dkeys d)"
  by (force simp: map_of_eq_None_iff)

section \<open>Options, lists and words\<close>

lemma map_upd_eq_Some_iff [dict_simps]:
  "(m(k \<mapsto> v)) k' = Some w \<longleftrightarrow> (if k' = k then w = v else m k' = Some w)"
  by auto

lemma unat_of_nat_byte [simp]: "n < 256 \<Longrightarrow> unat (of_nat n :: 8 word) = n"
  by (simp add: unat_of_nat)

lemma unat_byte_less [simp]: "unat (b :: 8 word) < 256"
proof -
  have "unat b < 2 ^ LENGTH(8)" by (rule unsigned_less)
  then show ?thesis by simp
qed

lemma of_nat_eq_byte_iff: "n < 256 \<Longrightarrow> m < 256 \<Longrightarrow> (of_nat n :: 8 word) = of_nat m \<longleftrightarrow> n = m"
  by (metis unat_of_nat_byte)

lemma takeWhile_append_stop:
  "(\<And>x. x \<in> set xs \<Longrightarrow> P x) \<Longrightarrow> (ys = [] \<or> \<not> P (hd ys)) \<Longrightarrow>
    takeWhile P (xs @ ys) = xs \<and> dropWhile P (xs @ ys) = ys"
  by (cases ys) (auto simp: takeWhile_append dropWhile_append)

end
