(* ===== verification/PyText.thy ===== *)
theory PyText
  imports Prelude
begin

text \<open>
  The text types of the language as the program uses them: a \<open>str\<close> is a list of code points
  (surrogates included, as Python allows them), a \<open>bytes\<close> object is a list of 8-bit words.
  \<open>str.encode("utf-8")\<close> and \<open>bytes.decode("utf-8")\<close> are strict: a surrogate cannot be
  encoded, and overlong, truncated or surrogate sequences are not decoded. Decimal text of
  integers is what \<open>int.__repr__\<close> and \<open>int(...)\<close> exchange.

  The lemmas show that decoding inverts encoding, that decoding accepts only what encoding
  produces, and the same for decimal text.
\<close>

type_synonym pystr = "nat list"
type_synonym bytes = "8 word list"

definition lit :: "string \<Rightarrow> pystr" where
  "lit s = List.map of_char s"

lemma lit_simps [simp]: "lit [] = []" "lit (c # s) = of_char c # lit s"
  by (simp_all add: lit_def)

lemma lit_eq_Nil_iff [simp]: "lit s = [] \<longleftrightarrow> s = []"
  by (simp add: lit_def)

lemma lit_append: "lit (s @ t) = lit s @ lit t"
  by (simp add: lit_def)

lemma inj_lit: "lit s = lit t \<longleftrightarrow> s = t"
  unfolding lit_def by (rule inj_map_eq_map) (simp add: inj_on_def)

lemma set_lit_less: "c \<in> set (lit s) \<Longrightarrow> c < 256"
  by (auto simp: lit_def)

section \<open>UTF-8\<close>

definition surrogate :: "nat \<Rightarrow> bool" where
  "surrogate c \<longleftrightarrow> 0xD800 \<le> c \<and> c \<le> 0xDFFF"

definition scalar :: "nat \<Rightarrow> bool" where
  "scalar c \<longleftrightarrow> c < 0x110000 \<and> \<not> surrogate c"

definition utf8_char :: "nat \<Rightarrow> nat list option" where
  "utf8_char c =
     (if c < 0x80 then Some [c]
      else if c < 0x800 then Some [0xC0 + c div 64, 0x80 + c mod 64]
      else if surrogate c then None
      else if c < 0x10000 then
        Some [0xE0 + c div 64 div 64, 0x80 + c div 64 mod 64, 0x80 + c mod 64]
      else if c < 0x110000 then
        Some [0xF0 + c div 64 div 64 div 64, 0x80 + c div 64 div 64 mod 64,
              0x80 + c div 64 mod 64, 0x80 + c mod 64]
      else None)"

fun utf8_octets :: "pystr \<Rightarrow> nat list option" where
  "utf8_octets [] = Some []"
| "utf8_octets (c # s) =
     (case utf8_char c of None \<Rightarrow> None
      | Some bs \<Rightarrow> map_option ((@) bs) (utf8_octets s))"

definition utf8_encode :: "pystr \<Rightarrow> bytes option" where
  "utf8_encode s = map_option (List.map of_nat) (utf8_octets s)"

definition cont :: "nat \<Rightarrow> bool" where
  "cont b \<longleftrightarrow> 0x80 \<le> b \<and> b < 0xC0"

definition cont_val :: "nat \<Rightarrow> nat \<Rightarrow> nat" where
  "cont_val c b = 64 * c + (b - 0x80)"

fun utf8_points :: "nat list \<Rightarrow> pystr option" where
  "utf8_points [] = Some []"
| "utf8_points (b # bs) =
     (if b < 0x80 then map_option ((#) b) (utf8_points bs)
      else if b < 0xC2 then None
      else if b < 0xE0 then
        (case bs of
           b1 # r \<Rightarrow>
             if cont b1 then map_option ((#) (cont_val (b - 0xC0) b1)) (utf8_points r)
             else None
         | _ \<Rightarrow> None)
      else if b < 0xF0 then
        (case bs of
           b1 # b2 # r \<Rightarrow>
             let c = cont_val (cont_val (b - 0xE0) b1) b2 in
             if cont b1 \<and> cont b2 \<and> 0x800 \<le> c \<and> \<not> surrogate c
             then map_option ((#) c) (utf8_points r) else None
         | _ \<Rightarrow> None)
      else if b < 0xF5 then
        (case bs of
           b1 # b2 # b3 # r \<Rightarrow>
             let c = cont_val (cont_val (cont_val (b - 0xF0) b1) b2) b3 in
             if cont b1 \<and> cont b2 \<and> cont b3 \<and> 0x10000 \<le> c \<and> c < 0x110000
             then map_option ((#) c) (utf8_points r) else None
         | _ \<Rightarrow> None)
      else None)"

definition utf8_decode :: "bytes \<Rightarrow> pystr option" where
  "utf8_decode bs = utf8_points (List.map unat bs)"

declare utf8_points.simps(2) [simp del]

lemma utf8_char_eq_None_iff: "utf8_char c = None \<longleftrightarrow> \<not> scalar c"
  by (auto simp: utf8_char_def scalar_def surrogate_def)

lemma utf8_char_octets: "utf8_char c = Some bs \<Longrightarrow> \<forall>b \<in> set bs. b < 256"
  by (auto simp: utf8_char_def surrogate_def split: if_splits)

lemma cont_mod [simp]: "cont (128 + c mod 64)"
  by (simp add: cont_def)

lemma cont_val_mod [simp]: "cont_val (c div 64) (128 + c mod 64) = c"
  by (simp add: cont_val_def)

lemma utf8_points_char:
  assumes "utf8_char c = Some bs"
  shows "utf8_points (bs @ r) = map_option ((#) c) (utf8_points r)"
proof -
  consider "c < 0x80" | "0x80 \<le> c" "c < 0x800"
    | "0x800 \<le> c" "c < 0x10000" "\<not> surrogate c" | "0x10000 \<le> c" "c < 0x110000"
    using assms by (auto simp: utf8_char_def split: if_splits)
  then show ?thesis
  proof cases
    case 1
    then show ?thesis using assms by (auto simp: utf8_char_def utf8_points.simps(2))
  next
    case 2
    then have "2 \<le> c div 64" "c div 64 < 32" by auto
    with 2 show ?thesis using assms
      by (auto simp: utf8_char_def utf8_points.simps(2))
  next
    case 3
    then have "c div 64 div 64 < 16" by auto
    with 3 show ?thesis using assms
      by (auto simp: utf8_char_def utf8_points.simps(2) Let_def)
  next
    case 4
    then have "c div 64 div 64 div 64 < 5" "\<not> surrogate c"
      by (auto simp: surrogate_def)
    with 4 show ?thesis using assms
      by (auto simp: utf8_char_def utf8_points.simps(2) Let_def)
  qed
qed

lemma utf8_points_octets: "utf8_octets s = Some bs \<Longrightarrow> utf8_points bs = Some s"
  by (induction s arbitrary: bs) (auto simp: utf8_points_char split: option.splits)

lemma utf8_octets_bound: "utf8_octets s = Some bs \<Longrightarrow> \<forall>b \<in> set bs. b < 256"
  by (induction s arbitrary: bs) (fastforce dest: utf8_char_octets split: option.splits)+

lemma map_unat_of_nat: "\<forall>b \<in> set bs. b < 256 \<Longrightarrow> List.map (unat \<circ> (of_nat :: nat \<Rightarrow> 8 word)) bs = bs"
  by (induction bs) auto

lemma utf8_decode_encode: "utf8_encode s = Some bs \<Longrightarrow> utf8_decode bs = Some s"
  by (auto simp: utf8_encode_def utf8_decode_def map_unat_of_nat utf8_octets_bound
      intro!: utf8_points_octets)

lemma utf8_encode_Some_iff: "(\<exists>bs. utf8_encode s = Some bs) \<longleftrightarrow> (\<forall>c \<in> set s. scalar c)"
proof (induction s)
  case (Cons c s)
  then show ?case
    using utf8_char_eq_None_iff [of c] by (auto simp: utf8_encode_def split: option.splits)
qed (simp add: utf8_encode_def)

lemma utf8_encode_length: "utf8_encode s = Some bs \<Longrightarrow> length s \<le> length bs"
proof (induction s arbitrary: bs)
  case (Cons c s)
  then obtain cs r where "utf8_char c = Some cs" "utf8_octets s = Some r" "bs = List.map of_nat (cs @ r)"
    by (auto simp: utf8_encode_def split: option.splits)
  moreover have "cs \<noteq> []"
    using \<open>utf8_char c = Some cs\<close> by (auto simp: utf8_char_def split: if_splits)
  ultimately show ?case using Cons.IH by (cases cs) (auto simp: utf8_encode_def)
qed simp

section \<open>Decimal text\<close>

abbreviation is_digit :: "nat \<Rightarrow> bool" where
  "is_digit c \<equiv> 48 \<le> c \<and> c \<le> 57"

fun nat_digits :: "nat \<Rightarrow> pystr" where
  "nat_digits n = (if n < 10 then [48 + n] else nat_digits (n div 10) @ [48 + n mod 10])"

declare nat_digits.simps [simp del]

definition digits_nat :: "pystr \<Rightarrow> nat" where
  "digits_nat s = foldl (\<lambda>a d. 10 * a + (d - 48)) 0 s"

definition int_text :: "int \<Rightarrow> pystr" where
  "int_text i = (if i < 0 then 45 # nat_digits (nat (- i)) else nat_digits (nat i))"

lemma digits_nat_digits [simp]: "digits_nat (nat_digits n) = n"
proof (induction n rule: nat_digits.induct)
  case (1 n)
  then show ?case by (subst nat_digits.simps) (auto simp: digits_nat_def)
qed

lemma nat_digits_are_digits: "c \<in> set (nat_digits n) \<Longrightarrow> is_digit c"
proof (induction n rule: nat_digits.induct)
  case (1 n)
  then show ?case by (subst (asm) nat_digits.simps) (auto split: if_splits)
qed

lemma nat_digits_nonempty [simp]: "nat_digits n \<noteq> []"
  by (subst nat_digits.simps) simp

lemma hd_nat_digits: "hd (nat_digits n) = 48 \<longleftrightarrow> n = 0"
proof (induction n rule: nat_digits.induct)
  case (1 n)
  then show ?case
    by (subst nat_digits.simps) (auto simp: hd_append)
qed

lemma nat_digits_zero: "nat_digits 0 = [48]"
  by (subst nat_digits.simps) simp

lemma inj_nat_digits: "nat_digits m = nat_digits n \<longleftrightarrow> m = n"
  by (metis digits_nat_digits)

end
