(* ===== verification/Errors.thy ===== *)
theory Errors
  imports Prelude
begin

text \<open>
  The exceptions of the program: the public hierarchy of \<open>src/paqto/core/errors.py\<close> and the
  built-in exceptions its code raises or catches. An exception value is its class; message
  texts and chained causes are not modelled. \<open>exn_bases\<close> lists the direct base classes, in
  the order of the \<open>class\<close> statement, and \<open>exn_isa\<close> is \<open>isinstance\<close>: it decides which
  \<open>except\<close> clause catches an exception.

  The built-in part follows Python 3.11 and later, where \<open>asyncio.TimeoutError\<close> is the
  built-in \<open>TimeoutError\<close> (a subclass of \<open>OSError\<close>). \<open>AsyncioTimeoutError\<close> is the class of that name
  in Python 3.10, which the program supports too: there it is a direct subclass of \<open>Exception\<close>, and
  what \<open>asyncio.wait_for\<close> raises when the time is over.
\<close>

datatype exn =
    PaqtoError
  | AlreadyStartedError
  | NotStartedError
  | TransportError
  | ConnectionClosedError
  | DiscoveryError
  | SerializationError
  | MessageRoutingError
  | PaqtoTimeoutError
  | ConnectionIdleTimeoutError
  | ResourceLimitError
  | PeerNotFoundError
  | PeerExpiredError
  | PeerAuthenticationError
  | PeerIdentityMismatchError
  | ProtocolError
  | ProtocolHandshakeError
  | ProtocolVersionError
  | ProtocolFrameError
  | ProtocolHandshakeTimeoutError
  | RequestError
  | RequestTimeoutError
  | AcknowledgementError
  | AcknowledgementTimeoutError
  | AcknowledgementUnavailableError
  | NoEndpointError
  | BaseException
  | ExceptionClass
  | CancelledError
  | TypeError
  | ValueError
  | UnicodeError
  | KeyError
  | OverflowError
  | ArithmeticError
  | RuntimeError
  | RecursionError
  | OSError
  | BuiltinConnectionError
  | TimeoutError
  | AsyncioTimeoutError
  | EOFError
  | IncompleteReadError
  | QueueFull
  | AssertionError

fun exn_bases :: "exn \<Rightarrow> exn list" where
  "exn_bases PaqtoError = [ExceptionClass]"
| "exn_bases AlreadyStartedError = [PaqtoError]"
| "exn_bases NotStartedError = [PaqtoError]"
| "exn_bases TransportError = [PaqtoError]"
| "exn_bases ConnectionClosedError = [TransportError]"
| "exn_bases DiscoveryError = [PaqtoError]"
| "exn_bases SerializationError = [PaqtoError]"
| "exn_bases MessageRoutingError = [PaqtoError]"
| "exn_bases PaqtoTimeoutError = [PaqtoError]"
| "exn_bases ConnectionIdleTimeoutError = [PaqtoTimeoutError]"
| "exn_bases ResourceLimitError = [PaqtoError]"
| "exn_bases PeerNotFoundError = [PaqtoError]"
| "exn_bases PeerExpiredError = [PeerNotFoundError]"
| "exn_bases PeerAuthenticationError = [PaqtoError]"
| "exn_bases PeerIdentityMismatchError = [PeerAuthenticationError]"
| "exn_bases ProtocolError = [PaqtoError]"
| "exn_bases ProtocolHandshakeError = [ProtocolError]"
| "exn_bases ProtocolVersionError = [ProtocolHandshakeError]"
| "exn_bases ProtocolFrameError = [ProtocolError]"
| "exn_bases ProtocolHandshakeTimeoutError = [ProtocolHandshakeError, PaqtoTimeoutError]"
| "exn_bases RequestError = [PaqtoError]"
| "exn_bases RequestTimeoutError = [RequestError, PaqtoTimeoutError]"
| "exn_bases AcknowledgementError = [ProtocolError]"
| "exn_bases AcknowledgementTimeoutError = [AcknowledgementError, PaqtoTimeoutError]"
| "exn_bases AcknowledgementUnavailableError = [AcknowledgementError]"
| "exn_bases NoEndpointError = [PaqtoError]"
| "exn_bases BaseException = []"
| "exn_bases ExceptionClass = [BaseException]"
| "exn_bases CancelledError = [BaseException]"
| "exn_bases TypeError = [ExceptionClass]"
| "exn_bases ValueError = [ExceptionClass]"
| "exn_bases UnicodeError = [ValueError]"
| "exn_bases KeyError = [ExceptionClass]"
| "exn_bases ArithmeticError = [ExceptionClass]"
| "exn_bases OverflowError = [ArithmeticError]"
| "exn_bases RuntimeError = [ExceptionClass]"
| "exn_bases RecursionError = [RuntimeError]"
| "exn_bases OSError = [ExceptionClass]"
| "exn_bases BuiltinConnectionError = [OSError]"
| "exn_bases TimeoutError = [OSError]"
| "exn_bases AsyncioTimeoutError = [ExceptionClass]"
| "exn_bases EOFError = [ExceptionClass]"
| "exn_bases IncompleteReadError = [EOFError]"
| "exn_bases QueueFull = [ExceptionClass]"
| "exn_bases AssertionError = [ExceptionClass]"

text \<open>
  \<open>isinstance(e, c)\<close>: \<open>c\<close> is reached from the class of \<open>e\<close> through base classes. No chain
  of bases is longer than seven classes, which bounds the search.
\<close>

fun exn_ancestors :: "nat \<Rightarrow> exn \<Rightarrow> exn list" where
  "exn_ancestors 0 e = [e]"
| "exn_ancestors (Suc n) e = e # concat (List.map (exn_ancestors n) (exn_bases e))"

definition exn_isa :: "exn \<Rightarrow> exn \<Rightarrow> bool" where
  "exn_isa e c \<longleftrightarrow> c \<in> set (exn_ancestors 7 e)"

definition exn_in :: "exn \<Rightarrow> exn list \<Rightarrow> bool" where
  "exn_in e cs \<longleftrightarrow> list_ex (exn_isa e) cs"

text \<open>\<open>try: m except (cs): raise e\<close>: exceptions of other classes pass through.\<close>

definition catching :: "exn list \<Rightarrow> exn \<Rightarrow> exn + 'a \<Rightarrow> exn + 'a" where
  "catching cs e m = (case m of Inr x \<Rightarrow> Inr x | Inl x \<Rightarrow> Inl (if exn_in x cs then e else x))"

lemma catching_simps [simp]:
  "catching cs e (Inr x) = Inr x"
  "catching cs e (Inl y) = Inl (if exn_in y cs then e else y)"
  by (simp_all add: catching_def)

lemma catching_eq_Inr_iff [res_simps]: "catching cs e m = Inr x \<longleftrightarrow> m = Inr x"
  by (cases m) auto

inductive exn_subclass :: "exn \<Rightarrow> exn \<Rightarrow> bool" where
  refl: "exn_subclass e e"
| base: "b \<in> set (exn_bases e) \<Longrightarrow> exn_subclass b c \<Longrightarrow> exn_subclass e c"

lemma exn_ancestors_subclass: "c \<in> set (exn_ancestors n e) \<Longrightarrow> exn_subclass e c"
  by (induction n arbitrary: e) (auto intro: exn_subclass.intros)

lemma exn_ancestors_eval [simp]:
  "exn_ancestors (numeral k) e =
     e # concat (List.map (exn_ancestors (pred_numeral k)) (exn_bases e))"
  by (simp add: numeral_eq_Suc)

text \<open>The bound is enough: one more level of bases adds nothing.\<close>

lemma exn_ancestors_closed:
  "b \<in> set (exn_bases e) \<Longrightarrow> c \<in> set (exn_ancestors 7 b) \<Longrightarrow> c \<in> set (exn_ancestors 7 e)"
  by (cases e; simp; fastforce)

lemma exn_subclass_isa: "exn_subclass e c \<Longrightarrow> exn_isa e c"
proof (induction rule: exn_subclass.induct)
  case (refl e)
  then show ?case by (simp add: exn_isa_def)
next
  case (base b e c)
  from base.hyps(1) base.IH show ?case
    unfolding exn_isa_def by (rule exn_ancestors_closed)
qed

lemma exn_isa_iff: "exn_isa e c \<longleftrightarrow> exn_subclass e c"
  using exn_subclass_isa exn_ancestors_subclass exn_isa_def by blast

lemma exn_isa_refl [simp]: "exn_isa e e"
  by (simp add: exn_isa_iff exn_subclass.refl)

lemma exn_isa_trans: "exn_isa a b \<Longrightarrow> exn_isa b c \<Longrightarrow> exn_isa a c"
  unfolding exn_isa_iff by (induction rule: exn_subclass.induct) (auto intro: exn_subclass.base)

text \<open>
  The classes that node code separates: cancellation is never an \<open>Exception\<close>, and
  every exception of the program is one.
\<close>

lemma cancelled_not_exception [simp]: "\<not> exn_isa CancelledError ExceptionClass"
  by (simp add: exn_isa_def)

end
