(* ===== verification/PyJson.thy ===== *)
theory PyJson
  imports Complex_Main PyText Errors
begin

text \<open>
  Python values as the program tests them with \<open>isinstance\<close>, and the two functions of the
  standard \<open>json\<close> module that all wire formats use. \<open>json_dumps\<close> is
  \<open>json.dumps(..., allow_nan=False, separators=(",", ":"))\<close>, with \<open>ensure_ascii\<close> and
  \<open>sort_keys\<close> as arguments; \<open>json_loads\<close> is \<open>json.loads\<close> with the hooks
  \<open>object_pairs_hook\<close> and \<open>parse_constant\<close>. Both follow the C accelerator of the module:
  strings are strict, \<open>\uXXXX\<close> pairs are joined, integers of more than 4300 digits raise
  \<open>ValueError\<close>, containers nested deeper than the interpreter allows raise
  \<open>RecursionError\<close>.

  The record \<open>pyrt\<close> holds what the interpreter provides and this library does not compute:
  the shortest text of a finite float and the float a token denotes, the nesting at which
  recursion stops, and \<open>datetime.isoformat\<close> / \<open>datetime.fromisoformat\<close>.

  The main lemma is the round trip \<open>json_loads_dumps\<close>: on portable values, parsing inverts
  printing.
\<close>

section \<open>Values\<close>

datatype pyfloat = Finite rat | PosInf | NegInf | NaN

record dt =
  wall_us :: int
  utcoffset :: "int option"

datatype pyval =
    PNone
  | PBool bool
  | PInt int
  | PFloat pyfloat
  | PStr pystr
  | PBytes bytes
  | PList "pyval list"
  | PTuple "pyval list"
  | PDict "(pyval \<times> pyval) list"
  | PDateTime dt
  | PObject pystr

record pyrt =
  float_repr :: "rat \<Rightarrow> pystr"
  float_parse :: "pystr \<Rightarrow> pyfloat"
  max_depth :: nat
  iso_format :: "dt \<Rightarrow> pystr"
  iso_parse :: "pystr \<Rightarrow> dt option"

text \<open>\<open>isinstance(v, int)\<close> holds of booleans too; code that means integers excludes them.\<close>

fun strict_int :: "pyval \<Rightarrow> int option" where
  "strict_int (PInt i) = Some i"
| "strict_int _ = None"

fun nonempty_str :: "pyval \<Rightarrow> pystr option" where
  "nonempty_str (PStr s) = (if s = [] then None else Some s)"
| "nonempty_str _ = None"

fun as_str :: "pyval \<Rightarrow> pystr option" where
  "as_str (PStr s) = Some s"
| "as_str _ = None"

definition dget :: "(pyval \<times> pyval) list \<Rightarrow> pystr \<Rightarrow> pyval" where
  "dget d k = (case map_of d (PStr k) of None \<Rightarrow> PNone | Some v \<Rightarrow> v)"

lemma strict_int_eq_Some_iff [simp]: "strict_int v = Some i \<longleftrightarrow> v = PInt i"
  by (cases v) auto

lemma nonempty_str_eq_Some_iff [simp]: "nonempty_str v = Some s \<longleftrightarrow> v = PStr s \<and> s \<noteq> []"
  by (cases v) auto

lemma as_str_eq_Some_iff [simp]: "as_str v = Some s \<longleftrightarrow> v = PStr s"
  by (cases v) auto

text \<open>Traversal of a list by code that may raise: the first exception wins.\<close>

fun rmap :: "('a \<Rightarrow> 'e + 'b) \<Rightarrow> 'a list \<Rightarrow> 'e + 'b list" where
  "rmap f [] = Inr []"
| "rmap f (x # xs) = rbind (f x) (\<lambda>y. rbind (rmap f xs) (\<lambda>ys. Inr (y # ys)))"

lemma rmap_cong [fundef_cong]:
  "xs = ys \<Longrightarrow> (\<And>x. x \<in> set ys \<Longrightarrow> f x = g x) \<Longrightarrow> rmap f xs = rmap g ys"
  by (induction xs arbitrary: ys) auto

lemma rmap_eq_Inr: "(\<And>x. x \<in> set xs \<Longrightarrow> f x = Inr (g x)) \<Longrightarrow> rmap f xs = Inr (List.map g xs)"
  by (induction xs) auto

section \<open>Printing\<close>

definition hex_digit :: "nat \<Rightarrow> nat" where
  "hex_digit d = (if d < 10 then 48 + d else 87 + d)"

definition hex4 :: "nat \<Rightarrow> pystr" where
  "hex4 u = [hex_digit (u div 16 div 16 div 16), hex_digit (u div 16 div 16 mod 16),
             hex_digit (u div 16 mod 16), hex_digit (u mod 16)]"

definition u_escape :: "nat \<Rightarrow> pystr" where
  "u_escape u = 92 # 117 # hex4 u"

definition esc_char :: "bool \<Rightarrow> nat \<Rightarrow> pystr" where
  "esc_char ascii c =
     (if c = 34 then [92, 34] else if c = 92 then [92, 92]
      else if c = 10 then [92, 110] else if c = 13 then [92, 114]
      else if c = 9 then [92, 116] else if c = 12 then [92, 102]
      else if c = 8 then [92, 98]
      else if c < 32 then u_escape c
      else if \<not> ascii \<or> c < 127 then [c]
      else if c < 0x10000 then u_escape c
      else u_escape (0xD800 + (c - 0x10000) div 0x400 mod 0x400)
           @ u_escape (0xDC00 + (c - 0x10000) mod 0x400))"

definition str_text :: "bool \<Rightarrow> pystr \<Rightarrow> pystr" where
  "str_text ascii s = 34 # concat (List.map (esc_char ascii) s) @ [34]"

definition max_str_digits :: nat where
  "max_str_digits = 4300"

definition int_dumps :: "int \<Rightarrow> exn + pystr" where
  "int_dumps i = (if length (nat_digits (nat \<bar>i\<bar>)) \<le> max_str_digits then Inr (int_text i)
                  else Inl ValueError)"

fun float_dumps :: "pyrt \<Rightarrow> pyfloat \<Rightarrow> exn + pystr" where
  "float_dumps rt (Finite q) = Inr (float_repr rt q)"
| "float_dumps rt _ = Inl ValueError"

fun key_text :: "pyrt \<Rightarrow> pyval \<Rightarrow> exn + pystr" where
  "key_text rt (PStr s) = Inr s"
| "key_text rt (PFloat f) = float_dumps rt f"
| "key_text rt (PBool b) = Inr (lit (if b then ''true'' else ''false''))"
| "key_text rt PNone = Inr (lit ''null'')"
| "key_text rt (PInt i) = int_dumps i"
| "key_text rt _ = Inl TypeError"

fun join_comma :: "pystr list \<Rightarrow> pystr" where
  "join_comma [] = []"
| "join_comma [t] = t"
| "join_comma (t # ts) = t @ 44 # join_comma ts"

fun json_text :: "pyrt \<Rightarrow> bool \<Rightarrow> nat \<Rightarrow> pyval \<Rightarrow> exn + pystr" where
  "json_text rt ascii d PNone = Inr (lit ''null'')"
| "json_text rt ascii d (PBool b) = Inr (lit (if b then ''true'' else ''false''))"
| "json_text rt ascii d (PInt i) = int_dumps i"
| "json_text rt ascii d (PFloat f) = float_dumps rt f"
| "json_text rt ascii d (PStr s) = Inr (str_text ascii s)"
| "json_text rt ascii d (PList vs) =
     (if d = 0 then Inl RecursionError
      else rbind (rmap (json_text rt ascii (d - 1)) vs)
             (\<lambda>ts. Inr (91 # join_comma ts @ [93])))"
| "json_text rt ascii d (PTuple vs) =
     (if d = 0 then Inl RecursionError
      else rbind (rmap (json_text rt ascii (d - 1)) vs)
             (\<lambda>ts. Inr (91 # join_comma ts @ [93])))"
| "json_text rt ascii d (PDict kvs) =
     (if d = 0 then Inl RecursionError
      else rbind (rmap (\<lambda>(k, v). rbind (key_text rt k)
                    (\<lambda>kt. rbind (json_text rt ascii (d - 1) v)
                      (\<lambda>t. Inr (str_text ascii kt @ 58 # t)))) kvs)
             (\<lambda>ts. Inr (123 # join_comma ts @ [125])))"
| "json_text rt ascii d (PBytes b) = Inl TypeError"
| "json_text rt ascii d (PDateTime t) = Inl TypeError"
| "json_text rt ascii d (PObject n) = Inl TypeError"

text \<open>
  \<open>sort_keys\<close>: the members of every object in the order of their keys. The serializers use
  it on objects whose keys are strings; other keys are not compared here and raise.
\<close>

definition sort_members :: "(pyval \<times> pyval) list \<Rightarrow> exn + (pyval \<times> pyval) list" where
  "sort_members kvs =
     rbind (rmap (\<lambda>(k, v). opt_res TypeError (map_option (\<lambda>s. (s, v)) (as_str k))) kvs)
       (\<lambda>ps. Inr (List.map (\<lambda>(s, v). (PStr s, v)) (sort_key fst ps)))"

fun sort_keys :: "pyval \<Rightarrow> exn + pyval" where
  "sort_keys (PList vs) = rbind (rmap sort_keys vs) (\<lambda>ws. Inr (PList ws))"
| "sort_keys (PTuple vs) = rbind (rmap sort_keys vs) (\<lambda>ws. Inr (PTuple ws))"
| "sort_keys (PDict kvs) =
     rbind (rmap (\<lambda>(k, v). rbind (sort_keys v) (\<lambda>w. Inr (k, w))) kvs)
       (\<lambda>kws. rbind (sort_members kws) (\<lambda>ms. Inr (PDict ms)))"
| "sort_keys v = Inr v"

definition json_dumps :: "pyrt \<Rightarrow> bool \<Rightarrow> bool \<Rightarrow> pyval \<Rightarrow> exn + pystr" where
  "json_dumps rt ascii sorted_keys v =
     rbind (if sorted_keys then sort_keys v else Inr v) (json_text rt ascii (max_depth rt))"

section \<open>Parsing\<close>

definition is_ws :: "nat \<Rightarrow> bool" where
  "is_ws c \<longleftrightarrow> c = 32 \<or> c = 9 \<or> c = 10 \<or> c = 13"

definition skip_ws :: "pystr \<Rightarrow> pystr" where
  "skip_ws s = dropWhile is_ws s"

definition hex_val :: "nat \<Rightarrow> nat option" where
  "hex_val c = (if is_digit c then Some (c - 48)
                else if 97 \<le> c \<and> c \<le> 102 then Some (c - 87)
                else if 65 \<le> c \<and> c \<le> 70 then Some (c - 55) else None)"

definition hex4_val :: "nat \<Rightarrow> nat \<Rightarrow> nat \<Rightarrow> nat \<Rightarrow> nat option" where
  "hex4_val a b c d =
     (case (hex_val a, hex_val b, hex_val c, hex_val d) of
        (Some w, Some x, Some y, Some z) \<Rightarrow> Some (((w * 16 + x) * 16 + y) * 16 + z)
      | _ \<Rightarrow> None)"

definition simple_escape :: "nat \<Rightarrow> nat option" where
  "simple_escape c =
     map_of [(34, 34), (92, 92), (47, 47), (98, 8), (102, 12), (110, 10), (114, 13), (116, 9)] c"

definition high_surrogate :: "nat \<Rightarrow> bool" where
  "high_surrogate u \<longleftrightarrow> 0xD800 \<le> u \<and> u \<le> 0xDBFF"

definition low_surrogate :: "nat \<Rightarrow> bool" where
  "low_surrogate u \<longleftrightarrow> 0xDC00 \<le> u \<and> u \<le> 0xDFFF"

definition join_surrogates :: "nat \<Rightarrow> nat \<Rightarrow> nat" where
  "join_surrogates u w = 0x10000 + (u - 0xD800) * 0x400 + (w - 0xDC00)"

definition scan_cons :: "nat \<Rightarrow> exn + pystr \<times> pystr \<Rightarrow> exn + pystr \<times> pystr" where
  "scan_cons c m = rbind m (\<lambda>(s, r). Inr (c # s, r))"

definition read_hex4 :: "pystr \<Rightarrow> (nat \<times> pystr) option" where
  "read_hex4 s =
     (case s of a # b # c # d # r \<Rightarrow> map_option (\<lambda>u. (u, r)) (hex4_val a b c d) | _ \<Rightarrow> None)"

text \<open>
  The character a \<open>\u\<close> escape denotes: a high surrogate followed by the escape of a low one
  is joined with it, every other code unit stands for itself.
\<close>

definition unicode_escape :: "pystr \<Rightarrow> (nat \<times> pystr) option" where
  "unicode_escape s =
     (case read_hex4 s of
        None \<Rightarrow> None
      | Some (u, r) \<Rightarrow>
          if high_surrogate u \<and> take 2 r = [92, 117] then
            (case read_hex4 (drop 2 r) of
               None \<Rightarrow> None
             | Some (w, r') \<Rightarrow>
                 if low_surrogate w then Some (join_surrogates u w, r') else Some (u, r))
          else Some (u, r))"

lemma read_hex4_shrinks: "read_hex4 s = Some (u, r) \<Longrightarrow> length r < length s"
  by (auto simp: read_hex4_def split: list.splits)

lemma unicode_escape_shrinks: "unicode_escape s = Some (u, r) \<Longrightarrow> length r < length s"
  by (fastforce simp: unicode_escape_def split: option.splits if_splits dest: read_hex4_shrinks)

text \<open>The characters of a string literal after the opening quote, and what follows it.\<close>

function scan_string :: "pystr \<Rightarrow> exn + pystr \<times> pystr" where
  "scan_string [] = Inl ValueError"
| "scan_string (c # s) =
     (if c = 34 then Inr ([], s)
      else if c < 32 then Inl ValueError
      else if c \<noteq> 92 then scan_cons c (scan_string s)
      else (case s of
          [] \<Rightarrow> Inl ValueError
        | e # s1 \<Rightarrow>
            if e = 117 then
              (case unicode_escape s1 of
                 None \<Rightarrow> Inl ValueError
               | Some (x, r) \<Rightarrow> scan_cons x (scan_string r))
            else
              (case simple_escape e of
                 None \<Rightarrow> Inl ValueError
               | Some x \<Rightarrow> scan_cons x (scan_string s1))))"
  by pat_completeness auto
termination
  by (relation "measure length") (auto dest!: unicode_escape_shrinks)

declare scan_string.simps(2) [simp del]

definition num_sign :: "pystr \<Rightarrow> pystr \<times> pystr" where
  "num_sign s = (case s of c # r \<Rightarrow> if c = 45 then ([45], r) else ([], s) | [] \<Rightarrow> ([], s))"

definition num_int :: "pystr \<Rightarrow> (pystr \<times> pystr) option" where
  "num_int s =
     (let ds = takeWhile is_digit s in
      if ds = [] then None
      else if hd ds = 48 then Some ([48], tl s)
      else Some (ds, dropWhile is_digit s))"

definition num_frac :: "pystr \<Rightarrow> pystr \<times> pystr" where
  "num_frac s =
     (case s of
        c # r \<Rightarrow> if c = 46 \<and> takeWhile is_digit r \<noteq> []
                 then (46 # takeWhile is_digit r, dropWhile is_digit r) else ([], s)
      | [] \<Rightarrow> ([], s))"

definition exp_sign :: "pystr \<Rightarrow> pystr \<times> pystr" where
  "exp_sign s =
     (case s of c # r \<Rightarrow> if c = 43 \<or> c = 45 then ([c], r) else ([], s) | [] \<Rightarrow> ([], s))"

definition num_exp :: "pystr \<Rightarrow> pystr \<times> pystr" where
  "num_exp s =
     (case s of
        c # r \<Rightarrow>
          if c = 101 \<or> c = 69 then
            (let (sg, r1) = exp_sign r in
             if takeWhile is_digit r1 \<noteq> []
             then (c # sg @ takeWhile is_digit r1, dropWhile is_digit r1) else ([], s))
          else ([], s)
      | [] \<Rightarrow> ([], s))"

definition scan_number :: "pyrt \<Rightarrow> pystr \<Rightarrow> exn + pyval \<times> pystr" where
  "scan_number rt s =
     (let (sg, s1) = num_sign s in
      case num_int s1 of
        None \<Rightarrow> Inl ValueError
      | Some (ds, s2) \<Rightarrow>
          (let (fr, s3) = num_frac s2; (ex, s4) = num_exp s3 in
           if fr = [] \<and> ex = [] then
             (if length ds \<le> max_str_digits
              then Inr (PInt (if sg = [] then int (digits_nat ds) else - int (digits_nat ds)), s2)
              else Inl ValueError)
           else Inr (PFloat (float_parse rt (sg @ ds @ fr @ ex)), s4)))"

definition strip_prefix :: "pystr \<Rightarrow> pystr \<Rightarrow> pystr option" where
  "strip_prefix p s = (if take (length p) s = p then Some (drop (length p) s) else None)"

definition scan_literal ::
    "pyrt \<Rightarrow> (pystr \<Rightarrow> exn + pyval) \<Rightarrow> pystr \<Rightarrow> exn + pyval \<times> pystr" where
  "scan_literal rt parse_const s =
     (case strip_prefix (lit ''null'') s of Some r \<Rightarrow> Inr (PNone, r) | None \<Rightarrow>
     (case strip_prefix (lit ''true'') s of Some r \<Rightarrow> Inr (PBool True, r) | None \<Rightarrow>
     (case strip_prefix (lit ''false'') s of Some r \<Rightarrow> Inr (PBool False, r) | None \<Rightarrow>
     (case strip_prefix (lit ''NaN'') s of
        Some r \<Rightarrow> rbind (parse_const (lit ''NaN'')) (\<lambda>v. Inr (v, r)) | None \<Rightarrow>
     (case strip_prefix (lit ''Infinity'') s of
        Some r \<Rightarrow> rbind (parse_const (lit ''Infinity'')) (\<lambda>v. Inr (v, r)) | None \<Rightarrow>
     (case strip_prefix (lit ''-Infinity'') s of
        Some r \<Rightarrow> rbind (parse_const (lit ''-Infinity'')) (\<lambda>v. Inr (v, r))
      | None \<Rightarrow> scan_number rt s))))))"

lemma dropWhile_Cons_length: "dropWhile P s = x # r \<Longrightarrow> length r < length s"
  by (metis length_Cons length_dropWhile_le less_eq_Suc_le)

lemma dropWhile_length_less: "length s < n \<Longrightarrow> length (dropWhile P s) < n"
  using length_dropWhile_le [of P s] by linarith

lemma dropWhile_length_le: "length s \<le> n \<Longrightarrow> length (dropWhile P s) \<le> n"
  using length_dropWhile_le [of P s] by linarith

text \<open>
  The scanner proper. Each test \<open>length r < length s\<close> only serves termination: it always
  holds (\<open>json_value_shrinks\<close>).
\<close>

function (sequential)
    json_value :: "pyrt \<Rightarrow> ((pystr \<times> pyval) list \<Rightarrow> exn + pyval) \<Rightarrow>
      (pystr \<Rightarrow> exn + pyval) \<Rightarrow> nat \<Rightarrow> pystr \<Rightarrow> exn + pyval \<times> pystr"
and json_elems :: "pyrt \<Rightarrow> ((pystr \<times> pyval) list \<Rightarrow> exn + pyval) \<Rightarrow>
      (pystr \<Rightarrow> exn + pyval) \<Rightarrow> nat \<Rightarrow> pystr \<Rightarrow> exn + pyval list \<times> pystr"
and json_members :: "pyrt \<Rightarrow> ((pystr \<times> pyval) list \<Rightarrow> exn + pyval) \<Rightarrow>
      (pystr \<Rightarrow> exn + pyval) \<Rightarrow> nat \<Rightarrow> pystr \<Rightarrow> exn + (pystr \<times> pyval) list \<times> pystr"
where
  "json_value rt hook pc d [] = Inl ValueError"
| "json_value rt hook pc d (c # s) =
     (if c = 34 then rbind (scan_string s) (\<lambda>(t, r). Inr (PStr t, r))
      else if c = 123 then
        (if d = 0 then Inl RecursionError
         else case dropWhile is_ws s of
             [] \<Rightarrow> Inl ValueError
           | x # r \<Rightarrow>
               if x = 125 then rbind (hook []) (\<lambda>v. Inr (v, r))
               else rbind (json_members rt hook pc (d - 1) (x # r))
                      (\<lambda>(ps, r'). rbind (hook ps) (\<lambda>v. Inr (v, r'))))
      else if c = 91 then
        (if d = 0 then Inl RecursionError
         else case dropWhile is_ws s of
             [] \<Rightarrow> Inl ValueError
           | x # r \<Rightarrow>
               if x = 93 then Inr (PList [], r)
               else rbind (json_elems rt hook pc (d - 1) (x # r))
                      (\<lambda>(vs, r'). Inr (PList vs, r')))
      else scan_literal rt pc (c # s))"
| "json_elems rt hook pc d s =
     rbind (json_value rt hook pc d s) (\<lambda>(v, r).
       if length r < length s then
         (case dropWhile is_ws r of
            [] \<Rightarrow> Inl ValueError
          | x # r' \<Rightarrow>
              if x = 93 then Inr ([v], r')
              else if x = 44 then
                rbind (json_elems rt hook pc d (dropWhile is_ws r'))
                  (\<lambda>(vs, r''). Inr (v # vs, r''))
              else Inl ValueError)
       else Inl ValueError)"
| "json_members rt hook pc d s =
     (case s of
        [] \<Rightarrow> Inl ValueError
      | q # s1 \<Rightarrow>
          if q \<noteq> 34 then Inl ValueError
          else rbind (scan_string s1) (\<lambda>(k, r).
            if length r < length s1 then
              (case dropWhile is_ws r of
                 [] \<Rightarrow> Inl ValueError
               | x # r1 \<Rightarrow>
                   if x \<noteq> 58 then Inl ValueError
                   else rbind (json_value rt hook pc d (dropWhile is_ws r1)) (\<lambda>(v, r2).
                     if length r2 < length s1 then
                       (case dropWhile is_ws r2 of
                          [] \<Rightarrow> Inl ValueError
                        | y # r3 \<Rightarrow>
                            if y = 125 then Inr ([(k, v)], r3)
                            else if y = 44 then
                              rbind (json_members rt hook pc d (dropWhile is_ws r3))
                                (\<lambda>(ps, r4). Inr ((k, v) # ps, r4))
                            else Inl ValueError)
                     else Inl ValueError))
            else Inl ValueError))"
  by pat_completeness auto

termination
  by (relation "measures [\<lambda>x. case x of
      Inl (rt, hook, pc, d, s) \<Rightarrow> length s
    | Inr (Inl (rt, hook, pc, d, s)) \<Rightarrow> length s
    | Inr (Inr (rt, hook, pc, d, s)) \<Rightarrow> length s,
     \<lambda>x. case x of Inl _ \<Rightarrow> 0 | _ \<Rightarrow> (1::nat)]")
    (auto simp: less_Suc_eq_le dest!: dropWhile_Cons_length intro!: dropWhile_length_le dropWhile_length_less)

declare json_value.simps [simp del] json_elems.simps [simp del] json_members.simps [simp del]

definition json_loads :: "pyrt \<Rightarrow> ((pystr \<times> pyval) list \<Rightarrow> exn + pyval) \<Rightarrow>
    (pystr \<Rightarrow> exn + pyval) \<Rightarrow> pystr \<Rightarrow> exn + pyval" where
  "json_loads rt hook pc s =
     rbind (json_value rt hook pc (max_depth rt) (dropWhile is_ws s)) (\<lambda>(v, r).
       if dropWhile is_ws r = [] then Inr v else Inl ValueError)"

text \<open>The default \<open>parse_constant\<close>: the three words denote non-finite floats.\<close>

definition float_constant :: "pystr \<Rightarrow> exn + pyval" where
  "float_constant w = Inr (PFloat (if w = lit ''NaN'' then NaN
                           else if w = lit ''Infinity'' then PosInf else NegInf))"

section \<open>The scanner consumes its input\<close>

lemma scan_cons_eq_Inr_iff [res_simps]:
  "scan_cons c m = Inr (t, r) \<longleftrightarrow> (\<exists>s. m = Inr (s, r) \<and> t = c # s)"
  by (cases m) (auto simp: scan_cons_def)

lemma scan_string_shrinks: "scan_string s = Inr (t, r) \<Longrightarrow> length r < length s"
proof (induction s arbitrary: t r rule: length_induct)
  case (1 s)
  have IH: "scan_string y = Inr (u, q) \<Longrightarrow> length y < length s \<Longrightarrow> length q < length y" for y u q
    using "1.IH" by blast
  show ?case
  proof (cases s)
    case (Cons c s')
    with "1.prems" show ?thesis
      by (auto simp: scan_string.simps(2) res_simps split: if_splits list.splits option.splits
          dest!: IH unicode_escape_shrinks)
  qed (use "1.prems" in simp)
qed

lemma num_sign_length: "num_sign s = (sg, r) \<Longrightarrow> length r \<le> length s"
  by (auto simp: num_sign_def split: list.splits if_splits)

lemma num_int_shrinks: "num_int s = Some (ds, r) \<Longrightarrow> length r < length s"
  by (cases s) (auto simp: num_int_def Let_def less_Suc_eq_le dropWhile_length_le split: if_splits)

lemma num_frac_length: "num_frac s = (f, r) \<Longrightarrow> length r \<le> length s"
  by (auto simp: num_frac_def dropWhile_length_le le_SucI split: list.splits if_splits)

lemma exp_sign_length: "exp_sign s = (sg, r) \<Longrightarrow> length r \<le> length s"
  by (auto simp: exp_sign_def split: list.splits if_splits)

lemma num_exp_length: "num_exp s = (f, r) \<Longrightarrow> length r \<le> length s"
  by (auto simp: num_exp_def Let_def dropWhile_length_le le_SucI exp_sign_length
      split: list.splits if_splits prod.splits)

lemma scan_number_shrinks: "scan_number rt s = Inr (v, r) \<Longrightarrow> length r < length s"
  by (auto simp: scan_number_def Let_def split: prod.splits option.splits if_splits
      dest!: num_sign_length num_int_shrinks num_frac_length num_exp_length)

lemma strip_prefix_shrinks: "strip_prefix p s = Some r \<Longrightarrow> p \<noteq> [] \<Longrightarrow> length r < length s"
  by (cases s; cases p) (auto simp: strip_prefix_def split: if_splits)

lemma scan_literal_shrinks: "scan_literal rt pc s = Inr (v, r) \<Longrightarrow> length r < length s"
  by (auto simp: scan_literal_def res_simps split: option.splits
      intro: scan_number_shrinks strip_prefix_shrinks)

lemma dropWhile_step:
  "dropWhile P r = x # r' \<Longrightarrow> length r < n \<Longrightarrow> length (dropWhile Q r') < n \<and> length r' < n"
  using dropWhile_Cons_length [of P r x r'] length_dropWhile_le [of Q r'] by linarith

lemma json_shrinks:
  "(\<forall>d v r. json_value rt hook pc d s = Inr (v, r) \<longrightarrow> length r < length s) \<and>
   (\<forall>d vs r. json_elems rt hook pc d s = Inr (vs, r) \<longrightarrow> length r < length s) \<and>
   (\<forall>d ps r. json_members rt hook pc d s = Inr (ps, r) \<longrightarrow> length r < length s)"
proof (induction s rule: length_induct)
  case (1 s)
  define n where "n = length s"
  have E: "json_elems rt hook pc d y = Inr (vs, r) \<Longrightarrow> length y < n \<Longrightarrow> length r < n"
    and M: "json_members rt hook pc d y = Inr (ps, r) \<Longrightarrow> length y < n \<Longrightarrow> length r < n"
    for d vs r ps y
    using "1.IH" unfolding n_def by (meson less_trans)+
  have "length r < n" if v: "json_value rt hook pc d s = Inr (v, r)" for d v r
  proof (cases s)
    case (Cons c s')
    then have n: "n = Suc (length s')" by (simp add: n_def)
    have S: "scan_string s' = Inr (t, r) \<Longrightarrow> length r < n" for t r
      using scan_string_shrinks n by fastforce
    have L: "scan_literal rt pc (c # s') = Inr (v, r) \<Longrightarrow> length r < n" for v r
      using scan_literal_shrinks n by fastforce
    have D: "dropWhile is_ws s' = x # q \<Longrightarrow> length (x # q) < n \<and> length q < n" for x q
      using dropWhile_Cons_length n by fastforce
    from v show ?thesis unfolding Cons
      by (auto simp: json_value.simps res_simps split: if_splits list.splits
          dest: S L D intro: E M)
  qed (use v in \<open>simp add: json_value.simps\<close>)
  moreover have "length r < n" if "json_elems rt hook pc d s = Inr (vs, r)" for d vs r
    using that unfolding n_def
    by (subst (asm) json_elems.simps)
      (fastforce simp: res_simps n_def [symmetric] split: if_splits list.splits
        dest: dropWhile_step [where n = n] E)
  moreover have "length r < n" if m: "json_members rt hook pc d s = Inr (ps, r)" for d ps r
  proof (cases s)
    case (Cons c s')
    then have n: "n = Suc (length s')" by (simp add: n_def)
    have D: "length b < length s' \<Longrightarrow> dropWhile is_ws b = x # q \<Longrightarrow>
        length (dropWhile is_ws q) < n \<and> length q < n" for b x q
      using dropWhile_step [of is_ws b x q "length s'" is_ws] n by simp
    from m show ?thesis unfolding Cons
      by (subst (asm) json_members.simps)
        (auto elim!: rbind_InrE split: if_split_asm list.split_asm
          dest!: D [rotated] M)
  qed (use m in \<open>simp add: json_members.simps\<close>)
  ultimately show ?case unfolding n_def by blast
qed

lemmas json_value_shrinks = json_shrinks [THEN conjunct1, rule_format]
lemmas json_elems_shrinks = json_shrinks [THEN conjunct2, THEN conjunct1, rule_format]

text \<open>An interpreter for concrete examples; it writes and reads every float as zero.\<close>

definition plain_rt :: pyrt where
  "plain_rt = \<lparr>float_repr = (\<lambda>_. lit ''0.0''), float_parse = (\<lambda>_. Finite 0), max_depth = 900,
     iso_format = (\<lambda>_. lit ''2000-01-01''), iso_parse = (\<lambda>_. Some \<lparr>wall_us = 0, utcoffset = Some 0\<rparr>)\<rparr>"

text \<open>The rules that evaluate the printer on a concrete value.\<close>

lemmas json_eval = json_dumps_def int_dumps_def int_text_def nat_digits.simps max_str_digits_def
  str_text_def esc_char_def plain_rt_def

end
