(* ===== verification/JsonRoundtrip.thy ===== *)
theory JsonRoundtrip
  imports PyJson
begin

text \<open>
  Parsing inverts printing on portable values: \<open>json_ok\<close> describes them (integers the
  interpreter converts, floats whose text denotes them again, encodable strings, objects with
  distinct string keys, bounded nesting), and the locale \<open>object_hook\<close> states what a parser
  relies on from its \<open>object_pairs_hook\<close>: an object with distinct member names is the
  dictionary of its members.
\<close>

section \<open>Numbers\<close>

definition num_stop :: "pystr \<Rightarrow> bool" where
  "num_stop r \<longleftrightarrow> r = [] \<or> hd r = 44 \<or> hd r = 93 \<or> hd r = 125"

definition float_token :: "pystr \<Rightarrow> bool" where
  "float_token t =
     (let (sg, s1) = num_sign t in
      case num_int s1 of
        None \<Rightarrow> False
      | Some (ds, s2) \<Rightarrow>
          (let (fr, s3) = num_frac s2; (ex, s4) = num_exp s3
           in (fr \<noteq> [] \<or> ex \<noteq> []) \<and> s4 = []))"

definition float_ok :: "pyrt \<Rightarrow> rat \<Rightarrow> bool" where
  "float_ok rt q \<longleftrightarrow> float_token (float_repr rt q) \<and> float_parse rt (float_repr rt q) = Finite q"

lemma num_stop_not_digit: "num_stop r \<Longrightarrow> r = [] \<or> \<not> is_digit (hd r)"
  by (auto simp: num_stop_def)

lemma takeWhile_digits_append:
  assumes "num_stop r"
  shows "takeWhile is_digit (s @ r) = takeWhile is_digit s"
    and "dropWhile is_digit (s @ r) = dropWhile is_digit s @ r"
  using num_stop_not_digit [OF assms] by (induction s; cases r; auto)+

lemma num_sign_append: "s \<noteq> [] \<Longrightarrow> num_sign (s @ r) = (fst (num_sign s), snd (num_sign s) @ r)"
  by (cases s) (auto simp: num_sign_def)

lemma num_int_append:
  "num_stop r \<Longrightarrow> num_int s = Some (ds, s') \<Longrightarrow> num_int (s @ r) = Some (ds, s' @ r)"
  by (cases s) (auto simp: num_int_def Let_def takeWhile_digits_append split: if_splits)

lemma num_frac_append:
  "num_stop r \<Longrightarrow> num_frac (s @ r) = (fst (num_frac s), snd (num_frac s) @ r)"
  by (cases s; cases r)
    (auto simp: num_frac_def num_stop_def takeWhile_digits_append [unfolded num_stop_def])

lemma exp_sign_append:
  "num_stop r \<Longrightarrow> exp_sign (s @ r) = (fst (exp_sign s), snd (exp_sign s) @ r)"
  by (cases s; cases r) (auto simp: exp_sign_def num_stop_def)

lemma num_exp_append:
  "num_stop r \<Longrightarrow> num_exp (s @ r) = (fst (num_exp s), snd (num_exp s) @ r)"
proof (cases s)
  case Nil
  then show "num_stop r \<Longrightarrow> ?thesis" by (cases r) (auto simp: num_exp_def num_stop_def)
next
  case (Cons c s')
  assume r: "num_stop r"
  obtain sg s1 where "exp_sign s' = (sg, s1)" by fastforce
  then show ?thesis
    using Cons exp_sign_append [OF r, of s'] takeWhile_digits_append [OF r, of s1]
    by (simp add: num_exp_def)
qed

lemma num_sign_empty [simp]: "num_sign [] = ([], [])"
  by (simp add: num_sign_def)

lemma num_int_empty [simp]: "num_int [] = None"
  by (simp add: num_int_def)

lemma num_parts_text:
  "num_sign s = (sg, s1) \<Longrightarrow> s = sg @ s1"
  "num_int s1 = Some (ds, s2) \<Longrightarrow> s1 = ds @ s2"
  "num_frac s2 = (fr, s3) \<Longrightarrow> s2 = fr @ s3"
  "num_exp s3 = (ex, s4) \<Longrightarrow> s3 = ex @ s4"
     apply (auto simp: num_sign_def split: list.splits if_splits)[1]
    apply (cases s1; auto simp: num_int_def Let_def split: if_splits)
   apply (auto simp: num_frac_def split: list.splits if_splits)[1]
  apply (auto simp: num_exp_def exp_sign_def Let_def split: list.splits if_splits)
  done

lemma scan_number_float:
  assumes "float_token t" "num_stop r"
  shows "scan_number rt (t @ r) = Inr (PFloat (float_parse rt t), r)"
proof -
  obtain sg s1 ds s2 fr s3 ex s4 where
    eqs: "num_sign t = (sg, s1)" "num_int s1 = Some (ds, s2)" "num_frac s2 = (fr, s3)"
      "num_exp s3 = (ex, s4)" and ne: "fr \<noteq> [] \<or> ex \<noteq> []" and s4: "s4 = []"
    using assms(1) by (auto simp: float_token_def Let_def split: prod.splits option.splits)
  then have "t \<noteq> []" by auto
  with eqs assms(2) have apps: "num_sign (t @ r) = (sg, s1 @ r)" "num_int (s1 @ r) = Some (ds, s2 @ r)"
      "num_frac (s2 @ r) = (fr, s3 @ r)" "num_exp (s3 @ r) = (ex, s4 @ r)"
    by (auto simp: num_sign_append num_int_append num_frac_append num_exp_append)
  have "t = sg @ ds @ fr @ ex"
    using eqs s4 by (auto dest!: num_parts_text)
  with apps ne s4 show ?thesis
    by (auto simp: scan_number_def)
qed

lemma num_stop_takeWhile: "num_stop r \<Longrightarrow> takeWhile is_digit r = [] \<and> dropWhile is_digit r = r"
  using num_stop_not_digit [of r] by (cases r) auto

lemma num_frac_exp_stop: "num_stop r \<Longrightarrow> num_frac r = ([], r) \<and> num_exp r = ([], r)"
  by (cases r) (auto simp: num_frac_def num_exp_def num_stop_def)

lemma num_int_digits:
  assumes "num_stop r"
  shows "num_int (nat_digits n @ r) = Some (nat_digits n, r)"
proof (cases "n = 0")
  case True
  with assms show ?thesis by (simp add: nat_digits_zero num_int_def)
next
  case False
  have *: "takeWhile is_digit (nat_digits n) = nat_digits n" "dropWhile is_digit (nat_digits n) = []"
    using nat_digits_are_digits [of _ n] by (simp_all add: takeWhile_eq_all_conv)
  show ?thesis
    using False assms hd_nat_digits [of n]
    by (simp add: num_int_def takeWhile_digits_append *)
qed

lemma hd_nat_digits_digit: "is_digit (hd (nat_digits n))"
  by (rule nat_digits_are_digits [OF hd_in_set [OF nat_digits_nonempty]])

lemma scan_number_int:
  assumes "length (nat_digits (nat \<bar>i\<bar>)) \<le> max_str_digits" "num_stop r"
  shows "scan_number rt (int_text i @ r) = Inr (PInt i, r)"
proof (cases "i < 0")
  case True
  with assms show ?thesis
    using num_frac_exp_stop [OF assms(2)]
    by (simp add: scan_number_def int_text_def num_sign_def num_int_digits)
next
  case False
  obtain c s where c: "nat_digits (nat i) = c # s" "c \<noteq> 45"
    using hd_nat_digits_digit [of "nat i"] by (cases "nat_digits (nat i)") auto
  then have "num_sign (nat_digits (nat i) @ r) = ([], nat_digits (nat i) @ r)"
    by (simp add: num_sign_def)
  with False assms show ?thesis
    using num_frac_exp_stop [OF assms(2)]
    by (simp add: scan_number_def int_text_def num_int_digits)
qed

lemma scan_literal_number:
  assumes "t = c # s" "is_digit c \<or> (c = 45 \<and> s \<noteq> [] \<and> hd s \<noteq> 73)"
  shows "scan_literal rt pc t = scan_number rt t"
proof -
  have no_prefix: "strip_prefix (x # p) t = None" if "x \<noteq> c" for x p
    using that assms(1) by (simp add: strip_prefix_def)
  have "strip_prefix (45 # 73 # p) t = None" for p
    using assms by (cases s) (auto simp: strip_prefix_def)
  moreover have "110 \<noteq> c" "116 \<noteq> c" "102 \<noteq> c" "78 \<noteq> c" "73 \<noteq> c"
    using assms(2) by auto
  ultimately show ?thesis by (simp add: scan_literal_def no_prefix)
qed

section \<open>Strings\<close>

definition str_ok :: "bool \<Rightarrow> pystr \<Rightarrow> bool" where
  "str_ok ascii s \<longleftrightarrow> (\<forall>c \<in> set s. scalar c)"

lemma hex_val_digit [simp]: "d < 16 \<Longrightarrow> hex_val (hex_digit d) = Some d"
  by (auto simp: hex_val_def hex_digit_def)

lemma read_hex4_hex4: "u < 65536 \<Longrightarrow> read_hex4 (hex4 u @ r) = Some (u, r)"
  by (auto simp: read_hex4_def hex4_def hex4_val_def)

lemma unicode_escape_plain:
  "u < 65536 \<Longrightarrow> \<not> high_surrogate u \<Longrightarrow> unicode_escape (hex4 u @ r) = Some (u, r)"
  by (simp add: unicode_escape_def read_hex4_hex4)

lemma unicode_escape_pair:
  assumes "high_surrogate u" "low_surrogate w"
  shows "unicode_escape (hex4 u @ u_escape w @ r) = Some (join_surrogates u w, r)"
proof -
  have "u < 65536" "w < 65536"
    using assms by (auto simp: high_surrogate_def low_surrogate_def)
  with assms show ?thesis
    by (simp add: unicode_escape_def read_hex4_hex4 u_escape_def)
qed

lemma scan_string_u_escape:
  "scan_string (u_escape u @ r) =
     (case unicode_escape (hex4 u @ r) of None \<Rightarrow> Inl ValueError
      | Some (x, q) \<Rightarrow> scan_cons x (scan_string q))"
  by (simp add: u_escape_def scan_string.simps(2))

lemma scan_string_esc_char:
  assumes "scalar c"
  shows "scan_string (esc_char ascii c @ r) = scan_cons c (scan_string r)"
proof -
  consider "c \<in> {34, 92, 10, 13, 9, 12, 8}" | "c < 32" "c \<notin> {10, 13, 9, 12, 8}"
    | "32 \<le> c" "c \<noteq> 34" "c \<noteq> 92" "\<not> ascii \<or> c < 127"
    | "127 \<le> c" "c < 0x10000" "ascii" | "0x10000 \<le> c" "ascii"
    by fastforce
  then show ?thesis
  proof cases
    case 1
    then show ?thesis
      by (auto simp: esc_char_def scan_string.simps(2) simple_escape_def)
  next
    case 2
    then have "esc_char ascii c = u_escape c" "\<not> high_surrogate c" "c < 65536"
      by (auto simp: esc_char_def high_surrogate_def)
    then show ?thesis by (simp add: scan_string_u_escape unicode_escape_plain)
  next
    case 3
    then show ?thesis by (auto simp: esc_char_def scan_string.simps(2))
  next
    case 4
    then have "esc_char ascii c = u_escape c" "\<not> high_surrogate c"
      using assms by (auto simp: esc_char_def high_surrogate_def scalar_def surrogate_def)
    then show ?thesis using 4 by (simp add: scan_string_u_escape unicode_escape_plain)
  next
    case 5
    let ?u = "0xD800 + (c - 0x10000) div 0x400 mod 0x400"
    let ?w = "0xDC00 + (c - 0x10000) mod 0x400"
    from assms have c: "c < 0x110000" by (simp add: scalar_def)
    with 5 have q: "(c - 0x10000) div 0x400 < 0x400" by auto
    have hl: "high_surrogate ?u" "low_surrogate ?w"
      by (auto simp: high_surrogate_def low_surrogate_def)
    have "join_surrogates ?u ?w = 0x10000 + ((c - 0x10000) div 0x400 * 0x400 + (c - 0x10000) mod 0x400)"
      using q by (simp add: join_surrogates_def)
    also have "\<dots> = c" using 5 by (simp only: div_mult_mod_eq)
    finally have "join_surrogates ?u ?w = c" .
    moreover have "esc_char ascii c = u_escape ?u @ u_escape ?w"
      using 5 by (simp add: esc_char_def)
    ultimately show ?thesis
      using unicode_escape_pair [OF hl, of r] by (simp add: scan_string_u_escape)
  qed
qed

lemma scan_string_text:
  "str_ok ascii s \<Longrightarrow> scan_string (concat (List.map (esc_char ascii) s) @ 34 # r) = Inr (s, r)"
  by (induction s)
    (auto simp: scan_string.simps(2) str_ok_def scan_string_esc_char scan_cons_def)

section \<open>Values\<close>

fun json_ok :: "pyrt \<Rightarrow> bool \<Rightarrow> nat \<Rightarrow> pyval \<Rightarrow> bool" where
  "json_ok rt ascii d PNone = True"
| "json_ok rt ascii d (PBool b) = True"
| "json_ok rt ascii d (PInt i) = (length (nat_digits (nat \<bar>i\<bar>)) \<le> max_str_digits)"
| "json_ok rt ascii d (PFloat f) = (case f of Finite q \<Rightarrow> float_ok rt q | _ \<Rightarrow> False)"
| "json_ok rt ascii d (PStr s) = str_ok ascii s"
| "json_ok rt ascii d (PList vs) = (0 < d \<and> list_all (json_ok rt ascii (d - 1)) vs)"
| "json_ok rt ascii d (PDict kvs) =
     (0 < d \<and> distinct (dkeys kvs) \<and>
      list_all (\<lambda>(k, v). (case k of PStr s \<Rightarrow> str_ok ascii s | _ \<Rightarrow> False) \<and>
                       json_ok rt ascii (d - 1) v) kvs)"
| "json_ok rt ascii d _ = False"

text \<open>
  The first character of a printed value is neither white space nor a closing bracket, so the
  scanner finds the value where the printer put it.
\<close>

definition starts_value :: "pystr \<Rightarrow> bool" where
  "starts_value t \<longleftrightarrow> t \<noteq> [] \<and> \<not> is_ws (hd t) \<and> hd t \<noteq> 93 \<and> hd t \<noteq> 125"

lemma starts_value_dropWhile [simp]: "starts_value t \<Longrightarrow> dropWhile is_ws (t @ r) = t @ r"
  by (cases t) (auto simp: starts_value_def)

lemma starts_value_Cons:
  "starts_value t \<Longrightarrow> \<exists>c s. t = c # s \<and> \<not> is_ws c \<and> c \<noteq> 93 \<and> c \<noteq> 125"
  by (cases t) (auto simp: starts_value_def)

definition dict_of :: "(pystr \<times> pyval) list \<Rightarrow> pyval" where
  "dict_of ps = PDict (List.map (\<lambda>(k, v). (PStr k, v)) ps)"

locale object_hook =
  fixes hook :: "(pystr \<times> pyval) list \<Rightarrow> exn + pyval"
  assumes hook_distinct: "distinct (List.map fst ps) \<Longrightarrow> hook ps = Inr (dict_of ps)"
begin

definition reads :: "pyrt \<Rightarrow> (pystr \<Rightarrow> exn + pyval) \<Rightarrow> nat \<Rightarrow> pyval \<Rightarrow> pystr \<Rightarrow> bool" where
  "reads rt pc d v t \<longleftrightarrow>
     starts_value t \<and> (\<forall>r. num_stop r \<longrightarrow> json_value rt hook pc d (t @ r) = Inr (v, r))"

lemma reads_number:
  assumes "t = c # s" "is_digit c \<or> (c = 45 \<and> s \<noteq> [] \<and> is_digit (hd s))"
    and "\<And>r. num_stop r \<Longrightarrow> scan_number rt (t @ r) = Inr (v, r)"
  shows "reads rt pc d v t"
proof -
  have "scan_literal rt pc (t @ r) = scan_number rt (t @ r)" for r
    by (rule scan_literal_number [of _ c "s @ r"]) (use assms in auto)
  with assms show ?thesis
    by (auto simp: reads_def starts_value_def is_ws_def json_value.simps)
qed

lemma reads_int:
  assumes "length (nat_digits (nat \<bar>i\<bar>)) \<le> max_str_digits"
  shows "reads rt pc d (PInt i) (int_text i)"
proof -
  obtain c s where c: "nat_digits (nat \<bar>i\<bar>) = c # s" "is_digit c"
    using hd_nat_digits_digit [of "nat \<bar>i\<bar>"] by (cases "nat_digits (nat \<bar>i\<bar>)") auto
  show ?thesis
  proof (cases "i < 0")
    case True
    with c have "int_text i = 45 # c # s" by (simp add: int_text_def)
    from reads_number [OF this _ scan_number_int [OF assms]] show ?thesis using c by simp
  next
    case False
    with c have "int_text i = c # s" by (simp add: int_text_def)
    from reads_number [OF this _ scan_number_int [OF assms]] show ?thesis using c by simp
  qed
qed

lemma reads_float:
  assumes "float_ok rt q"
  shows "reads rt pc d (PFloat (Finite q)) (float_repr rt q)"
proof -
  let ?t = "float_repr rt q"
  have tok: "float_token ?t" and val: "float_parse rt ?t = Finite q"
    using assms by (auto simp: float_ok_def)
  from tok obtain sg s1 ds s2 where sgn: "num_sign ?t = (sg, s1)" and int: "num_int s1 = Some (ds, s2)"
    by (auto simp: float_token_def split: prod.splits option.splits)
  from int obtain c s where s1: "s1 = c # s" "is_digit c"
    by (cases s1) (auto simp: num_int_def Let_def split: if_splits)
  show ?thesis
  proof (cases "sg = []")
    case True
    with sgn s1 have "?t = c # s" using num_parts_text(1) by fastforce
    from reads_number [OF this _ scan_number_float [OF tok], of rt pc d] s1 val
    show ?thesis by simp
  next
    case False
    with sgn s1 have "?t = 45 # c # s"
      by (auto simp: num_sign_def split: list.splits if_splits)
    from reads_number [OF this _ scan_number_float [OF tok], of rt pc d] s1 val
    show ?thesis by simp
  qed
qed

lemma reads_str: "str_ok ascii s \<Longrightarrow> reads rt pc d (PStr s) (str_text ascii s)"
  by (auto simp: reads_def starts_value_def str_text_def json_value.simps scan_string_text is_ws_def)

lemma reads_word:
  "reads rt pc d PNone (lit ''null'')"
  "reads rt pc d (PBool True) (lit ''true'')"
  "reads rt pc d (PBool False) (lit ''false'')"
  by (auto simp: reads_def starts_value_def is_ws_def json_value.simps scan_literal_def
      strip_prefix_def)

lemma reads_length: "reads rt pc d v t \<Longrightarrow> t \<noteq> []"
  by (auto simp: reads_def starts_value_def)

text \<open>Elements and members: what the scanner does after the opening bracket.\<close>

lemma json_elems_join:
  assumes "list_all2 (reads rt pc d) vs ts" "vs \<noteq> []"
  shows "json_elems rt hook pc d (join_comma ts @ 93 # r) = Inr (vs, r)"
  using assms
proof (induction vs arbitrary: ts)
  case (Cons v vs)
  then obtain t ts' where ts: "ts = t # ts'" "reads rt pc d v t" "list_all2 (reads rt pc d) vs ts'"
    by (auto simp: list_all2_Cons1)
  have "t \<noteq> []" using ts(2) by (rule reads_length)
  show ?case
  proof (cases vs)
    case Nil
    with ts have "ts' = []" by simp
    with ts Nil \<open>t \<noteq> []\<close> show ?thesis
      by (subst json_elems.simps) (auto simp: reads_def num_stop_def is_ws_def)
  next
    case (Cons w ws)
    with ts obtain u us where ts': "ts' = u # us" "reads rt pc d w u"
      by (auto simp: list_all2_Cons1)
    have "starts_value (join_comma ts')"
      using ts' by (cases us) (auto simp: reads_def starts_value_def)
    moreover have "json_elems rt hook pc d (join_comma ts' @ 93 # r) = Inr (vs, r)"
      using Cons.IH ts(3) Cons by simp
    moreover have "json_value rt hook pc d (t @ 44 # join_comma ts' @ 93 # r)
        = Inr (v, 44 # join_comma ts' @ 93 # r)"
      using ts(2) by (simp add: reads_def num_stop_def)
    ultimately show ?thesis
      using ts ts' \<open>t \<noteq> []\<close>
      by (subst json_elems.simps) (simp add: is_ws_def)
  qed
qed simp

definition reads_member ::
    "pyrt \<Rightarrow> (pystr \<Rightarrow> exn + pyval) \<Rightarrow> nat \<Rightarrow> pystr \<times> pyval \<Rightarrow> pystr \<Rightarrow> bool" where
  "reads_member rt pc d kv m \<longleftrightarrow>
     (\<exists>ascii t. str_ok ascii (fst kv) \<and> reads rt pc d (snd kv) t \<and> m = str_text ascii (fst kv) @ 58 # t)"

lemma json_members_join:
  assumes "list_all2 (reads_member rt pc d) ps ms" "ps \<noteq> []"
  shows "json_members rt hook pc d (join_comma ms @ 125 # r) = Inr (ps, r)"
  using assms
proof (induction ps arbitrary: ms)
  case (Cons p ps)
  then obtain m ms' where ms: "ms = m # ms'" "reads_member rt pc d p m"
      "list_all2 (reads_member rt pc d) ps ms'"
    by (auto simp: list_all2_Cons1)
  obtain k v where p: "p = (k, v)" by fastforce
  with ms(2) obtain ascii t where m: "str_ok ascii k" "reads rt pc d v t"
      "m = str_text ascii k @ 58 # t"
    by (auto simp: reads_member_def)
  let ?esc = "concat (List.map (esc_char ascii) k)"
  have val: "json_value rt hook pc d (t @ q) = Inr (v, q)" if "num_stop q" for q
    using m(2) that by (simp add: reads_def)
  have ws: "dropWhile is_ws (t @ q) = t @ q" for q
    using m(2) by (simp add: reads_def)
  show ?case
  proof (cases ps)
    case Nil
    with ms have "ms' = []" by simp
    then have tx: "join_comma ms @ 125 # r = 34 # ?esc @ 34 # 58 # t @ 125 # r"
      using ms m by (simp add: str_text_def)
    show ?thesis unfolding tx
      by (subst json_members.simps)
        (simp add: scan_string_text [OF m(1)] is_ws_def ws val num_stop_def p Nil)
  next
    case (Cons p' ps')
    with ms obtain m' ms'' where ms': "ms' = m' # ms''" "reads_member rt pc d p' m'"
      by (auto simp: list_all2_Cons1)
    then have tx: "join_comma ms @ 125 # r
        = 34 # ?esc @ 34 # 58 # t @ 44 # join_comma ms' @ 125 # r"
      using ms m by (simp add: str_text_def)
    have "dropWhile is_ws (join_comma ms' @ 125 # r) = join_comma ms' @ 125 # r"
      using ms' by (cases ms'') (auto simp: reads_member_def str_text_def is_ws_def)
    moreover have "json_members rt hook pc d (join_comma ms' @ 125 # r) = Inr (ps, r)"
      using Cons.IH ms(3) Cons by simp
    ultimately show ?thesis unfolding tx
      by (subst json_members.simps)
        (simp add: scan_string_text [OF m(1)] is_ws_def ws val num_stop_def p)
  qed
qed simp

lemma rmap_list_all2:
  "(\<And>x. x \<in> set xs \<Longrightarrow> \<exists>y. f x = Inr y \<and> P x y) \<Longrightarrow> \<exists>ys. rmap f xs = Inr ys \<and> list_all2 P xs ys"
proof (induction xs)
  case (Cons x xs)
  then obtain y ys where "f x = Inr y" "P x y" "rmap f xs = Inr ys" "list_all2 P xs ys"
    by (metis list.set_intros)
  then show ?case by auto
qed simp

lemma reads_list:
  assumes "list_all2 (reads rt pc (d - 1)) vs ts" "0 < d"
  shows "reads rt pc d (PList vs) (91 # join_comma ts @ [93])"
proof (cases vs)
  case Nil
  with assms show ?thesis
    by (auto simp: reads_def starts_value_def is_ws_def json_value.simps)
next
  case (Cons w ws)
  with assms obtain u us where ts: "ts = u # us" "reads rt pc (d - 1) w u"
    by (auto simp: list_all2_Cons1)
  then have "starts_value (join_comma ts)"
    by (cases us) (auto simp: reads_def starts_value_def)
  then obtain c s where cs: "join_comma ts = c # s" "\<not> is_ws c" "c \<noteq> 93"
    using starts_value_Cons by blast
  have "json_elems rt hook pc (d - 1) (c # s @ 93 # r) = Inr (vs, r)" for r
    using json_elems_join [OF assms(1), of r] Cons cs by simp
  with cs assms(2) show ?thesis
    by (auto simp: reads_def starts_value_def is_ws_def json_value.simps)
qed

lemma reads_dict:
  assumes "list_all2 (reads_member rt pc (d - 1)) ps ms" "0 < d" "distinct (List.map fst ps)"
  shows "reads rt pc d (dict_of ps) (123 # join_comma ms @ [125])"
proof (cases ps)
  case Nil
  with assms hook_distinct [of "[]"] show ?thesis
    by (auto simp: reads_def starts_value_def is_ws_def json_value.simps)
next
  case (Cons p ps')
  with assms obtain u us where ms: "ms = u # us" "reads_member rt pc (d - 1) p u"
    by (auto simp: list_all2_Cons1)
  then obtain s where s: "join_comma ms = 34 # s"
    by (cases us) (auto simp: reads_member_def str_text_def)
  have "json_members rt hook pc (d - 1) (34 # s @ 125 # r) = Inr (ps, r)" for r
    using json_members_join [OF assms(1), of r] Cons s by simp
  with s assms(2) hook_distinct [OF assms(3)] show ?thesis
    by (auto simp: reads_def starts_value_def is_ws_def json_value.simps)
qed

lemma json_text_reads:
  "json_ok rt ascii d v \<Longrightarrow> \<exists>t. json_text rt ascii d v = Inr t \<and> reads rt pc d v t"
proof (induction v arbitrary: d)
  case (PList vs)
  have "\<exists>t. json_text rt ascii (d - 1) v = Inr t \<and> reads rt pc (d - 1) v t" if "v \<in> set vs" for v
    using PList that by (auto simp: list_all_iff)
  then obtain ts where "rmap (json_text rt ascii (d - 1)) vs = Inr ts"
      "list_all2 (reads rt pc (d - 1)) vs ts"
    using rmap_list_all2 [of vs "json_text rt ascii (d - 1)" "reads rt pc (d - 1)"] by blast
  with PList.prems show ?case by (auto intro: reads_list)
next
  case (PDict kvs)
  let ?text = "\<lambda>(k, v). rbind (key_text rt k) (\<lambda>kt. rbind (json_text rt ascii (d - 1) v)
                  (\<lambda>t. Inr (str_text ascii kt @ 58 # t)))"
  let ?str = "\<lambda>k. case k of PStr s \<Rightarrow> s | _ \<Rightarrow> []"
  let ?member = "\<lambda>(k, v) m. reads_member rt pc (d - 1) (?str k, v) m \<and> k = PStr (?str k)"
  have key: "\<exists>s. k = PStr s \<and> str_ok ascii s" and val: "json_ok rt ascii (d - 1) v"
    if "(k, v) \<in> set kvs" for k v
    using PDict.prems that by (auto simp: list_all_iff split: pyval.splits)
  have keys: "\<forall>kv \<in> set kvs. \<exists>s. fst kv = PStr s"
    using key by fastforce
  have "\<exists>m. ?text kv = Inr m \<and> ?member kv m" if kv_in: "kv \<in> set kvs" for kv
  proof -
    obtain k v where kv: "kv = (k, v)" by fastforce
    obtain s where s: "k = PStr s" "str_ok ascii s" using key [of k v] kv_in kv by auto
    obtain t where "json_text rt ascii (d - 1) v = Inr t" "reads rt pc (d - 1) v t"
      using PDict.IH(2) [of kv v "d - 1"] val kv_in kv by fastforce
    with s kv show ?thesis by (auto simp: reads_member_def)
  qed
  then obtain ms where ms: "rmap ?text kvs = Inr ms" "list_all2 ?member kvs ms"
    using rmap_list_all2 [of kvs ?text ?member] by blast
  let ?ps = "List.map (\<lambda>(k, v). (?str k, v)) kvs"
  have "list_all2 (reads_member rt pc (d - 1)) ?ps ms"
    using ms(2) by (auto simp: list_all2_conv_all_nth split: prod.splits)
  moreover have "distinct (List.map fst ?ps)"
  proof -
    have ps: "List.map fst ?ps = List.map ?str (dkeys kvs)" by auto
    have "inj_on ?str (set (dkeys kvs))"
    proof (rule inj_onI)
      fix k k' assume "k \<in> set (dkeys kvs)" "k' \<in> set (dkeys kvs)" and eq: "?str k = ?str k'"
      then obtain s s' where "k = PStr s" "k' = PStr s'" using keys by fastforce
      with eq show "k = k'" by simp
    qed
    moreover have "distinct (dkeys kvs)" using PDict.prems by simp
    ultimately show ?thesis unfolding ps by (simp only: distinct_map simp_thms)
  qed
  moreover have "dict_of ?ps = PDict kvs"
  proof -
    have "List.map ((\<lambda>(k, v). (PStr k, v)) \<circ> (\<lambda>(k, v). (?str k, v))) kvs = kvs"
      by (rule map_idI) (use keys in fastforce)
    then show ?thesis by (simp add: dict_of_def)
  qed
  ultimately show ?case
    using ms(1) PDict.prems reads_dict [of rt pc d ?ps ms] by simp
next
  case (PInt i)
  then show ?case by (simp add: int_dumps_def reads_int)
next
  case (PFloat f)
  then show ?case by (cases f) (auto simp: reads_float)
qed (auto simp: reads_str reads_word [simplified] split: if_splits)

theorem json_loads_dumps:
  assumes "json_ok rt ascii (max_depth rt) v"
  obtains t where "json_dumps rt ascii False v = Inr t" "json_loads rt hook pc t = Inr v"
proof -
  from json_text_reads [OF assms, of pc] obtain t
    where t: "json_text rt ascii (max_depth rt) v = Inr t" "reads rt pc (max_depth rt) v t"
    by blast
  from t(2) have "json_value rt hook pc (max_depth rt) (t @ []) = Inr (v, [])" "starts_value t"
    by (simp_all add: reads_def num_stop_def)
  then have "json_loads rt hook pc t = Inr v"
    using starts_value_dropWhile [of t "[]"] by (simp add: json_loads_def)
  with t(1) show ?thesis by (intro that) (simp_all add: json_dumps_def)
qed

end

end
