(* ===== verification/SafeJson.thy ===== *)
theory SafeJson
  imports JsonRoundtrip
begin

text \<open>
  The two guards every JSON wire format of the program shares
  (\<open>src/paqto/core/protocol.py\<close>, with copies in \<open>src/paqto/lan/discovery.py\<close> and
  \<open>src/paqto/serializers/_json.py\<close>): \<open>_unique_json_object\<close>, the hook that refuses
  duplicate member names, and \<open>_is_safe_json_value\<close>, the work-list traversal that bounds
  numbers and nesting. The hook is an interpretation of \<open>object_hook\<close>; the traversal is
  proved equal to a structural specification.
\<close>

section \<open>Duplicate member names\<close>

fun unique_json_object_loop ::
    "(pyval \<times> pyval) list \<Rightarrow> (pystr \<times> pyval) list \<Rightarrow> exn + pyval" where
  "unique_json_object_loop result [] = Inr (PDict result)"
| "unique_json_object_loop result ((key, val) # pairs) =
     (if PStr key \<in> set (dkeys result) then Inl ValueError
      else unique_json_object_loop (dput (PStr key) val result) pairs)"

definition unique_json_object :: "(pystr \<times> pyval) list \<Rightarrow> exn + pyval" where
  "unique_json_object pairs = unique_json_object_loop [] pairs"

lemma unique_json_object_loop_eq:
  "unique_json_object_loop result pairs =
     (if distinct (List.map fst pairs) \<and> (\<forall>k \<in> fst ` set pairs. PStr k \<notin> set (dkeys result))
      then Inr (PDict (result @ List.map (\<lambda>(k, v). (PStr k, v)) pairs)) else Inl ValueError)"
proof (induction result pairs rule: unique_json_object_loop.induct)
  case (2 result key val pairs)
  show ?case
  proof (cases "PStr key \<in> set (dkeys result)")
    case False
    then have "dput (PStr key) val result = result @ [(PStr key, val)]"
      by (rule dput_new)
    with 2 False show ?thesis by auto
  qed auto
qed simp

lemma unique_json_object_eq:
  "unique_json_object pairs =
     (if distinct (List.map fst pairs) then Inr (dict_of pairs) else Inl ValueError)"
  by (simp add: unique_json_object_def unique_json_object_loop_eq dict_of_def)

interpretation unique: object_hook unique_json_object
  by unfold_locales (simp add: unique_json_object_eq)

section \<open>What parsing can raise\<close>

definition raises_only :: "exn \<Rightarrow> ('a \<Rightarrow> exn + 'b) \<Rightarrow> bool" where
  "raises_only x f \<longleftrightarrow> (\<forall>a e. f a = Inl e \<longrightarrow> e = x)"

lemma raises_onlyD: "raises_only x f \<Longrightarrow> f a = Inl e \<Longrightarrow> e = x"
  by (simp add: raises_only_def)

lemma scan_string_error: "scan_string s = Inl e \<Longrightarrow> e = ValueError"
proof (induction s rule: scan_string.induct)
  case (2 c s)
  from "2.prems" show ?case
    by (subst (asm) scan_string.simps(2))
      (auto simp: scan_cons_def rbind_eq_Inl_iff split: if_splits list.splits option.splits
        intro: "2.IH")
qed simp

lemma scan_literal_error:
  assumes "raises_only ValueError pc" "scan_literal rt pc s = Inl e"
  shows "e = ValueError"
  using assms(2)
  by (auto simp: scan_literal_def scan_number_def rbind_eq_Inl_iff Let_def
      split: option.splits if_splits prod.splits dest: raises_onlyD [OF assms(1)])

lemma json_scan_errors:
  assumes hook: "raises_only ValueError hook" and pc: "raises_only ValueError pc"
  shows "(\<forall>d e. json_value rt hook pc d s = Inl e \<longrightarrow> e \<in> {ValueError, RecursionError}) \<and>
    (\<forall>d e. json_elems rt hook pc d s = Inl e \<longrightarrow> e \<in> {ValueError, RecursionError}) \<and>
    (\<forall>d e. json_members rt hook pc d s = Inl e \<longrightarrow> e \<in> {ValueError, RecursionError})"
proof (induction s rule: length_induct)
  case (1 s)
  define n where "n = length s"
  define bad where "bad e \<longleftrightarrow> e \<noteq> ValueError \<and> e \<noteq> RecursionError" for e
  have V: "json_value rt hook pc d y = Inl e \<Longrightarrow> length y < n \<Longrightarrow> \<not> bad e"
    and E: "json_elems rt hook pc d y = Inl e \<Longrightarrow> length y < n \<Longrightarrow> \<not> bad e"
    and M: "json_members rt hook pc d y = Inl e \<Longrightarrow> length y < n \<Longrightarrow> \<not> bad e" for d y e
    using "1.IH" unfolding n_def bad_def by auto
  have ok [simp]: "\<not> bad ValueError" "\<not> bad RecursionError" by (simp_all add: bad_def)
  have S: "scan_string y = Inl e \<Longrightarrow> \<not> bad e" for y e
    by (auto dest: scan_string_error)
  have L: "scan_literal rt pc y = Inl e \<Longrightarrow> \<not> bad e" for y e
    using scan_literal_error [OF pc] by (auto simp: bad_def)
  have H: "hook ps = Inl e \<Longrightarrow> \<not> bad e" for ps e
    by (auto dest: raises_onlyD [OF hook])
  have value_s: "\<not> bad e" if v: "json_value rt hook pc d s = Inl e" for d e
  proof (cases s)
    case (Cons c s')
    then have n: "n = Suc (length s')" by (simp add: n_def)
    have D: "dropWhile is_ws s' = x # q \<Longrightarrow> length (x # q) < n" for x q
      using dropWhile_Cons_length n by fastforce
    from v show ?thesis unfolding Cons
      by (subst (asm) json_value.simps)
        (auto elim!: rbind_InlE split: if_split_asm list.split_asm dest!: D dest: S L H E M)
  qed (use v in \<open>simp add: json_value.simps\<close>)
  moreover have "\<not> bad e" if "json_elems rt hook pc d s = Inl e" for d e
    using that value_s
    by (subst (asm) json_elems.simps)
      (auto elim!: rbind_InlE split: if_split_asm list.split_asm simp: n_def [symmetric]
        dest!: dropWhile_step [where n = n and Q = is_ws] dest: E)
  moreover have "\<not> bad e" if m: "json_members rt hook pc d s = Inl e" for d e
  proof (cases s)
    case (Cons c s')
    then have n: "n = Suc (length s')" by (simp add: n_def)
    have D: "dropWhile is_ws b = x # q \<Longrightarrow> length b < length s' \<Longrightarrow>
        length (dropWhile is_ws q) < n \<and> length q < n" for b x q
      using dropWhile_step [of is_ws b x q "length s'" is_ws] n by simp
    from m show ?thesis unfolding Cons
      by (subst (asm) json_members.simps)
        (auto elim!: rbind_InlE split: if_split_asm list.split_asm dest!: D S V M)
  qed (use m in \<open>simp add: json_members.simps\<close>)
  ultimately show ?case unfolding bad_def by blast
qed

lemma unique_json_object_error: "raises_only ValueError unique_json_object"
  by (auto simp: raises_only_def unique_json_object_eq split: if_splits)

lemma float_constant_error: "raises_only ValueError float_constant"
  by (simp add: raises_only_def float_constant_def)

lemma json_loads_error:
  assumes "raises_only ValueError hook" "raises_only ValueError pc"
    and "json_loads rt hook pc t = Inl e"
  shows "e \<in> {ValueError, RecursionError}"
proof -
  have "json_value rt hook pc (max_depth rt) y = Inl e \<Longrightarrow> e \<in> {ValueError, RecursionError}" for y
    using json_scan_errors [of hook pc rt y, OF assms(1,2)] by blast
  with assms(3) show ?thesis
    by (auto simp: json_loads_def elim!: rbind_InlE split: if_splits)
qed

section \<open>Bounded numbers and nesting\<close>

text \<open>\<open>int.bit_length\<close>, of the absolute value.\<close>

fun nat_bit_length :: "nat \<Rightarrow> nat" where
  "nat_bit_length n = (if n = 0 then 0 else Suc (nat_bit_length (n div 2)))"

declare nat_bit_length.simps [simp del]

definition bit_length :: "int \<Rightarrow> nat" where
  "bit_length i = nat_bit_length (nat \<bar>i\<bar>)"

lemma nat_bit_length_le_iff: "nat_bit_length n \<le> k \<longleftrightarrow> n < 2 ^ k"
proof (induction k arbitrary: n)
  case 0
  then show ?case by (subst nat_bit_length.simps) simp
next
  case (Suc k)
  show ?case
  proof (cases "n = 0")
    case False
    then have "nat_bit_length n \<le> Suc k \<longleftrightarrow> n div 2 < 2 ^ k"
      by (simp add: nat_bit_length.simps [of n] Suc.IH)
    then show ?thesis by (simp add: div_less_iff_less_mult mult.commute)
  qed (simp add: nat_bit_length.simps [of 0])
qed

lemma bit_length_le_iff: "bit_length i \<le> k \<longleftrightarrow> \<bar>i\<bar> < 2 ^ k"
  by (simp add: bit_length_def nat_bit_length_le_iff nat_less_iff)

lemma nat_bit_length_mono: "m \<le> n \<Longrightarrow> nat_bit_length m \<le> nat_bit_length n"
  using nat_bit_length_le_iff [of n "nat_bit_length n"] by (simp add: nat_bit_length_le_iff)

lemma digits_le_bits: "length (nat_digits n) \<le> Suc (nat_bit_length n)"
proof (induction n rule: nat_digits.induct)
  case (1 n)
  have mono: "nat_bit_length (n div 10) \<le> nat_bit_length (n div 2)"
    by (rule nat_bit_length_mono, rule div_le_mono2) simp_all
  show ?case
  proof (cases "n < 10")
    case False
    then have "nat_bit_length n = Suc (nat_bit_length (n div 2))"
      by (simp add: nat_bit_length.simps [of n])
    with 1 False mono show ?thesis by (simp add: nat_digits.simps [of n])
  qed (simp add: nat_digits.simps [of n])
qed

fun not_finite :: "pyval \<Rightarrow> bool" where
  "not_finite (PFloat (Finite q)) = False"
| "not_finite (PFloat f) = True"
| "not_finite _ = False"

fun int_too_large :: "nat \<Rightarrow> pyval \<Rightarrow> bool" where
  "int_too_large max_bits (PInt i) = (max_bits < bit_length i)"
| "int_too_large max_bits _ = False"

lemma sum_list_size_snd:
  "sum_list (List.map (\<lambda>kv. Suc (size (snd kv))) kvs) \<le> size_list (size_prod size size) (kvs :: (pyval \<times> pyval) list)"
  by (induction kvs) auto

lemma sum_list_size: "sum_list (List.map (\<lambda>v. Suc (size v)) vs) \<le> size_list size (vs :: pyval list)"
  by (induction vs) auto

text \<open>
  The loop over \<open>pending\<close>. The list is kept with its end first, where \<open>pop()\<close> takes and
  \<open>extend\<close> puts. Tuples are not entered.
\<close>

function safe_pending :: "nat \<Rightarrow> nat \<Rightarrow> (pyval \<times> nat) list \<Rightarrow> bool" where
  "safe_pending max_nesting max_bits [] = True"
| "safe_pending max_nesting max_bits ((item, depth) # pending) =
     (if not_finite item then False
      else if int_too_large max_bits item then False
      else (case item of
          PDict kvs \<Rightarrow>
            if max_nesting \<le> depth then False
            else safe_pending max_nesting max_bits
                   (rev (List.map (\<lambda>kv. (snd kv, depth + 1)) kvs) @ pending)
        | PList vs \<Rightarrow>
            if max_nesting \<le> depth then False
            else safe_pending max_nesting max_bits
                   (rev (List.map (\<lambda>v. (v, depth + 1)) vs) @ pending)
        | _ \<Rightarrow> safe_pending max_nesting max_bits pending))"
  by pat_completeness auto

termination
  by (relation "measure (\<lambda>(mn, mb, ps). sum_list (List.map (\<lambda>p. Suc (size (fst p))) ps))")
    (auto simp: rev_map [symmetric] comp_def sum_list_rev
      intro!: le_imp_less_Suc le_SucI sum_list_size sum_list_size_snd)

declare safe_pending.simps(2) [simp del]

fun safe_value :: "nat \<Rightarrow> nat \<Rightarrow> nat \<Rightarrow> pyval \<Rightarrow> bool" where
  "safe_value mn mb d (PList vs) = (d < mn \<and> list_all (safe_value mn mb (d + 1)) vs)"
| "safe_value mn mb d (PDict kvs) = (d < mn \<and> list_all (\<lambda>(k, v). safe_value mn mb (d + 1) v) kvs)"
| "safe_value mn mb d v = (\<not> not_finite v \<and> \<not> int_too_large mb v)"

lemma safe_pending_eq:
  "safe_pending mn mb ps \<longleftrightarrow> list_all (\<lambda>(v, d). safe_value mn mb d v) ps"
proof (induction mn mb ps rule: safe_pending.induct)
  case (2 mn mb item depth pending)
  then show ?case
    by (subst safe_pending.simps(2), cases item)
      (auto simp: list_all_iff case_prod_beta ball_Un)
qed simp

definition is_safe_json_value :: "pyval \<Rightarrow> bool" where
  "is_safe_json_value v = safe_pending 32 4096 [(v, 0)]"

lemma is_safe_json_value_eq: "is_safe_json_value v \<longleftrightarrow> safe_value 32 4096 0 v"
  by (simp add: is_safe_json_value_def safe_pending_eq)

section \<open>Printing that succeeds is read back\<close>

text \<open>
  \<open>portable\<close> values have string keys, no tuples, and floats that their text denotes. If such a
  value prints at all and its text can be encoded, every other condition of \<open>json_ok\<close> holds:
  the printer has checked nesting and integers, the encoder has checked the characters.
\<close>

fun portable :: "pyrt \<Rightarrow> pyval \<Rightarrow> bool" where
  "portable rt (PFloat f) = (case f of Finite q \<Rightarrow> float_ok rt q | _ \<Rightarrow> True)"
| "portable rt (PList vs) = list_all (portable rt) vs"
| "portable rt (PTuple vs) = False"
| "portable rt (PDict kvs) =
     (distinct (dkeys kvs) \<and> list_all (\<lambda>(k, v). as_str k \<noteq> None \<and> portable rt v) kvs)"
| "portable rt v = True"

lemma str_text_scalar:
  assumes "\<forall>c \<in> set (str_text False s). scalar c"
  shows "str_ok False s"
  unfolding str_ok_def
proof
  fix c assume c: "c \<in> set s"
  show "scalar c"
  proof (cases "c < 127")
    case False
    then have "c \<in> set (esc_char False c)" by (simp add: esc_char_def)
    with c assms show ?thesis by (auto simp: str_text_def)
  qed (simp add: scalar_def surrogate_def)
qed

lemma set_join_comma: "t \<in> set ts \<Longrightarrow> set t \<subseteq> set (join_comma ts)"
  by (induction ts rule: join_comma.induct) auto

lemma rmap_InrD: "rmap f xs = Inr ys \<Longrightarrow> x \<in> set xs \<Longrightarrow> \<exists>y \<in> set ys. f x = Inr y"
  by (induction xs arbitrary: ys) (auto simp: res_simps)

lemma json_text_ok:
  "portable rt v \<Longrightarrow> json_text rt False d v = Inr t \<Longrightarrow> \<forall>c \<in> set t. scalar c \<Longrightarrow>
     json_ok rt False d v"
proof (induction v arbitrary: d t)
  case (PList vs)
  then obtain ts where d: "0 < d" and ts: "rmap (json_text rt False (d - 1)) vs = Inr ts"
      "t = 91 # join_comma ts @ [93]"
    by (auto simp: res_simps split: if_splits)
  have "json_ok rt False (d - 1) v" if v: "v \<in> set vs" for v
  proof -
    obtain u where "u \<in> set ts" "json_text rt False (d - 1) v = Inr u"
      using rmap_InrD [OF ts(1) v] by blast
    moreover have "portable rt v" using PList.prems(1) v by (simp add: list_all_iff)
    ultimately show ?thesis
      using PList.IH [OF v] PList.prems(3) ts(2) set_join_comma by fastforce
  qed
  with d show ?case by (simp add: list_all_iff)
next
  case (PDict kvs)
  let ?text = "\<lambda>(k, v). rbind (key_text rt k) (\<lambda>kt. rbind (json_text rt False (d - 1) v)
                  (\<lambda>t. Inr (str_text False kt @ 58 # t)))"
  from PDict.prems(2) obtain ts where d: "0 < d" and ts: "rmap ?text kvs = Inr ts"
      "t = 123 # join_comma ts @ [125]"
    by (auto simp: res_simps split: if_splits)
  have "(case k of PStr s \<Rightarrow> str_ok False s | _ \<Rightarrow> False) \<and> json_ok rt False (d - 1) v"
    if kv: "(k, v) \<in> set kvs" for k v
  proof -
    obtain s where k: "k = PStr s" and v: "portable rt v"
      using PDict.prems(1) kv by (fastforce simp: list_all_iff)
    obtain u w where u: "u \<in> set ts" "json_text rt False (d - 1) v = Inr w"
        "u = str_text False s @ 58 # w"
      using rmap_InrD [OF ts(1) kv] k by (auto simp: res_simps)
    have "\<forall>c \<in> set u. scalar c"
      using set_join_comma [OF u(1)] PDict.prems(3) ts(2) by auto
    with u k v PDict.IH(2) [OF kv, of v "d - 1" w] str_text_scalar show ?thesis by simp
  qed
  with d PDict.prems(1) show ?case by (auto simp: list_all_iff)
next
  case (PFloat f)
  then show ?case by (cases f) auto
next
  case (PStr s)
  then show ?case by (auto intro: str_text_scalar)
qed (auto simp: int_dumps_def split: if_splits)

lemma json_read_back:
  assumes "portable rt v" "json_dumps rt False False v = Inr t" "utf8_encode t = Some bs"
  shows "utf8_decode bs = Some t" "json_loads rt unique_json_object pc t = Inr v"
proof -
  show "utf8_decode bs = Some t" using assms(3) by (rule utf8_decode_encode)
  have "\<forall>c \<in> set t. scalar c" using assms(3) utf8_encode_Some_iff by blast
  with assms(1,2) have "json_ok rt False (max_depth rt) v"
    by (auto simp: json_dumps_def intro: json_text_ok)
  then obtain t' where "json_dumps rt False False v = Inr t'"
      "json_loads rt unique_json_object pc t' = Inr v"
    by (rule unique.json_loads_dumps)
  with assms(2) show "json_loads rt unique_json_object pc t = Inr v" by simp
qed

section \<open>What the check accepts\<close>

text \<open>
  The items the loop reaches: the value itself, and the elements of lists and the values of
  dictionaries it reaches, one level deeper.
\<close>

inductive item_at :: "pyval \<Rightarrow> nat \<Rightarrow> pyval \<Rightarrow> bool" for base where
  root_item: "item_at base 0 base"
| list_item: "item_at base d (PList vs) \<Longrightarrow> v \<in> set vs \<Longrightarrow> item_at base (Suc d) v"
| dict_item: "item_at base d (PDict kvs) \<Longrightarrow> (k, v) \<in> set kvs \<Longrightarrow> item_at base (Suc d) v"

definition item_ok :: "nat \<Rightarrow> pyval \<Rightarrow> bool" where
  "item_ok d v = (case v of
     PList _ \<Rightarrow> d < 32 | PDict _ \<Rightarrow> d < 32
   | PInt i \<Rightarrow> \<bar>i\<bar> < 2 ^ 4096 | PFloat f \<Rightarrow> \<not> not_finite v | _ \<Rightarrow> True)"

lemma safe_value_item: "safe_value 32 4096 d v \<Longrightarrow> item_ok d v"
  by (cases v) (auto simp: item_ok_def not_less bit_length_le_iff)

lemma safe_value_items:
  "item_at base d v \<Longrightarrow> safe_value 32 4096 0 base \<Longrightarrow> safe_value 32 4096 d v"
  by (induction rule: item_at.induct) (fastforce simp: list_all_iff)+

lemma items_safe_value:
  "item_at base d v \<Longrightarrow> (\<And>e x. item_at base e x \<Longrightarrow> item_ok e x) \<Longrightarrow> safe_value 32 4096 d v"
proof (induction v arbitrary: d)
  case (PList vs)
  then have "item_ok d (PList vs)" by blast
  moreover have "safe_value 32 4096 (d + 1) v" if "v \<in> set vs" for v
    using PList.IH [OF that, of "Suc d"] PList.prems item_at.list_item [OF PList.prems(1) that] by simp
  ultimately show ?case by (simp add: item_ok_def list_all_iff)
next
  case (PDict kvs)
  then have "item_ok d (PDict kvs)" by blast
  moreover have "safe_value 32 4096 (d + 1) v" if "(k, v) \<in> set kvs" for k v
    using PDict.IH(2) [OF that, of v "Suc d"] PDict.prems item_at.dict_item [OF PDict.prems(1) that]
    by simp
  ultimately show ?case by (auto simp: item_ok_def list_all_iff)
next
  case (PInt i)
  then have "item_ok d (PInt i)" by blast
  then show ?case by (simp add: item_ok_def not_less bit_length_le_iff)
next
  case (PFloat f)
  then have "item_ok d (PFloat f)" by blast
  then show ?case by (simp add: item_ok_def)
qed simp_all

section \<open>Properties\<close>

text \<open>C20 The worklist loop of \<open>_is_safe_json_value\<close> accepts a value exactly when every item it can
  reach through lists and dictionary values is acceptable where it stands: containers nested
  less than 32 deep, integers of at most 4096 bits, finite floats.\<close>

theorem safe_json_spec:
  "is_safe_json_value v \<longleftrightarrow> (\<forall>d x. item_at v d x \<longrightarrow> item_ok d x)"
  unfolding is_safe_json_value_eq
  using safe_value_items safe_value_item items_safe_value item_at.root_item by blast

theorem safe_json_spec_witness:
  "item_at (PList [PInt (2 ^ 4096)]) 1 (PInt (2 ^ 4096)) \<and> \<not> is_safe_json_value (PList [PInt (2 ^ 4096)])"
proof -
  have item: "item_at (PList [PInt (2 ^ 4096)]) 1 (PInt (2 ^ 4096))"
    using item_at.list_item [OF item_at.root_item, of "PInt (2 ^ 4096)"] by simp
  moreover have "\<not> item_ok 1 (PInt (2 ^ 4096))" by (simp add: item_ok_def)
  ultimately show ?thesis using safe_json_spec by blast
qed

end
