(* ===== verification/Control.thy ===== *)
theory Control
  imports SafeJson
begin

text \<open>
  The frame layer of \<open>src/paqto/core/protocol.py\<close>: the one-byte kind, bounded control JSON,
  and the application, acknowledgement and heartbeat frames of a READY session. Encoders take
  the values the callers hold; the data argument of \<open>encode_application_frame\<close> and incoming
  frames are \<open>pyval\<close>, as the code tests their types.

  The lemmas show that decoding a session frame inverts each of the four encoders, that a
  decoder raises nothing but \<open>ProtocolFrameError\<close>, and that both directions respect the size
  limits.
\<close>

definition PROTOCOL_MAGIC :: pystr where "PROTOCOL_MAGIC = lit ''PAQTO''"
definition PROTOCOL_VERSION :: int where "PROTOCOL_VERSION = 1"
definition TECHNICAL_ACK_CAPABILITY :: pystr where "TECHNICAL_ACK_CAPABILITY = lit ''paqto.ack.v1''"
definition HEARTBEAT_CAPABILITY :: pystr where "HEARTBEAT_CAPABILITY = lit ''paqto.heartbeat.v1''"

definition CONTROL_FRAME :: "8 word" where "CONTROL_FRAME = 0"
definition APPLICATION_FRAME :: "8 word" where "APPLICATION_FRAME = 1"
definition HELLO_TYPE :: pystr where "HELLO_TYPE = lit ''hello''"
definition ACK_TYPE :: pystr where "ACK_TYPE = lit ''ack''"
definition PING_TYPE :: pystr where "PING_TYPE = lit ''ping''"
definition PONG_TYPE :: pystr where "PONG_TYPE = lit ''pong''"
definition MAX_CONTROL_PAYLOAD_SIZE :: nat where "MAX_CONTROL_PAYLOAD_SIZE = 64 * 1024"

lemmas control_types = HELLO_TYPE_def ACK_TYPE_def PING_TYPE_def PONG_TYPE_def
  PROTOCOL_MAGIC_def

section \<open>Splitting and control data\<close>

definition split_frame :: "pyval \<Rightarrow> exn + (8 word \<times> bytes)" where
  "split_frame frame =
     (case frame of
        PBytes [] \<Rightarrow> Inl ProtocolFrameError
      | PBytes (k # rest) \<Rightarrow> Inr (k, rest)
      | _ \<Rightarrow> Inl ProtocolFrameError)"

definition encode_control :: "pyrt \<Rightarrow> pyval \<Rightarrow> exn + bytes" where
  "encode_control rt payld =
     (if \<not> is_safe_json_value payld then Inl ProtocolFrameError
      else rbind (catching [RecursionError, TypeError, ValueError] ProtocolFrameError
             (rbind (json_dumps rt False False payld)
               (\<lambda>t. opt_res UnicodeError (utf8_encode t))))
        (\<lambda>encoded.
           if MAX_CONTROL_PAYLOAD_SIZE < length encoded then Inl ProtocolFrameError
           else Inr (CONTROL_FRAME # encoded)))"

definition decode_control :: "pyrt \<Rightarrow> bytes \<Rightarrow> exn + (pyval \<times> pyval) list" where
  "decode_control rt payld =
     (if MAX_CONTROL_PAYLOAD_SIZE < length payld then Inl ProtocolFrameError
      else rbind (catching [RecursionError, UnicodeError, ValueError] ProtocolFrameError
             (rbind (opt_res UnicodeError (utf8_decode payld))
               (json_loads rt unique_json_object float_constant)))
        (\<lambda>raw.
           case raw of
             PDict kvs \<Rightarrow>
               if \<not> is_safe_json_value raw then Inl ProtocolFrameError else Inr kvs
           | _ \<Rightarrow> Inl ProtocolFrameError))"

section \<open>Session frames\<close>

datatype session_item =
    ApplicationData bytes
  | TechnicalAcknowledgement pystr
  | HeartbeatPing pystr
  | HeartbeatPong pystr

definition validate_ping_id :: "pyval \<Rightarrow> exn + pystr" where
  "validate_ping_id v = opt_res ValueError (nonempty_str v)"

definition new_acknowledgement :: "pyval \<Rightarrow> exn + pystr" where
  "new_acknowledgement message_id = opt_res ValueError (nonempty_str message_id)"

definition encode_application_frame :: "pyval \<Rightarrow> int \<Rightarrow> exn + bytes" where
  "encode_application_frame data max_message_size =
     (case data of
        PBytes b \<Rightarrow>
          if max_message_size < int (length b) then Inl ProtocolFrameError
          else Inr (APPLICATION_FRAME # b)
      | _ \<Rightarrow> Inl TypeError)"

definition decode_application_frame :: "pyval \<Rightarrow> int \<Rightarrow> exn + bytes" where
  "decode_application_frame frame max_message_size =
     rbind (split_frame frame) (\<lambda>(kind, payld).
       if kind = CONTROL_FRAME then Inl ProtocolFrameError
       else if kind \<noteq> APPLICATION_FRAME then Inl ProtocolFrameError
       else if max_message_size < int (length payld) then Inl ProtocolFrameError
       else Inr payld)"

definition encode_acknowledgement_frame :: "pyrt \<Rightarrow> pyval \<Rightarrow> exn + bytes" where
  "encode_acknowledgement_frame rt message_id =
     rbind (new_acknowledgement message_id) (\<lambda>mid.
       encode_control rt (PDict
         [(PStr (lit ''magic''), PStr PROTOCOL_MAGIC),
          (PStr (lit ''type''), PStr ACK_TYPE),
          (PStr (lit ''message_id''), PStr mid)]))"

definition encode_ping_frame :: "pyrt \<Rightarrow> pyval \<Rightarrow> exn + bytes" where
  "encode_ping_frame rt ping_id =
     rbind (validate_ping_id ping_id) (\<lambda>pid.
       encode_control rt (PDict
         [(PStr (lit ''magic''), PStr PROTOCOL_MAGIC),
          (PStr (lit ''type''), PStr PING_TYPE),
          (PStr (lit ''ping_id''), PStr pid)]))"

definition encode_pong_frame :: "pyrt \<Rightarrow> pyval \<Rightarrow> exn + bytes" where
  "encode_pong_frame rt ping_id =
     rbind (validate_ping_id ping_id) (\<lambda>pid.
       encode_control rt (PDict
         [(PStr (lit ''magic''), PStr PROTOCOL_MAGIC),
          (PStr (lit ''type''), PStr PONG_TYPE),
          (PStr (lit ''ping_id''), PStr pid)]))"

definition decode_session_frame :: "pyrt \<Rightarrow> pyval \<Rightarrow> int \<Rightarrow> exn + session_item" where
  "decode_session_frame rt frame max_message_size =
     rbind (split_frame frame) (\<lambda>(kind, payld).
       if kind = APPLICATION_FRAME then
         (if max_message_size < int (length payld) then Inl ProtocolFrameError
          else Inr (ApplicationData payld))
       else if kind \<noteq> CONTROL_FRAME then Inl ProtocolFrameError
       else rbind (decode_control rt payld) (\<lambda>raw.
         if dget raw (lit ''magic'') \<noteq> PStr PROTOCOL_MAGIC then Inl ProtocolFrameError
         else
           (let control_type = dget raw (lit ''type'') in
            if control_type = PStr ACK_TYPE then
              (case nonempty_str (dget raw (lit ''message_id'')) of
                 None \<Rightarrow> Inl ProtocolFrameError
               | Some mid \<Rightarrow> Inr (TechnicalAcknowledgement mid))
            else if control_type = PStr PING_TYPE \<or> control_type = PStr PONG_TYPE then
              (case nonempty_str (dget raw (lit ''ping_id'')) of
                 None \<Rightarrow> Inl ProtocolFrameError
               | Some pid \<Rightarrow>
                   if control_type = PStr PING_TYPE then Inr (HeartbeatPing pid)
                   else Inr (HeartbeatPong pid))
            else Inl ProtocolFrameError)))"

section \<open>Control data round trip\<close>

lemma frame_kinds_distinct [simp]: "APPLICATION_FRAME \<noteq> CONTROL_FRAME" "CONTROL_FRAME \<noteq> APPLICATION_FRAME"
  by (simp_all add: APPLICATION_FRAME_def CONTROL_FRAME_def)

lemma split_frame_simps [simp]:
  "split_frame (PBytes (k # b)) = Inr (k, b)"
  "split_frame (PBytes []) = Inl ProtocolFrameError"
  by (simp_all add: split_frame_def)

lemma split_frame_eq_Inr_iff [res_simps]: "split_frame f = Inr (k, b) \<longleftrightarrow> f = PBytes (k # b)"
  by (auto simp: split_frame_def split: pyval.splits list.splits)

lemma split_frame_error: "split_frame f = Inl e \<Longrightarrow> e = ProtocolFrameError"
  by (auto simp: split_frame_def split: pyval.splits list.splits)

lemma encode_control_bound:
  "encode_control rt v = Inr f \<Longrightarrow> length f \<le> Suc MAX_CONTROL_PAYLOAD_SIZE \<and> hd f = CONTROL_FRAME"
  by (auto simp: encode_control_def elim!: rbind_InrE split: if_splits)

lemma decode_encode_control:
  assumes "encode_control rt (PDict kvs) = Inr f" "portable rt (PDict kvs)"
  shows "\<exists>b. f = CONTROL_FRAME # b \<and> decode_control rt b = Inr kvs"
proof -
  from assms(1) obtain t b where safe: "is_safe_json_value (PDict kvs)"
    and t: "json_dumps rt False False (PDict kvs) = Inr t" and b: "utf8_encode t = Some b"
    and f: "f = CONTROL_FRAME # b" "length b \<le> MAX_CONTROL_PAYLOAD_SIZE"
    by (auto simp: encode_control_def res_simps split: if_splits)
  have "utf8_decode b = Some t"
    and "json_loads rt unique_json_object float_constant t = Inr (PDict kvs)"
    using json_read_back [OF assms(2) t b] by blast+
  with safe f show ?thesis by (simp add: decode_control_def)
qed

lemma dget_simps [simp]:
  "dget ((PStr k', v) # d) k = (if k = k' then v else dget d k)"
  "dget [] k = PNone"
  by (auto simp: dget_def)

text \<open>
  A control frame that was encoded from a dictionary of strings is decoded to that dictionary:
  the step every control round trip takes.
\<close>

lemma decode_session_control:
  assumes "encode_control rt (PDict kvs) = Inr f" "portable rt (PDict kvs)"
  shows "\<exists>b. f = CONTROL_FRAME # b \<and> decode_control rt b = Inr kvs
    \<and> split_frame (PBytes f) = Inr (CONTROL_FRAME, b)"
  using decode_encode_control [OF assms] by auto

lemma decode_encode_acknowledgement:
  assumes "encode_acknowledgement_frame rt v = Inr f"
  shows "\<exists>mid. v = PStr mid \<and> decode_session_frame rt (PBytes f) m = Inr (TechnicalAcknowledgement mid)"
proof -
  from assms obtain mid where mid: "v = PStr mid" "mid \<noteq> []"
    and enc: "encode_control rt (PDict
         [(PStr (lit ''magic''), PStr PROTOCOL_MAGIC), (PStr (lit ''type''), PStr ACK_TYPE),
          (PStr (lit ''message_id''), PStr mid)]) = Inr f"
    by (auto simp: encode_acknowledgement_frame_def new_acknowledgement_def res_simps)
  from decode_session_control [OF enc] mid show ?thesis
    by (auto simp: decode_session_frame_def control_types)
qed

lemma decode_encode_ping:
  assumes "encode_ping_frame rt v = Inr f"
  shows "\<exists>pid. v = PStr pid \<and> decode_session_frame rt (PBytes f) m = Inr (HeartbeatPing pid)"
proof -
  from assms obtain pid where pid: "v = PStr pid" "pid \<noteq> []"
    and enc: "encode_control rt (PDict
         [(PStr (lit ''magic''), PStr PROTOCOL_MAGIC), (PStr (lit ''type''), PStr PING_TYPE),
          (PStr (lit ''ping_id''), PStr pid)]) = Inr f"
    by (auto simp: encode_ping_frame_def validate_ping_id_def res_simps)
  from decode_session_control [OF enc] pid show ?thesis
    by (auto simp: decode_session_frame_def control_types)
qed

lemma decode_encode_pong:
  assumes "encode_pong_frame rt v = Inr f"
  shows "\<exists>pid. v = PStr pid \<and> decode_session_frame rt (PBytes f) m = Inr (HeartbeatPong pid)"
proof -
  from assms obtain pid where pid: "v = PStr pid" "pid \<noteq> []"
    and enc: "encode_control rt (PDict
         [(PStr (lit ''magic''), PStr PROTOCOL_MAGIC), (PStr (lit ''type''), PStr PONG_TYPE),
          (PStr (lit ''ping_id''), PStr pid)]) = Inr f"
    by (auto simp: encode_pong_frame_def validate_ping_id_def res_simps)
  from decode_session_control [OF enc] pid show ?thesis
    by (auto simp: decode_session_frame_def control_types)
qed

lemma decode_encode_application:
  assumes "encode_application_frame v m = Inr f"
  shows "\<exists>b. v = PBytes b \<and> decode_session_frame rt (PBytes f) m = Inr (ApplicationData b)
    \<and> decode_application_frame (PBytes f) m = Inr b"
  using assms
  by (auto simp: encode_application_frame_def decode_session_frame_def
      decode_application_frame_def split: pyval.splits if_splits)

section \<open>Errors of the decoders\<close>

lemma caught_json [simp]:
  "exn_in ValueError [RecursionError, UnicodeError, ValueError]"
  "exn_in RecursionError [RecursionError, UnicodeError, ValueError]"
  "exn_in UnicodeError [RecursionError, UnicodeError, ValueError]"
  by (simp_all add: exn_in_def)

lemma decode_control_error:
  assumes "decode_control rt b = Inl e"
  shows "e = ProtocolFrameError"
  using assms
  by (auto simp: decode_control_def opt_res_def catching_def elim!: rbind_InlE
      dest: json_loads_error [OF unique_json_object_error float_constant_error]
      split: if_splits sum.splits pyval.splits option.splits)

lemma decode_session_frame_error:
  assumes "decode_session_frame rt f m = Inl e"
  shows "e = ProtocolFrameError"
  using assms
  by (auto simp: decode_session_frame_def Let_def elim!: rbind_InlE
      dest: split_frame_error decode_control_error split: if_splits option.splits)

lemma decode_session_frame_size:
  assumes "decode_session_frame rt f m = Inr (ApplicationData b)"
  shows "int (length b) \<le> m \<and> f = PBytes (APPLICATION_FRAME # b)"
  using assms
  by (auto simp: decode_session_frame_def Let_def elim!: rbind_InrE
      simp: res_simps split: if_splits option.splits)

section \<open>Tuples inside control data\<close>

text \<open>
  \<open>json.dumps\<close> writes a tuple as a list, but the check before it does not look inside tuples.
  What is read back is the value with lists for tuples.
\<close>

fun untuple :: "pyval \<Rightarrow> pyval" where
  "untuple (PTuple vs) = PList (List.map untuple vs)"
| "untuple (PList vs) = PList (List.map untuple vs)"
| "untuple (PDict kvs) = PDict (List.map (\<lambda>(k, v). (k, untuple v)) kvs)"
| "untuple v = v"

lemma rmap_map: "rmap f (List.map g xs) = rmap (f \<circ> g) xs"
  by (induction xs) auto

lemma json_text_untuple: "json_text rt ascii d (untuple v) = json_text rt ascii d v"
proof (induction v arbitrary: d rule: untuple.induct)
  case (1 vs)
  have "rmap (json_text rt ascii (d - 1) \<circ> untuple) vs = rmap (json_text rt ascii (d - 1)) vs"
    by (rule rmap_cong) (simp_all add: 1)
  then show ?case by (simp add: rmap_map)
next
  case (2 vs)
  have "rmap (json_text rt ascii (d - 1) \<circ> untuple) vs = rmap (json_text rt ascii (d - 1)) vs"
    by (rule rmap_cong) (simp_all add: 2)
  then show ?case by (simp add: rmap_map)
next
  case (3 kvs)
  let ?f = "\<lambda>(k, v). rbind (key_text rt k) (\<lambda>kt. rbind (json_text rt ascii (d - 1) v)
    (\<lambda>t. Inr (str_text ascii kt @ 58 # t)))"
  have "rmap (?f \<circ> (\<lambda>(k, v). (k, untuple v))) kvs = rmap ?f kvs"
    by (rule rmap_cong) (auto simp: 3)
  then show ?case by (simp add: rmap_map)
qed simp_all

lemma decode_control_untuple:
  assumes "encode_control rt v = Inr f" "untuple v = PDict kvs" "portable rt (PDict kvs)"
  shows "\<exists>b. f = CONTROL_FRAME # b \<and>
    decode_control rt b = (if is_safe_json_value (PDict kvs) then Inr kvs else Inl ProtocolFrameError)"
proof -
  from assms(1) obtain t b where t: "json_dumps rt False False v = Inr t" and b: "utf8_encode t = Some b"
    and f: "f = CONTROL_FRAME # b" "length b \<le> MAX_CONTROL_PAYLOAD_SIZE"
    by (auto simp: encode_control_def res_simps split: if_splits)
  have "json_dumps rt False False (PDict kvs) = Inr t"
    using t json_text_untuple [of rt False "max_depth rt" v] by (simp add: json_dumps_def assms(2))
  then have "utf8_decode b = Some t"
    and "json_loads rt unique_json_object float_constant t = Inr (PDict kvs)"
    using json_read_back [OF assms(3) _ b] by blast+
  with f show ?thesis by (simp add: decode_control_def)
qed

section \<open>Properties\<close>

text \<open>C5 Every session frame is read back as what was sent: the frame of an acknowledgement, a
  ping, a pong or application data decodes to that item, and the bytes of an application frame
  arrive unchanged under the limit they were encoded for.\<close>

theorem session_frame_roundtrip:
  "(case encode_acknowledgement_frame rt (PStr i) of Inl _ \<Rightarrow> True
     | Inr f \<Rightarrow> decode_session_frame rt (PBytes f) m = Inr (TechnicalAcknowledgement i))
   \<and> (case encode_ping_frame rt (PStr i) of Inl _ \<Rightarrow> True
     | Inr f \<Rightarrow> decode_session_frame rt (PBytes f) m = Inr (HeartbeatPing i))
   \<and> (case encode_pong_frame rt (PStr i) of Inl _ \<Rightarrow> True
     | Inr f \<Rightarrow> decode_session_frame rt (PBytes f) m = Inr (HeartbeatPong i))
   \<and> (case encode_application_frame (PBytes b) m of Inl _ \<Rightarrow> m < int (length b)
     | Inr f \<Rightarrow> decode_session_frame rt (PBytes f) m = Inr (ApplicationData b))"
proof -
  have "case encode_application_frame (PBytes b) m of Inl _ \<Rightarrow> m < int (length b)
     | Inr f \<Rightarrow> decode_session_frame rt (PBytes f) m = Inr (ApplicationData b)"
    by (auto simp: encode_application_frame_def decode_session_frame_def)
  then show ?thesis
    using decode_encode_acknowledgement [of rt "PStr i"] decode_encode_ping [of rt "PStr i"]
      decode_encode_pong [of rt "PStr i"]
    by (auto split: sum.splits)
qed

text \<open>Whatever arrives on a READY session, \<open>decode_session_frame\<close> returns an item or raises
  \<open>ProtocolFrameError\<close>, nothing else; application data respects the negotiated limit and is the
  payload of the frame, and an identifier it returns is not empty.\<close>

theorem decode_session_frame_total:
  "case decode_session_frame rt frame m of
     Inl e \<Rightarrow> e = ProtocolFrameError
   | Inr (ApplicationData b) \<Rightarrow> int (length b) \<le> m \<and> frame = PBytes (APPLICATION_FRAME # b)
   | Inr (TechnicalAcknowledgement i) \<Rightarrow> i \<noteq> []
   | Inr (HeartbeatPing i) \<Rightarrow> i \<noteq> []
   | Inr (HeartbeatPong i) \<Rightarrow> i \<noteq> []"
proof -
  have ids: "decode_session_frame rt frame m = Inr v \<Longrightarrow>
      v \<notin> {TechnicalAcknowledgement [], HeartbeatPing [], HeartbeatPong []}" for v
    by (auto simp: decode_session_frame_def Let_def elim!: rbind_InrE
        split: if_split_asm option.split_asm)
  show ?thesis
    using ids decode_session_frame_error [of rt frame m] decode_session_frame_size [of rt frame m]
    by (auto split: sum.splits session_item.splits)
qed

text \<open>Metadata with tuples can pass the check of the sender and fail the same check of every
  receiver: when the payload printed for a control frame contains, with lists for tuples, what
  \<open>_is_safe_json_value\<close> refuses, the frame is encoded and no peer can decode it.\<close>

theorem tuple_payload_unreadable:
  assumes "encode_control rt v = Inr f" "untuple v = PDict kvs" "portable rt (PDict kvs)"
    and "\<not> is_safe_json_value (PDict kvs)"
  shows "\<exists>b. f = CONTROL_FRAME # b \<and> decode_control rt b = Inl ProtocolFrameError"
  using decode_control_untuple [OF assms(1-3)] assms(4) by simp

fun nested_tuple :: "nat \<Rightarrow> pyval" where
  "nested_tuple 0 = PTuple []"
| "nested_tuple (Suc k) = PTuple [nested_tuple k]"

fun nested_list :: "nat \<Rightarrow> pyval" where
  "nested_list 0 = PList []"
| "nested_list (Suc k) = PList [nested_list k]"

lemma untuple_nested: "untuple (nested_tuple k) = nested_list k"
  by (induction k) simp_all

lemma portable_nested: "portable rt (nested_list k)"
  by (induction k) simp_all

lemma safe_nested: "safe_value n b d (nested_list k) \<longleftrightarrow> d + k < n"
proof (induction k arbitrary: d)
  case (Suc k)
  have "safe_value n b (Suc d) (nested_list k) \<longleftrightarrow> Suc d + k < n" by (rule Suc)
  then show ?case by (simp only: nested_list.simps safe_value.simps list.pred_inject Suc_eq_plus1) auto
qed simp

lemma safe_tuple: "safe_value n b d (nested_tuple k)"
  by (cases k) simp_all

lemma nested_tuple_text:
  "k < d \<Longrightarrow> json_text rt ascii d (nested_tuple k) = Inr (replicate (Suc k) 91 @ replicate (Suc k) 93)"
proof (induction k arbitrary: d)
  case (Suc k)
  then have "json_text rt ascii (d - 1) (nested_tuple k) = Inr (replicate (Suc k) 91 @ replicate (Suc k) 93)"
    by simp
  with Suc.prems show ?case by (simp add: replicate_append_same)
qed simp

theorem tuple_payload_unreadable_witness:
  "\<exists>f b. encode_control plain_rt (PDict [(PStr (lit ''n''), nested_tuple 40)]) = Inr f
     \<and> f = CONTROL_FRAME # b \<and> decode_control plain_rt b = Inl ProtocolFrameError"
proof -
  let ?v = "PDict [(PStr (lit ''n''), nested_tuple 40)]"
  have safe: "safe_value 32 4096 0 ?v"
    by (simp add: safe_tuple)
  have depth: "max_depth plain_rt = 900" by (simp add: plain_rt_def)
  have inner: "json_text plain_rt False 899 (nested_tuple 40)
      = Inr (replicate (Suc 40) 91 @ replicate (Suc 40) 93)"
    by (rule nested_tuple_text) simp
  have key: "str_text False [110] = [34, 110, 34]" by (simp add: str_text_def esc_char_def)
  obtain t where t: "json_dumps plain_rt False False ?v = Inr t"
      "t = 123 # 34 # 110 # 34 # 58 # replicate (Suc 40) 91 @ replicate (Suc 40) 93 @ [125]"
    using inner by (simp add: json_dumps_def depth key)
  obtain b where b: "utf8_encode t = Some b"
    using utf8_encode_Some_iff [of t] t(2) by (auto simp: scalar_def surrogate_def)
  have "length b = length t"
    using b by (auto simp: utf8_encode_def t(2) utf8_char_def numeral_eq_Suc)
  then have "encode_control plain_rt ?v = Inr (CONTROL_FRAME # b)"
    using t b safe
    by (simp add: encode_control_def is_safe_json_value_eq MAX_CONTROL_PAYLOAD_SIZE_def)
  moreover have "untuple ?v = PDict [(PStr (lit ''n''), nested_list 40)]"
    by (simp add: untuple_nested)
  moreover have "portable plain_rt (PDict [(PStr (lit ''n''), nested_list 40)])"
    "\<not> is_safe_json_value (PDict [(PStr (lit ''n''), nested_list 40)])"
    by (simp_all add: portable_nested safe_nested is_safe_json_value_eq)
  ultimately show ?thesis
    using tuple_payload_unreadable [of plain_rt ?v] by blast
qed

end
