(* ===== verification/Models.thy ===== *)
theory Models
  imports PyJson
begin

text \<open>
  The data that crosses component boundaries: peers, endpoints, discovery observations and
  their freshness (\<open>src/paqto/core/peer.py\<close>, \<open>endpoint.py\<close>, \<open>discovered.py\<close>), the security
  snapshot of a connection (\<open>security.py\<close>) and the application message (\<open>message.py\<close>). Fields
  a caller may fill with anything, and which the code tests, are \<open>pyval\<close>; fields the code only
  stores have the type it stores there. Metadata mappings are dictionaries; the read-only
  wrappers around them are copies.

  Clock readings and durations are exact rationals (seconds); the float rounding of a clock
  difference is not modelled.
\<close>

section \<open>Numbers a caller supplies\<close>

text \<open>
  \<open>math.isfinite\<close> converts an integer to a double first, which overflows from
  \<open>2^1024 - 2^970\<close> on.
\<close>

definition double_limit :: int where
  "double_limit = 2 ^ 1024 - 2 ^ 970"

fun py_isfinite :: "pyval \<Rightarrow> exn + bool" where
  "py_isfinite (PInt i) = (if \<bar>i\<bar> < double_limit then Inr True else Inl OverflowError)"
| "py_isfinite (PFloat (Finite q)) = Inr True"
| "py_isfinite (PFloat f) = Inr False"
| "py_isfinite _ = Inl TypeError"

fun number_value :: "pyval \<Rightarrow> rat option" where
  "number_value (PInt i) = Some (of_int i)"
| "number_value (PFloat (Finite q)) = Some q"
| "number_value _ = None"

fun is_number :: "pyval \<Rightarrow> bool" where
  "is_number (PInt i) = True"
| "is_number (PFloat f) = True"
| "is_number _ = False"

text \<open>
  The shape of every numeric check of the program: \<open>TypeError\<close> unless the value is a number
  and no boolean, \<open>ValueError\<close> unless it is finite and in range.
\<close>

definition check_number :: "(rat \<Rightarrow> bool) \<Rightarrow> pyval \<Rightarrow> exn + unit" where
  "check_number in_range v =
     (if \<not> is_number v then Inl TypeError
      else rbind (py_isfinite v) (\<lambda>fin.
        if fin \<and> (case number_value v of Some x \<Rightarrow> in_range x | None \<Rightarrow> False)
        then Inr () else Inl ValueError))"

definition check_optional :: "(pyval \<Rightarrow> exn + unit) \<Rightarrow> pyval \<Rightarrow> exn + unit" where
  "check_optional check v = (if v = PNone then Inr () else check v)"

lemma check_number_ok:
  "check_number P v = Inr u \<Longrightarrow> \<exists>x. number_value v = Some x \<and> P x"
  by (cases v rule: number_value.cases)
    (auto simp: check_number_def res_simps split: if_splits option.splits)

lemma check_number_error:
  "check_number P v = Inl e \<Longrightarrow> e = TypeError \<or> e = ValueError \<or> e = OverflowError"
  by (cases v rule: number_value.cases)
    (auto simp: check_number_def split: if_splits)

text \<open>A sequence of non-empty strings, as capability lists are checked.\<close>

fun nonempty_strs :: "pyval list \<Rightarrow> pystr list option" where
  "nonempty_strs [] = Some []"
| "nonempty_strs (v # vs) =
     (case nonempty_str v of None \<Rightarrow> None | Some s \<Rightarrow> map_option ((#) s) (nonempty_strs vs))"

lemma nonempty_strs_eq_Some_iff:
  "nonempty_strs vs = Some ss \<longleftrightarrow> vs = List.map PStr ss \<and> [] \<notin> set ss"
proof (induction vs arbitrary: ss)
  case (Cons v vs)
  then show ?case
    by (cases v; cases ss) (auto split: option.splits if_split_asm)
qed auto

section \<open>Peers and endpoints\<close>

type_synonym metadata = "(pyval \<times> pyval) list"

record peer =
  peer_ident :: pystr
  peer_name :: "pystr option"
  peer_metadata :: metadata

record endpoint =
  ep_transport :: pystr
  ep_address :: pystr
  ep_metadata :: metadata

section \<open>Security snapshot\<close>

record security_info =
  encrypted :: bool
  authenticated :: bool
  authenticated_peer_id :: "pystr option"
  mechanism :: "pystr option"
  sec_metadata :: metadata

definition unsecured :: security_info where
  "unsecured = \<lparr>encrypted = False, authenticated = False, authenticated_peer_id = None,
     mechanism = None, sec_metadata = []\<rparr>"

section \<open>Messages\<close>

record message =
  payload :: pyval
  msg_type :: pyval
  sender :: pyval
  recipient :: pyval
  headers :: pyval
  msg_id :: pyval
  created_at :: pyval
  reply_to :: pyval

section \<open>Discovery observations\<close>

text \<open>Equality and difference of datetimes: aware ones by instant, naive ones by wall time.\<close>

definition dt_utc :: "dt \<Rightarrow> int option" where
  "dt_utc t = map_option (\<lambda>off. wall_us t - off) (utcoffset t)"

definition dt_eq :: "dt \<Rightarrow> dt \<Rightarrow> bool" where
  "dt_eq a b = (case (dt_utc a, dt_utc b) of
      (Some x, Some y) \<Rightarrow> x = y | (None, None) \<Rightarrow> wall_us a = wall_us b | _ \<Rightarrow> False)"

definition seconds :: "int \<Rightarrow> rat" where
  "seconds us = of_int us / 1000000"

text \<open>\<open>datetime.now(timezone.utc)\<close> and \<open>time.monotonic()\<close> at the moment of a call.\<close>

record clock =
  utc_now :: int
  monotonic :: rat

record discovered_peer =
  disc_peer :: peer
  endpoints :: "endpoint list"
  last_seen :: dt
  disc_metadata :: metadata
  observed_at :: rat
  last_seen_snapshot :: dt

datatype freshness = FRESH | EXPIRED

definition anchor_monotonic_age :: "clock \<Rightarrow> discovered_peer \<Rightarrow> discovered_peer" where
  "anchor_monotonic_age now d =
     (case dt_utc (last_seen d) of
        None \<Rightarrow> d\<lparr>observed_at := monotonic now, last_seen_snapshot := last_seen d\<rparr>
      | Some seen \<Rightarrow>
          (let wall_age = max 0 (seconds (utc_now now - seen)) in
           d\<lparr>observed_at := monotonic now - wall_age, last_seen_snapshot := last_seen d\<rparr>))"

definition new_discovered ::
    "clock \<Rightarrow> peer \<Rightarrow> endpoint list \<Rightarrow> dt \<Rightarrow> metadata \<Rightarrow> discovered_peer" where
  "new_discovered now p eps seen md =
     anchor_monotonic_age now
       \<lparr>disc_peer = p, endpoints = eps, last_seen = seen, disc_metadata = md,
        observed_at = 0, last_seen_snapshot = seen\<rparr>"

definition utc_dt :: "int \<Rightarrow> dt" where
  "utc_dt us = \<lparr>wall_us = us, utcoffset = Some 0\<rparr>"

fun endpoint_for :: "pystr \<Rightarrow> endpoint list \<Rightarrow> endpoint option" where
  "endpoint_for transport [] = None"
| "endpoint_for transport (e # es) =
     (if ep_transport e = transport then Some e else endpoint_for transport es)"

definition touch :: "clock \<Rightarrow> discovered_peer \<Rightarrow> discovered_peer" where
  "touch now d = d\<lparr>last_seen := utc_dt (utc_now now), last_seen_snapshot := utc_dt (utc_now now),
     observed_at := monotonic now\<rparr>"

definition synchronize_timestamp :: "clock \<Rightarrow> discovered_peer \<Rightarrow> discovered_peer" where
  "synchronize_timestamp now d =
     (if \<not> dt_eq (last_seen d) (last_seen_snapshot d) then anchor_monotonic_age now d else d)"

definition validate_ttl :: "pyval \<Rightarrow> exn + unit" where
  "validate_ttl ttl = check_optional (check_number (\<lambda>x. 0 < x)) ttl"

text \<open>
  \<open>freshness\<close> may re-anchor the observation before it decides, so it returns the observation
  as well. \<open>wall_now\<close> is the argument \<open>now\<close>, \<open>mono_now\<close> the argument \<open>monotonic_now\<close>.
\<close>

definition freshness_of :: "clock \<Rightarrow> pyval \<Rightarrow> dt option \<Rightarrow> pyval \<Rightarrow> discovered_peer \<Rightarrow>
    discovered_peer \<times> (exn + freshness)" where
  "freshness_of now ttl wall_now mono_now d =
     (case validate_ttl ttl of
        Inl e \<Rightarrow> (d, Inl e)
      | Inr _ \<Rightarrow>
      (case number_value ttl of
        None \<Rightarrow> (d, Inr FRESH)
      | Some limit \<Rightarrow>
        (let verdict = (\<lambda>age. Inr (if age \<le> limit then FRESH else EXPIRED)) in
         if wall_now \<noteq> None \<and> mono_now \<noteq> PNone then (d, Inl ValueError)
         else case wall_now of
           Some w \<Rightarrow>
             (case (dt_utc w, dt_utc (last_seen d)) of
                (Some t, Some seen) \<Rightarrow> (d, verdict (max 0 (seconds (t - seen))))
              | _ \<Rightarrow> (d, Inl ValueError))
         | None \<Rightarrow>
             (let d' = synchronize_timestamp now d in
              if dt_utc (last_seen d') = None then (d', Inl ValueError)
              else if mono_now = PNone then (d', verdict (max 0 (monotonic now - observed_at d')))
              else case check_number (\<lambda>_. True) mono_now of
                  Inl e \<Rightarrow> (d', Inl e)
                | Inr _ \<Rightarrow>
                    (d', verdict (max 0 (the (number_value mono_now) - observed_at d')))))))"

text \<open>The operational check, with neither clock supplied by the caller.\<close>

definition is_fresh :: "clock \<Rightarrow> pyval \<Rightarrow> discovered_peer \<Rightarrow> discovered_peer \<times> (exn + bool)" where
  "is_fresh now ttl d =
     (case freshness_of now ttl None PNone d of
        (d', Inl e) \<Rightarrow> (d', Inl e)
      | (d', Inr f) \<Rightarrow> (d', Inr (f = FRESH)))"

section \<open>Facts\<close>

lemma endpoint_for_SomeD:
  "endpoint_for t es = Some e \<Longrightarrow> e \<in> set es \<and> ep_transport e = t"
  by (induction es) (auto split: if_splits)

lemma endpoint_for_None_iff: "endpoint_for t es = None \<longleftrightarrow> (\<forall>e \<in> set es. ep_transport e \<noteq> t)"
  by (induction es) auto

lemma dt_eq_refl [simp]: "dt_eq a a"
  by (auto simp: dt_eq_def split: option.splits)

lemma dt_utc_utc_dt [simp]: "dt_utc (utc_dt us) = Some us"
  by (simp add: dt_utc_def utc_dt_def)

lemma synchronize_touched [simp]: "synchronize_timestamp now (touch t0 d) = touch t0 d"
  by (simp add: synchronize_timestamp_def touch_def)

lemma validate_ttl_ok_cases:
  assumes "validate_ttl ttl = Inr u"
  obtains "ttl = PNone" | limit where "number_value ttl = Some limit" "0 < limit"
  using assms check_number_ok [of "\<lambda>x. 0 < x" ttl]
  by (auto simp: validate_ttl_def check_optional_def split: if_splits)

lemma is_fresh_no_ttl [simp]: "is_fresh now PNone d = (d, Inr True)"
  by (simp add: is_fresh_def freshness_of_def validate_ttl_def check_optional_def)

lemma is_fresh_touched:
  assumes "validate_ttl ttl = Inr ()" "number_value ttl = Some limit" "monotonic t0 \<le> monotonic t1"
  shows "is_fresh t1 ttl (touch t0 d)
    = (touch t0 d, Inr (monotonic t1 - monotonic t0 \<le> limit))"
  using assms
  by (auto simp: is_fresh_def freshness_of_def Let_def touch_def synchronize_timestamp_def max_def)

lemma is_fresh_endpoints: "is_fresh now ttl d = (d', r) \<Longrightarrow>
    disc_peer d' = disc_peer d \<and> endpoints d' = endpoints d \<and> last_seen d' = last_seen d
    \<and> disc_metadata d' = disc_metadata d"
  by (auto simp: is_fresh_def freshness_of_def Let_def synchronize_timestamp_def
      anchor_monotonic_age_def split: sum.splits option.splits if_splits prod.splits)

section \<open>Properties\<close>

text \<open>After \<open>touch\<close>, the operational freshness check measures monotonic time only: whatever the
  wall clock shows now, an observation is fresh exactly until \<open>ttl\<close> monotonic seconds have
  passed, a clock reading from before the observation counts as fresh, and the check leaves the
  observation as it is.\<close>

theorem touched_freshness_monotonic:
  assumes "validate_ttl ttl = Inr ()" "number_value ttl = Some limit"
  shows "is_fresh \<lparr>utc_now = wall_a, monotonic = t\<rparr> ttl (touch seen d)
      = (touch seen d, Inr (t - monotonic seen \<le> limit))
    \<and> is_fresh \<lparr>utc_now = wall_a, monotonic = t\<rparr> ttl (touch seen d)
      = is_fresh \<lparr>utc_now = wall_b, monotonic = t\<rparr> ttl (touch seen d)"
proof -
  have "0 < limit"
    using assms by (auto elim: validate_ttl_ok_cases)
  with assms show ?thesis
    by (auto simp: is_fresh_def freshness_of_def Let_def touch_def synchronize_timestamp_def max_def)
qed

theorem touched_freshness_monotonic_witness:
  "let d = new_discovered \<lparr>utc_now = 0, monotonic = 10\<rparr> \<lparr>peer_ident = [97], peer_name = None, peer_metadata = []\<rparr>
             [] (utc_dt 0) [] in
     snd (is_fresh \<lparr>utc_now = - 5, monotonic = 69\<rparr> (PInt 60) (touch \<lparr>utc_now = 0, monotonic = 10\<rparr> d)) = Inr True
   \<and> snd (is_fresh \<lparr>utc_now = - 5, monotonic = 71\<rparr> (PInt 60) (touch \<lparr>utc_now = 0, monotonic = 10\<rparr> d)) = Inr False"
proof -
  have "validate_ttl (PInt 60) = Inr ()"
    by (simp add: validate_ttl_def check_optional_def check_number_def double_limit_def)
  from touched_freshness_monotonic [OF this, of 60 "- 5" _ "\<lparr>utc_now = 0, monotonic = 10\<rparr>"]
  show ?thesis by (simp add: Let_def)
qed

end
