(* ===== verification/Handshake.thy ===== *)
theory Handshake
  imports Control Models
begin

text \<open>
  The hello exchange of \<open>src/paqto/core/protocol.py\<close>: offers, the hello frame, and
  \<open>negotiate_protocol\<close>, which turns a connection into a session or closes it. What the
  connection does (the outcomes of sending, receiving and closing, its security snapshot) is the
  record \<open>handshake_io\<close>; a missed deadline is the outcome \<open>TimeoutError\<close>, a cancelled task the
  outcome \<open>CancelledError\<close>.

  The lemmas: the hello frame round trip, the exceptions a malformed hello can raise, what a
  successful negotiation guarantees, and that an unsuccessful one has tried to close the
  connection.
\<close>

record handshake_offer =
  offer_peer_id :: pystr
  offer_serializer_id :: pystr
  offer_version :: int
  offer_capabilities :: "pystr list"
  offer_max_message_size :: int
  offer_metadata :: metadata

record protocol_session =
  session_peer_id :: pystr
  session_version :: int
  session_serializer_id :: pystr
  session_capabilities :: "pystr list"
  session_max_message_size :: int
  peer_id_authenticated :: bool
  session_metadata :: metadata

section \<open>Offers\<close>

text \<open>\<open>HandshakeOffer.__post_init__\<close>.\<close>

definition new_offer ::
    "pyval \<Rightarrow> pyval \<Rightarrow> pyval \<Rightarrow> pyval \<Rightarrow> pyval \<Rightarrow> pyval \<Rightarrow> exn + handshake_offer" where
  "new_offer peer_id serializer_id version capabilities max_message_size meta =
     rbind (opt_res ValueError (nonempty_str peer_id)) (\<lambda>pid.
     rbind (opt_res ValueError (nonempty_str serializer_id)) (\<lambda>sid.
     rbind (opt_res TypeError (strict_int version)) (\<lambda>ver.
     rbind (guard (1 \<le> ver) ValueError) (\<lambda>_.
     rbind (case capabilities of
              PTuple vs \<Rightarrow> opt_res TypeError (nonempty_strs vs) | _ \<Rightarrow> Inl TypeError) (\<lambda>caps.
     rbind (guard (distinct caps) ValueError) (\<lambda>_.
     rbind (opt_res TypeError (strict_int max_message_size)) (\<lambda>size.
     rbind (guard (0 < size) ValueError) (\<lambda>_.
     (case meta of
        PDict md \<Rightarrow> Inr \<lparr>offer_peer_id = pid, offer_serializer_id = sid, offer_version = ver,
                      offer_capabilities = caps, offer_max_message_size = size,
                      offer_metadata = md\<rparr>
      | _ \<Rightarrow> Inl TypeError)))))))))"

definition valid_offer :: "handshake_offer \<Rightarrow> bool" where
  "valid_offer off \<longleftrightarrow> offer_peer_id off \<noteq> [] \<and> offer_serializer_id off \<noteq> [] \<and> 1 \<le> offer_version off
     \<and> [] \<notin> set (offer_capabilities off) \<and> distinct (offer_capabilities off)
     \<and> 0 < offer_max_message_size off"

lemma new_offer_eq_Inr_iff:
  "new_offer p s v c m md = Inr off \<longleftrightarrow>
     valid_offer off \<and> p = PStr (offer_peer_id off) \<and> s = PStr (offer_serializer_id off)
     \<and> v = PInt (offer_version off) \<and> c = PTuple (List.map PStr (offer_capabilities off))
     \<and> m = PInt (offer_max_message_size off) \<and> md = PDict (offer_metadata off)"
proof
  assume "new_offer p s v c m md = Inr off"
  then show "valid_offer off \<and> p = PStr (offer_peer_id off) \<and> s = PStr (offer_serializer_id off)
     \<and> v = PInt (offer_version off) \<and> c = PTuple (List.map PStr (offer_capabilities off))
     \<and> m = PInt (offer_max_message_size off) \<and> md = PDict (offer_metadata off)"
    unfolding new_offer_def
    by (cases md; cases c) (auto elim!: rbind_InrE simp: res_simps valid_offer_def nonempty_strs_eq_Some_iff)
next
  assume "valid_offer off \<and> p = PStr (offer_peer_id off) \<and> s = PStr (offer_serializer_id off)
     \<and> v = PInt (offer_version off) \<and> c = PTuple (List.map PStr (offer_capabilities off))
     \<and> m = PInt (offer_max_message_size off) \<and> md = PDict (offer_metadata off)"
  moreover from this have "nonempty_strs (List.map PStr (offer_capabilities off))
      = Some (offer_capabilities off)"
    by (simp add: nonempty_strs_eq_Some_iff valid_offer_def)
  ultimately show "new_offer p s v c m md = Inr off"
    by (simp add: new_offer_def valid_offer_def)
qed

section \<open>The hello frame\<close>

definition hello_payload :: "handshake_offer \<Rightarrow> (pyval \<times> pyval) list" where
  "hello_payload off =
     [(PStr (lit ''magic''), PStr PROTOCOL_MAGIC),
      (PStr (lit ''type''), PStr HELLO_TYPE),
      (PStr (lit ''version''), PInt (offer_version off)),
      (PStr (lit ''peer_id''), PStr (offer_peer_id off)),
      (PStr (lit ''capabilities''), PList (List.map PStr (offer_capabilities off))),
      (PStr (lit ''serializer''), PStr (offer_serializer_id off)),
      (PStr (lit ''max_message_size''), PInt (offer_max_message_size off)),
      (PStr (lit ''metadata''), PDict (offer_metadata off))]"

definition encode_hello :: "pyrt \<Rightarrow> handshake_offer \<Rightarrow> exn + bytes" where
  "encode_hello rt off =
     catching [ProtocolFrameError] ProtocolHandshakeError
       (encode_control rt (PDict (hello_payload off)))"

definition decode_hello :: "pyrt \<Rightarrow> pyval \<Rightarrow> exn + handshake_offer" where
  "decode_hello rt frame =
     rbind (catching [ProtocolFrameError] ProtocolHandshakeError (split_frame frame))
       (\<lambda>(kind, payld).
     if kind \<noteq> CONTROL_FRAME then Inl ProtocolHandshakeError
     else if MAX_CONTROL_PAYLOAD_SIZE < length payld then Inl ProtocolHandshakeError
     else rbind (catching [ProtocolFrameError] ProtocolHandshakeError (decode_control rt payld))
       (\<lambda>raw.
     if dget raw (lit ''magic'') \<noteq> PStr PROTOCOL_MAGIC then Inl ProtocolHandshakeError
     else if dget raw (lit ''type'') \<noteq> PStr HELLO_TYPE then Inl ProtocolHandshakeError
     else
       rbind (opt_res ProtocolHandshakeError (strict_int (dget raw (lit ''version''))))
         (\<lambda>version.
       rbind (guard (1 \<le> version) ProtocolHandshakeError) (\<lambda>_.
       rbind (opt_res ProtocolHandshakeError (nonempty_str (dget raw (lit ''peer_id''))))
         (\<lambda>peer_id.
       rbind (opt_res ProtocolHandshakeError (nonempty_str (dget raw (lit ''serializer''))))
         (\<lambda>serializer_id.
       rbind (case dget raw (lit ''capabilities'') of
                PList vs \<Rightarrow> opt_res ProtocolHandshakeError (nonempty_strs vs)
              | _ \<Rightarrow> Inl ProtocolHandshakeError) (\<lambda>capabilities.
       rbind (guard (distinct capabilities) ProtocolHandshakeError) (\<lambda>_.
       rbind (opt_res ProtocolHandshakeError (strict_int (dget raw (lit ''max_message_size''))))
         (\<lambda>size.
       rbind (guard (0 < size) ProtocolHandshakeError) (\<lambda>_.
       (case dget raw (lit ''metadata'') of
          PDict md \<Rightarrow>
            new_offer (PStr peer_id) (PStr serializer_id) (PInt version)
              (PTuple (List.map PStr capabilities)) (PInt size) (PDict md)
        | _ \<Rightarrow> Inl ProtocolHandshakeError)))))))))))"

section \<open>Negotiation\<close>

record handshake_io =
  send_outcome :: "exn + unit"
  receive_outcome :: "exn + pyval"
  close_outcome :: "exn + unit"
  io_security :: security_info

text \<open>
  \<open>exchange\<close> and the \<open>except\<close> clauses around it. The first component is the list of frames
  handed to \<open>send_frame\<close>.
\<close>

definition exchange :: "pyrt \<Rightarrow> handshake_offer \<Rightarrow> handshake_io \<Rightarrow> bytes list \<times> (exn + pyval)" where
  "exchange rt off io =
     (case encode_hello rt off of
        Inl e \<Rightarrow> ([], Inl e)
      | Inr frame \<Rightarrow> ([frame], rbind (send_outcome io) (\<lambda>_. receive_outcome io)))"

definition exchange_failure :: "exn \<Rightarrow> exn" where
  "exchange_failure e =
     (if exn_isa e TimeoutError then ProtocolHandshakeTimeoutError
      else if exn_isa e ConnectionClosedError then ProtocolHandshakeError
      else if exn_isa e TransportError then ProtocolHandshakeError
      else e)"

definition check_remote ::
    "handshake_offer \<Rightarrow> pystr option \<Rightarrow> bool \<Rightarrow> security_info \<Rightarrow> handshake_offer \<Rightarrow>
     exn + protocol_session" where
  "check_remote off expected_peer_id require_authenticated security remote =
     (let auth_id = authenticated_peer_id security in
      if offer_version remote \<noteq> offer_version off then Inl ProtocolVersionError
      else if offer_serializer_id remote \<noteq> offer_serializer_id off then Inl ProtocolHandshakeError
      else if expected_peer_id \<noteq> None \<and> Some (offer_peer_id remote) \<noteq> expected_peer_id
        then Inl PeerIdentityMismatchError
      else if auth_id \<noteq> None \<and> auth_id \<noteq> Some (offer_peer_id remote)
        then Inl PeerIdentityMismatchError
      else if require_authenticated \<and> \<not> authenticated security then Inl PeerAuthenticationError
      else if require_authenticated \<and> auth_id = None then Inl PeerAuthenticationError
      else Inr \<lparr>session_peer_id = offer_peer_id remote,
                session_version = offer_version remote,
                session_serializer_id = offer_serializer_id remote,
                session_capabilities =
                  filter (\<lambda>c. c \<in> set (offer_capabilities remote)) (offer_capabilities off),
                session_max_message_size =
                  min (offer_max_message_size off) (offer_max_message_size remote),
                peer_id_authenticated =
                  authenticated security \<and> auth_id \<noteq> None \<and> auth_id = Some (offer_peer_id remote),
                session_metadata = offer_metadata remote\<rparr>)"

text \<open>
  \<open>_close_after_failed_handshake\<close> hides only the listed failures of \<open>close()\<close>; another one
  replaces the handshake failure.
\<close>

definition after_failed_close :: "exn \<Rightarrow> exn + unit \<Rightarrow> exn" where
  "after_failed_close e closing =
     (case closing of
        Inr _ \<Rightarrow> e
      | Inl c \<Rightarrow> if exn_in c [BuiltinConnectionError, OSError, RuntimeError, TransportError] then e else c)"

record handshake_run =
  hs_sent :: "bytes list"
  hs_close_called :: bool
  hs_result :: "exn + protocol_session"

definition negotiate_protocol ::
    "pyrt \<Rightarrow> handshake_offer \<Rightarrow> pystr option \<Rightarrow> bool \<Rightarrow> handshake_io \<Rightarrow> handshake_run" where
  "negotiate_protocol rt off expected_peer_id require_authenticated io =
     (let (sent, received) = exchange rt off io;
          outcome = rbind (case received of Inl e \<Rightarrow> Inl (exchange_failure e) | Inr f \<Rightarrow> Inr f)
            (\<lambda>frame. rbind (decode_hello rt frame)
              (check_remote off expected_peer_id require_authenticated (io_security io)))
      in case outcome of
           Inr session \<Rightarrow> \<lparr>hs_sent = sent, hs_close_called = False, hs_result = Inr session\<rparr>
         | Inl e \<Rightarrow> \<lparr>hs_sent = sent, hs_close_called = True,
                      hs_result = Inl (after_failed_close e (close_outcome io))\<rparr>)"

section \<open>Hello round trip\<close>

lemma hello_dget:
  "dget (hello_payload off) (lit ''magic'') = PStr PROTOCOL_MAGIC"
  "dget (hello_payload off) (lit ''type'') = PStr HELLO_TYPE"
  "dget (hello_payload off) (lit ''version'') = PInt (offer_version off)"
  "dget (hello_payload off) (lit ''peer_id'') = PStr (offer_peer_id off)"
  "dget (hello_payload off) (lit ''capabilities'') = PList (List.map PStr (offer_capabilities off))"
  "dget (hello_payload off) (lit ''serializer'') = PStr (offer_serializer_id off)"
  "dget (hello_payload off) (lit ''max_message_size'') = PInt (offer_max_message_size off)"
  "dget (hello_payload off) (lit ''metadata'') = PDict (offer_metadata off)"
  by (simp_all add: hello_payload_def)

lemma hello_payload_portable:
  "portable rt (PDict (hello_payload off)) \<longleftrightarrow> portable rt (PDict (offer_metadata off))"
  by (simp add: hello_payload_def list_all_iff)

lemma decode_encode_hello:
  assumes "encode_hello rt off = Inr f" "valid_offer off" "portable rt (PDict (offer_metadata off))"
  shows "decode_hello rt (PBytes f) = Inr off"
proof -
  have enc: "encode_control rt (PDict (hello_payload off)) = Inr f"
    using assms(1) by (simp add: encode_hello_def res_simps)
  obtain b where f: "f = CONTROL_FRAME # b" and dec: "decode_control rt b = Inr (hello_payload off)"
    using decode_encode_control [OF enc] assms(3) hello_payload_portable by blast
  have "length b \<le> MAX_CONTROL_PAYLOAD_SIZE"
    using encode_control_bound [OF enc] f by simp
  moreover have "nonempty_strs (List.map PStr (offer_capabilities off)) = Some (offer_capabilities off)"
    using assms(2) by (simp add: nonempty_strs_eq_Some_iff valid_offer_def)
  ultimately show ?thesis
    using assms(2) f
    by (simp add: decode_hello_def dec hello_dget [simplified] valid_offer_def
        new_offer_eq_Inr_iff)
qed

lemma decode_hello_valid: "decode_hello rt f = Inr off \<Longrightarrow> valid_offer off"
  by (auto simp: decode_hello_def new_offer_eq_Inr_iff elim!: rbind_InrE
      split: if_splits pyval.splits)

lemma decode_hello_error:
  assumes "decode_hello rt f = Inl e"
  shows "e = ProtocolHandshakeError"
proof -
  have new: "[] \<notin> set caps \<Longrightarrow> distinct caps \<Longrightarrow> p \<noteq> [] \<Longrightarrow> s \<noteq> [] \<Longrightarrow> 1 \<le> v \<Longrightarrow> 0 < m \<Longrightarrow>
      new_offer (PStr p) (PStr s) (PInt v) (PTuple (List.map PStr caps)) (PInt m) (PDict md) \<noteq> Inl e"
    for caps p s v m md
    by (simp add: new_offer_def nonempty_strs_eq_Some_iff [THEN iffD2] split: sum.splits)
  have frame [simp]: "exn_in ProtocolFrameError [ProtocolFrameError]"
    by (simp add: exn_in_def)
  show ?thesis
    using assms
    by (auto simp: decode_hello_def catching_def opt_res_def guard_def new nonempty_strs_eq_Some_iff
        elim!: rbind_InlE dest!: split_frame_error decode_control_error
        split: if_split_asm sum.split_asm pyval.split_asm option.split_asm)
qed

section \<open>What a negotiation guarantees\<close>

lemma negotiate_result_cases:
  "hs_result (negotiate_protocol rt off x strict io) = Inr session \<longleftrightarrow>
     (\<exists>frame remote. encode_hello rt off = Inr (hd (hs_sent (negotiate_protocol rt off x strict io)))
        \<and> send_outcome io = Inr () \<and> receive_outcome io = Inr frame
        \<and> decode_hello rt frame = Inr remote
        \<and> check_remote off x strict (io_security io) remote = Inr session)"
  by (auto simp: negotiate_protocol_def exchange_def Let_def rbind_eq_Inr_iff split: sum.splits)

lemma negotiate_close_called:
  "hs_close_called (negotiate_protocol rt off x strict io) \<longleftrightarrow>
     (\<exists>e. hs_result (negotiate_protocol rt off x strict io) = Inl e)"
  by (auto simp: negotiate_protocol_def Let_def split: sum.splits prod.splits)

lemma check_remote_eq_Inr_iff:
  "check_remote off x strict sec remote = Inr session \<longleftrightarrow>
     offer_version remote = offer_version off
     \<and> offer_serializer_id remote = offer_serializer_id off
     \<and> (x = None \<or> x = Some (offer_peer_id remote))
     \<and> (authenticated_peer_id sec = None \<or> authenticated_peer_id sec = Some (offer_peer_id remote))
     \<and> (strict \<longrightarrow> authenticated sec \<and> authenticated_peer_id sec \<noteq> None)
     \<and> session = \<lparr>session_peer_id = offer_peer_id remote,
          session_version = offer_version off,
          session_serializer_id = offer_serializer_id off,
          session_capabilities =
            filter (\<lambda>c. c \<in> set (offer_capabilities remote)) (offer_capabilities off),
          session_max_message_size = min (offer_max_message_size off) (offer_max_message_size remote),
          peer_id_authenticated = (authenticated sec \<and> authenticated_peer_id sec \<noteq> None),
          session_metadata = offer_metadata remote\<rparr>"
  by (auto simp: check_remote_def Let_def)

lemma negotiate_guarantees:
  assumes "hs_result (negotiate_protocol rt off x strict io) = Inr s"
  shows "session_version s = offer_version off"
    and "session_serializer_id s = offer_serializer_id off"
    and "set (session_capabilities s) \<subseteq> set (offer_capabilities off)"
    and "session_max_message_size s \<le> offer_max_message_size off"
    and "x \<noteq> None \<Longrightarrow> x = Some (session_peer_id s)"
    and "authenticated_peer_id (io_security io) \<noteq> None
      \<Longrightarrow> authenticated_peer_id (io_security io) = Some (session_peer_id s)"
    and "strict \<Longrightarrow> peer_id_authenticated s"
    and "peer_id_authenticated s \<longleftrightarrow> authenticated (io_security io)
      \<and> authenticated_peer_id (io_security io) = Some (session_peer_id s)"
    and "session_peer_id s \<noteq> []" and "0 < offer_max_message_size off \<Longrightarrow> 0 < session_max_message_size s"
  using assms by (auto simp: negotiate_result_cases check_remote_eq_Inr_iff
      dest!: decode_hello_valid simp: valid_offer_def)

section \<open>Both ends of one handshake\<close>

text \<open>
  A peer that receives the hello frame of the other side reaches the verdict \<open>check_remote\<close>
  gives for the offer the other side made.
\<close>

lemma negotiate_with_peer:
  assumes "encode_hello rt a = Inr fa" "encode_hello rt b = Inr fb"
    and "valid_offer b" "portable rt (PDict (offer_metadata b))"
    and "send_outcome io = Inr ()" "receive_outcome io = Inr (PBytes fb)"
  shows "hs_sent (negotiate_protocol rt a x strict io) = [fa]"
    and "hs_result (negotiate_protocol rt a x strict io) =
      (case check_remote a x strict (io_security io) b of
         Inr s \<Rightarrow> Inr s | Inl e \<Rightarrow> Inl (after_failed_close e (close_outcome io)))"
  using assms decode_encode_hello [OF assms(2-4)]
  by (simp_all add: negotiate_protocol_def exchange_def Let_def split: sum.splits)

definition sessions_agree :: "protocol_session \<Rightarrow> protocol_session \<Rightarrow> bool" where
  "sessions_agree s t \<longleftrightarrow> session_version s = session_version t
     \<and> session_serializer_id s = session_serializer_id t
     \<and> set (session_capabilities s) = set (session_capabilities t)
     \<and> session_max_message_size s = session_max_message_size t"

lemma check_remote_agree:
  assumes "check_remote a x strict sec b = Inr s" "check_remote b y strict' sec' a = Inr t"
  shows "sessions_agree s t"
  using assms by (auto simp: check_remote_eq_Inr_iff sessions_agree_def min.commute)

text \<open>
  Exceptions that are neither failures of the exchange nor of the hello pass through unchanged: a
  cancelled task stays cancelled.
\<close>

lemma exchange_failure_cancelled [simp]: "exchange_failure CancelledError = CancelledError"
  by (simp add: exchange_failure_def exn_isa_def)

lemma exchange_failure_timeout [simp]: "exchange_failure TimeoutError = ProtocolHandshakeTimeoutError"
  by (simp add: exchange_failure_def)

section \<open>Example offers\<close>

definition example_offer :: "pystr \<Rightarrow> pystr list \<Rightarrow> int \<Rightarrow> handshake_offer" where
  "example_offer pid caps limit = \<lparr>offer_peer_id = pid, offer_serializer_id = lit ''json'',
     offer_version = 1, offer_capabilities = caps, offer_max_message_size = limit,
     offer_metadata = [(PStr (lit ''n''), PInt 7)]\<rparr>"

definition offer_a :: handshake_offer where
  "offer_a = example_offer (lit ''a'') [lit ''x'', lit ''y''] 100"

definition offer_b :: handshake_offer where
  "offer_b = example_offer (lit ''b'') [lit ''y'', lit ''z''] 50"

definition example_io :: "bytes \<Rightarrow> handshake_io" where
  "example_io f = \<lparr>send_outcome = Inr (), receive_outcome = Inr (PBytes f), close_outcome = Inr (),
     io_security = unsecured\<rparr>"

lemma example_offers_ok [simp]:
  "valid_offer offer_a" "valid_offer offer_b"
  "portable plain_rt (PDict (offer_metadata offer_a))" "portable plain_rt (PDict (offer_metadata offer_b))"
  by (simp_all add: offer_a_def offer_b_def example_offer_def valid_offer_def)

lemma example_safe: "safe_value 32 4096 0 (PDict (hello_payload offer_a))"
  "safe_value 32 4096 0 (PDict (hello_payload offer_b))"
  by (simp_all add: hello_payload_def offer_a_def offer_b_def example_offer_def bit_length_le_iff not_less)

lemma example_hello:
  "\<exists>f. encode_hello plain_rt offer_a = Inr f" "\<exists>f. encode_hello plain_rt offer_b = Inr f"
  using example_safe
  by (simp_all add: encode_hello_def encode_control_def is_safe_json_value_eq)
    (simp_all add: json_eval hello_payload_def offer_a_def offer_b_def example_offer_def control_types
      utf8_encode_def utf8_char_def MAX_CONTROL_PAYLOAD_SIZE_def)

section \<open>Properties\<close>

text \<open>C1 Two peers that received each other's hello frame and both came out of
  \<open>negotiate_protocol\<close> with a session agree on it: the same version, serializer and message
  limit, the same capabilities as a set, and each has the identity and the metadata the other
  declared.\<close>

theorem handshake_agreement:
  assumes "valid_offer a" "valid_offer b"
    and "portable rt (PDict (offer_metadata a))" "portable rt (PDict (offer_metadata b))"
    and "encode_hello rt a = Inr fa" "encode_hello rt b = Inr fb"
    and "send_outcome ioa = Inr ()" "receive_outcome ioa = Inr (PBytes fb)"
    and "send_outcome iob = Inr ()" "receive_outcome iob = Inr (PBytes fa)"
    and "hs_result (negotiate_protocol rt a xa stricta ioa) = Inr s"
    and "hs_result (negotiate_protocol rt b xb strictb iob) = Inr t"
  shows "sessions_agree s t \<and> session_peer_id s = offer_peer_id b \<and> session_peer_id t = offer_peer_id a
    \<and> session_metadata s = offer_metadata b \<and> session_metadata t = offer_metadata a"
proof -
  have s: "check_remote a xa stricta (io_security ioa) b = Inr s"
    using assms(11) negotiate_with_peer(2) [OF assms(5,6,2,4,7,8), of xa stricta]
    by (simp split: sum.splits)
  have t: "check_remote b xb strictb (io_security iob) a = Inr t"
    using assms(12) negotiate_with_peer(2) [OF assms(6,5,1,3,9,10), of xb strictb]
    by (simp split: sum.splits)
  from check_remote_agree [OF s t] s t show ?thesis
    by (auto simp: check_remote_eq_Inr_iff)
qed

lemma example_negotiation:
  assumes "encode_hello plain_rt offer_a = Inr fa" "encode_hello plain_rt offer_b = Inr fb"
  shows "\<exists>s. hs_result (negotiate_protocol plain_rt offer_a (Some (lit ''b'')) False (example_io fb)) = Inr s"
    "\<exists>t. hs_result (negotiate_protocol plain_rt offer_b None False (example_io fa)) = Inr t"
proof -
  have "\<exists>s. check_remote offer_a (Some (lit ''b'')) False unsecured offer_b = Inr s"
    "\<exists>t. check_remote offer_b None False unsecured offer_a = Inr t"
    by (simp_all add: check_remote_eq_Inr_iff offer_a_def offer_b_def example_offer_def unsecured_def)
  then show "\<exists>s. hs_result (negotiate_protocol plain_rt offer_a (Some (lit ''b'')) False (example_io fb)) = Inr s"
    "\<exists>t. hs_result (negotiate_protocol plain_rt offer_b None False (example_io fa)) = Inr t"
    using negotiate_with_peer(2) [OF assms(1,2) example_offers_ok(2,4), of "example_io fb" "Some (lit ''b'')" False]
      negotiate_with_peer(2) [OF assms(2,1) example_offers_ok(1,3), of "example_io fa" None False]
    by (auto simp: example_io_def)
qed

theorem handshake_agreement_witness:
  "\<exists>fa fb s t. encode_hello plain_rt offer_a = Inr fa \<and> encode_hello plain_rt offer_b = Inr fb
     \<and> hs_result (negotiate_protocol plain_rt offer_a (Some (lit ''b'')) False (example_io fb)) = Inr s
     \<and> hs_result (negotiate_protocol plain_rt offer_b None False (example_io fa)) = Inr t
     \<and> sessions_agree s t \<and> session_peer_id s = offer_peer_id offer_b"
proof -
  obtain fa fb where f: "encode_hello plain_rt offer_a = Inr fa" "encode_hello plain_rt offer_b = Inr fb"
    using example_hello by blast
  obtain s t where "hs_result (negotiate_protocol plain_rt offer_a (Some (lit ''b'')) False (example_io fb)) = Inr s"
    "hs_result (negotiate_protocol plain_rt offer_b None False (example_io fa)) = Inr t"
    using example_negotiation [OF f] by blast
  with f handshake_agreement [OF example_offers_ok f, of "example_io fb" "example_io fa"
      "Some (lit ''b'')" False s None False t]
  show ?thesis by (auto simp: example_io_def)
qed

text \<open>C11 With the hello of a peer whose offer differs in nothing that matters, negotiation
  succeeds, and it fails otherwise: the session exists exactly when version and serializer are
  equal, the expected and the authenticated identity are absent or the declared one, and strict
  mode finds an authenticated identity.\<close>

theorem handshake_succeeds_iff:
  assumes "encode_hello rt a = Inr fa" "encode_hello rt b = Inr fb"
    and "valid_offer b" "portable rt (PDict (offer_metadata b))"
    and "send_outcome io = Inr ()" "receive_outcome io = Inr (PBytes fb)"
  shows "(\<exists>s. hs_result (negotiate_protocol rt a x strict io) = Inr s) \<longleftrightarrow>
    offer_version a = offer_version b \<and> offer_serializer_id a = offer_serializer_id b
    \<and> (x = None \<or> x = Some (offer_peer_id b))
    \<and> (authenticated_peer_id (io_security io) = None
       \<or> authenticated_peer_id (io_security io) = Some (offer_peer_id b))
    \<and> (strict \<longrightarrow> authenticated (io_security io) \<and> authenticated_peer_id (io_security io) \<noteq> None)"
proof -
  have "(\<exists>s. hs_result (negotiate_protocol rt a x strict io) = Inr s)
      \<longleftrightarrow> (\<exists>s. check_remote a x strict (io_security io) b = Inr s)"
    using negotiate_with_peer(2) [OF assms, of x strict] by (auto split: sum.splits)
  then show ?thesis by (auto simp: check_remote_eq_Inr_iff)
qed

theorem handshake_succeeds_iff_witness:
  "\<exists>fb. encode_hello plain_rt offer_b = Inr fb
     \<and> (\<exists>s. hs_result (negotiate_protocol plain_rt offer_a None False (example_io fb)) = Inr s)
     \<and> \<not> (\<exists>s. hs_result (negotiate_protocol plain_rt offer_a None True (example_io fb)) = Inr s)"
proof -
  obtain fa fb where f: "encode_hello plain_rt offer_a = Inr fa" "encode_hello plain_rt offer_b = Inr fb"
    using example_hello by blast
  note ok = handshake_succeeds_iff [OF f example_offers_ok(2,4), of "example_io fb"]
  show ?thesis
    using f ok [of None False] ok [of None True]
    by (auto simp: example_io_def unsecured_def offer_a_def offer_b_def example_offer_def)
qed

text \<open>What a session returned by \<open>negotiate_protocol\<close> guarantees about identity: it is the
  expected one when discovery supplied one, it is the identity the transport authenticated when
  there is one, \<open>peer_id_authenticated\<close> is true exactly when the transport authenticated that very
  identity, and strict mode returns authenticated sessions only. The connection was not
  closed; every failure asks the connection to close.\<close>

theorem handshake_identity:
  "let run = negotiate_protocol rt off x strict io in
    case hs_result run of
      Inr s \<Rightarrow> session_peer_id s \<noteq> [] \<and> (x = None \<or> x = Some (session_peer_id s))
        \<and> (authenticated_peer_id (io_security io) = None
           \<or> authenticated_peer_id (io_security io) = Some (session_peer_id s))
        \<and> (peer_id_authenticated s \<longleftrightarrow> authenticated (io_security io)
            \<and> authenticated_peer_id (io_security io) = Some (session_peer_id s))
        \<and> (strict \<longrightarrow> peer_id_authenticated s) \<and> \<not> hs_close_called run
    | Inl e \<Rightarrow> hs_close_called run"
proof (cases "hs_result (negotiate_protocol rt off x strict io)")
  case (Inl e)
  then show ?thesis by (simp add: Let_def negotiate_close_called)
next
  case (Inr s)
  have "\<not> hs_close_called (negotiate_protocol rt off x strict io)"
    using Inr by (simp add: negotiate_close_called)
  moreover have "x = None \<or> x = Some (session_peer_id s)"
    "authenticated_peer_id (io_security io) = None
      \<or> authenticated_peer_id (io_security io) = Some (session_peer_id s)"
    "strict \<longrightarrow> peer_id_authenticated s"
    using negotiate_guarantees(5-7) [OF Inr] by blast+
  ultimately show ?thesis
    using negotiate_guarantees(8,9) [OF Inr] by (simp only: Let_def Inr sum.case simp_thms)
qed

text \<open>A peer that declares another identity than the expected one is refused.\<close>

lemma example_mismatch:
  assumes "encode_hello plain_rt offer_a = Inr fa" "encode_hello plain_rt offer_b = Inr fb"
  shows "hs_result (negotiate_protocol plain_rt offer_a (Some (lit ''c'')) False (example_io fb))
      = Inl PeerIdentityMismatchError"
  using negotiate_with_peer(2) [OF assms example_offers_ok(2,4), of "example_io fb" "Some (lit ''c'')" False]
  by (simp add: example_io_def check_remote_def Let_def offer_a_def offer_b_def example_offer_def
      after_failed_close_def)

theorem handshake_identity_witness:
  "\<exists>fb. encode_hello plain_rt offer_b = Inr fb
     \<and> hs_close_called (negotiate_protocol plain_rt offer_a (Some (lit ''c'')) False (example_io fb))"
proof -
  obtain fa fb where f: "encode_hello plain_rt offer_a = Inr fa" "encode_hello plain_rt offer_b = Inr fb"
    using example_hello by blast
  have "hs_close_called (negotiate_protocol plain_rt offer_a (Some (lit ''c'')) False (example_io fb))"
    using handshake_identity [of plain_rt offer_a "Some (lit ''c'')" False "example_io fb"]
    by (simp only: Let_def example_mismatch [OF f] sum.case)
  with f(2) show ?thesis by blast
qed

text \<open>A hello frame that \<open>_encode_hello\<close> produced from a valid offer with portable metadata
  decodes to that offer, and whatever frame arrives, \<open>_decode_hello\<close> returns a valid offer or
  raises \<open>ProtocolHandshakeError\<close>.\<close>

theorem hello_roundtrip:
  assumes "valid_offer off" "portable rt (PDict (offer_metadata off))" "encode_hello rt off = Inr f"
  shows "decode_hello rt (PBytes f) = Inr off
    \<and> (\<forall>v. case decode_hello rt v of Inr o' \<Rightarrow> valid_offer o' | Inl e \<Rightarrow> e = ProtocolHandshakeError)"
  using decode_encode_hello [OF assms(3,1,2)] decode_hello_valid decode_hello_error
  by (auto split: sum.splits)

theorem hello_roundtrip_witness:
  "\<exists>f. encode_hello plain_rt offer_a = Inr f \<and> decode_hello plain_rt (PBytes f) = Inr offer_a"
  using example_hello(1) hello_roundtrip [OF example_offers_ok(1,3)] by blast

end
