(* ===== verification/Config.thy ===== *)
theory Config
  imports Control Models
begin

text \<open>
  \<open>src/paqto/core/config.py\<close>: the reconnect policy and the node configuration. The arguments of a
  constructor are Python values (\<open>reconnect_args\<close>, \<open>config_args\<close>); \<open>new_reconnect_policy\<close> and
  \<open>new_config\<close> are the \<open>__post_init__\<close> checks in their order and return the typed object.
  An enum member is the opaque object of its name.

  Delays are exact rationals: the rounding of doubles is not modelled, the overflow that
  \<open>delay_for_attempt\<close> catches is.

  The lemmas: the constructor of the configuration accepts exactly the arguments that are the
  fields of a well-formed one, and raises only \<open>TypeError\<close>, \<open>ValueError\<close> and (from
  \<open>math.isfinite\<close> of a huge integer) \<open>OverflowError\<close>; a constructed policy is well formed; and the
  bounds of the reconnect delay.
\<close>

datatype backpressure = WAIT | REJECT
datatype handler_error_policy = CONTINUE | CLOSE_CONNECTION

definition as_backpressure :: "pyval \<Rightarrow> backpressure option" where
  "as_backpressure v =
     (if v = PObject (lit ''BackpressurePolicy.WAIT'') then Some WAIT
      else if v = PObject (lit ''BackpressurePolicy.REJECT'') then Some REJECT else None)"

definition as_handler_error_policy :: "pyval \<Rightarrow> handler_error_policy option" where
  "as_handler_error_policy v =
     (if v = PObject (lit ''HandlerErrorPolicy.CONTINUE'') then Some CONTINUE
      else if v = PObject (lit ''HandlerErrorPolicy.CLOSE_CONNECTION'') then Some CLOSE_CONNECTION
      else None)"

section \<open>Validators\<close>

definition validate_positive_number :: "pyval \<Rightarrow> exn + rat" where
  "validate_positive_number v =
     rbind (check_number (\<lambda>x. 0 < x) v) (\<lambda>_. opt_res TypeError (number_value v))"

definition validate_timeout :: "pyval \<Rightarrow> exn + rat option" where
  "validate_timeout v =
     rbind (check_optional (check_number (\<lambda>x. 0 < x)) v) (\<lambda>_. Inr (number_value v))"

definition validate_non_negative_timeout :: "pyval \<Rightarrow> exn + rat option" where
  "validate_non_negative_timeout v =
     rbind (check_optional (check_number (\<lambda>x. 0 \<le> x)) v) (\<lambda>_. Inr (number_value v))"

definition validate_positive_integer :: "pyval \<Rightarrow> exn + int" where
  "validate_positive_integer v =
     rbind (opt_res TypeError (strict_int v)) (\<lambda>i. rbind (guard (0 < i) ValueError) (\<lambda>_. Inr i))"

fun as_bool :: "pyval \<Rightarrow> bool option" where
  "as_bool (PBool b) = Some b"
| "as_bool _ = None"

section \<open>Reconnect policy\<close>

record reconnect_args =
  arg_enabled :: pyval
  arg_initial_delay :: pyval
  arg_multiplier :: pyval
  arg_maximum_delay :: pyval
  arg_jitter :: pyval
  arg_max_attempts :: pyval

record reconnect_policy =
  enabled :: bool
  initial_delay :: rat
  multiplier :: rat
  maximum_delay :: rat
  jitter :: rat
  max_attempts :: "int option"

definition new_reconnect_policy :: "reconnect_args \<Rightarrow> exn + reconnect_policy" where
  "new_reconnect_policy a =
     rbind (opt_res TypeError (as_bool (arg_enabled a))) (\<lambda>en.
     rbind (validate_positive_number (arg_initial_delay a)) (\<lambda>ini.
     rbind (validate_positive_number (arg_multiplier a)) (\<lambda>mul.
     rbind (validate_positive_number (arg_maximum_delay a)) (\<lambda>mx.
     rbind (guard (1 \<le> mul) ValueError) (\<lambda>_.
     rbind (guard (ini \<le> mx) ValueError) (\<lambda>_.
     rbind (check_number (\<lambda>x. 0 \<le> x \<and> x \<le> 1) (arg_jitter a)) (\<lambda>_.
     rbind (opt_res TypeError (number_value (arg_jitter a))) (\<lambda>jit.
     rbind (if arg_max_attempts a = PNone then Inr None
            else rbind (validate_positive_integer (arg_max_attempts a)) (\<lambda>i. Inr (Some i)))
       (\<lambda>att.
     Inr \<lparr>enabled = en, initial_delay = ini, multiplier = mul, maximum_delay = mx, jitter = jit,
          max_attempts = att\<rparr>)))))))))"

definition policy_ok :: "reconnect_policy \<Rightarrow> bool" where
  "policy_ok p \<longleftrightarrow> 0 < initial_delay p \<and> 1 \<le> multiplier p \<and> initial_delay p \<le> maximum_delay p
     \<and> 0 \<le> jitter p \<and> jitter p \<le> 1 \<and> (\<forall>n. max_attempts p = Some n \<longrightarrow> 0 < n)"

text \<open>
  \<open>delay_for_attempt\<close>; the last argument is \<open>random.random()\<close>. A power that is no double is the
  \<open>OverflowError\<close> the code catches.
\<close>

definition unbounded_delay :: "reconnect_policy \<Rightarrow> nat \<Rightarrow> rat" where
  "unbounded_delay p n =
     (let power = multiplier p ^ n in
      if of_int double_limit \<le> power then maximum_delay p else initial_delay p * power)"

definition delay_for_attempt :: "reconnect_policy \<Rightarrow> pyval \<Rightarrow> pyval \<Rightarrow> rat \<Rightarrow> exn + rat" where
  "delay_for_attempt p attempt random_value random =
     rbind (opt_res TypeError (strict_int attempt)) (\<lambda>n.
     rbind (guard (0 \<le> n) ValueError) (\<lambda>_.
       let delay = min (maximum_delay p) (unbounded_delay p (nat n)) in
       if jitter p = 0 then Inr delay
       else
         let sample = (if random_value = PNone then PFloat (Finite random) else random_value) in
         rbind (check_number (\<lambda>x. 0 \<le> x \<and> x \<le> 1) sample) (\<lambda>_.
         rbind (opt_res TypeError (number_value sample)) (\<lambda>x.
           Inr (delay * (1 + (2 * x - 1) * jitter p))))))"

section \<open>Node configuration\<close>

record config_args =
  arg_connect_timeout :: pyval
  arg_send_timeout :: pyval
  arg_discover_timeout :: pyval
  arg_handshake_timeout :: pyval
  arg_request_timeout :: pyval
  arg_acknowledgement_timeout :: pyval
  arg_heartbeat_interval :: pyval
  arg_heartbeat_timeout :: pyval
  arg_idle_timeout :: pyval
  arg_peer_ttl :: pyval
  arg_reconnect :: "reconnect_policy option"
  arg_enable_acknowledgements :: pyval
  arg_protocol_version :: pyval
  arg_capabilities :: pyval
  arg_serializer_id :: pyval
  arg_max_message_size :: pyval
  arg_max_pending_requests :: pyval
  arg_max_pending_acknowledgements :: pyval
  arg_max_inbound_queue :: pyval
  arg_max_outbound_queue :: pyval
  arg_max_event_queue :: pyval
  arg_max_connections :: pyval
  arg_handler_concurrency :: pyval
  arg_inbound_backpressure :: pyval
  arg_outbound_backpressure :: pyval
  arg_handler_error_policy :: pyval
  arg_protocol_metadata :: pyval
  arg_require_authenticated :: pyval

record config =
  connect_timeout :: "rat option"
  send_timeout :: "rat option"
  discover_timeout :: "rat option"
  handshake_timeout :: "rat option"
  request_timeout :: "rat option"
  acknowledgement_timeout :: "rat option"
  heartbeat_interval :: "rat option"
  heartbeat_timeout :: "rat option"
  idle_timeout :: "rat option"
  peer_ttl :: pyval
  reconnect :: reconnect_policy
  enable_acknowledgements :: bool
  protocol_version :: int
  capabilities :: "pystr list"
  serializer_id :: "pystr option"
  max_message_size :: int
  max_pending_requests :: int
  max_pending_acknowledgements :: int
  max_inbound_queue :: int
  max_outbound_queue :: int
  max_event_queue :: int
  max_connections :: int
  handler_concurrency :: int
  inbound_backpressure :: backpressure
  outbound_backpressure :: backpressure
  handler_error_policy :: handler_error_policy
  protocol_metadata :: metadata
  require_authenticated :: bool

definition check_capabilities :: "pyval \<Rightarrow> exn + pystr list" where
  "check_capabilities v =
     rbind (case v of PTuple vs \<Rightarrow> opt_res TypeError (nonempty_strs vs) | _ \<Rightarrow> Inl TypeError)
       (\<lambda>caps. rbind (guard (distinct caps) ValueError) (\<lambda>_. Inr caps))"

definition check_metadata :: "pyval \<Rightarrow> exn + metadata" where
  "check_metadata v = (case v of PNone \<Rightarrow> Inr [] | PDict md \<Rightarrow> Inr md | _ \<Rightarrow> Inl TypeError)"

text \<open>
  The checks of \<open>__post_init__\<close> in four groups, in the order of the code: durations, protocol
  fields, capacities, policies. Each group returns what it read.
\<close>

record config_timeouts =
  t_connect :: "rat option"
  t_send :: "rat option"
  t_discover :: "rat option"
  t_handshake :: "rat option"
  t_request :: "rat option"
  t_acknowledgement :: "rat option"
  t_interval :: "rat option"
  t_heartbeat :: "rat option"
  t_idle :: "rat option"

definition check_timeouts :: "config_args \<Rightarrow> exn + config_timeouts" where
  "check_timeouts a =
     rbind (validate_timeout (arg_connect_timeout a)) (\<lambda>connect.
     rbind (validate_timeout (arg_send_timeout a)) (\<lambda>send.
     rbind (validate_non_negative_timeout (arg_discover_timeout a)) (\<lambda>discover.
     rbind (validate_timeout (arg_handshake_timeout a)) (\<lambda>handshake.
     rbind (validate_timeout (arg_request_timeout a)) (\<lambda>request.
     rbind (validate_timeout (arg_acknowledgement_timeout a)) (\<lambda>ack.
     rbind (validate_timeout (arg_heartbeat_interval a)) (\<lambda>interval.
     rbind (validate_timeout (arg_heartbeat_timeout a)) (\<lambda>heartbeat.
     rbind (validate_timeout (arg_idle_timeout a)) (\<lambda>idle.
     rbind (validate_timeout (arg_peer_ttl a)) (\<lambda>_.
     rbind (guard (interval \<noteq> None \<longrightarrow> heartbeat \<noteq> None) ValueError) (\<lambda>_.
     Inr \<lparr>t_connect = connect, t_send = send, t_discover = discover, t_handshake = handshake,
          t_request = request, t_acknowledgement = ack, t_interval = interval,
          t_heartbeat = heartbeat, t_idle = idle\<rparr>)))))))))))"

record config_protocol =
  p_reconnect :: reconnect_policy
  p_acks :: bool
  p_version :: int
  p_capabilities :: "pystr list"
  p_serializer_id :: "pystr option"
  p_max_message_size :: int

definition check_protocol :: "config_args \<Rightarrow> exn + config_protocol" where
  "check_protocol a =
     rbind (opt_res TypeError (arg_reconnect a)) (\<lambda>policy.
     rbind (opt_res TypeError (as_bool (arg_enable_acknowledgements a))) (\<lambda>acks.
     rbind (opt_res TypeError (strict_int (arg_protocol_version a))) (\<lambda>version.
     rbind (guard (1 \<le> version) ValueError) (\<lambda>_.
     rbind (check_capabilities (arg_capabilities a)) (\<lambda>caps.
     rbind (if arg_serializer_id a = PNone then Inr None
            else rbind (opt_res TypeError (nonempty_str (arg_serializer_id a))) (\<lambda>s. Inr (Some s)))
       (\<lambda>serial.
     rbind (validate_positive_integer (arg_max_message_size a)) (\<lambda>size.
     Inr \<lparr>p_reconnect = policy, p_acks = acks, p_version = version, p_capabilities = caps,
          p_serializer_id = serial, p_max_message_size = size\<rparr>)))))))"

record config_limits =
  n_requests :: int
  n_acknowledgements :: int
  n_inbound :: int
  n_outbound :: int
  n_events :: int
  n_connections :: int
  n_handlers :: int

definition check_limits :: "config_args \<Rightarrow> exn + config_limits" where
  "check_limits a =
     rbind (validate_positive_integer (arg_max_pending_requests a)) (\<lambda>requests.
     rbind (validate_positive_integer (arg_max_pending_acknowledgements a)) (\<lambda>acks.
     rbind (validate_positive_integer (arg_max_inbound_queue a)) (\<lambda>inbound.
     rbind (validate_positive_integer (arg_max_outbound_queue a)) (\<lambda>outbound.
     rbind (validate_positive_integer (arg_max_event_queue a)) (\<lambda>events.
     rbind (validate_positive_integer (arg_max_connections a)) (\<lambda>conns.
     rbind (validate_positive_integer (arg_handler_concurrency a)) (\<lambda>handlers.
     Inr \<lparr>n_requests = requests, n_acknowledgements = acks, n_inbound = inbound,
          n_outbound = outbound, n_events = events, n_connections = conns,
          n_handlers = handlers\<rparr>)))))))"

definition new_config :: "config_args \<Rightarrow> exn + config" where
  "new_config a =
     rbind (check_timeouts a) (\<lambda>t.
     rbind (check_protocol a) (\<lambda>p.
     rbind (check_limits a) (\<lambda>n.
     rbind (opt_res TypeError (as_backpressure (arg_inbound_backpressure a))) (\<lambda>inbound.
     rbind (opt_res TypeError (as_backpressure (arg_outbound_backpressure a))) (\<lambda>outbound.
     rbind (opt_res TypeError (as_handler_error_policy (arg_handler_error_policy a))) (\<lambda>on_error.
     rbind (check_metadata (arg_protocol_metadata a)) (\<lambda>md.
     rbind (opt_res TypeError (as_bool (arg_require_authenticated a))) (\<lambda>strict.
     Inr \<lparr>connect_timeout = t_connect t, send_timeout = t_send t, discover_timeout = t_discover t,
          handshake_timeout = t_handshake t, request_timeout = t_request t,
          acknowledgement_timeout = t_acknowledgement t, heartbeat_interval = t_interval t,
          heartbeat_timeout = t_heartbeat t, idle_timeout = t_idle t, peer_ttl = arg_peer_ttl a,
          reconnect = p_reconnect p, enable_acknowledgements = p_acks p,
          protocol_version = p_version p, capabilities = p_capabilities p,
          serializer_id = p_serializer_id p, max_message_size = p_max_message_size p,
          max_pending_requests = n_requests n, max_pending_acknowledgements = n_acknowledgements n,
          max_inbound_queue = n_inbound n, max_outbound_queue = n_outbound n,
          max_event_queue = n_events n, max_connections = n_connections n,
          handler_concurrency = n_handlers n, inbound_backpressure = inbound,
          outbound_backpressure = outbound, handler_error_policy = on_error,
          protocol_metadata = md, require_authenticated = strict\<rparr>))))))))"

definition config_ok :: "config \<Rightarrow> bool" where
  "config_ok c \<longleftrightarrow>
     (\<forall>t \<in> {connect_timeout c, send_timeout c, handshake_timeout c, request_timeout c,
            acknowledgement_timeout c, heartbeat_interval c, heartbeat_timeout c, idle_timeout c}.
        \<forall>x. t = Some x \<longrightarrow> 0 < x)
     \<and> (\<forall>x. discover_timeout c = Some x \<longrightarrow> 0 \<le> x)
     \<and> validate_ttl (peer_ttl c) = Inr ()
     \<and> (heartbeat_interval c \<noteq> None \<longrightarrow> heartbeat_timeout c \<noteq> None)
     \<and> 1 \<le> protocol_version c
     \<and> distinct (capabilities c) \<and> [] \<notin> set (capabilities c)
     \<and> serializer_id c \<noteq> Some []
     \<and> (\<forall>n \<in> {max_message_size c, max_pending_requests c, max_pending_acknowledgements c,
            max_inbound_queue c, max_outbound_queue c, max_event_queue c, max_connections c,
            handler_concurrency c}. 0 < n)"

section \<open>Lemmas\<close>

lemma validate_positive_number_eq_Inr [res_simps]:
  "validate_positive_number v = Inr x \<Longrightarrow> number_value v = Some x \<and> 0 < x"
  by (auto simp: validate_positive_number_def res_simps dest: check_number_ok)

lemma validate_timeout_ok:
  "validate_timeout v = Inr t \<Longrightarrow> t = number_value v \<and> (\<forall>x. t = Some x \<longrightarrow> 0 < x)
     \<and> validate_ttl v = Inr ()"
  by (auto simp: validate_timeout_def validate_ttl_def check_optional_def res_simps
      dest: check_number_ok split: if_split_asm)

lemma validate_non_negative_ok:
  "validate_non_negative_timeout v = Inr t \<Longrightarrow> t = number_value v \<and> (\<forall>x. t = Some x \<longrightarrow> 0 \<le> x)"
  by (auto simp: validate_non_negative_timeout_def check_optional_def res_simps
      dest: check_number_ok split: if_split_asm)

lemma validate_positive_integer_ok: "validate_positive_integer v = Inr i \<longleftrightarrow> v = PInt i \<and> 0 < i"
  by (auto simp: validate_positive_integer_def res_simps)

lemma as_bool_eq_Some [simp]: "as_bool v = Some b \<longleftrightarrow> v = PBool b"
  by (cases v) auto

lemma new_reconnect_policy_ok: "new_reconnect_policy a = Inr p \<Longrightarrow> policy_ok p"
  by (auto simp: new_reconnect_policy_def policy_ok_def validate_positive_integer_ok
      elim!: rbind_InrE dest!: validate_positive_number_eq_Inr check_number_ok
      simp: res_simps split: if_split_asm)

lemma check_capabilities_ok: "check_capabilities v = Inr caps \<Longrightarrow> distinct caps \<and> [] \<notin> set caps"
  by (auto simp: check_capabilities_def res_simps nonempty_strs_eq_Some_iff
      split: pyval.split_asm)

lemma check_timeouts_ok:
  assumes "check_timeouts a = Inr t"
  shows "\<forall>x \<in> {t_connect t, t_send t, t_handshake t, t_request t, t_acknowledgement t, t_interval t,
      t_heartbeat t, t_idle t}. \<forall>d. x = Some d \<longrightarrow> 0 < d"
    and "\<forall>d. t_discover t = Some d \<longrightarrow> 0 \<le> d" "validate_ttl (arg_peer_ttl a) = Inr ()"
    and "t_interval t \<noteq> None \<longrightarrow> t_heartbeat t \<noteq> None"
  using assms
  by (auto simp: check_timeouts_def guard_eq_Inr_iff elim!: rbind_InrE
      dest!: validate_timeout_ok validate_non_negative_ok)

lemma check_protocol_ok:
  assumes "check_protocol a = Inr p"
  shows "1 \<le> p_version p \<and> distinct (p_capabilities p) \<and> [] \<notin> set (p_capabilities p)
    \<and> p_serializer_id p \<noteq> Some [] \<and> 0 < p_max_message_size p"
  using assms
  by (auto simp: check_protocol_def guard_eq_Inr_iff validate_positive_integer_ok opt_res_eq_Inr_iff
      elim!: rbind_InrE dest!: check_capabilities_ok split: if_split_asm)

lemma check_limits_ok:
  assumes "check_limits a = Inr n"
  shows "\<forall>i \<in> {n_requests n, n_acknowledgements n, n_inbound n, n_outbound n, n_events n,
      n_connections n, n_handlers n}. 0 < i"
  using assms by (auto simp: check_limits_def validate_positive_integer_ok elim!: rbind_InrE)

lemma new_config_parts:
  assumes "new_config a = Inr c"
  obtains t p n where "check_timeouts a = Inr t" "check_protocol a = Inr p" "check_limits a = Inr n"
    "peer_ttl c = arg_peer_ttl a"
    "connect_timeout c = t_connect t" "send_timeout c = t_send t" "discover_timeout c = t_discover t"
    "handshake_timeout c = t_handshake t" "request_timeout c = t_request t"
    "acknowledgement_timeout c = t_acknowledgement t" "heartbeat_interval c = t_interval t"
    "heartbeat_timeout c = t_heartbeat t" "idle_timeout c = t_idle t"
    "protocol_version c = p_version p" "capabilities c = p_capabilities p"
    "serializer_id c = p_serializer_id p" "max_message_size c = p_max_message_size p"
    "max_pending_requests c = n_requests n" "max_pending_acknowledgements c = n_acknowledgements n"
    "max_inbound_queue c = n_inbound n" "max_outbound_queue c = n_outbound n"
    "max_event_queue c = n_events n" "max_connections c = n_connections n"
    "handler_concurrency c = n_handlers n"
  using assms by (auto simp: new_config_def elim!: rbind_InrE)

lemma new_config_ok:
  assumes "new_config a = Inr c" shows "config_ok c"
  using assms
proof (cases rule: new_config_parts)
  case (1 t p n)
  then show ?thesis
    using check_timeouts_ok [of a t] check_protocol_ok [of a p] check_limits_ok [of a n]
    by (simp add: config_ok_def)
qed

section \<open>Reconnect delays\<close>

lemma unbounded_delay_mono:
  assumes "policy_ok p" "m \<le> n"
  shows "min (maximum_delay p) (unbounded_delay p m) \<le> min (maximum_delay p) (unbounded_delay p n)"
proof -
  have pow: "multiplier p ^ m \<le> multiplier p ^ n"
    using assms by (intro power_increasing) (auto simp: policy_ok_def)
  then have "initial_delay p * multiplier p ^ m \<le> initial_delay p * multiplier p ^ n"
    using assms(1) by (intro mult_left_mono) (auto simp: policy_ok_def)
  with pow show ?thesis by (auto simp: unbounded_delay_def Let_def min_def)
qed

lemma unbounded_delay_bounds:
  assumes "policy_ok p"
  shows "initial_delay p \<le> min (maximum_delay p) (unbounded_delay p n)"
    and "min (maximum_delay p) (unbounded_delay p n) \<le> maximum_delay p"
proof -
  have "1 \<le> multiplier p ^ n"
    using assms by (auto simp: policy_ok_def intro: one_le_power)
  then have "initial_delay p * 1 \<le> initial_delay p * multiplier p ^ n"
    using assms by (intro mult_left_mono) (auto simp: policy_ok_def)
  then show "initial_delay p \<le> min (maximum_delay p) (unbounded_delay p n)"
    using assms by (simp add: unbounded_delay_def Let_def policy_ok_def)
qed simp

lemma delay_for_attempt_eq:
  assumes "delay_for_attempt p (PInt n) v rnd = Inr d"
  shows "0 \<le> n \<and> (\<exists>x. (jitter p = 0 \<or> 0 \<le> x \<and> x \<le> 1)
    \<and> d = min (maximum_delay p) (unbounded_delay p (nat n)) * (1 + (2 * x - 1) * jitter p))"
  using assms
  by (auto simp: delay_for_attempt_def Let_def res_simps split: if_split_asm dest!: check_number_ok)

lemma delay_for_attempt_bounds:
  assumes "policy_ok p" "delay_for_attempt p (PInt n) v rnd = Inr d"
  shows "initial_delay p * (1 - jitter p) \<le> d \<and> d \<le> maximum_delay p * (1 + jitter p)"
proof -
  define b where "b = min (maximum_delay p) (unbounded_delay p (nat n))"
  obtain x where x: "jitter p = 0 \<or> 0 \<le> x \<and> x \<le> 1" and d: "d = b * (1 + (2 * x - 1) * jitter p)"
    using delay_for_attempt_eq [OF assms(2)] by (auto simp: b_def)
  have j: "0 \<le> jitter p" "jitter p \<le> 1" and b: "initial_delay p \<le> b" "b \<le> maximum_delay p"
    "0 < initial_delay p"
    using assms(1) unbounded_delay_bounds [OF assms(1)] by (auto simp: policy_ok_def b_def)
  have lo: "- jitter p \<le> (2 * x - 1) * jitter p" and hi: "(2 * x - 1) * jitter p \<le> jitter p"
    using x j mult_right_mono [of "-1" "2 * x - 1" "jitter p"] mult_right_mono [of "2 * x - 1" 1 "jitter p"]
    by auto
  have "initial_delay p * (1 - jitter p) \<le> b * (1 + (2 * x - 1) * jitter p)"
    using b j lo by (intro mult_mono) auto
  moreover have "b * (1 + (2 * x - 1) * jitter p) \<le> maximum_delay p * (1 + jitter p)"
    using b j lo hi by (intro mult_mono) auto
  ultimately show ?thesis by (simp add: d)
qed

section \<open>Properties\<close>

text \<open>What the constructor keeps of its arguments: a duration is the number it was given, every
  other field the argument itself, and \<open>None\<close> for the metadata the empty dictionary.\<close>

fun same_seconds :: "pyval \<Rightarrow> rat option \<Rightarrow> bool" where
  "same_seconds PNone t \<longleftrightarrow> t = None"
| "same_seconds (PInt i) t \<longleftrightarrow> \<bar>i\<bar> < double_limit \<and> t = Some (of_int i)"
| "same_seconds (PFloat (Finite q)) t \<longleftrightarrow> t = Some q"
| "same_seconds _ t \<longleftrightarrow> False"

definition durations_as_given :: "config_args \<Rightarrow> config \<Rightarrow> bool" where
  "durations_as_given a c \<longleftrightarrow>
     same_seconds (arg_connect_timeout a) (connect_timeout c)
     \<and> same_seconds (arg_send_timeout a) (send_timeout c)
     \<and> same_seconds (arg_discover_timeout a) (discover_timeout c)
     \<and> same_seconds (arg_handshake_timeout a) (handshake_timeout c)
     \<and> same_seconds (arg_request_timeout a) (request_timeout c)
     \<and> same_seconds (arg_acknowledgement_timeout a) (acknowledgement_timeout c)
     \<and> same_seconds (arg_heartbeat_interval a) (heartbeat_interval c)
     \<and> same_seconds (arg_heartbeat_timeout a) (heartbeat_timeout c)
     \<and> same_seconds (arg_idle_timeout a) (idle_timeout c)
     \<and> arg_peer_ttl a = peer_ttl c"

definition protocol_as_given :: "config_args \<Rightarrow> config \<Rightarrow> bool" where
  "protocol_as_given a c \<longleftrightarrow>
     arg_reconnect a = Some (reconnect c)
     \<and> arg_enable_acknowledgements a = PBool (enable_acknowledgements c)
     \<and> arg_protocol_version a = PInt (protocol_version c)
     \<and> arg_capabilities a = PTuple (List.map PStr (capabilities c))
     \<and> arg_serializer_id a = (case serializer_id c of None \<Rightarrow> PNone | Some s \<Rightarrow> PStr s)
     \<and> arg_max_message_size a = PInt (max_message_size c)"

definition limits_as_given :: "config_args \<Rightarrow> config \<Rightarrow> bool" where
  "limits_as_given a c \<longleftrightarrow>
     arg_max_pending_requests a = PInt (max_pending_requests c)
     \<and> arg_max_pending_acknowledgements a = PInt (max_pending_acknowledgements c)
     \<and> arg_max_inbound_queue a = PInt (max_inbound_queue c)
     \<and> arg_max_outbound_queue a = PInt (max_outbound_queue c)
     \<and> arg_max_event_queue a = PInt (max_event_queue c)
     \<and> arg_max_connections a = PInt (max_connections c)
     \<and> arg_handler_concurrency a = PInt (handler_concurrency c)"

definition policies_as_given :: "config_args \<Rightarrow> config \<Rightarrow> bool" where
  "policies_as_given a c \<longleftrightarrow>
     as_backpressure (arg_inbound_backpressure a) = Some (inbound_backpressure c)
     \<and> as_backpressure (arg_outbound_backpressure a) = Some (outbound_backpressure c)
     \<and> as_handler_error_policy (arg_handler_error_policy a) = Some (handler_error_policy c)
     \<and> (arg_protocol_metadata a = PDict (protocol_metadata c)
        \<or> arg_protocol_metadata a = PNone \<and> protocol_metadata c = [])
     \<and> arg_require_authenticated a = PBool (require_authenticated c)"

definition config_as_given :: "config_args \<Rightarrow> config \<Rightarrow> bool" where
  "config_as_given a c \<longleftrightarrow>
     durations_as_given a c \<and> protocol_as_given a c \<and> limits_as_given a c \<and> policies_as_given a c"

lemma check_number_same_seconds:
  "check_number P v = Inr () \<longleftrightarrow> (\<exists>x. same_seconds v (Some x) \<and> P x)"
  by (cases v rule: number_value.cases) (auto simp: check_number_def)

lemma same_seconds_Some:
  "same_seconds v (Some x) \<longleftrightarrow> number_value v = Some x \<and> (\<forall>i. v = PInt i \<longrightarrow> \<bar>i\<bar> < double_limit)"
  by (cases v rule: number_value.cases) auto

lemma same_seconds_None: "same_seconds v None \<longleftrightarrow> v = PNone"
  by (cases v rule: number_value.cases) auto

lemma validate_timeout_iff:
  "validate_timeout v = Inr t \<longleftrightarrow> same_seconds v t \<and> (\<forall>x. t = Some x \<longrightarrow> 0 < x)"
  by (cases t)
    (auto simp: validate_timeout_def check_optional_def rbind_eq_Inr_iff same_seconds_None
      check_number_same_seconds same_seconds_Some)

lemma validate_non_negative_iff:
  "validate_non_negative_timeout v = Inr t \<longleftrightarrow> same_seconds v t \<and> (\<forall>x. t = Some x \<longrightarrow> 0 \<le> x)"
  by (cases t)
    (auto simp: validate_non_negative_timeout_def check_optional_def rbind_eq_Inr_iff same_seconds_None
      check_number_same_seconds same_seconds_Some)

lemma check_timeouts_given:
  assumes "check_timeouts a = Inr t"
  shows "same_seconds (arg_connect_timeout a) (t_connect t)" "same_seconds (arg_send_timeout a) (t_send t)"
    "same_seconds (arg_discover_timeout a) (t_discover t)"
    "same_seconds (arg_handshake_timeout a) (t_handshake t)"
    "same_seconds (arg_request_timeout a) (t_request t)"
    "same_seconds (arg_acknowledgement_timeout a) (t_acknowledgement t)"
    "same_seconds (arg_heartbeat_interval a) (t_interval t)"
    "same_seconds (arg_heartbeat_timeout a) (t_heartbeat t)" "same_seconds (arg_idle_timeout a) (t_idle t)"
  using assms
  by (auto simp: check_timeouts_def guard_eq_Inr_iff validate_timeout_iff validate_non_negative_iff
      elim!: rbind_InrE)

lemma check_capabilities_iff:
  "check_capabilities v = Inr caps \<longleftrightarrow> v = PTuple (List.map PStr caps) \<and> distinct caps \<and> [] \<notin> set caps"
  by (cases v) (auto simp: check_capabilities_def rbind_eq_Inr_iff opt_res_eq_Inr_iff guard_eq_Inr_iff
      nonempty_strs_eq_Some_iff)

lemma check_metadata_iff: "check_metadata v = Inr md \<longleftrightarrow> v = PDict md \<or> v = PNone \<and> md = []"
  by (cases v) (auto simp: check_metadata_def)

lemma check_protocol_given:
  assumes "check_protocol a = Inr p"
  shows "arg_reconnect a = Some (p_reconnect p)" "arg_enable_acknowledgements a = PBool (p_acks p)"
    "arg_protocol_version a = PInt (p_version p)"
    "arg_capabilities a = PTuple (List.map PStr (p_capabilities p))"
    "arg_serializer_id a = (case p_serializer_id p of None \<Rightarrow> PNone | Some s \<Rightarrow> PStr s)"
    "arg_max_message_size a = PInt (p_max_message_size p)"
  using assms
  by (auto simp: check_protocol_def guard_eq_Inr_iff validate_positive_integer_ok opt_res_eq_Inr_iff
      check_capabilities_iff elim!: rbind_InrE split: if_split_asm)

lemma check_limits_given:
  assumes "check_limits a = Inr n"
  shows "arg_max_pending_requests a = PInt (n_requests n)"
    "arg_max_pending_acknowledgements a = PInt (n_acknowledgements n)"
    "arg_max_inbound_queue a = PInt (n_inbound n)" "arg_max_outbound_queue a = PInt (n_outbound n)"
    "arg_max_event_queue a = PInt (n_events n)" "arg_max_connections a = PInt (n_connections n)"
    "arg_handler_concurrency a = PInt (n_handlers n)"
  using assms by (auto simp: check_limits_def validate_positive_integer_ok elim!: rbind_InrE)

lemma new_config_given:
  assumes "new_config a = Inr c" shows "config_as_given a c"
proof -
  obtain t p n where parts: "check_timeouts a = Inr t" "check_protocol a = Inr p" "check_limits a = Inr n"
    "peer_ttl c = arg_peer_ttl a"
    "connect_timeout c = t_connect t" "send_timeout c = t_send t" "discover_timeout c = t_discover t"
    "handshake_timeout c = t_handshake t" "request_timeout c = t_request t"
    "acknowledgement_timeout c = t_acknowledgement t" "heartbeat_interval c = t_interval t"
    "heartbeat_timeout c = t_heartbeat t" "idle_timeout c = t_idle t"
    "protocol_version c = p_version p" "capabilities c = p_capabilities p"
    "serializer_id c = p_serializer_id p" "max_message_size c = p_max_message_size p"
    "max_pending_requests c = n_requests n" "max_pending_acknowledgements c = n_acknowledgements n"
    "max_inbound_queue c = n_inbound n" "max_outbound_queue c = n_outbound n"
    "max_event_queue c = n_events n" "max_connections c = n_connections n"
    "handler_concurrency c = n_handlers n"
    using assms by (rule new_config_parts)
  have more: "reconnect c = p_reconnect p" "enable_acknowledgements c = p_acks p" "policies_as_given a c"
    using assms parts(1-3)
    by (auto simp: new_config_def rbind_eq_Inr_iff opt_res_eq_Inr_iff check_metadata_iff policies_as_given_def)
  show ?thesis
    using check_timeouts_given [OF parts(1)] check_protocol_given [OF parts(2)]
      check_limits_given [OF parts(3)] more
    by (simp add: config_as_given_def durations_as_given_def protocol_as_given_def limits_as_given_def parts(4-))
qed

text \<open>Conversely, arguments that are the values of a well-formed configuration are accepted.\<close>

lemma check_timeouts_accepts:
  assumes "config_ok c" "durations_as_given a c"
  shows "check_timeouts a = Inr \<lparr>t_connect = connect_timeout c, t_send = send_timeout c,
    t_discover = discover_timeout c, t_handshake = handshake_timeout c, t_request = request_timeout c,
    t_acknowledgement = acknowledgement_timeout c, t_interval = heartbeat_interval c,
    t_heartbeat = heartbeat_timeout c, t_idle = idle_timeout c\<rparr>"
proof -
  have v: "validate_timeout (arg_connect_timeout a) = Inr (connect_timeout c)"
    "validate_timeout (arg_send_timeout a) = Inr (send_timeout c)"
    "validate_non_negative_timeout (arg_discover_timeout a) = Inr (discover_timeout c)"
    "validate_timeout (arg_handshake_timeout a) = Inr (handshake_timeout c)"
    "validate_timeout (arg_request_timeout a) = Inr (request_timeout c)"
    "validate_timeout (arg_acknowledgement_timeout a) = Inr (acknowledgement_timeout c)"
    "validate_timeout (arg_heartbeat_interval a) = Inr (heartbeat_interval c)"
    "validate_timeout (arg_heartbeat_timeout a) = Inr (heartbeat_timeout c)"
    "validate_timeout (arg_idle_timeout a) = Inr (idle_timeout c)"
    using assms
    by (simp_all add: validate_timeout_iff validate_non_negative_iff config_ok_def durations_as_given_def)
  have "validate_timeout (arg_peer_ttl a) = Inr (number_value (arg_peer_ttl a))"
    using assms by (simp add: validate_timeout_def config_ok_def durations_as_given_def validate_ttl_def)
  moreover have "heartbeat_interval c \<noteq> None \<longrightarrow> heartbeat_timeout c \<noteq> None"
    using assms by (simp add: config_ok_def)
  ultimately show ?thesis by (simp add: check_timeouts_def v del: not_None_eq)
qed

lemma check_protocol_accepts:
  assumes "config_ok c" "protocol_as_given a c"
  shows "check_protocol a = Inr \<lparr>p_reconnect = reconnect c, p_acks = enable_acknowledgements c,
    p_version = protocol_version c, p_capabilities = capabilities c, p_serializer_id = serializer_id c,
    p_max_message_size = max_message_size c\<rparr>"
proof -
  have "check_capabilities (arg_capabilities a) = Inr (capabilities c)"
    "validate_positive_integer (arg_max_message_size a) = Inr (max_message_size c)"
    "1 \<le> protocol_version c" "serializer_id c \<noteq> Some []"
    using assms
    by (simp_all add: check_capabilities_iff validate_positive_integer_ok config_ok_def protocol_as_given_def)
  then show ?thesis
    using assms(2) by (auto simp: check_protocol_def protocol_as_given_def split: option.split)
qed

lemma check_limits_accepts:
  assumes "config_ok c" "limits_as_given a c"
  shows "check_limits a = Inr \<lparr>n_requests = max_pending_requests c,
    n_acknowledgements = max_pending_acknowledgements c, n_inbound = max_inbound_queue c,
    n_outbound = max_outbound_queue c, n_events = max_event_queue c, n_connections = max_connections c,
    n_handlers = handler_concurrency c\<rparr>"
proof -
  have "validate_positive_integer (arg_max_pending_requests a) = Inr (max_pending_requests c)"
    "validate_positive_integer (arg_max_pending_acknowledgements a) = Inr (max_pending_acknowledgements c)"
    "validate_positive_integer (arg_max_inbound_queue a) = Inr (max_inbound_queue c)"
    "validate_positive_integer (arg_max_outbound_queue a) = Inr (max_outbound_queue c)"
    "validate_positive_integer (arg_max_event_queue a) = Inr (max_event_queue c)"
    "validate_positive_integer (arg_max_connections a) = Inr (max_connections c)"
    "validate_positive_integer (arg_handler_concurrency a) = Inr (handler_concurrency c)"
    using assms by (simp_all add: validate_positive_integer_ok config_ok_def limits_as_given_def)
  then show ?thesis by (simp add: check_limits_def)
qed

lemma new_config_accepts:
  assumes "config_ok c" "config_as_given a c" shows "new_config a = Inr c"
proof -
  have parts: "durations_as_given a c" "protocol_as_given a c" "limits_as_given a c" "policies_as_given a c"
    using assms(2) by (simp_all add: config_as_given_def)
  then have "check_metadata (arg_protocol_metadata a) = Inr (protocol_metadata c)"
    by (simp add: check_metadata_iff policies_as_given_def)
  with parts(4) show ?thesis
    using parts(1)
    by (simp add: new_config_def policies_as_given_def durations_as_given_def
        check_timeouts_accepts [OF assms(1) parts(1)] check_protocol_accepts [OF assms(1) parts(2)]
        check_limits_accepts [OF assms(1) parts(3)])
qed

lemma validators_raise:
  "validate_timeout v = Inl e \<Longrightarrow> e \<in> {TypeError, ValueError, OverflowError}"
  "validate_non_negative_timeout v = Inl e \<Longrightarrow> e \<in> {TypeError, ValueError, OverflowError}"
  "validate_positive_integer v = Inl e \<Longrightarrow> e \<in> {TypeError, ValueError, OverflowError}"
  "check_capabilities v = Inl e \<Longrightarrow> e \<in> {TypeError, ValueError, OverflowError}"
  "check_metadata v = Inl e \<Longrightarrow> e \<in> {TypeError, ValueError, OverflowError}"
  by (auto simp: validate_timeout_def validate_non_negative_timeout_def validate_positive_integer_def
      check_capabilities_def check_metadata_def check_optional_def opt_res_def guard_def elim!: rbind_InlE
      dest!: check_number_error split: if_split_asm option.split_asm pyval.split_asm)

lemma raised_by_opt_res: "opt_res TypeError x = Inl e \<Longrightarrow> e \<in> {TypeError, ValueError, OverflowError}"
  by (auto simp: opt_res_def split: option.split_asm)

lemma raised_by_guard: "guard b ValueError = Inl e \<Longrightarrow> e \<in> {TypeError, ValueError, OverflowError}"
  by (auto simp: guard_eq_Inl_iff)

lemmas raises_only = validators_raise raised_by_opt_res raised_by_guard

lemma groups_raise:
  "check_timeouts a = Inl e \<Longrightarrow> e \<in> {TypeError, ValueError, OverflowError}"
  "check_protocol a = Inl e \<Longrightarrow> e \<in> {TypeError, ValueError, OverflowError}"
  "check_limits a = Inl e \<Longrightarrow> e \<in> {TypeError, ValueError, OverflowError}"
  unfolding check_timeouts_def check_protocol_def check_limits_def
  by (elim rbind_InlE raises_only; auto elim!: rbind_InlE dest: raises_only split: if_split_asm)+

lemma new_config_raises: "new_config a = Inl e \<Longrightarrow> e \<in> {TypeError, ValueError, OverflowError}"
  unfolding new_config_def
  by (elim rbind_InlE groups_raise raises_only; simp)

text \<open>C21 The constructor accepts exactly the well-formed configurations and keeps them as given:
  it returns a configuration if and only if every deadline is positive, the discovery budget is
  not negative, a heartbeat interval comes with a heartbeat deadline, the version is at least 1,
  capability names are distinct and not empty, every capacity is at least 1, and each field is
  the value of its argument, at its type; so nothing is clamped, converted or repaired, but for
  \<open>None\<close> as the metadata, which becomes the empty dictionary. Any other arguments raise
  \<open>TypeError\<close> or \<open>ValueError\<close>, or \<open>OverflowError\<close> for an integer no double can hold.\<close>

theorem new_config_wellformed:
  "(new_config a = Inr c \<longleftrightarrow> config_ok c \<and> config_as_given a c)
    \<and> (new_config a = Inl e \<longrightarrow> e \<in> {TypeError, ValueError, OverflowError})"
  using new_config_ok new_config_given new_config_accepts new_config_raises by blast

definition example_args :: config_args where
  "example_args = \<lparr>arg_connect_timeout = PInt 10, arg_send_timeout = PInt 10,
     arg_discover_timeout = PInt 3, arg_handshake_timeout = PInt 10, arg_request_timeout = PInt 10,
     arg_acknowledgement_timeout = PInt 10, arg_heartbeat_interval = PNone,
     arg_heartbeat_timeout = PInt 10, arg_idle_timeout = PNone, arg_peer_ttl = PInt 60,
     arg_reconnect = Some \<lparr>enabled = False, initial_delay = 1 / 2, multiplier = 2,
       maximum_delay = 30, jitter = 0, max_attempts = None\<rparr>,
     arg_enable_acknowledgements = PBool True, arg_protocol_version = PInt 1,
     arg_capabilities = PTuple [], arg_serializer_id = PNone, arg_max_message_size = PInt 16777216,
     arg_max_pending_requests = PInt 1024, arg_max_pending_acknowledgements = PInt 1024,
     arg_max_inbound_queue = PInt 256, arg_max_outbound_queue = PInt 256,
     arg_max_event_queue = PInt 256, arg_max_connections = PInt 128,
     arg_handler_concurrency = PInt 4,
     arg_inbound_backpressure = PObject (lit ''BackpressurePolicy.WAIT''),
     arg_outbound_backpressure = PObject (lit ''BackpressurePolicy.WAIT''),
     arg_handler_error_policy = PObject (lit ''HandlerErrorPolicy.CONTINUE''),
     arg_protocol_metadata = PNone, arg_require_authenticated = PBool False\<rparr>"

definition example_config :: config where
  "example_config = \<lparr>connect_timeout = Some 10, send_timeout = Some 10, discover_timeout = Some 3,
     handshake_timeout = Some 10, request_timeout = Some 10, acknowledgement_timeout = Some 10,
     heartbeat_interval = None, heartbeat_timeout = Some 10, idle_timeout = None,
     peer_ttl = PInt 60,
     reconnect = \<lparr>enabled = False, initial_delay = 1 / 2, multiplier = 2, maximum_delay = 30,
       jitter = 0, max_attempts = None\<rparr>,
     enable_acknowledgements = True, protocol_version = 1, capabilities = [], serializer_id = None,
     max_message_size = 16777216, max_pending_requests = 1024, max_pending_acknowledgements = 1024,
     max_inbound_queue = 256, max_outbound_queue = 256, max_event_queue = 256,
     max_connections = 128, handler_concurrency = 4, inbound_backpressure = WAIT,
     outbound_backpressure = WAIT, handler_error_policy = CONTINUE, protocol_metadata = [],
     require_authenticated = False\<rparr>"

lemma example_args_accepted: "new_config example_args = Inr example_config"
  by (simp add: new_config_def check_timeouts_def check_protocol_def check_limits_def
      example_args_def example_config_def validate_timeout_def validate_non_negative_timeout_def
      validate_positive_integer_def check_optional_def check_number_def double_limit_def
      check_capabilities_def check_metadata_def as_backpressure_def as_handler_error_policy_def)

theorem new_config_wellformed_witness:
  "config_ok example_config \<and> config_as_given example_args example_config
    \<and> new_config (example_args\<lparr>arg_send_timeout := PInt 0\<rparr>) = Inl ValueError
    \<and> ValueError \<in> {TypeError, ValueError, OverflowError}"
proof -
  have "new_config (example_args\<lparr>arg_send_timeout := PInt 0\<rparr>) = Inl ValueError"
    by (simp add: new_config_def check_timeouts_def example_args_def validate_timeout_def
        check_optional_def check_number_def double_limit_def)
  then show ?thesis using example_args_accepted new_config_wellformed by blast
qed

text \<open>The reconnect delay of a valid policy: without jitter it never shrinks from one attempt to
  the next, starts no lower than the initial delay and stays under the maximum; with jitter the
  bounds widen by that fraction on both sides, so the configured maximum can be exceeded by it.\<close>

theorem reconnect_delay_bounds:
  assumes "policy_ok p" "delay_for_attempt p (PInt n) v rnd = Inr d"
  shows "initial_delay p * (1 - jitter p) \<le> d \<and> d \<le> maximum_delay p * (1 + jitter p)
    \<and> (jitter p = 0 \<longrightarrow> (\<forall>m v' rnd' e. n \<le> m \<and> delay_for_attempt p (PInt m) v' rnd' = Inr e \<longrightarrow> d \<le> e))"
proof -
  have "d \<le> e" if "jitter p = 0" "n \<le> m" "delay_for_attempt p (PInt m) v' rnd' = Inr e" for m v' rnd' e
    using unbounded_delay_mono [OF assms(1), of "nat n" "nat m"] that
      delay_for_attempt_eq [OF assms(2)] delay_for_attempt_eq [OF that(3)] by auto
  with delay_for_attempt_bounds [OF assms] show ?thesis by blast
qed

definition example_policy :: reconnect_policy where
  "example_policy = \<lparr>enabled = True, initial_delay = 1, multiplier = 2, maximum_delay = 30,
     jitter = 1 / 2, max_attempts = Some 5\<rparr>"

theorem reconnect_delay_bounds_witness:
  "delay_for_attempt example_policy (PInt 9) (PInt 1) 0 = Inr 45 \<and> (45 :: rat) \<le> 30 * (1 + 1 / 2)"
proof -
  have d: "delay_for_attempt example_policy (PInt 9) (PInt 1) 0 = Inr 45"
    by (simp add: delay_for_attempt_def example_policy_def unbounded_delay_def Let_def
        check_number_def double_limit_def)
  have "policy_ok example_policy" by (simp add: policy_ok_def example_policy_def)
  from reconnect_delay_bounds [OF this d] d show ?thesis by (simp add: example_policy_def)
qed

end
