(* ===== verification/Machines.thy ===== *)
theory Machines
  imports Prelude
begin

text \<open>
  Machines: an initial state and a step relation, the states they reach, and the contract under
  which a predicate holds in all of them. The components that interleave (the connection manager,
  the node, the LAN listener, transport and discovery) each discharge it for their own steps.
\<close>

inductive reachable :: "('s \<Rightarrow> 's \<Rightarrow> bool) \<Rightarrow> 's \<Rightarrow> 's \<Rightarrow> bool" for step init where
  start: "reachable step init init"
| next_state: "reachable step init s \<Longrightarrow> step s s' \<Longrightarrow> reachable step init s'"

locale machine_invariant =
  fixes step :: "'s \<Rightarrow> 's \<Rightarrow> bool" and init :: 's and inv :: "'s \<Rightarrow> bool"
  assumes inv_init: "inv init"
    and inv_step: "\<And>s s'. inv s \<Longrightarrow> step s s' \<Longrightarrow> inv s'"
begin

lemma holds: "reachable step init s \<Longrightarrow> inv s"
  by (induction rule: reachable.induct) (auto intro: inv_init inv_step)

end

text \<open>An invariant proved over states that are known to satisfy another one.\<close>

locale relative_invariant = machine_invariant +
  fixes also_inv :: "'s \<Rightarrow> bool"
  assumes also_init: "also_inv init"
    and also_step: "\<And>s s'. inv s \<Longrightarrow> also_inv s \<Longrightarrow> step s s' \<Longrightarrow> also_inv s'"
begin

sublocale both: machine_invariant step init "\<lambda>s. inv s \<and> also_inv s"
  by unfold_locales (auto intro: inv_init inv_step also_init also_step)

end

lemma reachable_trans:
  assumes "reachable step s t" "reachable step init s"
  shows "reachable step init t"
  using assms by (induction rule: reachable.induct) (auto intro: reachable.next_state)

text \<open>The states along a list of stimuli, for a machine whose steps a function computes.\<close>

fun follow :: "('x \<Rightarrow> 's \<Rightarrow> 's option) \<Rightarrow> 'x list \<Rightarrow> 's \<Rightarrow> 's option" where
  "follow f [] s = Some s"
| "follow f (x # xs) s = (case f x s of None \<Rightarrow> None | Some s' \<Rightarrow> follow f xs s')"

lemma follow_reachable:
  assumes "\<And>x s s'. f x s = Some s' \<Longrightarrow> step s s'"
  shows "follow f xs s = Some s' \<Longrightarrow> reachable step init s \<Longrightarrow> reachable step init s'"
proof (induction xs arbitrary: s)
  case (Cons x xs)
  from Cons.prems(1) obtain s1 where "f x s = Some s1" "follow f xs s1 = Some s'" by (auto split: option.splits)
  with Cons assms show ?case by (meson reachable.next_state)
qed simp

end
