(* ===== verification/Manager.thy ===== *)
theory Manager
  imports Models Machines
begin

text \<open>
  \<open>ConnectionManager\<close> of \<open>src/paqto/core/manager.py\<close>: the canonical connection of every peer,
  the single setup task in flight for it, and closing. A connection and a task are identities
  (numbers); whether a connection is closed, and which connections \<open>close()\<close> was called on, is
  part of the system state \<open>sys\<close>.

  The code runs on one event loop, so it is interrupted at an \<open>await\<close> only. The blocks under
  \<open>self._lock\<close> hold no \<open>await\<close>; the lock is never contended and each block is one step. A task
  running \<open>_open_connection\<close> is its position between two awaits (\<open>setup_pc\<close>), and
  \<open>setup_resume\<close> runs it from one await to the next, an exception thrown in there (a failure, a
  deadline, a cancellation) included. \<open>close_peer\<close> and \<open>close_all\<close> are split at their awaits in
  the same way. \<open>mgr_step\<close> interleaves all of these in any order.

  The lemmas: the invariant \<open>mgr_inv\<close> holds in every reachable state (nothing is canonical or in
  flight while closing, a setup in flight is live and belongs to its peer, \<open>CONNECTED\<close> only with
  a canonical connection, no setup loses a connection it opened), and every resumption of a setup
  brings it closer to its end.
\<close>

datatype connection_state = DISCONNECTED | CONNECTING | CONNECTED | RECONNECTING | CLOSING | CLOSED

type_synonym conn = nat

record manager =
  transport_name :: pystr
  connections :: "(pystr \<times> conn) list"
  in_flight :: "(pystr \<times> nat) list"
  states :: "(pystr \<times> connection_state) list"
  closing_peers :: "pystr list"
  closing :: bool

definition new_manager :: "pystr \<Rightarrow> manager" where
  "new_manager transport = \<lparr>transport_name = transport, connections = [], in_flight = [],
     states = [], closing_peers = [], closing = False\<rparr>"

section \<open>Operations of the manager\<close>

text \<open>The argument \<open>gn\<close> is the set of connections whose \<open>is_closed\<close> is true.\<close>

definition get_by_id :: "conn set \<Rightarrow> pystr \<Rightarrow> manager \<Rightarrow> conn option \<times> manager" where
  "get_by_id gn p m =
     (case map_of (connections m) p of
        None \<Rightarrow> (None, m)
      | Some c \<Rightarrow>
          if c \<in> gn then
            (None, m\<lparr>connections := dpop p (connections m),
                     states := if map_of (states m) p = Some CONNECTED
                               then dput p DISCONNECTED (states m) else states m\<rparr>)
          else (Some c, m))"

definition peer_state :: "conn set \<Rightarrow> pystr \<Rightarrow> manager \<Rightarrow> connection_state \<times> manager" where
  "peer_state gn p m =
     (let (c, m') = get_by_id gn p m in
      if c \<noteq> None then (CONNECTED, m')
      else (case map_of (states m') p of Some s \<Rightarrow> s | None \<Rightarrow> DISCONNECTED, m'))"

definition mark_reconnecting :: "conn set \<Rightarrow> pystr \<Rightarrow> manager \<Rightarrow> manager" where
  "mark_reconnecting gn p m =
     (if \<not> closing m \<and> p \<notin> set (closing_peers m) then
        let (c, m') = get_by_id gn p m in
        if c = None then m'\<lparr>states := dput p RECONNECTING (states m')\<rparr> else m'
      else m)"

definition mark_disconnected :: "conn set \<Rightarrow> pystr \<Rightarrow> manager \<Rightarrow> manager" where
  "mark_disconnected gn p m =
     (let (c, m') = get_by_id gn p m in
      if c = None \<and> p \<notin> set (closing_peers m') then m'\<lparr>states := dput p DISCONNECTED (states m')\<rparr>
      else m')"

definition validate_target :: "manager \<Rightarrow> endpoint \<Rightarrow> exn + unit" where
  "validate_target m ep =
     (if ep_transport ep \<noteq> transport_name m then Inl TransportError
      else if ep_address ep = [] then Inl NoEndpointError
      else Inr ())"

definition adopt :: "pystr \<Rightarrow> conn \<Rightarrow> manager \<Rightarrow> (exn + conn option) \<times> manager" where
  "adopt p c m =
     (if closing m \<or> p \<in> set (closing_peers m) then (Inl ConnectionClosedError, m)
      else let previous = map_of (connections m) p;
               m' = m\<lparr>connections := dput p c (connections m), states := dput p CONNECTED (states m)\<rparr>
           in (Inr (if previous = Some c then None else previous), m'))"

definition connection_lost :: "pystr \<Rightarrow> conn \<Rightarrow> manager \<Rightarrow> bool \<times> manager" where
  "connection_lost p c m =
     (if map_of (connections m) p \<noteq> Some c then (False, m)
      else let m' = m\<lparr>connections := dpop p (connections m)\<rparr> in
           (True, if p \<notin> set (closing_peers m') \<and> \<not> closing m'
                  then m'\<lparr>states := dput p DISCONNECTED (states m')\<rparr> else m'))"

section \<open>The system: manager, setup tasks, closers\<close>

datatype setup_pc =
    SetupCreated
  | SetupConnecting
  | SetupPreparing conn
  | SetupClosingOpened conn conn
  | SetupClosingPrevious conn conn
  | SetupCleanup conn exn
  | SetupDone "exn + conn"

record setup_task =
  su_peer :: pystr
  su_prepare :: bool
  su_opened :: "conn option"
  su_cancelled :: bool
  su_pc :: setup_pc

datatype closer =
    ClosePeerTask pystr nat "conn option"
  | ClosePeerConn pystr conn
  | CloseAllTasks "pystr list" "nat list" "conn list"
  | CloseAllConns "pystr list" "conn list"
  | CloserDone

record sys =
  mgr :: manager
  setups :: "setup_task list"
  closers :: "closer list"
  gone :: "conn set"
  close_calls :: "conn set"

definition new_sys :: "pystr \<Rightarrow> sys" where
  "new_sys transport = \<lparr>mgr = new_manager transport, setups = [], closers = [],
     gone = {}, close_calls = {}\<rparr>"

definition on_mgr :: "(manager \<Rightarrow> manager) \<Rightarrow> sys \<Rightarrow> sys" where
  "on_mgr f s = s\<lparr>mgr := f (mgr s)\<rparr>"

text \<open>
  \<open>connect\<close>: the answer is an existing connection or the setup task the caller awaits, which is
  shielded from the caller's own cancellation.
\<close>

datatype connect_answer = Existing conn | AwaitSetup nat

definition connect :: "pystr \<Rightarrow> endpoint \<Rightarrow> bool \<Rightarrow> bool \<Rightarrow> sys \<Rightarrow> (exn + connect_answer) \<times> sys" where
  "connect p ep prepare reconnecting s =
     (case validate_target (mgr s) ep of
        Inl e \<Rightarrow> (Inl e, s)
      | Inr _ \<Rightarrow>
          if closing (mgr s) \<or> p \<in> set (closing_peers (mgr s)) then (Inl ConnectionClosedError, s)
          else
            (let (existing, m) = get_by_id (gone s) p (mgr s) in
             case existing of
               Some c \<Rightarrow> (Inr (Existing c), s\<lparr>mgr := m\<rparr>)
             | None \<Rightarrow>
                 (case map_of (in_flight m) p of
                    Some t \<Rightarrow> (Inr (AwaitSetup t), s\<lparr>mgr := m\<rparr>)
                  | None \<Rightarrow>
                      let t = length (setups s) in
                      (Inr (AwaitSetup t),
                       s\<lparr>mgr := m\<lparr>states := dput p (if reconnecting then RECONNECTING else CONNECTING)
                                            (states m),
                                 in_flight := dput p t (in_flight m)\<rparr>,
                         setups := setups s @ [\<lparr>su_peer = p, su_prepare = prepare,
                           su_opened = None, su_cancelled = False, su_pc = SetupCreated\<rparr>]\<rparr>))))"

section \<open>The setup task\<close>

text \<open>\<open>task.cancel()\<close>: the exception is thrown in at a later resumption.\<close>

definition cancel_setup :: "nat \<Rightarrow> sys \<Rightarrow> sys" where
  "cancel_setup t s = s\<lparr>setups := (setups s)[t := (setups s ! t)\<lparr>su_cancelled := True\<rparr>]\<rparr>"

definition set_pc :: "nat \<Rightarrow> setup_pc \<Rightarrow> sys \<Rightarrow> sys" where
  "set_pc t pc s = s\<lparr>setups := (setups s)[t := (setups s ! t)\<lparr>su_pc := pc\<rparr>]\<rparr>"

definition call_close :: "conn \<Rightarrow> sys \<Rightarrow> sys" where
  "call_close c s = s\<lparr>close_calls := insert c (close_calls s)\<rparr>"

text \<open>The last block of the \<open>finally\<close> clause.\<close>

definition leave_flight :: "nat \<Rightarrow> pystr \<Rightarrow> manager \<Rightarrow> manager" where
  "leave_flight t p m =
     (if map_of (in_flight m) p = Some t then m\<lparr>in_flight := dpop p (in_flight m)\<rparr> else m)"

definition settle_failed :: "conn set \<Rightarrow> pystr \<Rightarrow> manager \<Rightarrow> manager" where
  "settle_failed gn p m =
     (let (c, m') = get_by_id gn p m in
      if c = None then
        m'\<lparr>states := dput p (if closing m' \<or> p \<in> set (closing_peers m') then CLOSED
                            else DISCONNECTED) (states m')\<rparr>
      else m')"

definition setup_finish :: "nat \<Rightarrow> exn + conn \<Rightarrow> sys \<Rightarrow> sys" where
  "setup_finish t res s =
     (let p = su_peer (setups s ! t); m = leave_flight t p (mgr s);
          m' = (case res of Inr _ \<Rightarrow> m | Inl _ \<Rightarrow> settle_failed (gone s) p m)
      in set_pc t (SetupDone res) (s\<lparr>mgr := m'\<rparr>))"

text \<open>An exception in the body: the opened connection is closed first, whatever that raises.\<close>

definition setup_fail :: "nat \<Rightarrow> exn \<Rightarrow> sys \<Rightarrow> sys" where
  "setup_fail t e s =
     (case su_opened (setups s ! t) of
        Some c \<Rightarrow> if c \<in> gone s then setup_finish t (Inl e) s
                  else call_close c (set_pc t (SetupCleanup c e) s)
      | None \<Rightarrow> setup_finish t (Inl e) s)"

definition setup_install :: "nat \<Rightarrow> conn \<Rightarrow> sys \<Rightarrow> sys" where
  "setup_install t selected s =
     (let p = su_peer (setups s ! t); m = mgr s in
      if closing m \<or> p \<in> set (closing_peers m) then setup_fail t ConnectionClosedError s
      else
        (let previous = map_of (connections m) p;
             s' = s\<lparr>mgr := m\<lparr>connections := dput p selected (connections m),
                             states := dput p CONNECTED (states m)\<rparr>\<rparr>
         in case previous of
              Some c \<Rightarrow> if c \<noteq> selected
                        then call_close c (set_pc t (SetupClosingPrevious c selected) s')
                        else setup_finish t (Inr selected) s'
            | None \<Rightarrow> setup_finish t (Inr selected) s'))"

definition setup_select :: "nat \<Rightarrow> conn \<Rightarrow> conn \<Rightarrow> sys \<Rightarrow> sys" where
  "setup_select t opened selected s =
     (if selected \<noteq> opened \<and> opened \<notin> gone s
      then call_close opened (set_pc t (SetupClosingOpened opened selected) s)
      else setup_install t selected s)"

datatype resume =
    Started
  | ThrownIn exn
  | GotConnection conn
  | GotReplacement "conn option"
  | CloseReturned

definition set_opened :: "nat \<Rightarrow> conn \<Rightarrow> sys \<Rightarrow> sys" where
  "set_opened t c s = s\<lparr>setups := (setups s)[t := (setups s ! t)\<lparr>su_opened := Some c\<rparr>]\<rparr>"

text \<open>
  A task that is cancelled before its first step never runs the body of the coroutine, its
  \<open>finally\<close> clause included.
\<close>

definition setup_resume :: "nat \<Rightarrow> resume \<Rightarrow> sys \<Rightarrow> sys option" where
  "setup_resume t r s =
     (case (su_pc (setups s ! t), r) of
        (SetupCreated, Started) \<Rightarrow> Some (set_pc t SetupConnecting s)
      | (SetupCreated, ThrownIn e) \<Rightarrow>
          if su_cancelled (setups s ! t) \<and> e = CancelledError
          then Some (set_pc t (SetupDone (Inl CancelledError)) s) else None
      | (SetupConnecting, GotConnection c) \<Rightarrow>
          let s' = set_opened t c s in
          Some (if su_prepare (setups s ! t) then set_pc t (SetupPreparing c) s'
                else setup_select t c c s')
      | (SetupConnecting, ThrownIn e) \<Rightarrow>
          Some (setup_fail t (if exn_isa e TimeoutError then PaqtoTimeoutError else e) s)
      | (SetupPreparing c, GotReplacement d) \<Rightarrow>
          Some (setup_select t c (case d of None \<Rightarrow> c | Some x \<Rightarrow> x) s)
      | (SetupPreparing c, ThrownIn e) \<Rightarrow> Some (setup_fail t e s)
      | (SetupClosingOpened c d, CloseReturned) \<Rightarrow>
          Some (setup_install t d (s\<lparr>gone := insert c (gone s)\<rparr>))
      | (SetupClosingOpened c d, ThrownIn e) \<Rightarrow> Some (setup_fail t e s)
      | (SetupClosingPrevious c d, CloseReturned) \<Rightarrow>
          Some (setup_finish t (Inr d) (s\<lparr>gone := insert c (gone s)\<rparr>))
      | (SetupClosingPrevious c d, ThrownIn e) \<Rightarrow> Some (setup_fail t e s)
      | (SetupCleanup c e, CloseReturned) \<Rightarrow>
          Some (setup_finish t (Inl e) (s\<lparr>gone := insert c (gone s)\<rparr>))
      | (SetupCleanup c e, ThrownIn e') \<Rightarrow> Some (setup_finish t (Inl e) s)
      | _ \<Rightarrow> None)"

section \<open>Closing\<close>

definition close_peer_begin :: "pystr \<Rightarrow> manager \<Rightarrow> nat option \<times> conn option \<times> manager" where
  "close_peer_begin p m =
     (map_of (in_flight m) p, map_of (connections m) p,
      m\<lparr>closing_peers := List.insert p (closing_peers m), states := dput p CLOSING (states m),
        in_flight := dpop p (in_flight m), connections := dpop p (connections m)\<rparr>)"

definition close_peer_finish :: "pystr \<Rightarrow> manager \<Rightarrow> manager" where
  "close_peer_finish p m =
     (let m' = m\<lparr>closing_peers := removeAll p (closing_peers m)\<rparr> in
      if map_of (connections m') p = None \<and> map_of (in_flight m') p = None
      then m'\<lparr>states := dput p CLOSED (states m')\<rparr> else m')"

definition set_states :: "connection_state \<Rightarrow> pystr list \<Rightarrow> manager \<Rightarrow> manager" where
  "set_states st ps m = m\<lparr>states := fold (\<lambda>p d. dput p st d) ps (states m)\<rparr>"

definition close_all_begin :: "manager \<Rightarrow> pystr list \<times> nat list \<times> conn list \<times> manager" where
  "close_all_begin m =
     (let ps = remdups (dkeys (states m) @ dkeys (connections m) @ dkeys (in_flight m)) in
      (ps, List.map snd (in_flight m), remdups (List.map snd (connections m)),
       (set_states CLOSING ps m)\<lparr>closing := True, in_flight := [], connections := []\<rparr>))"

definition close_all_finish :: "pystr list \<Rightarrow> manager \<Rightarrow> manager" where
  "close_all_finish ps m = (set_states CLOSED ps m)\<lparr>closing_peers := [], closing := False\<rparr>"

definition add_closer :: "closer \<Rightarrow> sys \<Rightarrow> sys" where
  "add_closer k s = s\<lparr>closers := closers s @ [k]\<rparr>"

definition set_closer :: "nat \<Rightarrow> closer \<Rightarrow> sys \<Rightarrow> sys" where
  "set_closer i k s = s\<lparr>closers := (closers s)[i := k]\<rparr>"

text \<open>
  \<open>close_peer\<close> up to its first await, and its continuation after the cancelled task or the
  \<open>close()\<close> it awaits; an exception thrown in there skips to the \<open>finally\<close> clause.
\<close>

definition close_peer_conn :: "pystr \<Rightarrow> conn option \<Rightarrow> sys \<Rightarrow> closer \<times> sys" where
  "close_peer_conn p c s =
     (case c of
        Some c' \<Rightarrow> (ClosePeerConn p c', call_close c' s)
      | None \<Rightarrow> (CloserDone, on_mgr (close_peer_finish p) s))"

definition close_peer :: "pystr \<Rightarrow> sys \<Rightarrow> sys" where
  "close_peer p s =
     (let (task, c, m) = close_peer_begin p (mgr s); s' = s\<lparr>mgr := m\<rparr> in
      case task of
        Some t \<Rightarrow> add_closer (ClosePeerTask p t c) (cancel_setup t s')
      | None \<Rightarrow> (case close_peer_conn p c s' of (k, s'') \<Rightarrow> add_closer k s''))"

definition setup_done :: "setup_task \<Rightarrow> bool" where
  "setup_done su \<longleftrightarrow> (case su_pc su of SetupDone _ \<Rightarrow> True | _ \<Rightarrow> False)"

definition close_all :: "sys \<Rightarrow> sys" where
  "close_all s =
     (let (ps, ts, cs, m) = close_all_begin (mgr s) in
      add_closer (CloseAllTasks ps ts cs) (fold cancel_setup ts (s\<lparr>mgr := m\<rparr>)))"

datatype closer_event = AwaitReturned | AwaitRaised exn

definition closer_resume :: "nat \<Rightarrow> closer_event \<Rightarrow> sys \<Rightarrow> sys option" where
  "closer_resume i ev s =
     (case (closers s ! i, ev) of
        (ClosePeerTask p t c, AwaitReturned) \<Rightarrow>
          if t < length (setups s) \<and> setup_done (setups s ! t)
          then Some (case close_peer_conn p c s of (k, s') \<Rightarrow> set_closer i k s')
          else None
      | (ClosePeerTask p t c, AwaitRaised e) \<Rightarrow>
          Some (set_closer i CloserDone (on_mgr (close_peer_finish p) s))
      | (ClosePeerConn p c, AwaitReturned) \<Rightarrow>
          Some (set_closer i CloserDone
            (on_mgr (close_peer_finish p) (s\<lparr>gone := insert c (gone s)\<rparr>)))
      | (ClosePeerConn p c, AwaitRaised e) \<Rightarrow>
          Some (set_closer i CloserDone (on_mgr (close_peer_finish p) s))
      | (CloseAllTasks ps ts cs, AwaitReturned) \<Rightarrow>
          if list_all (\<lambda>t. t < length (setups s) \<and> setup_done (setups s ! t)) ts
          then Some (set_closer i (CloseAllConns ps cs)
                 (s\<lparr>close_calls := close_calls s \<union> set cs\<rparr>))
          else None
      | (CloseAllTasks ps ts cs, AwaitRaised e) \<Rightarrow> Some (set_closer i CloserDone s)
      | (CloseAllConns ps cs, AwaitReturned) \<Rightarrow>
          Some (set_closer i CloserDone (on_mgr (close_all_finish ps) s))
      | (CloseAllConns ps cs, AwaitRaised e) \<Rightarrow> Some (set_closer i CloserDone s)
      | _ \<Rightarrow> None)"

section \<open>Interleaving\<close>

inductive mgr_step :: "sys \<Rightarrow> sys \<Rightarrow> bool" where
  connect: "mgr_step s (snd (connect p ep prepare reconnecting s))"
| adopt: "mgr_step s (on_mgr (\<lambda>m. snd (adopt p c m)) s)"
| lost: "mgr_step s (on_mgr (\<lambda>m. snd (connection_lost p c m)) s)"
| lookup: "mgr_step s (on_mgr (\<lambda>m. snd (get_by_id (gone s) p m)) s)"
| reconnecting: "mgr_step s (on_mgr (mark_reconnecting (gone s) p) s)"
| disconnected: "mgr_step s (on_mgr (mark_disconnected (gone s) p) s)"
| close_peer: "mgr_step s (close_peer p s)"
| close_all: "mgr_step s (close_all s)"
| resume_setup: "t < length (setups s) \<Longrightarrow> setup_resume t r s = Some s' \<Longrightarrow> mgr_step s s'"
| resume_closer: "i < length (closers s) \<Longrightarrow> closer_resume i ev s = Some s' \<Longrightarrow> mgr_step s s'"
| closes: "mgr_step s (s\<lparr>gone := insert c (gone s)\<rparr>)"

section \<open>The tables of the manager\<close>

definition tables_ok :: "manager \<Rightarrow> bool" where
  "tables_ok m \<longleftrightarrow>
     (closing m \<longrightarrow> connections m = [] \<and> in_flight m = [])
     \<and> (\<forall>p \<in> set (closing_peers m). map_of (connections m) p = None \<and> map_of (in_flight m) p = None)
     \<and> (\<forall>p. map_of (states m) p = Some CONNECTED \<longrightarrow> map_of (connections m) p \<noteq> None)"

lemma dpop_Nil [simp]: "dpop p [] = []"
  by (simp add: dpop_def)

lemma get_by_id_tables [intro]: "tables_ok m \<Longrightarrow> tables_ok (snd (get_by_id gn p m))"
  by (auto simp: tables_ok_def get_by_id_def split: option.splits)

lemma get_by_id_other [simp]:
  "closing (snd (get_by_id gn p m)) = closing m"
  "closing_peers (snd (get_by_id gn p m)) = closing_peers m"
  "in_flight (snd (get_by_id gn p m)) = in_flight m"
  by (auto simp: get_by_id_def split: option.splits)

lemma get_by_id_None:
  "fst (get_by_id gn p m) = None \<Longrightarrow> map_of (connections (snd (get_by_id gn p m))) p = None"
  by (auto simp: get_by_id_def split: option.splits if_splits)

lemma tables_set_state:
  "tables_ok m \<Longrightarrow> st \<noteq> CONNECTED \<Longrightarrow> tables_ok (m\<lparr>states := dput p st (states m)\<rparr>)"
  by (auto simp: tables_ok_def)

lemma mark_reconnecting_tables [intro]: "tables_ok m \<Longrightarrow> tables_ok (mark_reconnecting gn p m)"
  using get_by_id_tables [of m gn p]
  by (auto simp: mark_reconnecting_def Let_def split_beta intro: tables_set_state)

lemma mark_disconnected_tables [intro]: "tables_ok m \<Longrightarrow> tables_ok (mark_disconnected gn p m)"
  using get_by_id_tables [of m gn p]
  by (auto simp: mark_disconnected_def Let_def split_beta intro: tables_set_state)

lemma adopt_tables [intro]: "tables_ok m \<Longrightarrow> tables_ok (snd (adopt p c m))"
  by (auto simp: tables_ok_def adopt_def Let_def)

lemma connection_lost_tables [intro]: "tables_ok m \<Longrightarrow> tables_ok (snd (connection_lost p c m))"
  by (auto simp: tables_ok_def connection_lost_def Let_def)

lemma close_peer_begin_tables [intro]:
  "tables_ok m \<Longrightarrow> tables_ok (snd (snd (close_peer_begin p m)))"
  by (auto simp: tables_ok_def close_peer_begin_def)

lemma close_peer_finish_tables [intro]: "tables_ok m \<Longrightarrow> tables_ok (close_peer_finish p m)"
  by (auto simp: tables_ok_def close_peer_finish_def Let_def)

lemma set_states_other [simp]:
  "closing (set_states st ps m) = closing m" "connections (set_states st ps m) = connections m"
  "in_flight (set_states st ps m) = in_flight m" "closing_peers (set_states st ps m) = closing_peers m"
  by (simp_all add: set_states_def)

lemma map_of_fold_dput:
  "map_of (fold (\<lambda>p d. dput p st d) ps d) q = (if q \<in> set ps then Some st else map_of d q)"
  by (induction ps arbitrary: d) auto

lemma set_states_state [simp]:
  "map_of (states (set_states st ps m)) q = (if q \<in> set ps then Some st else map_of (states m) q)"
  by (simp add: set_states_def map_of_fold_dput)

lemma set_states_tables: "tables_ok m \<Longrightarrow> st \<noteq> CONNECTED \<Longrightarrow> tables_ok (set_states st ps m)"
  by (auto simp: tables_ok_def)

lemma close_all_begin_tables [intro]:
  "tables_ok m \<Longrightarrow> tables_ok (snd (snd (snd (close_all_begin m))))"
  by (auto simp: tables_ok_def close_all_begin_def Let_def map_of_eq_None_iff
      dest!: map_of_SomeD intro: rev_image_eqI)

lemma close_all_finish_tables [intro]: "tables_ok m \<Longrightarrow> tables_ok (close_all_finish ps m)"
  by (auto simp: tables_ok_def close_all_finish_def)

section \<open>Setup tasks keep the tables\<close>

lemma set_pc_other [simp]:
  "mgr (set_pc t pc s) = mgr s" "gone (set_pc t pc s) = gone s"
  "close_calls (set_pc t pc s) = close_calls s" "closers (set_pc t pc s) = closers s"
  "length (setups (set_pc t pc s)) = length (setups s)"
  by (simp_all add: set_pc_def)

lemma call_close_other [simp]:
  "mgr (call_close c s) = mgr s" "setups (call_close c s) = setups s" "gone (call_close c s) = gone s"
  by (simp_all add: call_close_def)

lemma leave_flight_tables [intro]: "tables_ok m \<Longrightarrow> tables_ok (leave_flight t p m)"
  by (auto simp: leave_flight_def tables_ok_def)

lemma settle_failed_tables [intro]: "tables_ok m \<Longrightarrow> tables_ok (settle_failed gn p m)"
  using get_by_id_tables [of m gn p]
  by (auto simp: settle_failed_def Let_def split_beta intro: tables_set_state)

lemma setup_finish_tables [intro]:
  "tables_ok (mgr s) \<Longrightarrow> tables_ok (mgr (setup_finish t res s))"
  by (auto simp: setup_finish_def Let_def split: sum.splits)

lemma setup_fail_tables [intro]: "tables_ok (mgr s) \<Longrightarrow> tables_ok (mgr (setup_fail t e s))"
  by (auto simp: setup_fail_def split: option.splits)

lemma setup_install_tables [intro]:
  assumes "tables_ok (mgr s)" shows "tables_ok (mgr (setup_install t c s))"
proof -
  define p where "p = su_peer (setups s ! t)"
  have "\<not> closing (mgr s) \<Longrightarrow> p \<notin> set (closing_peers (mgr s)) \<Longrightarrow>
    tables_ok (mgr s\<lparr>connections := dput p c (connections (mgr s)), states := dput p CONNECTED (states (mgr s))\<rparr>)"
    using assms by (auto simp: tables_ok_def)
  then show ?thesis
    using assms by (auto simp: setup_install_def Let_def p_def [symmetric] split: option.splits)
qed

lemma setup_select_tables [intro]: "tables_ok (mgr s) \<Longrightarrow> tables_ok (mgr (setup_select t c d s))"
  by (auto simp: setup_select_def)

lemma setup_resume_tables:
  "setup_resume t r s = Some s' \<Longrightarrow> tables_ok (mgr s) \<Longrightarrow> tables_ok (mgr s')"
  by (auto simp: setup_resume_def Let_def set_opened_def
      split: setup_pc.split_asm resume.split_asm if_split_asm)

lemma close_peer_conn_tables:
  "tables_ok (mgr s) \<Longrightarrow> tables_ok (mgr (snd (close_peer_conn p c s)))"
  by (auto simp: close_peer_conn_def on_mgr_def split: option.splits)

lemma connect_cases:
  obtains e where "connect p ep b r s = (Inl e, s)"
  | "\<not> closing (mgr s)" "p \<notin> set (closing_peers (mgr s))"
    "map_of (in_flight (mgr s)) p = None" "fst (get_by_id (gone s) p (mgr s)) = None"
    "connect p ep b r s =
       (let m = snd (get_by_id (gone s) p (mgr s)) in
        (Inr (AwaitSetup (length (setups s))),
         s\<lparr>mgr := m\<lparr>states := dput p (if r then RECONNECTING else CONNECTING) (states m),
                    in_flight := dput p (length (setups s)) (in_flight m)\<rparr>,
           setups := setups s @ [\<lparr>su_peer = p, su_prepare = b, su_opened = None,
             su_cancelled = False, su_pc = SetupCreated\<rparr>]\<rparr>))"
  | a where "connect p ep b r s = (Inr a, s\<lparr>mgr := snd (get_by_id (gone s) p (mgr s))\<rparr>)"
    "case a of Existing c \<Rightarrow> fst (get_by_id (gone s) p (mgr s)) = Some c
     | AwaitSetup t \<Rightarrow> map_of (in_flight (mgr s)) p = Some t"
proof -
  obtain x m where g: "get_by_id (gone s) p (mgr s) = (x, m)" by (cases "get_by_id (gone s) p (mgr s)")
  then have m: "in_flight m = in_flight (mgr s)" using get_by_id_other(3) [of "gone s" p "mgr s"] by simp
  show ?thesis
  proof (cases "validate_target (mgr s) ep")
    case (Inl e)
    then show ?thesis by (intro that(1)) (simp add: connect_def)
  next
    case (Inr u)
    show ?thesis
    proof (cases "closing (mgr s) \<or> p \<in> set (closing_peers (mgr s))")
      case True
      with Inr show ?thesis by (intro that(1)) (simp add: connect_def)
    next
      case False
      note eval = Inr False g m
      show ?thesis
      proof (cases x)
        case None
        show ?thesis
        proof (cases "map_of (in_flight (mgr s)) p")
          case None
          with eval \<open>x = None\<close> show ?thesis by (intro that(2)) (auto simp: connect_def Let_def)
        next
          case (Some t)
          with eval \<open>x = None\<close> show ?thesis
            by (intro that(3) [of "AwaitSetup t"]) (auto simp: connect_def)
        qed
      next
        case (Some c)
        with eval show ?thesis by (intro that(3) [of "Existing c"]) (auto simp: connect_def)
      qed
    qed
  qed
qed

lemma connect_tables:
  assumes "tables_ok (mgr s)" shows "tables_ok (mgr (snd (connect p ep b r s)))"
proof (cases rule: connect_cases [of p ep b r s])
  case 2
  with get_by_id_tables [OF assms, of "gone s" p] get_by_id_None [of "gone s" p "mgr s"]
  show ?thesis by (auto simp: Let_def tables_ok_def)
qed (use assms get_by_id_tables [OF assms, of "gone s" p] in auto)

lemma cancel_setup_other [simp]:
  "mgr (cancel_setup t s) = mgr s" "gone (cancel_setup t s) = gone s"
  "close_calls (cancel_setup t s) = close_calls s" "length (setups (cancel_setup t s)) = length (setups s)"
  by (simp_all add: cancel_setup_def)

lemma fold_cancel_setup_other [simp]:
  "mgr (fold cancel_setup ts s) = mgr s" "gone (fold cancel_setup ts s) = gone s"
  "close_calls (fold cancel_setup ts s) = close_calls s"
  "length (setups (fold cancel_setup ts s)) = length (setups s)"
  by (induction ts arbitrary: s) auto

lemma closer_other [simp]:
  "mgr (add_closer k s) = mgr s" "setups (add_closer k s) = setups s" "gone (add_closer k s) = gone s"
  "close_calls (add_closer k s) = close_calls s"
  "mgr (set_closer i k s) = mgr s" "setups (set_closer i k s) = setups s"
  "gone (set_closer i k s) = gone s" "close_calls (set_closer i k s) = close_calls s"
  by (simp_all add: add_closer_def set_closer_def)

lemma close_peer_tables:
  assumes "tables_ok (mgr s)" shows "tables_ok (mgr (close_peer p s))"
proof -
  obtain t c m where b: "close_peer_begin p (mgr s) = (t, c, m)" by (cases "close_peer_begin p (mgr s)") auto
  then have "tables_ok m" using close_peer_begin_tables [OF assms, of p] by simp
  then have "tables_ok (mgr (snd (close_peer_conn p c (s\<lparr>mgr := m\<rparr>))))"
    by (intro close_peer_conn_tables) simp
  with \<open>tables_ok m\<close> show ?thesis
    by (auto simp: close_peer_def b Let_def split: option.splits prod.splits)
qed

lemma close_all_tables:
  "tables_ok (mgr s) \<Longrightarrow> tables_ok (mgr (close_all s))"
  using close_all_begin_tables [of "mgr s"] by (auto simp: close_all_def Let_def split_beta)

lemma closer_resume_tables:
  assumes "closer_resume i ev s = Some s'" "tables_ok (mgr s)" shows "tables_ok (mgr s')"
  using assms close_peer_conn_tables [OF assms(2)]
  by (auto simp: closer_resume_def on_mgr_def split_beta
      split: closer.split_asm closer_event.split_asm if_split_asm)

lemma step_tables: "mgr_step s s' \<Longrightarrow> tables_ok (mgr s) \<Longrightarrow> tables_ok (mgr s')"
  by (induction rule: mgr_step.induct)
    (auto simp: on_mgr_def intro: connect_tables close_peer_tables close_all_tables
      setup_resume_tables closer_resume_tables)

section \<open>Setups in flight\<close>

definition flight_ok :: "sys \<Rightarrow> bool" where
  "flight_ok s \<longleftrightarrow>
     (\<forall>p t. map_of (in_flight (mgr s)) p = Some t \<longrightarrow>
        t < length (setups s) \<and> su_peer (setups s ! t) = p
        \<and> \<not> setup_done (setups s ! t) \<and> \<not> su_cancelled (setups s ! t))"

lemma flight_keep:
  assumes "flight_ok s"
    and "\<And>p t. map_of (in_flight (mgr s')) p = Some t \<Longrightarrow> map_of (in_flight (mgr s)) p = Some t"
    and "\<And>t. t < length (setups s) \<Longrightarrow> t < length (setups s') \<and> (setups s' ! t = setups s ! t
        \<or> map_of (in_flight (mgr s')) (su_peer (setups s ! t)) \<noteq> Some t)"
  shows "flight_ok s'"
  using assms unfolding flight_ok_def by metis

lemma flight_live:
  assumes "flight_ok s" "t < length (setups s)"
    and "in_flight (mgr s') = in_flight (mgr s)"
    and "setups s' = (setups s)[t := su]" "su_peer su = su_peer (setups s ! t)" "\<not> setup_done su"
      "su_cancelled su = su_cancelled (setups s ! t)"
  shows "flight_ok s'"
  using assms unfolding flight_ok_def by (auto simp: nth_list_update)

lemma settle_failed_in_flight [simp]: "in_flight (settle_failed gn p m) = in_flight m"
  by (simp add: settle_failed_def Let_def split_beta)

lemma setup_finish_flight:
  assumes "flight_ok s" "t < length (setups s)" shows "flight_ok (setup_finish t res s)"
  using assms
  by (elim flight_keep)
    (auto simp: setup_finish_def Let_def set_pc_def leave_flight_def nth_list_update
      split: sum.splits if_splits)

lemma set_pc_flight:
  assumes "flight_ok s" "t < length (setups s)" "\<And>r. pc \<noteq> SetupDone r"
  shows "flight_ok (set_pc t pc s)"
  by (rule flight_live [OF assms(1,2), where su = "(setups s ! t)\<lparr>su_pc := pc\<rparr>"])
    (use assms(3) in \<open>cases pc; auto simp: set_pc_def setup_done_def\<close>)+

lemma call_close_flight [simp]: "flight_ok (call_close c s) = flight_ok s"
  by (simp add: flight_ok_def)

lemma gone_flight [simp]: "flight_ok (s\<lparr>gone := g\<rparr>) = flight_ok s"
  by (simp add: flight_ok_def)

lemma setup_fail_flight:
  "flight_ok s \<Longrightarrow> t < length (setups s) \<Longrightarrow> flight_ok (setup_fail t e s)"
  by (auto simp: setup_fail_def intro: setup_finish_flight set_pc_flight split: option.splits)

lemma flight_mgr_irrelevant:
  "in_flight m = in_flight (mgr s) \<Longrightarrow> flight_ok (s\<lparr>mgr := m\<rparr>) = flight_ok s"
  by (simp add: flight_ok_def)

lemma setup_install_flight:
  "flight_ok s \<Longrightarrow> t < length (setups s) \<Longrightarrow> flight_ok (setup_install t c s)"
  by (auto simp: setup_install_def Let_def flight_mgr_irrelevant
      intro!: setup_fail_flight setup_finish_flight set_pc_flight split: option.splits)

lemma setup_select_flight:
  "flight_ok s \<Longrightarrow> t < length (setups s) \<Longrightarrow> flight_ok (setup_select t c d s)"
  by (auto simp: setup_select_def intro: setup_install_flight set_pc_flight)

lemma set_opened_flight:
  "flight_ok s \<Longrightarrow> t < length (setups s) \<Longrightarrow> flight_ok (set_opened t c s)"
  by (auto simp: flight_ok_def set_opened_def nth_list_update setup_done_def)

lemma set_opened_other [simp]:
  "mgr (set_opened t c s) = mgr s" "gone (set_opened t c s) = gone s"
  "close_calls (set_opened t c s) = close_calls s"
  "length (setups (set_opened t c s)) = length (setups s)"
  by (simp_all add: set_opened_def)

lemma cancelled_not_in_flight:
  "flight_ok s \<Longrightarrow> su_cancelled (setups s ! t) \<Longrightarrow> map_of (in_flight (mgr s)) p \<noteq> Some t"
  unfolding flight_ok_def by metis

lemma setup_resume_flight:
  assumes "setup_resume t r s = Some s'" "flight_ok s" "t < length (setups s)"
  shows "flight_ok s'"
proof (cases "su_pc (setups s ! t) = SetupCreated \<and> r \<noteq> Started")
  case True
  with assms have c: "su_cancelled (setups s ! t)"
    and s': "s' = set_pc t (SetupDone (Inl CancelledError)) s"
    by (auto simp: setup_resume_def split: resume.split_asm if_split_asm)
  show ?thesis
  proof (rule flight_keep [OF assms(2)])
    show "u < length (setups s') \<and> (setups s' ! u = setups s ! u
        \<or> map_of (in_flight (mgr s')) (su_peer (setups s ! u)) \<noteq> Some u)"
      if "u < length (setups s)" for u
      using that cancelled_not_in_flight [OF assms(2) c, of "su_peer (setups s ! u)"]
      by (cases "u = t") (auto simp: s' set_pc_def)
  qed (simp add: s')
next
  case False
  with assms show ?thesis
    by (auto simp: setup_resume_def Let_def set_opened_flight
        intro!: setup_fail_flight setup_finish_flight setup_install_flight setup_select_flight
          set_pc_flight set_opened_flight
        split: setup_pc.split_asm resume.split_asm if_split_asm)
qed

lemma closer_flight [simp]:
  "flight_ok (add_closer k s) = flight_ok s" "flight_ok (set_closer i k s) = flight_ok s"
  by (simp_all add: flight_ok_def)

lemma close_peer_finish_in_flight [simp]: "in_flight (close_peer_finish p m) = in_flight m"
  by (simp add: close_peer_finish_def Let_def)

lemma close_peer_conn_flight: "flight_ok s \<Longrightarrow> flight_ok (snd (close_peer_conn p c s))"
  by (auto simp: close_peer_conn_def on_mgr_def flight_mgr_irrelevant split: option.splits)

lemma close_peer_begin_flight:
  assumes "flight_ok s" "close_peer_begin p (mgr s) = (t, c, m)"
  shows "flight_ok (s\<lparr>mgr := m\<rparr>)"
    and "t = Some u \<Longrightarrow> flight_ok (cancel_setup u (s\<lparr>mgr := m\<rparr>))"
proof -
  show pop: "flight_ok (s\<lparr>mgr := m\<rparr>)"
    using assms by (auto simp: flight_ok_def close_peer_begin_def split: if_split_asm)
  assume "t = Some u"
  with assms have u: "su_peer (setups s ! u) = p" "map_of (in_flight m) p = None"
    by (auto simp: flight_ok_def close_peer_begin_def)
  show "flight_ok (cancel_setup u (s\<lparr>mgr := m\<rparr>))"
  proof (rule flight_keep [OF pop])
    show "i < length (setups (cancel_setup u (s\<lparr>mgr := m\<rparr>)))
        \<and> (setups (cancel_setup u (s\<lparr>mgr := m\<rparr>)) ! i = setups (s\<lparr>mgr := m\<rparr>) ! i
          \<or> map_of (in_flight (mgr (cancel_setup u (s\<lparr>mgr := m\<rparr>)))) (su_peer (setups (s\<lparr>mgr := m\<rparr>) ! i))
            \<noteq> Some i)" if "i < length (setups (s\<lparr>mgr := m\<rparr>))" for i
      using that u by (cases "i = u") (auto simp: cancel_setup_def)
  qed simp
qed

lemma close_peer_flight:
  assumes "flight_ok s" shows "flight_ok (close_peer p s)"
proof -
  obtain t c m where b: "close_peer_begin p (mgr s) = (t, c, m)" by (cases "close_peer_begin p (mgr s)") auto
  note keep = close_peer_begin_flight [OF assms b]
  with close_peer_conn_flight [OF keep(1), of p c] show ?thesis
    by (auto simp: close_peer_def b Let_def split: option.splits prod.splits)
qed

lemma close_all_flight: "flight_ok (close_all s)"
  by (simp add: close_all_def close_all_begin_def Let_def flight_ok_def)

lemma closer_resume_flight:
  assumes "closer_resume i ev s = Some s'" "flight_ok s" shows "flight_ok s'"
  using assms close_peer_conn_flight [OF assms(2)]
  by (auto simp: closer_resume_def on_mgr_def split_beta flight_mgr_irrelevant close_all_finish_def
      split: closer.split_asm closer_event.split_asm if_split_asm)
    (simp_all add: flight_ok_def)

lemma get_by_id_flight: "flight_ok s \<Longrightarrow> flight_ok (s\<lparr>mgr := snd (get_by_id gn p (mgr s))\<rparr>)"
  by (simp add: flight_mgr_irrelevant)

lemma connect_flight:
  assumes "flight_ok s" shows "flight_ok (snd (connect p ep b r s))"
proof (cases rule: connect_cases [of p ep b r s])
  case 2
  with assms show ?thesis
    by (auto simp: Let_def flight_ok_def nth_append setup_done_def less_Suc_eq split: if_split_asm)
qed (use assms get_by_id_flight [OF assms, of "gone s" p] in auto)

lemma mgr_ops_in_flight [simp]:
  "in_flight (snd (adopt p c m)) = in_flight m"
  "in_flight (snd (connection_lost p c m)) = in_flight m"
  "in_flight (mark_reconnecting gn p m) = in_flight m"
  "in_flight (mark_disconnected gn p m) = in_flight m"
  by (auto simp: adopt_def connection_lost_def mark_reconnecting_def mark_disconnected_def Let_def
      split_beta)

lemma step_flight: "mgr_step s s' \<Longrightarrow> flight_ok s \<Longrightarrow> flight_ok s'"
  by (induction rule: mgr_step.induct)
    (auto simp: on_mgr_def flight_mgr_irrelevant intro: connect_flight close_peer_flight
      close_all_flight setup_resume_flight closer_resume_flight)

section \<open>No setup loses a connection\<close>

definition released :: "sys \<Rightarrow> conn set" where
  "released s = gone s \<union> close_calls s"

fun setup_keeps :: "conn set \<Rightarrow> conn option \<Rightarrow> setup_pc \<Rightarrow> bool" where
  "setup_keeps rel op SetupCreated = (op = None)"
| "setup_keeps rel op SetupConnecting = (op = None)"
| "setup_keeps rel op (SetupPreparing c) = (op = Some c)"
| "setup_keeps rel op (SetupClosingOpened c d) = (op = Some c \<and> c \<in> rel)"
| "setup_keeps rel op (SetupClosingPrevious c d) = (\<exists>o'. op = Some o' \<and> (o' = d \<or> o' \<in> rel))"
| "setup_keeps rel op (SetupCleanup c e) = (op = Some c \<and> c \<in> rel)"
| "setup_keeps rel op (SetupDone (Inl e)) = (\<forall>c. op = Some c \<longrightarrow> c \<in> rel)"
| "setup_keeps rel op (SetupDone (Inr d)) = (\<exists>o'. op = Some o' \<and> (o' = d \<or> o' \<in> rel))"

definition no_leak :: "sys \<Rightarrow> bool" where
  "no_leak s \<longleftrightarrow> (\<forall>su \<in> set (setups s). setup_keeps (released s) (su_opened su) (su_pc su))"

lemma setup_keeps_mono: "setup_keeps rel op pc \<Longrightarrow> rel \<subseteq> rel' \<Longrightarrow> setup_keeps rel' op pc"
  by (induction rel op pc rule: setup_keeps.induct) auto

lemma no_leak_mono:
  "no_leak s \<Longrightarrow> setups s' = setups s \<Longrightarrow> released s \<subseteq> released s' \<Longrightarrow> no_leak s'"
  unfolding no_leak_def by (metis setup_keeps_mono)

lemma no_leak_nth:
  "no_leak s \<Longrightarrow> t < length (setups s) \<Longrightarrow> setup_keeps (released s) (su_opened (setups s ! t)) (su_pc (setups s ! t))"
  by (simp add: no_leak_def)

text \<open>While a task runs, the other tasks keep what they opened.\<close>

definition others_keep :: "nat \<Rightarrow> sys \<Rightarrow> bool" where
  "others_keep t s \<longleftrightarrow> t < length (setups s) \<and> (\<forall>i < length (setups s). i \<noteq> t \<longrightarrow>
     setup_keeps (released s) (su_opened (setups s ! i)) (su_pc (setups s ! i)))"

lemma others_keep_of: "no_leak s \<Longrightarrow> t < length (setups s) \<Longrightarrow> others_keep t s"
  by (simp add: others_keep_def no_leak_nth)

lemma released_simps [simp]:
  "released (set_pc t pc s) = released s"
  "released (call_close c s) = insert c (released s)"
  "released (s\<lparr>mgr := m\<rparr>) = released s"
  "released (s\<lparr>gone := insert c (gone s)\<rparr>) = insert c (released s)"
  "released (set_opened t c s) = released s"
  "released (add_closer k s) = released s" "released (set_closer i k s) = released s"
  "released (cancel_setup t s) = released s" "released (fold cancel_setup ts s) = released s"
  by (auto simp: released_def call_close_def)

lemma others_keep_more:
  assumes "others_keep t s" "released s \<subseteq> released s'" "length (setups s') = length (setups s)"
    and "\<And>i. i \<noteq> t \<Longrightarrow> setups s' ! i = setups s ! i"
  shows "others_keep t s'"
  using assms unfolding others_keep_def by (metis setup_keeps_mono)

lemma set_pc_keeps:
  assumes "others_keep t s" "setup_keeps (released s) (su_opened (setups s ! t)) pc"
  shows "no_leak (set_pc t pc s)"
  using assms
  by (auto simp: no_leak_def others_keep_def set_pc_def released_def in_set_conv_nth nth_list_update)

lemma others_keep_simps [simp]:
  "others_keep t s \<Longrightarrow> others_keep t (s\<lparr>mgr := m\<rparr>)"
  "others_keep t s \<Longrightarrow> others_keep t (call_close c s)"
  "others_keep t s \<Longrightarrow> others_keep t (s\<lparr>gone := insert c (gone s)\<rparr>)"
  "others_keep t s \<Longrightarrow> others_keep t (set_opened t c s)"
  by (erule others_keep_more, auto simp: set_opened_def released_def call_close_def)+

lemma set_opened_nth [simp]:
  "t < length (setups s) \<Longrightarrow> su_opened (setups (set_opened t c s) ! t) = Some c"
  by (simp add: set_opened_def)

lemma call_close_set_pc: "call_close c (set_pc t pc s) = set_pc t pc (call_close c s)"
  by (simp add: call_close_def set_pc_def)

lemma setup_finish_no_leak:
  assumes "others_keep t s" "setup_keeps (released s) (su_opened (setups s ! t)) (SetupDone res)"
  shows "no_leak (setup_finish t res s)"
  unfolding setup_finish_def Let_def using assms by (intro set_pc_keeps) simp_all

lemma setup_fail_no_leak:
  assumes "others_keep t s" shows "no_leak (setup_fail t e s)"
  using assms
  by (auto simp: setup_fail_def call_close_set_pc intro!: setup_finish_no_leak set_pc_keeps
      split: option.splits) (simp add: released_def)

lemma setup_install_no_leak:
  assumes "others_keep t s" "su_opened (setups s ! t) = Some c" "c = d \<or> c \<in> released s"
  shows "no_leak (setup_install t d s)"
  using assms
  by (auto simp: setup_install_def Let_def call_close_set_pc
      intro!: setup_finish_no_leak setup_fail_no_leak set_pc_keeps split: option.splits)

lemma setup_select_no_leak:
  assumes "others_keep t s" "su_opened (setups s ! t) = Some c"
  shows "no_leak (setup_select t c d s)"
  using assms
  by (auto simp: setup_select_def call_close_set_pc intro!: set_pc_keeps setup_install_no_leak)
    (simp add: released_def)

lemma setup_resume_no_leak:
  assumes "setup_resume t r s = Some s'" "no_leak s" "t < length (setups s)"
  shows "no_leak s'"
proof -
  note keep = others_keep_of [OF assms(2,3)] and own = no_leak_nth [OF assms(2,3)]
  from assms(1) keep own assms(3) show ?thesis
    by (auto simp: setup_resume_def Let_def
        intro!: set_pc_keeps setup_fail_no_leak setup_install_no_leak setup_select_no_leak
          setup_finish_no_leak
        split: setup_pc.split_asm resume.split_asm if_split_asm option.splits)
qed

lemma close_peer_conn_no_leak: "no_leak s \<Longrightarrow> no_leak (snd (close_peer_conn p c s))"
  by (erule no_leak_mono)
    (auto simp: close_peer_conn_def on_mgr_def split: option.splits)

lemma cancel_setup_no_leak: "no_leak s \<Longrightarrow> no_leak (cancel_setup t s)"
  by (cases "t < length (setups s)")
    (auto simp: no_leak_def cancel_setup_def released_def all_set_conv_all_nth nth_list_update)

lemma fold_cancel_no_leak: "no_leak s \<Longrightarrow> no_leak (fold cancel_setup ts s)"
  by (induction ts arbitrary: s) (auto intro: cancel_setup_no_leak)

lemma closer_no_leak [simp]:
  "no_leak (add_closer k s) = no_leak s" "no_leak (set_closer i k s) = no_leak s"
  "no_leak (s\<lparr>mgr := m\<rparr>) = no_leak s"
  by (simp_all add: no_leak_def)

lemma close_peer_no_leak: "no_leak s \<Longrightarrow> no_leak (close_peer p s)"
  using close_peer_conn_no_leak [of "s\<lparr>mgr := _\<rparr>"]
  by (auto simp: close_peer_def Let_def split_beta intro: cancel_setup_no_leak split: option.splits)

lemma gone_no_leak: "no_leak s \<Longrightarrow> no_leak (s\<lparr>gone := insert c (gone s)\<rparr>)"
  by (erule no_leak_mono) auto

lemma closer_resume_no_leak:
  assumes "closer_resume i ev s = Some s'" "no_leak s" shows "no_leak s'"
proof -
  have "no_leak (s\<lparr>close_calls := close_calls s \<union> cs\<rparr>)" for cs
    using assms(2) by (rule no_leak_mono) (auto simp: released_def)
  with assms close_peer_conn_no_leak [OF assms(2)] show ?thesis
    by (auto simp: closer_resume_def on_mgr_def split_beta intro: gone_no_leak
        split: closer.split_asm closer_event.split_asm if_split_asm)
qed

lemma connect_no_leak:
  assumes "no_leak s" shows "no_leak (snd (connect p ep b r s))"
proof (cases rule: connect_cases [of p ep b r s])
  case 2
  with assms show ?thesis by (auto simp: Let_def no_leak_def released_def)
qed (use assms in auto)

lemma step_no_leak: "mgr_step s s' \<Longrightarrow> no_leak s \<Longrightarrow> no_leak s'"
  by (induction rule: mgr_step.induct)
    (auto simp: on_mgr_def close_all_def Let_def split_beta intro: connect_no_leak close_peer_no_leak
      fold_cancel_no_leak setup_resume_no_leak closer_resume_no_leak gone_no_leak)

section \<open>Reachable states\<close>

definition mgr_inv :: "sys \<Rightarrow> bool" where
  "mgr_inv s \<longleftrightarrow> tables_ok (mgr s) \<and> flight_ok s \<and> no_leak s"

lemma new_sys_inv: "mgr_inv (new_sys transport)"
  by (simp add: mgr_inv_def new_sys_def new_manager_def tables_ok_def flight_ok_def no_leak_def)

interpretation manager_machine: machine_invariant mgr_step "new_sys transport" mgr_inv
  by unfold_locales
    (auto simp: mgr_inv_def new_sys_inv [unfolded mgr_inv_def]
      intro: step_tables step_flight step_no_leak)

lemma peer_state_connected:
  assumes "tables_ok m"
  shows "fst (peer_state gn p m) = CONNECTED \<longleftrightarrow> fst (get_by_id gn p m) \<noteq> None"
  using assms get_by_id_None [of gn p m] get_by_id_tables [OF assms, of gn p]
  by (auto simp: peer_state_def Let_def split_beta tables_ok_def split: option.splits)

section \<open>A setup ends\<close>

fun setup_rank :: "setup_pc \<Rightarrow> nat" where
  "setup_rank SetupCreated = 6"
| "setup_rank SetupConnecting = 5"
| "setup_rank (SetupPreparing c) = 4"
| "setup_rank (SetupClosingOpened c d) = 3"
| "setup_rank (SetupClosingPrevious c d) = 2"
| "setup_rank (SetupCleanup c e) = 1"
| "setup_rank (SetupDone r) = 0"

definition rank_of :: "nat \<Rightarrow> sys \<Rightarrow> nat" where
  "rank_of t s = setup_rank (su_pc (setups s ! t))"

lemma rank_set_pc [simp]: "t < length (setups s) \<Longrightarrow> rank_of t (set_pc t pc s) = setup_rank pc"
  by (simp add: rank_of_def set_pc_def)

lemma rank_call_close [simp]: "rank_of t (call_close c s) = rank_of t s"
  by (simp add: rank_of_def)

lemma setup_finish_rank: "t < length (setups s) \<Longrightarrow> rank_of t (setup_finish t res s) = 0"
  by (simp add: setup_finish_def Let_def)

lemma setup_fail_rank: "t < length (setups s) \<Longrightarrow> rank_of t (setup_fail t e s) \<le> 1"
  by (auto simp: setup_fail_def setup_finish_rank split: option.splits)

lemma setup_install_rank: "t < length (setups s) \<Longrightarrow> rank_of t (setup_install t d s) \<le> 2"
  using setup_fail_rank [of t s ConnectionClosedError]
  by (auto simp: setup_install_def Let_def setup_finish_rank split: option.splits)

lemma setup_select_rank: "t < length (setups s) \<Longrightarrow> rank_of t (setup_select t c d s) \<le> 3"
  using setup_install_rank [of t s d] by (auto simp: setup_select_def)

lemma setup_resume_rank:
  assumes "setup_resume t r s = Some s'" "t < length (setups s)"
  shows "rank_of t s' < rank_of t s"
proof -
  have len: "t < length (setups (set_opened t c s))" "t < length (setups (s\<lparr>gone := g\<rparr>))" for c g
    using assms(2) by simp_all
  note fail = setup_fail_rank [THEN le_less_trans] and sel = setup_select_rank [THEN le_less_trans]
    and inst = setup_install_rank [THEN le_less_trans]
  from assms show ?thesis
    by (auto simp: setup_resume_def Let_def len setup_finish_rank rank_of_def [of t s]
        intro!: fail sel inst split: setup_pc.split_asm resume.split_asm if_split_asm)
qed

section \<open>Examples\<close>

definition example_endpoint :: endpoint where
  "example_endpoint = \<lparr>ep_transport = lit ''t'', ep_address = lit ''x:1'', ep_metadata = []\<rparr>"

definition connecting :: sys where
  "connecting = snd (connect (lit ''p'') example_endpoint False False (new_sys (lit ''t'')))"

lemma connecting_reachable: "reachable mgr_step (new_sys (lit ''t'')) connecting"
  unfolding connecting_def by (rule reachable.next_state, rule reachable.start, rule mgr_step.connect)

lemma connecting_eq: "connecting =
  \<lparr>mgr = \<lparr>transport_name = lit ''t'', connections = [], in_flight = [(lit ''p'', 0)],
     states = [(lit ''p'', CONNECTING)], closing_peers = [], closing = False\<rparr>,
   setups = [\<lparr>su_peer = lit ''p'', su_prepare = False, su_opened = None, su_cancelled = False,
     su_pc = SetupCreated\<rparr>], closers = [], gone = {}, close_calls = {}\<rparr>"
  by (simp add: connecting_def connect_def example_endpoint_def new_sys_def new_manager_def
      validate_target_def get_by_id_def)

section \<open>Properties\<close>

text \<open>C2 In every state the manager can reach, however its operations and their awaits interleave:
  while it closes, and for every peer that is closing, no connection is canonical and no setup in
  flight; a setup in flight is one live task that belongs to that peer and was not cancelled, so
  there is at most one per peer; and a peer is reported CONNECTED exactly when a canonical
  connection that is not closed exists.\<close>

theorem manager_states_consistent:
  assumes "reachable mgr_step (new_sys transport) s"
  shows "(closing (mgr s) \<longrightarrow> connections (mgr s) = [] \<and> in_flight (mgr s) = [])
    \<and> (\<forall>p \<in> set (closing_peers (mgr s)).
         map_of (connections (mgr s)) p = None \<and> map_of (in_flight (mgr s)) p = None)
    \<and> (\<forall>p t. map_of (in_flight (mgr s)) p = Some t \<longrightarrow>
         t < length (setups s) \<and> su_peer (setups s ! t) = p
         \<and> \<not> setup_done (setups s ! t) \<and> \<not> su_cancelled (setups s ! t))
    \<and> (\<forall>p. fst (peer_state (gone s) p (mgr s)) = CONNECTED \<longleftrightarrow>
         (\<exists>c. map_of (connections (mgr s)) p = Some c \<and> c \<notin> gone s))"
proof -
  have inv: "tables_ok (mgr s)" "flight_ok s"
    using manager_machine.holds [OF assms] by (simp_all add: mgr_inv_def)
  have "fst (get_by_id (gone s) p (mgr s)) \<noteq> None \<longleftrightarrow>
      (\<exists>c. map_of (connections (mgr s)) p = Some c \<and> c \<notin> gone s)" for p
    by (auto simp: get_by_id_def split: option.splits)
  with inv show ?thesis
    by (simp add: peer_state_connected tables_ok_def flight_ok_def)
qed

theorem manager_states_consistent_witness:
  "reachable mgr_step (new_sys (lit ''t'')) connecting
    \<and> fst (peer_state (gone connecting) (lit ''p'') (mgr connecting)) \<noteq> CONNECTED"
  using manager_states_consistent [OF connecting_reachable] connecting_reachable
  by (simp add: connecting_eq)

text \<open>C12 No setup loses a connection: in every reachable state, a setup that ended with an exception
  left the connection it had opened closed or had \<open>close()\<close> called on it, and one that returned a
  connection returned the one it opened, unless that one was closed the same way in favour of the
  returned one.\<close>

theorem setup_never_leaks:
  assumes "reachable mgr_step (new_sys transport) s" "su \<in> set (setups s)"
    and "su_opened su = Some c" "su_pc su = SetupDone res"
  shows "c \<in> gone s \<or> c \<in> close_calls s \<or> res = Inr c"
proof -
  have "no_leak s"
    using manager_machine.holds [OF assms(1)] by (simp add: mgr_inv_def)
  with assms(2,3,4) show ?thesis
    by (cases res) (auto simp: no_leak_def released_def)
qed

definition connected_sys :: sys where
  "connected_sys = the (setup_resume 0 (GotConnection 5) (the (setup_resume 0 Started connecting)))"

lemma connected_eq: "connected_sys =
  \<lparr>mgr = \<lparr>transport_name = lit ''t'', connections = [(lit ''p'', 5)], in_flight = [],
     states = [(lit ''p'', CONNECTED)], closing_peers = [], closing = False\<rparr>,
   setups = [\<lparr>su_peer = lit ''p'', su_prepare = False, su_opened = Some 5, su_cancelled = False,
     su_pc = SetupDone (Inr 5)\<rparr>], closers = [], gone = {}, close_calls = {}\<rparr>"
  by (simp add: connected_sys_def connecting_eq setup_resume_def set_pc_def set_opened_def Let_def
      setup_select_def setup_install_def setup_finish_def leave_flight_def dpop_def)

lemma connected_reachable: "reachable mgr_step (new_sys (lit ''t'')) connected_sys"
proof -
  have "\<exists>s. setup_resume 0 Started connecting = Some s \<and> setup_resume 0 (GotConnection 5) s = Some connected_sys
      \<and> 0 < length (setups s)"
    by (simp add: connected_eq) (simp add: connecting_eq setup_resume_def set_pc_def set_opened_def
        Let_def setup_select_def setup_install_def setup_finish_def leave_flight_def dpop_def)
  moreover have "0 < length (setups connecting)" by (simp add: connecting_eq)
  ultimately show ?thesis
    using connecting_reachable by (metis reachable.next_state mgr_step.resume_setup)
qed

theorem setup_never_leaks_witness:
  "reachable mgr_step (new_sys (lit ''t'')) connected_sys \<and> (5 \<in> gone connected_sys \<or> 5 \<in> close_calls connected_sys
    \<or> (Inr 5 :: exn + conn) = Inr 5)"
  using setup_never_leaks [OF connected_reachable, of "hd (setups connected_sys)" 5 "Inr 5"]
    connected_reachable by (simp add: connected_eq)

text \<open>Connection setup is single-flight: while a setup for a peer is in flight and neither the
  manager nor the peer is closing and no usable connection is canonical, another \<open>connect\<close> for
  the peer starts no task but awaits the one in flight; with a usable canonical connection it
  returns that one; while closing it raises \<open>ConnectionClosedError\<close>.\<close>

theorem connect_single_flight:
  assumes "validate_target (mgr s) ep = Inr ()"
  shows "case connect p ep prepare reconnecting s of (answer, s') \<Rightarrow>
    (closing (mgr s) \<or> p \<in> set (closing_peers (mgr s)) \<longrightarrow> answer = Inl ConnectionClosedError \<and> s' = s)
    \<and> (\<not> closing (mgr s) \<and> p \<notin> set (closing_peers (mgr s)) \<longrightarrow>
        (case fst (get_by_id (gone s) p (mgr s)) of
           Some c \<Rightarrow> answer = Inr (Existing c) \<and> setups s' = setups s
         | None \<Rightarrow>
             (case map_of (in_flight (mgr s)) p of
                Some t \<Rightarrow> answer = Inr (AwaitSetup t) \<and> setups s' = setups s
              | None \<Rightarrow> answer = Inr (AwaitSetup (length (setups s)))
                  \<and> length (setups s') = Suc (length (setups s)))))"
proof -
  obtain x m where g: "get_by_id (gone s) p (mgr s) = (x, m)" by (cases "get_by_id (gone s) p (mgr s)")
  then have "in_flight m = in_flight (mgr s)" using get_by_id_other(3) [of "gone s" p "mgr s"] by simp
  with assms g show ?thesis
    by (cases x; cases "map_of (in_flight (mgr s)) p") (auto simp: connect_def Let_def)
qed

theorem connect_single_flight_witness:
  "connect (lit ''p'') example_endpoint False False connecting = (Inr (AwaitSetup 0), connecting)"
proof -
  have "validate_target (mgr connecting) example_endpoint = Inr ()"
    by (simp add: connecting_eq validate_target_def example_endpoint_def)
  from connect_single_flight [OF this, of "lit ''p''" False False]
  show ?thesis by (simp add: connecting_eq connect_def validate_target_def example_endpoint_def
      get_by_id_def)
qed

text \<open>A setup ends: every resumption of its task, with whatever its await returned or raised,
  lowers a rank that starts at six, so a setup runs at most six times before it is done.\<close>

theorem setup_terminates:
  assumes "setup_resume t r s = Some s'" "t < length (setups s)"
  shows "rank_of t s' < rank_of t s \<and> rank_of t s \<le> 6"
proof -
  have "setup_rank pc \<le> 6" for pc by (cases pc) simp_all
  with setup_resume_rank [OF assms] show ?thesis by (simp add: rank_of_def)
qed

theorem setup_terminates_witness:
  "\<exists>s'. setup_resume 0 Started connecting = Some s' \<and> rank_of 0 s' < rank_of 0 connecting"
proof -
  obtain s' where s': "setup_resume 0 Started connecting = Some s'"
    by (simp add: connecting_eq setup_resume_def)
  have "0 < length (setups connecting)" by (simp add: connecting_eq)
  from setup_terminates [OF s' this] s' show ?thesis by blast
qed

end
