(* ===== verification/Routing.thy ===== *)
theory Routing
  imports Models
begin

text \<open>
  Handlers and events: \<open>MessageRouter\<close> (\<open>src/paqto/core/router.py\<close>), \<open>NodeEvent\<close> and
  \<open>EventRouter\<close> (\<open>src/paqto/core/events.py\<close>). A handler is application code: it is an identity
  (a number), and the argument \<open>run\<close> gives the outcome of a call, awaited where it is
  awaitable. Registration keys are the types themselves, \<open>PNone\<close> or \<open>None\<close> for all types.

  The lemmas: which handlers run and in which order, that message dispatch stops at the first
  failure and raises nothing but \<open>MessageRoutingError\<close> for an \<open>Exception\<close>, and that event
  dispatch calls every listener whatever the others do.
\<close>

type_synonym handler = nat

section \<open>Message router\<close>

type_synonym message_router = "(pyval \<times> handler list) list"

definition handlers_for :: "('k \<times> handler list) list \<Rightarrow> 'k \<Rightarrow> handler list" where
  "handlers_for r k = (case map_of r k of None \<Rightarrow> [] | Some hs \<Rightarrow> hs)"

definition add_handler :: "'k \<Rightarrow> handler \<Rightarrow> ('k \<times> handler list) list \<Rightarrow> ('k \<times> handler list) list" where
  "add_handler k h r = dput k (handlers_for r k @ [h]) r"

text \<open>The handlers that were called, and how the dispatch ended.\<close>

fun run_handlers ::
    "(handler \<Rightarrow> message \<Rightarrow> exn + unit) \<Rightarrow> handler list \<Rightarrow> message \<Rightarrow> handler list \<times> (exn + unit)" where
  "run_handlers run [] m = ([], Inr ())"
| "run_handlers run (h # hs) m =
     (case run h m of
        Inr _ \<Rightarrow> (case run_handlers run hs m of (called, res) \<Rightarrow> (h # called, res))
      | Inl e \<Rightarrow>
          ([h], Inl (if exn_isa e MessageRoutingError then e
                     else if exn_isa e ExceptionClass then MessageRoutingError else e)))"

definition dispatch_message ::
    "(handler \<Rightarrow> message \<Rightarrow> exn + unit) \<Rightarrow> message_router \<Rightarrow> message \<Rightarrow> handler list \<times> (exn + nat)" where
  "dispatch_message run r m =
     (let hs = handlers_for r (msg_type m) @ handlers_for r PNone;
          (called, res) = run_handlers run hs m
      in (called, rbind res (\<lambda>_. Inr (length hs))))"

section \<open>Events\<close>

datatype event_type =
    PEER_DISCOVERED | PEER_EXPIRED | EV_CONNECTING | EV_CONNECTED | AUTHENTICATED
  | DISCONNECTED_EVENT | EV_RECONNECTING | TRANSPORT_ERROR | PROTOCOL_ERROR | HANDLER_ERROR
  | RESOURCE_LIMIT

record node_event =
  ev_type :: event_type
  ev_local_peer_id :: pystr
  ev_peer_id :: "pystr option"
  ev_connection_id :: "pystr option"
  ev_error :: "exn option"
  ev_metadata :: metadata

definition new_node_event ::
    "event_type \<Rightarrow> pystr \<Rightarrow> pystr option \<Rightarrow> pystr option \<Rightarrow> exn option \<Rightarrow> metadata \<Rightarrow> exn + node_event"
  where
  "new_node_event t local_id pid cid err md =
     rbind (guard (local_id \<noteq> []) ValueError) (\<lambda>_.
     rbind (guard (pid \<noteq> Some []) ValueError) (\<lambda>_.
     rbind (guard (cid \<noteq> Some []) ValueError) (\<lambda>_.
       Inr \<lparr>ev_type = t, ev_local_peer_id = local_id, ev_peer_id = pid, ev_connection_id = cid,
            ev_error = err, ev_metadata = md\<rparr>)))"

type_synonym event_router = "(event_type option \<times> handler list) list"

text \<open>
  \<open>add_handler\<close> of the event router; the argument \<open>callable\<close> is the built-in test of the
  handler.
\<close>

definition add_event_handler ::
    "event_type option \<Rightarrow> handler \<Rightarrow> bool \<Rightarrow> event_router \<Rightarrow> exn + event_router" where
  "add_event_handler t h callable r =
     rbind (guard callable TypeError) (\<lambda>_. Inr (add_handler t h r))"

text \<open>
  The listeners called, and the failures collected; an exception that is no \<open>Exception\<close> ends
  the dispatch.
\<close>

fun run_listeners ::
    "(handler \<Rightarrow> node_event \<Rightarrow> exn + unit) \<Rightarrow> handler list \<Rightarrow> node_event \<Rightarrow>
     handler list \<times> (exn + exn list)" where
  "run_listeners run [] ev = ([], Inr [])"
| "run_listeners run (h # hs) ev =
     (case run h ev of
        Inr _ \<Rightarrow> (case run_listeners run hs ev of (called, res) \<Rightarrow> (h # called, res))
      | Inl e \<Rightarrow>
          if exn_isa e ExceptionClass then
            (case run_listeners run hs ev of
               (called, res) \<Rightarrow> (h # called, rbind res (\<lambda>es. Inr (e # es))))
          else ([h], Inl e))"

definition dispatch_event ::
    "(handler \<Rightarrow> node_event \<Rightarrow> exn + unit) \<Rightarrow> event_router \<Rightarrow> node_event \<Rightarrow>
     handler list \<times> (exn + exn list)" where
  "dispatch_event run r ev =
     run_listeners run (handlers_for r (Some (ev_type ev)) @ handlers_for r None) ev"

section \<open>Lemmas\<close>

lemma handlers_for_add [simp]:
  "handlers_for (add_handler k h r) k' = handlers_for r k' @ (if k' = k then [h] else [])"
  by (auto simp: handlers_for_def add_handler_def split: option.splits)

lemma handlers_for_Nil [simp]: "handlers_for [] k = []"
  by (simp add: handlers_for_def)

text \<open>Registration order is call order.\<close>

lemma handlers_for_fold:
  "handlers_for (fold (\<lambda>(k, h). add_handler k h) regs r) k
     = handlers_for r k @ List.map snd (filter (\<lambda>(k', h). k' = k) regs)"
  by (induction regs arbitrary: r) auto

lemma run_handlers_prefix: "\<exists>rest. hs = fst (run_handlers run hs m) @ rest"
  by (induction hs) (auto split: sum.splits prod.splits)

lemma run_handlers_ok_iff:
  "snd (run_handlers run hs m) = Inr () \<longleftrightarrow> (\<forall>h \<in> set hs. run h m = Inr ())"
  by (induction hs) (auto split: sum.splits prod.splits)

lemma run_handlers_all: "snd (run_handlers run hs m) = Inr () \<Longrightarrow> fst (run_handlers run hs m) = hs"
  by (induction hs) (auto split: sum.splits prod.splits)

lemma run_handlers_stop:
  assumes "run_handlers run (xs @ h # ys) m = (called, res)"
    and "\<forall>x \<in> set xs. run x m = Inr ()" "run h m = Inl e"
  shows "called = xs @ [h] \<and> (\<exists>e'. res = Inl e')"
  using assms by (induction xs arbitrary: called res) (auto split: prod.splits if_splits)

lemma run_handlers_error:
  assumes "snd (run_handlers run hs m) = Inl e"
  shows "exn_isa e MessageRoutingError \<or> \<not> exn_isa e ExceptionClass"
  using assms by (induction hs) (auto split: sum.splits prod.splits if_splits)

lemma run_listeners_all:
  assumes "\<forall>h \<in> set hs. \<forall>e. run h ev = Inl e \<longrightarrow> exn_isa e ExceptionClass"
  shows "run_listeners run hs ev =
    (hs, Inr (List.map (\<lambda>h. projl (run h ev)) (filter (\<lambda>h. isl (run h ev)) hs)))"
  using assms by (induction hs) (auto split: sum.splits)

lemma new_node_event_ok:
  "local_id \<noteq> [] \<Longrightarrow> pid \<noteq> Some [] \<Longrightarrow> cid \<noteq> Some [] \<Longrightarrow>
    new_node_event t local_id pid cid err md =
      Inr \<lparr>ev_type = t, ev_local_peer_id = local_id, ev_peer_id = pid, ev_connection_id = cid,
           ev_error = err, ev_metadata = md\<rparr>"
  by (simp add: new_node_event_def)

section \<open>Properties\<close>

text \<open>Message dispatch runs the handlers registered for the exact type and then those for all
  types, each group in registration order, and stops at the first failure: the handlers called
  are a prefix, all of them if and only if none failed, and then their number is returned; an
  \<open>Exception\<close> of a handler arrives as \<open>MessageRoutingError\<close>.\<close>

theorem message_dispatch_order:
  "let regs = fold (\<lambda>(k, h). add_handler k h) added [];
       expected = List.map snd (filter (\<lambda>(k, h). k = msg_type m) added)
         @ List.map snd (filter (\<lambda>(k, h). k = PNone) added)
   in case dispatch_message run regs m of
        (called, Inr count) \<Rightarrow> called = expected \<and> count = length expected
          \<and> (\<forall>h \<in> set expected. run h m = Inr ())
      | (called, Inl e) \<Rightarrow> (\<exists>rest. expected = called @ rest)
          \<and> \<not> (\<forall>h \<in> set expected. run h m = Inr ())
          \<and> (exn_isa e MessageRoutingError \<or> \<not> exn_isa e ExceptionClass)"
proof -
  define hs where "hs = List.map snd (filter (\<lambda>(k, h). k = msg_type m) added)
    @ List.map snd (filter (\<lambda>(k, h). k = PNone) added)"
  obtain called res where run: "run_handlers run hs m = (called, res)" by (cases "run_handlers run hs m")
  have d: "dispatch_message run (fold (\<lambda>(k, h). add_handler k h) added []) m
      = (called, rbind res (\<lambda>_. Inr (length hs)))"
    by (simp add: dispatch_message_def handlers_for_fold run hs_def [symmetric])
  show ?thesis
    using run_handlers_prefix [of hs run m] run_handlers_ok_iff [of run hs m]
      run_handlers_all [of run hs m] run_handlers_error [of run hs m]
    by (cases res) (auto simp: d run Let_def hs_def [symmetric])
qed

theorem message_dispatch_order_witness:
  "let regs = fold (\<lambda>(k, h). add_handler k h) [(PNone, 1), (PStr [97], 2), (PStr [97], 3)] [];
       m = \<lparr>payload = PNone, msg_type = PStr [97], sender = PNone, recipient = PNone,
            headers = PDict [], msg_id = PStr [98], created_at = PNone, reply_to = PNone\<rparr>
   in dispatch_message (\<lambda>h m. if h = 3 then Inl ValueError else Inr ()) regs m
        = ([2, 3], Inl MessageRoutingError)"
proof -
  let ?m = "\<lparr>payload = PNone, msg_type = PStr [97], sender = PNone, recipient = PNone,
    headers = PDict [], msg_id = PStr [98], created_at = PNone, reply_to = PNone\<rparr>"
  have "\<not> exn_isa ValueError MessageRoutingError" "exn_isa ValueError ExceptionClass"
    by (simp_all add: exn_isa_def)
  with message_dispatch_order [of "[(PNone, 1), (PStr [97], 2), (PStr [97], 3)]" ?m
      "\<lambda>h m. if h = 3 then Inl ValueError else Inr ()"]
  show ?thesis
    by (simp add: Let_def dispatch_message_def add_handler_def handlers_for_def)
qed

text \<open>Listeners of an event are isolated from each other: when no listener ends with anything but
  an \<open>Exception\<close>, every matching listener is called, in order, whatever the others do, and the
  failures are returned in the order they happened.\<close>

theorem event_listeners_isolated:
  assumes "\<forall>h e. run h ev = Inl e \<longrightarrow> exn_isa e ExceptionClass"
  shows "let hs = handlers_for r (Some (ev_type ev)) @ handlers_for r None in
    dispatch_event run r ev = (hs, Inr (List.map (\<lambda>h. projl (run h ev)) (filter (\<lambda>h. isl (run h ev)) hs)))"
  using assms by (simp add: dispatch_event_def Let_def run_listeners_all)

theorem event_listeners_isolated_witness:
  "let ev = \<lparr>ev_type = EV_CONNECTED, ev_local_peer_id = [97], ev_peer_id = None,
             ev_connection_id = None, ev_error = None, ev_metadata = []\<rparr>
   in dispatch_event (\<lambda>h e. if h = 1 then Inl ValueError else Inr ()) [(None, [1, 2]), (Some EV_CONNECTED, [3])] ev
     = ([3, 1, 2], Inr [ValueError])"
proof -
  let ?ev = "\<lparr>ev_type = EV_CONNECTED, ev_local_peer_id = [97], ev_peer_id = None,
    ev_connection_id = None, ev_error = None, ev_metadata = []\<rparr>"
  have "exn_isa ValueError ExceptionClass" by (simp add: exn_isa_def)
  then have "\<forall>h e. (\<lambda>h e. if h = (1 :: nat) then Inl ValueError else Inr ()) h ?ev = Inl e
      \<longrightarrow> exn_isa e ExceptionClass" by simp
  from event_listeners_isolated [of "\<lambda>h e. if h = 1 then Inl ValueError else Inr ()" ?ev, OF this]
  show ?thesis by (simp add: Let_def handlers_for_def)
qed

end
