(* ===== verification/Effects.thy ===== *)
theory Effects
  imports Errors
begin

text \<open>
  Methods that read and update an object and may raise: a function of the state to an outcome
  and the state it leaves, whether it returns or raises. \<open>try_finally\<close>, \<open>try_except\<close> and
  \<open>each\<close> are the statements \<open>try/finally\<close>, \<open>try/except\<close> and \<open>for\<close> over such methods.
\<close>

type_synonym ('s, 'a) act = "'s \<Rightarrow> (exn + 'a) \<times> 's"

definition ret :: "'a \<Rightarrow> ('s, 'a) act" where
  "ret x s = (Inr x, s)"

definition raise :: "exn \<Rightarrow> ('s, 'a) act" where
  "raise e s = (Inl e, s)"

definition seq :: "('s, 'a) act \<Rightarrow> ('a \<Rightarrow> ('s, 'b) act) \<Rightarrow> ('s, 'b) act" where
  "seq m f s = (case m s of (Inl e, s') \<Rightarrow> (Inl e, s') | (Inr x, s') \<Rightarrow> f x s')"

definition update :: "('s \<Rightarrow> 's) \<Rightarrow> ('s, unit) act" where
  "update f s = (Inr (), f s)"

definition reads :: "('s \<Rightarrow> ('s, 'a) act) \<Rightarrow> ('s, 'a) act" where
  "reads f s = f s s"

definition check :: "bool \<Rightarrow> exn \<Rightarrow> ('s, unit) act" where
  "check ok e = (if ok then ret () else raise e)"

definition lift_res :: "exn + 'a \<Rightarrow> ('s, 'a) act" where
  "lift_res r s = (r, s)"

definition try_finally :: "('s, 'a) act \<Rightarrow> ('s \<Rightarrow> 's) \<Rightarrow> ('s, 'a) act" where
  "try_finally m f s = (case m s of (r, s') \<Rightarrow> (r, f s'))"

definition try_except :: "('s, 'a) act \<Rightarrow> (exn \<Rightarrow> ('s, 'a) act) \<Rightarrow> ('s, 'a) act" where
  "try_except m h s = (case m s of (Inl e, s') \<Rightarrow> h e s' | (Inr x, s') \<Rightarrow> (Inr x, s'))"

fun each :: "('b \<Rightarrow> ('s, unit) act) \<Rightarrow> 'b list \<Rightarrow> ('s, unit) act" where
  "each f [] = ret ()"
| "each f (x # xs) = seq (f x) (\<lambda>_. each f xs)"

lemma act_simps [simp]:
  "ret x s = (Inr x, s)" "raise e s = (Inl e, s)" "update f s = (Inr (), f s)"
  "reads g s = g s s" "lift_res r s = (r, s)" "check True e = ret ()" "check False e = raise e"
  by (simp_all add: ret_def raise_def update_def reads_def lift_res_def check_def)

lemma seq_simps [simp]:
  "m s = (Inr x, s') \<Longrightarrow> seq m f s = f x s'" "m s = (Inl e, s') \<Longrightarrow> seq m f s = (Inl e, s')"
  by (simp_all add: seq_def)

lemma seq_ret [simp]: "seq (ret x) f = f x" "seq (raise e) f = raise e"
  by (simp_all add: fun_eq_iff seq_def raise_def)

lemma seq_update [simp]: "seq (update g) f s = f () (g s)"
  by (simp add: seq_def)

lemma seq_reads [simp]: "seq (reads g) f s = seq (g s) f s"
  by (simp add: seq_def)

lemma check_apply [simp]: "check b e s = (if b then (Inr (), s) else (Inl e, s))"
  by (simp add: check_def)

lemma seq_check [simp]: "seq (check b e) f s = (if b then f () s else (Inl e, s))"
  by (simp add: seq_def)

lemma seq_lift [simp]:
  "seq (lift_res r) f s = (case r of Inl e \<Rightarrow> (Inl e, s) | Inr x \<Rightarrow> f x s)"
  by (simp add: seq_def split: sum.splits)

lemma seq_cases:
  assumes "seq m f s = (r, s')"
  obtains e where "m s = (Inl e, s')" "r = Inl e" | x t where "m s = (Inr x, t)" "f x t = (r, s')"
  using assms by (auto simp: seq_def split: prod.splits sum.splits)

text \<open>
  A predicate that every part of a method keeps is kept by the method, whichever way it ends.
\<close>

definition keeps :: "('s \<Rightarrow> bool) \<Rightarrow> ('s, 'a) act \<Rightarrow> bool" where
  "keeps P m \<longleftrightarrow> (\<forall>s. P s \<longrightarrow> P (snd (m s)))"

named_theorems keeps_rules

lemma keepsD: "keeps P m \<Longrightarrow> P s \<Longrightarrow> m s = (r, s') \<Longrightarrow> P s'"
  by (force simp: keeps_def)

lemma keeps_snd: "keeps P m \<Longrightarrow> P s \<Longrightarrow> P (snd (m s))"
  by (simp add: keeps_def)

lemma keeps_seq [keeps_rules]: "keeps P m \<Longrightarrow> (\<And>x. keeps P (f x)) \<Longrightarrow> keeps P (seq m f)"
  by (fastforce simp: keeps_def seq_def split: prod.splits sum.splits)

lemma keeps_atoms [keeps_rules]:
  "keeps P (ret x)" "keeps P (raise e)" "keeps P (lift_res r)" "keeps P (check b e)"
  by (simp_all add: keeps_def)

lemma keeps_update [keeps_rules]: "(\<And>s. P s \<Longrightarrow> P (f s)) \<Longrightarrow> keeps P (update f)"
  by (simp add: keeps_def)

lemma keeps_reads: "(\<And>s. P s \<Longrightarrow> P (snd (g s s))) \<Longrightarrow> keeps P (reads g)"
  by (simp add: keeps_def)

lemma keeps_each [keeps_rules]: "(\<And>x. keeps P (f x)) \<Longrightarrow> keeps P (each f xs)"
  by (induction xs) (auto intro: keeps_seq keeps_atoms)

end
