(* ===== verification/Node.thy ===== *)
theory Node
  imports Handshake Config Manager Routing Effects
begin

text \<open>
  The state of \<open>PaqtoNode\<close> (\<open>src/paqto/core/node.py\<close>) and the operations that involve no
  session: events, the discovery cache, target resolution, the local offer, message validation.
  The theories \<open>Sessions\<close>, \<open>Correlations\<close>, \<open>Outbound\<close>, \<open>Reader\<close>, \<open>Reconnect\<close> and \<open>Lifecycle\<close>
  add the operations on its tables.

  Connections, tasks and futures are identities. Futures are the list \<open>futures\<close> of their
  outcomes, channel objects the list \<open>channel_store\<close>; \<open>finished\<close> holds the tasks whose \<open>done()\<close> is true. What the node reads from outside,
  which connections are closed, what they report of their security and the clocks, is a
  \<open>world\<close>. A method without an \<open>await\<close> is one operation; one with awaits is split there.
\<close>

datatype direction = INBOUND | OUTBOUND

datatype fut = Waiting | Resolved "message option" | FutureError exn | FutureCancelled

record pending =
  pd_future :: nat
  pd_connection :: conn
  pd_peer :: pystr

record inbound_dispatch =
  in_message :: message
  in_connection :: conn
  in_peer :: pystr

record outbound_frame =
  fr_data :: bytes
  fr_future :: nat

record channel =
  ch_queue :: "outbound_frame list"
  ch_task :: nat
  ch_current :: "outbound_frame option"

record world =
  closed_conns :: "conn set"
  conn_security :: "conn \<Rightarrow> security_info"
  clk :: clock

record node =
  local_peer :: pystr
  cfg :: config
  running :: bool
  lifecycle_generation :: nat
  known_peers :: "(pystr \<times> discovered_peer) list"
  sessions :: "(conn \<times> protocol_session) list"
  session_connections :: "(conn \<times> conn) list"
  session_directions :: "(conn \<times> direction) list"
  peer_connections :: "(pystr \<times> conn) list"
  incoming_connections :: "conn list"
  outgoing_connections :: "conn list"
  last_received_activity :: "(conn \<times> rat) list"
  reader_tasks :: "(conn \<times> nat) list"
  handler_tasks :: "nat list"
  heartbeat_tasks :: "(conn \<times> nat) list"
  reconnect_tasks :: "(pystr \<times> nat) list"
  last_reconnect_errors :: "(pystr \<times> exn) list"
  reconnect_suppressed :: "pystr list"
  outbound_channels :: "(conn \<times> nat) list"
  channel_store :: "channel list"
  pending_requests :: "(pystr \<times> pending) list"
  pending_acknowledgements :: "(pystr \<times> pending) list"
  pending_heartbeats :: "(pystr \<times> pending) list"
  inbound_queue :: "inbound_dispatch list option"
  event_queue :: "node_event list option"
  listening :: bool
  accept_task :: "nat option"
  event_task :: "nat option"
  futures :: "fut list"
  next_task :: nat
  finished :: "nat set"

type_synonym 'a node_act = "(node, 'a) act"

definition new_node :: "pystr \<Rightarrow> config \<Rightarrow> node" where
  "new_node pid c = \<lparr>local_peer = pid, cfg = c, running = False, lifecycle_generation = 0,
     known_peers = [], sessions = [], session_connections = [], session_directions = [],
     peer_connections = [], incoming_connections = [], outgoing_connections = [],
     last_received_activity = [], reader_tasks = [], handler_tasks = [], heartbeat_tasks = [],
     reconnect_tasks = [], last_reconnect_errors = [], reconnect_suppressed = [],
     outbound_channels = [], channel_store = [], pending_requests = [], pending_acknowledgements = [],
     pending_heartbeats = [], inbound_queue = None, event_queue = None,
     listening = False, accept_task = None, event_task = None, futures = [],
     next_task = 0, finished = {}\<rparr>"

definition ensure_running :: "unit node_act" where
  "ensure_running = reads (\<lambda>n. check (running n) NotStartedError)"

text \<open>What the node shows of its state.\<close>

definition is_running :: "node \<Rightarrow> bool" where
  "is_running n = running n"

definition session_for :: "conn \<Rightarrow> node \<Rightarrow> protocol_session option" where
  "session_for c n = map_of (sessions n) c"

definition pending_request_count :: "node \<Rightarrow> nat" where
  "pending_request_count n = length (pending_requests n)"

definition pending_acknowledgement_count :: "node \<Rightarrow> nat" where
  "pending_acknowledgement_count n = length (pending_acknowledgements n)"

definition reconnect_task_count :: "node \<Rightarrow> nat" where
  "reconnect_task_count n = length (reconnect_tasks n)"

definition heartbeat_task_count :: "node \<Rightarrow> nat" where
  "heartbeat_task_count n = length (heartbeat_tasks n)"

definition inbound_queue_size :: "node \<Rightarrow> nat" where
  "inbound_queue_size n = (case inbound_queue n of Some q \<Rightarrow> length q | None \<Rightarrow> 0)"

definition last_reconnect_error :: "pystr \<Rightarrow> node \<Rightarrow> exn option" where
  "last_reconnect_error p n = map_of (last_reconnect_errors n) p"

definition active_connection_count :: "node \<Rightarrow> nat" where
  "active_connection_count n = length (remdups (incoming_connections n @ outgoing_connections n))"

definition connection_for_peer :: "world \<Rightarrow> pystr \<Rightarrow> node \<Rightarrow> conn option" where
  "connection_for_peer w p n =
     (case map_of (peer_connections n) p of
        None \<Rightarrow> None | Some c \<Rightarrow> if c \<in> closed_conns w then None else Some c)"

section \<open>Futures and tasks\<close>

definition new_future :: "nat node_act" where
  "new_future n = (Inr (length (futures n)), n\<lparr>futures := futures n @ [Waiting]\<rparr>)"

definition future_state :: "nat \<Rightarrow> node \<Rightarrow> fut" where
  "future_state f n = (if f < length (futures n) then futures n ! f else FutureCancelled)"

text \<open>\<open>set_result\<close>, \<open>_set_future_error\<close> and \<open>cancel\<close>, each guarded by \<open>if not future.done()\<close>.\<close>

definition complete_future :: "nat \<Rightarrow> fut \<Rightarrow> node \<Rightarrow> node" where
  "complete_future f v n =
     (if future_state f n = Waiting then n\<lparr>futures := (futures n)[f := v]\<rparr> else n)"

definition set_future_error :: "nat \<Rightarrow> exn \<Rightarrow> node \<Rightarrow> node" where
  "set_future_error f e = complete_future f (FutureError e)"

definition create_task :: "nat node_act" where
  "create_task n = (Inr (next_task n), n\<lparr>next_task := Suc (next_task n)\<rparr>)"

definition task_done :: "node \<Rightarrow> nat \<Rightarrow> bool" where
  "task_done n t \<longleftrightarrow> t \<in> finished n"

section \<open>Events\<close>

fun hex_text :: "nat \<Rightarrow> pystr" where
  "hex_text i = (if i < 16 then [hex_digit i] else hex_text (i div 16) @ [hex_digit (i mod 16)])"

declare hex_text.simps [simp del]

definition connection_id :: "conn \<Rightarrow> pystr" where
  "connection_id c = hex_text c"

definition emit_event ::
    "event_type \<Rightarrow> pystr option \<Rightarrow> conn option \<Rightarrow> exn option \<Rightarrow> metadata \<Rightarrow> unit node_act" where
  "emit_event t pid c err md n =
     (case event_queue n of
        None \<Rightarrow> (Inr (), n)
      | Some q \<Rightarrow>
          (case new_node_event t (local_peer n) pid (map_option connection_id c) err md of
             Inl e \<Rightarrow> (Inl e, n)
           | Inr ev \<Rightarrow>
               (Inr (), if int (length q) < max_event_queue (cfg n)
                        then n\<lparr>event_queue := Some (q @ [ev])\<rparr> else n)))"

definition report_handler_error :: "inbound_dispatch \<Rightarrow> exn \<Rightarrow> unit node_act" where
  "report_handler_error item err =
     emit_event HANDLER_ERROR (Some (in_peer item)) (Some (in_connection item)) (Some err)
       [(PStr (lit ''message_id''), msg_id (in_message item)),
        (PStr (lit ''message_type''), msg_type (in_message item))]"

definition report_protocol_error :: "conn \<Rightarrow> exn \<Rightarrow> pystr option \<Rightarrow> unit node_act" where
  "report_protocol_error c err pid = emit_event PROTOCOL_ERROR pid (Some c) (Some err) []"

definition report_transport_error :: "exn \<Rightarrow> unit node_act" where
  "report_transport_error err = emit_event TRANSPORT_ERROR None None (Some err) []"

definition report_resource_limit :: "pystr option \<Rightarrow> conn option \<Rightarrow> unit node_act" where
  "report_resource_limit pid c = emit_event RESOURCE_LIMIT pid c (Some ResourceLimitError) []"

section \<open>The discovery cache\<close>

text \<open>\<open>a > b\<close> on datetimes; comparing an aware with a naive one raises.\<close>

definition dt_after :: "dt \<Rightarrow> dt \<Rightarrow> exn + bool" where
  "dt_after a b =
     (case (dt_utc a, dt_utc b) of
        (Some x, Some y) \<Rightarrow> Inr (y < x)
      | (None, None) \<Rightarrow> Inr (wall_us b < wall_us a)
      | _ \<Rightarrow> Inl TypeError)"

definition remember :: "discovered_peer \<Rightarrow> unit node_act" where
  "remember d = reads (\<lambda>n.
     let p = peer_ident (disc_peer d) in
     if p = local_peer n then ret ()
     else seq (case map_of (known_peers n) p of
                 None \<Rightarrow> ret False
               | Some k \<Rightarrow> lift_res (dt_after (last_seen k) (last_seen d)))
       (\<lambda>newer. if newer then ret ()
               else update (\<lambda>n. n\<lparr>known_peers := dput p d (known_peers n)\<rparr>)))"

datatype target = TargetPeer peer | TargetDiscovered discovered_peer

fun target_id :: "target \<Rightarrow> pystr" where
  "target_id (TargetPeer p) = peer_ident p"
| "target_id (TargetDiscovered d) = peer_ident (disc_peer d)"

fun resolve_target :: "world \<Rightarrow> target \<Rightarrow> node \<Rightarrow> exn + discovered_peer" where
  "resolve_target w (TargetDiscovered d) n = Inr d"
| "resolve_target w (TargetPeer p) n =
     (case map_of (known_peers n) (peer_ident p) of
        Some d \<Rightarrow> Inr d
      | None \<Rightarrow>
          if connection_for_peer w (peer_ident p) n \<noteq> None
          then Inr (new_discovered (clk w) p [] (utc_dt (utc_now (clk w))) [])
          else Inl PeerNotFoundError)"

definition select_endpoint :: "pystr \<Rightarrow> discovered_peer \<Rightarrow> exn + endpoint" where
  "select_endpoint transport d = opt_res NoEndpointError (endpoint_for transport (endpoints d))"

text \<open>
  \<open>discover\<close> before its await: drop the expired observations; the freshness check may re-anchor
  the one it looks at. After the await: keep the fresh results, remember and announce them.
\<close>

definition expire_known :: "world \<Rightarrow> pystr \<times> discovered_peer \<Rightarrow> unit node_act" where
  "expire_known w pk = reads (\<lambda>n.
     case is_fresh (clk w) (peer_ttl (cfg n)) (snd pk) of
       (d, verdict) \<Rightarrow>
         seq (update (\<lambda>n. n\<lparr>known_peers := dput (fst pk) d (known_peers n)\<rparr>)) (\<lambda>_.
         seq (lift_res verdict) (\<lambda>fresh.
           if fresh then ret ()
           else seq (update (\<lambda>n. n\<lparr>known_peers := dpop (fst pk) (known_peers n)\<rparr>)) (\<lambda>_.
                  emit_event PEER_EXPIRED (Some (fst pk)) None None []))))"

definition discover_begin :: "world \<Rightarrow> nat node_act" where
  "discover_begin w =
     seq ensure_running (\<lambda>_. reads (\<lambda>n.
       seq (each (expire_known w) (known_peers n)) (\<lambda>_. ret (lifecycle_generation n))))"

definition fresh_only :: "clock \<Rightarrow> pyval \<Rightarrow> discovered_peer list \<Rightarrow> exn + discovered_peer list" where
  "fresh_only now ttl ds =
     rbind (rmap (\<lambda>d. case is_fresh now ttl d of (d', v) \<Rightarrow> rbind v (\<lambda>f. Inr (d', f))) ds)
       (\<lambda>vs. Inr (List.map fst (filter snd vs)))"

definition learn_peer :: "discovered_peer \<Rightarrow> unit node_act" where
  "learn_peer d = reads (\<lambda>n.
     let p = peer_ident (disc_peer d); is_new = (map_of (known_peers n) p = None) in
     seq (remember d) (\<lambda>_.
       if is_new then emit_event PEER_DISCOVERED (Some p) None None [] else ret ()))"

definition discover_end :: "world \<Rightarrow> nat \<Rightarrow> exn + discovered_peer list \<Rightarrow> discovered_peer list node_act"
  where
  "discover_end w generation found =
     seq (lift_res (case found of
            Inl e \<Rightarrow> Inl (if exn_isa e TimeoutError then PaqtoTimeoutError else e)
          | Inr ds \<Rightarrow> Inr ds)) (\<lambda>ds. reads (\<lambda>n.
       seq (check (running n \<and> generation = lifecycle_generation n) NotStartedError) (\<lambda>_.
       seq (lift_res (fresh_only (clk w) (peer_ttl (cfg n)) ds)) (\<lambda>fresh.
       seq (each learn_peer fresh) (\<lambda>_. ret fresh)))))"

section \<open>The local offer\<close>

definition offered_capabilities :: "config \<Rightarrow> pystr list" where
  "offered_capabilities c =
     (let caps = capabilities c;
          caps' = (if enable_acknowledgements c \<and> TECHNICAL_ACK_CAPABILITY \<notin> set caps
                   then caps @ [TECHNICAL_ACK_CAPABILITY] else caps)
      in if HEARTBEAT_CAPABILITY \<notin> set caps' then caps' @ [HEARTBEAT_CAPABILITY] else caps')"

text \<open>The offer of \<open>_negotiate\<close>; \<open>protocol_id\<close> is the one of the serializer.\<close>

definition node_offer :: "node \<Rightarrow> pystr \<Rightarrow> exn + handshake_offer" where
  "node_offer n protocol_id =
     (let c = cfg n in
      new_offer (PStr (local_peer n))
        (PStr (case serializer_id c of Some s \<Rightarrow> s | None \<Rightarrow> protocol_id))
        (PInt (protocol_version c)) (PTuple (List.map PStr (offered_capabilities c)))
        (PInt (max_message_size c)) (PDict (protocol_metadata c)))"

definition negotiate :: "pyrt \<Rightarrow> node \<Rightarrow> pystr \<Rightarrow> pystr option \<Rightarrow> handshake_io \<Rightarrow>
    exn + handshake_run" where
  "negotiate rt n protocol_id expected io =
     rbind (node_offer n protocol_id) (\<lambda>off.
       Inr (negotiate_protocol rt off expected (require_authenticated (cfg n)) io))"

section \<open>Message validation\<close>

definition str_map :: "pyval \<Rightarrow> bool" where
  "str_map v = (case v of
     PDict kvs \<Rightarrow> list_all (\<lambda>kv. as_str (fst kv) \<noteq> None \<and> as_str (snd kv) \<noteq> None) kvs | _ \<Rightarrow> False)"

definition optional_id :: "pyval \<Rightarrow> bool" where
  "optional_id v \<longleftrightarrow> v = PNone \<or> nonempty_str v \<noteq> None"

definition validate_message_shape :: "message \<Rightarrow> exn + unit" where
  "validate_message_shape m =
     rbind (guard (nonempty_str (msg_type m) \<noteq> None) ProtocolFrameError) (\<lambda>_.
     rbind (guard (str_map (headers m)) ProtocolFrameError) (\<lambda>_.
     rbind (guard (optional_id (sender m)) ProtocolFrameError) (\<lambda>_.
            guard (optional_id (recipient m)) ProtocolFrameError)))"

text \<open>\<open>_validate_outgoing_message\<close> and \<open>_validate_incoming_message\<close> differ in the text only.\<close>

definition validate_message :: "message \<Rightarrow> exn + unit" where
  "validate_message m =
     rbind (validate_message_shape m) (\<lambda>_.
     rbind (guard (nonempty_str (msg_id m) \<noteq> None) ProtocolFrameError) (\<lambda>_.
            guard (optional_id (reply_to m)) ProtocolFrameError))"

section \<open>Lemmas\<close>

lemma hex_text_nonempty [simp]: "hex_text i \<noteq> []"
  by (subst hex_text.simps) simp

lemma connection_id_nonempty [simp]: "connection_id c \<noteq> []" "map_option connection_id x \<noteq> Some []"
  by (auto simp: connection_id_def)

lemma emit_event_ok:
  assumes "local_peer n \<noteq> []" "pid \<noteq> Some []"
  shows "fst (emit_event t pid c err md n) = Inr ()"
  using assms by (simp add: emit_event_def new_node_event_ok split: option.splits)

text \<open>An event touches nothing but the event queue.\<close>

definition same_but_events :: "node \<Rightarrow> node \<Rightarrow> bool" where
  "same_but_events n m \<longleftrightarrow> m = n\<lparr>event_queue := event_queue m\<rparr>"

lemma emit_event_same: "emit_event t pid c err md n = (r, n') \<Longrightarrow> same_but_events n n'"
  by (auto simp: emit_event_def same_but_events_def split: option.splits sum.splits if_splits)

lemma emit_event_only:
  "\<exists>q. snd (emit_event t pid c err md n) = n\<lparr>event_queue := q\<rparr>"
proof -
  obtain r n' where "emit_event t pid c err md n = (r, n')" by (cases "emit_event t pid c err md n")
  then show ?thesis using emit_event_same unfolding same_but_events_def by (metis snd_conv)
qed

definition events_bounded :: "node \<Rightarrow> bool" where
  "events_bounded n \<longleftrightarrow> (\<forall>q. event_queue n = Some q \<longrightarrow> int (length q) \<le> max_event_queue (cfg n))"

lemma emit_event_bounded [keeps_rules]: "keeps events_bounded (emit_event t pid c err md)"
  by (auto simp: keeps_def events_bounded_def emit_event_def split: option.splits sum.splits)

lemma offered_capabilities_ok:
  assumes "distinct (capabilities c)" "[] \<notin> set (capabilities c)"
  shows "distinct (offered_capabilities c)" "[] \<notin> set (offered_capabilities c)"
    "HEARTBEAT_CAPABILITY \<in> set (offered_capabilities c)"
    "enable_acknowledgements c \<Longrightarrow> TECHNICAL_ACK_CAPABILITY \<in> set (offered_capabilities c)"
  using assms by (auto simp: offered_capabilities_def Let_def HEARTBEAT_CAPABILITY_def
      TECHNICAL_ACK_CAPABILITY_def)

lemma node_offer_ok:
  assumes "config_ok (cfg n)" "local_peer n \<noteq> []" "protocol_id \<noteq> []"
  shows "\<exists>off. node_offer n protocol_id = Inr off \<and> valid_offer off
    \<and> offer_peer_id off = local_peer n \<and> offer_capabilities off = offered_capabilities (cfg n)
    \<and> offer_max_message_size off = max_message_size (cfg n)
    \<and> offer_version off = protocol_version (cfg n) \<and> offer_metadata off = protocol_metadata (cfg n)"
proof -
  define off where "off = \<lparr>offer_peer_id = local_peer n,
    offer_serializer_id = (case serializer_id (cfg n) of Some s \<Rightarrow> s | None \<Rightarrow> protocol_id),
    offer_version = protocol_version (cfg n), offer_capabilities = offered_capabilities (cfg n),
    offer_max_message_size = max_message_size (cfg n), offer_metadata = protocol_metadata (cfg n)\<rparr>"
  have caps: "distinct (offered_capabilities (cfg n))" "[] \<notin> set (offered_capabilities (cfg n))"
    using assms(1) by (intro offered_capabilities_ok; simp add: config_ok_def)+
  have "valid_offer off"
    using assms caps by (auto simp: off_def valid_offer_def config_ok_def split: option.splits)
  then have "node_offer n protocol_id = Inr off"
    by (simp add: node_offer_def Let_def new_offer_eq_Inr_iff) (simp add: off_def)
  with \<open>valid_offer off\<close> show ?thesis by (auto simp: off_def)
qed

lemma validate_message_ok:
  "validate_message m = Inr () \<longleftrightarrow>
     (\<exists>t i. msg_type m = PStr t \<and> t \<noteq> [] \<and> msg_id m = PStr i \<and> i \<noteq> [])
     \<and> str_map (headers m) \<and> optional_id (sender m) \<and> optional_id (recipient m)
     \<and> optional_id (reply_to m)"
  by (auto simp: validate_message_def validate_message_shape_def res_simps)

lemma validate_message_error: "validate_message m = Inl e \<Longrightarrow> e = ProtocolFrameError"
  by (auto simp: validate_message_def validate_message_shape_def res_simps elim!: rbind_InlE)

lemma remember_keeps:
  assumes "\<And>n k. P n \<Longrightarrow> P (n\<lparr>known_peers := k\<rparr>)"
  shows "keeps P (remember d)"
  using assms by (auto simp: keeps_def remember_def Let_def seq_def split: option.splits sum.splits)

end
