(* ===== verification/Correlations.thy ===== *)
theory Correlations
  imports Node
begin

text \<open>
  The correlation tables of \<open>src/paqto/core/node.py\<close>: pending requests, technical
  acknowledgements and heartbeats. \<open>open_request\<close> and \<open>open_acknowledgement\<close> are the parts of
  \<open>request\<close> and \<open>_send_message\<close> that enter a correlation, \<open>close_request\<close> and
  \<open>close_acknowledgement\<close> their \<open>finally\<close> clauses; the heartbeat loop does the same for a ping.

  The lemmas: a correlation is resolved by its own connection and peer only and at most once,
  losing a connection fails exactly the correlations of that connection, the tables respect
  their limits, and a finished caller leaves no entry behind.
\<close>

section \<open>Entering and leaving\<close>

definition open_request :: "pystr \<Rightarrow> conn \<Rightarrow> pystr \<Rightarrow> nat node_act" where
  "open_request mid c p =
     seq new_future (\<lambda>f. reads (\<lambda>n.
       if map_of (pending_requests n) mid \<noteq> None then raise RequestError
       else if max_pending_requests (cfg n) \<le> int (length (pending_requests n)) then
         seq (report_resource_limit (Some p) (Some c)) (\<lambda>_. raise ResourceLimitError)
       else
         seq ensure_running (\<lambda>_.
         seq (update (\<lambda>n. n\<lparr>pending_requests :=
               dput mid \<lparr>pd_future = f, pd_connection = c, pd_peer = p\<rparr> (pending_requests n)\<rparr>))
           (\<lambda>_. ret f))))"

definition close_request :: "pystr \<Rightarrow> nat \<Rightarrow> node \<Rightarrow> node" where
  "close_request mid f n =
     complete_future f FutureCancelled
       (case map_of (pending_requests n) mid of
          Some pd \<Rightarrow> if pd_future pd = f then n\<lparr>pending_requests := dpop mid (pending_requests n)\<rparr> else n
        | None \<Rightarrow> n)"

definition open_acknowledgement :: "pystr \<Rightarrow> conn \<Rightarrow> pystr \<Rightarrow> nat node_act" where
  "open_acknowledgement mid c p =
     seq new_future (\<lambda>f. reads (\<lambda>n.
       if map_of (pending_acknowledgements n) mid \<noteq> None then raise AcknowledgementError
       else if max_pending_acknowledgements (cfg n) \<le> int (length (pending_acknowledgements n)) then
         seq (report_resource_limit (Some p) (Some c)) (\<lambda>_. raise ResourceLimitError)
       else
         seq (update (\<lambda>n. n\<lparr>pending_acknowledgements :=
               dput mid \<lparr>pd_future = f, pd_connection = c, pd_peer = p\<rparr>
                 (pending_acknowledgements n)\<rparr>))
           (\<lambda>_. ret f)))"

definition close_acknowledgement :: "pystr \<Rightarrow> nat \<Rightarrow> node \<Rightarrow> node" where
  "close_acknowledgement mid f n =
     complete_future f FutureCancelled
       (case map_of (pending_acknowledgements n) mid of
          Some pd \<Rightarrow> if pd_future pd = f
                     then n\<lparr>pending_acknowledgements := dpop mid (pending_acknowledgements n)\<rparr> else n
        | None \<Rightarrow> n)"

definition open_heartbeat :: "pystr \<Rightarrow> conn \<Rightarrow> nat node_act" where
  "open_heartbeat pid c =
     seq new_future (\<lambda>f.
       seq (update (\<lambda>n. n\<lparr>pending_heartbeats :=
             dput pid \<lparr>pd_future = f, pd_connection = c, pd_peer = []\<rparr> (pending_heartbeats n)\<rparr>))
         (\<lambda>_. ret f))"

definition close_heartbeat :: "pystr \<Rightarrow> nat \<Rightarrow> node \<Rightarrow> node" where
  "close_heartbeat pid f n =
     complete_future f FutureCancelled
       (case map_of (pending_heartbeats n) pid of
          Some pd \<Rightarrow> if pd_future pd = f
                     then n\<lparr>pending_heartbeats := dpop pid (pending_heartbeats n)\<rparr> else n
        | None \<Rightarrow> n)"

section \<open>Resolving\<close>

definition resolve_reply :: "conn \<Rightarrow> protocol_session \<Rightarrow> message \<Rightarrow> node \<Rightarrow> node" where
  "resolve_reply c s m n =
     (case as_str (reply_to m) of
        None \<Rightarrow> n
      | Some rid \<Rightarrow>
          (case map_of (pending_requests n) rid of
             None \<Rightarrow> n
           | Some pd \<Rightarrow>
               if pd_connection pd \<noteq> c \<or> pd_peer pd \<noteq> session_peer_id s then n
               else complete_future (pd_future pd) (Resolved (Some m))
                      (n\<lparr>pending_requests := dpop rid (pending_requests n)\<rparr>)))"

definition resolve_acknowledgement :: "conn \<Rightarrow> protocol_session \<Rightarrow> pystr \<Rightarrow> node \<Rightarrow> node" where
  "resolve_acknowledgement c s mid n =
     (case map_of (pending_acknowledgements n) mid of
        None \<Rightarrow> n
      | Some pd \<Rightarrow>
          if pd_connection pd \<noteq> c \<or> pd_peer pd \<noteq> session_peer_id s then n
          else complete_future (pd_future pd) (Resolved None)
                 (n\<lparr>pending_acknowledgements := dpop mid (pending_acknowledgements n)\<rparr>))"

definition resolve_heartbeat :: "conn \<Rightarrow> pystr \<Rightarrow> node \<Rightarrow> node" where
  "resolve_heartbeat c pid n =
     (case map_of (pending_heartbeats n) pid of
        None \<Rightarrow> n
      | Some pd \<Rightarrow>
          if pd_connection pd \<noteq> c then n
          else complete_future (pd_future pd) (Resolved None)
                 (n\<lparr>pending_heartbeats := dpop pid (pending_heartbeats n)\<rparr>))"

section \<open>Failing\<close>

definition of_connection :: "conn \<Rightarrow> (pystr \<times> pending) list \<Rightarrow> (pystr \<times> pending) list" where
  "of_connection c d = filter (\<lambda>(k, pd). pd_connection pd = c) d"

definition without_connection :: "conn \<Rightarrow> (pystr \<times> pending) list \<Rightarrow> (pystr \<times> pending) list" where
  "without_connection c d = fold (\<lambda>(k, pd) d. dpop k d) (of_connection c d) d"

definition fail_futures :: "fut \<Rightarrow> (pystr \<times> pending) list \<Rightarrow> node \<Rightarrow> node" where
  "fail_futures v d = fold (\<lambda>(k, pd). complete_future (pd_future pd) v) d"

definition fail_pending_for_connection :: "conn \<Rightarrow> node \<Rightarrow> node" where
  "fail_pending_for_connection c n =
     (let n1 = fail_futures (FutureError RequestError) (of_connection c (pending_requests n))
                 (n\<lparr>pending_requests := without_connection c (pending_requests n)\<rparr>)
      in fail_futures (FutureError AcknowledgementError)
           (of_connection c (pending_acknowledgements n1))
           (n1\<lparr>pending_acknowledgements := without_connection c (pending_acknowledgements n1)\<rparr>))"

definition fail_all_pending :: "node \<Rightarrow> node" where
  "fail_all_pending n =
     fail_futures (FutureError AcknowledgementError) (pending_acknowledgements n)
       (fail_futures (FutureError RequestError) (pending_requests n)
         (n\<lparr>pending_requests := [], pending_acknowledgements := []\<rparr>))"

definition fail_heartbeats_for_connection :: "conn \<Rightarrow> node \<Rightarrow> node" where
  "fail_heartbeats_for_connection c n =
     fail_futures FutureCancelled (of_connection c (pending_heartbeats n))
       (n\<lparr>pending_heartbeats := without_connection c (pending_heartbeats n)\<rparr>)"

definition fail_all_heartbeats :: "node \<Rightarrow> node" where
  "fail_all_heartbeats n =
     fail_futures FutureCancelled (pending_heartbeats n) (n\<lparr>pending_heartbeats := []\<rparr>)"

section \<open>Futures\<close>

lemma complete_future_other [simp]:
  "pending_requests (complete_future f v n) = pending_requests n"
  "pending_acknowledgements (complete_future f v n) = pending_acknowledgements n"
  "pending_heartbeats (complete_future f v n) = pending_heartbeats n"
  "cfg (complete_future f v n) = cfg n" "local_peer (complete_future f v n) = local_peer n"
  "event_queue (complete_future f v n) = event_queue n" "running (complete_future f v n) = running n"
  "length (futures (complete_future f v n)) = length (futures n)"
  by (simp_all add: complete_future_def)

lemma complete_future_state:
  "future_state g (complete_future f v n) =
     (if g = f \<and> future_state f n = Waiting then v else future_state g n)"
  by (auto simp: complete_future_def future_state_def)

lemma complete_future_done: "future_state g n \<noteq> Waiting \<Longrightarrow> future_state g (complete_future f v n) = future_state g n"
  by (auto simp: complete_future_state)

lemma future_state_cong: "futures m = futures n \<Longrightarrow> future_state f m = future_state f n"
  by (simp add: future_state_def)

lemma fail_futures_simps [simp]:
  "fail_futures v [] n = n"
  "fail_futures v ((k, pd) # d) n = fail_futures v d (complete_future (pd_future pd) v n)"
  by (simp_all add: fail_futures_def)

lemma fail_futures_other [simp]:
  "pending_requests (fail_futures v d n) = pending_requests n"
  "pending_acknowledgements (fail_futures v d n) = pending_acknowledgements n"
  "pending_heartbeats (fail_futures v d n) = pending_heartbeats n"
  "cfg (fail_futures v d n) = cfg n" "local_peer (fail_futures v d n) = local_peer n"
  "event_queue (fail_futures v d n) = event_queue n" "running (fail_futures v d n) = running n"
  "length (futures (fail_futures v d n)) = length (futures n)"
  by (induction d arbitrary: n) auto

lemma fail_futures_state:
  assumes "v \<noteq> Waiting"
  shows "future_state g (fail_futures v d n) =
    (if future_state g n = Waiting \<and> (\<exists>k pd. (k, pd) \<in> set d \<and> pd_future pd = g) then v
     else future_state g n)"
  using assms
proof (induction d arbitrary: n)
  case (Cons x d)
  then show ?case by (cases x) (auto simp: complete_future_state)
qed simp

section \<open>Connections and tables\<close>

lemma map_of_fold_dpop: "map_of (fold (\<lambda>(k, pd) d. dpop k d) xs d) k =
    (if k \<in> set (dkeys xs) then None else map_of d k)"
  by (induction xs arbitrary: d) (auto simp: split_beta)

lemma set_of_connection: "(k, pd) \<in> set (of_connection c d) \<longleftrightarrow> (k, pd) \<in> set d \<and> pd_connection pd = c"
  by (auto simp: of_connection_def)

lemma keys_of_connection:
  assumes "distinct (dkeys d)"
  shows "k \<in> set (dkeys (of_connection c d)) \<longleftrightarrow> (\<exists>pd. map_of d k = Some pd \<and> pd_connection pd = c)"
proof
  assume "k \<in> set (dkeys (of_connection c d))"
  then obtain pd where "(k, pd) \<in> set d" "pd_connection pd = c"
    by (auto simp: of_connection_def)
  with assms show "\<exists>pd. map_of d k = Some pd \<and> pd_connection pd = c" by auto
next
  assume "\<exists>pd. map_of d k = Some pd \<and> pd_connection pd = c"
  then show "k \<in> set (dkeys (of_connection c d))"
    by (force simp: of_connection_def dest: map_of_SomeD)
qed

lemma map_of_without_connection:
  assumes "distinct (dkeys d)"
  shows "map_of (without_connection c d) k =
    (case map_of d k of Some pd \<Rightarrow> if pd_connection pd = c then None else Some pd | None \<Rightarrow> None)"
  using keys_of_connection [OF assms, of k c]
  by (auto simp: without_connection_def map_of_fold_dpop split: option.splits)

lemma fold_dpop_shrinks:
  "length (fold (\<lambda>(k, pd) d. dpop k d) xs d) \<le> length d"
  "set (dkeys (fold (\<lambda>(k, pd) d. dpop k d) xs d)) \<subseteq> set (dkeys d)"
  "distinct (dkeys d) \<Longrightarrow> distinct (dkeys (fold (\<lambda>(k, pd) d. dpop k d) xs d))"
proof (induction xs arbitrary: d)
  case (Cons x xs)
  { case 1 then show ?case using Cons.IH(1) [of "dpop (fst x) d"] length_dpop_le [of "fst x" d]
      by (simp add: split_beta)
  next
    case 2 then show ?case using Cons.IH(2) [of "dpop (fst x) d"] set_dkeys_dpop [of "fst x" d]
      by (auto simp: split_beta)
  next
    case 3 then show ?case using Cons.IH(3) [of "dpop (fst x) d"] by (simp add: split_beta distinct_dpop) }
qed simp_all

lemma without_connection_shrinks [simp]:
  "length (without_connection c d) \<le> length d"
  "distinct (dkeys d) \<Longrightarrow> distinct (dkeys (without_connection c d))"
  by (simp_all add: without_connection_def fold_dpop_shrinks)

section \<open>The invariant of the tables\<close>

text \<open>
  Every entry has a future of its own, and the tables respect the configured limits.
\<close>

definition table_futures :: "(pystr \<times> pending) list \<Rightarrow> nat list" where
  "table_futures d = List.map (pd_future \<circ> snd) d"

definition correlations_ok :: "node \<Rightarrow> bool" where
  "correlations_ok n \<longleftrightarrow>
     distinct (dkeys (pending_requests n)) \<and> distinct (dkeys (pending_acknowledgements n))
     \<and> distinct (dkeys (pending_heartbeats n))
     \<and> (\<forall>f \<in> set (table_futures (pending_requests n) @ table_futures (pending_acknowledgements n)
          @ table_futures (pending_heartbeats n)). f < length (futures n))
     \<and> int (length (pending_requests n)) \<le> max 0 (max_pending_requests (cfg n))
     \<and> int (length (pending_acknowledgements n)) \<le> max 0 (max_pending_acknowledgements (cfg n))"

lemma table_futures_Nil [simp]: "table_futures [] = []"
  by (simp add: table_futures_def)

lemma table_futures_dpop: "set (table_futures (dpop k d)) \<subseteq> set (table_futures d)"
  by (auto simp: table_futures_def dpop_def)

lemma table_futures_without: "set (table_futures (without_connection c d)) \<subseteq> set (table_futures d)"
proof -
  have "set (table_futures (fold (\<lambda>(k, pd) d. dpop k d) xs d)) \<subseteq> set (table_futures d)" for xs
  proof (induction xs arbitrary: d)
    case (Cons x xs)
    show ?case
      using Cons [of "dpop (fst x) d"] table_futures_dpop [of "fst x" d] by (auto simp: split_beta)
  qed simp
  then show ?thesis by (simp add: without_connection_def)
qed

lemma table_futures_dput:
  "set (table_futures (dput k v d)) \<subseteq> insert (pd_future v) (set (table_futures d))"
  by (induction k v d rule: dput.induct) (auto simp: table_futures_def)

lemma correlations_shrink:
  assumes "correlations_ok n"
    and "\<And>d. d \<in> {pending_requests, pending_acknowledgements, pending_heartbeats} \<Longrightarrow>
      distinct (dkeys (d m)) \<and> set (table_futures (d m)) \<subseteq> set (table_futures (d n))
      \<and> length (d m) \<le> length (d n)"
    and "cfg m = cfg n" "length (futures n) \<le> length (futures m)"
  shows "correlations_ok m"
proof -
  have r: "distinct (dkeys (pending_requests m))"
      "set (table_futures (pending_requests m)) \<subseteq> set (table_futures (pending_requests n))"
      "length (pending_requests m) \<le> length (pending_requests n)"
    and a: "distinct (dkeys (pending_acknowledgements m))"
      "set (table_futures (pending_acknowledgements m)) \<subseteq> set (table_futures (pending_acknowledgements n))"
      "length (pending_acknowledgements m) \<le> length (pending_acknowledgements n)"
    and h: "distinct (dkeys (pending_heartbeats m))"
      "set (table_futures (pending_heartbeats m)) \<subseteq> set (table_futures (pending_heartbeats n))"
    using assms(2) by blast+
  have "f < length (futures m)" if "f \<in> set (table_futures (pending_requests m)
      @ table_futures (pending_acknowledgements m) @ table_futures (pending_heartbeats m))" for f
  proof -
    have "f \<in> set (table_futures (pending_requests n) @ table_futures (pending_acknowledgements n)
        @ table_futures (pending_heartbeats n))"
      using that r(2) a(2) h(2) by auto
    then show ?thesis using assms(1,4) unfolding correlations_ok_def by fastforce
  qed
  with assms(1,3) r a h show ?thesis
    unfolding correlations_ok_def by (simp add: max_def split: if_split_asm)
qed

lemma correlations_pop:
  assumes "correlations_ok n"
  shows "correlations_ok (n\<lparr>pending_requests := dpop k (pending_requests n)\<rparr>)"
    "correlations_ok (n\<lparr>pending_acknowledgements := dpop k (pending_acknowledgements n)\<rparr>)"
    "correlations_ok (n\<lparr>pending_heartbeats := dpop k (pending_heartbeats n)\<rparr>)"
  by (rule correlations_shrink [OF assms];
      use assms in \<open>auto simp: correlations_ok_def length_dpop_le distinct_dpop
        dest: subsetD [OF table_futures_dpop]\<close>)+

lemma correlations_complete [simp]:
  "correlations_ok (complete_future f v n) = correlations_ok n"
  by (simp add: correlations_ok_def)

lemma correlations_fail [simp]: "correlations_ok (fail_futures v d n) = correlations_ok n"
  by (simp add: correlations_ok_def)

lemma resolve_correlations:
  assumes "correlations_ok n"
  shows "correlations_ok (resolve_reply c s m n)" "correlations_ok (resolve_acknowledgement c s i n)"
    "correlations_ok (resolve_heartbeat c i n)" "correlations_ok (close_request i f n)"
    "correlations_ok (close_acknowledgement i f n)" "correlations_ok (close_heartbeat i f n)"
  using assms
  by (auto simp: resolve_reply_def resolve_acknowledgement_def resolve_heartbeat_def
      close_request_def close_acknowledgement_def close_heartbeat_def intro: correlations_pop
      split: option.splits)

lemma fail_correlations:
  assumes "correlations_ok n"
  shows "correlations_ok (fail_pending_for_connection c n)" "correlations_ok (fail_all_pending n)"
    "correlations_ok (fail_heartbeats_for_connection c n)" "correlations_ok (fail_all_heartbeats n)"
  by (rule correlations_shrink [OF assms];
      use assms in \<open>auto simp: correlations_ok_def fail_pending_for_connection_def fail_all_pending_def
        fail_heartbeats_for_connection_def fail_all_heartbeats_def Let_def
        dest: subsetD [OF table_futures_without]\<close>)+

lemma correlations_events [simp]: "correlations_ok (n\<lparr>event_queue := q\<rparr>) = correlations_ok n"
  by (simp add: correlations_ok_def)

lemma correlations_emit [keeps_rules]: "keeps correlations_ok (emit_event t pid c err md)"
  unfolding keeps_def using emit_event_only [of t pid c err md] by (metis correlations_events)

lemma correlations_new_future [simp]:
  "correlations_ok n \<Longrightarrow> correlations_ok (n\<lparr>futures := futures n @ [v]\<rparr>)"
  by (fastforce simp: correlations_ok_def less_Suc_eq)

lemma correlations_put:
  assumes "correlations_ok n" "pd_future pd < length (futures n)"
  shows "int (length (pending_requests n)) < max_pending_requests (cfg n) \<Longrightarrow>
      correlations_ok (n\<lparr>pending_requests := dput k pd (pending_requests n)\<rparr>)"
    and "int (length (pending_acknowledgements n)) < max_pending_acknowledgements (cfg n) \<Longrightarrow>
      correlations_ok (n\<lparr>pending_acknowledgements := dput k pd (pending_acknowledgements n)\<rparr>)"
    and "correlations_ok (n\<lparr>pending_heartbeats := dput k pd (pending_heartbeats n)\<rparr>)"
  using assms subsetD [OF table_futures_dput [of k pd "pending_requests n"]]
    subsetD [OF table_futures_dput [of k pd "pending_acknowledgements n"]]
    subsetD [OF table_futures_dput [of k pd "pending_heartbeats n"]]
  by (fastforce simp: correlations_ok_def length_dput distinct_dput)+

lemma correlations_enter:
  assumes "correlations_ok n"
  defines "pd c p \<equiv> \<lparr>pd_future = length (futures n), pd_connection = c, pd_peer = p\<rparr>"
  shows "int (length (pending_requests n)) < max_pending_requests (cfg n) \<Longrightarrow>
      correlations_ok (n\<lparr>futures := futures n @ [Waiting],
        pending_requests := dput k (pd c p) (pending_requests n)\<rparr>)"
    and "int (length (pending_acknowledgements n)) < max_pending_acknowledgements (cfg n) \<Longrightarrow>
      correlations_ok (n\<lparr>futures := futures n @ [Waiting],
        pending_acknowledgements := dput k (pd c p) (pending_acknowledgements n)\<rparr>)"
    and "correlations_ok (n\<lparr>futures := futures n @ [Waiting],
        pending_heartbeats := dput k (pd c p) (pending_heartbeats n)\<rparr>)"
  using correlations_put [OF correlations_new_future [OF assms(1)], of "pd c p" Waiting k]
  by (simp_all add: pd_def)

lemma open_correlations:
  "keeps correlations_ok (open_request mid c p)"
  "keeps correlations_ok (open_acknowledgement mid c p)"
  "keeps correlations_ok (open_heartbeat mid c)"
proof -
  have report: "correlations_ok n \<Longrightarrow> correlations_ok (snd (seq (report_resource_limit x y) (\<lambda>_. raise e) n))"
    for n x y and e :: exn
    using keeps_snd [OF keeps_seq [OF correlations_emit keeps_atoms(2)]]
    by (auto simp: report_resource_limit_def)
  show "keeps correlations_ok (open_request mid c p)"
    by (auto simp: keeps_def open_request_def new_future_def seq_def [of new_future] report
        ensure_running_def seq_def [of "reads _"] intro!: correlations_enter)
  show "keeps correlations_ok (open_acknowledgement mid c p)"
    by (auto simp: keeps_def open_acknowledgement_def new_future_def seq_def [of new_future] report
        intro!: correlations_enter)
  show "keeps correlations_ok (open_heartbeat mid c)"
    by (auto simp: keeps_def open_heartbeat_def new_future_def seq_def [of new_future]
        intro!: correlations_enter)
qed

section \<open>What resolving and failing do\<close>

lemma resolve_reply_foreign:
  assumes "\<forall>pd. map_of (pending_requests n) rid = Some pd \<longrightarrow>
    pd_connection pd \<noteq> c \<or> pd_peer pd \<noteq> session_peer_id s"
    and "reply_to m = PStr rid"
  shows "resolve_reply c s m n = n"
  using assms by (simp add: resolve_reply_def split: option.splits)

lemma resolve_reply_own:
  assumes "map_of (pending_requests n) rid = Some pd" "reply_to m = PStr rid"
    and "pd_connection pd = c" "pd_peer pd = session_peer_id s"
  shows "pending_requests (resolve_reply c s m n) = dpop rid (pending_requests n)"
    and "future_state (pd_future pd) n = Waiting \<Longrightarrow>
      future_state (pd_future pd) (resolve_reply c s m n) = Resolved (Some m)"
    and "g \<noteq> pd_future pd \<Longrightarrow> future_state g (resolve_reply c s m n) = future_state g n"
  using assms
  by (simp_all add: resolve_reply_def complete_future_state future_state_cong [of "n\<lparr>pending_requests := _\<rparr>" n])

lemma fail_pending_tables:
  assumes "correlations_ok n"
  shows "map_of (pending_requests (fail_pending_for_connection c n)) k =
      (case map_of (pending_requests n) k of
         Some pd \<Rightarrow> if pd_connection pd = c then None else Some pd | None \<Rightarrow> None)"
    and "map_of (pending_acknowledgements (fail_pending_for_connection c n)) k =
      (case map_of (pending_acknowledgements n) k of
         Some pd \<Rightarrow> if pd_connection pd = c then None else Some pd | None \<Rightarrow> None)"
  using assms
  by (simp_all add: fail_pending_for_connection_def Let_def map_of_without_connection correlations_ok_def)

lemma fail_pending_futures:
  assumes "map_of (pending_requests n) k = Some pd" "pd_connection pd = c"
  shows "future_state (pd_future pd) (fail_pending_for_connection c n) \<noteq> Waiting"
proof -
  let ?n1 = "fail_futures (FutureError RequestError) (of_connection c (pending_requests n))
    (n\<lparr>pending_requests := without_connection c (pending_requests n)\<rparr>)"
  have "(k, pd) \<in> set (of_connection c (pending_requests n))"
    using assms by (auto simp: set_of_connection dest: map_of_SomeD)
  then have "future_state (pd_future pd) ?n1 \<noteq> Waiting"
    by (auto simp: fail_futures_state)
  then show ?thesis
    by (simp add: fail_pending_for_connection_def Let_def fail_futures_state
        future_state_cong [of "?n1\<lparr>pending_acknowledgements := _\<rparr>" ?n1])
qed

lemma close_request_gone:
  "\<forall>pd. map_of (pending_requests (close_request mid f n)) mid = Some pd \<longrightarrow> pd_future pd \<noteq> f"
  by (auto simp: close_request_def split: option.splits)

lemma close_request_done: "f < length (futures n) \<Longrightarrow> future_state f (close_request mid f n) \<noteq> Waiting"
  by (auto simp: close_request_def complete_future_state split: option.splits)

section \<open>Properties\<close>

text \<open>C10 A reply is matched on its exact session: \<open>_resolve_reply\<close> changes nothing unless the request
  it answers is pending on this very connection with this very peer; then it removes the request,
  hands the message to its caller if that is still waiting, and touches no other future and no
  other table entry. The same reply a second time finds nothing.\<close>

theorem reply_exact_session:
  "case as_str (reply_to m) of
     None \<Rightarrow> resolve_reply c s m n = n
   | Some rid \<Rightarrow>
      (case map_of (pending_requests n) rid of
        Some pd \<Rightarrow>
          if pd_connection pd = c \<and> pd_peer pd = session_peer_id s then
            (\<forall>k. map_of (pending_requests (resolve_reply c s m n)) k
               = (if k = rid then None else map_of (pending_requests n) k))
            \<and> (\<forall>g. future_state g (resolve_reply c s m n)
               = (if g = pd_future pd \<and> future_state g n = Waiting then Resolved (Some m)
                  else future_state g n))
            \<and> resolve_reply c s m (resolve_reply c s m n) = resolve_reply c s m n
          else resolve_reply c s m n = n
      | None \<Rightarrow> resolve_reply c s m n = n)"
proof (cases "as_str (reply_to m)")
  case (Some rid)
  have st: "future_state g (n\<lparr>pending_requests := x\<rparr>) = future_state g n" for g x
    by (simp add: future_state_def)
  show ?thesis
  proof (cases "map_of (pending_requests n) rid")
    case (Some pd)
    with \<open>as_str (reply_to m) = Some rid\<close> show ?thesis
      by (cases "pd_connection pd = c \<and> pd_peer pd = session_peer_id s")
        (auto simp: resolve_reply_def complete_future_state st)
  qed (use Some in \<open>simp add: resolve_reply_def\<close>)
qed (simp add: resolve_reply_def)

text \<open>C9 Losing a connection fails exactly its own correlations: afterwards no pending request and no
  pending acknowledgement of that connection is left, every one of them that was still waiting
  carries \<open>RequestError\<close> or \<open>AcknowledgementError\<close>, and the entries of every other connection
  and every other future are as they were.\<close>

theorem lost_connection_fails_its_own:
  assumes "correlations_ok n"
  shows "let n' = fail_pending_for_connection c n;
      lost = (\<lambda>d. pd_future ` snd ` set (of_connection c d));
      requests = lost (pending_requests n); acks = lost (pending_acknowledgements n) in
    (\<forall>k. map_of (pending_requests n') k = (case map_of (pending_requests n) k of
       Some pd \<Rightarrow> if pd_connection pd = c then None else Some pd | None \<Rightarrow> None))
    \<and> (\<forall>k. map_of (pending_acknowledgements n') k = (case map_of (pending_acknowledgements n) k of
       Some pd \<Rightarrow> if pd_connection pd = c then None else Some pd | None \<Rightarrow> None))
    \<and> (\<forall>f. future_state f n' =
        (if future_state f n = Waiting \<and> f \<in> requests then FutureError RequestError
         else if future_state f n = Waiting \<and> f \<in> acks then FutureError AcknowledgementError
         else future_state f n))"
proof -
  let ?n1 = "fail_futures (FutureError RequestError) (of_connection c (pending_requests n))
    (n\<lparr>pending_requests := without_connection c (pending_requests n)\<rparr>)"
  have mem: "f \<in> pd_future ` snd ` set d \<longleftrightarrow> (\<exists>k pd. (k, pd) \<in> set d \<and> pd_future pd = f)"
    for f and d :: "(pystr \<times> pending) list" by force
  have st1: "future_state f (n\<lparr>pending_requests := x\<rparr>) = future_state f n" for f x
    by (simp add: future_state_def)
  have st2: "future_state f (?n1\<lparr>pending_acknowledgements := x\<rparr>) = future_state f ?n1" for f x
    by (simp add: future_state_def)
  have pending_acks_update: "pending_acknowledgements (n\<lparr>pending_requests := x\<rparr>) = pending_acknowledgements n"
    for x by simp
  have failing: "future_state f (fail_futures (FutureError e) d m) =
      (if future_state f m = Waiting \<and> f \<in> pd_future ` snd ` set d then FutureError e
       else future_state f m)" for f e d and m :: node
    by (simp only: fail_futures_state [of "FutureError e"] fut.distinct mem not_False_eq_True)
  have "future_state f (fail_pending_for_connection c n) =
      (if future_state f n = Waiting \<and> f \<in> pd_future ` snd ` set (of_connection c (pending_requests n))
       then FutureError RequestError
       else if future_state f n = Waiting \<and> f \<in> pd_future ` snd ` set (of_connection c (pending_acknowledgements n))
       then FutureError AcknowledgementError else future_state f n)" for f
    by (simp only: fail_pending_for_connection_def Let_def failing st1 st2 fail_futures_other
        pending_acks_update split: if_split) simp
  then show ?thesis
    unfolding Let_def by (simp add: fail_pending_tables [OF assms])
qed

definition example_pending :: node where
  "example_pending = (new_node (lit ''a'') example_config)\<lparr>
     pending_requests := [(lit ''r'', \<lparr>pd_future = 0, pd_connection = 3, pd_peer = lit ''b''\<rparr>),
                          (lit ''s'', \<lparr>pd_future = 1, pd_connection = 4, pd_peer = lit ''c''\<rparr>)],
     futures := [Waiting, Waiting]\<rparr>"

theorem lost_connection_fails_its_own_witness:
  "correlations_ok example_pending
    \<and> future_state 0 (fail_pending_for_connection 3 example_pending) = FutureError RequestError
    \<and> future_state 1 (fail_pending_for_connection 3 example_pending) = Waiting"
proof -
  have ok: "correlations_ok example_pending"
    by (simp add: correlations_ok_def example_pending_def new_node_def table_futures_def
        example_config_def)
  from lost_connection_fails_its_own [OF ok, of 3] ok show ?thesis
    by (simp add: Let_def) (simp add: example_pending_def new_node_def of_connection_def future_state_def)
qed

end
