(* ===== verification/Outbound.thy ===== *)
theory Outbound
  imports Correlations
begin

text \<open>
  The writer of a session in \<open>src/paqto/core/node.py\<close>: \<open>_ensure_outbound_channel\<close>,
  \<open>_queue_frame\<close>, \<open>_outbound_worker\<close> and the functions that fail queued frames. A channel
  object outlives its entry in \<open>_outbound_channels\<close>, because its worker and the callers blocked
  on its full queue hold it: \<open>channel_store\<close> keeps every channel, the dictionary its index.

  The worker is cut at its awaits: \<open>worker_take\<close> is the end of \<open>queue.get()\<close>, \<open>worker_sent\<close>,
  \<open>worker_failed\<close> and \<open>worker_cancelled\<close> the ends of \<open>send_frame\<close>, \<open>worker_end\<close> the
  \<open>finally\<close> clause.

  The lemmas: the queue never exceeds its limit, frames leave in the order they entered, a worker
  that ends leaves no frame of its queue unresolved; and the exception to that, a caller that was
  blocked on the full queue of a worker that ended, whatever the other tasks (\<open>writers_step\<close>) do.
\<close>

definition empty_channel :: "nat \<Rightarrow> channel" where
  "empty_channel t = \<lparr>ch_queue = [], ch_task = t, ch_current = None\<rparr>"

definition channel_of :: "nat \<Rightarrow> node \<Rightarrow> channel" where
  "channel_of k n = (if k < length (channel_store n) then channel_store n ! k else empty_channel 0)"

definition set_channel :: "nat \<Rightarrow> channel \<Rightarrow> node \<Rightarrow> node" where
  "set_channel k ch n = n\<lparr>channel_store := (channel_store n)[k := ch]\<rparr>"

definition ensure_outbound_channel :: "conn \<Rightarrow> unit node_act" where
  "ensure_outbound_channel c = reads (\<lambda>n.
     if (case map_of (outbound_channels n) c of
           Some k \<Rightarrow> \<not> task_done n (ch_task (channel_of k n)) | None \<Rightarrow> False)
     then ret ()
     else seq create_task (\<lambda>t.
       update (\<lambda>n. n\<lparr>outbound_channels := dput c (length (channel_store n)) (outbound_channels n),
                     channel_store := channel_store n @ [empty_channel t]\<rparr>)))"

section \<open>Queueing a frame\<close>

text \<open>
  The caller awaits the future of a queued frame; on a full queue with the policy \<open>WAIT\<close> it
  first waits for room, and \<open>put_waiting\<close> is what it does when it is woken.
\<close>

datatype queue_answer = QueuedFrame nat | AwaitRoom nat outbound_frame

definition queue_full :: "node \<Rightarrow> nat \<Rightarrow> bool" where
  "queue_full n k \<longleftrightarrow> max_outbound_queue (cfg n) \<le> int (length (ch_queue (channel_of k n)))"

definition put_frame :: "nat \<Rightarrow> outbound_frame \<Rightarrow> node \<Rightarrow> node" where
  "put_frame k fr n = (let ch = channel_of k n in set_channel k (ch\<lparr>ch_queue := ch_queue ch @ [fr]\<rparr>) n)"

definition queue_frame :: "world \<Rightarrow> conn \<Rightarrow> bytes \<Rightarrow> queue_answer node_act" where
  "queue_frame w c data = reads (\<lambda>n.
     case map_of (outbound_channels n) c of
       None \<Rightarrow> raise ConnectionClosedError
     | Some k \<Rightarrow>
         if task_done n (ch_task (channel_of k n)) \<or> c \<in> closed_conns w then raise ConnectionClosedError
         else seq new_future (\<lambda>f.
           let fr = \<lparr>fr_data = data, fr_future = f\<rparr> in
           if \<not> queue_full n k then seq (update (put_frame k fr)) (\<lambda>_. ret (QueuedFrame f))
           else (case outbound_backpressure (cfg n) of
                   WAIT \<Rightarrow> ret (AwaitRoom k fr)
                 | REJECT \<Rightarrow> seq (report_resource_limit None (Some c)) (\<lambda>_. raise ResourceLimitError))))"

definition put_waiting :: "nat \<Rightarrow> outbound_frame \<Rightarrow> queue_answer node_act" where
  "put_waiting k fr = reads (\<lambda>n.
     if queue_full n k then ret (AwaitRoom k fr)
     else seq (update (put_frame k fr)) (\<lambda>_. ret (QueuedFrame (fr_future fr))))"

text \<open>The \<open>finally\<close> clause around \<open>await future\<close>.\<close>

definition abandon_frame :: "nat \<Rightarrow> node \<Rightarrow> node" where
  "abandon_frame f = complete_future f FutureCancelled"

section \<open>The worker\<close>

definition worker_continues :: "world \<Rightarrow> conn \<Rightarrow> node \<Rightarrow> bool" where
  "worker_continues w c n \<longleftrightarrow> running n \<and> c \<notin> closed_conns w"

definition worker_take :: "nat \<Rightarrow> node \<Rightarrow> (bytes \<times> node) option" where
  "worker_take k n =
     (let ch = channel_of k n in
      case ch_queue ch of
        [] \<Rightarrow> None
      | fr # q \<Rightarrow> Some (fr_data fr, set_channel k (ch\<lparr>ch_queue := q, ch_current := Some fr\<rparr>) n))"

definition finish_current :: "nat \<Rightarrow> fut \<Rightarrow> node \<Rightarrow> node" where
  "finish_current k v n =
     (let ch = channel_of k n;
          n' = (case ch_current ch of None \<Rightarrow> n | Some fr \<Rightarrow> complete_future (fr_future fr) v n)
      in set_channel k (ch\<lparr>ch_current := None\<rparr>) n')"

definition worker_sent :: "nat \<Rightarrow> node \<Rightarrow> node" where
  "worker_sent k = finish_current k (Resolved None)"

definition fail_frames :: "exn \<Rightarrow> outbound_frame list \<Rightarrow> node \<Rightarrow> node" where
  "fail_frames e = fold (\<lambda>fr. set_future_error (fr_future fr) e)"

definition fail_outbound_queue :: "nat \<Rightarrow> exn \<Rightarrow> node \<Rightarrow> node" where
  "fail_outbound_queue k e n =
     (let ch = channel_of k n in
      fail_frames e (ch_queue ch) (set_channel k (ch\<lparr>ch_queue := []\<rparr>) n))"

definition worker_end :: "nat \<Rightarrow> node \<Rightarrow> node" where
  "worker_end k n =
     (let n' = finish_current k (FutureError ConnectionClosedError) n in
      (fail_outbound_queue k ConnectionClosedError n')
        \<lparr>finished := insert (ch_task (channel_of k n)) (finished n)\<rparr>)"

text \<open>
  \<open>send_frame\<close> raised: the frame carries the exception, the connection is closed (by the
  caller of this model), the worker ends. A cancelled write fails the frame and ends the worker.
\<close>

definition worker_failed :: "nat \<Rightarrow> exn \<Rightarrow> node \<Rightarrow> node" where
  "worker_failed k e n = finish_current k (FutureError e) n"

definition worker_cancelled :: "nat \<Rightarrow> node \<Rightarrow> node" where
  "worker_cancelled k n = finish_current k (FutureError ConnectionClosedError) n"

text \<open>The callback \<open>_outbound_finished\<close>.\<close>

definition outbound_finished :: "conn \<Rightarrow> nat \<Rightarrow> node \<Rightarrow> node" where
  "outbound_finished c t n =
     (case map_of (outbound_channels n) c of
        Some k \<Rightarrow> if ch_task (channel_of k n) = t
                  then n\<lparr>outbound_channels := dpop c (outbound_channels n)\<rparr> else n
      | None \<Rightarrow> n)"

text \<open>
  \<open>_close_outbound_channel\<close> up to the await of the cancelled worker, and after it. The second
  part is reached with the index of the channel the first part removed.
\<close>

definition close_channel_begin :: "conn \<Rightarrow> node \<Rightarrow> nat option \<times> node" where
  "close_channel_begin c n =
     (map_of (outbound_channels n) c, n\<lparr>outbound_channels := dpop c (outbound_channels n)\<rparr>)"

definition close_channel_end :: "nat \<Rightarrow> node \<Rightarrow> node" where
  "close_channel_end k = fail_outbound_queue k ConnectionClosedError"

definition fail_all_outbound :: "exn \<Rightarrow> node \<Rightarrow> node" where
  "fail_all_outbound e n =
     fold (\<lambda>(c, k) n. fail_outbound_queue k e
             (case ch_current (channel_of k n) of
                Some fr \<Rightarrow> set_future_error (fr_future fr) e n | None \<Rightarrow> n))
       (outbound_channels n) n"

definition outbound_queue_size :: "node \<Rightarrow> nat" where
  "outbound_queue_size n = sum_list (List.map (\<lambda>(c, k). length (ch_queue (channel_of k n))) (outbound_channels n))"

section \<open>Channels\<close>

lemma channel_of_set [simp]:
  "k < length (channel_store n) \<Longrightarrow> channel_of j (set_channel k ch n) = (if j = k then ch else channel_of j n)"
  by (auto simp: channel_of_def set_channel_def)

lemma set_channel_other [simp]:
  "futures (set_channel k ch n) = futures n" "cfg (set_channel k ch n) = cfg n"
  "outbound_channels (set_channel k ch n) = outbound_channels n"
  "finished (set_channel k ch n) = finished n" "running (set_channel k ch n) = running n"
  "length (channel_store (set_channel k ch n)) = length (channel_store n)"
  "future_state f (set_channel k ch n) = future_state f n"
  by (simp_all add: set_channel_def future_state_def)

lemma complete_future_channels [simp]:
  "channel_store (complete_future f v n) = channel_store n"
  "channel_of k (complete_future f v n) = channel_of k n"
  "outbound_channels (complete_future f v n) = outbound_channels n"
  "finished (complete_future f v n) = finished n"
  by (simp_all add: complete_future_def channel_of_def)

lemma fail_frames_other [simp]:
  "channel_store (fail_frames e frs n) = channel_store n"
  "channel_of k (fail_frames e frs n) = channel_of k n"
  "outbound_channels (fail_frames e frs n) = outbound_channels n"
  "finished (fail_frames e frs n) = finished n" "cfg (fail_frames e frs n) = cfg n"
  "length (futures (fail_frames e frs n)) = length (futures n)"
  by (induction frs arbitrary: n) (auto simp: fail_frames_def set_future_error_def)

lemma fail_frames_state:
  "future_state g (fail_frames e frs n) =
    (if future_state g n = Waiting \<and> g \<in> fr_future ` set frs then FutureError e else future_state g n)"
  by (induction frs arbitrary: n) (auto simp: fail_frames_def set_future_error_def complete_future_state)

section \<open>Bounds\<close>

definition outbound_ok :: "node \<Rightarrow> bool" where
  "outbound_ok n \<longleftrightarrow>
     (\<forall>k < length (channel_store n).
        int (length (ch_queue (channel_store n ! k))) \<le> max 0 (max_outbound_queue (cfg n)))
     \<and> (\<forall>c k. map_of (outbound_channels n) c = Some k \<longrightarrow> k < length (channel_store n))"

lemma outbound_set:
  assumes "outbound_ok n" "int (length (ch_queue ch)) \<le> max 0 (max_outbound_queue (cfg n))"
  shows "outbound_ok (set_channel k ch n)"
  using assms
  by (cases "k < length (channel_store n)") (auto simp: outbound_ok_def set_channel_def nth_list_update)

lemma outbound_channel:
  assumes "outbound_ok n"
  shows "int (length (ch_queue (channel_of k n))) \<le> max 0 (max_outbound_queue (cfg n))"
  using assms by (auto simp: outbound_ok_def channel_of_def empty_channel_def)

lemma outbound_cong:
  assumes "outbound_ok n" "channel_store m = channel_store n" "cfg m = cfg n"
    and "\<And>c k. map_of (outbound_channels m) c = Some k \<Longrightarrow> k < length (channel_store n)"
  shows "outbound_ok m"
  using assms by (simp add: outbound_ok_def)

lemma outbound_complete [simp]: "outbound_ok (complete_future f v n) = outbound_ok n"
  by (simp add: outbound_ok_def)

lemma outbound_fail_frames [simp]: "outbound_ok (fail_frames e frs n) = outbound_ok n"
  by (simp add: outbound_ok_def)

lemma outbound_put:
  assumes "outbound_ok n" "\<not> queue_full n k" shows "outbound_ok (put_frame k fr n)"
  unfolding put_frame_def Let_def using assms
  by (intro outbound_set) (auto simp: queue_full_def)

lemma outbound_finish_current: "outbound_ok n \<Longrightarrow> outbound_ok (finish_current k v n)"
  unfolding finish_current_def Let_def
  using outbound_channel [of n k] by (intro outbound_set) (auto split: option.splits)

lemma outbound_fail_queue: "outbound_ok n \<Longrightarrow> outbound_ok (fail_outbound_queue k e n)"
  by (auto simp: fail_outbound_queue_def Let_def intro: outbound_set)

lemma outbound_worker:
  assumes "outbound_ok n"
  shows "outbound_ok (worker_sent k n)" "outbound_ok (worker_failed k e n)"
    "outbound_ok (worker_cancelled k n)" "outbound_ok (close_channel_end k n)"
    "outbound_ok (snd (close_channel_begin c n))" "outbound_ok (outbound_finished c t n)"
    "outbound_ok (worker_end k n)"
    and "worker_take k n = Some (d, n') \<Longrightarrow> outbound_ok n'"
proof -
  show "outbound_ok (worker_sent k n)" "outbound_ok (worker_failed k e n)"
    "outbound_ok (worker_cancelled k n)" "outbound_ok (close_channel_end k n)"
    using assms by (simp_all add: worker_sent_def worker_failed_def worker_cancelled_def
        close_channel_end_def outbound_finish_current outbound_fail_queue)
  show "outbound_ok (snd (close_channel_begin c n))" "outbound_ok (outbound_finished c t n)"
    using assms by (auto simp: close_channel_begin_def outbound_finished_def outbound_ok_def
        split: option.splits if_split_asm)
  have "outbound_ok (fail_outbound_queue k ConnectionClosedError
      (finish_current k (FutureError ConnectionClosedError) n))" (is "outbound_ok ?m")
    using assms by (intro outbound_fail_queue outbound_finish_current)
  then show "outbound_ok (worker_end k n)"
    by (simp add: worker_end_def Let_def outbound_ok_def)
  show "outbound_ok n'" if "worker_take k n = Some (d, n')"
    using that assms outbound_channel [OF assms, of k]
    by (auto simp: worker_take_def Let_def split: list.splits intro!: outbound_set)
qed

lemma outbound_events [simp]: "outbound_ok (n\<lparr>event_queue := q\<rparr>) = outbound_ok n"
  by (simp add: outbound_ok_def)

lemma outbound_emit [keeps_rules]: "keeps outbound_ok (emit_event t pid c err md)"
  unfolding keeps_def using emit_event_only [of t pid c err md] by (metis outbound_events)

lemma channel_of_futures [simp]: "channel_of k (n\<lparr>futures := fs\<rparr>) = channel_of k n"
  by (simp add: channel_of_def)

lemma outbound_futures [simp]: "outbound_ok (n\<lparr>futures := fs\<rparr>) = outbound_ok n"
  by (simp add: outbound_ok_def)

lemma outbound_queue_frame: "keeps outbound_ok (queue_frame w c data)"
proof -
  have report: "outbound_ok n \<Longrightarrow> outbound_ok (snd (seq (report_resource_limit x y) (\<lambda>_. raise e) n))"
    for n x y and e :: exn
    using keeps_snd [OF keeps_seq [OF outbound_emit keeps_atoms(2)]]
    by (auto simp: report_resource_limit_def)
  have put: "outbound_ok n \<Longrightarrow> \<not> queue_full n k \<Longrightarrow> outbound_ok (put_frame k fr (n\<lparr>futures := fs\<rparr>))"
    for n k fr fs by (rule outbound_put) (auto simp: queue_full_def)
  show ?thesis
    by (auto simp: keeps_def queue_frame_def new_future_def seq_def [of new_future] Let_def put report
        split: option.splits backpressure.splits)
qed

lemma outbound_put_waiting: "keeps outbound_ok (put_waiting k fr)"
  by (auto simp: keeps_def put_waiting_def intro: outbound_put)

lemma outbound_ensure: "keeps outbound_ok (ensure_outbound_channel c)"
  by (auto simp: keeps_def ensure_outbound_channel_def create_task_def seq_def [of create_task]
      outbound_ok_def nth_append empty_channel_def less_Suc_eq split: option.splits if_split_asm)

section \<open>Order and completion\<close>

text \<open>What is queued behind a channel, the frame being written first.\<close>

definition backlog :: "nat \<Rightarrow> node \<Rightarrow> outbound_frame list" where
  "backlog k n = (case ch_current (channel_of k n) of None \<Rightarrow> [] | Some fr \<Rightarrow> [fr]) @ ch_queue (channel_of k n)"

lemma put_frame_backlog:
  "k < length (channel_store n) \<Longrightarrow> backlog k (put_frame k fr n) = backlog k n @ [fr]"
  by (simp add: backlog_def put_frame_def Let_def split: option.splits)

lemma worker_take_backlog:
  assumes "k < length (channel_store n)" "ch_current (channel_of k n) = None"
    and "worker_take k n = Some (d, n')"
  shows "backlog k n' = backlog k n \<and> d = fr_data (hd (backlog k n))
    \<and> ch_current (channel_of k n') = Some (hd (backlog k n))"
  using assms by (auto simp: backlog_def worker_take_def Let_def split: list.splits)

lemma worker_sent_backlog:
  assumes "k < length (channel_store n)" "ch_current (channel_of k n) = Some fr"
  shows "backlog k (worker_sent k n) = tl (backlog k n)"
    and "future_state (fr_future fr) n = Waiting \<Longrightarrow>
      future_state (fr_future fr) (worker_sent k n) = Resolved None"
  using assms by (simp_all add: backlog_def worker_sent_def finish_current_def Let_def complete_future_state)

lemma worker_end_backlog:
  assumes "k < length (channel_store n)"
  shows "backlog k (worker_end k n) = []"
    and "fr \<in> set (backlog k n) \<Longrightarrow> future_state (fr_future fr) (worker_end k n) \<noteq> Waiting"
proof -
  let ?n' = "finish_current k (FutureError ConnectionClosedError) n"
  let ?m = "fail_outbound_queue k ConnectionClosedError ?n'"
  have m: "channel_of k (worker_end k n) = channel_of k ?m"
    "future_state f (worker_end k n) = future_state f ?m" for f
    by (simp_all add: worker_end_def Let_def channel_of_def future_state_def)
  have len: "length (channel_store ?n') = length (channel_store n)"
    by (simp add: finish_current_def Let_def split: option.splits)
  show "backlog k (worker_end k n) = []"
    using assms len
    by (simp add: backlog_def m fail_outbound_queue_def Let_def) (simp add: finish_current_def Let_def)
  assume "fr \<in> set (backlog k n)"
  then show "future_state (fr_future fr) (worker_end k n) \<noteq> Waiting"
    using assms len
    by (auto simp: backlog_def m fail_outbound_queue_def Let_def fail_frames_state finish_current_def
        complete_future_state split: option.splits)
qed

section \<open>A caller blocked on the queue of a worker that ends\<close>

text \<open>
  Emptying the queue wakes the caller, which then puts its frame into the queue nobody reads.
\<close>

lemma worker_end_simps:
  assumes "k < length (channel_store n)"
  shows "ch_queue (channel_of k (worker_end k n)) = []" "ch_current (channel_of k (worker_end k n)) = None"
    "ch_task (channel_of k (worker_end k n)) = ch_task (channel_of k n)"
    "outbound_channels (worker_end k n) = outbound_channels n" "cfg (worker_end k n) = cfg n"
    "length (channel_store (worker_end k n)) = length (channel_store n)"
proof -
  have fin: "channel_of k (x\<lparr>finished := s\<rparr>) = channel_of k x" for x :: node and s
    by (simp add: channel_of_def)
  have len: "length (channel_store (finish_current k v n)) = length (channel_store n)" for v
    by (simp add: finish_current_def Let_def split: option.splits)
  show "ch_queue (channel_of k (worker_end k n)) = []" "ch_current (channel_of k (worker_end k n)) = None"
    "ch_task (channel_of k (worker_end k n)) = ch_task (channel_of k n)"
    using assms len
    by (simp_all add: worker_end_def Let_def fin fail_outbound_queue_def)
      (simp_all add: finish_current_def Let_def split: option.splits)
  show "outbound_channels (worker_end k n) = outbound_channels n" "cfg (worker_end k n) = cfg n"
    "length (channel_store (worker_end k n)) = length (channel_store n)"
    by (simp_all add: worker_end_def Let_def fail_outbound_queue_def finish_current_def split: option.splits)
qed

lemma outbound_finished_simps [simp]:
  "channel_of k (outbound_finished c t n) = channel_of k n" "cfg (outbound_finished c t n) = cfg n"
  "channel_store (outbound_finished c t n) = channel_store n"
  "future_state f (outbound_finished c t n) = future_state f n"
  by (auto simp: outbound_finished_def channel_of_def future_state_def split: option.splits)

text \<open>
  What the tasks of a node do to its writers, apart from the caller that waits with the future
  \<open>f\<close>: other callers, which have futures of their own; the workers of channels that have not
  ended, and the callbacks of those that have; the functions that close one channel or all of
  them; and any other code, which leaves the channels and the future alone. The second component
  of the state holds the channels whose closing has begun and not finished: only a function that
  removed a channel from the table empties its queue.
\<close>

inductive writers_step :: "nat \<Rightarrow> node \<times> nat set \<Rightarrow> node \<times> nat set \<Rightarrow> bool" for f :: nat where
  ensured: "writers_step f (n, cl) (snd (ensure_outbound_channel c n), cl)"
| queued: "writers_step f (n, cl) (snd (queue_frame w c data n), cl)"
| woken: "fr_future g \<noteq> f \<Longrightarrow> writers_step f (n, cl) (snd (put_waiting j g n), cl)"
| abandoned: "i \<noteq> f \<Longrightarrow> writers_step f (n, cl) (abandon_frame i n, cl)"
| taken: "ch_task (channel_of j n) \<notin> finished n \<Longrightarrow> worker_take j n = Some (d, m) \<Longrightarrow>
    writers_step f (n, cl) (m, cl)"
| written: "ch_task (channel_of j n) \<notin> finished n \<Longrightarrow> writers_step f (n, cl) (worker_sent j n, cl)"
| raised: "ch_task (channel_of j n) \<notin> finished n \<Longrightarrow> writers_step f (n, cl) (worker_failed j e n, cl)"
| cancelled: "ch_task (channel_of j n) \<notin> finished n \<Longrightarrow> writers_step f (n, cl) (worker_cancelled j n, cl)"
| ended: "ch_task (channel_of j n) \<notin> finished n \<Longrightarrow> writers_step f (n, cl) (worker_end j n, cl)"
| called_back: "writers_step f (n, cl) (outbound_finished c t n, cl)"
| closing: "close_channel_begin c n = (found, m) \<Longrightarrow>
    writers_step f (n, cl) (m, cl \<union> set_option found)"
| closed: "j \<in> cl \<Longrightarrow> writers_step f (n, cl) (close_channel_end j n, cl - {j})"
| all_failed: "writers_step f (n, cl) (fail_all_outbound e n, cl)"
| table_cleared: "writers_step f (n, cl) (n\<lparr>outbound_channels := []\<rparr>, cl)"
| elsewhere: "channel_store m = channel_store n \<Longrightarrow> outbound_channels m = outbound_channels n \<Longrightarrow>
    cfg m = cfg n \<Longrightarrow> future_state f m = future_state f n \<Longrightarrow> finished n \<subseteq> finished m \<Longrightarrow>
    writers_step f (n, cl) (m, cl)"

text \<open>
  A channel whose worker is gone, which nobody can reach to empty it, and the future of a caller
  that no other channel knows of.
\<close>

definition stranded :: "nat \<Rightarrow> nat \<Rightarrow> node \<times> nat set \<Rightarrow> bool" where
  "stranded k f = (\<lambda>(n, cl).
     k < length (channel_store n) \<and> ch_task (channel_of k n) \<in> finished n
     \<and> future_state f n = Waiting \<and> k \<notin> snd ` set (outbound_channels n) \<and> k \<notin> cl
     \<and> (\<forall>j. j \<noteq> k \<longrightarrow> f \<notin> fr_future ` set (backlog j n)))"

lemma channel_of_set_cases:
  "channel_of j (set_channel i ch n) = (if j = i \<and> i < length (channel_store n) then ch else channel_of j n)"
  by (auto simp: channel_of_def set_channel_def)

lemma backlog_cong: "channel_of j m = channel_of j n \<Longrightarrow> backlog j m = backlog j n"
  by (simp add: backlog_def)

lemma not_in_backlog:
  "f \<notin> fr_future ` set (backlog j n) \<longleftrightarrow>
     f \<notin> fr_future ` set (ch_queue (channel_of j n))
     \<and> (\<forall>g. ch_current (channel_of j n) = Some g \<longrightarrow> fr_future g \<noteq> f)"
  by (cases "ch_current (channel_of j n)") (auto simp: backlog_def)

text \<open>Rewriting another channel, or adding a frame to the queue of the channel itself.\<close>

lemma stranded_set:
  assumes "stranded k f (n, cl)" "f \<notin> fr_future ` set (ch_queue ch)"
    and "\<forall>g. ch_current ch = Some g \<longrightarrow> fr_future g \<noteq> f" "i \<noteq> k"
  shows "stranded k f (set_channel i ch n, cl)"
  using assms
  by (simp add: stranded_def not_in_backlog channel_of_set_cases)

lemma stranded_other:
  assumes "stranded k f (n, cl)" "i \<noteq> k"
  shows "f \<notin> fr_future ` set (ch_queue (channel_of i n))"
    and "\<forall>g. ch_current (channel_of i n) = Some g \<longrightarrow> fr_future g \<noteq> f"
  using assms by (simp_all add: stranded_def not_in_backlog)

lemma stranded_cong:
  assumes "stranded k f (n, cl)" "channel_store m = channel_store n"
    and "k \<notin> snd ` set (outbound_channels m)" "future_state f m = Waiting" "finished n \<subseteq> finished m"
    and "k \<notin> cl'"
  shows "stranded k f (m, cl')"
  using assms by (auto simp: stranded_def channel_of_def not_in_backlog)

lemma stranded_complete:
  assumes "stranded k f (n, cl)" "i \<noteq> f" shows "stranded k f (complete_future i v n, cl)"
  using assms by (intro stranded_cong [OF assms(1)]) (auto simp: stranded_def complete_future_state)

lemma stranded_put:
  assumes "stranded k f (n, cl)" "i = k \<or> fr_future g \<noteq> f" shows "stranded k f (put_frame i g n, cl)"
proof (cases "i = k")
  case True
  with assms(1) show ?thesis
    by (simp add: stranded_def put_frame_def Let_def not_in_backlog channel_of_set_cases)
next
  case False
  with assms show ?thesis
    unfolding put_frame_def Let_def using stranded_other [OF assms(1) False]
    by (intro stranded_set) auto
qed

lemma put_frame_queue:
  "ch_queue (channel_of k (put_frame i g n)) =
     ch_queue (channel_of k n) @ (if i = k \<and> k < length (channel_store n) then [g] else [])"
  by (auto simp: put_frame_def Let_def channel_of_set_cases)

text \<open>What a task of another channel does leaves the channel as it is.\<close>

lemma other_channel:
  assumes "i \<noteq> k"
  shows "channel_of k (finish_current i v n) = channel_of k n"
    "channel_of k (fail_outbound_queue i e n) = channel_of k n"
    "channel_of k (worker_end i n) = channel_of k n"
    "worker_take i n = Some (d, m) \<Longrightarrow> channel_of k m = channel_of k n"
proof -
  have fin: "channel_of k (finish_current i v n) = channel_of k n" for n v
    using assms by (auto simp: finish_current_def Let_def channel_of_set_cases split: option.splits)
  have fail: "channel_of k (fail_outbound_queue i e n) = channel_of k n" for n e
    using assms by (auto simp: fail_outbound_queue_def Let_def channel_of_set_cases)
  have finished: "channel_of k (x\<lparr>finished := t\<rparr>) = channel_of k x" for x :: node and t
    by (simp add: channel_of_def)
  show "channel_of k (finish_current i v n) = channel_of k n"
    "channel_of k (fail_outbound_queue i e n) = channel_of k n" by (rule fin fail)+
  show "channel_of k (worker_end i n) = channel_of k n"
    using fin fail [of ConnectionClosedError] by (simp add: worker_end_def Let_def finished)
  show "worker_take i n = Some (d, m) \<Longrightarrow> channel_of k m = channel_of k n"
    using assms by (auto simp: worker_take_def Let_def channel_of_set_cases split: list.splits)
qed

lemma stranded_finish_current:
  assumes "stranded k f (n, cl)" "i \<noteq> k" shows "stranded k f (finish_current i v n, cl)"
proof -
  note o = stranded_other [OF assms]
  show ?thesis
  proof (cases "ch_current (channel_of i n)")
    case None
    with assms o show ?thesis by (auto simp: finish_current_def Let_def intro: stranded_set)
  next
    case (Some g)
    with o have "stranded k f (complete_future (fr_future g) v n, cl)"
      by (intro stranded_complete [OF assms(1)]) simp
    then show ?thesis using assms(2) o Some by (auto simp: finish_current_def Let_def intro!: stranded_set)
  qed
qed

lemma stranded_fail_queue:
  assumes "stranded k f (n, cl)" "i \<noteq> k" shows "stranded k f (fail_outbound_queue i e n, cl)"
proof -
  note o = stranded_other [OF assms]
  let ?n = "set_channel i (channel_of i n\<lparr>ch_queue := []\<rparr>) n"
  have s: "stranded k f (?n, cl)" using assms o by (intro stranded_set) auto
  show ?thesis
    unfolding fail_outbound_queue_def Let_def
    by (rule stranded_cong [OF s]) (use s o in \<open>auto simp: stranded_def fail_frames_state image_iff\<close>)
qed

lemma stranded_fail_all:
  assumes "stranded k f (n, cl)"
  shows "stranded k f (fail_all_outbound e n, cl) \<and> channel_of k (fail_all_outbound e n) = channel_of k n"
proof -
  have each: "stranded k f (fold (\<lambda>(c, i) n. fail_outbound_queue i e
      (case ch_current (channel_of i n) of Some g \<Rightarrow> set_future_error (fr_future g) e n | None \<Rightarrow> n)) t n, cl)
    \<and> channel_of k (fold (\<lambda>(c, i) n. fail_outbound_queue i e
      (case ch_current (channel_of i n) of Some g \<Rightarrow> set_future_error (fr_future g) e n | None \<Rightarrow> n)) t n)
      = channel_of k n"
    if "k \<notin> snd ` set t" "stranded k f (n, cl)" for t and n :: node
    using that
  proof (induction t arbitrary: n)
    case (Cons x t)
    obtain c i where x: "x = (c, i)" by (cases x)
    let ?n = "case ch_current (channel_of i n) of Some g \<Rightarrow> set_future_error (fr_future g) e n | None \<Rightarrow> n"
    have i: "i \<noteq> k" using Cons.prems(1) x by auto
    have s: "stranded k f (?n, cl)"
      using Cons.prems(2) stranded_other(2) [OF Cons.prems(2) i]
      by (auto simp: set_future_error_def stranded_complete split: option.splits)
    have q: "channel_of k ?n = channel_of k n"
      by (simp add: set_future_error_def split: option.splits)
    show ?case
      using Cons.IH [OF _ stranded_fail_queue [OF s i]] Cons.prems(1) q other_channel(2) [OF i]
      by (simp add: x)
  qed simp
  have "k \<notin> snd ` set (outbound_channels n)" using assms by (simp add: stranded_def)
  from each [OF this assms] show ?thesis unfolding fail_all_outbound_def .
qed

lemma finished_insert_simps:
  "channel_store (n\<lparr>finished := t\<rparr>) = channel_store n"
  "outbound_channels (n\<lparr>finished := t\<rparr>) = outbound_channels n"
  "future_state f (n\<lparr>finished := t\<rparr>) = future_state f n"
  by (simp_all add: future_state_def)

lemma stranded_worker_end:
  assumes "stranded k f (n, cl)" "i \<noteq> k" shows "stranded k f (worker_end i n, cl)"
proof -
  let ?n = "fail_outbound_queue i ConnectionClosedError (finish_current i (FutureError ConnectionClosedError) n)"
  have s: "stranded k f (?n, cl)" using assms by (intro stranded_fail_queue stranded_finish_current)
  have "finished ?n = finished n"
    by (simp add: fail_outbound_queue_def finish_current_def Let_def split: option.splits)
  with s show ?thesis
    unfolding worker_end_def Let_def
    by (intro stranded_cong [OF s]) (auto simp: stranded_def finished_insert_simps)
qed

lemma snd_set_dput: "snd ` set (dput k v d) \<subseteq> insert v (snd ` set d)"
  by (induction k v d rule: dput.induct) auto

lemma stranded_ensure:
  assumes "stranded k f (n, cl)"
  shows "stranded k f (snd (ensure_outbound_channel c n), cl)
    \<and> channel_of k (snd (ensure_outbound_channel c n)) = channel_of k n"
proof -
  let ?n = "\<lambda>t u. n\<lparr>next_task := u, outbound_channels := dput c (length (channel_store n))
      (outbound_channels n), channel_store := channel_store n @ [empty_channel t]\<rparr>"
  have ch: "channel_of j (?n t u) = (if j = length (channel_store n) then empty_channel t else channel_of j n)" for j t u
    by (auto simp: channel_of_def nth_append)
  have k: "k < length (channel_store n)" using assms by (simp add: stranded_def)
  have "stranded k f (?n t u, cl)" for t u
    using assms k snd_set_dput [of c "length (channel_store n)" "outbound_channels n"]
    unfolding stranded_def prod.case not_in_backlog ch
    by (auto simp: empty_channel_def future_state_def)
  then show ?thesis
    using assms k ch by (auto simp: ensure_outbound_channel_def create_task_def seq_def [of create_task])
qed

lemma stranded_queue_frame:
  assumes "stranded k f (n, cl)"
  shows "stranded k f (snd (queue_frame w c data n), cl)
    \<and> channel_of k (snd (queue_frame w c data n)) = channel_of k n"
proof -
  let ?n = "n\<lparr>futures := futures n @ [Waiting]\<rparr>"
  have f: "f < length (futures n)" "futures n ! f = Waiting"
    using assms by (auto simp: stranded_def future_state_def split: if_split_asm)
  then have waits: "future_state f ?n = Waiting" by (simp add: future_state_def nth_append)
  have s: "stranded k f (?n, cl)"
    by (rule stranded_cong [OF assms]) (use assms waits in \<open>auto simp: stranded_def\<close>)
  let ?report = "\<lambda>x y e. snd (seq (report_resource_limit x y) (\<lambda>_. raise e :: queue_answer node_act) ?n)"
  have events: "stranded k f (?report x y e, cl) \<and> channel_of k (?report x y e) = channel_of k n" for x y e
  proof -
    obtain q where q: "snd (report_resource_limit x y ?n) = ?n\<lparr>event_queue := q\<rparr>"
      using emit_event_only unfolding report_resource_limit_def by blast
    have "?report x y e = ?n\<lparr>event_queue := q\<rparr>"
      using q by (cases "report_resource_limit x y ?n") (auto simp: seq_def split: sum.splits)
    moreover have "stranded k f (?n\<lparr>event_queue := q\<rparr>, cl)"
      by (rule stranded_cong [OF s]) (use s in \<open>auto simp: stranded_def future_state_def\<close>)
    moreover have "channel_of k (?n\<lparr>event_queue := q\<rparr>) = channel_of k n" by (simp add: channel_of_def)
    ultimately show ?thesis by (simp only: simp_thms)
  qed
  have puts: "stranded k f (put_frame i \<lparr>fr_data = data, fr_future = length (futures n)\<rparr> ?n, cl)
      \<and> channel_of k (put_frame i \<lparr>fr_data = data, fr_future = length (futures n)\<rparr> ?n) = channel_of k n"
    if "map_of (outbound_channels n) c = Some i" for i
  proof -
    have "i \<noteq> k" using assms map_of_SomeD [OF that] by (force simp: stranded_def)
    then show ?thesis
      using stranded_put [OF s] f(1) by (auto simp: put_frame_def Let_def channel_of_set_cases)
  qed
  show ?thesis
    using assms s puts events
    by (auto simp: queue_frame_def new_future_def seq_def [of new_future] Let_def
        split: option.splits backpressure.splits)
qed

lemma stranded_step:
  assumes "writers_step f s t" "stranded k f s"
  shows "stranded k f t \<and> (\<exists>q. ch_queue (channel_of k (fst t)) = ch_queue (channel_of k (fst s)) @ q)"
  using assms
proof (induction rule: writers_step.induct)
  case (ensured n cl c) then show ?case using stranded_ensure by simp
next
  case (queued n cl w c data) then show ?case using stranded_queue_frame by simp
next
  case (woken g j n cl)
  then show ?case
    by (auto simp: put_waiting_def put_frame_queue intro: stranded_put)
next
  case (abandoned i n cl)
  then show ?case using stranded_complete by (simp add: abandon_frame_def)
next
  case (taken j n d m cl)
  then have j: "j \<noteq> k" by (auto simp: stranded_def)
  obtain g q where q: "ch_queue (channel_of j n) = g # q"
    "m = set_channel j (channel_of j n\<lparr>ch_queue := q, ch_current := Some g\<rparr>) n"
    using taken(2) by (auto simp: worker_take_def Let_def split: list.splits)
  have "stranded k f (m, cl)"
    unfolding q(2) using stranded_other [OF taken.prems j] q(1)
    by (intro stranded_set [OF taken.prems _ _ j]) auto
  then show ?case using other_channel(4) [OF j taken(2)] by simp
next
  case (written j n cl)
  then have j: "j \<noteq> k" by (auto simp: stranded_def)
  show ?case using stranded_finish_current [OF written.prems j] other_channel(1) [OF j]
    by (simp add: worker_sent_def)
next
  case (raised j n e cl)
  then have j: "j \<noteq> k" by (auto simp: stranded_def)
  show ?case using stranded_finish_current [OF raised.prems j] other_channel(1) [OF j]
    by (simp add: worker_failed_def)
next
  case (cancelled j n cl)
  then have j: "j \<noteq> k" by (auto simp: stranded_def)
  show ?case using stranded_finish_current [OF cancelled.prems j] other_channel(1) [OF j]
    by (simp add: worker_cancelled_def)
next
  case (ended j n cl)
  then have j: "j \<noteq> k" by (auto simp: stranded_def)
  show ?case using stranded_worker_end [OF ended.prems j] other_channel(3) [OF j] by simp
next
  case (called_back n cl c t)
  have "finished (outbound_finished c t n) = finished n"
    "set (outbound_channels (outbound_finished c t n)) \<subseteq> set (outbound_channels n)"
    by (auto simp: outbound_finished_def dpop_def split: option.splits)
  then have "stranded k f (outbound_finished c t n, cl)"
    using called_back by (intro stranded_cong [OF called_back]) (auto simp: stranded_def)
  then show ?case by simp
next
  case (closing c n found m cl)
  have m: "m = n\<lparr>outbound_channels := dpop c (outbound_channels n)\<rparr>" "found = map_of (outbound_channels n) c"
    using closing(1) by (simp_all add: close_channel_begin_def)
  have "k \<notin> set_option found"
    using closing.prems m(2) by (force simp: stranded_def dest!: map_of_SomeD)
  then have "stranded k f (m, cl \<union> set_option found)"
    using closing.prems
    by (intro stranded_cong [OF closing.prems]) (auto simp: m(1) stranded_def dpop_def future_state_def)
  then show ?case by (simp add: m(1) channel_of_def)
next
  case (closed j cl n)
  then have j: "j \<noteq> k" by (auto simp: stranded_def)
  have "stranded k f (close_channel_end j n, cl)"
    unfolding close_channel_end_def by (rule stranded_fail_queue [OF closed.prems j])
  then show ?case using other_channel(2) [OF j] by (simp add: stranded_def close_channel_end_def)
next
  case (all_failed n cl e) then show ?case using stranded_fail_all by simp
next
  case (table_cleared n cl)
  have "stranded k f (n\<lparr>outbound_channels := []\<rparr>, cl)"
    by (rule stranded_cong [OF table_cleared]) (use table_cleared in \<open>auto simp: stranded_def future_state_def\<close>)
  then show ?case by (simp add: channel_of_def)
next
  case (elsewhere m n cl)
  have "stranded k f (m, cl)"
    by (rule stranded_cong [OF elsewhere.prems]) (use elsewhere in \<open>auto simp: stranded_def\<close>)
  then show ?case using elsewhere by (simp add: channel_of_def)
qed

lemma stranded_steps:
  assumes "(writers_step f)\<^sup>*\<^sup>* s t" "stranded k f s"
  shows "stranded k f t" "set (ch_queue (channel_of k (fst s))) \<subseteq> set (ch_queue (channel_of k (fst t)))"
proof -
  have "stranded k f t \<and> set (ch_queue (channel_of k (fst s))) \<subseteq> set (ch_queue (channel_of k (fst t)))"
    using assms
  proof (induction rule: rtranclp_induct)
    case (step y z)
    then show ?case using stranded_step [OF step(2)] by fastforce
  qed simp
  then show "stranded k f t" "set (ch_queue (channel_of k (fst s))) \<subseteq> set (ch_queue (channel_of k (fst t)))"
    by blast+
qed

text \<open>The state the ending worker and the callback of its task leave behind.\<close>

lemma worker_end_stranded:
  assumes "k < length (channel_store n)" "map_of (outbound_channels n) c = Some k"
    and "\<forall>x. (x, k) \<in> set (outbound_channels n) \<longrightarrow> x = c"
    and "future_state f n = Waiting" "\<forall>j. f \<notin> fr_future ` set (backlog j n)" "k \<notin> cl"
  shows "stranded k f (outbound_finished c (ch_task (channel_of k n)) (worker_end k n), cl)"
proof -
  note e = worker_end_simps [OF assms(1)]
  have "future_state f (worker_end k n) = future_state f
      (fail_outbound_queue k ConnectionClosedError (finish_current k (FutureError ConnectionClosedError) n))"
    by (simp add: worker_end_def Let_def future_state_def)
  also have "\<dots> = Waiting"
    using assms(1,4) assms(5) [THEN spec [of _ k]]
    by (auto simp: not_in_backlog fail_outbound_queue_def Let_def fail_frames_state finish_current_def
        complete_future_state split: option.splits)
  finally have waits: "future_state f (worker_end k n) = Waiting" .
  have "ch_task (channel_of k n) \<in> finished (outbound_finished c (ch_task (channel_of k n)) (worker_end k n))"
    by (auto simp: outbound_finished_def worker_end_def Let_def split: option.splits)
  moreover have "outbound_channels (outbound_finished c (ch_task (channel_of k n)) (worker_end k n))
      = dpop c (outbound_channels n)"
    using assms(2) e by (simp add: outbound_finished_def)
  then have "k \<notin> snd ` set (outbound_channels (outbound_finished c (ch_task (channel_of k n)) (worker_end k n)))"
    using assms(3) by (auto simp: dpop_def)
  moreover have "f \<notin> fr_future ` set (backlog j (outbound_finished c (ch_task (channel_of k n)) (worker_end k n)))"
    if "j \<noteq> k" for j
    using assms(5) that other_channel(3) [of k j n] by (simp add: not_in_backlog)
  ultimately show ?thesis using assms(1,6) waits e by (simp add: stranded_def)
qed

section \<open>The channel as a queue\<close>

text \<open>
  What callers and the worker do to one channel: a caller puts a frame (only where there is
  room), the worker takes one and, once the transport has accepted it, reports it as sent. The
  outcome is the list of the frames the transport accepted.
\<close>

datatype channel_op = Put outbound_frame | Take | Sent

definition channel_step :: "nat \<Rightarrow> channel_op \<Rightarrow> node \<Rightarrow> (outbound_frame list \<times> node) option" where
  "channel_step k op n =
     (case op of
        Put fr \<Rightarrow> if queue_full n k then None else Some ([], put_frame k fr n)
      | Take \<Rightarrow> if ch_current (channel_of k n) \<noteq> None then None
                else map_option (\<lambda>(d, n'). ([], n')) (worker_take k n)
      | Sent \<Rightarrow> (case ch_current (channel_of k n) of
                   None \<Rightarrow> None | Some fr \<Rightarrow> Some ([fr], worker_sent k n)))"

fun channel_run :: "nat \<Rightarrow> channel_op list \<Rightarrow> node \<Rightarrow> (outbound_frame list \<times> node) option" where
  "channel_run k [] n = Some ([], n)"
| "channel_run k (op # ops) n =
     (case channel_step k op n of
        None \<Rightarrow> None
      | Some (out, n') \<Rightarrow>
          (case channel_run k ops n' of None \<Rightarrow> None | Some (later, m) \<Rightarrow> Some (out @ later, m)))"

fun put_frames :: "channel_op list \<Rightarrow> outbound_frame list" where
  "put_frames [] = []"
| "put_frames (Put fr # ops) = fr # put_frames ops"
| "put_frames (Take # ops) = put_frames ops"
| "put_frames (Sent # ops) = put_frames ops"

lemma channel_step_backlog:
  assumes "channel_step k op n = Some (out, n')" "k < length (channel_store n)"
  shows "backlog k n @ put_frames [op] = out @ backlog k n'
    \<and> length (channel_store n') = length (channel_store n)"
proof (cases op)
  case (Put fr)
  with assms have n': "n' = put_frame k fr n" "out = []" by (auto simp: channel_step_def split: if_split_asm)
  show ?thesis using put_frame_backlog [OF assms(2)] by (simp add: n' Put) (simp add: put_frame_def Let_def)
next
  case Take
  with assms obtain d where t: "worker_take k n = Some (d, n')" "out = []"
      "ch_current (channel_of k n) = None"
    by (auto simp: channel_step_def split: if_split_asm)
  have "length (channel_store n') = length (channel_store n)"
    using t(1) by (auto simp: worker_take_def Let_def split: list.splits)
  with worker_take_backlog [OF assms(2) t(3,1)] t(2) Take show ?thesis by simp
next
  case Sent
  with assms obtain fr where f: "ch_current (channel_of k n) = Some fr" "out = [fr]"
      "n' = worker_sent k n"
    by (auto simp: channel_step_def split: option.splits)
  have "length (channel_store n') = length (channel_store n)"
    by (simp add: f worker_sent_def finish_current_def Let_def split: option.splits)
  moreover have "backlog k n = fr # tl (backlog k n)" by (simp add: backlog_def f)
  ultimately show ?thesis using worker_sent_backlog(1) [OF assms(2) f(1)] f Sent by simp
qed

lemma channel_run_backlog:
  assumes "channel_run k ops n = Some (out, n')" "k < length (channel_store n)"
  shows "backlog k n @ put_frames ops = out @ backlog k n'"
  using assms
proof (induction k ops n arbitrary: out rule: channel_run.induct)
  case (2 k op ops n)
  obtain o1 n1 where s: "channel_step k op n = Some (o1, n1)"
    using "2.prems"(1) by (auto split: option.splits)
  then obtain o2 where r: "channel_run k ops n1 = Some (o2, n')" "out = o1 @ o2"
    using "2.prems"(1) by (auto split: option.splits)
  note b = channel_step_backlog [OF s "2.prems"(2)]
  have "backlog k n1 @ put_frames ops = o2 @ backlog k n'"
    using "2.IH" [OF s HOL.refl] r(1) b "2.prems"(2) by simp
  moreover have "put_frames (op # ops) = put_frames [op] @ put_frames ops" by (cases op) simp_all
  ultimately show ?case using b r(2) by (metis append_assoc)
qed simp

section \<open>Properties\<close>

text \<open>C8 A session's writer is a FIFO: whatever sequence of puts by callers and of takes and
  completed writes by the worker a channel goes through, the frames the transport accepted,
  followed by the frame being written and the queued ones, are exactly the frames that were
  outstanding before followed by those that were put, in that order; none is lost, doubled or
  overtaken.\<close>

theorem outbound_fifo:
  assumes "k < length (channel_store n)" "channel_run k ops n = Some (sent, n')"
  shows "sent @ backlog k n' = backlog k n @ put_frames ops"
  using channel_run_backlog [OF assms(2,1)] by simp

definition example_channel :: node where
  "example_channel = (new_node (lit ''a'') example_config)\<lparr>
     channel_store := [empty_channel 0], outbound_channels := [(3, 0)],
     futures := [Waiting, Waiting, Waiting], next_task := 1\<rparr>"

definition example_frame :: "nat \<Rightarrow> outbound_frame" where
  "example_frame f = \<lparr>fr_data = [], fr_future = f\<rparr>"

theorem outbound_fifo_witness:
  "\<exists>n'. channel_run 0 [Put (example_frame 0), Take, Put (example_frame 1), Sent, Take] example_channel
      = Some ([example_frame 0], n') \<and> backlog 0 n' = [example_frame 1]"
proof -
  obtain n' where r: "channel_run 0 [Put (example_frame 0), Take, Put (example_frame 1), Sent, Take]
      example_channel = Some ([example_frame 0], n')"
    by (simp add: channel_step_def example_channel_def new_node_def queue_full_def channel_of_def
        empty_channel_def put_frame_def Let_def set_channel_def worker_take_def worker_sent_def
        finish_current_def complete_future_def future_state_def example_config_def example_frame_def)
  have "0 < length (channel_store example_channel)" by (simp add: example_channel_def)
  from outbound_fifo [OF this r] r show ?thesis
    by (simp add: example_channel_def backlog_def channel_of_def empty_channel_def)
qed

text \<open>A writer that ends leaves nobody behind: after the worker's \<open>finally\<close> clause its queue is empty
  and every caller whose frame was queued or being written has its outcome, the result it already
  had or \<open>ConnectionClosedError\<close>.\<close>

theorem worker_end_answers_queued:
  assumes "k < length (channel_store n)"
  shows "backlog k (worker_end k n) = []
    \<and> (\<forall>fr \<in> set (backlog k n). fr_future fr < length (futures n) \<longrightarrow>
         future_state (fr_future fr) (worker_end k n) =
           (if future_state (fr_future fr) n = Waiting then FutureError ConnectionClosedError
            else future_state (fr_future fr) n))"
proof -
  have m: "future_state f (worker_end k n) = future_state f (fail_outbound_queue k ConnectionClosedError
      (finish_current k (FutureError ConnectionClosedError) n))" for f
    by (simp add: worker_end_def Let_def future_state_def)
  have "future_state (fr_future fr) (worker_end k n) =
      (if future_state (fr_future fr) n = Waiting then FutureError ConnectionClosedError
       else future_state (fr_future fr) n)" if "fr \<in> set (backlog k n)" for fr
    using that assms
    by (auto simp: m backlog_def fail_outbound_queue_def Let_def fail_frames_state finish_current_def
        complete_future_state split: option.splits)
  with worker_end_backlog(1) [OF assms] show ?thesis by simp
qed

definition busy_channel :: node where
  "busy_channel = example_channel\<lparr>channel_store :=
     [\<lparr>ch_queue = [example_frame 1], ch_task = 0, ch_current = Some (example_frame 0)\<rparr>]\<rparr>"

theorem worker_end_answers_queued_witness:
  "future_state 0 (worker_end 0 busy_channel) = FutureError ConnectionClosedError
    \<and> future_state 1 (worker_end 0 busy_channel) = FutureError ConnectionClosedError
    \<and> future_state 2 busy_channel = Waiting"
proof -
  have busy: "0 < length (channel_store busy_channel)"
    "backlog 0 busy_channel = [example_frame 0, example_frame 1]" "length (futures busy_channel) = 3"
    "future_state f busy_channel = (if f < 3 then Waiting else FutureCancelled)" for f
    by (simp_all add: backlog_def busy_channel_def example_channel_def channel_of_def future_state_def
        less_Suc_eq numeral_3_eq_3)
  have "fr_future (example_frame f) = f" for f by (simp add: example_frame_def)
  with worker_end_answers_queued [OF busy(1)] show ?thesis by (simp add: busy)
qed

text \<open>C19 A caller that was blocked on the full queue when the worker ended is left behind. The
  ending worker empties the queue, which wakes the caller, and the callback of its task removes
  the channel from the table. Whatever the other callers, the other writers, the code that closes
  sessions and the rest of the node do before the caller runs, it puts its frame into that queue,
  unless others have filled it again and it waits for room once more; and whatever they do
  afterwards, as long as the caller itself does not give up, its future stays unresolved, the
  frame stays in the queue, the worker of the channel is finished and no entry of the table and
  no closing session leads to the channel. Before anything else happens there is room.\<close>

theorem blocked_caller_stranded:
  assumes "k < length (channel_store n)" "map_of (outbound_channels n) c = Some k"
    and "\<forall>x. (x, k) \<in> set (outbound_channels n) \<longrightarrow> x = c" "k \<notin> cl0"
    and "0 < max_outbound_queue (cfg n)" "future_state (fr_future fr) n = Waiting"
    and "\<forall>j. fr_future fr \<notin> fr_future ` set (backlog j n)"
  shows "let after_end = outbound_finished c (ch_task (channel_of k n)) (worker_end k n) in
    \<not> queue_full after_end k
    \<and> (\<forall>m cl r m'. (writers_step (fr_future fr))\<^sup>*\<^sup>* (after_end, cl0) (m, cl)
         \<longrightarrow> put_waiting k fr m = (r, m') \<longrightarrow>
         r = Inr (if queue_full m k then AwaitRoom k fr else QueuedFrame (fr_future fr))
         \<and> (\<forall>m'' cl''. (writers_step (fr_future fr))\<^sup>*\<^sup>* (m', cl) (m'', cl'') \<longrightarrow>
              future_state (fr_future fr) m'' = Waiting
              \<and> (\<not> queue_full m k \<longrightarrow> fr \<in> set (ch_queue (channel_of k m'')))
              \<and> ch_task (channel_of k m'') \<in> finished m''
              \<and> (\<forall>x. fst (close_channel_begin x m'') \<noteq> Some k) \<and> k \<notin> cl''))"
proof -
  let ?over = "outbound_finished c (ch_task (channel_of k n)) (worker_end k n)"
  note start = worker_end_stranded [OF assms(1,2,3,6,7,4)]
  have room: "\<not> queue_full ?over k"
    using worker_end_simps [OF assms(1)] assms(5) by (simp add: queue_full_def)
  have late: "r = Inr (if queue_full m k then AwaitRoom k fr else QueuedFrame (fr_future fr))
      \<and> (\<forall>m'' cl''. (writers_step (fr_future fr))\<^sup>*\<^sup>* (m', cl) (m'', cl'') \<longrightarrow>
           future_state (fr_future fr) m'' = Waiting
           \<and> (\<not> queue_full m k \<longrightarrow> fr \<in> set (ch_queue (channel_of k m'')))
           \<and> ch_task (channel_of k m'') \<in> finished m''
           \<and> (\<forall>x. fst (close_channel_begin x m'') \<noteq> Some k) \<and> k \<notin> cl'')"
    if steps: "(writers_step (fr_future fr))\<^sup>*\<^sup>* (?over, cl0) (m, cl)"
      and put: "put_waiting k fr m = (r, m')" for m cl r m'
  proof -
    have m: "stranded k (fr_future fr) (m, cl)" by (rule stranded_steps(1) [OF steps start])
    have m': "stranded k (fr_future fr) (m', cl)"
      using put m stranded_put [OF m, of k fr] by (auto simp: put_waiting_def split: if_split_asm)
    have queued: "fr \<in> set (ch_queue (channel_of k m'))" if "\<not> queue_full m k"
      using put m that by (auto simp: put_waiting_def put_frame_queue stranded_def)
    have after: "future_state (fr_future fr) m'' = Waiting
        \<and> (\<not> queue_full m k \<longrightarrow> fr \<in> set (ch_queue (channel_of k m'')))
        \<and> ch_task (channel_of k m'') \<in> finished m''
        \<and> (\<forall>x. fst (close_channel_begin x m'') \<noteq> Some k) \<and> k \<notin> cl''"
      if "(writers_step (fr_future fr))\<^sup>*\<^sup>* (m', cl) (m'', cl'')" for m'' cl''
      using stranded_steps [OF that m'] queued
      by (force simp: stranded_def close_channel_begin_def dest: map_of_SomeD)
    then show ?thesis using put by (auto simp: put_waiting_def split: if_split_asm)
  qed
  show ?thesis unfolding Let_def using room late by blast
qed

theorem blocked_caller_stranded_witness:
  "\<exists>m. put_waiting 0 (example_frame 2) (outbound_finished 3 0 (worker_end 0 busy_channel))
      = (Inr (QueuedFrame 2), m)
    \<and> future_state 2 (fail_all_outbound ConnectionClosedError (snd (close_channel_begin 3 m))) = Waiting"
proof -
  have ch: "channel_of 0 busy_channel = \<lparr>ch_queue = [example_frame 1], ch_task = 0, ch_current = Some (example_frame 0)\<rparr>"
    "j \<noteq> 0 \<Longrightarrow> channel_of j busy_channel = empty_channel 0" for j
    by (auto simp: busy_channel_def example_channel_def channel_of_def)
  have f: "fr_future (example_frame i) = i" for i by (simp add: example_frame_def)
  have h: "0 < length (channel_store busy_channel)" "map_of (outbound_channels busy_channel) 3 = Some 0"
    "\<forall>x. (x, 0) \<in> set (outbound_channels busy_channel) \<longrightarrow> x = 3" "0 \<notin> ({} :: nat set)"
    "0 < max_outbound_queue (cfg busy_channel)" "future_state (fr_future (example_frame 2)) busy_channel = Waiting"
    by (simp_all add: busy_channel_def example_channel_def new_node_def example_config_def
        example_frame_def future_state_def)
  have "2 \<notin> fr_future ` set (backlog j busy_channel)" for j
    by (cases "j = 0") (simp_all add: not_in_backlog empty_channel_def ch f)
  then have b: "\<forall>j. fr_future (example_frame 2) \<notin> fr_future ` set (backlog j busy_channel)" by (simp add: f)
  let ?over = "outbound_finished 3 0 (worker_end 0 busy_channel)"
  note stays = blocked_caller_stranded [OF h b, unfolded Let_def f ch(1) channel.simps]
  obtain r m where m: "put_waiting 0 (example_frame 2) ?over = (r, m)" by fastforce
  note now = stays [THEN conjunct2, rule_format, OF rtranclp.rtrancl_refl m]
  let ?closed = "snd (close_channel_begin 3 m)"
  let ?found = "{} \<union> set_option (fst (close_channel_begin 3 m))"
  have "writers_step 2 (m, {}) (?closed, ?found)" by (rule writers_step.closing) simp
  moreover have "writers_step 2 (?closed, ?found) (fail_all_outbound ConnectionClosedError ?closed, ?found)"
    by (rule writers_step.all_failed)
  ultimately have steps: "(writers_step 2)\<^sup>*\<^sup>* (m, {}) (fail_all_outbound ConnectionClosedError ?closed, ?found)"
    by (meson rtranclp.rtrancl_into_rtrancl rtranclp.rtrancl_refl)
  from now [THEN conjunct2, rule_format, OF steps]
  have "future_state 2 (fail_all_outbound ConnectionClosedError ?closed) = Waiting" by (rule conjunct1)
  moreover have "r = Inr (QueuedFrame 2)" using now stays by simp
  ultimately show ?thesis using m by blast
qed

end
