(* ===== verification/Sessions.thy ===== *)
theory Sessions
  imports Outbound
begin

text \<open>
  The session registry of \<open>src/paqto/core/node.py\<close>: publishing and withdrawing READY sessions,
  choosing the canonical one of several connections to a peer, admitting connections, and the
  connection of a reply. The paths of an outgoing and an incoming connection are cut at their
  awaits (\<open>prepare_*\<close>, \<open>incoming_*\<close>, \<open>retire_*\<close>, \<open>ended_*\<close>).

  The lemmas: every operation keeps the registry consistent (\<open>registry_ok\<close>: the session tables
  describe the same connections, one per peer, never the node itself) and the admission limit;
  a reply therefore never meets two sessions of its peer; and both ends of a simultaneous
  connect keep the same physical connection.
\<close>

section \<open>Publishing and withdrawing\<close>

definition authentication_metadata :: "security_info \<Rightarrow> protocol_session \<Rightarrow> metadata" where
  "authentication_metadata sec s =
     [(PStr (lit ''authenticated_peer_id''),
         (case authenticated_peer_id sec of None \<Rightarrow> PNone | Some i \<Rightarrow> PStr i)),
      (PStr (lit ''mechanism''), (case mechanism sec of None \<Rightarrow> PNone | Some x \<Rightarrow> PStr x)),
      (PStr (lit ''peer_id_authenticated''), PBool (peer_id_authenticated s))]"

definition publish_session :: "world \<Rightarrow> conn \<Rightarrow> protocol_session \<Rightarrow> direction \<Rightarrow> node \<Rightarrow> node" where
  "publish_session w c s d n =
     n\<lparr>sessions := dput c s (sessions n),
       session_connections := dput c c (session_connections n),
       session_directions := dput c d (session_directions n),
       peer_connections := dput (session_peer_id s) c (peer_connections n),
       last_received_activity := dput c (monotonic (clk w)) (last_received_activity n)\<rparr>"

definition announce_session :: "world \<Rightarrow> conn \<Rightarrow> protocol_session \<Rightarrow> unit node_act" where
  "announce_session w c s =
     seq (if authenticated (conn_security w c)
          then emit_event AUTHENTICATED (Some (session_peer_id s)) (Some c) None
                 (authentication_metadata (conn_security w c) s)
          else ret ()) (\<lambda>_.
       emit_event EV_CONNECTED (Some (session_peer_id s)) (Some c) None
         [(PStr (lit ''peer_id_authenticated''), PBool (peer_id_authenticated s))])"

definition register_session :: "world \<Rightarrow> conn \<Rightarrow> protocol_session \<Rightarrow> direction \<Rightarrow> unit node_act" where
  "register_session w c s d =
     seq (update (publish_session w c s d)) (\<lambda>_.
     seq (ensure_outbound_channel c) (\<lambda>_. announce_session w c s))"

definition deactivate_session :: "conn \<Rightarrow> node \<Rightarrow> node" where
  "deactivate_session c n =
     (let s = map_of (sessions n) c;
          n' = n\<lparr>sessions := dpop c (sessions n),
                 session_connections := dpop c (session_connections n),
                 session_directions := dpop c (session_directions n),
                 last_received_activity := dpop c (last_received_activity n)\<rparr>
      in case s of
           None \<Rightarrow> n'
         | Some s \<Rightarrow> if map_of (peer_connections n') (session_peer_id s) = Some c
                     then n'\<lparr>peer_connections := dpop (session_peer_id s) (peer_connections n')\<rparr>
                     else n')"

section \<open>The canonical connection\<close>

definition preferred_direction :: "pystr \<Rightarrow> pystr \<Rightarrow> direction" where
  "preferred_direction local_id remote_id = (if local_id < remote_id then OUTBOUND else INBOUND)"

definition select_ready_connection ::
    "world \<Rightarrow> conn \<Rightarrow> protocol_session \<Rightarrow> direction \<Rightarrow> (conn \<times> conn option) node_act" where
  "select_ready_connection w c s d = reads (\<lambda>n.
     if session_peer_id s = local_peer n then raise PeerIdentityMismatchError
     else
       seq (case map_of (peer_connections n) (session_peer_id s) of
              Some x \<Rightarrow> if x \<in> closed_conns w
                        then seq (update (deactivate_session x)) (\<lambda>_. ret None) else ret (Some x)
            | None \<Rightarrow> ret None) (\<lambda>existing.
       case existing of
         None \<Rightarrow> seq (register_session w c s d) (\<lambda>_. ret (c, None))
       | Some x \<Rightarrow>
           if x = c then ret (c, None)
           else reads (\<lambda>n.
             case map_of (session_directions n) x of
               None \<Rightarrow> raise KeyError
             | Some xd \<Rightarrow>
                 let preferred = preferred_direction (local_peer n) (session_peer_id s) in
                 if d = preferred \<and> xd \<noteq> preferred then
                   seq (update (deactivate_session x)) (\<lambda>_.
                   seq (register_session w c s d) (\<lambda>_. ret (c, Some x)))
                 else ret (x, Some c))))"

section \<open>Paths of a connection\<close>

text \<open>Sets of connections are lists without repetition.\<close>

definition discard_connection :: "conn \<Rightarrow> node \<Rightarrow> node" where
  "discard_connection c n = n\<lparr>incoming_connections := removeAll c (incoming_connections n),
     outgoing_connections := removeAll c (outgoing_connections n)\<rparr>"

definition prepare_begin :: "conn \<Rightarrow> pystr \<Rightarrow> unit node_act" where
  "prepare_begin c p = reads (\<lambda>n.
     if c \<notin> set (outgoing_connections n)
        \<and> max_connections (cfg n) \<le> int (active_connection_count n)
     then seq (report_resource_limit (Some p) (Some c)) (\<lambda>_. raise ResourceLimitError)
     else update (\<lambda>n. n\<lparr>outgoing_connections := List.insert c (outgoing_connections n)\<rparr>))"

definition prepare_end :: "conn \<Rightarrow> conn \<Rightarrow> node \<Rightarrow> node" where
  "prepare_end c selected n =
     (if selected \<noteq> c then n\<lparr>outgoing_connections := removeAll c (outgoing_connections n)\<rparr> else n)"

definition prepare_failed :: "conn \<Rightarrow> pystr \<Rightarrow> exn \<Rightarrow> unit node_act" where
  "prepare_failed c p e =
     seq (update (\<lambda>n. n\<lparr>outgoing_connections := removeAll c (outgoing_connections n)\<rparr>)) (\<lambda>_.
     seq (if exn_isa e ProtocolError then report_protocol_error c e (Some p) else ret ()) (\<lambda>_.
       raise e))"

text \<open>One turn of the accept loop: is the connection admitted?\<close>

definition accept_connection :: "conn \<Rightarrow> bool node_act" where
  "accept_connection c = reads (\<lambda>n.
     if max_connections (cfg n) \<le> int (active_connection_count n)
     then seq (report_resource_limit None (Some c)) (\<lambda>_. ret False)
     else seq (update (\<lambda>n. n\<lparr>incoming_connections := List.insert c (incoming_connections n)\<rparr>)) (\<lambda>_.
       ret True))"

definition start_reader_task :: "conn \<Rightarrow> unit node_act" where
  "start_reader_task c = reads (\<lambda>n.
     if (case map_of (reader_tasks n) c of Some t \<Rightarrow> \<not> task_done n t | None \<Rightarrow> False) then ret ()
     else seq create_task (\<lambda>t. update (\<lambda>n. n\<lparr>reader_tasks := dput c t (reader_tasks n)\<rparr>)))"

definition incoming_failed :: "conn \<Rightarrow> exn \<Rightarrow> unit node_act" where
  "incoming_failed c e =
     (if exn_isa e ConnectionClosedError \<or> \<not> exn_isa e ExceptionClass then ret ()
      else report_protocol_error c e None)"

text \<open>The \<open>finally\<close> clause of an incoming connection that never came to be read.\<close>

definition incoming_abort :: "conn \<Rightarrow> node \<Rightarrow> node" where
  "incoming_abort c n =
     (let n1 = deactivate_session c n;
          n2 = n1\<lparr>incoming_connections := removeAll c (incoming_connections n1)\<rparr>
      in fail_pending_for_connection c n2)"

text \<open>
  \<open>_cancel_heartbeat\<close> and \<open>_close_outbound_channel\<close> await the task they cancel; the retiring of
  a connection continues after each await.
\<close>

definition cancel_heartbeat_begin :: "conn \<Rightarrow> node \<Rightarrow> nat option \<times> node" where
  "cancel_heartbeat_begin c n =
     (map_of (heartbeat_tasks n) c, n\<lparr>heartbeat_tasks := dpop c (heartbeat_tasks n)\<rparr>)"

definition cancel_heartbeat_end :: "conn \<Rightarrow> node \<Rightarrow> node" where
  "cancel_heartbeat_end c n =
     fail_heartbeats_for_connection c
       (n\<lparr>last_received_activity := dpop c (last_received_activity n)\<rparr>)"

definition retire_begin :: "conn \<Rightarrow> node \<Rightarrow> protocol_session option \<times> node" where
  "retire_begin c n =
     (map_of (sessions n) c, fail_pending_for_connection c (deactivate_session c n))"

definition retire_end :: "conn \<Rightarrow> node \<Rightarrow> node" where
  "retire_end = discard_connection"

definition ended_begin :: "conn \<Rightarrow> protocol_session \<Rightarrow> node \<Rightarrow> bool \<times> node" where
  "ended_begin c s n =
     (map_of (peer_connections n) (session_peer_id s) = Some c,
      fail_pending_for_connection c (discard_connection c (deactivate_session c n)))"

section \<open>The connection of a reply\<close>

text \<open>
  The argument \<open>context\<close> is the connection of the handler context when the message is the very
  one being handled.
\<close>

definition reply_candidates :: "world \<Rightarrow> pyval \<Rightarrow> node \<Rightarrow> exn + conn list" where
  "reply_candidates w peer_of n =
     rbind (rmap (\<lambda>(k, c).
         if c \<in> closed_conns w then Inr (c, False)
         else (case map_of (sessions n) k of
                 None \<Rightarrow> Inl KeyError | Some s \<Rightarrow> Inr (c, PStr (session_peer_id s) = peer_of)))
       (session_connections n))
     (\<lambda>vs. Inr (List.map fst (filter snd vs)))"

definition connection_for_reply :: "world \<Rightarrow> conn option \<Rightarrow> message \<Rightarrow> node \<Rightarrow> exn + conn" where
  "connection_for_reply w context m n =
     (case context of
        Some c \<Rightarrow> Inr c
      | None \<Rightarrow> rbind (reply_candidates w (sender m) n) (\<lambda>cs.
          (case cs of [] \<Rightarrow> Inl RequestError | [c] \<Rightarrow> Inr c | _ \<Rightarrow> Inl RequestError)))"

definition reply_checks :: "message \<Rightarrow> exn + unit" where
  "reply_checks m =
     rbind (guard (nonempty_str (msg_id m) \<noteq> None) RequestError) (\<lambda>_.
       guard (nonempty_str (sender m) \<noteq> None) RequestError)"

section \<open>The registry invariant\<close>

definition registry_ok :: "node \<Rightarrow> bool" where
  "registry_ok n \<longleftrightarrow>
     (\<forall>c s. map_of (sessions n) c = Some s \<longrightarrow>
        session_peer_id s \<noteq> local_peer n
        \<and> map_of (peer_connections n) (session_peer_id s) = Some c)
     \<and> (\<forall>p c. map_of (peer_connections n) p = Some c \<longrightarrow>
          (\<exists>s. map_of (sessions n) c = Some s \<and> session_peer_id s = p))
     \<and> (\<forall>k c. map_of (session_connections n) k = Some c \<longrightarrow> c = k)
     \<and> (\<forall>c. map_of (session_connections n) c = None \<longleftrightarrow> map_of (sessions n) c = None)
     \<and> (\<forall>c. map_of (session_directions n) c = None \<longleftrightarrow> map_of (sessions n) c = None)
     \<and> distinct (dkeys (session_connections n))"

definition admission_ok :: "node \<Rightarrow> bool" where
  "admission_ok n \<longleftrightarrow> int (active_connection_count n) \<le> max 0 (max_connections (cfg n))"

text \<open>The tables the registry invariant reads.\<close>

definition registry_of :: "node \<Rightarrow> _" where
  "registry_of n = (local_peer n, sessions n, session_connections n, session_directions n,
     peer_connections n)"

lemma registry_cong: "registry_of m = registry_of n \<Longrightarrow> registry_ok m = registry_ok n"
  by (simp add: registry_of_def registry_ok_def)

lemma emit_event_fields [simp]:
  "registry_of (snd (emit_event t pid c err md n)) = registry_of n"
  "incoming_connections (snd (emit_event t pid c err md n)) = incoming_connections n"
  "outgoing_connections (snd (emit_event t pid c err md n)) = outgoing_connections n"
  "cfg (snd (emit_event t pid c err md n)) = cfg n"
  by (simp_all add: emit_event_def registry_of_def split: option.splits sum.splits)

lemma ensure_outbound_fields [simp]:
  "registry_of (snd (ensure_outbound_channel c n)) = registry_of n"
  "fst (ensure_outbound_channel c n) = Inr ()"
  "incoming_connections (snd (ensure_outbound_channel c n)) = incoming_connections n"
  "outgoing_connections (snd (ensure_outbound_channel c n)) = outgoing_connections n"
  "local_peer (snd (ensure_outbound_channel c n)) = local_peer n"
  "cfg (snd (ensure_outbound_channel c n)) = cfg n"
  by (simp_all add: ensure_outbound_channel_def registry_of_def create_task_def seq_def [of create_task]
      split: option.splits)

lemma complete_future_registry [simp]: "registry_of (complete_future f v n) = registry_of n"
  by (simp add: complete_future_def registry_of_def)

lemma fail_futures_registry [simp]: "registry_of (fail_futures v d n) = registry_of n"
  by (induction d arbitrary: n) auto

lemma registry_of_updates [simp]:
  "registry_of (n\<lparr>pending_requests := x1\<rparr>) = registry_of n"
  "registry_of (n\<lparr>pending_acknowledgements := x1\<rparr>) = registry_of n"
  "registry_of (n\<lparr>pending_heartbeats := x1\<rparr>) = registry_of n"
  "registry_of (n\<lparr>last_received_activity := x2\<rparr>) = registry_of n"
  "registry_of (n\<lparr>incoming_connections := x3\<rparr>) = registry_of n"
  "registry_of (n\<lparr>outgoing_connections := x3\<rparr>) = registry_of n"
  "registry_of (n\<lparr>reader_tasks := x4\<rparr>) = registry_of n"
  "registry_of (n\<lparr>heartbeat_tasks := x4\<rparr>) = registry_of n"
  "registry_of (n\<lparr>known_peers := x5\<rparr>) = registry_of n"
  "registry_of (n\<lparr>event_queue := x6\<rparr>) = registry_of n"
  by (simp_all add: registry_of_def)

lemma fail_pending_registry [simp]:
  "registry_of (fail_pending_for_connection c n) = registry_of n"
  "registry_of (fail_heartbeats_for_connection c n) = registry_of n"
  by (simp_all add: fail_pending_for_connection_def fail_heartbeats_for_connection_def Let_def)

lemma registry_session:
  assumes "registry_ok n" "map_of (sessions n) c = Some s"
  shows "session_peer_id s \<noteq> local_peer n" "map_of (peer_connections n) (session_peer_id s) = Some c"
  using assms unfolding registry_ok_def by blast+

lemma registry_peer:
  assumes "registry_ok n" "map_of (peer_connections n) p = Some c"
  obtains s where "map_of (sessions n) c = Some s" "session_peer_id s = p"
  using assms unfolding registry_ok_def by blast

lemma registry_tables:
  assumes "registry_ok n"
  shows "map_of (session_connections n) k = Some c \<Longrightarrow> c = k"
    and "map_of (session_connections n) c = None \<longleftrightarrow> map_of (sessions n) c = None"
    and "map_of (session_directions n) c = None \<longleftrightarrow> map_of (sessions n) c = None"
    and "distinct (dkeys (session_connections n))"
  using assms unfolding registry_ok_def by blast+

lemma deactivate_tables [simp]:
  "map_of (sessions (deactivate_session c n)) k = (if k = c then None else map_of (sessions n) k)"
  "map_of (session_connections (deactivate_session c n)) k =
     (if k = c then None else map_of (session_connections n) k)"
  "map_of (session_directions (deactivate_session c n)) k =
     (if k = c then None else map_of (session_directions n) k)"
  "local_peer (deactivate_session c n) = local_peer n" "cfg (deactivate_session c n) = cfg n"
  "incoming_connections (deactivate_session c n) = incoming_connections n"
  "outgoing_connections (deactivate_session c n) = outgoing_connections n"
  "session_connections (deactivate_session c n) = dpop c (session_connections n)"
  by (auto simp: deactivate_session_def Let_def split: option.splits)

lemma deactivate_peers:
  assumes "registry_ok n"
  shows "map_of (peer_connections (deactivate_session c n)) p =
    (if map_of (peer_connections n) p = Some c then None else map_of (peer_connections n) p)"
proof (cases "map_of (sessions n) c")
  case None
  then have "map_of (peer_connections n) p \<noteq> Some c"
    using registry_peer [OF assms] by (metis option.distinct(1))
  with None show ?thesis by (simp add: deactivate_session_def Let_def)
next
  case (Some s)
  note own = registry_session(2) [OF assms Some]
  show ?thesis
  proof (cases "p = session_peer_id s")
    case True
    with Some own show ?thesis by (simp add: deactivate_session_def Let_def)
  next
    case False
    then have "map_of (peer_connections n) p \<noteq> Some c"
      using registry_peer [OF assms] Some by (metis option.inject)
    with Some own False show ?thesis by (simp add: deactivate_session_def Let_def)
  qed
qed

lemma registry_deactivate:
  assumes "registry_ok n" shows "registry_ok (deactivate_session c n)"
proof -
  note S = registry_session [OF assms] and T = registry_tables [OF assms]
  have peer: "\<exists>s. map_of (sessions n) k = Some s \<and> session_peer_id s = p"
    if "map_of (peer_connections n) p = Some k" for p k
    using registry_peer [OF assms that] by blast
  show ?thesis
    unfolding registry_ok_def deactivate_peers [OF assms]
    using S T peer by (auto simp: distinct_dpop split: if_split_asm)
qed

lemma deactivate_peer:
  assumes "registry_ok n" "map_of (peer_connections n) p = Some c"
  shows "map_of (peer_connections (deactivate_session c n)) = (map_of (peer_connections n))(p := None)"
proof
  fix q
  show "map_of (peer_connections (deactivate_session c n)) q = ((map_of (peer_connections n))(p := None)) q"
  proof (cases "q = p")
    case True
    with assms show ?thesis by (simp add: deactivate_peers)
  next
    case False
    then have "map_of (peer_connections n) q \<noteq> Some c"
      using registry_peer [OF assms(1)] assms(2) by (metis option.inject)
    with False show ?thesis by (simp add: deactivate_peers [OF assms(1)])
  qed
qed

lemma registry_publish:
  assumes "registry_ok n" "map_of (peer_connections n) (session_peer_id s) = None"
    and "session_peer_id s \<noteq> local_peer n" "map_of (sessions n) c = None"
  shows "registry_ok (publish_session w c s d n)"
proof -
  have fresh: "map_of (peer_connections n) p \<noteq> Some c" for p
    using registry_peer [OF assms(1)] assms(4) by (metis option.distinct(1))
  have other: "session_peer_id t \<noteq> session_peer_id s" if "map_of (sessions n) k = Some t" for k t
    using registry_session(2) [OF assms(1) that] assms(2) by auto
  show ?thesis
    using assms fresh other by (auto simp: registry_ok_def publish_session_def distinct_dput)
qed

lemma announce_session_only:
  "\<exists>q. snd (announce_session w c s n) = n\<lparr>event_queue := q\<rparr>"
proof -
  have two: "\<exists>q. snd (seq (emit_event t pid cc err md) (\<lambda>_. emit_event t' pid' cc' err' md') n)
      = n\<lparr>event_queue := q\<rparr>" for t pid cc err md t' pid' cc' err' md'
  proof (cases "emit_event t pid cc err md n")
    case (Pair r m)
    then obtain q where m: "m = n\<lparr>event_queue := q\<rparr>"
      using emit_event_only [of t pid cc err md n] by auto
    obtain q' where "snd (emit_event t' pid' cc' err' md' m) = m\<lparr>event_queue := q'\<rparr>"
      using emit_event_only by blast
    with Pair m show ?thesis by (cases r) auto
  qed
  show ?thesis
    using emit_event_only by (simp add: announce_session_def two)
qed

lemma announce_session_outcome:
  assumes "local_peer n \<noteq> []" "session_peer_id s \<noteq> []"
  shows "fst (announce_session w c s n) = Inr ()"
proof -
  have ok: "local_peer x \<noteq> [] \<Longrightarrow> fst (emit_event t (Some (session_peer_id s)) cc err md x) = Inr ()"
    for t cc err md x using assms(2) by (intro emit_event_ok) auto
  obtain r m where e: "emit_event AUTHENTICATED (Some (session_peer_id s)) (Some c) None
      (authentication_metadata (conn_security w c) s) n = (r, m)"
    by (cases "emit_event AUTHENTICATED (Some (session_peer_id s)) (Some c) None
      (authentication_metadata (conn_security w c) s) n")
  have "r = Inr ()" using ok [OF assms(1)] e by (metis fst_conv)
  moreover have "local_peer m \<noteq> []"
    using e emit_event_only [of AUTHENTICATED "Some (session_peer_id s)" "Some c" None
        "authentication_metadata (conn_security w c) s" n] assms(1) by auto
  ultimately show ?thesis
    using e ok [OF assms(1)] ok [of m] by (simp add: announce_session_def)
qed

lemma register_session_eq:
  "register_session w c s d n =
     announce_session w c s (snd (ensure_outbound_channel c (publish_session w c s d n)))"
proof -
  have "seq (ensure_outbound_channel c) f x = f () (snd (ensure_outbound_channel c x))" for f x
    using ensure_outbound_fields(2) [of c x] by (cases "ensure_outbound_channel c x") simp
  then show ?thesis by (simp add: register_session_def)
qed

lemma register_session_fields [simp]:
  "registry_of (snd (register_session w c s d n)) = registry_of (publish_session w c s d n)"
  "incoming_connections (snd (register_session w c s d n)) = incoming_connections n"
  "outgoing_connections (snd (register_session w c s d n)) = outgoing_connections n"
  "cfg (snd (register_session w c s d n)) = cfg n"
proof -
  let ?p = "publish_session w c s d n"
  let ?m = "snd (ensure_outbound_channel c ?p)"
  obtain q where q: "snd (register_session w c s d n) = ?m\<lparr>event_queue := q\<rparr>"
    using announce_session_only [of w c s ?m] by (auto simp: register_session_eq)
  have "registry_of (?m\<lparr>event_queue := q\<rparr>) = registry_of ?m" by simp
  then show "registry_of (snd (register_session w c s d n)) = registry_of ?p" by (simp add: q)
  show "incoming_connections (snd (register_session w c s d n)) = incoming_connections n"
    "outgoing_connections (snd (register_session w c s d n)) = outgoing_connections n"
    "cfg (snd (register_session w c s d n)) = cfg n"
    by (simp_all add: q) (simp_all add: publish_session_def)
qed

lemma register_session_outcome:
  "local_peer n \<noteq> [] \<Longrightarrow> session_peer_id s \<noteq> [] \<Longrightarrow> fst (register_session w c s d n) = Inr ()"
  unfolding register_session_eq by (intro announce_session_outcome) (simp_all add: publish_session_def)

section \<open>Selection keeps the registry\<close>

definition ids_ok :: "node \<Rightarrow> bool" where
  "ids_ok n \<longleftrightarrow> local_peer n \<noteq> []"

definition open_session :: "world \<Rightarrow> pystr \<Rightarrow> node \<Rightarrow> conn option" where
  "open_session w p n = connection_for_peer w p n"

text \<open>The state in which a newly selected connection is registered.\<close>

definition without_closed :: "world \<Rightarrow> pystr \<Rightarrow> node \<Rightarrow> node" where
  "without_closed w p n =
     (case map_of (peer_connections n) p of
        Some x \<Rightarrow> if x \<in> closed_conns w then deactivate_session x n else n | None \<Rightarrow> n)"

lemma without_closed_registry: "registry_ok n \<Longrightarrow> registry_ok (without_closed w p n)"
  by (auto simp: without_closed_def intro: registry_deactivate split: option.splits)

lemma without_closed_simps [simp]:
  "local_peer (without_closed w p n) = local_peer n" "cfg (without_closed w p n) = cfg n"
  "incoming_connections (without_closed w p n) = incoming_connections n"
  "outgoing_connections (without_closed w p n) = outgoing_connections n"
  "map_of (sessions n) c = None \<Longrightarrow> map_of (sessions (without_closed w p n)) c = None"
  by (auto simp: without_closed_def split: option.splits)

lemma without_closed_peer:
  assumes "registry_ok n"
  shows "map_of (peer_connections (without_closed w p n)) p = connection_for_peer w p n"
  using assms
  by (auto simp: without_closed_def connection_for_peer_def deactivate_peers split: option.splits)

lemma select_as_cases:
  assumes "registry_ok n" "session_peer_id s \<noteq> local_peer n"
  defines "p \<equiv> session_peer_id s" and "pref \<equiv> preferred_direction (local_peer n) (session_peer_id s)"
  shows "select_ready_connection w c s d n =
    (case connection_for_peer w p n of
       None \<Rightarrow> seq (register_session w c s d) (\<lambda>_. ret (c, None)) (without_closed w p n)
     | Some x \<Rightarrow>
         if x = c then (Inr (c, None), n)
         else if d = pref \<and> map_of (session_directions n) x \<noteq> Some pref
         then seq (register_session w c s d) (\<lambda>_. ret (c, Some x)) (deactivate_session x n)
         else (Inr (x, Some c), n))"
proof (cases "map_of (peer_connections n) p")
  case None
  with assms(2) show ?thesis
    by (simp add: select_ready_connection_def connection_for_peer_def p_def without_closed_def)
next
  case (Some x)
  obtain t where t: "map_of (sessions n) x = Some t"
    using registry_peer [OF assms(1) Some] .
  then obtain xd where "map_of (session_directions n) x = Some xd"
    using registry_tables(3) [OF assms(1), of x] by auto
  with Some assms(2) show ?thesis
    by (simp add: select_ready_connection_def connection_for_peer_def p_def pref_def
        without_closed_def Let_def)
qed

lemma snd_seq_ret: "snd (seq m (\<lambda>_. ret v) n) = snd (m n)"
  by (cases "m n") (auto simp: seq_def split: sum.splits)

lemma fst_seq_ret: "fst (m n) = Inr u \<Longrightarrow> fst (seq m (\<lambda>_. ret v) n) = Inr v"
  by (cases "m n") (auto simp: seq_def)

lemma register_registry:
  assumes "registry_ok n" "map_of (peer_connections n) (session_peer_id s) = None"
    and "session_peer_id s \<noteq> local_peer n" "map_of (sessions n) c = None"
  shows "registry_ok (snd (register_session w c s d n))"
  using registry_publish [OF assms] registry_cong register_session_fields(1) by blast

lemma select_local:
  "session_peer_id s = local_peer n \<Longrightarrow>
    select_ready_connection w c s d n = (Inl PeerIdentityMismatchError, n)"
  by (simp add: select_ready_connection_def)

lemma registry_select:
  assumes "registry_ok n" "map_of (sessions n) c = None"
  shows "registry_ok (snd (select_ready_connection w c s d n))"
proof (cases "session_peer_id s = local_peer n")
  case True
  with assms(1) show ?thesis by (simp add: select_local)
next
  case False
  have 1: "registry_ok (snd (register_session w c s d (without_closed w (session_peer_id s) n)))"
    if "connection_for_peer w (session_peer_id s) n = None"
    using assms False that without_closed_registry [OF assms(1)] without_closed_peer [OF assms(1)]
    by (intro register_registry) auto
  have 2: "registry_ok (snd (register_session w c s d (deactivate_session x n)))"
    if "connection_for_peer w (session_peer_id s) n = Some x" for x
  proof -
    have "map_of (peer_connections n) (session_peer_id s) = Some x"
      using that by (auto simp: connection_for_peer_def split: option.splits if_splits)
    with assms False registry_deactivate [OF assms(1)] show ?thesis
      by (intro register_registry) (auto simp: deactivate_peers)
  qed
  show ?thesis
    using assms 1 2 by (auto simp: select_as_cases [OF assms(1) False] snd_seq_ret split: option.splits)
qed

lemma select_admission [simp]:
  assumes "registry_ok n"
  shows "incoming_connections (snd (select_ready_connection w c s d n)) = incoming_connections n"
    "outgoing_connections (snd (select_ready_connection w c s d n)) = outgoing_connections n"
    "cfg (snd (select_ready_connection w c s d n)) = cfg n"
    "local_peer (snd (select_ready_connection w c s d n)) = local_peer n"
proof -
  have loc: "local_peer (snd (register_session w c s d' m)) = local_peer m" for m d'
    using register_session_fields(1) [of w c s d' m] by (simp add: registry_of_def publish_session_def)
  have "let n' = snd (select_ready_connection w c s d n) in
      incoming_connections n' = incoming_connections n \<and> outgoing_connections n' = outgoing_connections n
      \<and> cfg n' = cfg n \<and> local_peer n' = local_peer n"
  proof (cases "session_peer_id s = local_peer n")
    case True
    then show ?thesis by (simp add: select_local)
  next
    case False
    show ?thesis
      unfolding select_as_cases [OF assms False]
      by (cases "connection_for_peer w (session_peer_id s) n") (auto simp: snd_seq_ret loc Let_def)
  qed
  then show "incoming_connections (snd (select_ready_connection w c s d n)) = incoming_connections n"
    "outgoing_connections (snd (select_ready_connection w c s d n)) = outgoing_connections n"
    "cfg (snd (select_ready_connection w c s d n)) = cfg n"
    "local_peer (snd (select_ready_connection w c s d n)) = local_peer n"
    by (simp_all add: Let_def)
qed

section \<open>Which connection wins\<close>

definition canonical :: "world \<Rightarrow> pystr \<Rightarrow> node \<Rightarrow> (conn \<times> direction) option" where
  "canonical w p n =
     (case connection_for_peer w p n of
        None \<Rightarrow> None | Some c \<Rightarrow> map_option (Pair c) (map_of (session_directions n) c))"

fun keep_best :: "direction \<Rightarrow> conn \<times> direction \<Rightarrow> (conn \<times> direction) option \<Rightarrow> (conn \<times> direction) option"
  where
  "keep_best pref x None = Some x"
| "keep_best pref x (Some y) = (if snd x = pref \<and> snd y \<noteq> pref then Some x else Some y)"

lemma canonical_cong: "registry_of m = registry_of n \<Longrightarrow> canonical w p m = canonical w p n"
  by (simp add: canonical_def connection_for_peer_def registry_of_def cong: option.case_cong)

lemma canonical_register:
  assumes "c \<notin> closed_conns w"
  shows "canonical w (session_peer_id s) (snd (register_session w c s d n)) = Some (c, d)"
proof -
  have "canonical w (session_peer_id s) (snd (register_session w c s d n))
      = canonical w (session_peer_id s) (publish_session w c s d n)"
    by (intro canonical_cong) simp
  with assms show ?thesis by (simp add: canonical_def connection_for_peer_def publish_session_def)
qed

lemma canonical_select:
  assumes "registry_ok n" "session_peer_id s \<noteq> local_peer n" "map_of (sessions n) c = None"
    and "c \<notin> closed_conns w"
  shows "canonical w (session_peer_id s) (snd (select_ready_connection w c s d n)) =
    keep_best (preferred_direction (local_peer n) (session_peer_id s)) (c, d)
      (canonical w (session_peer_id s) n)"
proof (cases "connection_for_peer w (session_peer_id s) n")
  case None
  with assms show ?thesis
    by (simp add: select_as_cases snd_seq_ret canonical_register) (simp add: canonical_def)
next
  case (Some x)
  then have px: "map_of (peer_connections n) (session_peer_id s) = Some x"
    by (auto simp: connection_for_peer_def split: option.splits if_splits)
  obtain t where t: "map_of (sessions n) x = Some t"
    using registry_peer [OF assms(1) px] .
  then obtain xd where xd: "map_of (session_directions n) x = Some xd"
    using registry_tables(3) [OF assms(1), of x] by auto
  have "x \<noteq> c" using t assms(3) by auto
  have "canonical w (session_peer_id s) n = Some (x, xd)"
    by (simp add: canonical_def Some xd)
  with Some xd \<open>x \<noteq> c\<close> assms show ?thesis
    by (simp add: select_as_cases snd_seq_ret canonical_register)
qed

text \<open>
  Selecting one connection after the other; \<open>fresh_offers\<close> says that each is open and negotiated
  once, with the peer \<open>p\<close>.
\<close>

definition select_all :: "world \<Rightarrow> (conn \<times> protocol_session \<times> direction) list \<Rightarrow> node \<Rightarrow> node" where
  "select_all w = fold (\<lambda>(c, s, d) n. snd (select_ready_connection w c s d n))"

definition fresh_offers :: "world \<Rightarrow> pystr \<Rightarrow> (conn \<times> protocol_session \<times> direction) list \<Rightarrow> node \<Rightarrow> bool" where
  "fresh_offers w p xs n \<longleftrightarrow> distinct (List.map fst xs)
     \<and> (\<forall>(c, s, d) \<in> set xs. session_peer_id s = p \<and> c \<notin> closed_conns w \<and> map_of (sessions n) c = None)"

lemma sessions_select:
  assumes "registry_ok n" "k \<noteq> c" "map_of (sessions n) k = None"
  shows "map_of (sessions (snd (select_ready_connection w c s d n))) k = None"
proof -
  have reg: "map_of (sessions (snd (register_session w c s d' m))) k = map_of (sessions m) k" for m d'
    using register_session_fields(1) [of w c s d' m] assms(2)
    by (simp add: registry_of_def publish_session_def)
  show ?thesis
    using assms(3)
    by (cases "session_peer_id s = local_peer n")
      (auto simp: select_local select_as_cases [OF assms(1)] snd_seq_ret reg split: option.splits)
qed

lemma canonical_select_all:
  assumes "registry_ok n" "p \<noteq> local_peer n" "fresh_offers w p xs n"
  shows "canonical w p (select_all w xs n) =
    fold (keep_best (preferred_direction (local_peer n) p)) (List.map (\<lambda>(c, s, d). (c, d)) xs)
      (canonical w p n)"
  using assms
proof (induction xs arbitrary: n)
  case (Cons x xs)
  obtain c s d where x: "x = (c, s, d)" by (cases x)
  let ?n = "snd (select_ready_connection w c s d n)"
  have c: "session_peer_id s = p" "c \<notin> closed_conns w" "map_of (sessions n) c = None"
    using Cons.prems(3) by (auto simp: fresh_offers_def x)
  have "fresh_offers w p xs ?n"
    using Cons.prems(1,3)
    by (auto simp: fresh_offers_def x intro!: sessions_select) force
  moreover have "registry_ok ?n" by (rule registry_select [OF Cons.prems(1) c(3)])
  moreover have "local_peer ?n = local_peer n" by (simp add: Cons.prems(1))
  ultimately have "canonical w p (select_all w xs ?n) =
      fold (keep_best (preferred_direction (local_peer n) p)) (List.map (\<lambda>(c, s, d). (c, d)) xs)
        (canonical w p ?n)"
    using Cons.IH [of ?n] Cons.prems(2) by simp
  with canonical_select [OF Cons.prems(1), of s c w d] c Cons.prems(2) show ?case
    by (simp add: select_all_def x)
qed (simp add: select_all_def)

lemma keep_best_stays: "snd x = pref \<Longrightarrow> fold (keep_best pref) ys (Some x) = Some x"
  by (induction ys) simp_all

lemma keep_best_other:
  "\<forall>y. z = Some y \<longrightarrow> snd y \<noteq> pref \<Longrightarrow> snd y \<noteq> pref \<Longrightarrow> \<exists>v. keep_best pref y z = Some v \<and> snd v \<noteq> pref"
  by (cases z) simp_all

lemma keep_best_unique:
  assumes "x \<in> set xs" "snd x = pref" "\<forall>y \<in> set xs. snd y = pref \<longrightarrow> y = x"
  shows "fold (keep_best pref) xs None = Some x"
proof -
  have "\<forall>y. z = Some y \<longrightarrow> snd y \<noteq> pref \<Longrightarrow> fold (keep_best pref) xs z = Some x" for z
    using assms(1,3)
  proof (induction xs arbitrary: z)
    case (Cons y ys)
    show ?case
    proof (cases "y = x")
      case True
      have "keep_best pref x z = Some x" using Cons.prems(1) assms(2) by (cases z) simp_all
      with True show ?thesis by (simp add: keep_best_stays assms(2))
    next
      case False
      then have ys: "x \<in> set ys" "snd y \<noteq> pref" using Cons.prems(2,3) by simp_all
      obtain v where "keep_best pref y z = Some v" "snd v \<noteq> pref"
        using keep_best_other [OF Cons.prems(1) ys(2)] by blast
      with Cons.IH [of "Some v"] ys(1) Cons.prems(3) show ?thesis by simp
    qed
  qed simp
  then show ?thesis by simp
qed

lemma preferred_opposite:
  assumes "a \<noteq> (b :: pystr)"
  shows "preferred_direction a b = OUTBOUND \<longleftrightarrow> preferred_direction b a = INBOUND"
  using assms by (simp add: preferred_direction_def) (meson less_asym linorder_neqE)

section \<open>Admission\<close>

lemma active_count_card:
  "active_connection_count n = card (set (incoming_connections n) \<union> set (outgoing_connections n))"
  by (simp add: active_connection_count_def length_remdups_card_conv)

lemma card_insert_Suc: "card (insert c A) \<le> Suc (card A)"
  by (cases "finite A") (auto simp: card_insert_if)

lemma admission_less:
  assumes "admission_ok n" "cfg m = cfg n"
    and "set (incoming_connections m) \<subseteq> set (incoming_connections n)"
      "set (outgoing_connections m) \<subseteq> set (outgoing_connections n)"
  shows "admission_ok m"
proof -
  have "active_connection_count m \<le> active_connection_count n"
    unfolding active_count_card using assms(3,4) by (intro card_mono) auto
  with assms(1,2) show ?thesis by (simp add: admission_ok_def)
qed

lemma admission_more:
  assumes "int (active_connection_count n) < max_connections (cfg n)" "cfg m = cfg n"
    and "active_connection_count m \<le> Suc (active_connection_count n)"
  shows "admission_ok m"
  using assms by (simp add: admission_ok_def)

lemma admission_events [simp]: "admission_ok (n\<lparr>event_queue := q\<rparr>) = admission_ok n"
  by (simp add: admission_ok_def active_count_card)

lemma admission_emit [keeps_rules]: "keeps admission_ok (emit_event t pid c err md)"
  unfolding keeps_def using emit_event_only [of t pid c err md] by (metis admission_events)

lemma admission_report: "admission_ok n \<Longrightarrow> admission_ok (snd (seq (report_resource_limit x y) f n))"
  if "\<And>u. keeps admission_ok (f u)" for f
  using keeps_snd [OF keeps_seq [OF admission_emit that]] by (auto simp: report_resource_limit_def)

lemma prepare_begin_admission: "keeps admission_ok (prepare_begin c p)"
proof -
  have "admission_ok (n\<lparr>outgoing_connections := List.insert c (outgoing_connections n)\<rparr>)"
    if ok: "admission_ok n" and room: "\<not> (c \<notin> set (outgoing_connections n)
        \<and> max_connections (cfg n) \<le> int (active_connection_count n))" for n
  proof (cases "c \<in> set (outgoing_connections n)")
    case True
    then show ?thesis by (intro admission_less [OF ok]) auto
  next
    case False
    with room show ?thesis
      by (intro admission_more [of n]) (auto simp: active_count_card card_insert_Suc)
  qed
  then show ?thesis
    by (auto simp: keeps_def prepare_begin_def intro!: admission_report keeps_atoms)
qed

lemma accept_admission: "keeps admission_ok (accept_connection c)"
proof -
  have "admission_ok (n\<lparr>incoming_connections := List.insert c (incoming_connections n)\<rparr>)"
    if "\<not> max_connections (cfg n) \<le> int (active_connection_count n)" for n
    using that by (intro admission_more [of n]) (auto simp: active_count_card card_insert_Suc)
  then show ?thesis
    by (auto simp: keeps_def accept_connection_def intro!: admission_report keeps_atoms)
qed

lemma accept_rejects:
  assumes "max_connections (cfg n) \<le> int (active_connection_count n)"
  shows "fst (accept_connection c n) \<noteq> Inr True
    \<and> incoming_connections (snd (accept_connection c n)) = incoming_connections n
    \<and> outgoing_connections (snd (accept_connection c n)) = outgoing_connections n"
proof -
  obtain q where "snd (report_resource_limit None (Some c) n) = n\<lparr>event_queue := q\<rparr>"
    using emit_event_only unfolding report_resource_limit_def by blast
  then show ?thesis
    using assms by (cases "report_resource_limit None (Some c) n")
      (auto simp: accept_connection_def seq_def split: sum.splits)
qed

section \<open>The other paths keep the registry\<close>

lemma fail_pending_fields [simp]:
  "incoming_connections (fail_pending_for_connection c n) = incoming_connections n"
  "outgoing_connections (fail_pending_for_connection c n) = outgoing_connections n"
  "cfg (fail_pending_for_connection c n) = cfg n"
proof -
  have [simp]: "incoming_connections (fail_futures v d m) = incoming_connections m"
    "outgoing_connections (fail_futures v d m) = outgoing_connections m" for v d m
    by (induction d arbitrary: m) (auto simp: complete_future_def)
  show "incoming_connections (fail_pending_for_connection c n) = incoming_connections n"
    "outgoing_connections (fail_pending_for_connection c n) = outgoing_connections n"
    "cfg (fail_pending_for_connection c n) = cfg n"
    by (simp_all add: fail_pending_for_connection_def Let_def)
qed

lemma registry_fail [simp]: "registry_ok (fail_pending_for_connection c n) = registry_ok n"
  "registry_ok (fail_heartbeats_for_connection c n) = registry_ok n"
  by (rule registry_cong; simp)+

lemma registry_paths:
  assumes "registry_ok n"
  shows "registry_ok (incoming_abort c n)" "registry_ok (snd (retire_begin c n))"
    "registry_ok (snd (ended_begin c s n))" "registry_ok (discard_connection c n)"
    "registry_ok (cancel_heartbeat_end c n)" "registry_ok (snd (cancel_heartbeat_begin c n))"
    "registry_ok (prepare_end c d n)"
proof -
  have disc: "registry_ok (discard_connection c m) = registry_ok m" for m
    by (rule registry_cong) (simp add: discard_connection_def)
  have inc: "registry_ok (m\<lparr>incoming_connections := x\<rparr>) = registry_ok m"
    "registry_ok (m\<lparr>outgoing_connections := x\<rparr>) = registry_ok m"
    "registry_ok (m\<lparr>heartbeat_tasks := y\<rparr>) = registry_ok m"
    "registry_ok (m\<lparr>last_received_activity := z\<rparr>) = registry_ok m" for m x y z
    by (rule registry_cong, simp)+
  note deact = registry_deactivate [OF assms, of c]
  show "registry_ok (incoming_abort c n)" "registry_ok (snd (retire_begin c n))"
    "registry_ok (snd (ended_begin c s n))" "registry_ok (discard_connection c n)"
    "registry_ok (cancel_heartbeat_end c n)" "registry_ok (snd (cancel_heartbeat_begin c n))"
    "registry_ok (prepare_end c d n)"
    using assms deact
    by (simp_all add: incoming_abort_def retire_begin_def ended_begin_def disc inc Let_def
        cancel_heartbeat_end_def cancel_heartbeat_begin_def prepare_end_def)
qed

lemma admission_paths:
  assumes "admission_ok n"
  shows "admission_ok (incoming_abort c n)" "admission_ok (snd (retire_begin c n))"
    "admission_ok (snd (ended_begin c s n))" "admission_ok (discard_connection c n)"
    "admission_ok (prepare_end c d n)"
  by (rule admission_less [OF assms];
      auto simp: incoming_abort_def retire_begin_def ended_begin_def discard_connection_def Let_def
        prepare_end_def)+

text \<open>After a connection ended, nothing of the registry refers to it.\<close>

lemma ended_forgets:
  assumes "registry_ok n"
  shows "map_of (sessions (snd (ended_begin c s n))) c = None"
    and "map_of (peer_connections (snd (ended_begin c s n))) p \<noteq> Some c"
    and "c \<notin> set (incoming_connections (snd (ended_begin c s n)))"
    and "c \<notin> set (outgoing_connections (snd (ended_begin c s n)))"
proof -
  let ?d = "discard_connection c (deactivate_session c n)"
  have r: "registry_of (snd (ended_begin c s n)) = registry_of ?d"
    by (simp add: ended_begin_def)
  have d: "sessions ?d = sessions (deactivate_session c n)"
    "peer_connections ?d = peer_connections (deactivate_session c n)"
    by (simp_all add: discard_connection_def)
  show "map_of (sessions (snd (ended_begin c s n))) c = None"
    "map_of (peer_connections (snd (ended_begin c s n))) p \<noteq> Some c"
    using r d deactivate_peers [OF assms] by (auto simp: registry_of_def)
  show "c \<notin> set (incoming_connections (snd (ended_begin c s n)))"
    "c \<notin> set (outgoing_connections (snd (ended_begin c s n)))"
    by (simp_all add: ended_begin_def discard_connection_def)
qed

section \<open>Replies\<close>

lemma reply_candidates_eq:
  assumes "registry_ok n"
  shows "reply_candidates w v n = Inr (filter (\<lambda>c. c \<notin> closed_conns w
    \<and> (\<exists>s. map_of (sessions n) c = Some s \<and> PStr (session_peer_id s) = v))
    (List.map snd (session_connections n)))"
proof -
  have step: "rmap (\<lambda>(k, c). if c \<in> closed_conns w then Inr (c, False)
         else (case map_of (sessions n) k of
                 None \<Rightarrow> Inl KeyError | Some s \<Rightarrow> Inr (c, PStr (session_peer_id s) = v))) xs
      = Inr (List.map (\<lambda>(k, c). (c, c \<notin> closed_conns w
          \<and> (\<exists>s. map_of (sessions n) c = Some s \<and> PStr (session_peer_id s) = v))) xs)"
    if "set xs \<subseteq> set (session_connections n)" for xs
  proof (rule rmap_eq_Inr)
    fix kc assume "kc \<in> set xs"
    then have "kc \<in> set (session_connections n)" using that by blast
    then obtain k c where kc: "kc = (k, c)" "(k, c) \<in> set (session_connections n)"
      by (metis surj_pair)
    then have m: "map_of (session_connections n) k = Some c"
      using registry_tables(4) [OF assms] by simp
    then have "c = k" by (rule registry_tables(1) [OF assms])
    moreover obtain s where "map_of (sessions n) k = Some s"
      using registry_tables(2) [OF assms, of k] m by auto
    ultimately show "(case kc of (k, c) \<Rightarrow> if c \<in> closed_conns w then Inr (c, False)
         else (case map_of (sessions n) k of
                 None \<Rightarrow> Inl KeyError | Some s \<Rightarrow> Inr (c, PStr (session_peer_id s) = v)))
      = Inr (case kc of (k, c) \<Rightarrow> (c, c \<notin> closed_conns w
          \<and> (\<exists>s. map_of (sessions n) c = Some s \<and> PStr (session_peer_id s) = v)))"
      by (simp add: kc(1))
  qed
  have filt: "List.map fst (filter snd (List.map (\<lambda>(k, c). (c, P c)) xs)) = filter P (List.map snd xs)"
    for P :: "conn \<Rightarrow> bool" and xs :: "(conn \<times> conn) list"
    by (induction xs) auto
  show ?thesis by (simp add: reply_candidates_def step filt)
qed

text \<open>The branch for several READY connections of one peer is never taken.\<close>

lemma reply_candidates_unique:
  assumes "registry_ok n" "reply_candidates w (PStr p) n = Inr cs"
  shows "cs = (case connection_for_peer w p n of None \<Rightarrow> [] | Some c \<Rightarrow> [c])"
proof -
  let ?P = "\<lambda>c. c \<notin> closed_conns w \<and> (\<exists>s. map_of (sessions n) c = Some s \<and> PStr (session_peer_id s) = PStr p)"
  have cs: "cs = filter ?P (List.map snd (session_connections n))"
    using assms(2) by (simp add: reply_candidates_eq [OF assms(1)])
  have snd_fst: "List.map snd (session_connections n) = dkeys (session_connections n)"
    using registry_tables(1,4) [OF assms(1)] by (intro map_cong) auto
  have dist: "distinct cs"
    unfolding cs snd_fst using registry_tables(4) [OF assms(1)] by (rule distinct_filter)
  have mem: "c \<in> set cs \<longleftrightarrow> connection_for_peer w p n = Some c" for c
  proof
    assume "c \<in> set cs"
    then obtain s where s: "c \<notin> closed_conns w" "map_of (sessions n) c = Some s" "session_peer_id s = p"
      unfolding cs by auto
    with registry_session(2) [OF assms(1) s(2)] show "connection_for_peer w p n = Some c"
      by (simp add: connection_for_peer_def)
  next
    assume "connection_for_peer w p n = Some c"
    then have c: "c \<notin> closed_conns w" "map_of (peer_connections n) p = Some c"
      by (auto simp: connection_for_peer_def split: option.splits if_splits)
    obtain s where s: "map_of (sessions n) c = Some s" "session_peer_id s = p"
      using registry_peer [OF assms(1) c(2)] .
    then have "map_of (session_connections n) c \<noteq> None"
      using registry_tables(2) [OF assms(1), of c] by simp
    then have "c \<in> set (dkeys (session_connections n))"
      by (simp add: map_of_None_iff)
    with c s show "c \<in> set cs" by (simp add: cs snd_fst)
  qed
  show ?thesis
  proof (cases "connection_for_peer w p n")
    case None
    with mem have "\<forall>c. c \<notin> set cs" by simp
    then have "cs = []" by (cases cs) auto
    with None show ?thesis by simp
  next
    case (Some c)
    with mem have "set cs = set [c]" by auto
    then have "cs = [c]" using dist by (cases cs rule: list.exhaust; cases "tl cs") auto
    with Some show ?thesis by simp
  qed
qed

section \<open>Properties\<close>

text \<open>C4 Simultaneous connects converge: two nodes that each dialled the other negotiate two
  connections, \<open>x\<close> dialled by the first node and \<open>y\<close> dialled by the second. In whichever order
  each of them selects the two, both end with the same one, the connection dialled by the node
  with the smaller peer id.\<close>

theorem duplicate_resolution_agrees:
  assumes "registry_ok n1" "registry_ok n2" "local_peer n1 \<noteq> local_peer n2"
    and "connection_for_peer w1 (local_peer n2) n1 = None" "connection_for_peer w2 (local_peer n1) n2 = None"
    and "fresh_offers w1 (local_peer n2) [(x1, sx1, OUTBOUND), (y1, sy1, INBOUND)] n1"
    and "fresh_offers w2 (local_peer n1) [(x2, sx2, INBOUND), (y2, sy2, OUTBOUND)] n2"
    and "xs \<in> {[(x1, sx1, OUTBOUND), (y1, sy1, INBOUND)], [(y1, sy1, INBOUND), (x1, sx1, OUTBOUND)]}"
    and "ys \<in> {[(x2, sx2, INBOUND), (y2, sy2, OUTBOUND)], [(y2, sy2, OUTBOUND), (x2, sx2, INBOUND)]}"
  shows "if local_peer n1 < local_peer n2
    then connection_for_peer w1 (local_peer n2) (select_all w1 xs n1) = Some x1
       \<and> connection_for_peer w2 (local_peer n1) (select_all w2 ys n2) = Some x2
    else connection_for_peer w1 (local_peer n2) (select_all w1 xs n1) = Some y1
       \<and> connection_for_peer w2 (local_peer n1) (select_all w2 ys n2) = Some y2"
proof -
  have none: "canonical w1 (local_peer n2) n1 = None" "canonical w2 (local_peer n1) n2 = None"
    using assms(4,5) by (simp_all add: canonical_def)
  have conn: "connection_for_peer w p n = Some c" if "canonical w p n = Some (c, d)" for w p n c d
    using that by (auto simp: canonical_def split: option.splits)
  have f: "fresh_offers w1 (local_peer n2) xs n1" "fresh_offers w2 (local_peer n1) ys n2"
    using assms(6-9) by (auto simp: fresh_offers_def)
  note c1 = canonical_select_all [OF assms(1) assms(3) [symmetric] f(1)]
  note c2 = canonical_select_all [OF assms(2,3) f(2)]
  have order: "\<not> local_peer n2 < local_peer n1 \<longleftrightarrow> local_peer n1 < local_peer n2"
    using assms(3) by (meson less_asym linorder_neqE)
  show ?thesis
  proof (cases "local_peer n1 < local_peer n2")
    case True
    then have p: "preferred_direction (local_peer n1) (local_peer n2) = OUTBOUND"
      "preferred_direction (local_peer n2) (local_peer n1) = INBOUND"
      using order by (auto simp: preferred_direction_def)
    have "canonical w1 (local_peer n2) (select_all w1 xs n1) = Some (x1, OUTBOUND)"
      using c1 none(1) assms(8) p(1) by auto
    moreover have "canonical w2 (local_peer n1) (select_all w2 ys n2) = Some (x2, INBOUND)"
      using c2 none(2) assms(9) p(2) by auto
    ultimately show ?thesis using True conn by simp
  next
    case False
    then have p: "preferred_direction (local_peer n1) (local_peer n2) = INBOUND"
      "preferred_direction (local_peer n2) (local_peer n1) = OUTBOUND"
      using order by (auto simp: preferred_direction_def)
    have "canonical w1 (local_peer n2) (select_all w1 xs n1) = Some (y1, INBOUND)"
      using c1 none(1) assms(8) p(1) by auto
    moreover have "canonical w2 (local_peer n1) (select_all w2 ys n2) = Some (y2, OUTBOUND)"
      using c2 none(2) assms(9) p(2) by auto
    ultimately show ?thesis using False conn by simp
  qed
qed

definition example_session :: "pystr \<Rightarrow> protocol_session" where
  "example_session p = \<lparr>session_peer_id = p, session_version = 1, session_serializer_id = lit ''json'',
     session_capabilities = [], session_max_message_size = 100, peer_id_authenticated = False,
     session_metadata = []\<rparr>"

definition example_world :: world where
  "example_world = \<lparr>closed_conns = {}, conn_security = (\<lambda>_. unsecured),
     clk = \<lparr>utc_now = 0, monotonic = 0\<rparr>\<rparr>"

lemma new_node_registry [simp]: "registry_ok (new_node p c)"
  by (simp add: registry_ok_def new_node_def)

theorem duplicate_resolution_agrees_witness:
  "connection_for_peer example_world (lit ''b'')
     (select_all example_world [(4, example_session (lit ''b''), INBOUND),
        (3, example_session (lit ''b''), OUTBOUND)] (new_node (lit ''a'') example_config)) = Some 3
   \<and> connection_for_peer example_world (lit ''a'')
     (select_all example_world [(7, example_session (lit ''a''), INBOUND),
        (8, example_session (lit ''a''), OUTBOUND)] (new_node (lit ''b'') example_config)) = Some 7"
proof -
  have ids: "local_peer (new_node p c) = p" "sessions (new_node p c) = []" "peer_connections (new_node p c) = []"
    for p c by (simp_all add: new_node_def)
  have peers: "lit ''a'' \<noteq> lit ''b''" "lit ''a'' < lit ''b''" by simp_all
  show ?thesis
    using duplicate_resolution_agrees [of "new_node (lit ''a'') example_config"
        "new_node (lit ''b'') example_config" example_world example_world 3 "example_session (lit ''b'')"
        4 "example_session (lit ''b'')" 7 "example_session (lit ''a'')" 8 "example_session (lit ''a'')"
        "[(4, example_session (lit ''b''), INBOUND), (3, example_session (lit ''b''), OUTBOUND)]"
        "[(7, example_session (lit ''a''), INBOUND), (8, example_session (lit ''a''), OUTBOUND)]"]
    by (simp add: ids peers connection_for_peer_def fresh_offers_def example_world_def example_session_def)
qed

end
