(* ===== verification/Reader.thy ===== *)
theory Reader
  imports Sessions
begin

text \<open>
  What a READY session receives and sends: \<open>_read_connection\<close> with \<open>_send_acknowledgement\<close>,
  \<open>_send_heartbeat_response\<close> and \<open>_enqueue_dispatch\<close>, the dispatch workers, and the part of
  \<open>_send_message\<close> before its first await (\<open>src/paqto/core/node.py\<close>). The application serializer
  is the caller's: a record \<open>codec\<close> of its two methods.

  The reader is cut at its awaits. \<open>reader_pc\<close> says what it waits for, \<open>reader_resume\<close> what it
  does when that has come; \<open>reader_life\<close> are the states it goes through while the node changes
  around it.

  The lemmas: only a valid message of the session's own peer, addressed to this node, reaches a
  handler queue or a pending request; a control that was not negotiated changes nothing; a
  message is acknowledged before it is delivered; the inbound queue respects its limit.
\<close>

record codec =
  codec_id :: pystr
  codec_serialize :: "message \<Rightarrow> exn + pyval"
  codec_deserialize :: "bytes \<Rightarrow> exn + message option"

text \<open>\<open>except SerializationError: raise; except Exception: raise SerializationError\<close>\<close>

definition as_serialization :: "exn + 'a \<Rightarrow> exn + 'a" where
  "as_serialization r =
     (case r of
        Inr x \<Rightarrow> Inr x
      | Inl e \<Rightarrow> Inl (if exn_isa e SerializationError then e
                      else if exn_isa e ExceptionClass then SerializationError else e))"

section \<open>Receiving\<close>

definition accept_message :: "codec \<Rightarrow> pystr \<Rightarrow> protocol_session \<Rightarrow> bytes \<Rightarrow> exn + message" where
  "accept_message cd local_id s data =
     rbind (as_serialization (codec_deserialize cd data)) (\<lambda>r.
     rbind (opt_res SerializationError r) (\<lambda>m.
     rbind (validate_message m) (\<lambda>_.
     rbind (guard (sender m = PStr (session_peer_id s)) PeerIdentityMismatchError) (\<lambda>_.
     rbind (guard (recipient m = PNone \<or> recipient m = PStr local_id) ProtocolFrameError) (\<lambda>_.
       Inr m)))))"

datatype after_send = AfterPong | AfterAcknowledgement message

datatype reader_pc =
    LoopHead
  | Sending after_send queue_answer
  | AwaitInbound inbound_dispatch

definition inbound_full :: "node \<Rightarrow> inbound_dispatch list \<Rightarrow> bool" where
  "inbound_full n q \<longleftrightarrow> max_inbound_queue (cfg n) \<le> int (length q)"

definition enqueue_dispatch :: "conn \<Rightarrow> protocol_session \<Rightarrow> message \<Rightarrow> reader_pc node_act" where
  "enqueue_dispatch c s m = reads (\<lambda>n.
     case inbound_queue n of
       None \<Rightarrow> raise ConnectionClosedError
     | Some q \<Rightarrow>
         let item = \<lparr>in_message = m, in_connection = c, in_peer = session_peer_id s\<rparr> in
         if \<not> inbound_full n q then
           seq (update (\<lambda>n. n\<lparr>inbound_queue := Some (q @ [item])\<rparr>)) (\<lambda>_. ret LoopHead)
         else (case inbound_backpressure (cfg n) of
                 WAIT \<Rightarrow> ret (AwaitInbound item)
               | REJECT \<Rightarrow> seq (report_resource_limit (Some (session_peer_id s)) (Some c))
                             (\<lambda>_. raise ResourceLimitError)))"

definition deliver_message :: "conn \<Rightarrow> protocol_session \<Rightarrow> message \<Rightarrow> reader_pc node_act" where
  "deliver_message c s m =
     (if reply_to m \<noteq> PNone then seq (update (resolve_reply c s m)) (\<lambda>_. ret LoopHead)
      else enqueue_dispatch c s m)"

definition send_control :: "world \<Rightarrow> conn \<Rightarrow> after_send \<Rightarrow> exn + bytes \<Rightarrow> reader_pc node_act" where
  "send_control w c next f =
     seq (lift_res f) (\<lambda>frame. seq (queue_frame w c frame) (\<lambda>a. ret (Sending next a)))"

definition process_item ::
    "pyrt \<Rightarrow> codec \<Rightarrow> world \<Rightarrow> conn \<Rightarrow> protocol_session \<Rightarrow> session_item \<Rightarrow> reader_pc node_act" where
  "process_item rt cd w c s item =
     (case item of
        TechnicalAcknowledgement mid \<Rightarrow>
          seq (check (TECHNICAL_ACK_CAPABILITY \<in> set (session_capabilities s)) ProtocolFrameError) (\<lambda>_.
          seq (update (resolve_acknowledgement c s mid)) (\<lambda>_. ret LoopHead))
      | HeartbeatPing pid \<Rightarrow>
          seq (check (HEARTBEAT_CAPABILITY \<in> set (session_capabilities s)) ProtocolFrameError) (\<lambda>_.
            send_control w c AfterPong (encode_pong_frame rt (PStr pid)))
      | HeartbeatPong pid \<Rightarrow>
          seq (check (HEARTBEAT_CAPABILITY \<in> set (session_capabilities s)) ProtocolFrameError) (\<lambda>_.
          seq (update (resolve_heartbeat c pid)) (\<lambda>_. ret LoopHead))
      | ApplicationData data \<Rightarrow> reads (\<lambda>n.
          seq (lift_res (accept_message cd (local_peer n) s data)) (\<lambda>m.
            if TECHNICAL_ACK_CAPABILITY \<in> set (session_capabilities s)
            then send_control w c (AfterAcknowledgement m) (encode_acknowledgement_frame rt (msg_id m))
            else deliver_message c s m)))"

definition process_frame ::
    "pyrt \<Rightarrow> codec \<Rightarrow> world \<Rightarrow> conn \<Rightarrow> protocol_session \<Rightarrow> pyval \<Rightarrow> reader_pc node_act" where
  "process_frame rt cd w c s frame =
     seq (update (\<lambda>n. n\<lparr>last_received_activity := dput c (monotonic (clk w)) (last_received_activity n)\<rparr>)) (\<lambda>_.
     seq (lift_res (decode_session_frame rt frame (session_max_message_size s))) (\<lambda>item.
       process_item rt cd w c s item))"

text \<open>What the reader is resumed with: the outcome of the await it is at.\<close>

datatype reader_input =
    Frame "exn + pyval"
  | SendOutcome "exn + unit"
  | RoomWoken

definition receive_failure :: "exn \<Rightarrow> exn" where
  "receive_failure e = (if exn_isa e TimeoutError then ConnectionIdleTimeoutError else e)"

definition reader_continues :: "world \<Rightarrow> conn \<Rightarrow> node \<Rightarrow> bool" where
  "reader_continues w c n \<longleftrightarrow> running n \<and> c \<notin> closed_conns w"

definition after_sent :: "conn \<Rightarrow> protocol_session \<Rightarrow> after_send \<Rightarrow> reader_pc node_act" where
  "after_sent c s next =
     (case next of AfterPong \<Rightarrow> ret LoopHead | AfterAcknowledgement m \<Rightarrow> deliver_message c s m)"

fun reader_resume ::
    "pyrt \<Rightarrow> codec \<Rightarrow> world \<Rightarrow> conn \<Rightarrow> protocol_session \<Rightarrow> reader_pc \<Rightarrow> reader_input \<Rightarrow>
     reader_pc node_act" where
  "reader_resume rt cd w c s LoopHead (Frame (Inr frame)) = process_frame rt cd w c s frame"
| "reader_resume rt cd w c s LoopHead (Frame (Inl e)) = raise (receive_failure e)"
| "reader_resume rt cd w c s (Sending next a) (SendOutcome (Inr _)) = after_sent c s next"
| "reader_resume rt cd w c s (Sending next a) (SendOutcome (Inl e)) = raise e"
| "reader_resume rt cd w c s (Sending next (AwaitRoom k fr)) RoomWoken =
     seq (put_waiting k fr) (\<lambda>a. ret (Sending next a))"
| "reader_resume rt cd w c s (AwaitInbound item) RoomWoken = reads (\<lambda>n.
     case inbound_queue n of
       None \<Rightarrow> ret (AwaitInbound item)
     | Some q \<Rightarrow> if inbound_full n q then ret (AwaitInbound item)
                 else seq (update (\<lambda>n. n\<lparr>inbound_queue := Some (q @ [item])\<rparr>)) (\<lambda>_. ret LoopHead))"
| "reader_resume rt cd w c s pc _ = ret pc"

text \<open>
  The \<open>except\<close> clauses: what is reported. The result says whether the exception goes on after
  the \<open>finally\<close> clause.
\<close>

definition reader_failed :: "conn \<Rightarrow> protocol_session \<Rightarrow> exn \<Rightarrow> bool node_act" where
  "reader_failed c s e =
     (if exn_isa e ConnectionClosedError \<or> exn_isa e ResourceLimitError then ret False
      else if exn_in e [ProtocolError, SerializationError, TransportError] then
        seq (report_protocol_error c e (Some (session_peer_id s))) (\<lambda>_. ret False)
      else if exn_isa e ConnectionIdleTimeoutError then ret False
      else if exn_isa e ExceptionClass then
        seq (report_protocol_error c e (Some (session_peer_id s))) (\<lambda>_. ret False)
      else ret True)"

section \<open>Dispatching\<close>

text \<open>
  A dispatch worker of one lifecycle generation: taking an item, and what it does with the
  outcome of the handlers. The result of the second is whether the connection is closed.
\<close>

definition worker_current :: "nat \<Rightarrow> node \<Rightarrow> bool" where
  "worker_current generation n \<longleftrightarrow> running n \<and> generation = lifecycle_generation n"

definition dispatch_take :: "nat \<Rightarrow> node \<Rightarrow> (inbound_dispatch \<times> node) option" where
  "dispatch_take generation n =
     (if worker_current generation n then
        (case inbound_queue n of
           Some (item # q) \<Rightarrow> Some (item, n\<lparr>inbound_queue := Some q\<rparr>)
         | _ \<Rightarrow> None)
      else None)"

definition dispatch_handled :: "inbound_dispatch \<Rightarrow> exn + nat \<Rightarrow> bool node_act" where
  "dispatch_handled item outcome = reads (\<lambda>n.
     case outcome of
       Inr _ \<Rightarrow> ret False
     | Inl e \<Rightarrow>
         if exn_isa e MessageRoutingError then
           seq (report_handler_error item e) (\<lambda>_.
             ret (handler_error_policy.CLOSE_CONNECTION = handler_error_policy (cfg n)))
         else raise e)"

definition dispatch_item ::
    "(handler \<Rightarrow> message \<Rightarrow> exn + unit) \<Rightarrow> message_router \<Rightarrow> inbound_dispatch \<Rightarrow> bool node_act" where
  "dispatch_item run r item = dispatch_handled item (snd (dispatch_message run r (in_message item)))"

definition start_dispatch_worker :: "unit node_act" where
  "start_dispatch_worker = seq create_task (\<lambda>t.
     update (\<lambda>n. n\<lparr>handler_tasks := List.insert t (handler_tasks n)\<rparr>))"

definition handler_finished :: "nat \<Rightarrow> nat \<Rightarrow> unit node_act" where
  "handler_finished t generation =
     seq (update (\<lambda>n. n\<lparr>handler_tasks := removeAll t (handler_tasks n)\<rparr>)) (\<lambda>_. reads (\<lambda>n.
       if worker_current generation n then start_dispatch_worker else ret ()))"

definition event_take :: "nat \<Rightarrow> node \<Rightarrow> (node_event \<times> node) option" where
  "event_take generation n =
     (if worker_current generation n then
        (case event_queue n of
           Some (ev # q) \<Rightarrow> Some (ev, n\<lparr>event_queue := Some q\<rparr>) | _ \<Rightarrow> None)
      else None)"

section \<open>Sending\<close>

text \<open>
  \<open>_send_message\<close> up to its first await: the frame to queue and the future of the
  acknowledgement. \<open>new_message\<close> is the envelope of \<open>send\<close>, \<open>request\<close> and \<open>reply\<close>, with the
  generated id and time.
\<close>

definition new_message ::
    "pystr \<Rightarrow> pyval \<Rightarrow> pyval \<Rightarrow> pyval \<Rightarrow> pyval \<Rightarrow> pyval \<Rightarrow> pyval \<Rightarrow> pyval \<Rightarrow> message" where
  "new_message local_id to_peer body kind heads mid time reply =
     \<lparr>payload = body, msg_type = kind, sender = PStr local_id, recipient = to_peer,
      headers = heads, msg_id = mid, created_at = time, reply_to = reply\<rparr>"

definition prepare_message ::
    "codec \<Rightarrow> conn \<Rightarrow> message \<Rightarrow> pyval \<Rightarrow> node \<Rightarrow> exn + bytes \<times> bool \<times> protocol_session" where
  "prepare_message cd c m require_ack n =
     rbind (opt_res TypeError (as_bool require_ack)) (\<lambda>ack.
     rbind (validate_message m) (\<lambda>_.
     rbind (opt_res ProtocolFrameError (map_of (sessions n) c)) (\<lambda>s.
     rbind (guard (ack \<longrightarrow> TECHNICAL_ACK_CAPABILITY \<in> set (session_capabilities s))
             AcknowledgementUnavailableError) (\<lambda>_.
     rbind (as_serialization (codec_serialize cd m)) (\<lambda>v.
     rbind (case v of PBytes b \<Rightarrow> Inr b | _ \<Rightarrow> Inl SerializationError) (\<lambda>data.
     rbind (encode_application_frame (PBytes data) (session_max_message_size s)) (\<lambda>frame.
       Inr (frame, ack, s))))))))"

definition send_begin ::
    "codec \<Rightarrow> conn \<Rightarrow> message \<Rightarrow> pyval \<Rightarrow> (bytes \<times> (pystr \<times> nat) option) node_act" where
  "send_begin cd c m require_ack = reads (\<lambda>n.
     seq (lift_res (prepare_message cd c m require_ack n)) (\<lambda>(frame, ack, s).
       case (ack, as_str (msg_id m)) of
         (True, Some mid) \<Rightarrow>
           seq (open_acknowledgement mid c (session_peer_id s)) (\<lambda>f. ret (frame, Some (mid, f)))
       | _ \<Rightarrow> ret (frame, None)))"

text \<open>How the outcomes of its two awaits end the method, and its \<open>finally\<close> clause.\<close>

definition send_outcome_of :: "exn + unit \<Rightarrow> (exn + unit) option \<Rightarrow> exn + unit" where
  "send_outcome_of queued acked =
     (case queued of
        Inl e \<Rightarrow> Inl (if exn_isa e TimeoutError then PaqtoTimeoutError else e)
      | Inr _ \<Rightarrow>
          (case acked of
             None \<Rightarrow> Inr ()
           | Some (Inl e) \<Rightarrow> Inl (if exn_isa e TimeoutError then AcknowledgementTimeoutError else e)
           | Some (Inr _) \<Rightarrow> Inr ()))"

definition send_end :: "(pystr \<times> nat) option \<Rightarrow> node \<Rightarrow> node" where
  "send_end ack n = (case ack of None \<Rightarrow> n | Some (mid, f) \<Rightarrow> close_acknowledgement mid f n)"

definition request_outcome :: "exn + message \<Rightarrow> exn + message" where
  "request_outcome r =
     (case r of Inl e \<Rightarrow> Inl (if exn_isa e TimeoutError then RequestTimeoutError else e) | Inr m \<Rightarrow> Inr m)"

section \<open>What is accepted\<close>

lemma accept_message_ok:
  assumes "accept_message cd local_id s data = Inr m"
  shows "codec_deserialize cd data = Inr (Some m)" "validate_message m = Inr ()"
    "sender m = PStr (session_peer_id s)" "recipient m = PNone \<or> recipient m = PStr local_id"
  using assms
  by (auto simp: accept_message_def as_serialization_def res_simps split: sum.splits elim!: rbind_InrE)

lemma accept_message_error:
  assumes "accept_message cd local_id s data = Inl e"
  shows "e = SerializationError \<or> e = ProtocolFrameError \<or> e = PeerIdentityMismatchError
    \<or> codec_deserialize cd data = Inl e"
  using assms
  by (auto simp: accept_message_def as_serialization_def res_simps dest!: validate_message_error
      split: sum.splits if_split_asm elim!: rbind_InlE) (simp add: opt_res_def split: option.splits)

text \<open>What a message must be for a session of this node.\<close>

definition from_session :: "node \<Rightarrow> protocol_session \<Rightarrow> message \<Rightarrow> bool" where
  "from_session n s m \<longleftrightarrow> validate_message m = Inr () \<and> sender m = PStr (session_peer_id s)
     \<and> (recipient m = PNone \<or> recipient m = PStr (local_peer n))"

lemma accept_from_session: "accept_message cd (local_peer n) s data = Inr m \<Longrightarrow> from_session n s m"
  by (simp add: from_session_def accept_message_ok(2,3)) (meson accept_message_ok(4))

text \<open>
  \<open>hands_over c s P n n'\<close>: between \<open>n\<close> and \<open>n'\<close> the application was handed messages of \<open>P\<close>
  only, through the inbound queue or as the reply of a waiting request.
\<close>

definition hands_over ::
    "conn \<Rightarrow> protocol_session \<Rightarrow> (message \<Rightarrow> bool) \<Rightarrow> node \<Rightarrow> node \<Rightarrow> bool" where
  "hands_over c s P n n' \<longleftrightarrow>
     (inbound_queue n' = inbound_queue n
      \<or> (\<exists>q m. P m \<and> inbound_queue n = Some q \<and> inbound_queue n' = Some (q @
           [\<lparr>in_message = m, in_connection = c, in_peer = session_peer_id s\<rparr>])))
     \<and> (\<forall>f x. future_state f n = Waiting \<and> future_state f n' = Resolved (Some x) \<longrightarrow> P x)"

lemma hands_over_same:
  assumes "inbound_queue n' = inbound_queue n" "futures n' = futures n"
  shows "hands_over c s P n n'"
  using assms by (auto simp: hands_over_def future_state_def)

lemma hands_over_complete:
  assumes "inbound_queue n' = inbound_queue n" "futures n' = futures n" "\<forall>x. v = Resolved (Some x) \<longrightarrow> P x"
  shows "hands_over c s P n (complete_future f v n')"
proof -
  have st: "future_state g n' = future_state g n" for g using assms(2) by (simp add: future_state_def)
  have "inbound_queue (complete_future f v n') = inbound_queue n'" by (simp add: complete_future_def)
  with assms(1,3) show ?thesis by (auto simp: hands_over_def complete_future_state st)
qed

lemma hands_over_from:
  assumes "hands_over c s P m n'" "inbound_queue m = inbound_queue n" "futures m = futures n"
  shows "hands_over c s P n n'"
proof -
  have "future_state g m = future_state g n" for g using assms(3) by (simp add: future_state_def)
  with assms(1,2) show ?thesis by (simp add: hands_over_def)
qed

lemma hands_over_then:
  assumes "hands_over c s P n m" "inbound_queue n' = inbound_queue m" "futures n' = futures m"
  shows "hands_over c s P n n'"
proof -
  have "future_state g n' = future_state g m" for g using assms(3) by (simp add: future_state_def)
  with assms(1,2) show ?thesis by (simp add: hands_over_def)
qed

lemma hands_over_new_future: "hands_over c s P n (n\<lparr>futures := futures n @ [Waiting]\<rparr>)"
  by (auto simp: hands_over_def future_state_def nth_append)

lemma emit_event_futures [simp]:
  "futures (snd (emit_event t pid c err md n)) = futures n"
  "inbound_queue (snd (emit_event t pid c err md n)) = inbound_queue n"
  by (simp_all add: emit_event_def split: option.splits sum.splits)

lemma emit_event_cases:
  assumes "emit_event t pid c err md n = (r, n')"
  shows "futures n' = futures n" "inbound_queue n' = inbound_queue n"
  using emit_event_futures [of t pid c err md n] assms by simp_all

lemma report_then_raise:
  "fst (seq (report_resource_limit x y) (\<lambda>_. raise e) n) \<noteq> Inr v"
  "futures (snd (seq (report_resource_limit x y) (\<lambda>_. raise e) n)) = futures n"
  "inbound_queue (snd (seq (report_resource_limit x y) (\<lambda>_. raise e) n)) = inbound_queue n"
  by (auto simp: report_resource_limit_def seq_def emit_event_cases split: prod.splits sum.splits)

lemma enqueue_hands_over: "P m \<Longrightarrow> hands_over c s P n (snd (enqueue_dispatch c s m n))"
  by (auto simp: enqueue_dispatch_def Let_def report_then_raise hands_over_same
      split: option.splits backpressure.splits) (auto simp: hands_over_def future_state_def)

lemma enqueue_no_send: "fst (enqueue_dispatch c s m n) \<noteq> Inr (Sending x a)"
  by (auto simp: enqueue_dispatch_def Let_def report_then_raise split: option.splits backpressure.splits)

lemma deliver_hands_over: "P m \<Longrightarrow> hands_over c s P n (snd (deliver_message c s m n))"
  by (auto simp: deliver_message_def enqueue_hands_over resolve_reply_def hands_over_same
      hands_over_complete split: option.splits)

lemma deliver_no_send: "fst (deliver_message c s m n) \<noteq> Inr (Sending x a)"
  by (simp add: deliver_message_def enqueue_no_send)

lemma queue_frame_hands_over: "hands_over c s P n (snd (queue_frame w c' data n))"
proof -
  have put: "hands_over c s P n (put_frame k fr (n\<lparr>futures := futures n @ [Waiting]\<rparr>))" for k fr
    by (rule hands_over_then [OF hands_over_new_future]) (simp_all add: put_frame_def Let_def set_channel_def)
  show ?thesis
    by (auto simp: queue_frame_def new_future_def seq_def [of new_future] Let_def put hands_over_new_future
        hands_over_then [OF hands_over_new_future] report_then_raise hands_over_same
        split: option.splits backpressure.splits)
qed

lemma send_control_hands_over: "hands_over c s P n (snd (send_control w c next f n))"
proof (cases f)
  case (Inr frame)
  have "snd (seq (queue_frame w c frame) (\<lambda>a. ret (Sending next a)) n) = snd (queue_frame w c frame n)"
    by (cases "queue_frame w c frame n") (auto simp: seq_def split: sum.splits)
  with Inr show ?thesis by (simp add: send_control_def queue_frame_hands_over)
qed (simp add: send_control_def hands_over_same)

lemma send_control_next: "fst (send_control w c next f n) = Inr pc \<Longrightarrow> \<exists>a. pc = Sending next a"
  by (cases "f") (auto simp: send_control_def seq_def split: prod.splits sum.splits)

text \<open>An item of the session hands over the accepted message of an application frame only.\<close>

definition accepted_item :: "codec \<Rightarrow> node \<Rightarrow> protocol_session \<Rightarrow> session_item \<Rightarrow> message \<Rightarrow> bool" where
  "accepted_item cd n s item m \<longleftrightarrow>
     (\<exists>data. item = ApplicationData data \<and> accept_message cd (local_peer n) s data = Inr m)"

lemma process_item_hands_over:
  "hands_over c s (accepted_item cd n s item) n (snd (process_item rt cd w c s item n))"
  by (auto simp: process_item_def resolve_acknowledgement_def resolve_heartbeat_def hands_over_same
      hands_over_complete send_control_hands_over accepted_item_def deliver_hands_over
      split: session_item.splits option.splits sum.splits)

lemma process_item_sends:
  assumes "fst (process_item rt cd w c s item n) = Inr (Sending (AfterAcknowledgement m) a)"
  shows "accepted_item cd n s item m"
  using assms
  by (auto simp: process_item_def accepted_item_def deliver_no_send dest: send_control_next
      split: session_item.splits option.splits sum.splits if_split_asm)

lemma hands_over_mono: "hands_over c s P n n' \<Longrightarrow> (\<And>m. P m \<Longrightarrow> Q m) \<Longrightarrow> hands_over c s Q n n'"
  by (fastforce simp: hands_over_def)

text \<open>A session with acknowledgements hands nothing over before the acknowledgement is sent.\<close>

lemma process_item_acknowledged:
  assumes "TECHNICAL_ACK_CAPABILITY \<in> set (session_capabilities s)"
  shows "hands_over c s (\<lambda>_. False) n (snd (process_item rt cd w c s item n))"
  using assms
  by (auto simp: process_item_def resolve_acknowledgement_def resolve_heartbeat_def hands_over_same
      hands_over_complete send_control_hands_over split: session_item.splits option.splits sum.splits)

lemma process_frame_item:
  assumes "decode_session_frame rt frame (session_max_message_size s) = Inr item"
  shows "process_frame rt cd w c s frame n = process_item rt cd w c s item
    (n\<lparr>last_received_activity := dput c (monotonic (clk w)) (last_received_activity n)\<rparr>)"
  using assms by (simp add: process_frame_def)

lemma process_frame_error:
  assumes "decode_session_frame rt frame (session_max_message_size s) = Inl e"
  shows "process_frame rt cd w c s frame n = (Inl e,
    n\<lparr>last_received_activity := dput c (monotonic (clk w)) (last_received_activity n)\<rparr>)"
  using assms by (simp add: process_frame_def)

text \<open>
  The life of a reader: it starts at the head of its loop and is resumed again and again, while
  the rest of the node changes whatever it likes in between, apart from the identity of the
  local peer. The last component is the message of the current frame whose acknowledgement has
  been sent, if any.
\<close>

fun ack_sent_for :: "reader_pc \<Rightarrow> reader_input \<Rightarrow> message option \<Rightarrow> message option" where
  "ack_sent_for LoopHead input acked = None"
| "ack_sent_for (Sending (AfterAcknowledgement m) a) (SendOutcome (Inr u)) acked = Some m"
| "ack_sent_for pc input acked = acked"

inductive reader_life ::
    "pyrt \<Rightarrow> codec \<Rightarrow> conn \<Rightarrow> protocol_session \<Rightarrow> reader_pc \<Rightarrow> message option \<Rightarrow> node \<Rightarrow> bool"
  for rt cd c s where
  begins: "reader_life rt cd c s LoopHead None n"
| elsewhere: "reader_life rt cd c s pc acked n \<Longrightarrow> local_peer m = local_peer n \<Longrightarrow>
    reader_life rt cd c s pc acked m"
| resumed: "reader_life rt cd c s pc acked n \<Longrightarrow> reader_resume rt cd w c s pc input n = (Inr pc', m) \<Longrightarrow>
    reader_life rt cd c s pc' (ack_sent_for pc input acked) m"

lemma emit_event_peer [simp]: "local_peer (snd (emit_event t pid c err md n)) = local_peer n"
  using emit_event_only [of t pid c err md n] by auto

lemma seq_peer:
  assumes "local_peer (snd (m n)) = local_peer n" "\<And>x n'. local_peer (snd (f x n')) = local_peer n'"
  shows "local_peer (snd (seq m f n)) = local_peer n"
  using assms by (cases "m n") (auto simp: seq_def split: sum.splits)

lemma report_peer: "local_peer (snd (seq (report_resource_limit x y) (\<lambda>_. raise e) n)) = local_peer n"
  by (rule seq_peer) (simp_all add: report_resource_limit_def)

lemma put_frame_peer [simp]: "local_peer (put_frame k fr n) = local_peer n"
  by (simp add: put_frame_def Let_def set_channel_def)

lemma queue_frame_peer: "local_peer (snd (queue_frame w c data n)) = local_peer n"
  by (auto simp: queue_frame_def new_future_def seq_def [of new_future] Let_def report_peer
      split: option.splits backpressure.splits)

lemma deliver_peer: "local_peer (snd (deliver_message c s m n)) = local_peer n"
  by (auto simp: deliver_message_def enqueue_dispatch_def resolve_reply_def Let_def report_peer
      split: option.splits backpressure.splits)

lemma send_control_peer: "local_peer (snd (send_control w c next f n)) = local_peer n"
  unfolding send_control_def
  by (intro seq_peer queue_frame_peer) (auto simp: lift_res_def split: sum.splits)

lemma process_item_peer: "local_peer (snd (process_item rt cd w c s item n)) = local_peer n"
  by (auto simp: process_item_def resolve_acknowledgement_def resolve_heartbeat_def send_control_peer
      deliver_peer split: session_item.splits option.splits sum.splits)

lemma reader_resume_peer: "local_peer (snd (reader_resume rt cd w c s pc input n)) = local_peer n"
proof (induction rt cd w c s pc input rule: reader_resume.induct)
  case (1 rt cd w c s frame)
  show ?case
    by (cases "decode_session_frame rt frame (session_max_message_size s)")
      (simp_all add: process_frame_error process_frame_item process_item_peer)
qed (auto simp: after_sent_def deliver_peer put_waiting_def seq_def split: after_send.splits option.splits)

text \<open>What the reader carries while it waits.\<close>

definition carries_own :: "conn \<Rightarrow> protocol_session \<Rightarrow> reader_pc \<Rightarrow> message option \<Rightarrow> node \<Rightarrow> bool" where
  "carries_own c s pc acked n \<longleftrightarrow>
     (case pc of
        Sending (AfterAcknowledgement m) a \<Rightarrow> from_session n s m
      | AwaitInbound item \<Rightarrow>
          in_connection item = c \<and> in_peer item = session_peer_id s
          \<and> from_session n s (in_message item)
          \<and> (TECHNICAL_ACK_CAPABILITY \<in> set (session_capabilities s) \<longrightarrow> acked = Some (in_message item))
      | _ \<Rightarrow> True)"

lemma from_session_peer: "local_peer m = local_peer n \<Longrightarrow> from_session m s = from_session n s"
  by (simp add: from_session_def fun_eq_iff)

lemma carries_own_peer: "local_peer m = local_peer n \<Longrightarrow> carries_own c s pc acked m = carries_own c s pc acked n"
  using from_session_peer [of m n s] by (simp add: carries_own_def split: reader_pc.splits after_send.splits)

lemma deliver_waits:
  assumes "fst (deliver_message c s m n) = Inr pc"
  shows "pc = LoopHead \<or> pc = AwaitInbound \<lparr>in_message = m, in_connection = c, in_peer = session_peer_id s\<rparr>"
  using assms
  by (auto simp: deliver_message_def enqueue_dispatch_def Let_def report_then_raise
      split: if_split_asm option.split_asm backpressure.split_asm)

lemma process_item_waits:
  assumes "fst (process_item rt cd w c s item n) = Inr (AwaitInbound d)"
  shows "TECHNICAL_ACK_CAPABILITY \<notin> set (session_capabilities s)
    \<and> in_connection d = c \<and> in_peer d = session_peer_id s
    \<and> accepted_item cd n s item (in_message d)"
  using assms
  by (auto simp: process_item_def accepted_item_def dest: send_control_next dest!: deliver_waits
      split: session_item.splits option.splits sum.splits if_split_asm)

lemma put_waiting_next: "fst (seq (put_waiting k fr) (\<lambda>a. ret (Sending next a)) n) = Inr pc \<Longrightarrow> \<exists>a. pc = Sending next a"
  by (auto simp: put_waiting_def seq_def split: if_split_asm)

lemma put_waiting_hands_over: "hands_over c s P n (snd (seq (put_waiting k fr) (\<lambda>a. ret (Sending next a)) n))"
  by (auto simp: put_waiting_def seq_def put_frame_def Let_def set_channel_def intro!: hands_over_same)

lemma resumed_item:
  "in_connection item = c \<Longrightarrow> in_peer item = session_peer_id s \<Longrightarrow>
    item = \<lparr>in_message = in_message item, in_connection = c, in_peer = session_peer_id s\<rparr>"
  by (rule inbound_dispatch.equality) simp_all

lemma hands_over_put:
  assumes "inbound_queue n = Some q" "in_connection item = c" "in_peer item = session_peer_id s"
    and "P (in_message item)"
  shows "hands_over c s P n (n\<lparr>inbound_queue := Some (q @ [item])\<rparr>)"
proof -
  let ?n = "n\<lparr>inbound_queue := Some (q @ [item])\<rparr>"
  have "future_state f ?n = future_state f n" for f by (simp add: future_state_def)
  moreover have "inbound_queue ?n =
      Some (q @ [\<lparr>in_message = in_message item, in_connection = c, in_peer = session_peer_id s\<rparr>])"
    using resumed_item [OF assms(2,3)] by simp
  ultimately show ?thesis unfolding hands_over_def using assms(1,4) by fastforce
qed

text \<open>One resumption, whatever the reader waits for.\<close>

abbreviation own_acked :: "node \<Rightarrow> protocol_session \<Rightarrow> message option \<Rightarrow> message \<Rightarrow> bool" where
  "own_acked n s acked m \<equiv> from_session n s m
     \<and> (TECHNICAL_ACK_CAPABILITY \<in> set (session_capabilities s) \<longrightarrow> acked = Some m)"

lemma process_frame_own:
  "hands_over c s (own_acked n s None) n (snd (process_frame rt cd w c s frame n))
    \<and> (\<forall>pc. fst (process_frame rt cd w c s frame n) = Inr pc \<longrightarrow> carries_own c s pc None n)"
proof (cases "decode_session_frame rt frame (session_max_message_size s)")
  case (Inl e)
  then show ?thesis by (simp add: process_frame_error hands_over_same)
next
  case (Inr item)
  let ?m = "n\<lparr>last_received_activity := dput c (monotonic (clk w)) (last_received_activity n)\<rparr>"
  have acc: "from_session n s m" if "accepted_item cd ?m s item m" for m
    using that by (auto simp: accepted_item_def intro: accept_from_session)
  have h: "hands_over c s (own_acked n s None) ?m (snd (process_item rt cd w c s item ?m))"
  proof (cases "TECHNICAL_ACK_CAPABILITY \<in> set (session_capabilities s)")
    case True
    then show ?thesis by (rule hands_over_mono [OF process_item_acknowledged]) simp
  next
    case False
    then show ?thesis using acc by (intro hands_over_mono [OF process_item_hands_over]) simp
  qed
  have "carries_own c s pc None n" if "fst (process_item rt cd w c s item ?m) = Inr pc" for pc
    using that process_item_sends [of rt cd w c s item ?m] process_item_waits [of rt cd w c s item ?m] acc
    by (auto simp: carries_own_def split: reader_pc.splits after_send.splits)
  then show ?thesis using hands_over_from [OF h] by (simp add: process_frame_item [OF Inr])
qed

lemma resume_own:
  assumes "carries_own c s pc acked n"
  shows "hands_over c s (own_acked n s (ack_sent_for pc input acked)) n (snd (reader_resume rt cd w c s pc input n))
    \<and> (\<forall>pc'. fst (reader_resume rt cd w c s pc input n) = Inr pc' \<longrightarrow>
         carries_own c s pc' (ack_sent_for pc input acked) n)"
  using assms
proof (induction rt cd w c s pc input rule: reader_resume.induct)
  case (1 rt cd w c s frame)
  show ?case using process_frame_own by simp
next
  case (3 rt cd w c s "next" a u)
  then show ?case
    by (auto simp: after_sent_def carries_own_def hands_over_same deliver_hands_over
        split: after_send.splits dest!: deliver_waits)
next
  case (5 rt cd w c s "next" k fr)
  then show ?case
    by (auto simp: put_waiting_hands_over carries_own_def split: after_send.splits dest!: put_waiting_next)
next
  case (6 rt cd w c s item)
  then show ?case
    by (auto simp: carries_own_def hands_over_same hands_over_put split: option.splits)
qed (auto simp: hands_over_same carries_own_def split: reader_pc.splits after_send.splits)

lemma reader_life_carries_own:
  assumes "reader_life rt cd c s pc acked n" shows "carries_own c s pc acked n"
  using assms
proof (induction rule: reader_life.induct)
  case (begins n) show ?case by (simp add: carries_own_def)
next
  case (elsewhere pc acked n m) then show ?case using carries_own_peer by blast
next
  case (resumed pc acked n w input pc' m)
  have "local_peer m = local_peer n"
    using reader_resume_peer [of rt cd w c s pc input n] resumed(2) by simp
  moreover have "carries_own c s pc' (ack_sent_for pc input acked) n"
    using resume_own [OF resumed.IH, of input rt cd w] resumed(2) by simp
  ultimately show ?case by (simp add: carries_own_peer [of m n])
qed

section \<open>Properties\<close>

text \<open>C22 What a session can make the application see: at every point in the life of a reader,
  whatever it waits for, a frame of the peer, the end of a write or room in the inbound queue,
  whatever it is resumed with and whatever the rest of the node did meanwhile, it hands over, to
  the inbound queue or as the reply of a waiting request, only messages that are well formed,
  carry the session's peer as their sender and are addressed to this node or to nobody. On a
  session with acknowledgements it hands over only the message of the current frame whose
  acknowledgement has been sent, so nothing at all before the acknowledgement is out.\<close>

theorem only_own_messages_delivered:
  assumes "reader_life rt cd c s pc acked n"
  shows "hands_over c s
    (\<lambda>m. from_session n s m \<and> (TECHNICAL_ACK_CAPABILITY \<in> set (session_capabilities s) \<longrightarrow>
       ack_sent_for pc input acked = Some m))
    n (snd (reader_resume rt cd w c s pc input n))"
  using resume_own [OF reader_life_carries_own [OF assms]] by blast

definition example_message :: message where
  "example_message = new_message (lit ''b'') (PStr (lit ''a'')) (PInt 5) (PStr (lit ''t'')) (PDict [])
     (PStr (lit ''m'')) PNone PNone"

definition example_codec :: codec where
  "example_codec = \<lparr>codec_id = lit ''x'', codec_serialize = (\<lambda>_. Inr (PBytes [7])),
     codec_deserialize = (\<lambda>_. Inr (Some example_message))\<rparr>"

definition ready_node :: node where
  "ready_node = (new_node (lit ''a'') example_config)\<lparr>running := True, inbound_queue := Some []\<rparr>"

text \<open>A node whose inbound queue of one place is taken: the message waits for room.\<close>

definition crowded_node :: node where
  "crowded_node = ready_node\<lparr>cfg := example_config\<lparr>max_inbound_queue := 1\<rparr>,
     inbound_queue := Some [\<lparr>in_message = example_message, in_connection = 4, in_peer = lit ''c''\<rparr>]\<rparr>"

lemma example_message_waits:
  "reader_resume plain_rt example_codec example_world 3 (example_session (lit ''b'')) LoopHead
       (Frame (Inr (PBytes [1, 7]))) crowded_node
     = (Inr (AwaitInbound \<lparr>in_message = example_message, in_connection = 3, in_peer = lit ''b''\<rparr>),
        crowded_node\<lparr>last_received_activity := [(3, 0)]\<rparr>)"
  by (simp add: process_frame_def decode_session_frame_def split_frame_def APPLICATION_FRAME_def
      example_session_def process_item_def accept_message_def example_codec_def as_serialization_def
      opt_res_def example_message_def new_message_def validate_message_def validate_message_shape_def
      str_map_def optional_id_def crowded_node_def ready_node_def new_node_def example_world_def
      deliver_message_def enqueue_dispatch_def inbound_full_def example_config_def Let_def)

theorem only_own_messages_delivered_witness:
  "\<exists>pc n. reader_life plain_rt example_codec 3 (example_session (lit ''b'')) pc None n
     \<and> snd (reader_resume plain_rt example_codec example_world 3 (example_session (lit ''b'')) pc RoomWoken n)
        = n\<lparr>inbound_queue := Some [\<lparr>in_message = example_message, in_connection = 3, in_peer = lit ''b''\<rparr>]\<rparr>
     \<and> hands_over 3 (example_session (lit ''b'')) (\<lambda>m. from_session n (example_session (lit ''b'')) m) n
        (snd (reader_resume plain_rt example_codec example_world 3 (example_session (lit ''b'')) pc RoomWoken n))"
proof -
  let ?pc = "AwaitInbound \<lparr>in_message = example_message, in_connection = 3, in_peer = lit ''b''\<rparr>"
  let ?n = "crowded_node\<lparr>last_received_activity := [(3, 0)], inbound_queue := Some []\<rparr>"
  have "reader_life plain_rt example_codec 3 (example_session (lit ''b'')) ?pc None
      (crowded_node\<lparr>last_received_activity := [(3, 0)]\<rparr>)"
    using reader_life.resumed [OF reader_life.begins example_message_waits] by simp
  then have life: "reader_life plain_rt example_codec 3 (example_session (lit ''b'')) ?pc None ?n"
    by (rule reader_life.elsewhere) simp
  moreover have "snd (reader_resume plain_rt example_codec example_world 3 (example_session (lit ''b'')) ?pc
      RoomWoken ?n) = ?n\<lparr>inbound_queue := Some [\<lparr>in_message = example_message, in_connection = 3, in_peer = lit ''b''\<rparr>]\<rparr>"
    by (simp add: inbound_full_def crowded_node_def example_config_def ready_node_def)
  moreover have "hands_over 3 (example_session (lit ''b'')) (\<lambda>m. from_session ?n (example_session (lit ''b'')) m) ?n
      (snd (reader_resume plain_rt example_codec example_world 3 (example_session (lit ''b'')) ?pc RoomWoken ?n))"
    by (rule hands_over_mono [OF only_own_messages_delivered [OF life]]) simp
  ultimately show ?thesis by blast
qed

text \<open>A control that the session did not negotiate is a protocol violation without effect: an
  acknowledgement, ping or pong whose capability is missing raises \<open>ProtocolFrameError\<close>, and
  apart from the time of the last activity the node is unchanged.\<close>

theorem unnegotiated_control_rejected:
  assumes "decode_session_frame rt frame (session_max_message_size s) = Inr item"
    and "case item of
        ApplicationData _ \<Rightarrow> False
      | TechnicalAcknowledgement _ \<Rightarrow> TECHNICAL_ACK_CAPABILITY \<notin> set (session_capabilities s)
      | _ \<Rightarrow> HEARTBEAT_CAPABILITY \<notin> set (session_capabilities s)"
  shows "process_frame rt cd w c s frame n = (Inl ProtocolFrameError,
    n\<lparr>last_received_activity := dput c (monotonic (clk w)) (last_received_activity n)\<rparr>)"
  using assms(2)
  by (simp add: process_frame_item [OF assms(1)] process_item_def split: session_item.splits)

theorem unnegotiated_control_rejected_witness:
  "\<exists>f. encode_ping_frame plain_rt (PStr (lit ''p'')) = Inr f
     \<and> fst (process_frame plain_rt example_codec example_world 3 (example_session (lit ''b'')) (PBytes f)
         ready_node) = Inl ProtocolFrameError"
proof -
  obtain f where f: "encode_ping_frame plain_rt (PStr (lit ''p'')) = Inr f"
    by (simp add: encode_ping_frame_def encode_control_def validate_ping_id_def json_eval
        PROTOCOL_MAGIC_def PING_TYPE_def is_safe_json_value_eq MAX_CONTROL_PAYLOAD_SIZE_def
        opt_res_def utf8_encode_def utf8_char_def scalar_def surrogate_def)
  have "decode_session_frame plain_rt (PBytes f) (session_max_message_size (example_session (lit ''b'')))
      = Inr (HeartbeatPing (lit ''p''))"
    using decode_encode_ping [OF f] by simp
  from unnegotiated_control_rejected [OF this, of example_codec example_world 3 ready_node] f
  show ?thesis by (simp add: example_session_def)
qed

lemma prepare_message_eq:
  "prepare_message cd c m require_ack n = Inr (frame, ack, s) \<longleftrightarrow>
     require_ack = PBool ack \<and> validate_message m = Inr () \<and> map_of (sessions n) c = Some s
     \<and> (ack \<longrightarrow> TECHNICAL_ACK_CAPABILITY \<in> set (session_capabilities s))
     \<and> (\<exists>data. codec_serialize cd m = Inr (PBytes data)
          \<and> int (length data) \<le> session_max_message_size s \<and> frame = APPLICATION_FRAME # data)"
proof -
  have ser: "as_serialization r = Inr v \<longleftrightarrow> r = Inr v" for r :: "exn + pyval" and v
    by (simp add: as_serialization_def split: sum.splits)
  have frame: "encode_application_frame (PBytes d) k = Inr f \<longleftrightarrow> int (length d) \<le> k \<and> f = APPLICATION_FRAME # d"
    for d k f by (auto simp: encode_application_frame_def)
  have bytes: "(case v of PBytes b \<Rightarrow> Inr b | _ \<Rightarrow> Inl SerializationError) = Inr d \<longleftrightarrow> v = PBytes d"
    for v and d :: bytes by (cases v) auto
  show ?thesis (is "?l \<longleftrightarrow> ?r")
  proof
    assume ?l
    then show ?r
      by (auto simp: prepare_message_def res_simps ser frame bytes elim!: rbind_InrE)
  next
    assume ?r
    then show ?l by (auto simp: prepare_message_def as_serialization_def encode_application_frame_def opt_res_def)
  qed
qed

text \<open>A frame leaves the node only if everything about it is in order: \<open>_send_message\<close> gets past its
  checks exactly with a boolean \<open>require_ack\<close>, a well-formed envelope, a READY session on the
  connection, negotiated acknowledgements where one is required, and a serializer that returns
  bytes within the negotiated size; the frame is then those bytes behind the application tag.\<close>

theorem prepare_message_iff:
  "prepare_message cd c m require_ack n = Inr (frame, ack, s) \<longleftrightarrow>
     require_ack = PBool ack \<and> validate_message m = Inr () \<and> map_of (sessions n) c = Some s
     \<and> (ack \<longrightarrow> TECHNICAL_ACK_CAPABILITY \<in> set (session_capabilities s))
     \<and> (\<exists>data. codec_serialize cd m = Inr (PBytes data)
          \<and> int (length data) \<le> session_max_message_size s \<and> frame = APPLICATION_FRAME # data)"
  by (rule prepare_message_eq)

theorem prepare_message_iff_witness:
  "\<exists>n. prepare_message example_codec 3 example_message (PBool False) n
     = Inr ([1, 7], False, example_session (lit ''a''))"
proof -
  let ?n = "ready_node\<lparr>sessions := [(3, example_session (lit ''a''))]\<rparr>"
  have "prepare_message example_codec 3 example_message (PBool False) ?n
     = Inr ([1, 7], False, example_session (lit ''a''))"
    by (subst prepare_message_iff)
      (simp add: example_codec_def example_message_def new_message_def validate_message_def
        validate_message_shape_def str_map_def optional_id_def APPLICATION_FRAME_def example_session_def)
  then show ?thesis by blast
qed

text \<open>The pool of dispatch workers keeps its size: whatever ended a worker, the callback of its task
  removes it and, while its lifecycle generation is the running one, starts exactly one new
  worker; after a stop or a restart it starts none.\<close>

theorem handler_pool_refilled:
  assumes "t \<in> set (handler_tasks n)" "distinct (handler_tasks n)" "\<forall>u \<in> set (handler_tasks n). u < next_task n"
  shows "case handler_finished t generation n of (_, n') \<Rightarrow>
    length (handler_tasks n') = (if worker_current generation n then length (handler_tasks n)
                                 else length (handler_tasks n) - 1)
    \<and> t \<notin> set (handler_tasks n') \<and> distinct (handler_tasks n')
    \<and> (\<forall>u \<in> set (handler_tasks n'). u < next_task n')"
proof -
  let ?hs = "removeAll t (handler_tasks n)"
  have rem: "?hs = remove1 t (handler_tasks n)" by (rule sym) (rule distinct_remove1_removeAll [OF assms(2)])
  have len: "length ?hs = length (handler_tasks n) - 1"
    unfolding rem using assms(1) by (simp add: length_remove1)
  have pos: "0 < length (handler_tasks n)" using assms(1) by (cases "handler_tasks n") auto
  have new: "next_task n \<notin> set ?hs" "t \<noteq> next_task n" using assms(1,3) by auto
  have cur: "worker_current generation (n\<lparr>handler_tasks := ?hs\<rparr>) = worker_current generation n"
    by (simp add: worker_current_def)
  have run: "handler_finished t generation n = (if worker_current generation n
      then (Inr (), n\<lparr>handler_tasks := next_task n # ?hs, next_task := Suc (next_task n)\<rparr>)
      else (Inr (), n\<lparr>handler_tasks := ?hs\<rparr>))"
    using new by (simp add: handler_finished_def cur start_dispatch_worker_def create_task_def
        seq_def [of create_task])
  show ?thesis
    using assms(2,3) len pos new by (auto simp: run less_Suc_eq distinct_removeAll)
qed

theorem handler_pool_refilled_witness:
  "length (handler_tasks (snd (handler_finished 1 0 (ready_node\<lparr>handler_tasks := [0, 1], next_task := 2\<rparr>)))) = 2"
  using handler_pool_refilled [of 1 "ready_node\<lparr>handler_tasks := [0, 1], next_task := 2\<rparr>" 0]
  by (simp add: worker_current_def ready_node_def new_node_def split: prod.splits)

end
