(* ===== verification/Serializers.thy ===== *)
theory Serializers
  imports Reader
begin

text \<open>
  The built-in serializers (\<open>src/paqto/serializers\<close>): the shared JSON helpers of \<open>_json.py\<close>, the
  message envelope of \<open>_envelope.py\<close>, \<open>JsonSerializer\<close> and \<open>BytesSerializer\<close>, the latter over a
  model of the Base64 functions of the standard library. Both serializers are records \<open>codec\<close>.

  \<open>b64decode\<close> stands for \<open>base64.b64decode(..., validate=True)\<close>; it accepts no surplus padding,
  which the code's own comparison with the canonical text rejects anyway. The lemma: the loop of
  \<open>validate_json_value\<close> decides what its recursive description says. What the serializers
  guarantee to the node is the theory \<open>Codecs\<close>.
\<close>

section \<open>JSON helpers\<close>

definition encode_json :: "pyrt \<Rightarrow> pyval \<Rightarrow> exn + bytes" where
  "encode_json rt v =
     catching [RecursionError, TypeError, ValueError] SerializationError
       (rbind (json_dumps rt False True v) (\<lambda>t. opt_res UnicodeError (utf8_encode t)))"

definition json_object_hook :: "(pystr \<times> pyval) list \<Rightarrow> exn + pyval" where
  "json_object_hook = unique_json_object"

definition reject_json_constant :: "pystr \<Rightarrow> exn + pyval" where
  "reject_json_constant w = Inl ValueError"

definition decode_json :: "pyrt \<Rightarrow> pyval \<Rightarrow> exn + pyval" where
  "decode_json rt data =
     (case data of
        PBytes b \<Rightarrow>
          catching [RecursionError, UnicodeError, ValueError] SerializationError
            (rbind (opt_res UnicodeError (utf8_decode b))
               (json_loads rt json_object_hook reject_json_constant))
      | _ \<Rightarrow> Inl SerializationError)"

text \<open>
  The loop of \<open>validate_json_value\<close>. The list is kept with its end first, where \<open>pop()\<close> takes;
  \<open>count\<close> is the number of collection items seen. The limits are naturals, as \<open>validate_limit\<close>
  requires.
\<close>

record json_limits =
  max_nesting :: nat
  max_collection_items :: nat
  max_string_length :: nat

definition too_many :: "json_limits \<Rightarrow> nat \<Rightarrow> bool" where
  "too_many lims items \<longleftrightarrow> max_collection_items lims < items"

fun keys_fit :: "json_limits \<Rightarrow> pyval list \<Rightarrow> bool" where
  "keys_fit lims ks = list_all (\<lambda>k. case as_str k of
     None \<Rightarrow> False | Some s \<Rightarrow> length s \<le> max_string_length lims) ks"

lemma sum_size_snd:
  "sum_list (List.map (\<lambda>kv. Suc (size (snd kv))) kvs) \<le> size_list (size_prod size size) (kvs :: (pyval \<times> pyval) list)"
  by (induction kvs) auto

lemma sum_size: "sum_list (List.map (\<lambda>v. Suc (size v)) vs) \<le> size_list size (vs :: pyval list)"
  by (induction vs) auto

function json_pending :: "json_limits \<Rightarrow> nat \<Rightarrow> (pyval \<times> nat) list \<Rightarrow> exn + unit" where
  "json_pending lims items [] = Inr ()"
| "json_pending lims items ((item, depth) # pending) =
     (case item of
        PNone \<Rightarrow> json_pending lims items pending
      | PBool _ \<Rightarrow> json_pending lims items pending
      | PInt _ \<Rightarrow> json_pending lims items pending
      | PFloat f \<Rightarrow> (case f of Finite _ \<Rightarrow> json_pending lims items pending | _ \<Rightarrow> Inl SerializationError)
      | PStr s \<Rightarrow> if max_string_length lims < length s then Inl SerializationError
                  else json_pending lims items pending
      | PList vs \<Rightarrow>
          if max_nesting lims \<le> depth then Inl SerializationError
          else if too_many lims (items + length vs) then Inl SerializationError
          else json_pending lims (items + length vs)
                 (rev (List.map (\<lambda>v. (v, depth + 1)) vs) @ pending)
      | PDict kvs \<Rightarrow>
          if max_nesting lims \<le> depth then Inl SerializationError
          else if \<not> keys_fit lims (List.map fst kvs) then Inl SerializationError
          else if too_many lims (items + length kvs) then Inl SerializationError
          else json_pending lims (items + length kvs)
                 (rev (List.map (\<lambda>kv. (snd kv, depth + 1)) kvs) @ pending)
      | _ \<Rightarrow> Inl SerializationError)"
  by pat_completeness auto

termination
  by (relation "measure (\<lambda>(l, c, ps). sum_list (List.map (\<lambda>p. Suc (size (fst p))) ps))")
    (auto simp: rev_map [symmetric] comp_def sum_list_rev
      intro!: le_imp_less_Suc le_SucI sum_size sum_size_snd)

declare json_pending.simps(2) [simp del]

definition validate_json_value :: "json_limits \<Rightarrow> pyval \<Rightarrow> exn + unit" where
  "validate_json_value lims v = json_pending lims 0 [(v, 0)]"

definition validate_limit :: "pyval \<Rightarrow> exn + nat" where
  "validate_limit v =
     rbind (opt_res TypeError (strict_int v)) (\<lambda>i. rbind (guard (0 < i) ValueError) (\<lambda>_. Inr (nat i)))"

section \<open>Envelope\<close>

definition validate_message_fields :: "message \<Rightarrow> exn + unit" where
  "validate_message_fields m =
     rbind (guard (nonempty_str (msg_type m) \<noteq> None) SerializationError) (\<lambda>_.
     rbind (guard (nonempty_str (msg_id m) \<noteq> None) SerializationError) (\<lambda>_.
     rbind (guard (optional_id (sender m) \<and> optional_id (recipient m) \<and> optional_id (reply_to m))
             SerializationError) (\<lambda>_.
     rbind (guard (str_map (headers m)) SerializationError) (\<lambda>_.
       (case created_at m of
          PDateTime t \<Rightarrow> guard (utcoffset t \<noteq> None) SerializationError
        | _ \<Rightarrow> Inl SerializationError)))))"

definition ENVELOPE_FIELDS :: "pystr list" where
  "ENVELOPE_FIELDS = [lit ''payload'', lit ''type'', lit ''sender'', lit ''recipient'',
     lit ''headers'', lit ''id'', lit ''created_at'', lit ''reply_to'']"

definition encode_envelope :: "pyrt \<Rightarrow> message \<Rightarrow> pyval \<Rightarrow> exn + pyval" where
  "encode_envelope rt m body =
     rbind (validate_message_fields m) (\<lambda>_.
       (case created_at m of
          PDateTime t \<Rightarrow> Inr (PDict
            [(PStr (lit ''payload''), body), (PStr (lit ''type''), msg_type m),
             (PStr (lit ''sender''), sender m), (PStr (lit ''recipient''), recipient m),
             (PStr (lit ''headers''), headers m), (PStr (lit ''id''), msg_id m),
             (PStr (lit ''created_at''), PStr (iso_format rt t)),
             (PStr (lit ''reply_to''), reply_to m)])
        | _ \<Rightarrow> Inl SerializationError))"

definition decode_envelope :: "pyrt \<Rightarrow> pyval \<Rightarrow> (pyval \<Rightarrow> exn + pyval) \<Rightarrow> exn + message" where
  "decode_envelope rt raw decode_payload =
     (case raw of
        PDict kvs \<Rightarrow>
          if set (dkeys kvs) \<noteq> PStr ` set ENVELOPE_FIELDS then Inl SerializationError
          else
            rbind (opt_res SerializationError (as_str (dget kvs (lit ''created_at'')))) (\<lambda>iso.
            rbind (opt_res SerializationError (iso_parse rt iso)) (\<lambda>created.
            rbind (decode_payload (dget kvs (lit ''payload''))) (\<lambda>body.
              let m = \<lparr>payload = body, msg_type = dget kvs (lit ''type''),
                 sender = dget kvs (lit ''sender''), recipient = dget kvs (lit ''recipient''),
                 headers = dget kvs (lit ''headers''), msg_id = dget kvs (lit ''id''),
                 created_at = PDateTime created, reply_to = dget kvs (lit ''reply_to'')\<rparr>
              in rbind (validate_message_fields m) (\<lambda>_. Inr m))))
      | _ \<Rightarrow> Inl SerializationError)"

section \<open>JSON payloads\<close>

definition JSON_PROTOCOL_ID :: pystr where
  "JSON_PROTOCOL_ID = lit ''paqto.message-json.v1''"

definition new_json_serializer :: "pyval \<Rightarrow> pyval \<Rightarrow> pyval \<Rightarrow> exn + json_limits" where
  "new_json_serializer nesting items strings =
     rbind (validate_limit nesting) (\<lambda>n. rbind (validate_limit items) (\<lambda>i.
     rbind (validate_limit strings) (\<lambda>s.
       Inr \<lparr>max_nesting = n, max_collection_items = i, max_string_length = s\<rparr>)))"

definition json_decode_payload :: "json_limits \<Rightarrow> pyval \<Rightarrow> exn + pyval" where
  "json_decode_payload lims v = rbind (validate_json_value lims v) (\<lambda>_. Inr v)"

definition json_serialize :: "pyrt \<Rightarrow> json_limits \<Rightarrow> message \<Rightarrow> exn + bytes" where
  "json_serialize rt lims m =
     rbind (validate_json_value lims (payload m)) (\<lambda>_.
     rbind (encode_envelope rt m (payload m)) (encode_json rt))"

definition json_deserialize :: "pyrt \<Rightarrow> json_limits \<Rightarrow> bytes \<Rightarrow> exn + message" where
  "json_deserialize rt lims data =
     rbind (decode_json rt (PBytes data)) (\<lambda>raw. decode_envelope rt raw (json_decode_payload lims))"

definition json_codec :: "pyrt \<Rightarrow> json_limits \<Rightarrow> codec" where
  "json_codec rt lims = \<lparr>codec_id = JSON_PROTOCOL_ID,
     codec_serialize = (\<lambda>m. rbind (json_serialize rt lims m) (\<lambda>b. Inr (PBytes b))),
     codec_deserialize = (\<lambda>b. rbind (json_deserialize rt lims b) (\<lambda>m. Inr (Some m)))\<rparr>"

section \<open>Bytes payloads\<close>

text \<open>
  \<open>base64.b64encode\<close> and \<open>b64decode(\<dots>, validate=True)\<close>. As the library does, decoding ignores
  the unused low bits of the last character before the padding.
\<close>

definition b64_char :: "nat \<Rightarrow> nat" where
  "b64_char i =
     (if i < 26 then 65 + i else if i < 52 then 71 + i else if i < 62 then i - 4
      else if i = 62 then 43 else 47)"

definition b64_val :: "nat \<Rightarrow> nat option" where
  "b64_val c =
     (if 65 \<le> c \<and> c \<le> 90 then Some (c - 65) else if 97 \<le> c \<and> c \<le> 122 then Some (c - 71)
      else if 48 \<le> c \<and> c \<le> 57 then Some (c + 4) else if c = 43 then Some 62
      else if c = 47 then Some 63 else None)"

fun b64encode :: "bytes \<Rightarrow> pystr" where
  "b64encode [] = []"
| "b64encode [a] =
     (let x = unat a in [b64_char (x div 4), b64_char (x mod 4 * 16), 61, 61])"
| "b64encode [a, b] =
     (let x = unat a; y = unat b in
      [b64_char (x div 4), b64_char (x mod 4 * 16 + y div 16), b64_char (y mod 16 * 4), 61])"
| "b64encode (a # b # c # r) =
     (let x = unat a; y = unat b; z = unat c in
      b64_char (x div 4) # b64_char (x mod 4 * 16 + y div 16) # b64_char (y mod 16 * 4 + z div 64)
      # b64_char (z mod 64) # b64encode r)"

fun b64decode :: "pystr \<Rightarrow> bytes option" where
  "b64decode [] = Some []"
| "b64decode (w # x # y # z # r) =
     (case (b64_val w, b64_val x) of
        (Some p, Some q) \<Rightarrow>
          if y = 61 \<and> z = 61 \<and> r = [] then Some [of_nat (p * 4 + q div 16)]
          else (case b64_val y of
              None \<Rightarrow> None
            | Some s \<Rightarrow>
                if z = 61 \<and> r = []
                then Some [of_nat (p * 4 + q div 16), of_nat (q mod 16 * 16 + s div 4)]
                else (case (b64_val z, b64decode r) of
                    (Some t, Some rest) \<Rightarrow>
                      Some (of_nat (p * 4 + q div 16) # of_nat (q mod 16 * 16 + s div 4)
                            # of_nat (s mod 4 * 64 + t) # rest)
                  | _ \<Rightarrow> None))
      | _ \<Rightarrow> None)"
| "b64decode _ = None"

definition BYTES_PROTOCOL_ID :: pystr where
  "BYTES_PROTOCOL_ID = lit ''paqto.message-bytes.v1''"

definition bytes_decode_payload :: "pyval \<Rightarrow> exn + pyval" where
  "bytes_decode_payload v =
     rbind (opt_res SerializationError (as_str v)) (\<lambda>encoded.
     rbind (guard (list_all (\<lambda>c. c < 128) encoded) SerializationError) (\<lambda>_.
     rbind (opt_res SerializationError (b64decode encoded)) (\<lambda>decoded.
     rbind (guard (b64encode decoded = encoded) SerializationError) (\<lambda>_.
       Inr (PBytes decoded)))))"

definition bytes_serialize :: "pyrt \<Rightarrow> message \<Rightarrow> exn + bytes" where
  "bytes_serialize rt m =
     (case payload m of
        PBytes b \<Rightarrow> rbind (encode_envelope rt m (PStr (b64encode b))) (encode_json rt)
      | _ \<Rightarrow> Inl SerializationError)"

definition bytes_deserialize :: "pyrt \<Rightarrow> bytes \<Rightarrow> exn + message" where
  "bytes_deserialize rt data =
     rbind (decode_json rt (PBytes data)) (\<lambda>raw. decode_envelope rt raw bytes_decode_payload)"

definition bytes_codec :: "pyrt \<Rightarrow> codec" where
  "bytes_codec rt = \<lparr>codec_id = BYTES_PROTOCOL_ID,
     codec_serialize = (\<lambda>m. rbind (bytes_serialize rt m) (\<lambda>b. Inr (PBytes b))),
     codec_deserialize = (\<lambda>b. rbind (bytes_deserialize rt b) (\<lambda>m. Inr (Some m)))\<rparr>"

section \<open>What \<open>validate_json_value\<close> accepts\<close>

fun json_shape :: "json_limits \<Rightarrow> nat \<Rightarrow> pyval \<Rightarrow> bool" where
  "json_shape lims d (PFloat f) = (\<exists>q. f = Finite q)"
| "json_shape lims d (PStr s) = (length s \<le> max_string_length lims)"
| "json_shape lims d (PList vs) = (d < max_nesting lims \<and> list_all (json_shape lims (d + 1)) vs)"
| "json_shape lims d (PDict kvs) =
     (d < max_nesting lims \<and> keys_fit lims (List.map fst kvs)
      \<and> list_all (\<lambda>(k, v). json_shape lims (d + 1) v) kvs)"
| "json_shape lims d (PTuple vs) = False"
| "json_shape lims d (PBytes b) = False"
| "json_shape lims d (PDateTime t) = False"
| "json_shape lims d (PObject x) = False"
| "json_shape lims d v = True"

fun json_items :: "pyval \<Rightarrow> nat" where
  "json_items (PList vs) = length vs + sum_list (List.map json_items vs)"
| "json_items (PDict kvs) = length kvs + sum_list (List.map (\<lambda>(k, v). json_items v) kvs)"
| "json_items v = 0"

definition pending_ok :: "json_limits \<Rightarrow> nat \<Rightarrow> (pyval \<times> nat) list \<Rightarrow> bool" where
  "pending_ok lims items ps \<longleftrightarrow> list_all (\<lambda>(v, d). json_shape lims d v) ps
     \<and> items + sum_list (List.map (\<lambda>(v, d). json_items v) ps) \<le> max_collection_items lims"

lemma pending_ok_children:
  "pending_ok lims items (rev (List.map (\<lambda>v. (v, d)) vs) @ ps) \<longleftrightarrow>
     list_all (json_shape lims d) vs \<and> list_all (\<lambda>(v, d). json_shape lims d v) ps
     \<and> items + sum_list (List.map json_items vs) + sum_list (List.map (\<lambda>(v, d). json_items v) ps)
        \<le> max_collection_items lims"
  by (auto simp: pending_ok_def list_all_iff rev_map [symmetric] comp_def sum_list_rev)

lemma pending_ok_members:
  "pending_ok lims items (rev (List.map (\<lambda>kv. (snd kv, d)) kvs) @ ps) \<longleftrightarrow>
     list_all (\<lambda>(k, v). json_shape lims d v) kvs \<and> list_all (\<lambda>(v, d). json_shape lims d v) ps
     \<and> items + sum_list (List.map (\<lambda>(k, v). json_items v) kvs)
         + sum_list (List.map (\<lambda>(v, d). json_items v) ps) \<le> max_collection_items lims"
  by (simp add: pending_ok_def list_all_iff ball_Un rev_map [symmetric] comp_def sum_list_rev
      case_prod_unfold add.assoc)

lemma json_pending_eq:
  "items \<le> max_collection_items lims \<Longrightarrow>
     json_pending lims items ps = (if pending_ok lims items ps then Inr () else Inl SerializationError)"
proof (induction lims items ps rule: json_pending.induct)
  case (2 lims items item depth pending)
  note IH = "2.IH" and le = "2.prems"
  show ?case
  proof (cases item)
    case (PList vs)
    show ?thesis
    proof (cases "max_nesting lims \<le> depth \<or> too_many lims (items + length vs)")
      case False
      with IH(6) [OF PList] show ?thesis
        by (simp add: PList json_pending.simps(2) pending_ok_children)
          (auto simp: pending_ok_def too_many_def not_le)
    next
      case True
      then show ?thesis
        by (auto simp: PList json_pending.simps(2) pending_ok_def too_many_def not_le)
    qed
  next
    case (PDict kvs)
    show ?thesis
    proof (cases "max_nesting lims \<le> depth \<or> \<not> keys_fit lims (List.map fst kvs)
        \<or> too_many lims (items + length kvs)")
      case False
      with IH(7) [OF PDict] show ?thesis
        by (simp add: PDict json_pending.simps(2) pending_ok_members del: keys_fit.simps)
          (auto simp: pending_ok_def too_many_def not_le simp del: keys_fit.simps)
    next
      case True
      then show ?thesis
        by (auto simp: PDict json_pending.simps(2) pending_ok_def too_many_def not_le simp del: keys_fit.simps)
    qed
  next
    case (PFloat f)
    with IH(4) [OF PFloat] le show ?thesis
      by (cases f) (auto simp: json_pending.simps(2) pending_ok_def)
  qed (use IH le in \<open>auto simp: json_pending.simps(2) pending_ok_def\<close>)
qed (simp add: pending_ok_def)

lemma validate_json_value_eq:
  "validate_json_value lims v =
     (if json_shape lims 0 v \<and> json_items v \<le> max_collection_items lims then Inr ()
      else Inl SerializationError)"
  by (simp add: validate_json_value_def json_pending_eq pending_ok_def)

section \<open>Properties\<close>

text \<open>The worklist of \<open>validate_json_value\<close> decides what its limits say, on every value: it
  returns exactly when all floats are finite, all strings and keys within their length, all keys
  strings, no container deeper than the nesting limit and nothing but JSON values in it, and the
  items of all containers together within the collection limit; otherwise it raises
  \<open>SerializationError\<close>, whatever order the items are visited in.\<close>

theorem validate_json_spec:
  "validate_json_value lims v =
     (if json_shape lims 0 v \<and> json_items v \<le> max_collection_items lims then Inr ()
      else Inl SerializationError)"
  by (rule validate_json_value_eq)

end
