(* ===== verification/Codecs.thy ===== *)
theory Codecs
  imports Serializers "HOL-Library.Multiset"
begin

text \<open>
  What the built-in serializers of \<open>src/paqto/serializers\<close> guarantee. \<open>py_eq\<close> is Python's
  equality of JSON values: two dictionaries are equal whatever the order of their members. The
  lemmas: sorting keys yields an equal value; the envelope of a message survives the JSON text;
  the Base64 text of a payload is unique and read back.

  The locale \<open>message_codec\<close> is the contract the node relies on, and both built-in serializers
  satisfy it: a message that was serialized is deserialized to a similar one, for them an equal
  one. Its client lemma is
  the end-to-end delivery: what one node prepares, the session of the other node accepts.
\<close>

section \<open>Equal values\<close>

inductive py_eq :: "pyval \<Rightarrow> pyval \<Rightarrow> bool" where
  eq_same: "py_eq v v"
| eq_list: "list_all2 py_eq vs ws \<Longrightarrow> py_eq (PList vs) (PList ws)"
| eq_tuple: "list_all2 py_eq vs ws \<Longrightarrow> py_eq (PTuple vs) (PTuple ws)"
| eq_dict: "list_all2 (\<lambda>kv kw. fst kv = fst kw \<and> py_eq (snd kv) (snd kw)) kvs kws \<Longrightarrow>
     mset kws = mset kws' \<Longrightarrow> py_eq (PDict kvs) (PDict kws')"

inductive_cases py_eq_atomE: "py_eq (PStr s) w" "py_eq PNone w"
inductive_cases py_eq_dictE: "py_eq (PDict kvs) w"

lemma rmap_Inr_iff: "rmap f xs = Inr ys \<longleftrightarrow> list_all2 (\<lambda>x y. f x = Inr y) xs ys"
  by (induction xs arbitrary: ys) (auto simp: res_simps list_all2_Cons1)

lemma sort_members_mset: "sort_members kvs = Inr ms \<Longrightarrow> mset ms = mset kvs"
proof -
  assume "sort_members kvs = Inr ms"
  then obtain ps where ps: "rmap (\<lambda>(k, v). opt_res TypeError (map_option (\<lambda>s. (s, v)) (as_str k))) kvs = Inr ps"
      "ms = List.map (\<lambda>(s, v). (PStr s, v)) (sort_key fst ps)"
    by (auto simp: sort_members_def res_simps)
  have "kvs = List.map (\<lambda>(s, v). (PStr s, v)) ps"
    using ps(1) by (induction kvs arbitrary: ps) (auto simp: res_simps)
  with ps(2) show ?thesis by simp
qed

lemma sort_keys_eq: "sort_keys v = Inr w \<Longrightarrow> py_eq v w"
proof (induction v arbitrary: w rule: sort_keys.induct)
  case (1 vs)
  then obtain ws where "list_all2 (\<lambda>v w. sort_keys v = Inr w) vs ws" "w = PList ws"
    by (auto simp: res_simps rmap_Inr_iff)
  with 1(1) show ?case by (auto intro!: eq_list elim!: list.rel_mono_strong)
next
  case (2 vs)
  then obtain ws where "list_all2 (\<lambda>v w. sort_keys v = Inr w) vs ws" "w = PTuple ws"
    by (auto simp: res_simps rmap_Inr_iff)
  with 2(1) show ?case by (auto intro!: eq_tuple elim!: list.rel_mono_strong)
next
  case (3 kvs)
  then obtain kws ms where "rmap (\<lambda>(k, v). rbind (sort_keys v) (\<lambda>w. Inr (k, w))) kvs = Inr kws"
      and ms: "sort_members kws = Inr ms" "w = PDict ms"
    by (auto simp: res_simps)
  then have "list_all2 (\<lambda>kv kw. (case kv of (k, v) \<Rightarrow> rbind (sort_keys v) (\<lambda>w. Inr (k, w))) = Inr kw) kvs kws"
    by (simp add: rmap_Inr_iff)
  then have "list_all2 (\<lambda>kv kw. fst kv = fst kw \<and> py_eq (snd kv) (snd kw)) kvs kws"
    by (rule list.rel_mono_strong) (fastforce simp: res_simps intro: 3(1))
  with ms sort_members_mset show ?case by (auto intro!: eq_dict)
qed (auto intro: eq_same)

text \<open>What does not depend on the order of the members.\<close>

lemma list_all2_map_eq: "list_all2 (\<lambda>x y. f x = g y) xs ys \<Longrightarrow> List.map f xs = List.map g ys"
  by (induction rule: list_all2_induct) simp_all

lemma list_all2_right: "list_all2 P xs ys \<Longrightarrow> y \<in> set ys \<Longrightarrow> \<exists>x \<in> set xs. P x y"
  by (induction rule: list_all2_induct) auto

lemma py_eq_size: "py_eq v w \<Longrightarrow> json_items w = json_items v"
proof (induction rule: py_eq.induct)
  case (eq_list vs ws)
  have "list_all2 (\<lambda>v w. json_items v = json_items w) vs ws"
    using eq_list by (rule list.rel_mono_strong) simp
  then have "List.map json_items vs = List.map json_items ws" by (rule list_all2_map_eq)
  moreover have "length vs = length ws" using eq_list by (rule list_all2_lengthD)
  ultimately show ?case by simp
next
  case (eq_dict kvs kws kws')
  have "list_all2 (\<lambda>kv kw. (case kv of (k, v) \<Rightarrow> json_items v) = (case kw of (k, v) \<Rightarrow> json_items v)) kvs kws"
    using eq_dict(1) by (rule list.rel_mono_strong) (simp add: case_prod_unfold)
  then have "List.map (\<lambda>(k, v). json_items v) kvs = List.map (\<lambda>(k, v). json_items v) kws"
    by (rule list_all2_map_eq)
  moreover have "length kvs = length kws'"
    using list_all2_lengthD [OF eq_dict(1)] mset_eq_length [OF eq_dict(2)] by simp
  moreover have "sum_list (List.map (\<lambda>(k, v). json_items v) kws) = sum_list (List.map (\<lambda>(k, v). json_items v) kws')"
    using arg_cong [OF eq_dict(2), of "\<lambda>M. sum_mset (image_mset (\<lambda>(k, v). json_items v) M)"]
    by (simp add: sum_mset_sum_list [symmetric])
  ultimately show ?case by simp
qed simp_all

lemma py_eq_members:
  assumes "list_all2 (\<lambda>kv kw. fst kv = fst kw \<and> P (snd kv) (snd kw)) kvs kws" "mset kws = mset kws'"
  shows "set (dkeys kws') = set (dkeys kvs)" "distinct (dkeys kws') \<longleftrightarrow> distinct (dkeys kvs)"
    "\<And>kw. kw \<in> set kws' \<Longrightarrow> \<exists>v. (fst kw, v) \<in> set kvs \<and> P v (snd kw)"
proof -
  have "list_all2 (\<lambda>kv kw. fst kv = fst kw) kvs kws"
    using assms(1) by (rule list.rel_mono_strong) simp
  then have keys: "dkeys kvs = dkeys kws" by (rule list_all2_map_eq)
  have "mset (dkeys kws') = mset (dkeys kws)" using assms(2) by simp
  with keys show "set (dkeys kws') = set (dkeys kvs)" "distinct (dkeys kws') \<longleftrightarrow> distinct (dkeys kvs)"
    by (metis mset_eq_setD, metis mset_eq_imp_distinct_iff)
  fix kw assume "kw \<in> set kws'"
  then have "kw \<in> set kws" using assms(2) by (metis mset_eq_setD)
  then obtain kv where "kv \<in> set kvs" "fst kv = fst kw" "P (snd kv) (snd kw)"
    using list_all2_right [OF assms(1)] by blast
  then show "\<exists>v. (fst kw, v) \<in> set kvs \<and> P v (snd kw)" by (metis prod.collapse)
qed

lemma py_eq_shape: "py_eq v w \<Longrightarrow> json_shape lims d v \<Longrightarrow> json_shape lims d w"
proof (induction arbitrary: d rule: py_eq.induct)
  case (eq_list vs ws)
  then show ?case by (fastforce simp: list_all_iff dest: list_all2_right)
next
  case (eq_dict kvs kws kws')
  let ?P = "\<lambda>v w. py_eq v w \<and> (\<forall>d. json_shape lims d v \<longrightarrow> json_shape lims d w)"
  have m: "list_all2 (\<lambda>kv kw. fst kv = fst kw \<and> ?P (snd kv) (snd kw)) kvs kws"
    using eq_dict(1) by (rule list.rel_mono_strong) blast
  note mem = py_eq_members [OF m eq_dict(2)]
  have "keys_fit lims (dkeys kws')"
    using eq_dict(3) mem(1) by (simp add: list_all_iff)
  moreover have "json_shape lims (d + 1) (snd kw)" if "kw \<in> set kws'" for kw
    using mem(3) [OF that] eq_dict(3) by (auto simp: list_all_iff simp del: keys_fit.simps)
  ultimately show ?case using eq_dict(3) by (auto simp: list_all_iff simp del: keys_fit.simps)
qed simp_all

lemma py_eq_portable: "py_eq v w \<Longrightarrow> portable rt v \<Longrightarrow> portable rt w"
proof (induction rule: py_eq.induct)
  case (eq_list vs ws)
  then show ?case by (fastforce simp: list_all_iff dest: list_all2_right)
next
  case (eq_dict kvs kws kws')
  let ?P = "\<lambda>v w. py_eq v w \<and> (portable rt v \<longrightarrow> portable rt w)"
  have m: "list_all2 (\<lambda>kv kw. fst kv = fst kw \<and> ?P (snd kv) (snd kw)) kvs kws"
    using eq_dict(1) by (rule list.rel_mono_strong) blast
  note mem = py_eq_members [OF m eq_dict(2)]
  have "as_str (fst kw) \<noteq> None \<and> portable rt (snd kw)" if "kw \<in> set kws'" for kw
    using mem(3) [OF that] eq_dict(3) by (auto simp: list_all_iff)
  then show ?case using eq_dict(3) mem(2) by (auto simp: list_all_iff)
qed simp_all

lemma py_eq_str_map: "py_eq v w \<Longrightarrow> str_map v \<Longrightarrow> str_map w"
proof (induction rule: py_eq.induct)
  case (eq_dict kvs kws kws')
  have m: "list_all2 (\<lambda>kv kw. fst kv = fst kw \<and> py_eq (snd kv) (snd kw)) kvs kws"
    using eq_dict(1) by (rule list.rel_mono_strong) blast
  have "as_str (fst kw) \<noteq> None \<and> as_str (snd kw) \<noteq> None" if "kw \<in> set kws'" for kw
    using py_eq_members(3) [OF m eq_dict(2) that] eq_dict(3) by (fastforce simp: str_map_def list_all_iff elim: py_eq_atomE)
  then show ?case by (simp add: str_map_def list_all_iff)
qed (simp_all add: str_map_def)

lemma py_eq_keys: "py_eq (PDict kvs) (PDict kws) \<Longrightarrow> set (dkeys kws) = set (dkeys kvs)"
  by (erule py_eq_dictE) (simp, drule (1) py_eq_members(1), simp)

lemma py_eq_lookup:
  assumes "py_eq (PDict kvs) (PDict kws)" "distinct (dkeys kvs)" "map_of kvs k = Some v"
  shows "\<exists>w. map_of kws k = Some w \<and> py_eq v w"
proof -
  from assms(1) consider "kws = kvs"
    | ls where "list_all2 (\<lambda>kv kw. fst kv = fst kw \<and> py_eq (snd kv) (snd kw)) kvs ls" "mset ls = mset kws"
    by (auto elim: py_eq_dictE)
  then show ?thesis
  proof cases
    case 2
    note mem = py_eq_members [OF 2]
    from assms(3) have "k \<in> set (dkeys kws)" using mem(1) by (metis map_of_None_iff option.distinct(1))
    then obtain w where w: "map_of kws k = Some w" by (metis map_of_None_iff option.exhaust)
    then obtain u where "(k, u) \<in> set kvs" "py_eq u w" using mem(3) map_of_SomeD by fastforce
    with assms(2,3) w show ?thesis by (metis map_of_is_SomeI option.inject)
  qed (use assms(3) in \<open>auto intro: eq_same\<close>)
qed

section \<open>The envelope\<close>

lemma decode_encode_json:
  assumes "encode_json rt v = Inr b" "portable rt v"
  shows "\<exists>w. decode_json rt (PBytes b) = Inr w \<and> py_eq v w"
proof -
  from assms(1) obtain t where t: "json_dumps rt False True v = Inr t" "utf8_encode t = Some b"
    by (auto simp: encode_json_def res_simps)
  then obtain w where w: "sort_keys v = Inr w" "json_dumps rt False False w = Inr t"
    by (auto simp: json_dumps_def res_simps)
  then have eq: "py_eq v w" by (intro sort_keys_eq)
  then have "portable rt w" using assms(2) by (rule py_eq_portable)
  from json_read_back [OF this w(2) t(2)] eq show ?thesis
    by (auto simp: decode_json_def json_object_hook_def intro!: exI [of _ w])
qed

text \<open>Equal but for the time of creation, which not every serializer carries.\<close>

definition envelope_eq :: "message \<Rightarrow> message \<Rightarrow> bool" where
  "envelope_eq m m' \<longleftrightarrow> py_eq (payload m) (payload m') \<and> py_eq (headers m) (headers m')
     \<and> m' = m\<lparr>payload := payload m', headers := headers m', created_at := created_at m'\<rparr>"

definition message_eq :: "message \<Rightarrow> message \<Rightarrow> bool" where
  "message_eq m m' \<longleftrightarrow> py_eq (payload m) (payload m') \<and> py_eq (headers m) (headers m')
     \<and> m' = m\<lparr>payload := payload m', headers := headers m'\<rparr>"

text \<open>
  A message that can be sent: its time has a text that is read back, and its payload and headers
  are dictionaries with distinct string keys (as every dictionary of strings is) and floats that
  their text denotes.
\<close>

definition sendable :: "pyrt \<Rightarrow> message \<Rightarrow> bool" where
  "sendable rt m \<longleftrightarrow> portable rt (payload m) \<and> portable rt (headers m)
     \<and> (\<forall>t. created_at m = PDateTime t \<longrightarrow> iso_parse rt (iso_format rt t) = Some t)"

lemma optional_id_portable: "optional_id v \<Longrightarrow> portable rt v"
  by (auto simp: optional_id_def)

lemma optional_id_eq: "optional_id v \<Longrightarrow> py_eq v w \<Longrightarrow> w = v"
  by (auto simp: optional_id_def elim: py_eq_atomE)

lemma validate_message_fields_ok:
  "validate_message_fields m = Inr u \<longleftrightarrow> nonempty_str (msg_type m) \<noteq> None \<and> nonempty_str (msg_id m) \<noteq> None
     \<and> optional_id (sender m) \<and> optional_id (recipient m) \<and> optional_id (reply_to m)
     \<and> str_map (headers m) \<and> (\<exists>t. created_at m = PDateTime t \<and> utcoffset t \<noteq> None)"
  by (auto simp: validate_message_fields_def res_simps split: pyval.splits)

lemma envelope_roundtrip:
  assumes "encode_envelope rt m body = Inr env" "encode_json rt env = Inr b"
    and "portable rt body" "portable rt (headers m)"
    and "\<forall>t. created_at m = PDateTime t \<longrightarrow> iso_parse rt (iso_format rt t) = Some t"
  shows "\<exists>raw w h. decode_json rt (PBytes b) = Inr raw \<and> py_eq body w \<and> py_eq (headers m) h
    \<and> (\<forall>dp. decode_envelope rt raw dp = rbind (dp w) (\<lambda>p. Inr (m\<lparr>payload := p, headers := h\<rparr>)))"
proof -
  from assms(1) obtain t where fields: "validate_message_fields m = Inr ()" and t: "created_at m = PDateTime t"
    by (auto simp: encode_envelope_def res_simps split: pyval.splits)
  let ?kvs = "[(PStr (lit ''payload''), body), (PStr (lit ''type''), msg_type m),
     (PStr (lit ''sender''), sender m), (PStr (lit ''recipient''), recipient m),
     (PStr (lit ''headers''), headers m), (PStr (lit ''id''), msg_id m),
     (PStr (lit ''created_at''), PStr (iso_format rt t)), (PStr (lit ''reply_to''), reply_to m)]"
  have env: "env = PDict ?kvs" using assms(1) fields t by (simp add: encode_envelope_def)
  have ok: "nonempty_str (msg_type m) \<noteq> None" "nonempty_str (msg_id m) \<noteq> None" "optional_id (sender m)"
      "optional_id (recipient m)" "optional_id (reply_to m)" "str_map (headers m)" "utcoffset t \<noteq> None"
    using fields t by (auto simp: validate_message_fields_ok)
  have dist: "distinct (dkeys ?kvs)" by simp
  have "portable rt env"
    using ok assms(3,4) optional_id_portable by (auto simp: env)
  from decode_encode_json [OF assms(2) this] obtain raw where
    raw: "decode_json rt (PBytes b) = Inr raw" "py_eq (PDict ?kvs) raw" unfolding env by blast
  then obtain kws where kws: "raw = PDict kws" by (auto elim: py_eq_dictE)
  have get: "\<exists>w. dget kws k = w \<and> py_eq v w" if "map_of ?kvs (PStr k) = Some v" for k v
    using py_eq_lookup [OF raw(2) [unfolded kws] dist that] by (auto simp: dget_def)
  have keys: "set (dkeys kws) = PStr ` set ENVELOPE_FIELDS"
    using py_eq_keys [OF raw(2) [unfolded kws]] by (auto simp: ENVELOPE_FIELDS_def)
  obtain w h where wh: "dget kws (lit ''payload'') = w" "py_eq body w"
      "dget kws (lit ''headers'') = h" "py_eq (headers m) h"
    using get [of "lit ''payload''" body] get [of "lit ''headers''" "headers m"] by auto
  have strs: "dget kws (lit ''type'') = msg_type m" "dget kws (lit ''id'') = msg_id m"
      "dget kws (lit ''created_at'') = PStr (iso_format rt t)"
    using get [of "lit ''type''" "msg_type m"] get [of "lit ''id''" "msg_id m"]
      get [of "lit ''created_at''" "PStr (iso_format rt t)"] ok(1,2) by (auto elim: py_eq_atomE)
  have ids: "dget kws (lit ''sender'') = sender m" "dget kws (lit ''recipient'') = recipient m"
      "dget kws (lit ''reply_to'') = reply_to m"
    using get [of "lit ''sender''" "sender m"] get [of "lit ''recipient''" "recipient m"]
      get [of "lit ''reply_to''" "reply_to m"] optional_id_eq ok(3-5) by auto
  have made: "\<lparr>payload = p, msg_type = msg_type m, sender = sender m, recipient = recipient m,
      headers = h, msg_id = msg_id m, created_at = PDateTime t, reply_to = reply_to m\<rparr>
      = m\<lparr>payload := p, headers := h\<rparr>" for p
    using t by simp
  have "validate_message_fields (m\<lparr>payload := p, headers := h\<rparr>) = Inr ()" for p
    using ok t py_eq_str_map [OF wh(4)] by (simp add: validate_message_fields_ok)
  then have "decode_envelope rt raw dp = rbind (dp w) (\<lambda>p. Inr (m\<lparr>payload := p, headers := h\<rparr>))" for dp
    unfolding decode_envelope_def kws pyval.case keys strs ids wh(1,3)
    using assms(5) t by (simp add: made Let_def del: lit_simps)
  with raw(1) wh show ?thesis by blast
qed

section \<open>Base64\<close>

lemma b64_val_char [simp]: "i < 64 \<Longrightarrow> b64_val (b64_char i) = Some i"
  by (auto simp: b64_val_def b64_char_def)

lemma b64_char_ascii [simp]: "i < 64 \<Longrightarrow> b64_char i < 128" "i < 64 \<Longrightarrow> b64_char i \<noteq> 61"
  by (auto simp: b64_char_def)

lemma radix: "b < 16 \<Longrightarrow> (a * 16 + b) div 16 = a \<and> (a * 16 + b) mod 16 = b"
  "b < 4 \<Longrightarrow> (a * 4 + b) div 4 = a \<and> (a * 4 + b) mod 4 = (b :: nat)"
  by auto

lemma b64_bits:
  assumes "x < 256" "y < 256" "z < (256 :: nat)"
  shows "x div 4 < 64" "x mod 4 * 16 < 64" "x mod 4 * 16 + y div 16 < 64" "y mod 16 * 4 < 64"
    "y mod 16 * 4 + z div 64 < 64" "z mod 64 < 64"
    and "x div 4 * 4 + (x mod 4 * 16 + y div 16) div 16 = x" "x div 4 * 4 + x mod 4 * 16 div 16 = x"
    "(x mod 4 * 16 + y div 16) mod 16 * 16 + (y mod 16 * 4 + z div 64) div 4 = y"
    "(x mod 4 * 16 + y div 16) mod 16 * 16 + y mod 16 * 4 div 4 = y"
    "(y mod 16 * 4 + z div 64) mod 4 * 64 + z mod 64 = z"
proof -
  have d: "x div 4 < 64" "y div 16 < 16" "z div 64 < 4" using assms by auto
  moreover have m: "x mod 4 < 4" "y mod 16 < 16" "z mod 64 < 64" by simp_all
  ultimately show "x div 4 < 64" "x mod 4 * 16 < 64" "x mod 4 * 16 + y div 16 < 64" "y mod 16 * 4 < 64"
    "y mod 16 * 4 + z div 64 < 64" "z mod 64 < 64" by linarith+
  show "x div 4 * 4 + (x mod 4 * 16 + y div 16) div 16 = x" "x div 4 * 4 + x mod 4 * 16 div 16 = x"
    "(x mod 4 * 16 + y div 16) mod 16 * 16 + (y mod 16 * 4 + z div 64) div 4 = y"
    "(x mod 4 * 16 + y div 16) mod 16 * 16 + y mod 16 * 4 div 4 = y"
    "(y mod 16 * 4 + z div 64) mod 4 * 64 + z mod 64 = z"
    using radix(1) [OF d(2), of "x mod 4"] radix(2) [OF d(3), of "y mod 16"]
      radix(1) [of 0 "x mod 4"] radix(2) [of 0 "y mod 16"]
    by (simp_all only: div_mult_mod_eq add_0_right simp_thms zero_less_numeral)
qed

lemma b64decode_units:
  assumes "p < 64" "q < 64"
  shows "b64decode [b64_char p, b64_char q, 61, 61] = Some [of_nat (p * 4 + q div 16)]"
    and "s < 64 \<Longrightarrow> b64decode [b64_char p, b64_char q, b64_char s, 61]
      = Some [of_nat (p * 4 + q div 16), of_nat (q mod 16 * 16 + s div 4)]"
    and "s < 64 \<Longrightarrow> t < 64 \<Longrightarrow> b64decode (b64_char p # b64_char q # b64_char s # b64_char t # r)
      = map_option (\<lambda>rest. of_nat (p * 4 + q div 16) # of_nat (q mod 16 * 16 + s div 4)
          # of_nat (s mod 4 * 64 + t) # rest) (b64decode r)"
  using assms by (simp_all split: option.split)

lemma b64decode_encode: "b64decode (b64encode b) = Some b"
proof (induction b rule: b64encode.induct)
  case (2 a)
  note b = b64_bits [OF unat_byte_less [of a] unat_byte_less [of a] unat_byte_less [of a]]
  show ?case unfolding b64encode.simps Let_def b64decode_units(1) [OF b(1,2)] b(8) by simp
next
  case (3 a c)
  note b = b64_bits [OF unat_byte_less [of a] unat_byte_less [of c] unat_byte_less [of c]]
  show ?case unfolding b64encode.simps Let_def b64decode_units(2) [OF b(1,3,4)] b(7,10) by simp
next
  case (4 a c d r)
  note b = b64_bits [OF unat_byte_less [of a] unat_byte_less [of c] unat_byte_less [of d]]
  show ?case unfolding b64encode.simps Let_def b64decode_units(3) [OF b(1,3,5,6)] b(7,9,11)
    using 4 by simp
qed simp

lemma b64encode_ascii: "list_all (\<lambda>c. c < 128) (b64encode b)"
proof (induction b rule: b64encode.induct)
  case (2 a)
  note b = b64_bits [OF unat_byte_less [of a] unat_byte_less [of a] unat_byte_less [of a]]
  show ?case using b(1,2) by (simp add: Let_def)
next
  case (3 a c)
  note b = b64_bits [OF unat_byte_less [of a] unat_byte_less [of c] unat_byte_less [of c]]
  show ?case using b(1,3,4) by (simp add: Let_def)
next
  case (4 a c d r)
  note b = b64_bits [OF unat_byte_less [of a] unat_byte_less [of c] unat_byte_less [of d]]
  show ?case using b(1,3,5,6) 4 by (simp add: Let_def)
qed simp

lemma bytes_decode_payload_iff: "bytes_decode_payload v = Inr p \<longleftrightarrow> (\<exists>b. v = PStr (b64encode b) \<and> p = PBytes b)"
  by (auto simp: bytes_decode_payload_def res_simps b64decode_encode b64encode_ascii)

section \<open>The two serializers\<close>

lemma portable_text: "portable rt (PStr s)"
  by simp

lemma json_reads_back:
  assumes "json_serialize rt lims m = Inr b" "sendable rt m"
  shows "\<exists>m'. json_deserialize rt lims b = Inr m' \<and> message_eq m m'"
proof -
  from assms(1) obtain env where valid: "validate_json_value lims (payload m) = Inr ()"
      and env: "encode_envelope rt m (payload m) = Inr env" "encode_json rt env = Inr b"
    by (auto simp: json_serialize_def res_simps)
  obtain raw w h where raw: "decode_json rt (PBytes b) = Inr raw" "py_eq (payload m) w" "py_eq (headers m) h"
      "\<And>dp. decode_envelope rt raw dp = rbind (dp w) (\<lambda>p. Inr (m\<lparr>payload := p, headers := h\<rparr>))"
    using envelope_roundtrip [OF env] assms(2) unfolding sendable_def by blast
  have "validate_json_value lims w = Inr ()"
    using valid py_eq_shape [OF raw(2)] py_eq_size [OF raw(2)]
    by (auto simp: validate_json_value_eq split: if_splits)
  with raw show ?thesis
    by (simp add: json_deserialize_def json_decode_payload_def message_eq_def)
qed

lemma bytes_reads_back:
  assumes "bytes_serialize rt m = Inr b" "sendable rt m"
  shows "\<exists>m'. bytes_deserialize rt b = Inr m' \<and> message_eq m m'"
proof -
  from assms(1) obtain p env where p: "payload m = PBytes p"
      and env: "encode_envelope rt m (PStr (b64encode p)) = Inr env" "encode_json rt env = Inr b"
    by (auto simp: bytes_serialize_def res_simps split: pyval.splits)
  obtain raw w h where raw: "decode_json rt (PBytes b) = Inr raw" "py_eq (PStr (b64encode p)) w" "py_eq (headers m) h"
      "\<And>dp. decode_envelope rt raw dp = rbind (dp w) (\<lambda>p. Inr (m\<lparr>payload := p, headers := h\<rparr>))"
    using envelope_roundtrip [OF env portable_text] assms(2) unfolding sendable_def by blast
  have "bytes_decode_payload w = Inr (PBytes p)" using raw(2) by (auto simp: bytes_decode_payload_iff elim: py_eq_atomE)
  with raw p show ?thesis
    by (simp add: bytes_deserialize_def message_eq_def eq_same)
qed

section \<open>The contract of a serializer\<close>

lemma message_eq_envelope: "message_eq m m' \<Longrightarrow> envelope_eq m m'"
  unfolding message_eq_def envelope_eq_def by (cases m; cases m') simp

locale message_codec =
  fixes cd :: codec and admitted :: "message \<Rightarrow> bool" and similar :: "message \<Rightarrow> message \<Rightarrow> bool"
  assumes reads_back: "codec_serialize cd m = Inr v \<Longrightarrow> admitted m \<Longrightarrow>
    \<exists>b m'. v = PBytes b \<and> codec_deserialize cd b = Inr (Some m') \<and> similar m m'"
  and similar_envelope: "similar m m' \<Longrightarrow> envelope_eq m m'"
begin

lemma delivered:
  assumes "prepare_message cd c m require_ack n = Inr (frame, ack, s)" "admitted m"
    and "session_max_message_size s' = session_max_message_size s"
    and "sender m = PStr (session_peer_id s')" "recipient m = PNone \<or> recipient m = PStr local_id"
  shows "\<exists>data m'. decode_session_frame rt (PBytes frame) (session_max_message_size s') = Inr (ApplicationData data)
    \<and> accept_message cd local_id s' data = Inr m' \<and> similar m m'"
proof -
  from assms(1) obtain v data where valid: "validate_message m = Inr ()"
      and data: "codec_serialize cd m = Inr v" "v = PBytes data" "as_serialization (Inr v) = Inr v"
      "encode_application_frame (PBytes data) (session_max_message_size s) = Inr frame"
    by (auto simp: prepare_message_def as_serialization_def res_simps split: sum.splits pyval.splits elim!: rbind_InrE)
  from reads_back [OF data(1) assms(2)] data(2) obtain m' where
    m': "codec_deserialize cd data = Inr (Some m')" "similar m m'" by auto
  then have same: "msg_type m' = msg_type m" "msg_id m' = msg_id m" "sender m' = sender m"
      "recipient m' = recipient m" "reply_to m' = reply_to m" "py_eq (headers m) (headers m')"
    using similar_envelope [OF m'(2)] unfolding envelope_eq_def
    by (metis message.select_convs message.surjective message.update_convs)+
  have "validate_message m' = Inr ()"
    using valid py_eq_str_map [OF same(6)]
    by (auto simp: validate_message_def validate_message_shape_def same res_simps)
  then have "accept_message cd local_id s' data = Inr m'"
    using m'(1) assms(4,5) by (simp add: accept_message_def as_serialization_def same guard_def)
  moreover have "decode_session_frame rt (PBytes frame) (session_max_message_size s') = Inr (ApplicationData data)"
    using data(4) assms(3) by (auto simp: encode_application_frame_def decode_session_frame_def split_frame_def
        APPLICATION_FRAME_def guard_def split: if_splits)
  ultimately show ?thesis using m'(2) by blast
qed

end

interpretation json: message_codec "json_codec rt lims" "sendable rt" message_eq for rt lims
proof
  fix m v assume "codec_serialize (json_codec rt lims) m = Inr v" "sendable rt m"
  then show "\<exists>b m'. v = PBytes b \<and> codec_deserialize (json_codec rt lims) b = Inr (Some m') \<and> message_eq m m'"
    using json_reads_back by (force simp: json_codec_def res_simps)
qed (rule message_eq_envelope)

interpretation raw_bytes: message_codec "bytes_codec rt" "sendable rt" message_eq for rt
proof
  fix m v assume "codec_serialize (bytes_codec rt) m = Inr v" "sendable rt m"
  then show "\<exists>b m'. v = PBytes b \<and> codec_deserialize (bytes_codec rt) b = Inr (Some m') \<and> message_eq m m'"
    using bytes_reads_back by (force simp: bytes_codec_def res_simps)
qed (rule message_eq_envelope)

section \<open>Properties\<close>

definition example_time :: dt where
  "example_time = \<lparr>wall_us = 0, utcoffset = Some 0\<rparr>"

definition example_limits :: json_limits where
  "example_limits = \<lparr>max_nesting = 4, max_collection_items = 4, max_string_length = 4\<rparr>"

text \<open>A message whose payload is an object with its keys out of order.\<close>

definition json_message :: message where
  "json_message = new_message (lit ''b'') (PStr (lit ''a''))
     (PDict [(PStr (lit ''k''), PInt 5), (PStr (lit ''j''), PNone)]) (PStr (lit ''t'')) (PDict [])
     (PStr (lit ''m'')) (PDateTime example_time) PNone"

lemma json_message_sendable: "sendable plain_rt json_message"
  by (simp add: sendable_def json_message_def new_message_def plain_rt_def example_time_def)

lemma json_message_valid:
  "validate_json_value example_limits (payload json_message) = Inr ()"
  "encode_envelope plain_rt json_message (payload json_message) = Inr (PDict
     [(PStr (lit ''payload''), payload json_message), (PStr (lit ''type''), PStr (lit ''t'')),
      (PStr (lit ''sender''), PStr (lit ''b'')), (PStr (lit ''recipient''), PStr (lit ''a'')),
      (PStr (lit ''headers''), PDict []), (PStr (lit ''id''), PStr (lit ''m'')),
      (PStr (lit ''created_at''), PStr (lit ''2000-01-01'')), (PStr (lit ''reply_to''), PNone)])"
  by (simp_all add: validate_json_value_eq json_message_def new_message_def example_limits_def
      encode_envelope_def validate_message_fields_def optional_id_def str_map_def example_time_def plain_rt_def)

lemma json_message_serialized: "\<exists>b. json_serialize plain_rt example_limits json_message = Inr b \<and> length b < 1000"
  using json_message_valid
  by (simp add: json_serialize_def encode_json_def sort_members_def sort_key_def json_eval json_message_def
      new_message_def utf8_encode_def utf8_char_def)

text \<open>What the JSON serializer wrote, it reads back: a message that was serialized, with distinct
  string keys, floats that their text denotes and a time that its ISO text denotes, is
  deserialized, under the same limits, to the same message; only the order of the members of
  its objects may differ.\<close>

theorem json_roundtrip:
  assumes "json_serialize rt lims m = Inr b" "sendable rt m"
  shows "\<exists>m'. json_deserialize rt lims b = Inr m' \<and> message_eq m m'"
  using assms by (rule json_reads_back)

theorem json_roundtrip_witness:
  "\<exists>b m'. json_serialize plain_rt example_limits json_message = Inr b
     \<and> json_deserialize plain_rt example_limits b = Inr m' \<and> message_eq json_message m'"
  using json_message_serialized json_roundtrip [OF _ json_message_sendable] by blast

text \<open>A payload on the wire has one spelling only: the bytes serializer accepts exactly the
  canonical Base64 texts, each standing for one byte string, and rejects every other value.\<close>

theorem base64_canonical:
  "bytes_decode_payload v = Inr p \<longleftrightarrow> (\<exists>b. v = PStr (b64encode b) \<and> p = PBytes b)"
  by (rule bytes_decode_payload_iff)

text \<open>What one node sends, the other accepts: if \<open>_send_message\<close> gets a message past its checks
  with a built-in serializer, and the peer's session has the same message limit, expects this
  sender and the message is addressed to it or to nobody, then the peer's reader decodes the
  frame to application data and accepts from it an equal message.\<close>

lemma message_delivered:
  assumes "cd = json_codec rt lims \<or> cd = bytes_codec rt"
    and "prepare_message cd c m require_ack n = Inr (frame, ack, s)" "sendable rt m"
    and "session_max_message_size s' = session_max_message_size s"
    and "sender m = PStr (session_peer_id s')"
    and "recipient m = PNone \<or> recipient m = PStr local_id"
  shows "\<exists>data m'. decode_session_frame rt (PBytes frame) (session_max_message_size s') = Inr (ApplicationData data)
    \<and> accept_message cd local_id s' data = Inr m' \<and> message_eq m m'"
  using assms(1) json.delivered raw_bytes.delivered assms(2-6) by metis

end
