(* ===== verification/LanAddress.thy ===== *)
theory LanAddress
  imports Models
begin

text \<open>
  LAN endpoint addresses: \<open>src/paqto/lan/address.py\<close>. \<open>split_url\<close> is what the code uses of
  \<open>urllib.parse.urlparse\<close> (CPython 3.12): for the scheme \<open>tcp\<close> it never splits parameters off
  the path. Two of its checks, the validity of a bracketed IPv6 host and of non-ASCII host names,
  the lower case of a text and \<open>str()\<close> of a value come with the record \<open>url_rt\<close>, what the
  operating system resolves with the argument \<open>infos\<close>.

  The lemmas: an address that was built is parsed to the same host and port; parsing raises
  \<open>TransportError\<close>, and also \<open>ValueError\<close> from \<open>urlparse\<close> itself.
\<close>

section \<open>Texts\<close>

definition partition_at :: "nat \<Rightarrow> pystr \<Rightarrow> pystr \<times> bool \<times> pystr" where
  "partition_at c s = (takeWhile (\<lambda>x. x \<noteq> c) s, c \<in> set s, drop 1 (dropWhile (\<lambda>x. x \<noteq> c) s))"

definition rpartition_at :: "nat \<Rightarrow> pystr \<Rightarrow> pystr \<times> bool \<times> pystr" where
  "rpartition_at c s =
     (case partition_at c (rev s) of
        (after, True, before) \<Rightarrow> (rev before, True, rev after)
      | (after, False, _) \<Rightarrow> ([], False, s))"

definition ascii_lower :: "pystr \<Rightarrow> pystr" where
  "ascii_lower s = List.map (\<lambda>c. if 65 \<le> c \<and> c \<le> 90 then c + 32 else c) s"

definition ascii_letter :: "nat \<Rightarrow> bool" where
  "ascii_letter c \<longleftrightarrow> 65 \<le> c \<and> c \<le> 90 \<or> 97 \<le> c \<and> c \<le> 122"

section \<open>URLs\<close>

record url_rt =
  lower_text :: "pystr \<Rightarrow> pystr"
  bracket_ok :: "pystr \<Rightarrow> bool"
  unicode_ok :: "pystr \<Rightarrow> bool"
  str_of :: "pyval \<Rightarrow> pystr"

record url =
  url_scheme :: pystr
  url_netloc :: pystr
  url_path :: pystr
  url_query :: pystr
  url_fragment :: pystr

definition scheme_char :: "nat \<Rightarrow> bool" where
  "scheme_char c \<longleftrightarrow> ascii_letter c \<or> is_digit c \<or> c = 43 \<or> c = 45 \<or> c = 46"

definition split_scheme :: "pystr \<Rightarrow> pystr \<times> pystr" where
  "split_scheme s =
     (case partition_at 58 s of
        (h, True, r) \<Rightarrow>
          if h \<noteq> [] \<and> ascii_letter (hd h) \<and> list_all scheme_char h then (ascii_lower h, r) else ([], s)
      | (_, False, _) \<Rightarrow> ([], s))"

definition split_netloc :: "pystr \<Rightarrow> pystr \<times> pystr" where
  "split_netloc s =
     (if take 2 s = lit ''//''
      then (takeWhile (\<lambda>c. c \<notin> {47, 63, 35}) (drop 2 s), dropWhile (\<lambda>c. c \<notin> {47, 63, 35}) (drop 2 s))
      else ([], s))"

definition split_url :: "url_rt \<Rightarrow> pystr \<Rightarrow> exn + url" where
  "split_url u address =
     (let s = filter (\<lambda>c. c \<notin> {9, 10, 13}) (dropWhile (\<lambda>c. c \<le> 32) address);
          (scheme, r1) = split_scheme s;
          (netloc, r2) = split_netloc r1;
          (r3, _, fragment) = partition_at 35 r2;
          (path, _, query) = partition_at 63 r3
      in rbind (guard ((91 \<in> set netloc) = (93 \<in> set netloc)) ValueError) (\<lambda>_.
         rbind (guard (91 \<in> set netloc \<longrightarrow> bracket_ok u netloc) ValueError) (\<lambda>_.
         rbind (guard (unicode_ok u netloc) ValueError) (\<lambda>_.
           Inr \<lparr>url_scheme = scheme, url_netloc = netloc, url_path = path, url_query = query,
                url_fragment = fragment\<rparr>))))"

definition url_user :: "url \<Rightarrow> pystr" where
  "url_user p = (case rpartition_at 64 (url_netloc p) of (info, _, _) \<Rightarrow> fst (partition_at 58 info))"

definition url_password :: "url \<Rightarrow> pystr" where
  "url_password p =
     (case rpartition_at 64 (url_netloc p) of (info, _, _) \<Rightarrow> snd (snd (partition_at 58 info)))"

definition host_and_port :: "url \<Rightarrow> pystr \<times> pystr" where
  "host_and_port p =
     (case rpartition_at 64 (url_netloc p) of (_, _, hostinfo) \<Rightarrow>
       (case partition_at 91 hostinfo of
          (_, True, bracketed) \<Rightarrow>
            (case partition_at 93 bracketed of (h, _, r) \<Rightarrow> (h, snd (snd (partition_at 58 r))))
        | (_, False, _) \<Rightarrow> (case partition_at 58 hostinfo of (h, _, r) \<Rightarrow> (h, r))))"

definition url_hostname :: "url_rt \<Rightarrow> url \<Rightarrow> pystr" where
  "url_hostname u p =
     (case partition_at 37 (fst (host_and_port p)) of
        (h, percent, zone) \<Rightarrow> lower_text u h @ (if percent then 37 # zone else []))"

definition url_port :: "url \<Rightarrow> exn + int option" where
  "url_port p =
     (let t = snd (host_and_port p) in
      if t = [] then Inr None
      else if list_all (\<lambda>c. is_digit c) t \<and> length t \<le> max_str_digits
      then (if digits_nat t \<le> 65535 then Inr (Some (int (digits_nat t))) else Inl ValueError)
      else Inl ValueError)"

section \<open>Addresses\<close>

definition TRANSPORT_NAME :: pystr where "TRANSPORT_NAME = lit ''lan''"
definition TCP_SCHEME :: pystr where "TCP_SCHEME = lit ''tcp''"
definition MAX_UINT32 :: int where "MAX_UINT32 = 0xFFFFFFFF"

record tcp_address =
  tcp_host :: pystr
  tcp_port :: int

definition parse_tcp_address :: "url_rt \<Rightarrow> pystr \<Rightarrow> exn + tcp_address" where
  "parse_tcp_address u address =
     rbind (split_url u address) (\<lambda>p.
     rbind (guard (url_scheme p = TCP_SCHEME) TransportError) (\<lambda>_.
     rbind (guard (url_user p = [] \<and> url_password p = []) TransportError) (\<lambda>_.
     rbind (guard (url_path p = [] \<and> url_query p = [] \<and> url_fragment p = []) TransportError) (\<lambda>_.
     rbind (guard (fst (host_and_port p) \<noteq> [] \<and> url_hostname u p \<noteq> []) TransportError) (\<lambda>_.
     rbind (catching [ValueError] TransportError (url_port p)) (\<lambda>port.
     rbind (opt_res TransportError port) (\<lambda>n.
       Inr \<lparr>tcp_host = url_hostname u p, tcp_port = n\<rparr>)))))))"

definition format_host :: "pystr \<Rightarrow> pystr" where
  "format_host h =
     (if 58 \<in> set h \<and> \<not> (h \<noteq> [] \<and> hd h = 91 \<and> last h = 93) then 91 # h @ [93] else h)"

definition build_tcp_address :: "pystr \<Rightarrow> int \<Rightarrow> exn + pystr" where
  "build_tcp_address h n =
     (if n < 0 \<or> 65535 < n then Inl TransportError
      else Inr (TCP_SCHEME @ lit ''://'' @ format_host h @ 58 # int_text n))"

definition endpoint_from_host_port ::
    "pystr \<Rightarrow> int \<Rightarrow> (pyval \<times> pyval) list \<Rightarrow> exn + endpoint" where
  "endpoint_from_host_port h n meta =
     rbind (build_tcp_address h n) (\<lambda>a.
       Inr \<lparr>ep_transport = TRANSPORT_NAME, ep_address = a, ep_metadata = meta\<rparr>)"

text \<open>A boolean port, which no socket reports, stands for its integer.\<close>

definition parse_sockname :: "url_rt \<Rightarrow> pyval \<Rightarrow> exn + pystr \<times> int" where
  "parse_sockname u sockname =
     (case sockname of
        PTuple (h # p # _) \<Rightarrow>
          (case p of
             PInt n \<Rightarrow> Inr (str_of u h, n)
           | PBool b \<Rightarrow> Inr (str_of u h, if b then 1 else 0)
           | _ \<Rightarrow> Inl TransportError)
      | _ \<Rightarrow> Inl TransportError)"

definition endpoint_from_sockname ::
    "url_rt \<Rightarrow> pyval \<Rightarrow> (pyval \<times> pyval) list \<Rightarrow> exn + endpoint" where
  "endpoint_from_sockname u sockname meta =
     rbind (parse_sockname u sockname) (\<lambda>(h, n). endpoint_from_host_port h n meta)"

text \<open>
  \<open>_resolve_hostname_address\<close>: \<open>infos\<close> are the hosts that \<open>getaddrinfo\<close> returned, \<open>None\<close> if it
  raised \<open>OSError\<close>; \<open>routable\<close> tells of an IP text whether it is neither loopback nor
  unspecified, and nothing of a text that is no IP address.
\<close>

definition resolve_hostname_address ::
    "(pystr \<Rightarrow> bool option) \<Rightarrow> pyval list option \<Rightarrow> pystr option" where
  "resolve_hostname_address routable infos =
     (case infos of
        None \<Rightarrow> None
      | Some hs \<Rightarrow> List.find (\<lambda>h. routable (takeWhile (\<lambda>c. c \<noteq> 37) h) = Some True)
                    (List.map_filter as_str hs))"

definition choose_advertised_host ::
    "(pystr \<Rightarrow> bool option) \<Rightarrow> (bool \<Rightarrow> pyval list option) \<Rightarrow> pystr \<Rightarrow> pyval \<Rightarrow> exn + pystr \<times> pystr" where
  "choose_advertised_host routable infos bind_host advertised =
     (if advertised \<noteq> PNone then
        rbind (opt_res TypeError (as_str advertised)) (\<lambda>h.
        rbind (guard (h \<noteq> []) ValueError) (\<lambda>_. Inr (h, lit ''configured'')))
      else if bind_host \<notin> {lit ''0.0.0.0'', lit ''::'', []} then Inr (bind_host, lit ''bind_host'')
      else
        (let v6 = (bind_host = lit ''::'') in
         case resolve_hostname_address routable (infos v6) of
           Some h \<Rightarrow> Inr (h, if v6 then lit ''hostname_ipv6'' else lit ''hostname_ipv4'')
         | None \<Rightarrow> Inr (if bind_host = [] then lit ''0.0.0.0'' else bind_host, lit ''bind_host'')))"

definition validate_max_frame_size :: "pyval \<Rightarrow> exn + nat" where
  "validate_max_frame_size v =
     rbind (opt_res TypeError (strict_int v)) (\<lambda>n.
     rbind (guard (0 < n) ValueError) (\<lambda>_.
     rbind (guard (n \<le> MAX_UINT32) ValueError) (\<lambda>_. Inr (nat n))))"

definition validate_frame_payload_timeout :: "pyval \<Rightarrow> exn + unit" where
  "validate_frame_payload_timeout v = check_optional (check_number (\<lambda>x. 0 < x)) v"

section \<open>Lemmas\<close>

lemma partition_at_absent: "c \<notin> set s \<Longrightarrow> partition_at c s = (s, False, [])"
  by (induction s) (auto simp: partition_at_def)

lemma partition_at_first: "c \<notin> set h \<Longrightarrow> partition_at c (h @ c # r) = (h, True, r)"
  by (induction h) (auto simp: partition_at_def)

lemma rpartition_at_absent: "c \<notin> set s \<Longrightarrow> rpartition_at c s = ([], False, s)"
  by (simp add: rpartition_at_def partition_at_absent)

definition plain_host :: "pystr \<Rightarrow> bool" where
  "plain_host h \<longleftrightarrow> h \<noteq> [] \<and> (\<forall>c \<in> set h. 32 < c \<and> c \<notin> {35, 37, 47, 63, 64, 91, 93})"

lemma split_url_built:
  assumes "\<forall>c \<in> set net. 32 < c \<and> c \<notin> {35, 47, 63}"
    and "(91 \<in> set net) = (93 \<in> set net)" "91 \<in> set net \<longrightarrow> bracket_ok u net" "unicode_ok u net"
  shows "split_url u (TCP_SCHEME @ lit ''://'' @ net) = Inr \<lparr>url_scheme = TCP_SCHEME, url_netloc = net,
    url_path = [], url_query = [], url_fragment = []\<rparr>"
proof -
  let ?s = "TCP_SCHEME @ lit ''://'' @ net"
  have "dropWhile (\<lambda>c. c \<le> 32) ?s = ?s" by (simp add: TCP_SCHEME_def)
  moreover have "filter (\<lambda>c. c \<notin> {9, 10, 13}) net = net" using assms(1) by (intro filter_True) fastforce
  then have "filter (\<lambda>c. c \<notin> {9, 10, 13}) ?s = ?s" by (simp add: TCP_SCHEME_def)
  moreover have "split_scheme ?s = (TCP_SCHEME, lit ''//'' @ net)"
    using partition_at_first [of 58 TCP_SCHEME "lit ''//'' @ net"]
    by (simp add: split_scheme_def TCP_SCHEME_def ascii_letter_def scheme_char_def ascii_lower_def)
  moreover have "takeWhile (\<lambda>c. c \<notin> {47, 63, 35}) net = net" "dropWhile (\<lambda>c. c \<notin> {47, 63, 35}) net = []"
    using assms(1) by (auto simp: takeWhile_eq_all_conv dropWhile_eq_Nil_conv)
  then have "split_netloc (lit ''//'' @ net) = (net, [])"
    by (simp add: split_netloc_def)
  ultimately show ?thesis
    using assms(2-4) by (simp add: split_url_def partition_at_absent)
qed

lemma format_host_parts:
  assumes "plain_host h" "\<forall>c \<in> set t. is_digit c"
    and "p = \<lparr>url_scheme = s, url_netloc = format_host h @ 58 # t, url_path = a, url_query = b, url_fragment = f\<rparr>"
  shows "url_user p = []" "url_password p = []" "host_and_port p = (h, t)"
proof -
  have no: "64 \<notin> set (format_host h @ 58 # t)"
    using assms(1,2) by (auto simp: plain_host_def format_host_def)
  then show "url_user p = []" "url_password p = []"
    by (simp_all add: assms(3) url_user_def url_password_def rpartition_at_absent partition_at_def)
  have h: "91 \<notin> set h" "93 \<notin> set h" using assms(1) by (auto simp: plain_host_def)
  show "host_and_port p = (h, t)"
  proof (cases "58 \<in> set h")
    case True
    have "hd h \<noteq> 91" using h assms(1) by (auto simp: plain_host_def)
    then have f: "format_host h = 91 # h @ [93]" using True by (simp add: format_host_def)
    have "partition_at 91 ((91 # h @ [93]) @ 58 # t) = ([], True, h @ 93 # 58 # t)"
      using partition_at_first [of 91 "[]"] by simp
    then show ?thesis
      using no partition_at_first [OF h(2)] partition_at_first [of 58 "[]" t]
      by (simp add: assms(3) host_and_port_def rpartition_at_absent f)
  next
    case False
    then have f: "format_host h = h" by (simp add: format_host_def)
    have "91 \<notin> set (h @ 58 # t)" using h assms(2) by auto
    then show ?thesis
      using no partition_at_first [OF False]
      by (simp add: assms(3) host_and_port_def rpartition_at_absent partition_at_absent f)
  qed
qed

lemma port_digits:
  assumes "0 \<le> n" "n \<le> 65535"
  shows "int_text n = nat_digits (nat n)" "length (nat_digits (nat n)) \<le> max_str_digits"
proof -
  show "int_text n = nat_digits (nat n)" using assms by (simp add: int_text_def)
  have "length (nat_digits m) \<le> Suc k" if "m < 10 ^ Suc k" for m k
    using that
  proof (induction k arbitrary: m)
    case (Suc k)
    show ?case
    proof (cases "m < 10")
      case False
      have "m div 10 < 10 ^ Suc k" using Suc.prems by (simp add: less_mult_imp_div_less mult.commute)
      then have "length (nat_digits (m div 10)) \<le> Suc k" by (rule Suc.IH)
      then show ?thesis using False by (simp add: nat_digits.simps [of m])
    qed (simp add: nat_digits.simps)
  qed (simp add: nat_digits.simps)
  moreover have "nat n < 10 ^ Suc 4" using assms by simp
  ultimately have "length (nat_digits (nat n)) \<le> Suc 4" by blast
  then show "length (nat_digits (nat n)) \<le> max_str_digits"
    by (simp add: max_str_digits_def)
qed

section \<open>Properties\<close>

text \<open>The address a node publishes is the one its peers connect to: what \<open>build_tcp_address\<close> makes of
  a port and a host without URL syntax in it, an IPv6 host in brackets, \<open>parse_tcp_address\<close> reads
  as that host and port, provided lower case and the checks of \<open>urlparse\<close> leave the host alone.\<close>

theorem address_roundtrip:
  assumes "plain_host h" "lower_text u h = h" "\<And>s. bracket_ok u s \<and> unicode_ok u s"
    and "build_tcp_address h n = Inr a"
  shows "parse_tcp_address u a = Inr \<lparr>tcp_host = h, tcp_port = n\<rparr>"
proof -
  have n: "0 \<le> n" "n \<le> 65535" and a: "a = TCP_SCHEME @ lit ''://'' @ format_host h @ 58 # int_text n"
    using assms(4) by (auto simp: build_tcp_address_def split: if_split_asm)
  note digits = port_digits [OF n]
  let ?net = "format_host h @ 58 # int_text n"
  let ?p = "\<lparr>url_scheme = TCP_SCHEME, url_netloc = ?net, url_path = [], url_query = [], url_fragment = []\<rparr>"
  have t: "\<forall>c \<in> set (int_text n). is_digit c" using nat_digits_are_digits digits(1) by auto
  then have "\<forall>c \<in> set ?net. 32 < c \<and> c \<notin> {35, 47, 63}" "(91 \<in> set ?net) = (93 \<in> set ?net)"
    using assms(1) by (auto simp: plain_host_def format_host_def)
  then have split: "split_url u a = Inr ?p"
    unfolding a using assms(3) by (intro split_url_built) auto
  note parts = format_host_parts [OF assms(1) t HOL.refl, of TCP_SCHEME "[]" "[]" "[]"]
  have h: "h \<noteq> []" "37 \<notin> set h" using assms(1) by (auto simp: plain_host_def)
  have "url_hostname u ?p = h" using h assms(2) parts(3) by (simp add: url_hostname_def partition_at_absent)
  moreover have "url_port ?p = Inr (Some n)"
    using parts(3) digits n nat_digits_are_digits [of _ "nat n"] by (auto simp: url_port_def list_all_iff)
  ultimately show ?thesis
    using parts h by (simp add: parse_tcp_address_def split)
qed

definition plain_url_rt :: url_rt where
  "plain_url_rt = \<lparr>lower_text = ascii_lower, bracket_ok = (\<lambda>_. True), unicode_ok = (\<lambda>_. True),
     str_of = (\<lambda>v. case v of PStr s \<Rightarrow> s | _ \<Rightarrow> lit ''?'')\<rparr>"

lemma plain_url_rt_simps [simp]: "lower_text plain_url_rt = ascii_lower" "bracket_ok plain_url_rt s"
  "unicode_ok plain_url_rt s"
  by (simp_all add: plain_url_rt_def)

theorem address_roundtrip_witness:
  "build_tcp_address (lit ''::1'') 80 = Inr (lit ''tcp://[::1]:80'')
    \<and> parse_tcp_address plain_url_rt (lit ''tcp://[::1]:80'') = Inr \<lparr>tcp_host = lit ''::1'', tcp_port = 80\<rparr>"
proof -
  have "build_tcp_address (lit ''::1'') 80 = Inr (lit ''tcp://[::1]:80'')"
    by (simp add: build_tcp_address_def TCP_SCHEME_def format_host_def int_text_def nat_digits.simps)
  with address_roundtrip [OF _ _ _ this, of plain_url_rt] show ?thesis
    by (simp add: plain_host_def ascii_lower_def)
qed

end
