(* ===== verification/LanFraming.thy ===== *)
theory LanFraming
  imports LanAddress
begin

text \<open>
  The framed TCP connection: \<open>TcpConnection\<close> of \<open>src/paqto/lan/connection.py\<close>, with what it uses
  of \<open>asyncio.StreamReader\<close>: a buffer of received bytes, the end of the stream, \<open>readexactly\<close>
  and \<open>at_eof\<close>. The writer is the list of bytes written so far. Receiving is cut at its two
  reads; \<open>receive_pc\<close> is the read it waits in. The locks of the class admit one sender and one
  receiver at a time, which is why one \<open>receive_pc\<close> is enough.

  The lemmas: a legal frame always fits its four-byte header; a receiver fed any chunks returns
  exactly the frames that \<open>split_frames\<close>, the specification, finds in the whole byte stream; the
  frames one side sent are what the other receives.
\<close>

section \<open>Stream and connection\<close>

record stream =
  in_buffer :: bytes
  in_eof :: bool
  in_error :: "exn option"

record tcp =
  reader :: stream
  written :: bytes
  writer_closing :: bool
  frame_limit :: nat
  tcp_closed :: bool

definition HEADER_SIZE :: nat where "HEADER_SIZE = 4"

definition at_eof :: "stream \<Rightarrow> bool" where
  "at_eof r \<longleftrightarrow> in_eof r \<and> in_buffer r = []"

definition tcp_is_closed :: "tcp \<Rightarrow> bool" where
  "tcp_is_closed t \<longleftrightarrow> tcp_closed t \<or> writer_closing t \<or> at_eof (reader t)"

text \<open>\<open>int.to_bytes(4, "big")\<close> and \<open>int.from_bytes\<close>.\<close>

definition to_bytes4 :: "nat \<Rightarrow> exn + bytes" where
  "to_bytes4 n =
     (if n < 2 ^ 32
      then Inr [of_nat (n div 2 ^ 24), of_nat (n div 2 ^ 16 mod 256), of_nat (n div 2 ^ 8 mod 256),
                of_nat (n mod 256)]
      else Inl OverflowError)"

definition from_bytes :: "bytes \<Rightarrow> nat" where
  "from_bytes bs = foldl (\<lambda>a b. 256 * a + unat b) 0 bs"

definition new_tcp :: "stream \<Rightarrow> pyval \<Rightarrow> pyval \<Rightarrow> exn + tcp" where
  "new_tcp r size_limit payload_timeout =
     rbind (validate_max_frame_size size_limit) (\<lambda>k.
     rbind (validate_frame_payload_timeout payload_timeout) (\<lambda>_.
       Inr \<lparr>reader = r, written = [], writer_closing = False, frame_limit = k, tcp_closed = False\<rparr>))"

text \<open>\<open>close\<close>: what \<open>wait_closed\<close> raises is dropped.\<close>

definition tcp_close :: "tcp \<Rightarrow> tcp" where
  "tcp_close t = t\<lparr>tcp_closed := True, writer_closing := True\<rparr>"

section \<open>Sending\<close>

text \<open>\<open>drained\<close> is how writing and \<open>drain()\<close> ended.\<close>

definition send_frame :: "bytes \<Rightarrow> exn + unit \<Rightarrow> tcp \<Rightarrow> (exn + unit) \<times> tcp" where
  "send_frame data drained t =
     (if tcp_is_closed t then (Inl ConnectionClosedError, t)
      else if frame_limit t < length data then (Inl TransportError, t)
      else (case to_bytes4 (length data) of
          Inl e \<Rightarrow> (Inl e, t)
        | Inr header \<Rightarrow>
            let t' = t\<lparr>written := written t @ header @ data\<rparr> in
            (case drained of
               Inr _ \<Rightarrow> (Inr (), t')
             | Inl e \<Rightarrow> if exn_in e [BuiltinConnectionError, OSError]
                        then (Inl ConnectionClosedError, t'\<lparr>tcp_closed := True\<rparr>)
                        else (Inl e, t'))))"

section \<open>Receiving\<close>

text \<open>
  \<open>_read_exactly\<close>: \<open>None\<close> while the stream has to wait for more data. An incomplete read
  empties the buffer.
\<close>

definition read_exactly :: "nat \<Rightarrow> tcp \<Rightarrow> ((exn + bytes) \<times> tcp) option" where
  "read_exactly n t =
     (case in_error (reader t) of
        Some e \<Rightarrow>
          if exn_in e [BuiltinConnectionError, OSError]
          then Some (Inl ConnectionClosedError, t\<lparr>tcp_closed := True\<rparr>) else Some (Inl e, t)
      | None \<Rightarrow>
          if n \<le> length (in_buffer (reader t)) then
            Some (Inr (take n (in_buffer (reader t))),
                  t\<lparr>reader := (reader t)\<lparr>in_buffer := drop n (in_buffer (reader t))\<rparr>\<rparr>)
          else if in_eof (reader t) then
            Some (Inl ConnectionClosedError,
                  t\<lparr>reader := (reader t)\<lparr>in_buffer := []\<rparr>, tcp_closed := True\<rparr>)
          else None)"

datatype receive_pc = ReadHeader | ReadPayload nat

definition receive_begin :: "tcp \<Rightarrow> exn + receive_pc" where
  "receive_begin t = (if tcp_is_closed t then Inl ConnectionClosedError else Inr ReadHeader)"

definition receive_payload :: "nat \<Rightarrow> tcp \<Rightarrow> (receive_pc + (exn + bytes)) \<times> tcp" where
  "receive_payload n t =
     (case read_exactly n t of
        None \<Rightarrow> (Inl (ReadPayload n), t)
      | Some (res, t') \<Rightarrow> (Inr res, t'))"

fun receive_step :: "receive_pc \<Rightarrow> tcp \<Rightarrow> (receive_pc + (exn + bytes)) \<times> tcp" where
  "receive_step ReadHeader t =
     (case read_exactly HEADER_SIZE t of
        None \<Rightarrow> (Inl ReadHeader, t)
      | Some (Inl e, t') \<Rightarrow> (Inr (Inl e), t')
      | Some (Inr header, t') \<Rightarrow>
          if frame_limit t' < from_bytes header
          then (Inr (Inl TransportError), tcp_close t')
          else receive_payload (from_bytes header) t')"
| "receive_step (ReadPayload n) t = receive_payload n t"

text \<open>The deadline of the payload: \<open>asyncio.wait_for\<close> cancels the read and the connection is closed.\<close>

definition receive_timed_out :: "tcp \<Rightarrow> (exn + bytes) \<times> tcp" where
  "receive_timed_out t = (Inl TransportError, tcp_close t)"

definition data_received :: "bytes \<Rightarrow> tcp \<Rightarrow> tcp" where
  "data_received bs t = t\<lparr>reader := (reader t)\<lparr>in_buffer := in_buffer (reader t) @ bs\<rparr>\<rparr>"

definition eof_received :: "tcp \<Rightarrow> tcp" where
  "eof_received t = t\<lparr>reader := (reader t)\<lparr>in_eof := True\<rparr>\<rparr>"

text \<open>
  A caller that receives in a loop, as the session reader does: all frames that can be returned
  before a read has to wait, and where it waits. An exception ends the loop; it is the last
  component.
\<close>

lemma read_exactly_data:
  "read_exactly n t = Some (Inr bs, t') \<Longrightarrow>
     in_buffer (reader t) = bs @ in_buffer (reader t') \<and> length bs = n"
  by (auto simp: read_exactly_def split: option.splits if_splits)

lemma receive_payload_shrinks:
  "receive_payload n t = (Inr (Inr f), t') \<Longrightarrow> length (in_buffer (reader t')) + n = length (in_buffer (reader t))"
  by (auto simp: receive_payload_def split: option.splits dest!: read_exactly_data)

lemma receive_step_shrinks:
  "receive_step pc t = (Inr (Inr f), t') \<Longrightarrow>
     (case pc of ReadHeader \<Rightarrow> length (in_buffer (reader t')) < length (in_buffer (reader t))
      | ReadPayload n \<Rightarrow> length (in_buffer (reader t')) \<le> length (in_buffer (reader t)))"
  by (cases pc) (auto simp: HEADER_SIZE_def split: option.splits sum.splits if_splits
      dest!: read_exactly_data receive_payload_shrinks)

lemma receive_decreases:
  "(Inr (Inr f), t') = receive_step pc t \<Longrightarrow>
     2 * length (in_buffer (reader t')) < 2 * length (in_buffer (reader t)) + (case pc of ReadHeader \<Rightarrow> 0 | _ \<Rightarrow> 1)"
  using receive_step_shrinks [OF sym, of f t' pc t] by (cases pc) simp_all

function receive_all :: "receive_pc \<Rightarrow> tcp \<Rightarrow> bytes list \<times> tcp \<times> (receive_pc + exn)" where
  "receive_all pc t =
     (case receive_step pc t of
        (Inl pc', t') \<Rightarrow> ([], t', Inl pc')
      | (Inr (Inl e), t') \<Rightarrow> ([], t', Inr e)
      | (Inr (Inr f), t') \<Rightarrow>
          (case receive_begin t' of
             Inl e \<Rightarrow> ([f], t', Inr e)
           | Inr _ \<Rightarrow> (case receive_all ReadHeader t' of (fs, t'', p) \<Rightarrow> (f # fs, t'', p))))"
  by pat_completeness auto
termination
  by (relation "measure (\<lambda>(pc, t). 2 * length (in_buffer (reader t)) + (case pc of ReadHeader \<Rightarrow> 0 | _ \<Rightarrow> 1))")
    (simp, simp only: in_measure prod.case receive_pc.case add_0_right receive_decreases)

declare receive_all.simps [simp del]

text \<open>The chunks in which the bytes of the stream arrive.\<close>

fun receive_chunks :: "receive_pc \<Rightarrow> tcp \<Rightarrow> bytes list \<Rightarrow> bytes list \<times> tcp \<times> (receive_pc + exn)" where
  "receive_chunks pc t [] = ([], t, Inl pc)"
| "receive_chunks pc t (c # cs) =
     (case receive_all pc (data_received c t) of
        (fs, t', Inr e) \<Rightarrow> (fs, t', Inr e)
      | (fs, t', Inl pc') \<Rightarrow>
          (case receive_chunks pc' t' cs of (gs, t'', p) \<Rightarrow> (fs @ gs, t'', p)))"

section \<open>The frames of a byte stream\<close>

text \<open>
  The specification: the complete frames at the front of a byte string, what is left of it, and
  whether the rest is still legal, that is no length in it exceeds the limit.
\<close>

function split_frames :: "nat \<Rightarrow> bytes \<Rightarrow> bytes list \<times> bytes \<times> bool" where
  "split_frames k bs =
     (if length bs < HEADER_SIZE then ([], bs, True)
      else
        (let n = from_bytes (take HEADER_SIZE bs); r = drop HEADER_SIZE bs in
         if k < n then ([], bs, False)
         else if length r < n then ([], bs, True)
         else (case split_frames k (drop n r) of (fs, r', ok) \<Rightarrow> (take n r # fs, r', ok))))"
  by pat_completeness auto
termination
  by (relation "measure (\<lambda>(k, bs). length bs)") (auto simp: HEADER_SIZE_def)

declare split_frames.simps [simp del]

lemma split_frames_full:
  assumes "length h = HEADER_SIZE" "from_bytes h = n" "n \<le> k" "n \<le> length b"
  shows "split_frames k (h @ b) = (case split_frames k (drop n b) of (fs, r, ok) \<Rightarrow> (take n b # fs, r, ok))"
  using assms by (subst split_frames.simps) (simp add: Let_def not_less)

lemma split_frames_append:
  "split_frames k a = (fs, r, ok) \<Longrightarrow>
     split_frames k (a @ b) = (if ok then (case split_frames k (r @ b) of (gs, r', ok') \<Rightarrow> (fs @ gs, r', ok'))
                               else (fs, r @ b, False))"
proof (induction k a arbitrary: fs r ok rule: split_frames.induct)
  case (1 k bs)
  let ?n = "from_bytes (take HEADER_SIZE bs)" and ?r = "drop HEADER_SIZE bs"
  consider "length bs < HEADER_SIZE" | "HEADER_SIZE \<le> length bs" "k < ?n"
    | "HEADER_SIZE \<le> length bs" "?n \<le> k" "length ?r < ?n"
    | "HEADER_SIZE \<le> length bs" "?n \<le> k" "?n \<le> length ?r" by linarith
  then show ?case
  proof cases
    case 2
    then have "split_frames k bs = ([], bs, False)" "split_frames k (bs @ b) = ([], bs @ b, False)"
      by (simp_all add: split_frames.simps [of k bs] split_frames.simps [of k "bs @ b"])
    with "1.prems" show ?thesis by auto
  next
    case 4
    then have h: "length (take HEADER_SIZE bs) = HEADER_SIZE" "?n \<le> length (?r @ b)"
      and parts: "take HEADER_SIZE bs @ ?r = bs" "take HEADER_SIZE bs @ ?r @ b = bs @ b" by (simp_all add: trans_le_add1)
    note full = split_frames_full [OF h(1) HOL.refl 4(2)]
    obtain gs where gs: "split_frames k (drop ?n ?r) = (gs, r, ok)" "fs = take ?n ?r # gs"
      using "1.prems" full [OF 4(3)] unfolding parts by (auto split: prod.splits)
    have "split_frames k (bs @ b) = (case split_frames k (drop ?n ?r @ b) of (fs, r', ok) \<Rightarrow> (take ?n ?r # fs, r', ok))"
      using full [OF h(2)] 4(3) unfolding parts by simp
    with 4 gs "1.IH" [OF _ HOL.refl HOL.refl _ _ gs(1)] show ?thesis by (auto split: prod.splits)
  qed (use "1.prems" in \<open>auto simp: split_frames.simps [of k bs] split_frames.simps [of k "bs @ b"] Let_def
      split: prod.splits\<close>)
qed

section \<open>The receiver finds them\<close>

definition live :: "tcp \<Rightarrow> bool" where
  "live t \<longleftrightarrow> in_error (reader t) = None \<and> \<not> in_eof (reader t) \<and> \<not> tcp_closed t \<and> \<not> writer_closing t"

definition set_buffer :: "bytes \<Rightarrow> tcp \<Rightarrow> tcp" where
  "set_buffer bs t = t\<lparr>reader := (reader t)\<lparr>in_buffer := bs\<rparr>\<rparr>"

lemma live_set_buffer [simp]: "live (set_buffer bs t) = live t" "frame_limit (set_buffer bs t) = frame_limit t"
  "in_buffer (reader (set_buffer bs t)) = bs" "set_buffer a (set_buffer bs t) = set_buffer a t"
  "data_received c t = set_buffer (in_buffer (reader t) @ c) t"
  by (simp_all add: live_def set_buffer_def data_received_def)

lemma read_exactly_live:
  "live t \<Longrightarrow> read_exactly n t =
     (if n \<le> length (in_buffer (reader t))
      then Some (Inr (take n (in_buffer (reader t))), set_buffer (drop n (in_buffer (reader t))) t) else None)"
  by (simp add: read_exactly_def live_def set_buffer_def)

lemma receive_begin_live: "live t \<Longrightarrow> receive_begin t = Inr ReadHeader"
  by (simp add: receive_begin_def tcp_is_closed_def live_def at_eof_def)

text \<open>The bytes of the current frame that have arrived, the header included.\<close>

fun arrived :: "receive_pc \<Rightarrow> tcp \<Rightarrow> bytes \<Rightarrow> bool" where
  "arrived ReadHeader t r = (r = in_buffer (reader t))"
| "arrived (ReadPayload n) t r =
     (n \<le> frame_limit t \<and> (\<exists>h. length h = HEADER_SIZE \<and> from_bytes h = n \<and> r = h @ in_buffer (reader t)))"

lemma receive_all_frame:
  assumes "receive_step pc t = (Inr (Inr f), t1)" "live t1"
  shows "receive_all pc t = (case receive_all ReadHeader t1 of (fs, t', p) \<Rightarrow> (f # fs, t', p))"
  by (subst receive_all.simps) (simp add: assms receive_begin_live)

lemma receive_payload_live:
  assumes "live t"
  shows "receive_payload n t =
    (if n \<le> length (in_buffer (reader t))
     then (Inr (Inr (take n (in_buffer (reader t)))), set_buffer (drop n (in_buffer (reader t))) t)
     else (Inl (ReadPayload n), t))"
  by (simp add: receive_payload_def read_exactly_live [OF assms])

lemma split_frames_short:
  assumes "length h = HEADER_SIZE" "from_bytes h = n" "n \<le> k" "length b < n"
  shows "split_frames k (h @ b) = ([], h @ b, True)"
  using assms by (subst split_frames.simps) (simp add: Let_def not_less)

definition as_split :: "tcp \<Rightarrow> receive_pc \<Rightarrow> bytes list \<times> bytes \<times> bool \<Rightarrow> bool" where
  "as_split t pc res \<longleftrightarrow> (case res of (fs, r', ok) \<Rightarrow>
     (\<exists>t' p. receive_all pc t = (fs, t', p) \<and> (if ok then \<exists>pc'. p = Inl pc' \<and> live t' \<and> arrived pc' t' r'
        \<and> frame_limit t' = frame_limit t else p = Inr TransportError \<and> tcp_closed t')))"

lemma as_split_frame:
  assumes "receive_step pc t = (Inr (Inr f), t1)" "live t1" "frame_limit t1 = frame_limit t"
    and "as_split t1 ReadHeader (fs, r, ok)"
  shows "as_split t pc (f # fs, r, ok)"
  using assms(3,4) by (cases ok) (auto simp: as_split_def receive_all_frame [OF assms(1,2)])

lemma receive_all_spec:
  assumes "live t" "arrived pc t r"
  shows "as_split t pc (split_frames (frame_limit t) r)"
  using assms
proof (induction "length r" arbitrary: pc t r rule: less_induct)
  case less
  let ?k = "frame_limit t" and ?b = "in_buffer (reader t)"
  have frame: "as_split t pc (split_frames ?k r)"
    if r: "r = h @ b" "length h = HEADER_SIZE" "from_bytes h = n" "n \<le> ?k" "n \<le> length b"
      and step: "receive_step pc t = (Inr (Inr (take n b)), set_buffer (drop n b) t)" for h b n
  proof -
    obtain fs r' ok where sp: "split_frames ?k (drop n b) = (fs, r', ok)" by (cases "split_frames ?k (drop n b)")
    have "length (drop n b) < length r" using r by (simp add: HEADER_SIZE_def)
    from less.hyps [OF this, of "set_buffer (drop n b) t" ReadHeader] sp less.prems(1)
    have "as_split (set_buffer (drop n b) t) ReadHeader (fs, r', ok)" by simp
    from as_split_frame [OF step _ _ this] less.prems(1) show ?thesis
      by (simp add: r(1) split_frames_full [OF r(2-5)] sp)
  qed
  have wait: "as_split t pc ([], r', True)"
    if "receive_step pc t = (Inl pc', t')" "live t'" "arrived pc' t' r'" "frame_limit t' = ?k" for pc' t' r'
    unfolding as_split_def using that by (simp add: receive_all.simps [of pc t])
  show ?case
  proof (cases pc)
    case (ReadPayload n)
    with less.prems obtain h where h: "n \<le> ?k" "length h = HEADER_SIZE" "from_bytes h = n" "r = h @ ?b" by auto
    show ?thesis
    proof (cases "n \<le> length ?b")
      case True
      then show ?thesis
        using frame [OF h(4,2,3,1)] less.prems(1) by (simp add: ReadPayload receive_payload_live)
    next
      case False
      then show ?thesis
        using wait [of "ReadPayload n" t r] less.prems h
        by (simp add: ReadPayload receive_payload_live split_frames_short)
    qed
  next
    case ReadHeader
    then have r: "r = ?b" using less.prems(2) by simp
    let ?h = "take HEADER_SIZE ?b" and ?c = "drop HEADER_SIZE ?b"
    let ?n = "from_bytes ?h"
    show ?thesis
    proof (cases "length ?b < HEADER_SIZE")
      case True
      then show ?thesis
        using wait [of ReadHeader t r] less.prems
        by (simp add: ReadHeader read_exactly_live r split_frames.simps [of _ "?b"])
    next
      case False
      then have h: "r = ?h @ ?c" "length ?h = HEADER_SIZE" by (simp_all add: r)
      have step: "receive_step ReadHeader t = (if ?k < ?n then (Inr (Inl TransportError), tcp_close (set_buffer ?c t))
          else receive_payload ?n (set_buffer ?c t))"
        using False less.prems(1) by (simp add: read_exactly_live)
      consider "?k < ?n" | "?n \<le> ?k" "?n \<le> length ?c" | "?n \<le> ?k" "length ?c < ?n" by linarith
      then show ?thesis
      proof cases
        case 1
        then have "split_frames ?k r = ([], r, False)"
          using False by (simp add: r split_frames.simps [of _ "?b"] Let_def)
        with 1 show ?thesis
          unfolding as_split_def by (simp add: ReadHeader receive_all.simps [of ReadHeader t] step tcp_close_def del: receive_step.simps)
      next
        case 2
        then show ?thesis
          using frame [OF h HOL.refl 2] step less.prems(1)
          by (simp add: ReadHeader receive_payload_live del: receive_step.simps)
      next
        case 3
        then have "receive_step pc t = (Inl (ReadPayload ?n), set_buffer ?c t)"
          using step less.prems(1) by (simp add: ReadHeader receive_payload_live del: receive_step.simps)
        moreover have "arrived (ReadPayload ?n) (set_buffer ?c t) r"
          using 3 h by (auto intro!: exI [of _ ?h])
        moreover have "split_frames ?k r = ([], r, True)"
          using split_frames_short [OF h(2) HOL.refl 3] by (simp only: h(1) [symmetric])
        ultimately show ?thesis using wait [of "ReadPayload ?n" "set_buffer ?c t" r] less.prems(1) by simp
      qed
    qed
  qed
qed

lemma arrived_more: "arrived pc t r \<Longrightarrow> arrived pc (data_received c t) (r @ c)"
  by (cases pc) auto

lemma receive_chunks_spec:
  assumes "live t" "arrived pc t r" "split_frames (frame_limit t) (r @ concat cs) = (fs, r', ok)"
    and "split_frames (frame_limit t) r = ([], r, True)"
  shows "\<exists>t' p. receive_chunks pc t cs = (fs, t', p) \<and> (if ok then \<exists>pc'. p = Inl pc' \<and> live t' \<and> arrived pc' t' r'
    else p = Inr TransportError \<and> tcp_closed t')"
  using assms
proof (induction cs arbitrary: pc t r fs)
  case (Cons c cs)
  let ?k = "frame_limit t" and ?t = "data_received c t"
  obtain gs q good where now: "split_frames ?k (r @ c) = (gs, q, good)" by (cases "split_frames ?k (r @ c)")
  have "as_split ?t pc (gs, q, good)"
    using receive_all_spec [of ?t pc "r @ c"] arrived_more [OF Cons.prems(2)] Cons.prems(1) now by simp
  then obtain t1 p1 where t1: "receive_all pc ?t = (gs, t1, p1)"
      "if good then \<exists>pc'. p1 = Inl pc' \<and> live t1 \<and> arrived pc' t1 q \<and> frame_limit t1 = ?k
       else p1 = Inr TransportError \<and> tcp_closed t1"
    unfolding as_split_def by (cases good) auto
  show ?case
  proof (cases good)
    case False
    with split_frames_append [OF now, of "concat cs"] Cons.prems(3) have "fs = gs" "\<not> ok" by auto
    with t1 False show ?thesis by simp
  next
    case True
    with t1(2) obtain pc' where pc': "p1 = Inl pc'" "live t1" "arrived pc' t1 q" "frame_limit t1 = ?k" by auto
    obtain hs r2 ok2 where rest: "split_frames ?k (q @ concat cs) = (hs, r2, ok2)"
      by (cases "split_frames ?k (q @ concat cs)")
    with split_frames_append [OF now, of "concat cs"] True Cons.prems(3)
    have all: "fs = gs @ hs" "r2 = r'" "ok2 = ok" by auto
    have "split_frames ?k q = ([], q, True)"
      using split_frames_append [OF now, of "[]"] True now by (auto split: prod.splits)
    from Cons.IH [OF pc'(2,3), unfolded pc'(4), OF rest [unfolded all(2,3)] this] all t1(1) pc'(1)
    show ?thesis by auto
  qed
qed (auto simp del: arrived.simps)

section \<open>What is sent\<close>

fun send_frames :: "bytes list \<Rightarrow> tcp \<Rightarrow> (exn + unit) \<times> tcp" where
  "send_frames [] t = (Inr (), t)"
| "send_frames (d # ds) t =
     (case send_frame d (Inr ()) t of (Inl e, t') \<Rightarrow> (Inl e, t') | (Inr _, t') \<Rightarrow> send_frames ds t')"

definition header :: "nat \<Rightarrow> bytes" where
  "header n = [of_nat (n div 2 ^ 24), of_nat (n div 2 ^ 16 mod 256), of_nat (n div 2 ^ 8 mod 256), of_nat (n mod 256)]"

lemma from_bytes_header:
  assumes "n < 2 ^ 32"
  shows "from_bytes (header n) = n"
proof -
  have "n div 2 ^ 24 < 256" using assms by (simp add: less_mult_imp_div_less)
  then have "from_bytes (header n)
      = 256 * (256 * (256 * (n div 2 ^ 24) + n div 2 ^ 16 mod 256) + n div 2 ^ 8 mod 256) + n mod 256"
    by (simp add: from_bytes_def header_def)
  also have "\<dots> = n"
  proof -
    have "n div 2 ^ 24 = n div 2 ^ 16 div 256" "n div 2 ^ 16 = n div 2 ^ 8 div 256" "n div 2 ^ 8 = n div 256"
      by (simp_all add: div_mult2_eq [symmetric])
    then show ?thesis by (simp only: mult_div_mod_eq)
  qed
  finally show ?thesis .
qed

lemma send_frame_live:
  assumes "live t" "length d \<le> frame_limit t" "frame_limit t < 2 ^ 32"
  shows "send_frame d (Inr ()) t = (Inr (), t\<lparr>written := written t @ header (length d) @ d\<rparr>)"
proof -
  have "\<not> tcp_is_closed t" using assms(1) by (simp add: live_def tcp_is_closed_def at_eof_def)
  with assms(2,3) show ?thesis by (simp add: send_frame_def to_bytes4_def header_def not_less)
qed

lemma send_frames_written:
  assumes "live t" "\<forall>d \<in> set ds. length d \<le> frame_limit t" "frame_limit t < 2 ^ 32"
  shows "send_frames ds t = (Inr (), t\<lparr>written := written t @ concat (List.map (\<lambda>d. header (length d) @ d) ds)\<rparr>)"
  using assms
proof (induction ds arbitrary: t)
  case (Cons d ds)
  let ?t = "t\<lparr>written := written t @ header (length d) @ d\<rparr>"
  have "send_frames ds ?t = (Inr (), ?t\<lparr>written := written ?t @ concat (List.map (\<lambda>d. header (length d) @ d) ds)\<rparr>)"
    using Cons.prems by (intro Cons.IH) (simp_all add: live_def)
  with Cons.prems show ?case by (simp add: send_frame_live)
qed simp

lemma split_frames_sent:
  assumes "\<forall>d \<in> set ds. length d \<le> k \<and> length d < 2 ^ 32"
  shows "split_frames k (concat (List.map (\<lambda>d. header (length d) @ d) ds)) = (ds, [], True)"
  using assms
proof (induction ds)
  case (Cons d ds)
  have "length (header (length d)) = HEADER_SIZE" by (simp add: header_def HEADER_SIZE_def)
  from split_frames_full [OF this from_bytes_header, of k "d @ concat (List.map (\<lambda>d. header (length d) @ d) ds)"]
    Cons show ?case by simp
qed (simp add: split_frames.simps HEADER_SIZE_def)

lemma split_frames_legal:
  "split_frames k bs = (fs, r, ok) \<Longrightarrow> f \<in> set fs \<Longrightarrow> length f \<le> k"
proof (induction "length bs" arbitrary: bs fs r rule: less_induct)
  case less
  let ?n = "from_bytes (take HEADER_SIZE bs)"
  have IH: "length f \<le> k" if "HEADER_SIZE \<le> length bs" "split_frames k (drop (?n + HEADER_SIZE) bs) = (gs, r, ok)" "f \<in> set gs" for gs
    using less.hyps [OF _ that(2,3)] that(1) by (simp add: HEADER_SIZE_def)
  from less.prems show ?case
    by (subst (asm) split_frames.simps) (auto simp: Let_def not_less split: if_splits prod.splits dest: IH)
qed

lemma frames_cross:
  assumes "live a" "live b" "in_buffer (reader b) = []" "frame_limit a \<le> frame_limit b" "frame_limit a < 2 ^ 32"
    and "\<forall>d \<in> set ds. length d \<le> frame_limit a"
    and "written (snd (send_frames ds a)) = written a @ concat chunks"
  shows "\<exists>b'. receive_chunks ReadHeader b chunks = (ds, b', Inl ReadHeader) \<and> in_buffer (reader b') = []"
proof -
  have bytes: "concat chunks = concat (List.map (\<lambda>d. header (length d) @ d) ds)"
    using assms(7) by (simp add: send_frames_written [OF assms(1,6,5)])
  have "split_frames (frame_limit b) ([] @ concat chunks) = (ds, [], True)"
    unfolding bytes append_Nil using assms(4-6) by (intro split_frames_sent) fastforce
  from receive_chunks_spec [OF assms(2) _ this, of ReadHeader] assms(3) obtain b' pc where
    "receive_chunks ReadHeader b chunks = (ds, b', Inl pc)" "arrived pc b' []"
    by (auto simp: split_frames.simps HEADER_SIZE_def)
  then show ?thesis by (cases pc) (auto simp: HEADER_SIZE_def)
qed

section \<open>Properties\<close>

text \<open>C30 TCP's byte stream refines the queue of frames a connection promises: whatever frames within
  the limit one side sends, in whatever chunks their bytes arrive, the other side receives
  exactly these frames in this order, and is left waiting for the next header with nothing in
  its buffer.\<close>

theorem tcp_frames_cross:
  assumes "live a" "live b" "in_buffer (reader b) = []" "frame_limit a \<le> frame_limit b" "frame_limit a < 2 ^ 32"
    and "\<forall>d \<in> set ds. length d \<le> frame_limit a"
    and "written (snd (send_frames ds a)) = written a @ concat chunks"
  shows "\<exists>b'. receive_chunks ReadHeader b chunks = (ds, b', Inl ReadHeader) \<and> in_buffer (reader b') = []"
  using assms by (rule frames_cross)

definition example_tcp :: tcp where
  "example_tcp = \<lparr>reader = \<lparr>in_buffer = [], in_eof = False, in_error = None\<rparr>, written = [],
     writer_closing = False, frame_limit = 2, tcp_closed = False\<rparr>"

lemma example_tcp_live: "live example_tcp" "in_buffer (reader example_tcp) = []" "frame_limit example_tcp = 2"
  by (simp_all add: example_tcp_def live_def)

theorem tcp_frames_cross_witness:
  "written (snd (send_frames [[7], [], [8, 9]] example_tcp)) = concat [[0, 0], [0, 1, 7, 0, 0, 0], [0, 0, 0, 0, 2, 8, 9]]
    \<and> (\<exists>b'. receive_chunks ReadHeader example_tcp [[0, 0], [0, 1, 7, 0, 0, 0], [0, 0, 0, 0, 2, 8, 9]]
           = ([[7], [], [8, 9]], b', Inl ReadHeader))"
proof -
  have sent: "written (snd (send_frames [[7], [], [8, 9]] example_tcp))
      = written example_tcp @ concat [[0, 0], [0, 1, 7, 0, 0, 0], [0, 0, 0, 0, 2, 8, 9]]"
    by (subst send_frames_written) (simp_all add: example_tcp_def live_def header_def)
  from tcp_frames_cross [OF example_tcp_live(1) example_tcp_live(1) _ _ _ _ this] sent show ?thesis
    by (auto simp: example_tcp_def)
qed

text \<open>C31 How the stream is cut does not matter, and no length is trusted: a receiver returns the frames
  that stand in the bytes received, each within the limit, whatever the chunks; at the first
  header that announces more than the limit it closes the connection and raises
  \<open>TransportError\<close>, having read no payload.\<close>

theorem tcp_receives_legal_frames:
  assumes "live t" "in_buffer (reader t) = []"
    and "split_frames (frame_limit t) (concat chunks) = (fs, rest, ok)"
  shows "(\<exists>t' p. receive_chunks ReadHeader t chunks = (fs, t', p)
      \<and> (if ok then \<exists>pc. p = Inl pc else p = Inr TransportError \<and> tcp_closed t'))
    \<and> (\<forall>f \<in> set fs. length f \<le> frame_limit t)"
proof -
  have "split_frames (frame_limit t) ([] @ concat chunks) = (fs, rest, ok)" using assms(3) by simp
  from receive_chunks_spec [OF assms(1) _ this, of ReadHeader] assms(2) split_frames_legal [OF assms(3)]
  show ?thesis by (cases ok) (auto simp: split_frames.simps [of _ "[]"] HEADER_SIZE_def)
qed

theorem tcp_receives_legal_frames_witness:
  "\<exists>t' p. receive_chunks ReadHeader example_tcp [[0, 0, 0], [1, 7, 0, 0, 1, 0], [5]] = ([[7]], t', p)
     \<and> p = Inr TransportError \<and> tcp_closed t'"
proof -
  have "split_frames (frame_limit example_tcp) (concat [[0, 0, 0], [1, 7, 0, 0, 1, 0], [5]])
      = ([[7]], [0, 0, 1, 0, 5], False)"
    by (simp add: example_tcp_live(3) split_frames.simps HEADER_SIZE_def from_bytes_def eval_nat_numeral)
  from tcp_receives_legal_frames [OF example_tcp_live(1,2) this] show ?thesis by auto
qed

end
