(* ===== verification/LanListener.thy ===== *)
theory LanListener
  imports LanAddress Machines
begin

text \<open>
  The TCP listener: \<open>TcpListener\<close> of \<open>src/paqto/lan/listener.py\<close>. A connection is a number; the
  futures of the callers blocked in \<open>accept\<close> are numbered too. \<open>gone\<close> is the set of connections
  that are closed, which their owners or peers may extend at any time. Four fields record what
  happened to connections: \<open>ls_admitted\<close> those that were wrapped and taken in, \<open>ls_received\<close>
  those that \<open>accept\<close> returned, \<open>ls_lost\<close> those that were the result of the future of a caller who
  was cancelled before it went on, and \<open>ls_close_calls\<close> those the listener called \<open>close()\<close> on.
  \<open>ls_ended\<close> has the callers whose \<open>accept\<close> is over, \<open>ls_cancelled\<close> those that were cancelled
  when their future was done already.

  \<open>listener_step\<close> lets connections arrive, callers begin, end and cancel \<open>accept\<close>, connections
  close and the listener close, in any order. The lemmas: pending connections stay within their
  limit, no caller waits while one is pending, a connection goes to one caller only, it is lost
  only with a caller cancelled after it had been assigned to it, and closing the listener closes every connection it took in.
\<close>

type_synonym tcp_conn = nat

datatype accept_future = Waits | Accepted tcp_conn | Refused exn | Abandoned

record listener =
  ls_max_pending :: int
  ls_server :: bool
  ls_accepted :: "tcp_conn list"
  ls_waiters :: "nat list"
  ls_connections :: "tcp_conn list"
  ls_closed :: bool
  ls_endpoint :: "endpoint option"
  ls_futures :: "accept_future list"
  ls_admitted :: "tcp_conn list"
  ls_received :: "tcp_conn list"
  ls_lost :: "tcp_conn list"
  ls_ended :: "nat list"
  ls_cancelled :: "nat list"
  ls_close_calls :: "tcp_conn list"

section \<open>Operations\<close>

definition new_listener :: "pyval \<Rightarrow> pyval \<Rightarrow> pyval \<Rightarrow> exn + listener" where
  "new_listener frame_size payload_timeout pending =
     rbind (validate_max_frame_size frame_size) (\<lambda>_.
     rbind (validate_frame_payload_timeout payload_timeout) (\<lambda>_.
     rbind (opt_res TypeError (strict_int pending)) (\<lambda>k.
     rbind (guard (0 < k) ValueError) (\<lambda>_.
       Inr \<lparr>ls_max_pending = k, ls_server = False, ls_accepted = [], ls_waiters = [],
            ls_connections = [], ls_closed = False, ls_endpoint = None, ls_futures = [],
            ls_admitted = [], ls_received = [], ls_lost = [], ls_ended = [], ls_cancelled = [],
            ls_close_calls = []\<rparr>))))"

text \<open>
  \<open>_start\<close>: \<open>server\<close> is the outcome of \<open>asyncio.start_server\<close>, \<open>sockname\<close> that of reading the
  bound address, \<open>advertised\<close> the host and source \<open>choose_advertised_host\<close> picks.
\<close>

definition build_local_endpoint ::
    "exn + pystr \<times> pystr \<Rightarrow> (pyval \<times> pyval) list \<Rightarrow> pystr \<Rightarrow> int \<Rightarrow> exn + endpoint" where
  "build_local_endpoint advertised meta bind_host n =
     rbind advertised (\<lambda>(h, source).
       endpoint_from_host_port h n
         (dput (PStr (lit ''advertised_host_source'')) (PStr source)
           (dput (PStr (lit ''bind_host'')) (PStr bind_host) meta)))"

definition start_listener ::
    "url_rt \<Rightarrow> exn + unit \<Rightarrow> exn + pyval \<Rightarrow> exn + pystr \<times> pystr \<Rightarrow> (pyval \<times> pyval) list \<Rightarrow> pystr \<Rightarrow>
     listener \<Rightarrow> (exn + unit) \<times> listener" where
  "start_listener u server sockname advertised meta bind_host l =
     (if ls_server l then (Inr (), l)
      else if ls_closed l then (Inl TransportError, l)
      else (case server of
          Inl e \<Rightarrow> (Inl (if exn_isa e OSError then TransportError else e), l)
        | Inr _ \<Rightarrow>
            let l' = l\<lparr>ls_server := True\<rparr> in
            (case rbind sockname (\<lambda>v. rbind (parse_sockname u v) (\<lambda>(_, n).
                    build_local_endpoint advertised meta bind_host n)) of
               Inl e \<Rightarrow> (Inl e, l')
             | Inr ep \<Rightarrow> (Inr (), l'\<lparr>ls_endpoint := Some ep\<rparr>))))"

text \<open>
  \<open>accept\<close> up to its await. What happens to a caller that waits: its task is cancelled, which
  cancels the future if it is not done, and otherwise makes the await raise \<open>CancelledError\<close>
  whatever the future holds; and the end of the await with the \<open>finally\<close> clause, where the caller
  returns with the connection of its future, unless it was cancelled or its future has none.
\<close>

definition accept_begin :: "listener \<Rightarrow> (exn + (tcp_conn + nat)) \<times> listener" where
  "accept_begin l =
     (if ls_closed l then (Inl ConnectionClosedError, l)
      else if \<not> ls_server l then (Inl TransportError, l)
      else (case ls_accepted l of
          c # cs \<Rightarrow> (Inr (Inl c), l\<lparr>ls_accepted := cs, ls_received := ls_received l @ [c]\<rparr>)
        | [] \<Rightarrow>
            let f = length (ls_futures l) in
            (Inr (Inr f), l\<lparr>ls_futures := ls_futures l @ [Waits], ls_waiters := ls_waiters l @ [f]\<rparr>)))"

definition cancel_accept :: "nat \<Rightarrow> listener \<Rightarrow> listener" where
  "cancel_accept f l =
     (if f \<notin> {..<length (ls_futures l)} - set (ls_ended l) then l
      else if ls_futures l ! f = Waits then l\<lparr>ls_futures := (ls_futures l)[f := Abandoned]\<rparr>
      else l\<lparr>ls_cancelled := f # ls_cancelled l\<rparr>)"

definition accept_end :: "nat \<Rightarrow> listener \<Rightarrow> listener" where
  "accept_end f l =
     (if f \<notin> {..<length (ls_futures l)} - set (ls_ended l) then l
      else
        let l' = l\<lparr>ls_waiters := remove1 f (ls_waiters l), ls_ended := f # ls_ended l\<rparr> in
        case ls_futures l ! f of
          Waits \<Rightarrow> l'\<lparr>ls_futures := (ls_futures l)[f := Abandoned]\<rparr>
        | Accepted c \<Rightarrow>
            if f \<in> set (ls_cancelled l) then l'\<lparr>ls_lost := ls_lost l @ [c]\<rparr>
            else l'\<lparr>ls_received := ls_received l @ [c]\<rparr>
        | _ \<Rightarrow> l')"

text \<open>Taking in a wrapped connection: the first caller that still waits, or the pending queue.\<close>

definition keep_open :: "tcp_conn set \<Rightarrow> tcp_conn \<Rightarrow> listener \<Rightarrow> listener" where
  "keep_open gone c l = l\<lparr>ls_connections := filter (\<lambda>x. x \<notin> gone) (ls_connections l) @ [c],
     ls_admitted := ls_admitted l @ [c]\<rparr>"

definition ask_close :: "tcp_conn list \<Rightarrow> listener \<Rightarrow> listener" where
  "ask_close cs l = l\<lparr>ls_close_calls := ls_close_calls l @ cs\<rparr>"

definition admit_connection :: "tcp_conn set \<Rightarrow> tcp_conn \<Rightarrow> listener \<Rightarrow> listener" where
  "admit_connection gone c l =
     (case dropWhile (\<lambda>f. ls_futures l ! f \<noteq> Waits) (ls_waiters l) of
        f # fs \<Rightarrow>
          (keep_open gone c l)\<lparr>ls_waiters := fs, ls_futures := (ls_futures l)[f := Accepted c]\<rparr>
      | [] \<Rightarrow>
          let l' = l\<lparr>ls_waiters := []\<rparr> in
          if ls_max_pending l \<le> int (length (ls_accepted l)) then ask_close [c] l'
          else (keep_open gone c l')\<lparr>ls_accepted := ls_accepted l @ [c]\<rparr>)"

text \<open>
  \<open>_handle_client\<close>: \<open>remote\<close> is the outcome of reading the remote address, \<open>wrapped\<close> that of
  deriving the security information and building the connection. The writer of a client that is
  not taken in is closed; the result tells whether, and what is raised.
\<close>

definition handle_client ::
    "tcp_conn set \<Rightarrow> tcp_conn \<Rightarrow> exn + unit \<Rightarrow> exn + unit \<Rightarrow> listener \<Rightarrow> (exn + bool) \<times> listener" where
  "handle_client gone c remote wrapped l =
     (if ls_closed l then (Inr True, l)
      else (case remote of
          Inl e \<Rightarrow> (if exn_isa e TransportError then (Inr True, l) else (Inl e, l))
        | Inr _ \<Rightarrow>
            (case wrapped of
               Inl e \<Rightarrow> (if exn_isa e TransportError then (Inr True, l) else (Inl e, l))
             | Inr _ \<Rightarrow> (Inr False, admit_connection gone c l))))"

text \<open>\<open>_close\<close> up to its first await.\<close>

definition refuse_waiter :: "nat \<Rightarrow> accept_future list \<Rightarrow> accept_future list" where
  "refuse_waiter f fs = (if fs ! f = Waits then fs[f := Refused ConnectionClosedError] else fs)"

definition close_listener :: "listener \<Rightarrow> listener" where
  "close_listener l =
     (if ls_closed l then l
      else l\<lparr>ls_closed := True, ls_server := False,
             ls_futures := fold refuse_waiter (ls_waiters l) (ls_futures l), ls_waiters := [],
             ls_accepted := [], ls_connections := [],
             ls_close_calls := ls_close_calls l @ ls_connections l\<rparr>)"

section \<open>The listener as a machine\<close>

inductive listener_step :: "listener \<times> tcp_conn set \<Rightarrow> listener \<times> tcp_conn set \<Rightarrow> bool" where
  starts: "listener_step (l, g) (snd (start_listener u server sockname adv meta bind l), g)"
| arrives: "c \<notin> set (ls_admitted l) \<Longrightarrow> listener_step (l, g) (snd (handle_client g c remote wrapped l), g)"
| accept_begins: "listener_step (l, g) (snd (accept_begin l), g)"
| accept_cancelled: "listener_step (l, g) (cancel_accept f l, g)"
| accept_ends: "listener_step (l, g) (accept_end f l, g)"
| connection_closes: "listener_step (l, g) (l, insert c g)"
| closes: "listener_step (l, g) (close_listener l, g)"

inductive_cases listener_stepE: "listener_step s s'"

definition queue_ok :: "listener \<Rightarrow> bool" where
  "queue_ok l \<longleftrightarrow> int (length (ls_accepted l)) \<le> ls_max_pending l \<and> distinct (ls_waiters l)
     \<and> (\<forall>f \<in> set (ls_waiters l). f < length (ls_futures l))
     \<and> (\<forall>f < length (ls_futures l). ls_futures l ! f = Waits \<longrightarrow> f \<in> set (ls_waiters l))
     \<and> (ls_accepted l \<noteq> [] \<longrightarrow> (\<forall>f \<in> set (ls_waiters l). ls_futures l ! f \<noteq> Waits))
     \<and> (ls_closed l \<longrightarrow> ls_accepted l = [] \<and> ls_waiters l = [])"

text \<open>The connection on its way to a caller: the result of its future, before the caller goes on.\<close>

definition on_its_way :: "listener \<Rightarrow> nat \<Rightarrow> tcp_conn \<Rightarrow> bool" where
  "on_its_way l f c \<longleftrightarrow> f < length (ls_futures l) \<and> ls_futures l ! f = Accepted c \<and> f \<notin> set (ls_ended l)"

text \<open>Every connection taken in has one place: it was received, lost, is pending or on its way.\<close>

definition placed_conns :: "listener \<Rightarrow> tcp_conn list" where
  "placed_conns l = ls_received l @ ls_lost l @ ls_accepted l"

definition places_ok :: "listener \<Rightarrow> bool" where
  "places_ok l \<longleftrightarrow> distinct (placed_conns l) \<and> set (placed_conns l) \<subseteq> set (ls_admitted l)
     \<and> (\<forall>f c. on_its_way l f c \<longrightarrow> c \<in> set (ls_admitted l) \<and> c \<notin> set (placed_conns l))
     \<and> (\<forall>f c. on_its_way l f c \<longrightarrow> (\<forall>h. on_its_way l h c \<longrightarrow> h = f))
     \<and> (\<not> ls_closed l \<longrightarrow> (\<forall>c \<in> set (ls_admitted l). c \<in> set (placed_conns l) \<or> (\<exists>f. on_its_way l f c)))"

definition held_ok :: "tcp_conn set \<Rightarrow> listener \<Rightarrow> bool" where
  "held_ok g l \<longleftrightarrow> set (ls_admitted l) \<subseteq> set (ls_connections l) \<union> g \<union> set (ls_close_calls l)
     \<and> (ls_closed l \<longrightarrow> ls_connections l = [])"

definition callers_ok :: "listener \<Rightarrow> bool" where
  "callers_ok l \<longleftrightarrow>
     (\<forall>f \<in> set (ls_cancelled l) \<union> set (ls_ended l). f < length (ls_futures l) \<and> ls_futures l ! f \<noteq> Waits)
     \<and> (\<forall>c \<in> set (ls_lost l). \<exists>f \<in> set (ls_cancelled l) \<inter> set (ls_ended l). ls_futures l ! f = Accepted c)
     \<and> (\<forall>f \<in> set (ls_ended l). \<forall>c. ls_futures l ! f = Accepted c \<longrightarrow>
          (if f \<in> set (ls_cancelled l) then c \<in> set (ls_lost l) else c \<in> set (ls_received l)))"

definition owned :: "tcp_conn set \<Rightarrow> listener \<Rightarrow> bool" where
  "owned g l \<longleftrightarrow> places_ok l \<and> held_ok g l \<and> callers_ok l"

lemma places_same:
  "places_ok l \<Longrightarrow> placed_conns m = placed_conns l \<Longrightarrow> ls_admitted m = ls_admitted l \<Longrightarrow> on_its_way m = on_its_way l
    \<Longrightarrow> ls_closed m = ls_closed l \<Longrightarrow> places_ok m"
  by (simp add: places_ok_def)

lemma callers_keep:
  assumes "callers_ok l" "set (ls_lost m) = set (ls_lost l)" "set (ls_ended l) \<subseteq> set (ls_ended m)"
    and "set (ls_cancelled l) \<subseteq> set (ls_cancelled m)"
    and "\<And>f. f \<in> set (ls_ended l) \<Longrightarrow> ls_futures m ! f = ls_futures l ! f
      \<and> (f \<in> set (ls_cancelled m) \<longleftrightarrow> f \<in> set (ls_cancelled l))"
    and "\<And>f. f \<in> set (ls_cancelled m) \<union> set (ls_ended m) \<Longrightarrow>
      f < length (ls_futures m) \<and> ls_futures m ! f \<noteq> Waits"
    and "set (ls_received l) \<subseteq> set (ls_received m)"
    and "\<And>f c. f \<in> set (ls_ended m) \<Longrightarrow> ls_futures m ! f = Accepted c \<Longrightarrow> f \<in> set (ls_ended l)"
  shows "callers_ok m"
  unfolding callers_ok_def
proof (intro conjI ballI allI impI)
  fix c assume "c \<in> set (ls_lost m)"
  then obtain f where f: "f \<in> set (ls_cancelled l)" "f \<in> set (ls_ended l)" "ls_futures l ! f = Accepted c"
    using assms(1,2) unfolding callers_ok_def by blast
  with assms(3,4) assms(5) [OF f(2)] show "\<exists>f \<in> set (ls_cancelled m) \<inter> set (ls_ended m). ls_futures m ! f = Accepted c"
    by auto
next
  fix f c assume f: "f \<in> set (ls_ended m)" "ls_futures m ! f = Accepted c"
  have e: "f \<in> set (ls_ended l)" by (rule assms(8) [OF f])
  with assms(5) [OF e] f(2) have "ls_futures l ! f = Accepted c"
    "f \<in> set (ls_cancelled m) \<longleftrightarrow> f \<in> set (ls_cancelled l)" by simp_all
  moreover from this(1) e assms(1)
  have "if f \<in> set (ls_cancelled l) then c \<in> set (ls_lost l) else c \<in> set (ls_received l)"
    unfolding callers_ok_def by blast
  ultimately show "if f \<in> set (ls_cancelled m) then c \<in> set (ls_lost m) else c \<in> set (ls_received m)"
    using assms(2,7) by auto
qed (use assms(6) in auto)

lemma callers_done:
  "callers_ok l \<Longrightarrow> f \<in> set (ls_cancelled l) \<union> set (ls_ended l) \<Longrightarrow> f < length (ls_futures l) \<and> ls_futures l ! f \<noteq> Waits"
  by (auto simp: callers_ok_def)

lemma callers_same:
  assumes "callers_ok l" "ls_lost m = ls_lost l \<and> ls_received m = ls_received l" "ls_ended m = ls_ended l"
    "ls_cancelled m = ls_cancelled l"
    and "length (ls_futures l) \<le> length (ls_futures m)"
    and "\<And>f. f < length (ls_futures l) \<Longrightarrow> ls_futures l ! f \<noteq> Waits \<Longrightarrow> ls_futures m ! f = ls_futures l ! f"
  shows "callers_ok m"
proof -
  have "f < length (ls_futures m) \<and> ls_futures m ! f = ls_futures l ! f \<and> ls_futures l ! f \<noteq> Waits"
    if "f \<in> set (ls_cancelled l) \<union> set (ls_ended l)" for f
    using callers_done [OF assms(1) that] assms(5,6) by simp
  then show ?thesis using assms(2-4) by (intro callers_keep [OF assms(1)]) auto
qed

text \<open>How a caller's \<open>accept\<close> ends.\<close>

lemma accept_end_cases:
  obtains (none) "accept_end f l = l"
  | (over) v where "f < length (ls_futures l)" "f \<notin> set (ls_ended l)" "\<forall>c. ls_futures l ! f \<noteq> Accepted c"
      "v \<noteq> Waits" "\<forall>c. v \<noteq> Accepted c"
      "accept_end f l = l\<lparr>ls_waiters := remove1 f (ls_waiters l), ls_ended := f # ls_ended l,
        ls_futures := (ls_futures l)[f := v]\<rparr>"
  | (goes) c where "on_its_way l f c"
      "accept_end f l = l\<lparr>ls_waiters := remove1 f (ls_waiters l), ls_ended := f # ls_ended l,
        ls_lost := ls_lost l @ (if f \<in> set (ls_cancelled l) then [c] else []),
        ls_received := ls_received l @ (if f \<in> set (ls_cancelled l) then [] else [c])\<rparr>"
proof (cases "f \<in> {..<length (ls_futures l)} - set (ls_ended l)")
  case True
  then have f: "f < length (ls_futures l)" "f \<notin> set (ls_ended l)" by simp_all
  show ?thesis
  proof (cases "ls_futures l ! f")
    case Waits
    with f over [of Abandoned] show ?thesis by (simp add: accept_end_def Let_def)
  next
    case (Accepted c)
    with f goes [of c] show ?thesis by (simp add: accept_end_def Let_def on_its_way_def)
  next
    case (Refused e)
    then have "(ls_futures l)[f := Refused e] = ls_futures l" by (metis list_update_id)
    with Refused f over [of "Refused e"] show ?thesis by (simp add: accept_end_def Let_def)
  next
    case Abandoned
    then have "(ls_futures l)[f := Abandoned] = ls_futures l" by (metis list_update_id)
    with Abandoned f over [of Abandoned] show ?thesis by (simp add: accept_end_def Let_def)
  qed
qed (use none in \<open>simp add: accept_end_def\<close>)

lemma start_queue_ok: "queue_ok l \<Longrightarrow> queue_ok (snd (start_listener u server sockname adv meta bind l))"
  by (auto simp: start_listener_def queue_ok_def Let_def split: sum.splits)

lemma start_owned: "owned g l \<Longrightarrow> owned g (snd (start_listener u server sockname adv meta bind l))"
  by (auto simp: start_listener_def owned_def places_ok_def held_ok_def callers_ok_def placed_conns_def on_its_way_def
      Let_def split: sum.splits)

lemma refuse_waiters:
  assumes "\<forall>f \<in> set ws. f < length fs"
  shows "length (fold refuse_waiter ws fs) = length fs"
    and "g < length fs \<Longrightarrow> fold refuse_waiter ws fs ! g =
      (if g \<in> set ws \<and> fs ! g = Waits then Refused ConnectionClosedError else fs ! g)"
  using assms
proof (induction ws arbitrary: fs)
  case (Cons w ws)
  { case 1 with Cons.IH(1) [of "refuse_waiter w fs"] show ?case by (auto simp: refuse_waiter_def) }
  { case 2 with Cons.IH(2) [of "refuse_waiter w fs"] show ?case by (auto simp: refuse_waiter_def nth_list_update) }
qed simp_all

lemma admit_cases:
  assumes "queue_ok l"
  obtains (waiter) f fs where "admit_connection g c l = (keep_open g c l)\<lparr>ls_waiters := fs,
        ls_futures := (ls_futures l)[f := Accepted c]\<rparr>"
      "ls_futures l ! f = Waits" "f < length (ls_futures l)" "ls_accepted l = []" "f \<notin> set fs" "distinct fs"
      "set fs \<subseteq> set (ls_waiters l)"
      "\<forall>w \<in> set (ls_waiters l). w = f \<or> w \<in> set fs \<or> ls_futures l ! w \<noteq> Waits"
  | (full) "admit_connection g c l = ask_close [c] (l\<lparr>ls_waiters := []\<rparr>)"
      "\<forall>w \<in> set (ls_waiters l). ls_futures l ! w \<noteq> Waits"
  | (room) "admit_connection g c l = (keep_open g c (l\<lparr>ls_waiters := []\<rparr>))\<lparr>ls_accepted := ls_accepted l @ [c]\<rparr>"
      "\<forall>w \<in> set (ls_waiters l). ls_futures l ! w \<noteq> Waits" "int (length (ls_accepted l)) < ls_max_pending l"
proof (cases "dropWhile (\<lambda>f. ls_futures l ! f \<noteq> Waits) (ls_waiters l)")
  case Nil
  then have "admit_connection g c l = (if ls_max_pending l \<le> int (length (ls_accepted l))
      then ask_close [c] (l\<lparr>ls_waiters := []\<rparr>)
      else (keep_open g c (l\<lparr>ls_waiters := []\<rparr>))\<lparr>ls_accepted := ls_accepted l @ [c]\<rparr>)"
    unfolding admit_connection_def by (simp only: list.case Let_def)
  moreover have "\<forall>w \<in> set (ls_waiters l). ls_futures l ! w \<noteq> Waits" using Nil by simp
  ultimately show ?thesis using full room by (cases "ls_max_pending l \<le> int (length (ls_accepted l))") auto
next
  case (Cons f fs)
  let ?P = "\<lambda>f. ls_futures l ! f \<noteq> Waits"
  have split: "ls_waiters l = takeWhile ?P (ls_waiters l) @ f # fs"
    using takeWhile_dropWhile_id [of ?P "ls_waiters l"] Cons by simp
  have f: "ls_futures l ! f = Waits" using Cons hd_dropWhile [of ?P "ls_waiters l"] by auto
  have "f \<in> set (ls_waiters l)" by (subst split) simp
  moreover have "distinct (takeWhile ?P (ls_waiters l) @ f # fs)"
    using assms split by (metis queue_ok_def)
  moreover have "\<forall>w \<in> set (ls_waiters l). w = f \<or> w \<in> set fs \<or> ls_futures l ! w \<noteq> Waits"
    by (subst split) (auto dest: set_takeWhileD)
  moreover have "set fs \<subseteq> set (ls_waiters l)" using arg_cong [OF split, of set] by auto
  ultimately show ?thesis
    using waiter [OF _ f] assms f Cons by (auto simp: queue_ok_def admit_connection_def)
qed

lemma admit_queue_ok:
  assumes "queue_ok l" "\<not> ls_closed l"
  shows "queue_ok (admit_connection g c l)"
  using assms(1)
proof (cases rule: admit_cases [where g = g and c = c])
  case (waiter f fs)
  then show ?thesis using assms
    by (auto simp: keep_open_def queue_ok_def nth_list_update)
next
  case full
  then show ?thesis using assms
    by (auto simp: ask_close_def queue_ok_def)
next
  case room
  then show ?thesis using assms
    by (auto simp: keep_open_def queue_ok_def)
qed

lemma admit_held:
  assumes "held_ok g l" "\<not> ls_closed l" "queue_ok l"
  shows "held_ok g (admit_connection g c l)"
  using assms(3)
proof (cases rule: admit_cases [where g = g and c = c])
  case (waiter f fs)
  with assms show ?thesis by (auto simp: keep_open_def held_ok_def)
next
  case full
  with assms show ?thesis by (auto simp: ask_close_def held_ok_def)
next
  case room
  with assms show ?thesis by (auto simp: keep_open_def held_ok_def)
qed

lemma admit_owned:
  assumes "queue_ok l" "owned g l" "c \<notin> set (ls_admitted l)" "\<not> ls_closed l"
  shows "owned g (admit_connection g c l)"
proof -
  have held: "held_ok g (admit_connection g c l)" using assms by (intro admit_held) (simp_all add: owned_def)
  have p: "places_ok l" "callers_ok l" using assms(2) by (simp_all add: owned_def)
  show ?thesis
    using assms(1)
  proof (cases rule: admit_cases [where g = g and c = c])
    case (waiter f fs)
    let ?l = "admit_connection g c l"
    have f: "f \<notin> set (ls_ended l)" using p(2) waiter(2) by (auto simp: callers_ok_def)
    have way: "on_its_way ?l h x \<longleftrightarrow> on_its_way l h x \<or> h = f \<and> x = c" for h x
      using waiter(2,3) f by (auto simp: waiter(1) keep_open_def on_its_way_def nth_list_update)
    have same: "placed_conns ?l = placed_conns l" "ls_admitted ?l = ls_admitted l @ [c]" "ls_closed ?l = ls_closed l"
      by (simp_all add: waiter(1) keep_open_def placed_conns_def)
    have "places_ok ?l" using p(1) assms(3) unfolding places_ok_def way same by auto
    moreover have "callers_ok ?l"
      by (rule callers_same [OF p(2)]) (use waiter(2,3) in \<open>auto simp: waiter(1) keep_open_def nth_list_update\<close>)
    ultimately show ?thesis using held by (simp add: owned_def)
  next
    case full
    then have "places_ok (admit_connection g c l)"
      by - (rule places_same [OF p(1)], simp_all add: ask_close_def placed_conns_def on_its_way_def fun_eq_iff)
    moreover have "callers_ok (admit_connection g c l)"
      by (rule callers_same [OF p(2)]) (simp_all add: full(1) ask_close_def)
    ultimately show ?thesis using held by (simp add: owned_def)
  next
    case room
    have "on_its_way (admit_connection g c l) = on_its_way l"
      by (simp add: room(1) keep_open_def on_its_way_def fun_eq_iff)
    moreover have "placed_conns (admit_connection g c l) = placed_conns l @ [c]"
      "ls_admitted (admit_connection g c l) = ls_admitted l @ [c]" "ls_closed (admit_connection g c l) = ls_closed l"
      by (simp_all add: room(1) keep_open_def placed_conns_def)
    ultimately have "places_ok (admit_connection g c l)"
      using p(1) assms(3) by (auto simp: places_ok_def)
    moreover have "callers_ok (admit_connection g c l)"
      by (rule callers_same [OF p(2)]) (simp_all add: room(1) keep_open_def)
    ultimately show ?thesis using held by (simp add: owned_def)
  qed
qed

lemma handle_closed: "ls_closed l \<Longrightarrow> snd (handle_client g c remote wrapped l) = l"
  by (simp add: handle_client_def)

lemma handle_cases: "snd (handle_client g c remote wrapped l) = l
    \<or> \<not> ls_closed l \<and> snd (handle_client g c remote wrapped l) = admit_connection g c l"
  by (simp add: handle_client_def split: sum.split)

lemma accept_begin_queue_ok: "queue_ok l \<Longrightarrow> queue_ok (snd (accept_begin l))"
  by (auto simp: accept_begin_def queue_ok_def Let_def nth_append less_Suc_eq split: list.split)

lemma accept_begin_owned:
  assumes "owned g l" shows "owned g (snd (accept_begin l))"
proof (cases "ls_closed l \<or> \<not> ls_server l")
  case False
  show ?thesis
  proof (cases "ls_accepted l")
    case Nil
    let ?l = "l\<lparr>ls_futures := ls_futures l @ [Waits], ls_waiters := ls_waiters l @ [length (ls_futures l)]\<rparr>"
    have "on_its_way ?l f c = on_its_way l f c" for f c
      by (cases "f < length (ls_futures l)"; cases "f = length (ls_futures l)")
        (simp_all add: on_its_way_def nth_append)
    then have "on_its_way ?l = on_its_way l" by (intro ext)
    then have "places_ok ?l" using assms by - (rule places_same [of l], simp_all add: owned_def placed_conns_def)
    moreover have "callers_ok ?l"
      using assms by - (rule callers_same [of l], simp_all add: owned_def nth_append)
    ultimately show ?thesis using assms False Nil by (simp add: owned_def held_ok_def accept_begin_def Let_def)
  next
    case (Cons c cs)
    let ?l = "l\<lparr>ls_accepted := cs, ls_received := ls_received l @ [c]\<rparr>"
    have "set (placed_conns ?l) = set (placed_conns l)" "distinct (placed_conns ?l) = distinct (placed_conns l)"
      by (auto simp: placed_conns_def Cons)
    moreover have "on_its_way ?l = on_its_way l" by (simp add: on_its_way_def fun_eq_iff)
    ultimately have "places_ok ?l" using assms by (simp add: owned_def places_ok_def)
    then show ?thesis
      using assms False Cons by (simp add: owned_def held_ok_def callers_ok_def accept_begin_def)
  qed
qed (use assms in \<open>auto simp: accept_begin_def\<close>)

lemma accept_end_queue_ok:
  assumes "queue_ok l" shows "queue_ok (accept_end f l)"
proof (cases rule: accept_end_cases [of f l])
  case none
  with assms show ?thesis by simp
next
  case (over v)
  with assms show ?thesis
    by (auto simp: queue_ok_def nth_list_update dest: set_remove1_subset [THEN subsetD])
next
  case (goes c)
  then have "ls_futures l ! f \<noteq> Waits" by (simp add: on_its_way_def)
  with goes assms show ?thesis
    by (auto simp: queue_ok_def in_set_remove1 dest: set_remove1_subset [THEN subsetD])
qed

lemma accept_end_owned:
  assumes "owned g l" shows "owned g (accept_end f l)"
proof (cases rule: accept_end_cases [of f l])
  case none
  with assms show ?thesis by simp
next
  case (over v)
  have "on_its_way (accept_end f l) h c = on_its_way l h c" for h c
    using over by (cases "h = f") (auto simp: on_its_way_def)
  then have "on_its_way (accept_end f l) = on_its_way l" by (intro ext)
  then have "places_ok (accept_end f l)"
    using assms over by - (rule places_same [of l], simp_all add: owned_def placed_conns_def)
  moreover have "callers_ok (accept_end f l)"
  proof (rule callers_keep)
    show c: "callers_ok l" using assms by (simp add: owned_def)
    show "ls_futures (accept_end f l) ! h = ls_futures l ! h
        \<and> (h \<in> set (ls_cancelled (accept_end f l)) \<longleftrightarrow> h \<in> set (ls_cancelled l))" if "h \<in> set (ls_ended l)" for h
      using that over by (auto simp: nth_list_update)
    show "h < length (ls_futures (accept_end f l)) \<and> ls_futures (accept_end f l) ! h \<noteq> Waits"
      if "h \<in> set (ls_cancelled (accept_end f l)) \<union> set (ls_ended (accept_end f l))" for h
      using that over callers_done [OF c, of h] by (auto simp: nth_list_update)
    show "h \<in> set (ls_ended l)"
      if "h \<in> set (ls_ended (accept_end f l))" "ls_futures (accept_end f l) ! h = Accepted x" for h x
      using that over by (auto simp: nth_list_update split: if_splits)
  qed (use over in auto)
  ultimately show ?thesis using assms over by (simp add: owned_def held_ok_def)
next
  case (goes c)
  let ?l = "accept_end f l"
  have way: "on_its_way ?l h x \<longleftrightarrow> on_its_way l h x \<and> h \<noteq> f" for h x
    using goes by (auto simp: on_its_way_def)
  have p: "places_ok l" "callers_ok l" using assms by (simp_all add: owned_def)
  have c: "c \<notin> set (placed_conns l)" "c \<in> set (ls_admitted l)" "\<forall>h. on_its_way l h c \<longrightarrow> h = f"
    using p(1) goes(1) unfolding places_ok_def by blast+
  have other: "\<forall>x. on_its_way l f x \<longrightarrow> x = c" using goes(1) by (simp add: on_its_way_def)
  have a: "set (placed_conns ?l) = insert c (set (placed_conns l))" "distinct (placed_conns ?l)"
    "ls_admitted ?l = ls_admitted l" "ls_closed ?l = ls_closed l"
    using c(1) p(1) by (auto simp: goes(2) placed_conns_def places_ok_def)
  have "places_ok ?l"
    using p(1) c other a(2) unfolding places_ok_def way a by blast
  moreover have "callers_ok ?l"
    using p(2) goes by (auto simp: callers_ok_def on_its_way_def)
  ultimately show ?thesis using assms goes(2) by (simp add: owned_def held_ok_def)
qed

lemma cancel_accept_queue_ok: "queue_ok l \<Longrightarrow> queue_ok (cancel_accept f l)"
  by (auto simp: cancel_accept_def queue_ok_def nth_list_update)

lemma cancel_accept_owned:
  assumes "owned g l" shows "owned g (cancel_accept f l)"
proof (cases "f \<in> {..<length (ls_futures l)} - set (ls_ended l)")
  case True
  have "on_its_way (cancel_accept f l) h c = on_its_way l h c" for h c
    by (cases "h = f") (auto simp: cancel_accept_def on_its_way_def)
  then have "on_its_way (cancel_accept f l) = on_its_way l" by (intro ext)
  then have "places_ok (cancel_accept f l)"
    using assms by - (rule places_same [of l], simp_all add: owned_def placed_conns_def cancel_accept_def)
  moreover have "callers_ok (cancel_accept f l)"
  proof (cases "ls_futures l ! f = Waits")
    case True
    with \<open>f \<in> {..<length (ls_futures l)} - set (ls_ended l)\<close>
    have "cancel_accept f l = l\<lparr>ls_futures := (ls_futures l)[f := Abandoned]\<rparr>" by (simp add: cancel_accept_def)
    then show ?thesis using assms True \<open>f \<in> {..<length (ls_futures l)} - set (ls_ended l)\<close>
      by - (rule callers_same [of l], auto simp: owned_def nth_list_update)
  next
    case False
    have c: "callers_ok l" using assms by (simp add: owned_def)
    from True False have l: "cancel_accept f l = l\<lparr>ls_cancelled := f # ls_cancelled l\<rparr>"
      by (simp add: cancel_accept_def)
    show ?thesis unfolding l
      by (rule callers_keep [OF c]) (use True False callers_done [OF c] in auto)
  qed
  ultimately show ?thesis using assms by (simp add: owned_def held_ok_def cancel_accept_def)
qed (use assms in \<open>simp add: cancel_accept_def\<close>)

lemma close_listener_queue_ok: "queue_ok l \<Longrightarrow> queue_ok (close_listener l)"
  by (auto simp: close_listener_def queue_ok_def refuse_waiters split: if_splits)

lemma close_listener_owned:
  assumes "queue_ok l" "owned g l" shows "owned g (close_listener l)"
proof (cases "ls_closed l")
  case False
  let ?l = "close_listener l"
  have ws: "\<forall>f \<in> set (ls_waiters l). f < length (ls_futures l)" using assms(1) by (simp add: queue_ok_def)
  note fs = refuse_waiters [OF ws]
  have l: "ls_futures ?l = fold refuse_waiter (ls_waiters l) (ls_futures l)" "ls_ended ?l = ls_ended l"
    "placed_conns ?l = ls_received l @ ls_lost l" "ls_admitted ?l = ls_admitted l" "ls_closed ?l"
    using False by (simp_all add: close_listener_def placed_conns_def)
  have "on_its_way ?l = on_its_way l"
    using fs by (auto simp: on_its_way_def fun_eq_iff l split: if_splits)
  moreover have "set (placed_conns ?l) \<subseteq> set (placed_conns l)" "distinct (placed_conns l) \<longrightarrow> distinct (placed_conns ?l)"
    unfolding l(3) by (auto simp: placed_conns_def)
  ultimately have "places_ok ?l" using assms(2) l(4,5) by (auto simp: owned_def places_ok_def)
  moreover have "callers_ok ?l"
    using assms(2) False fs by - (rule callers_same [of l], auto simp: owned_def close_listener_def)
  moreover have "held_ok g ?l" using assms(2) False by (auto simp: owned_def held_ok_def close_listener_def)
  ultimately show ?thesis by (simp add: owned_def)
qed (use assms in \<open>simp add: close_listener_def\<close>)

lemma step_queue_ok:
  assumes "queue_ok (fst s)" "listener_step s s'"
  shows "queue_ok (fst s')"
  using assms(2)
proof cases
  case (arrives c l g remote wrapped)
  with assms(1) show ?thesis
    using handle_cases [of g c remote wrapped l] by (auto intro: admit_queue_ok)
qed (use assms(1) in \<open>auto simp: start_queue_ok accept_begin_queue_ok accept_end_queue_ok
  cancel_accept_queue_ok close_listener_queue_ok\<close>)

lemma step_owned:
  assumes "queue_ok (fst s)" "owned (snd s) (fst s)" "listener_step s s'"
  shows "owned (snd s') (fst s')"
  using assms(3)
proof cases
  case (arrives c l g remote wrapped)
  with assms show ?thesis
    using handle_cases [of g c remote wrapped l] by (auto intro: admit_owned)
next
  case (connection_closes l g c)
  with assms(2) show ?thesis by (auto simp: owned_def held_ok_def)
qed (use assms in \<open>auto simp: start_owned accept_begin_owned accept_end_owned cancel_accept_owned
  intro: close_listener_owned\<close>)

definition fresh_listener :: "int \<Rightarrow> listener" where
  "fresh_listener k = \<lparr>ls_max_pending = k, ls_server = False, ls_accepted = [], ls_waiters = [],
     ls_connections = [], ls_closed = False, ls_endpoint = None, ls_futures = [], ls_admitted = [],
     ls_received = [], ls_lost = [], ls_ended = [], ls_cancelled = [], ls_close_calls = []\<rparr>"

lemma new_listener_eq: "new_listener a b c = Inr l \<Longrightarrow> \<exists>k > 0. l = fresh_listener k"
  by (auto simp: new_listener_def fresh_listener_def res_simps)

lemma fresh_listener_ok:
  "queue_ok (fst (fresh_listener (int k), g)) \<and> ls_max_pending (fst (fresh_listener (int k), g)) = int k"
  "owned (snd (fresh_listener j, {})) (fst (fresh_listener j, {}))"
  by (simp_all add: fresh_listener_def queue_ok_def owned_def places_ok_def held_ok_def callers_ok_def
      placed_conns_def on_its_way_def)

lemma accept_end_limit: "ls_max_pending (accept_end f l) = ls_max_pending l"
  by (simp add: accept_end_def Let_def split: accept_future.split)

lemma listener_limit: "listener_step s s' \<Longrightarrow> ls_max_pending (fst s') = ls_max_pending (fst s)"
  by (erule listener_step.cases)
    (simp_all add: start_listener_def handle_client_def accept_begin_def cancel_accept_def accept_end_limit
      close_listener_def admit_connection_def keep_open_def ask_close_def Let_def split: sum.split list.split)

lemma step_limited: "queue_ok (fst s) \<and> ls_max_pending (fst s) = k \<Longrightarrow> listener_step s s' \<Longrightarrow>
    queue_ok (fst s') \<and> ls_max_pending (fst s') = k"
  using step_queue_ok [of s s'] listener_limit [of s s'] by simp

interpretation listener_machine: relative_invariant listener_step "(fresh_listener (int k), {})"
    "\<lambda>s. queue_ok (fst s) \<and> ls_max_pending (fst s) = int k" "\<lambda>s. owned (snd s) (fst s)" for k
  by unfold_locales
    (rule fresh_listener_ok, erule (1) step_limited, rule fresh_listener_ok, erule conjE, erule (2) step_owned)

section \<open>Properties\<close>

text \<open>C32 However connections arrive, callers of \<open>accept\<close> begin, end and are cancelled, connections close
  and the listener closes: connections pending acceptance stay within the limit, and none is pending
  while a caller waits. A connection taken in is, until the listener closes, in exactly one place:
  returned by one \<open>accept\<close>, pending, on its way to the one caller whose future holds it, or lost. A
  caller whose future was given a connection returns with it, unless it was cancelled after that;
  then the connection is lost, and in no other way. The listener still holds every connection it took in, also the lost
  ones, or it is closed, or the listener called \<open>close()\<close> on it; and after closing no caller
  waits.\<close>

theorem listener_hands_over:
  assumes "new_listener frame_size payload_timeout pending = Inr l0"
    and "reachable listener_step (l0, {}) (l, gone)"
  shows "pending = PInt (ls_max_pending l) \<and> int (length (ls_accepted l)) \<le> ls_max_pending l
    \<and> (ls_accepted l \<noteq> [] \<or> ls_closed l \<longrightarrow> Waits \<notin> set (ls_futures l))
    \<and> distinct (ls_received l @ ls_lost l @ ls_accepted l)
    \<and> (\<forall>f h c. on_its_way l f c \<longrightarrow> c \<notin> set (ls_received l @ ls_lost l @ ls_accepted l)
         \<and> (on_its_way l h c \<longrightarrow> h = f))
    \<and> (\<not> ls_closed l \<longrightarrow> set (ls_admitted l)
         = set (ls_received l @ ls_lost l @ ls_accepted l) \<union> {c. \<exists>f. on_its_way l f c})
    \<and> (\<forall>c \<in> set (ls_lost l). \<exists>f. f \<in> set (ls_cancelled l) \<and> f \<in> set (ls_ended l) \<and> ls_futures l ! f = Accepted c)
    \<and> (\<forall>f \<in> set (ls_ended l). \<forall>c. ls_futures l ! f = Accepted c \<longrightarrow>
         (if f \<in> set (ls_cancelled l) then c \<in> set (ls_lost l) else c \<in> set (ls_received l)))
    \<and> (\<forall>c \<in> set (ls_admitted l). c \<in> gone \<or> c \<in> set (ls_close_calls l)
          \<or> \<not> ls_closed l \<and> c \<in> set (ls_connections l))"
proof -
  obtain k where k: "0 < k" "pending = PInt k" "l0 = fresh_listener k"
    using assms(1) by (auto simp: new_listener_def fresh_listener_def res_simps)
  then have "l0 = fresh_listener (int (nat k))" by simp
  then have inv: "queue_ok l" "owned gone l" "ls_max_pending l = k"
    using listener_machine.both.holds [of "nat k" "(l, gone)"] assms(2) k(1) by simp_all
  have "ls_accepted l = [] \<and> \<not> ls_closed l" if w: "Waits \<in> set (ls_futures l)"
  proof -
    obtain f where f: "f < length (ls_futures l)" "ls_futures l ! f = Waits" using w by (auto simp: in_set_conv_nth)
    with inv(1) have "f \<in> set (ls_waiters l)" by (simp add: queue_ok_def)
    with inv(1) f(2) show ?thesis by (auto simp: queue_ok_def)
  qed
  moreover have "\<forall>c \<in> set (ls_admitted l). c \<in> gone \<or> c \<in> set (ls_close_calls l)
      \<or> \<not> ls_closed l \<and> c \<in> set (ls_connections l)"
    using inv(2) unfolding owned_def held_ok_def by (cases "ls_closed l") auto
  moreover have "int (length (ls_accepted l)) \<le> ls_max_pending l" using inv(1) by (simp add: queue_ok_def)
  moreover have p: "places_ok l" "callers_ok l" using inv(2) by (simp_all add: owned_def)
  have "\<not> ls_closed l \<longrightarrow> set (ls_admitted l) = set (placed_conns l) \<union> {c. \<exists>f. on_its_way l f c}"
    using p(1) unfolding places_ok_def by blast
  moreover have "distinct (placed_conns l)" "\<forall>f h c. on_its_way l f c \<longrightarrow> c \<notin> set (placed_conns l) \<and> (on_its_way l h c \<longrightarrow> h = f)"
    using p(1) unfolding places_ok_def by blast+
  moreover have "\<forall>c \<in> set (ls_lost l). \<exists>f. f \<in> set (ls_cancelled l) \<and> f \<in> set (ls_ended l) \<and> ls_futures l ! f = Accepted c"
    using p(2) unfolding callers_ok_def by blast
  moreover have "\<forall>f \<in> set (ls_ended l). \<forall>c. ls_futures l ! f = Accepted c \<longrightarrow>
      (if f \<in> set (ls_cancelled l) then c \<in> set (ls_lost l) else c \<in> set (ls_received l))"
    using p(2) unfolding callers_ok_def by blast
  ultimately show ?thesis using k(2) inv(3) unfolding placed_conns_def by blast
qed

text \<open>A caller waits, is given the connection 5 and then cancelled: the connection is lost.\<close>

definition lost_one :: listener where
  "lost_one = accept_end 0 (cancel_accept 0 (snd (handle_client {} 5 (Inr ()) (Inr ())
     (snd (accept_begin ((fresh_listener 1)\<lparr>ls_server := True\<rparr>))))))"

lemma started_reachable: "reachable listener_step (fresh_listener 1, {}) ((fresh_listener 1)\<lparr>ls_server := True\<rparr>, {})"
proof -
  have "snd (start_listener u (Inr ()) (Inl OSError) adv meta bind (fresh_listener 1)) = (fresh_listener 1)\<lparr>ls_server := True\<rparr>"
    for u adv meta bind by (simp add: start_listener_def fresh_listener_def)
  then have "listener_step (fresh_listener 1, {}) ((fresh_listener 1)\<lparr>ls_server := True\<rparr>, {})"
    by (metis listener_step.starts)
  then show ?thesis by (rule reachable.next_state [OF reachable.start])
qed

theorem listener_hands_over_witness:
  "reachable listener_step (fresh_listener 1, {}) (lost_one, {}) \<and> ls_lost lost_one = [5]
    \<and> ls_received lost_one = [] \<and> ls_accepted lost_one = [] \<and> ls_connections lost_one = [5]
    \<and> (\<exists>f. f \<in> set (ls_cancelled lost_one) \<and> ls_futures lost_one ! f = Accepted 5)"
proof -
  have new: "new_listener (PInt 9) PNone (PInt 1) = Inr (fresh_listener 1)"
    by (simp add: new_listener_def fresh_listener_def validate_max_frame_size_def MAX_UINT32_def
        validate_frame_payload_timeout_def check_optional_def)
  let ?l1 = "snd (accept_begin ((fresh_listener 1)\<lparr>ls_server := True\<rparr>))"
  let ?l2 = "snd (handle_client {} 5 (Inr ()) (Inr ()) ?l1)"
  have "listener_step (?l1, {}) (?l2, {})"
    by (rule listener_step.arrives) (simp add: accept_begin_def fresh_listener_def)
  with reachable.next_state [OF started_reachable listener_step.accept_begins]
  have "reachable listener_step (fresh_listener 1, {}) (?l2, {})" by (rule reachable.next_state)
  then have "reachable listener_step (fresh_listener 1, {}) (cancel_accept 0 ?l2, {})"
    using listener_step.accept_cancelled by (rule reachable.next_state)
  then have reach: "reachable listener_step (fresh_listener 1, {}) (lost_one, {})"
    unfolding lost_one_def using listener_step.accept_ends by (rule reachable.next_state)
  have "ls_lost lost_one = [5]" "ls_received lost_one = []" "ls_accepted lost_one = []" "ls_connections lost_one = [5]"
    by (simp_all add: lost_one_def handle_client_def fresh_listener_def admit_connection_def keep_open_def accept_begin_def
        cancel_accept_def accept_end_def Let_def)
  with listener_hands_over [OF new reach] reach show ?thesis by auto
qed

end
