(* ===== verification/LanSecurity.thy ===== *)
theory LanSecurity
  imports Models Config
begin

text \<open>
  TLS settings and the security information of an established stream:
  \<open>src/paqto/lan/security.py\<close>. A context of the \<open>ssl\<close> module is a record of the attributes the
  code sets and reads; \<open>default_client_context\<close> and \<open>server_protocol_context\<close> are what
  \<open>ssl.create_default_context\<close> and \<open>ssl.SSLContext\<close> return. Loading certificate files is given by
  outcomes (\<open>tls_files\<close>), what an established TLS object reports by the record \<open>tls_object\<close>, the
  application's resolver by a function that may raise.

  The lemmas: a context verifies exactly what the settings ask for, and a stream is reported
  authenticated, or given an identity, only if verification was on, a certificate was there and the
  resolver answered.
\<close>

section \<open>Contexts of the \<open>ssl\<close> module\<close>

datatype tls_protocol = PROTOCOL_TLS | PROTOCOL_TLS_CLIENT | PROTOCOL_TLS_SERVER
datatype verify_mode = CERT_NONE | CERT_OPTIONAL | CERT_REQUIRED
datatype tls_version = DefaultMinimum | TLSv1_2
datatype trust = SystemRoots | RootsFile pystr | RootsData pyval

record ssl_context =
  ctx_protocol :: tls_protocol
  ctx_verify :: verify_mode
  ctx_check_hostname :: bool
  ctx_minimum :: tls_version
  ctx_roots :: "trust list"
  ctx_chain :: "(pystr \<times> pystr) option"

definition client_protocol_context :: ssl_context where
  "client_protocol_context = \<lparr>ctx_protocol = PROTOCOL_TLS_CLIENT, ctx_verify = CERT_REQUIRED, ctx_check_hostname = True,
     ctx_minimum = DefaultMinimum, ctx_roots = [], ctx_chain = None\<rparr>"

definition server_protocol_context :: ssl_context where
  "server_protocol_context = \<lparr>ctx_protocol = PROTOCOL_TLS_SERVER, ctx_verify = CERT_NONE, ctx_check_hostname = False,
     ctx_minimum = DefaultMinimum, ctx_roots = [], ctx_chain = None\<rparr>"

text \<open>Loading roots from files or data, and a certificate chain with its key.\<close>

record tls_files =
  load_roots :: "pystr option \<Rightarrow> pyval \<Rightarrow> exn + unit"
  load_chain :: "pystr \<Rightarrow> pystr \<Rightarrow> exn + unit"

definition load_verify_locations :: "tls_files \<Rightarrow> pystr option \<Rightarrow> pyval \<Rightarrow> ssl_context \<Rightarrow> exn + ssl_context" where
  "load_verify_locations fs ca data c =
     rbind (load_roots fs ca data) (\<lambda>_.
       Inr (c\<lparr>ctx_roots := ctx_roots c @ (case ca of Some f \<Rightarrow> [RootsFile f] | None \<Rightarrow> [])
                            @ (if data = PNone then [] else [RootsData data])\<rparr>))"

definition default_client_context :: "tls_files \<Rightarrow> pystr option \<Rightarrow> pyval \<Rightarrow> exn + ssl_context" where
  "default_client_context fs ca data =
     (if ca = None \<and> data = PNone then Inr (client_protocol_context\<lparr>ctx_roots := [SystemRoots]\<rparr>)
      else load_verify_locations fs ca data client_protocol_context)"

definition set_check_hostname :: "bool \<Rightarrow> ssl_context \<Rightarrow> ssl_context" where
  "set_check_hostname b c = c\<lparr>ctx_check_hostname := b,
     ctx_verify := (if b \<and> ctx_verify c = CERT_NONE then CERT_REQUIRED else ctx_verify c)\<rparr>"

definition set_verify_mode :: "verify_mode \<Rightarrow> ssl_context \<Rightarrow> exn + ssl_context" where
  "set_verify_mode m c =
     (if m = CERT_NONE \<and> ctx_check_hostname c then Inl ValueError else Inr (c\<lparr>ctx_verify := m\<rparr>))"

definition load_cert_chain :: "tls_files \<Rightarrow> pystr \<Rightarrow> pystr \<Rightarrow> ssl_context \<Rightarrow> exn + ssl_context" where
  "load_cert_chain fs cert key c = rbind (load_chain fs cert key) (\<lambda>_. Inr (c\<lparr>ctx_chain := Some (cert, key)\<rparr>))"

section \<open>Settings\<close>

type_synonym identity_resolver = "pyval \<Rightarrow> exn + pyval"

datatype callback = NoCallback | Callable identity_resolver | NotCallable

definition check_callback :: "callback \<Rightarrow> exn + identity_resolver option" where
  "check_callback cb = (case cb of NoCallback \<Rightarrow> Inr None | Callable f \<Rightarrow> Inr (Some f) | NotCallable \<Rightarrow> Inl TypeError)"

text \<open>\<open>os.fspath\<close>: texts and bytes are paths; \<open>path_of\<close> is \<open>__fspath__\<close> of other objects.\<close>

definition normalize_path :: "(pystr \<Rightarrow> pyval option) \<Rightarrow> pyval \<Rightarrow> exn + pystr" where
  "normalize_path path_of v =
     rbind (case v of PStr s \<Rightarrow> Inr v | PBytes b \<Rightarrow> Inr v | PObject n \<Rightarrow> opt_res TypeError (path_of n) | _ \<Rightarrow> Inl TypeError)
       (\<lambda>path. opt_res ValueError (nonempty_str path))"

definition validate_cadata :: "pyval \<Rightarrow> exn + unit" where
  "validate_cadata v =
     (case v of PStr s \<Rightarrow> guard (s \<noteq> []) ValueError | PBytes b \<Rightarrow> guard (b \<noteq> []) ValueError | _ \<Rightarrow> Inl TypeError)"

definition validate_handshake_timeout :: "pyval \<Rightarrow> exn + unit" where
  "validate_handshake_timeout v = check_number (\<lambda>x. 0 < x) v"

record tls_config =
  tls_certfile :: pystr
  tls_keyfile :: pystr
  tls_cafile :: "pystr option"
  tls_cadata :: pyval
  tls_verify_peer :: bool
  tls_check_hostname :: bool
  tls_require_client_certificate :: bool
  tls_resolver :: "identity_resolver option"
  tls_timeout :: pyval

definition new_tls_config ::
    "(pystr \<Rightarrow> pyval option) \<Rightarrow> pyval \<Rightarrow> pyval \<Rightarrow> pyval \<Rightarrow> pyval \<Rightarrow> pyval \<Rightarrow> pyval \<Rightarrow> pyval \<Rightarrow> callback \<Rightarrow> pyval \<Rightarrow>
     exn + tls_config" where
  "new_tls_config path_of cert key ca cadata verify check require cb timeout =
     rbind (normalize_path path_of cert) (\<lambda>certfile.
     rbind (normalize_path path_of key) (\<lambda>keyfile.
     rbind (if ca = PNone then Inr None else rbind (normalize_path path_of ca) (\<lambda>f. Inr (Some f))) (\<lambda>cafile.
     rbind (check_optional validate_cadata cadata) (\<lambda>_.
     rbind (opt_res TypeError (as_bool verify)) (\<lambda>vp.
     rbind (opt_res TypeError (as_bool check)) (\<lambda>ch.
     rbind (opt_res TypeError (as_bool require)) (\<lambda>rq.
     rbind (guard (\<not> (ch \<and> \<not> vp)) ValueError) (\<lambda>_.
     rbind (check_callback cb) (\<lambda>resolver.
     rbind (validate_handshake_timeout timeout) (\<lambda>_.
       Inr \<lparr>tls_certfile = certfile, tls_keyfile = keyfile, tls_cafile = cafile, tls_cadata = cadata,
            tls_verify_peer = vp, tls_check_hostname = ch, tls_require_client_certificate = rq,
            tls_resolver = resolver, tls_timeout = timeout\<rparr>))))))))))"

definition create_client_context :: "tls_files \<Rightarrow> tls_config \<Rightarrow> exn + ssl_context" where
  "create_client_context fs c =
     rbind (if tls_verify_peer c
            then rbind (default_client_context fs (tls_cafile c) (tls_cadata c)) (\<lambda>x.
                   Inr (set_check_hostname (tls_check_hostname c) x))
            else set_verify_mode CERT_NONE (set_check_hostname False client_protocol_context)) (\<lambda>x.
       load_cert_chain fs (tls_certfile c) (tls_keyfile c) (x\<lparr>ctx_minimum := TLSv1_2\<rparr>))"

definition create_server_context :: "tls_files \<Rightarrow> tls_config \<Rightarrow> exn + ssl_context" where
  "create_server_context fs c =
     rbind (load_cert_chain fs (tls_certfile c) (tls_keyfile c) (server_protocol_context\<lparr>ctx_minimum := TLSv1_2\<rparr>)) (\<lambda>x.
       if tls_require_client_certificate c then
         rbind (set_verify_mode CERT_REQUIRED x) (\<lambda>y.
           if tls_cafile c = None \<and> tls_cadata c = PNone then Inr (y\<lparr>ctx_roots := ctx_roots y @ [SystemRoots]\<rparr>)
           else load_verify_locations fs (tls_cafile c) (tls_cadata c) y)
       else set_verify_mode CERT_NONE x)"

text \<open>\<open>TlsContextConfig\<close>; \<open>None\<close> stands for an argument that is no context.\<close>

record tls_context_config =
  client_context :: ssl_context
  server_context :: ssl_context
  context_resolver :: "identity_resolver option"
  context_timeout :: pyval

definition new_tls_context_config ::
    "ssl_context option \<Rightarrow> ssl_context option \<Rightarrow> callback \<Rightarrow> pyval \<Rightarrow> exn + tls_context_config" where
  "new_tls_context_config client server cb timeout =
     rbind (opt_res TypeError client) (\<lambda>cc.
     rbind (opt_res TypeError server) (\<lambda>sc.
     rbind (guard (ctx_protocol cc \<noteq> PROTOCOL_TLS_SERVER) ValueError) (\<lambda>_.
     rbind (guard (ctx_protocol sc \<noteq> PROTOCOL_TLS_CLIENT) ValueError) (\<lambda>_.
     rbind (check_callback cb) (\<lambda>resolver.
     rbind (validate_handshake_timeout timeout) (\<lambda>_.
       Inr \<lparr>client_context = cc, server_context = sc, context_resolver = resolver, context_timeout = timeout\<rparr>))))))"

definition context_verify_peer :: "tls_context_config \<Rightarrow> bool" where
  "context_verify_peer c = (ctx_verify (client_context c) \<noteq> CERT_NONE)"

definition context_check_hostname :: "tls_context_config \<Rightarrow> bool" where
  "context_check_hostname c = ctx_check_hostname (client_context c)"

section \<open>Established streams\<close>

record tls_object =
  peer_cert :: pyval
  peer_cert_binary :: pyval
  negotiated_version :: pyval
  negotiated_cipher :: "pyval option"

text \<open>\<open>cipher()\<close> returns a triple, of which the code takes the name, or \<open>None\<close>. A writer: whether it has \<open>get_extra_info\<close>, and the TLS object that reports.\<close>

record stream_info =
  has_extra_info :: bool
  ssl_object :: "tls_object option"

fun py_truth :: "pyval \<Rightarrow> bool" where
  "py_truth PNone = False"
| "py_truth (PBool b) = b"
| "py_truth (PInt i) = (i \<noteq> 0)"
| "py_truth (PFloat f) = (f \<noteq> Finite 0)"
| "py_truth (PStr s) = (s \<noteq> [])"
| "py_truth (PBytes b) = (b \<noteq> [])"
| "py_truth (PList vs) = (vs \<noteq> [])"
| "py_truth (PTuple vs) = (vs \<noteq> [])"
| "py_truth (PDict kvs) = (kvs \<noteq> [])"
| "py_truth _ = True"

definition resolve_identity :: "identity_resolver option \<Rightarrow> pyval \<Rightarrow> exn + pystr option" where
  "resolve_identity resolver cert =
     (case resolver of
        None \<Rightarrow> Inr None
      | Some f \<Rightarrow>
          (case cert of
             PDict kvs \<Rightarrow>
               rbind (catching [ExceptionClass] TransportError (f (PDict kvs))) (\<lambda>r.
                 if r = PNone then Inr None
                 else rbind (opt_res TransportError (nonempty_str r)) (\<lambda>s. Inr (Some s)))
           | _ \<Rightarrow> Inl TransportError))"

definition security_metadata :: "tls_object \<Rightarrow> bool \<Rightarrow> pystr option \<Rightarrow> metadata" where
  "security_metadata t authed server_name =
     [(PStr (lit ''peer_certificate_present''), PBool (py_truth (peer_cert_binary t)))]
     @ (if negotiated_version t = PNone then [] else [(PStr (lit ''tls_version''), negotiated_version t)])
     @ (case negotiated_cipher t of Some c \<Rightarrow> [(PStr (lit ''cipher''), c)] | None \<Rightarrow> [])
     @ (case server_name of Some n \<Rightarrow> if authed then [(PStr (lit ''verified_server_name''), PStr n)] else [] | None \<Rightarrow> [])"

definition security_info_from_writer ::
    "stream_info \<Rightarrow> bool \<Rightarrow> identity_resolver option \<Rightarrow> pystr option \<Rightarrow> bool \<Rightarrow> exn + security_info" where
  "security_info_from_writer w peer_authenticated resolver server_name required =
     rbind (guard (has_extra_info w) TransportError) (\<lambda>_.
     rbind (opt_res TransportError (ssl_object w)) (\<lambda>t.
       (let missing = (\<not> py_truth (peer_cert t) \<or> \<not> py_truth (peer_cert_binary t)) in
        if peer_authenticated \<and> missing \<and> required then Inl TransportError
        else (let authed = (peer_authenticated \<and> \<not> missing) in
          rbind (if authed then resolve_identity resolver (peer_cert t) else Inr None) (\<lambda>ident.
            Inr \<lparr>encrypted = True, authenticated = authed, authenticated_peer_id = ident,
                 mechanism = Some (lit ''tls''), sec_metadata = security_metadata t authed server_name\<rparr>)))))"

text \<open>What the listener asks for each accepted stream (\<open>TcpListener._handle_client\<close>).\<close>

definition server_security ::
    "ssl_context option \<Rightarrow> identity_resolver option \<Rightarrow> stream_info \<Rightarrow> exn + security_info" where
  "server_security ctx resolver w =
     (case ctx of
        None \<Rightarrow> Inr unsecured
      | Some c \<Rightarrow> security_info_from_writer w (ctx_verify c \<noteq> CERT_NONE) resolver None (ctx_verify c = CERT_REQUIRED))"

section \<open>Lemmas\<close>

lemma default_client_context_verifies:
  "default_client_context fs ca d = Inr c \<Longrightarrow> ctx_verify c = CERT_REQUIRED \<and> ctx_roots c \<noteq> []"
  by (auto simp: default_client_context_def load_verify_locations_def client_protocol_context_def res_simps split: if_split_asm option.splits)

text \<open>The client context verifies the peer and its name as the settings say, the server context
  requires a certificate as they say, and none accepts versions before TLS 1.2.\<close>

lemma client_context_policy:
  assumes "create_client_context fs c = Inr x"
  shows "(ctx_verify x \<noteq> CERT_NONE) = tls_verify_peer c" "tls_verify_peer c \<Longrightarrow> ctx_check_hostname x = tls_check_hostname c"
    "\<not> tls_verify_peer c \<Longrightarrow> \<not> ctx_check_hostname x" "ctx_minimum x = TLSv1_2"
    "ctx_chain x = Some (tls_certfile c, tls_keyfile c)" "tls_verify_peer c \<Longrightarrow> ctx_roots x \<noteq> []"
  using assms
  by (auto simp: create_client_context_def load_cert_chain_def set_check_hostname_def set_verify_mode_def res_simps
      split: if_split_asm dest: default_client_context_verifies)

lemma server_context_policy:
  assumes "create_server_context fs c = Inr x"
  shows "(ctx_verify x = CERT_REQUIRED) = tls_require_client_certificate c" "ctx_verify x \<noteq> CERT_OPTIONAL"
    "ctx_minimum x = TLSv1_2" "tls_require_client_certificate c \<Longrightarrow> ctx_roots x \<noteq> []"
  using assms
  by (auto simp: create_server_context_def load_cert_chain_def set_verify_mode_def load_verify_locations_def
      server_protocol_context_def res_simps split: if_split_asm option.splits)

lemma resolve_identity_SomeD:
  "resolve_identity resolver cert = Inr (Some i) \<Longrightarrow>
     i \<noteq> [] \<and> (\<exists>f kvs. resolver = Some f \<and> cert = PDict kvs \<and> f (PDict kvs) = Inr (PStr i))"
  by (auto simp: resolve_identity_def res_simps split: option.split_asm pyval.split_asm if_split_asm)

lemma security_metadata_name:
  "dget (security_metadata t authed name) (lit ''verified_server_name'') \<noteq> PNone \<longleftrightarrow> authed \<and> name \<noteq> None"
  by (auto simp: security_metadata_def dget_def split: option.split)

lemma security_info_cases:
  assumes "security_info_from_writer w auth resolver name required = Inr si"
  obtains t where "has_extra_info w" "ssl_object w = Some t"
    "authenticated si \<longleftrightarrow> auth \<and> py_truth (peer_cert t) \<and> py_truth (peer_cert_binary t)"
    "required \<Longrightarrow> auth \<Longrightarrow> authenticated si" "encrypted si"
    "if authenticated si then resolve_identity resolver (peer_cert t) = Inr (authenticated_peer_id si)
     else authenticated_peer_id si = None"
    "sec_metadata si = security_metadata t (authenticated si) name"
  using assms by (auto simp: security_info_from_writer_def Let_def res_simps split: if_split_asm)

section \<open>Properties\<close>

text \<open>C34 No stream gets more trust than TLS gave it: an accepted stream is reported authenticated only if
  the listener's context verifies certificates and the client presented one, always so where the
  context requires it; its logical identity is a non-empty text the resolver answered for that
  certificate, and none without authentication.\<close>

theorem tls_identity_verified:
  assumes "server_security (Some c) resolver w = Inr si"
  shows "encrypted si \<and> (ctx_verify c = CERT_REQUIRED \<longrightarrow> authenticated si)
    \<and> (authenticated si \<longrightarrow> ctx_verify c \<noteq> CERT_NONE
          \<and> (\<exists>t. ssl_object w = Some t \<and> py_truth (peer_cert t) \<and> py_truth (peer_cert_binary t)))
    \<and> (\<forall>i. authenticated_peer_id si = Some i \<longrightarrow> authenticated si \<and> i \<noteq> []
          \<and> (\<exists>t f. ssl_object w = Some t \<and> resolver = Some f \<and> f (peer_cert t) = Inr (PStr i)))"
proof -
  let ?auth = "ctx_verify c \<noteq> CERT_NONE" and ?required = "ctx_verify c = CERT_REQUIRED"
  have "security_info_from_writer w ?auth resolver None ?required = Inr si"
    using assms by (simp add: server_security_def)
  then show ?thesis
  proof (cases rule: security_info_cases)
    case (1 t)
    have "authenticated si \<and> i \<noteq> [] \<and> (\<exists>f. resolver = Some f \<and> f (peer_cert t) = Inr (PStr i))"
      if "authenticated_peer_id si = Some i" for i
      using 1(6) that resolve_identity_SomeD [of resolver "peer_cert t" i] by (auto split: if_split_asm)
    with 1(2-5) show ?thesis by auto
  qed
qed

definition demo_tls :: stream_info where
  "demo_tls = \<lparr>has_extra_info = True, ssl_object = Some \<lparr>peer_cert = PDict [(PStr [115], PStr [110])],
     peer_cert_binary = PBytes [1], negotiated_version = PNone, negotiated_cipher = None\<rparr>\<rparr>"

theorem tls_identity_verified_witness:
  "\<exists>si. server_security (Some (server_protocol_context\<lparr>ctx_verify := CERT_REQUIRED\<rparr>)) (Some (\<lambda>_. Inr (PStr [97]))) demo_tls = Inr si
     \<and> authenticated si \<and> authenticated_peer_id si = Some [97]"
proof -
  let ?c = "server_protocol_context\<lparr>ctx_verify := CERT_REQUIRED\<rparr>" and ?f = "\<lambda>_. Inr (PStr [97])"
  obtain si where si: "server_security (Some ?c) (Some ?f) demo_tls = Inr si" "authenticated_peer_id si = Some [97]"
    by (simp add: server_security_def security_info_from_writer_def demo_tls_def resolve_identity_def)
  with tls_identity_verified [OF si(1)] show ?thesis by simp
qed

end
