(* ===== verification/LanTransport.thy ===== *)
theory LanTransport
  imports LanListener LanFraming LanSecurity
begin

text \<open>
  The LAN transport: \<open>LanTransport\<close> of \<open>src/paqto/lan/transport.py\<close>. Connections and listeners
  are numbers. \<open>connect\<close> is cut at its await: \<open>open_begin\<close> checks and remembers the lifecycle
  generation (\<open>connecting\<close>), \<open>open_end\<close> goes on with the outcome of opening the stream. Four
  fields record what happened: connections returned to callers, connections and listeners the
  transport called \<open>close()\<close> on, and listeners it created.

  The lemmas: while started with TLS, the contexts in use are those of the settings; whatever the
  transport returned it still owns, or it is closed, or the transport called \<open>close()\<close> on it; and
  a connection that finishes opening in a later generation is closed and not returned.
\<close>

section \<open>State\<close>

record transport_settings =
  bind_host :: pystr
  bind_port :: int
  frame_size_setting :: pyval
  payload_timeout_setting :: pyval
  pending_setting :: pyval
  advertised_setting :: pyval
  tls_setting :: "tls_config option"
  contexts_setting :: "tls_context_config option"

text \<open>Arguments \<open>tls\<close> and \<open>tls_contexts\<close>: absent, of the right class, or of another one.\<close>

datatype 'a object_arg = Absent | Instance 'a | WrongClass

definition check_instance :: "'a object_arg \<Rightarrow> exn + 'a option" where
  "check_instance a = (case a of Absent \<Rightarrow> Inr None | Instance x \<Rightarrow> Inr (Some x) | WrongClass \<Rightarrow> Inl TypeError)"

definition new_transport_settings ::
    "pystr \<Rightarrow> int \<Rightarrow> pyval \<Rightarrow> tls_config object_arg \<Rightarrow> pyval \<Rightarrow> pyval \<Rightarrow> pyval \<Rightarrow> tls_context_config object_arg \<Rightarrow>
     exn + transport_settings" where
  "new_transport_settings host port frame_size tls pending payload_timeout advertised contexts =
     rbind (validate_max_frame_size frame_size) (\<lambda>_.
     rbind (validate_frame_payload_timeout payload_timeout) (\<lambda>_.
     rbind (opt_res TypeError (strict_int pending)) (\<lambda>k.
     rbind (guard (0 < k) ValueError) (\<lambda>_.
     rbind (check_instance tls) (\<lambda>c.
     rbind (check_instance contexts) (\<lambda>cc.
     rbind (guard (c = None \<or> cc = None) ValueError) (\<lambda>_.
       Inr \<lparr>bind_host = host, bind_port = port, frame_size_setting = frame_size,
            payload_timeout_setting = payload_timeout, pending_setting = pending, advertised_setting = advertised,
            tls_setting = c, contexts_setting = cc\<rparr>)))))))"

record transport =
  tr_settings :: transport_settings
  tr_started :: bool
  tr_generation :: nat
  tr_listeners :: "nat list"
  tr_connections :: "tcp_conn list"
  tr_client_ctx :: "ssl_context option"
  tr_server_ctx :: "ssl_context option"
  tr_returned :: "tcp_conn list"
  tr_close_calls :: "tcp_conn list"
  tr_created :: "nat list"
  tr_listener_closes :: "nat list"

definition new_transport :: "transport_settings \<Rightarrow> transport" where
  "new_transport s = \<lparr>tr_settings = s, tr_started = False, tr_generation = 0, tr_listeners = [], tr_connections = [],
     tr_client_ctx = None, tr_server_ctx = None, tr_returned = [], tr_close_calls = [], tr_created = [],
     tr_listener_closes = []\<rparr>"

section \<open>What the settings say about TLS\<close>

definition tls_enabled :: "transport_settings \<Rightarrow> bool" where
  "tls_enabled s \<longleftrightarrow> tls_setting s \<noteq> None \<or> contexts_setting s \<noteq> None"

definition by_tls :: "(tls_config \<Rightarrow> 'a) \<Rightarrow> (tls_context_config \<Rightarrow> 'a) \<Rightarrow> 'a \<Rightarrow> transport_settings \<Rightarrow> 'a" where
  "by_tls f g z s = (case tls_setting s of Some c \<Rightarrow> f c
     | None \<Rightarrow> (case contexts_setting s of Some c \<Rightarrow> g c | None \<Rightarrow> z))"

definition transport_verify_peer :: "transport_settings \<Rightarrow> bool" where
  "transport_verify_peer = by_tls tls_verify_peer context_verify_peer False"

definition transport_check_hostname :: "transport_settings \<Rightarrow> bool" where
  "transport_check_hostname = by_tls tls_check_hostname context_check_hostname False"

definition transport_resolver :: "transport_settings \<Rightarrow> identity_resolver option" where
  "transport_resolver = by_tls tls_resolver context_resolver None"

definition transport_handshake_timeout :: "transport_settings \<Rightarrow> pyval" where
  "transport_handshake_timeout = by_tls tls_timeout context_timeout PNone"

section \<open>Lifecycle\<close>

text \<open>\<open>start\<close>: \<open>ssl.SSLError\<close> is an \<open>OSError\<close>.\<close>

definition init_failed :: "exn \<Rightarrow> transport \<Rightarrow> (exn + unit) \<times> transport" where
  "init_failed e t = (if exn_in e [OSError, ValueError]
     then (Inl TransportError, t\<lparr>tr_client_ctx := None, tr_server_ctx := None\<rparr>) else (Inl e, t))"

definition started_now :: "transport \<Rightarrow> (exn + unit) \<times> transport" where
  "started_now t = (Inr (), t\<lparr>tr_generation := tr_generation t + 1, tr_started := True\<rparr>)"

definition start_transport :: "tls_files \<Rightarrow> transport \<Rightarrow> (exn + unit) \<times> transport" where
  "start_transport fs t =
     (if tr_started t then (Inr (), t)
      else (case tls_setting (tr_settings t) of
          Some c \<Rightarrow>
            (case create_client_context fs c of
               Inl e \<Rightarrow> init_failed e t
             | Inr client \<Rightarrow>
                 let t1 = t\<lparr>tr_client_ctx := Some client\<rparr> in
                 (case create_server_context fs c of
                    Inl e \<Rightarrow> init_failed e t1
                  | Inr server \<Rightarrow> started_now (t1\<lparr>tr_server_ctx := Some server\<rparr>)))
        | None \<Rightarrow>
            (case contexts_setting (tr_settings t) of
               Some cc \<Rightarrow> started_now (t\<lparr>tr_client_ctx := Some (client_context cc), tr_server_ctx := Some (server_context cc)\<rparr>)
             | None \<Rightarrow> started_now t)))"

definition stop_transport :: "transport \<Rightarrow> transport" where
  "stop_transport t = t\<lparr>tr_started := False, tr_generation := tr_generation t + 1, tr_listeners := [], tr_connections := [],
     tr_client_ctx := None, tr_server_ctx := None,
     tr_close_calls := tr_close_calls t @ tr_connections t, tr_listener_closes := tr_listener_closes t @ tr_listeners t\<rparr>"

section \<open>Listeners\<close>

record listener_args =
  la_host :: pystr
  la_port :: int
  la_metadata :: metadata
  la_context :: "ssl_context option"
  la_resolver :: "identity_resolver option"
  la_timeout :: pyval

text \<open>\<open>n\<close> numbers the new listener; the result holds its arguments and its state.\<close>

definition create_listener ::
    "url_rt \<Rightarrow> nat \<Rightarrow> endpoint option \<Rightarrow> transport \<Rightarrow> (exn + listener_args \<times> listener) \<times> transport" where
  "create_listener u n bind t =
     (let s = tr_settings t; r =
        rbind (guard (tr_started t) TransportError) (\<lambda>_.
        rbind (case bind of
            None \<Rightarrow> Inr (bind_host s, bind_port s, [])
          | Some e \<Rightarrow> rbind (guard (ep_transport e = TRANSPORT_NAME) TransportError) (\<lambda>_.
              rbind (parse_tcp_address u (ep_address e)) (\<lambda>a. Inr (tcp_host a, tcp_port a, ep_metadata e)))) (\<lambda>(h, p, md).
        rbind (new_listener (frame_size_setting s) (payload_timeout_setting s) (pending_setting s)) (\<lambda>l.
          Inr (\<lparr>la_host = h, la_port = p, la_metadata = md, la_context = tr_server_ctx t,
                la_resolver = transport_resolver s, la_timeout = transport_handshake_timeout s\<rparr>, l))))
      in (r, case r of Inl _ \<Rightarrow> t
           | Inr _ \<Rightarrow> t\<lparr>tr_listeners := tr_listeners t @ [n], tr_created := tr_created t @ [n]\<rparr>))"

section \<open>Connecting\<close>

record connecting =
  cg_endpoint :: endpoint
  cg_host :: pystr
  cg_port :: int
  cg_generation :: nat
  cg_context :: "ssl_context option"

definition open_begin :: "url_rt \<Rightarrow> endpoint \<Rightarrow> transport \<Rightarrow> exn + connecting" where
  "open_begin u e t =
     rbind (guard (tr_started t) TransportError) (\<lambda>_.
     rbind (guard (ep_transport e = TRANSPORT_NAME) TransportError) (\<lambda>_.
     rbind (parse_tcp_address u (ep_address e)) (\<lambda>a.
       Inr \<lparr>cg_endpoint = e, cg_host = tcp_host a, cg_port = tcp_port a, cg_generation = tr_generation t,
            cg_context = (if tls_enabled (tr_settings t) then tr_client_ctx t else None)\<rparr>)))"

definition client_security :: "connecting \<Rightarrow> stream_info \<Rightarrow> transport_settings \<Rightarrow> exn + security_info" where
  "client_security pc w s =
     (if tls_enabled s
      then security_info_from_writer w (transport_verify_peer s) (transport_resolver s)
             (if transport_check_hostname s then Some (cg_host pc) else None) True
      else Inr unsecured)"

record opened_connection =
  oc_local :: endpoint
  oc_remote :: endpoint
  oc_security :: security_info
  oc_tcp :: tcp

definition wrap_connection ::
    "url_rt \<Rightarrow> connecting \<Rightarrow> stream_info \<Rightarrow> pyval \<Rightarrow> stream \<Rightarrow> transport_settings \<Rightarrow> exn + opened_connection" where
  "wrap_connection u pc w sockname input s =
     rbind (client_security pc w s) (\<lambda>si.
     rbind (endpoint_from_sockname u sockname []) (\<lambda>local.
     rbind (new_tcp input (frame_size_setting s) (payload_timeout_setting s)) (\<lambda>conn.
       Inr \<lparr>oc_local = local, oc_remote = cg_endpoint pc, oc_security = si, oc_tcp = conn\<rparr>)))"

text \<open>
  \<open>c\<close> numbers the stream and \<open>waited\<close> is how \<open>wait_closed()\<close> of its writer ends after
  \<open>close()\<close>: three classes of exceptions are dropped, any other one replaces the error.
\<close>

definition after_close :: "exn + unit \<Rightarrow> exn \<Rightarrow> exn" where
  "after_close waited e = (case waited of Inr _ \<Rightarrow> e
     | Inl x \<Rightarrow> if exn_in x [BuiltinConnectionError, OSError, RuntimeError] then e else x)"

definition close_writer :: "tcp_conn \<Rightarrow> transport \<Rightarrow> transport" where
  "close_writer c t = t\<lparr>tr_close_calls := tr_close_calls t @ [c]\<rparr>"

definition open_end ::
    "url_rt \<Rightarrow> tcp_conn set \<Rightarrow> tcp_conn \<Rightarrow> connecting \<Rightarrow> exn + stream_info \<Rightarrow> pyval \<Rightarrow> stream \<Rightarrow> exn + unit \<Rightarrow> transport \<Rightarrow>
     (exn + opened_connection) \<times> transport" where
  "open_end u gone c pc opened sockname input waited t =
     (case opened of
        Inl e \<Rightarrow> (Inl (if exn_isa e TimeoutError then e else if exn_isa e OSError then TransportError else e), t)
      | Inr w \<Rightarrow>
          if \<not> tr_started t \<or> tr_generation t \<noteq> cg_generation pc
          then (Inl (after_close waited TransportError), close_writer c t)
          else (case wrap_connection u pc w sockname input (tr_settings t) of
              Inl e \<Rightarrow> if exn_isa e ExceptionClass then (Inl (after_close waited e), close_writer c t) else (Inl e, t)
            | Inr conn \<Rightarrow>
                (Inr conn, t\<lparr>tr_connections := filter (\<lambda>x. x \<notin> gone) (tr_connections t) @ [c],
                             tr_returned := tr_returned t @ [c]\<rparr>)))"

section \<open>The transport as a machine\<close>

inductive transport_step :: "transport \<times> tcp_conn set \<Rightarrow> transport \<times> tcp_conn set \<Rightarrow> bool" where
  starts: "transport_step (t, g) (snd (start_transport fs t), g)"
| stops: "transport_step (t, g) (stop_transport t, g)"
| listens: "transport_step (t, g) (snd (create_listener u n bind t), g)"
| connects: "transport_step (t, g) (snd (open_end u g c pc opened sockname input waited t), g)"
| connection_closes: "transport_step (t, g) (t, insert c g)"

definition contexts_ok :: "transport \<Rightarrow> bool" where
  "contexts_ok t \<longleftrightarrow>
     (tr_started t \<and> tls_enabled (tr_settings t) \<longrightarrow>
        (\<exists>c. tr_client_ctx t = Some c \<and> (ctx_verify c \<noteq> CERT_NONE) = transport_verify_peer (tr_settings t)
           \<and> (transport_verify_peer (tr_settings t) \<longrightarrow> ctx_check_hostname c = transport_check_hostname (tr_settings t)))
        \<and> tr_server_ctx t \<noteq> None)"

definition owns :: "tcp_conn set \<Rightarrow> transport \<Rightarrow> bool" where
  "owns g t \<longleftrightarrow> set (tr_returned t) \<subseteq> set (tr_connections t) \<union> g \<union> set (tr_close_calls t)
     \<and> set (tr_created t) \<subseteq> set (tr_listeners t) \<union> set (tr_listener_closes t)
     \<and> (\<not> tr_started t \<longrightarrow> tr_connections t = [] \<and> tr_listeners t = [])"

definition transport_ok :: "transport_settings \<Rightarrow> transport \<times> tcp_conn set \<Rightarrow> bool" where
  "transport_ok s tg \<longleftrightarrow> tr_settings (fst tg) = s \<and> contexts_ok (fst tg) \<and> owns (snd tg) (fst tg)"

lemma start_keeps [simp]: "tr_settings (snd (start_transport fs t)) = tr_settings t"
  "tr_connections (snd (start_transport fs t)) = tr_connections t" "tr_listeners (snd (start_transport fs t)) = tr_listeners t"
  "tr_returned (snd (start_transport fs t)) = tr_returned t" "tr_created (snd (start_transport fs t)) = tr_created t"
  "tr_close_calls (snd (start_transport fs t)) = tr_close_calls t"
  "tr_listener_closes (snd (start_transport fs t)) = tr_listener_closes t"
  by (simp_all add: start_transport_def init_failed_def started_now_def Let_def split: option.split sum.split)

lemma start_contexts_ok:
  assumes "contexts_ok t"
  shows "contexts_ok (snd (start_transport fs t))"
proof (cases "tr_started t")
  case False
  then show ?thesis
    by (auto simp: start_transport_def init_failed_def started_now_def contexts_ok_def Let_def tls_enabled_def
        transport_verify_peer_def transport_check_hostname_def by_tls_def context_verify_peer_def context_check_hostname_def
        client_context_policy split: option.split sum.split)
qed (use assms in \<open>simp add: start_transport_def\<close>)

lemma start_started: "tr_started t \<Longrightarrow> snd (start_transport fs t) = t"
  by (simp add: start_transport_def)

lemma start_owns:
  assumes "owns g t"
  shows "owns g (snd (start_transport fs t))"
proof (cases "tr_started t")
  case False
  with assms have "tr_connections t = [] \<and> tr_listeners t = []" by (simp add: owns_def)
  with assms show ?thesis by (simp add: owns_def)
qed (use assms in \<open>simp add: start_started\<close>)

lemma listener_created: "snd (create_listener u n bind t) = t \<or> tr_started t \<and>
    snd (create_listener u n bind t) = t\<lparr>tr_listeners := tr_listeners t @ [n], tr_created := tr_created t @ [n]\<rparr>"
  by (auto simp: create_listener_def Let_def split: sum.split elim!: rbind_InrE simp: res_simps)

lemma open_end_effect:
  "snd (open_end u g c pc opened sockname input waited t) = t
   \<or> snd (open_end u g c pc opened sockname input waited t) = close_writer c t
   \<or> tr_started t \<and> snd (open_end u g c pc opened sockname input waited t) =
       t\<lparr>tr_connections := filter (\<lambda>x. x \<notin> g) (tr_connections t) @ [c], tr_returned := tr_returned t @ [c]\<rparr>"
  by (auto simp: open_end_def split: sum.split)

lemma open_end_cases:
  obtains (same) "snd (open_end u g c pc opened sockname input waited t) = t"
  | (closed) "snd (open_end u g c pc opened sockname input waited t) = close_writer c t"
  | (returned) "tr_started t" "snd (open_end u g c pc opened sockname input waited t) =
      t\<lparr>tr_connections := filter (\<lambda>x. x \<notin> g) (tr_connections t) @ [c], tr_returned := tr_returned t @ [c]\<rparr>"
  using open_end_effect [of u g c pc opened sockname input waited t] by blast

lemma transport_step_ok:
  assumes "transport_ok s tg" "transport_step tg tg'"
  shows "transport_ok s tg'"
  using assms(2)
proof cases
  case (starts t g fs)
  with assms(1) show ?thesis by (auto simp: transport_ok_def start_contexts_ok start_owns)
next
  case (stops t g)
  with assms(1) show ?thesis by (auto simp: transport_ok_def stop_transport_def contexts_ok_def owns_def)
next
  case (listens t g u n bind)
  with assms(1) listener_created [of u n bind t] show ?thesis
    by (auto simp: transport_ok_def contexts_ok_def owns_def)
next
  case (connects t g u c pc opened sockname input waited)
  have t: "tr_settings t = s" "contexts_ok t" "owns g t" using assms(1) connects by (auto simp: transport_ok_def)
  show ?thesis
  proof (cases rule: open_end_cases [of u g c pc opened sockname input waited t])
    case same
    with t connects show ?thesis by (simp add: transport_ok_def)
  next
    case closed
    with t connects show ?thesis by (auto simp: transport_ok_def close_writer_def contexts_ok_def owns_def)
  next
    case returned
    with t connects show ?thesis by (auto simp: transport_ok_def contexts_ok_def owns_def)
  qed
next
  case (connection_closes t g c)
  with assms(1) show ?thesis by (auto simp: transport_ok_def owns_def)
qed

lemma new_transport_ok: "transport_ok s (new_transport s, {})"
  by (simp add: transport_ok_def new_transport_def contexts_ok_def owns_def)

interpretation transport_machine: machine_invariant transport_step "(new_transport s, {})" "transport_ok s" for s
  by unfold_locales (rule new_transport_ok, erule (1) transport_step_ok)

lemma step_generation:
  assumes "transport_step tg tg'"
  shows "tr_generation (fst tg) \<le> tr_generation (fst tg') \<and> tr_settings (fst tg') = tr_settings (fst tg)"
  using assms
proof cases
  case (starts t g fs)
  then show ?thesis
    by (simp add: start_transport_def init_failed_def started_now_def Let_def split: option.split sum.split)
next
  case (listens t g u n bind)
  with listener_created [of u n bind t] show ?thesis by auto
next
  case (connects t g u c pc opened sockname input waited)
  then show ?thesis
    by (cases rule: open_end_cases [of u g c pc opened sockname input waited t]) (auto simp: close_writer_def)
qed (simp_all add: stop_transport_def)

lemma generation_mono:
  "reachable transport_step tg tg' \<Longrightarrow> tr_generation (fst tg) \<le> tr_generation (fst tg') \<and> tr_settings (fst tg') = tr_settings (fst tg)"
  by (induction rule: reachable.induct) (auto dest: step_generation)

lemma open_begin_InrD:
  "open_begin u e t = Inr pc \<Longrightarrow> tr_started t \<and> cg_generation pc = tr_generation t \<and> cg_endpoint pc = e
     \<and> cg_context pc = (if tls_enabled (tr_settings t) then tr_client_ctx t else None)"
  by (auto simp: open_begin_def res_simps)

section \<open>A transport with caller-prepared contexts\<close>

definition demo_settings :: transport_settings where
  "demo_settings = \<lparr>bind_host = lit ''h'', bind_port = 0, frame_size_setting = PInt 9, payload_timeout_setting = PNone,
     pending_setting = PInt 1, advertised_setting = PNone, tls_setting = None,
     contexts_setting = Some \<lparr>client_context = client_protocol_context, server_context = server_protocol_context,
       context_resolver = None, context_timeout = PInt 1\<rparr>\<rparr>"

definition demo_started :: transport where
  "demo_started = snd (start_transport \<lparr>load_roots = (\<lambda>_ _. Inr ()), load_chain = (\<lambda>_ _. Inr ())\<rparr> (new_transport demo_settings))"

definition demo_connecting :: connecting where
  "demo_connecting = \<lparr>cg_endpoint = \<lparr>ep_transport = TRANSPORT_NAME, ep_address = lit ''tcp://h:1'', ep_metadata = []\<rparr>,
     cg_host = lit ''h'', cg_port = 1, cg_generation = 1, cg_context = Some client_protocol_context\<rparr>"

definition demo_connect :: "transport \<Rightarrow> (exn + opened_connection) \<times> transport" where
  "demo_connect t = open_end plain_url_rt {} 7 demo_connecting (Inr demo_tls) (PTuple [PStr (lit ''h''), PInt 1])
     \<lparr>in_buffer = [], in_eof = False, in_error = None\<rparr> (Inr ()) t"

lemma demo_begin: "open_begin plain_url_rt (cg_endpoint demo_connecting) demo_started = Inr demo_connecting"
  by (simp add: open_begin_def demo_connecting_def demo_started_def start_transport_def new_transport_def demo_settings_def
      started_now_def tls_enabled_def parse_tcp_address_def split_url_def split_scheme_def split_netloc_def partition_at_def
      rpartition_at_def host_and_port_def url_hostname_def url_user_def url_password_def url_port_def TCP_SCHEME_def
      ascii_lower_def ascii_letter_def scheme_char_def max_str_digits_def Let_def digits_nat_def)

lemma demo_reachable: "reachable transport_step (new_transport demo_settings, {}) (demo_started, {})"
  unfolding demo_started_def by (rule reachable.next_state [OF reachable.start], rule transport_step.starts)

lemma demo_connected_reachable:
  "reachable transport_step (new_transport demo_settings, {}) (snd (demo_connect demo_started), {})"
  unfolding demo_connect_def by (rule reachable.next_state [OF demo_reachable], rule transport_step.connects)

lemma demo_connected: "\<exists>conn. demo_connect demo_started
    = (Inr conn, demo_started\<lparr>tr_connections := [7], tr_returned := [7]\<rparr>) \<and> authenticated (oc_security conn)"
  by (simp add: demo_connect_def open_end_def demo_connecting_def demo_started_def start_transport_def new_transport_def
      demo_settings_def started_now_def tls_enabled_def wrap_connection_def client_security_def security_info_from_writer_def
      transport_verify_peer_def transport_check_hostname_def transport_resolver_def by_tls_def context_verify_peer_def
      context_check_hostname_def client_protocol_context_def demo_tls_def resolve_identity_def endpoint_from_sockname_def
      parse_sockname_def endpoint_from_host_port_def build_tcp_address_def new_tcp_def validate_max_frame_size_def
      MAX_UINT32_def validate_frame_payload_timeout_def check_optional_def)

section \<open>Properties\<close>

text \<open>Nothing the transport handed out is forgotten: whatever the interleaving of starts, stops,
  connects and listener creations, every connection returned is still owned, closed, or had
  \<open>close()\<close> called by the transport, every listener likewise, and once it is stopped none is left
  open unasked.\<close>

theorem transport_owns_connections:
  assumes "reachable transport_step (new_transport s, {}) (t, gone)"
  shows "(\<forall>c \<in> set (tr_returned t). c \<in> gone \<or> c \<in> set (tr_close_calls t) \<or> tr_started t \<and> c \<in> set (tr_connections t))
    \<and> (\<forall>n \<in> set (tr_created t). n \<in> set (tr_listener_closes t) \<or> tr_started t \<and> n \<in> set (tr_listeners t))"
  using transport_machine.holds [OF assms] by (cases "tr_started t") (auto simp: transport_ok_def owns_def)

theorem transport_owns_connections_witness:
  "7 \<in> set (tr_returned (stop_transport (snd (demo_connect demo_started))))
    \<and> 7 \<in> set (tr_close_calls (stop_transport (snd (demo_connect demo_started))))"
proof -
  have "reachable transport_step (new_transport demo_settings, {}) (stop_transport (snd (demo_connect demo_started)), {})"
    by (rule reachable.next_state [OF demo_connected_reachable], rule transport_step.stops)
  moreover have "7 \<in> set (tr_returned (stop_transport (snd (demo_connect demo_started))))"
    using demo_connected by (auto simp: stop_transport_def)
  ultimately show ?thesis
    using transport_owns_connections [of demo_settings "stop_transport (snd (demo_connect demo_started))" "{}"]
    by (auto simp: stop_transport_def)
qed

text \<open>C33 A connection that finishes opening after the transport stopped, be it started again in
  between, is closed and not returned into the newer lifecycle: the caller gets an error and the
  transport owns no more than before.\<close>

theorem stale_connection_closed:
  assumes "open_begin u e t = Inr pc" "reachable transport_step (stop_transport t, g) (t', g')"
  shows "open_end u g' c pc (Inr w) sockname input waited t' =
      (Inl (after_close waited TransportError), close_writer c t')
    \<and> c \<in> set (tr_close_calls (close_writer c t')) \<and> tr_connections (close_writer c t') = tr_connections t'"
proof -
  have "tr_generation t < tr_generation t'"
    using generation_mono [OF assms(2)] by (simp add: stop_transport_def)
  with open_begin_InrD [OF assms(1)] show ?thesis by (simp add: open_end_def close_writer_def)
qed

theorem stale_connection_closed_witness:
  "demo_connect (snd (start_transport \<lparr>load_roots = (\<lambda>_ _. Inr ()), load_chain = (\<lambda>_ _. Inr ())\<rparr> (stop_transport demo_started)))
     = (Inl TransportError, close_writer 7 (snd (start_transport \<lparr>load_roots = (\<lambda>_ _. Inr ()), load_chain = (\<lambda>_ _. Inr ())\<rparr>
         (stop_transport demo_started))))"
proof -
  let ?t = "snd (start_transport \<lparr>load_roots = (\<lambda>_ _. Inr ()), load_chain = (\<lambda>_ _. Inr ())\<rparr> (stop_transport demo_started))"
  have "reachable transport_step (stop_transport demo_started, {}) (?t, {})"
    by (rule reachable.next_state [OF reachable.start], rule transport_step.starts)
  from stale_connection_closed [OF demo_begin this] show ?thesis
    by (simp add: demo_connect_def after_close_def)
qed

text \<open>With TLS on, a connection returned by \<open>connect\<close> is encrypted, reported authenticated exactly if
  the settings ask to verify peers, and then only because the context its handshake used verifies
  certificates; it names a verified server only if that context checked the name.\<close>

theorem outgoing_authentication:
  assumes "reachable transport_step (new_transport s, {}) (t, g)" "open_begin u e t = Inr pc" "tls_enabled s"
    and "reachable transport_step (t, g) (t', g')"
    and "open_end u g' c pc (Inr w) sockname input waited t' = (Inr conn, t'')"
  shows "\<exists>ctx. cg_context pc = Some ctx \<and> encrypted (oc_security conn)
    \<and> authenticated (oc_security conn) = transport_verify_peer s
    \<and> (authenticated (oc_security conn) \<longrightarrow> ctx_verify ctx \<noteq> CERT_NONE)
    \<and> (dget (sec_metadata (oc_security conn)) (lit ''verified_server_name'') \<noteq> PNone \<longrightarrow> ctx_check_hostname ctx)
    \<and> (authenticated_peer_id (oc_security conn) \<noteq> None \<longrightarrow> authenticated (oc_security conn))"
proof -
  have t: "tr_settings t = s" "contexts_ok t"
    using transport_machine.holds [OF assms(1)] by (auto simp: transport_ok_def)
  with open_begin_InrD [OF assms(2)] assms(3) obtain ctx where ctx: "cg_context pc = Some ctx"
      "(ctx_verify ctx \<noteq> CERT_NONE) = transport_verify_peer s"
      "transport_verify_peer s \<Longrightarrow> ctx_check_hostname ctx = transport_check_hostname s"
    by (auto simp: contexts_ok_def)
  have "tr_settings t' = s" using generation_mono [OF assms(4)] t(1) by simp
  then have "client_security pc w s = Inr (oc_security conn)"
    using assms(5) by (auto simp: open_end_def wrap_connection_def res_simps split: if_split_asm sum.split_asm)
  then have "security_info_from_writer w (transport_verify_peer s) (transport_resolver s)
      (if transport_check_hostname s then Some (cg_host pc) else None) True = Inr (oc_security conn)"
    using assms(3) by (simp add: client_security_def)
  then show ?thesis
  proof (cases rule: security_info_cases)
    case (1 obj)
    then show ?thesis
      using ctx security_metadata_name [of obj "authenticated (oc_security conn)"] by (auto split: if_split_asm)
  qed
qed

theorem outgoing_authentication_witness:
  "\<exists>conn. fst (demo_connect demo_started) = Inr conn \<and> encrypted (oc_security conn) \<and> authenticated (oc_security conn)"
proof -
  obtain conn t where c: "demo_connect demo_started = (Inr conn, t)" "authenticated (oc_security conn)"
    using demo_connected by blast
  have "tls_enabled demo_settings" by (simp add: tls_enabled_def demo_settings_def)
  from outgoing_authentication [OF demo_reachable demo_begin this reachable.start c(1) [unfolded demo_connect_def]] c
  show ?thesis by auto
qed

end
