(* ===== verification/LanDiscovery.thy ===== *)
theory LanDiscovery
  imports LanAddress SafeJson Models Machines
begin

text \<open>
  UDP discovery: \<open>src/paqto/lan/discovery.py\<close>. The state is that of \<open>LanDiscovery\<close>: its settings,
  the local peer and endpoints while started, the cache of discovered peers, and whether the
  socket and the announcing task exist. What the socket does is given by outcomes; a packet that
  is sent is the result of the operation. The work-list check of JSON values and the hook against
  duplicate keys are copies of those of \<open>core/protocol.py\<close> and share their model.

  The lemmas: the cache is bounded, holds every peer under its own identifier and never the local
  one; an announcement that one node sent is what the other caches; the waiting time of a pass
  stays below its timeout; and one kind of malformed announcement is not ignored.
\<close>

section \<open>Settings\<close>

definition MAX_UDP_DATAGRAM_SIZE :: int where "MAX_UDP_DATAGRAM_SIZE = 65507"
definition DISCOVERY_PROTOCOL_VERSION :: int where "DISCOVERY_PROTOCOL_VERSION = 1"

definition validate_port :: "pyval \<Rightarrow> exn + int" where
  "validate_port v =
     rbind (opt_res TypeError (strict_int v)) (\<lambda>n.
     rbind (guard (\<not> (n < 0 \<or> 65535 < n)) ValueError) (\<lambda>_. Inr n))"

definition validate_positive_float :: "pyval \<Rightarrow> exn + unit" where
  "validate_positive_float v = check_number (\<lambda>x. 0 < x) v"

definition validate_non_negative_float :: "pyval \<Rightarrow> exn + unit" where
  "validate_non_negative_float v = check_number (\<lambda>x. 0 \<le> x) v"

definition validate_max_datagram_size :: "pyval \<Rightarrow> exn + nat" where
  "validate_max_datagram_size v =
     rbind (opt_res TypeError (strict_int v)) (\<lambda>n.
     rbind (guard (\<not> (n \<le> 0 \<or> MAX_UDP_DATAGRAM_SIZE < n)) ValueError) (\<lambda>_. Inr (nat n)))"

definition validate_discovered_limit :: "pyval \<Rightarrow> exn + nat" where
  "validate_discovered_limit v =
     rbind (opt_res TypeError (strict_int v)) (\<lambda>n. rbind (guard (0 < n) ValueError) (\<lambda>_. Inr (nat n)))"

type_synonym socket_address = "pystr \<times> int"

record discovery_settings =
  broadcast_address :: socket_address
  default_timeout :: pyval
  own_metadata :: metadata
  max_datagram :: nat
  discovery_ttl :: pyval
  max_discovered :: nat

definition new_settings ::
    "pyval \<Rightarrow> pyval \<Rightarrow> pyval \<Rightarrow> pyval \<Rightarrow> pyval \<Rightarrow> pyval \<Rightarrow> pystr \<Rightarrow> metadata \<Rightarrow> exn + discovery_settings" where
  "new_settings port interval timeout datagram_size ttl limit broadcast_host meta =
     rbind (validate_port port) (\<lambda>p.
     rbind (validate_positive_float interval) (\<lambda>_.
     rbind (validate_non_negative_float timeout) (\<lambda>_.
     rbind (validate_max_datagram_size datagram_size) (\<lambda>k.
     rbind (check_optional validate_positive_float ttl) (\<lambda>_.
     rbind (validate_discovered_limit limit) (\<lambda>m.
       Inr \<lparr>broadcast_address = (broadcast_host, p), default_timeout = timeout, own_metadata = meta,
            max_datagram = k, discovery_ttl = ttl, max_discovered = m\<rparr>))))))"

record lan_discovery =
  settings :: discovery_settings
  local_peer_info :: "peer option"
  local_endpoints :: "endpoint list"
  discovered :: "(pystr \<times> discovered_peer) list"
  socket_open :: bool
  announcing :: bool

definition new_discovery :: "discovery_settings \<Rightarrow> lan_discovery" where
  "new_discovery st = \<lparr>settings = st, local_peer_info = None, local_endpoints = [], discovered = [],
     socket_open = False, announcing = False\<rparr>"

section \<open>Packets\<close>

definition opt_name :: "pystr option \<Rightarrow> pyval" where
  "opt_name n = (case n of None \<Rightarrow> PNone | Some s \<Rightarrow> PStr s)"

definition encode_packet :: "pyrt \<Rightarrow> nat \<Rightarrow> pyval \<Rightarrow> exn + bytes" where
  "encode_packet rt limit v =
     (if \<not> is_safe_json_value v then Inl DiscoveryError
      else rbind (catching [RecursionError, TypeError, ValueError] DiscoveryError
             (rbind (json_dumps rt True False v) (\<lambda>t. opt_res UnicodeError (utf8_encode t)))) (\<lambda>data.
           if limit < length data then Inl DiscoveryError else Inr data))"

text \<open>The comparison with the version holds of \<open>True\<close> and \<open>1.0\<close> too.\<close>

fun equals_one :: "pyval \<Rightarrow> bool" where
  "equals_one (PInt i) = (i = 1)"
| "equals_one (PBool b) = b"
| "equals_one (PFloat (Finite q)) = (q = 1)"
| "equals_one _ = False"

definition decode_packet :: "pyrt \<Rightarrow> bytes \<Rightarrow> (exn + metadata option)" where
  "decode_packet rt data =
     (case rbind (opt_res UnicodeError (utf8_decode data)) (json_loads rt unique_json_object float_constant) of
        Inl e \<Rightarrow> if exn_in e [RecursionError, UnicodeError, ValueError] then Inr None else Inl e
      | Inr (PDict kvs) \<Rightarrow>
          if \<not> is_safe_json_value (PDict kvs) then Inr None
          else if \<not> equals_one (dget kvs (lit ''paqto'')) then Inr None
          else Inr (Some kvs)
      | Inr _ \<Rightarrow> Inr None)"

definition announce_payload :: "lan_discovery \<Rightarrow> exn + pyval" where
  "announce_payload d =
     rbind (opt_res DiscoveryError (local_peer_info d)) (\<lambda>p.
       Inr (PDict
         [(PStr (lit ''paqto''), PInt DISCOVERY_PROTOCOL_VERSION),
          (PStr (lit ''kind''), PStr (lit ''announce'')),
          (PStr (lit ''peer''), PDict
            [(PStr (lit ''id''), PStr (peer_ident p)), (PStr (lit ''name''), opt_name (peer_name p)),
             (PStr (lit ''metadata''), PDict (peer_metadata p))]),
          (PStr (lit ''endpoints''), PList (List.map (\<lambda>e. PDict
            [(PStr (lit ''transport''), PStr (ep_transport e)), (PStr (lit ''address''), PStr (ep_address e)),
             (PStr (lit ''metadata''), PDict (ep_metadata e))]) (local_endpoints d))),
          (PStr (lit ''metadata''), PDict (own_metadata (settings d)))]))"

definition discover_payload :: "peer \<Rightarrow> pyval" where
  "discover_payload p = PDict
     [(PStr (lit ''paqto''), PInt DISCOVERY_PROTOCOL_VERSION), (PStr (lit ''kind''), PStr (lit ''discover'')),
      (PStr (lit ''peer_id''), PStr (peer_ident p))]"

text \<open>Sending: \<open>sendto\<close> is the outcome of the transport's method.\<close>

type_synonym packet = "bytes \<times> socket_address"

definition send_packet ::
    "pyrt \<Rightarrow> exn + unit \<Rightarrow> pyval \<Rightarrow> socket_address \<Rightarrow> lan_discovery \<Rightarrow> exn + packet" where
  "send_packet rt sendto v addr d =
     (if \<not> socket_open d then Inl DiscoveryError
      else rbind (encode_packet rt (max_datagram (settings d)) v) (\<lambda>data.
           rbind (catching [OSError, RuntimeError] DiscoveryError sendto) (\<lambda>_. Inr (data, addr))))"

definition send_announce ::
    "pyrt \<Rightarrow> exn + unit \<Rightarrow> socket_address option \<Rightarrow> lan_discovery \<Rightarrow> exn + packet" where
  "send_announce rt sendto addr d =
     rbind (announce_payload d) (\<lambda>v.
       send_packet rt sendto v (case addr of Some a \<Rightarrow> a | None \<Rightarrow> broadcast_address (settings d)) d)"

definition send_discover :: "pyrt \<Rightarrow> exn + unit \<Rightarrow> lan_discovery \<Rightarrow> exn + packet" where
  "send_discover rt sendto d =
     rbind (opt_res DiscoveryError (local_peer_info d)) (\<lambda>p.
       send_packet rt sendto (discover_payload p) (broadcast_address (settings d)) d)"

text \<open>A sender that ignores \<open>DiscoveryError\<close>, as the announcing task and the answer to a request do.\<close>

definition ignoring :: "exn + packet \<Rightarrow> exn + packet option" where
  "ignoring r = (case r of Inr p \<Rightarrow> Inr (Some p)
     | Inl e \<Rightarrow> if exn_isa e DiscoveryError then Inr None else Inl e)"

section \<open>Parsing announcements\<close>

definition optional_dict :: "pyval \<Rightarrow> metadata option" where
  "optional_dict v = (case v of PNone \<Rightarrow> Some [] | PDict kvs \<Rightarrow> Some kvs | _ \<Rightarrow> None)"

definition parse_peer :: "pyval \<Rightarrow> peer option" where
  "parse_peer v =
     (case v of
        PDict kvs \<Rightarrow>
          Option.bind (nonempty_str (dget kvs (lit ''id''))) (\<lambda>i.
          Option.bind (case dget kvs (lit ''name'') of PNone \<Rightarrow> Some None | PStr s \<Rightarrow> Some (Some s) | _ \<Rightarrow> None) (\<lambda>name.
          Option.bind (optional_dict (dget kvs (lit ''metadata''))) (\<lambda>md.
            Some \<lparr>peer_ident = i, peer_name = name, peer_metadata = md\<rparr>)))
      | _ \<Rightarrow> None)"

text \<open>\<open>except TransportError: return None\<close>: every other exception goes on.\<close>

definition address_accepted :: "url_rt \<Rightarrow> pystr \<Rightarrow> exn + bool" where
  "address_accepted u a =
     (case parse_tcp_address u a of
        Inr _ \<Rightarrow> Inr True
      | Inl e \<Rightarrow> if exn_isa e TransportError then Inr False else Inl e)"

definition parse_endpoint :: "url_rt \<Rightarrow> pyval \<Rightarrow> exn + endpoint option" where
  "parse_endpoint u v =
     (case v of
        PDict kvs \<Rightarrow>
          if dget kvs (lit ''transport'') \<noteq> PStr TRANSPORT_NAME then Inr None
          else (case as_str (dget kvs (lit ''address'')) of
              None \<Rightarrow> Inr None
            | Some a \<Rightarrow> rbind (address_accepted u a) (\<lambda>ok.
                if \<not> ok then Inr None
                else Inr (map_option (\<lambda>md. \<lparr>ep_transport = TRANSPORT_NAME, ep_address = a, ep_metadata = md\<rparr>)
                       (optional_dict (dget kvs (lit ''metadata''))))))
      | _ \<Rightarrow> Inr None)"

definition parse_endpoints :: "url_rt \<Rightarrow> pyval \<Rightarrow> exn + endpoint list option" where
  "parse_endpoints u v =
     (case v of
        PList vs \<Rightarrow> rbind (rmap (parse_endpoint u) vs) (\<lambda>es. Inr (Some (List.map_filter (\<lambda>x. x) es)))
      | _ \<Rightarrow> Inr None)"

definition copy_valid_endpoint :: "url_rt \<Rightarrow> endpoint \<Rightarrow> exn + endpoint option" where
  "copy_valid_endpoint u e =
     (if ep_transport e \<noteq> TRANSPORT_NAME then Inr None
      else rbind (address_accepted u (ep_address e)) (\<lambda>ok.
        Inr (if ok then Some \<lparr>ep_transport = TRANSPORT_NAME, ep_address = ep_address e,
                              ep_metadata = ep_metadata e\<rparr> else None)))"

section \<open>Receiving\<close>

text \<open>\<open>_prune_expired\<close>: a check of freshness may move an observation's anchor.\<close>

fun prune_entries ::
    "clock \<Rightarrow> pyval \<Rightarrow> (pystr \<times> discovered_peer) list \<Rightarrow> exn + (pystr \<times> discovered_peer) list" where
  "prune_entries now ttl [] = Inr []"
| "prune_entries now ttl ((k, x) # xs) =
     (case is_fresh now ttl x of (x', verdict) \<Rightarrow>
        rbind verdict (\<lambda>fresh. rbind (prune_entries now ttl xs) (\<lambda>ys.
          Inr (if fresh then (k, x') # ys else ys))))"

definition prune_expired :: "clock \<Rightarrow> lan_discovery \<Rightarrow> (exn + unit) \<times> lan_discovery" where
  "prune_expired now d =
     (if discovery_ttl (settings d) = PNone then (Inr (), d)
      else (case prune_entries now (discovery_ttl (settings d)) (discovered d) of
          Inl e \<Rightarrow> (Inl e, d) | Inr xs \<Rightarrow> (Inr (), d\<lparr>discovered := xs\<rparr>)))"

definition handle_announce :: "url_rt \<Rightarrow> clock \<Rightarrow> metadata \<Rightarrow> lan_discovery \<Rightarrow> (exn + unit) \<times> lan_discovery" where
  "handle_announce u now kvs d =
     (case (local_peer_info d, parse_peer (dget kvs (lit ''peer''))) of
        (Some me, Some p) \<Rightarrow>
          if peer_ident p = peer_ident me then (Inr (), d)
          else (case parse_endpoints u (dget kvs (lit ''endpoints'')) of
              Inl e \<Rightarrow> (Inl e, d)
            | Inr None \<Rightarrow> (Inr (), d)
            | Inr (Some es) \<Rightarrow>
                (case optional_dict (dget kvs (lit ''metadata'')) of
                   None \<Rightarrow> (Inr (), d)
                 | Some md \<Rightarrow>
                     (case map_of (discovered d) (peer_ident p) of
                        None \<Rightarrow>
                          (case prune_expired now d of
                             (Inl e, d') \<Rightarrow> (Inl e, d')
                           | (Inr _, d') \<Rightarrow>
                               (Inr (), if max_discovered (settings d') \<le> length (discovered d') then d'
                                        else d'\<lparr>discovered := dput (peer_ident p)
                                          (new_discovered now p es (utc_dt (utc_now now)) md) (discovered d')\<rparr>))
                      | Some x \<Rightarrow>
                          (Inr (), d\<lparr>discovered := dput (peer_ident p)
                             (touch now (x\<lparr>disc_peer := p, endpoints := es, disc_metadata := md\<rparr>))
                             (discovered d)\<rparr>))))
      | _ \<Rightarrow> (Inr (), d))"

definition socket_address_of :: "pyval \<Rightarrow> socket_address option" where
  "socket_address_of v =
     (case v of
        PTuple [PStr h, PInt n] \<Rightarrow> Some (h, n)
      | PTuple [PStr h, PBool b] \<Rightarrow> Some (h, if b then 1 else 0)
      | _ \<Rightarrow> None)"

definition handle_discover ::
    "pyrt \<Rightarrow> exn + unit \<Rightarrow> metadata \<Rightarrow> pyval \<Rightarrow> lan_discovery \<Rightarrow> exn + packet option" where
  "handle_discover rt sendto kvs addr d =
     (case (local_peer_info d, as_str (dget kvs (lit ''peer_id'')), socket_address_of addr) of
        (Some me, Some i, Some a) \<Rightarrow>
          if i = peer_ident me then Inr None else ignoring (send_announce rt sendto (Some a) d)
      | _ \<Rightarrow> Inr None)"

definition datagram_received ::
    "pyrt \<Rightarrow> url_rt \<Rightarrow> exn + unit \<Rightarrow> clock \<Rightarrow> bytes \<Rightarrow> pyval \<Rightarrow> lan_discovery \<Rightarrow>
     (exn + packet option) \<times> lan_discovery" where
  "datagram_received rt u sendto now data addr d =
     (if max_datagram (settings d) < length data then (Inr None, d)
      else (case decode_packet rt data of
          Inl e \<Rightarrow> (Inl e, d)
        | Inr None \<Rightarrow> (Inr None, d)
        | Inr (Some kvs) \<Rightarrow>
            (let kind = dget kvs (lit ''kind'') in
             if kind = PStr (lit ''discover'') then (handle_discover rt sendto kvs addr d, d)
             else if kind = PStr (lit ''announce'') then
               (case handle_announce u now kvs d of
                  (r, d') \<Rightarrow> (rbind r (\<lambda>_. Inr None), d'))
             else (Inr None, d))))"

section \<open>Lifecycle\<close>

definition copy_peer :: "pyval \<Rightarrow> pyval \<Rightarrow> metadata \<Rightarrow> exn + peer" where
  "copy_peer i name md =
     rbind (opt_res DiscoveryError (as_str i)) (\<lambda>s.
     rbind (if name = PNone then Inr None else rbind (opt_res DiscoveryError (as_str name)) (\<lambda>n. Inr (Some n))) (\<lambda>n.
       Inr \<lparr>peer_ident = s, peer_name = n, peer_metadata = md\<rparr>))"

definition clear_local_state :: "lan_discovery \<Rightarrow> lan_discovery" where
  "clear_local_state d = d\<lparr>local_peer_info := None, local_endpoints := []\<rparr>"

text \<open>\<open>_start\<close>: the outcomes are those of creating the socket and the datagram endpoint.\<close>

definition start_discovery ::
    "pyrt \<Rightarrow> url_rt \<Rightarrow> exn + unit \<Rightarrow> exn + unit \<Rightarrow> pyval \<Rightarrow> pyval \<Rightarrow> metadata \<Rightarrow> endpoint list \<Rightarrow>
     lan_discovery \<Rightarrow> (exn + unit) \<times> lan_discovery" where
  "start_discovery rt u sock endp i name md eps d =
     (if socket_open d then (Inl DiscoveryError, d)
      else (case rbind (copy_peer i name md) (\<lambda>p. rbind (guard (peer_ident p \<noteq> []) DiscoveryError) (\<lambda>_. Inr p)) of
          Inl e \<Rightarrow> (Inl e, d)
        | Inr p \<Rightarrow>
            let d1 = d\<lparr>local_peer_info := Some p\<rparr> in
            (case rmap (copy_valid_endpoint u) eps of
               Inl e \<Rightarrow> (Inl e, d1)
             | Inr es \<Rightarrow>
                 let d2 = d1\<lparr>local_endpoints := List.map_filter (\<lambda>x. x) es\<rparr> in
                 (case rbind (announce_payload d2) (encode_packet rt (max_datagram (settings d2))) of
                    Inl e \<Rightarrow> (Inl e, if exn_isa e DiscoveryError then clear_local_state d2 else d2)
                  | Inr _ \<Rightarrow>
                      (case sock of
                         Inl e \<Rightarrow> if exn_isa e OSError then (Inl DiscoveryError, clear_local_state d2) else (Inl e, d2)
                       | Inr _ \<Rightarrow>
                           (case endp of
                              Inl e \<Rightarrow> (Inl (if exn_isa e OSError then DiscoveryError else e), clear_local_state d2)
                            | Inr _ \<Rightarrow> (Inr (), d2\<lparr>socket_open := True, announcing := True\<rparr>)))))))"

definition stop_discovery :: "lan_discovery \<Rightarrow> lan_discovery" where
  "stop_discovery d = (clear_local_state (d\<lparr>announcing := False, socket_open := False\<rparr>))\<lparr>discovered := []\<rparr>"

text \<open>\<open>discover\<close>: the request and the time to wait, and the result after the wait.\<close>

definition collection_window :: "pyval \<Rightarrow> lan_discovery \<Rightarrow> exn + rat" where
  "collection_window timeout d =
     (let v = (if timeout = PNone then default_timeout (settings d) else timeout) in
      rbind (validate_non_negative_float v) (\<lambda>_.
      rbind (opt_res TypeError (number_value v)) (\<lambda>x.
        Inr (max 0 (x - min (1 / 10) (x * (1 / 5)))))))"

definition discover_request ::
    "pyrt \<Rightarrow> exn + unit \<Rightarrow> pyval \<Rightarrow> lan_discovery \<Rightarrow> exn + packet \<times> rat" where
  "discover_request rt sendto timeout d =
     rbind (guard (socket_open d) DiscoveryError) (\<lambda>_.
     rbind (send_discover rt sendto d) (\<lambda>pk.
     rbind (collection_window timeout d) (\<lambda>window. Inr (pk, window))))"

definition discover_result :: "clock \<Rightarrow> lan_discovery \<Rightarrow> (exn + discovered_peer list) \<times> lan_discovery" where
  "discover_result now d =
     (case prune_expired now d of (r, d') \<Rightarrow> (rbind r (\<lambda>_. Inr (List.map snd (discovered d'))), d'))"

definition announce_tick :: "pyrt \<Rightarrow> exn + unit \<Rightarrow> lan_discovery \<Rightarrow> exn + packet option" where
  "announce_tick rt sendto d = ignoring (send_announce rt sendto None d)"

section \<open>The cache\<close>

definition entry_ok :: "pystr \<times> discovered_peer \<Rightarrow> bool" where
  "entry_ok e \<longleftrightarrow> peer_ident (disc_peer (snd e)) = fst e \<and> dt_utc (last_seen (snd e)) \<noteq> None"

definition cache_ok :: "lan_discovery \<Rightarrow> bool" where
  "cache_ok d \<longleftrightarrow> distinct (dkeys (discovered d)) \<and> list_all entry_ok (discovered d)
     \<and> length (discovered d) \<le> max_discovered (settings d)
     \<and> (\<forall>me. local_peer_info d = Some me \<longrightarrow> peer_ident me \<notin> set (dkeys (discovered d)))
     \<and> (\<not> socket_open d \<longrightarrow> discovered d = [])"

lemma is_fresh_total:
  assumes "validate_ttl ttl = Inr ()" "dt_utc (last_seen x) \<noteq> None"
  shows "\<exists>b. snd (is_fresh now ttl x) = Inr b"
proof -
  have "last_seen (synchronize_timestamp now x) = last_seen x"
    by (auto simp: synchronize_timestamp_def anchor_monotonic_age_def Let_def split: option.split)
  with assms show ?thesis
    by (auto simp: is_fresh_def freshness_of_def Let_def split: option.split)
qed

lemma prune_entries_ok:
  assumes "prune_entries now ttl xs = Inr ys"
  shows "set (dkeys ys) \<subseteq> set (dkeys xs)" "length ys \<le> length xs"
    "distinct (dkeys xs) \<Longrightarrow> distinct (dkeys ys)" "list_all entry_ok xs \<Longrightarrow> list_all entry_ok ys"
proof -
  have "set (dkeys ys) \<subseteq> set (dkeys xs) \<and> length ys \<le> length xs
    \<and> (distinct (dkeys xs) \<longrightarrow> distinct (dkeys ys)) \<and> (list_all entry_ok xs \<longrightarrow> list_all entry_ok ys)"
    using assms
  proof (induction xs arbitrary: ys)
    case (Cons kx xs)
    obtain k x where kx: "kx = (k, x)" by fastforce
    obtain x' v where f: "is_fresh now ttl x = (x', v)" by fastforce
    from Cons.prems obtain fresh zs where "v = Inr fresh" and zs: "prune_entries now ttl xs = Inr zs"
        "ys = (if fresh then (k, x') # zs else zs)"
      by (auto simp: kx f res_simps)
    with Cons.IH [OF zs(1)] is_fresh_endpoints [OF f] show ?case
      by (auto simp: kx entry_ok_def)
  qed simp
  then show "set (dkeys ys) \<subseteq> set (dkeys xs)" "length ys \<le> length xs"
    "distinct (dkeys xs) \<Longrightarrow> distinct (dkeys ys)" "list_all entry_ok xs \<Longrightarrow> list_all entry_ok ys"
    by auto
qed

lemma prune_entries_total:
  "validate_ttl ttl = Inr () \<Longrightarrow> list_all entry_ok xs \<Longrightarrow> \<exists>ys. prune_entries now ttl xs = Inr ys"
proof (induction xs)
  case (Cons kx xs)
  obtain k x where kx: "kx = (k, x)" by fastforce
  with Cons.prems is_fresh_total [of ttl x now] obtain x' b where "is_fresh now ttl x = (x', Inr b)"
    by (cases "is_fresh now ttl x") (auto simp: entry_ok_def)
  with Cons show ?case by (auto simp: kx)
qed simp

lemma prune_expired_cases:
  assumes "cache_ok d" "prune_expired now d = (r, d')"
  shows "cache_ok d'" "d' = d\<lparr>discovered := discovered d'\<rparr>" "set (dkeys (discovered d')) \<subseteq> set (dkeys (discovered d))"
    "length (discovered d') \<le> length (discovered d)"
  using assms prune_entries_ok [of now "discovery_ttl (settings d)" "discovered d"]
  by (auto simp: prune_expired_def cache_ok_def simp del: set_map split: if_splits sum.splits)

lemma entry_ok_new: "entry_ok (peer_ident p, new_discovered now p es (utc_dt t) md)"
  "entry_ok (peer_ident p, touch now (x\<lparr>disc_peer := p, endpoints := es, disc_metadata := md\<rparr>))"
  by (auto simp: entry_ok_def new_discovered_def anchor_monotonic_age_def touch_def Let_def split: option.split)

lemma list_all_dput: "list_all P d \<Longrightarrow> P (k, v) \<Longrightarrow> list_all P (dput k v d)"
  by (induction k v d rule: dput.induct) auto

lemma cache_put_known:
  assumes "cache_ok d" "map_of (discovered d) k = Some x" "entry_ok (k, y)"
  shows "cache_ok (d\<lparr>discovered := dput k y (discovered d)\<rparr>)"
proof -
  have k: "k \<in> set (dkeys (discovered d))" using assms(2) by (metis map_of_None_iff option.distinct(1))
  then have "length (dput k y (discovered d)) = length (discovered d)" "set (dkeys (dput k y (discovered d))) = set (dkeys (discovered d))"
    by (auto simp: length_dput set_dkeys_dput simp del: set_map)
  moreover have "discovered d \<noteq> []" using assms(2) by auto
  ultimately show ?thesis using assms by (auto simp: cache_ok_def list_all_dput simp del: set_map)
qed

lemma cache_put_new:
  assumes "cache_ok d" "k \<notin> set (dkeys (discovered d))" "entry_ok (k, y)" "socket_open d"
    and "length (discovered d) < max_discovered (settings d)" "\<And>me. local_peer_info d = Some me \<Longrightarrow> k \<noteq> peer_ident me"
  shows "cache_ok (d\<lparr>discovered := dput k y (discovered d)\<rparr>)"
  using assms by (auto simp: cache_ok_def length_dput set_dkeys_dput list_all_dput simp del: set_map)

lemma handle_announce_cache_ok:
  assumes "cache_ok d" "socket_open d"
  shows "cache_ok (snd (handle_announce u now kvs d))"
proof -
  have "cache_ok (snd (case prune_expired now d of
      (Inl e, d') \<Rightarrow> (Inl e, d')
    | (Inr _, d') \<Rightarrow> (Inr (), if max_discovered (settings d') \<le> length (discovered d') then d'
         else d'\<lparr>discovered := dput (peer_ident p) (new_discovered now p es (utc_dt (utc_now now)) md) (discovered d')\<rparr>)))"
    if "map_of (discovered d) (peer_ident p) = None" "local_peer_info d = Some me" "peer_ident p \<noteq> peer_ident me" for p es md me
  proof -
    obtain r d' where r: "prune_expired now d = (r, d')" by fastforce
    note pr = prune_expired_cases [OF assms(1) r]
    have "local_peer_info d' = local_peer_info d" "socket_open d'" by (subst pr(2), simp add: assms(2))+
    moreover have "peer_ident p \<notin> set (dkeys (discovered d'))" using that(1) pr(3) by (auto simp: map_of_None_iff)
    ultimately show ?thesis
      using pr(1) that(2,3) by (auto simp: r not_le intro!: cache_put_new entry_ok_new split: sum.split)
  qed
  then show ?thesis
    using assms(1) by (auto simp: handle_announce_def intro!: cache_put_known entry_ok_new split: option.splits sum.splits)
qed

inductive discovery_step :: "lan_discovery \<Rightarrow> lan_discovery \<Rightarrow> bool" where
  started: "discovery_step d (snd (start_discovery rt u sock endp i name md eps d))"
| stopped: "discovery_step d (stop_discovery d)"
| received: "socket_open d \<Longrightarrow> discovery_step d (snd (datagram_received rt u sendto now data addr d))"
| collected: "discovery_step d (snd (discover_result now d))"

lemma start_cache_ok: "cache_ok d \<Longrightarrow> cache_ok (snd (start_discovery rt u sock endp i name md eps d))"
  by (auto simp: start_discovery_def clear_local_state_def cache_ok_def Let_def split: sum.split)

lemma datagram_cases: "snd (datagram_received rt u sendto now data addr d) = d
    \<or> (\<exists>kvs. snd (datagram_received rt u sendto now data addr d) = snd (handle_announce u now kvs d))"
  by (auto simp: datagram_received_def Let_def case_prod_beta split: sum.split option.split)

lemma discovery_step_ok: "cache_ok d \<Longrightarrow> discovery_step d d' \<Longrightarrow> cache_ok d'"
proof (erule discovery_step.cases)
  fix d0 rt u sendto now data addr
  assume "cache_ok d" "d = d0" "socket_open d0" "d' = snd (datagram_received rt u sendto now data addr d0)"
  then show "cache_ok d'"
    using datagram_cases [of rt u sendto now data addr d0] handle_announce_cache_ok [of d0] by metis
next
  fix d0 now
  assume "cache_ok d" "d = d0" "d' = snd (discover_result now d0)"
  then show "cache_ok d'"
    using prune_expired_cases(1) by (auto simp: discover_result_def split: prod.split)
next
  fix d0
  assume "d = d0" "d' = stop_discovery d0"
  then show "cache_ok d'" by (simp add: stop_discovery_def clear_local_state_def cache_ok_def)
qed (simp add: start_cache_ok)

lemma new_discovery_ok: "cache_ok (new_discovery st)"
  by (simp add: cache_ok_def new_discovery_def)

interpretation discovery_machine: machine_invariant discovery_step "new_discovery st" cache_ok for st
  by unfold_locales (rule new_discovery_ok, erule (1) discovery_step_ok)

section \<open>The collection window\<close>

lemma number_value_non_negative: "validate_non_negative_float v = Inr () \<Longrightarrow> number_value v = Some x \<Longrightarrow> 0 \<le> x"
  using check_number_ok [of "\<lambda>x. 0 \<le> x" v] by (auto simp: validate_non_negative_float_def)

text \<open>The wait is at least four fifths of the timeout and never longer than it.\<close>

lemma collection_window_bounds:
  assumes "collection_window v d = Inr w" "v \<noteq> PNone"
  shows "\<exists>x. number_value v = Some x \<and> 4 / 5 * x \<le> w \<and> w \<le> x \<and> x - 1 / 10 \<le> w"
proof -
  obtain x where x: "number_value v = Some x" "0 \<le> x" "w = max 0 (x - min (1 / 10) (x * (1 / 5)))"
    using assms number_value_non_negative [of v]
    by (auto simp: collection_window_def Let_def res_simps elim!: rbind_InrE)
  then have "min (1 / 10) (x * (1 / 5)) \<le> x * (1 / 5)" "0 \<le> min (1 / 10) (x * (1 / 5))" "min (1 / 10) (x * (1 / 5)) \<le> 1 / 10"
    by auto
  moreover from this(1) x(2) have "0 \<le> x - min (1 / 10) (x * (1 / 5))" by linarith
  then have "w = x - min (1 / 10) (x * (1 / 5))" using x(3) by simp
  ultimately have "4 / 5 * x \<le> w" "w \<le> x" "x - 1 / 10 \<le> w" by linarith+
  with x(1) show ?thesis by blast
qed

section \<open>A packet arrives as it was sent\<close>

text \<open>Packets are ASCII; a text in them arrives if it has no surrogates.\<close>

fun scalar_text :: "pyval \<Rightarrow> bool" where
  "scalar_text (PStr s) = list_all scalar s"
| "scalar_text (PList vs) = list_all scalar_text vs"
| "scalar_text (PDict kvs) = list_all (\<lambda>(k, v). (case k of PStr s \<Rightarrow> list_all scalar s | _ \<Rightarrow> True) \<and> scalar_text v) kvs"
| "scalar_text _ = True"

lemma ascii_text_ok:
  "portable rt v \<Longrightarrow> scalar_text v \<Longrightarrow> json_text rt True d v = Inr t \<Longrightarrow> json_ok rt True d v"
proof (induction v arbitrary: d t)
  case (PList vs)
  then obtain ts where d: "0 < d" and ts: "rmap (json_text rt True (d - 1)) vs = Inr ts"
    by (auto simp: res_simps split: if_splits)
  have "json_ok rt True (d - 1) v" if v: "v \<in> set vs" for v
    using rmap_InrD [OF ts v] PList.IH [OF v] PList.prems(1,2) v by (auto simp: list_all_iff)
  with d show ?case by (simp add: list_all_iff)
next
  case (PDict kvs)
  let ?text = "\<lambda>(k, v). rbind (key_text rt k) (\<lambda>kt. rbind (json_text rt True (d - 1) v)
                  (\<lambda>t. Inr (str_text True kt @ 58 # t)))"
  from PDict.prems(3) obtain ts where d: "0 < d" and ts: "rmap ?text kvs = Inr ts"
    by (auto simp: res_simps split: if_splits)
  have "(case k of PStr s \<Rightarrow> str_ok True s | _ \<Rightarrow> False) \<and> json_ok rt True (d - 1) v"
    if kv: "(k, v) \<in> set kvs" for k v
  proof -
    obtain s where k: "k = PStr s" "list_all scalar s" and v: "portable rt v" "scalar_text v"
      using PDict.prems(1,2) kv by (fastforce simp: list_all_iff)
    obtain w where "json_text rt True (d - 1) v = Inr w"
      using rmap_InrD [OF ts kv] k by (auto simp: res_simps)
    with k v PDict.IH(2) [OF kv, of v "d - 1" w] show ?thesis by (simp add: str_ok_def list_all_iff)
  qed
  with d PDict.prems(1) show ?case by (auto simp: list_all_iff)
next
  case (PFloat f)
  then show ?case by (cases f) auto
qed (auto simp: int_dumps_def str_ok_def list_all_iff split: if_splits)

lemma packet_decoded:
  assumes "encode_packet rt limit (PDict kvs) = Inr data" "portable rt (PDict kvs)" "scalar_text (PDict kvs)"
    and "equals_one (dget kvs (lit ''paqto''))"
  shows "decode_packet rt data = Inr (Some kvs)" "length data \<le> limit"
proof -
  obtain t where safe: "is_safe_json_value (PDict kvs)" and t: "json_dumps rt True False (PDict kvs) = Inr t"
      "utf8_encode t = Some data" and len: "length data \<le> limit"
    using assms(1) by (auto simp: encode_packet_def catching_def opt_res_def elim!: rbind_InrE split: if_split_asm sum.split_asm option.split_asm)
  show "length data \<le> limit" by (rule len)
  have "json_ok rt True (max_depth rt) (PDict kvs)"
    using ascii_text_ok [OF assms(2,3)] t(1) by (simp add: json_dumps_def)
  then obtain t' where "json_dumps rt True False (PDict kvs) = Inr t'"
      "json_loads rt unique_json_object float_constant t' = Inr (PDict kvs)"
    by (rule unique.json_loads_dumps)
  with t(1) have "json_loads rt unique_json_object float_constant t = Inr (PDict kvs)" by simp
  with utf8_decode_encode [OF t(2)] safe assms(4) show "decode_packet rt data = Inr (Some kvs)"
    by (simp add: decode_packet_def opt_res_def)
qed

lemma parse_peer_sent:
  "peer_ident p \<noteq> [] \<Longrightarrow> parse_peer (PDict [(PStr (lit ''id''), PStr (peer_ident p)),
     (PStr (lit ''name''), opt_name (peer_name p)), (PStr (lit ''metadata''), PDict (peer_metadata p))]) = Some p"
  by (cases p) (simp add: parse_peer_def dget_def opt_name_def optional_dict_def split: option.split)

lemma parse_endpoints_sent:
  assumes "\<forall>e \<in> set es. ep_transport e = TRANSPORT_NAME \<and> address_accepted u (ep_address e) = Inr True"
  shows "parse_endpoints u (PList (List.map (\<lambda>e. PDict [(PStr (lit ''transport''), PStr (ep_transport e)),
     (PStr (lit ''address''), PStr (ep_address e)), (PStr (lit ''metadata''), PDict (ep_metadata e))]) es)) = Inr (Some es)"
proof -
  have "parse_endpoint u (PDict [(PStr (lit ''transport''), PStr (ep_transport e)),
      (PStr (lit ''address''), PStr (ep_address e)), (PStr (lit ''metadata''), PDict (ep_metadata e))]) = Inr (Some e)"
    if "e \<in> set es" for e
    using bspec [OF assms that] by (simp add: parse_endpoint_def dget_def optional_dict_def)
  then have "rmap (parse_endpoint u) (List.map (\<lambda>e. PDict [(PStr (lit ''transport''), PStr (ep_transport e)),
      (PStr (lit ''address''), PStr (ep_address e)), (PStr (lit ''metadata''), PDict (ep_metadata e))]) es) = Inr (List.map Some es)"
    using assms by (induction es) auto
  moreover have "List.map_filter (\<lambda>x. x) (List.map Some es) = es"
    by (induction es) (simp_all add: List.map_filter_simps)
  ultimately show ?thesis by (simp add: parse_endpoints_def)
qed

lemma split_url_error: "split_url u a = Inl x \<Longrightarrow> x = ValueError"
  by (auto simp: split_url_def Let_def guard_eq_Inl_iff elim!: rbind_InlE split: prod.split_asm)

lemma url_port_error: "url_port p = Inl x \<Longrightarrow> x = ValueError"
  by (auto simp: url_port_def Let_def split: if_split_asm)

lemma parse_tcp_address_error: "parse_tcp_address u a = Inl x \<Longrightarrow> x = ValueError \<or> x = TransportError"
  by (auto simp: parse_tcp_address_def opt_res_def catching_def guard_eq_Inl_iff dest: split_url_error url_port_error
      elim!: rbind_InlE split: sum.split_asm if_split_asm option.split_asm)

lemma address_accepted_error: "address_accepted u a = Inl x \<Longrightarrow> x = ValueError"
  using parse_tcp_address_error [of u a]
  by (auto simp: address_accepted_def exn_isa_def split: sum.split_asm if_split_asm)

lemma parse_endpoint_error: "parse_endpoint u v = Inl x \<Longrightarrow> x = ValueError"
  by (auto simp: parse_endpoint_def dest: address_accepted_error elim!: rbind_InlE
      split: pyval.split_asm if_split_asm option.split_asm)

lemma rmap_ValueError:
  "v \<in> set vs \<Longrightarrow> f v = Inl ValueError \<Longrightarrow> (\<And>w x. f w = Inl x \<Longrightarrow> x = ValueError) \<Longrightarrow> rmap f vs = Inl ValueError"
proof (induction vs)
  case (Cons w vs)
  then show ?case by (cases "f w") auto
qed simp

text \<open>What the cache holds of a peer after its announcement.\<close>

definition observed :: "clock \<Rightarrow> peer \<Rightarrow> endpoint list \<Rightarrow> metadata \<Rightarrow> discovered_peer \<Rightarrow> bool" where
  "observed now p es md x \<longleftrightarrow> disc_peer x = p \<and> endpoints x = es \<and> disc_metadata x = md \<and> last_seen x = utc_dt (utc_now now)"

lemma announce_cached:
  assumes "local_peer_info d = Some me" "peer_ident p \<noteq> peer_ident me" "cache_ok d"
    and "parse_peer (dget kvs (lit ''peer'')) = Some p" "parse_endpoints u (dget kvs (lit ''endpoints'')) = Inr (Some es)"
    and "optional_dict (dget kvs (lit ''metadata'')) = Some md" "validate_ttl (discovery_ttl (settings d)) = Inr ()"
    and "peer_ident p \<in> set (dkeys (discovered d)) \<or> length (discovered d) < max_discovered (settings d)"
  shows "\<exists>x d'. handle_announce u now kvs d = (Inr (), d') \<and> map_of (discovered d') (peer_ident p) = Some x \<and> observed now p es md x"
proof (cases "map_of (discovered d) (peer_ident p)")
  case (Some x)
  then show ?thesis
    using assms by (simp add: handle_announce_def observed_def touch_def)
next
  case None
  obtain r d' where r: "prune_expired now d = (r, d')" by fastforce
  have "\<exists>ys. prune_entries now (discovery_ttl (settings d)) (discovered d) = Inr ys"
    using assms(3,7) by (intro prune_entries_total) (auto simp: cache_ok_def)
  then have "r = Inr ()" using r by (auto simp: prune_expired_def split: if_split_asm)
  moreover note pr = prune_expired_cases [OF assms(3) r]
  moreover have "settings d' = settings d" by (subst pr(2)) simp
  moreover have "length (discovered d) < max_discovered (settings d)"
    using assms(8) None by (auto simp: map_of_eq_None_iff)
  moreover have "observed now p es md (new_discovered now p es (utc_dt (utc_now now)) md)"
    by (simp add: observed_def new_discovered_def anchor_monotonic_age_def)
  ultimately show ?thesis
    using assms(1,2,4-6) None r by (simp add: handle_announce_def)
qed

section \<open>Properties\<close>

text \<open>C35 Whatever the service receives, and however it is started, stopped and asked, its cache stays
  bounded by the configured limit, has one observation per identifier, holds each under the
  identifier the observation itself declares, never the local peer, and is empty while stopped.\<close>

theorem discovery_cache_ok:
  assumes "reachable discovery_step (new_discovery st) d"
  shows "length (discovered d) \<le> max_discovered (settings d) \<and> distinct (dkeys (discovered d))
    \<and> (\<forall>(k, x) \<in> set (discovered d). peer_ident (disc_peer x) = k)
    \<and> (\<forall>me. local_peer_info d = Some me \<longrightarrow> peer_ident me \<notin> set (dkeys (discovered d)))
    \<and> (\<not> socket_open d \<longrightarrow> discovered d = [])"
  using discovery_machine.holds [OF assms] by (auto simp: cache_ok_def entry_ok_def list_all_iff simp del: set_map)

theorem discovery_cache_ok_witness:
  "discovered (stop_discovery (new_discovery \<lparr>broadcast_address = ([], 1), default_timeout = PInt 1, own_metadata = [],
     max_datagram = 1, discovery_ttl = PNone, max_discovered = 1\<rparr>)) = []"
proof -
  let ?st = "\<lparr>broadcast_address = ([], 1), default_timeout = PInt 1, own_metadata = [],
     max_datagram = 1, discovery_ttl = PNone, max_discovered = 1\<rparr>"
  have "reachable discovery_step (new_discovery ?st) (stop_discovery (new_discovery ?st))"
    by (rule reachable.next_state, rule reachable.start, rule discovery_step.stopped)
  from discovery_cache_ok [OF this] show ?thesis
    by (simp add: stop_discovery_def clear_local_state_def)
qed

definition demo_peer :: "nat \<Rightarrow> peer" where
  "demo_peer n = \<lparr>peer_ident = [n], peer_name = None, peer_metadata = []\<rparr>"

definition demo_service :: "peer \<Rightarrow> endpoint list \<Rightarrow> lan_discovery" where
  "demo_service p eps = \<lparr>settings = \<lparr>broadcast_address = (lit ''255.255.255.255'', 37020), default_timeout = PInt 1,
       own_metadata = [], max_datagram = 65507, discovery_ttl = PInt 60, max_discovered = 1\<rparr>,
     local_peer_info = Some p, local_endpoints = eps, discovered = [], socket_open = True, announcing = True\<rparr>"

lemma demo_service_ok: "cache_ok (demo_service p eps)" "validate_ttl (discovery_ttl (settings (demo_service p eps))) = Inr ()"
  by (simp_all add: demo_service_def cache_ok_def validate_ttl_def check_optional_def check_number_def double_limit_def)

definition demo_endpoint :: "pystr \<Rightarrow> endpoint" where
  "demo_endpoint a = \<lparr>ep_transport = TRANSPORT_NAME, ep_address = a, ep_metadata = []\<rparr>"

lemma ascii_utf8: "list_all (\<lambda>c. c < 128) t \<Longrightarrow> utf8_encode t = Some (List.map of_nat t)"
proof -
  assume "list_all (\<lambda>c. c < 128) t"
  then have "utf8_octets t = Some t" by (induction t) (auto simp: utf8_char_def)
  then show ?thesis by (simp add: utf8_encode_def)
qed

lemma encode_ascii:
  assumes "is_safe_json_value v" "json_dumps rt True False v = Inr t" "list_all (\<lambda>c. c < 128) t" "length t \<le> limit"
  shows "\<exists>data. encode_packet rt limit v = Inr data \<and> length data \<le> limit"
  using assms ascii_utf8 [OF assms(3)] by (simp add: encode_packet_def)

lemma demo_announcement:
  assumes "a \<in> {lit ''tcp://h:1'', lit ''tcp://[''}"
  shows "\<exists>v data. announce_payload (demo_service (demo_peer 97) [demo_endpoint a]) = Inr v
     \<and> portable plain_rt v \<and> scalar_text v \<and> encode_packet plain_rt 65507 v = Inr data \<and> length data \<le> 65507"
proof -
  obtain v where v: "announce_payload (demo_service (demo_peer 97) [demo_endpoint a]) = Inr v"
    and d: "v = PDict [(PStr (lit ''paqto''), PInt 1), (PStr (lit ''kind''), PStr (lit ''announce'')),
      (PStr (lit ''peer''), PDict [(PStr (lit ''id''), PStr [97]), (PStr (lit ''name''), PNone), (PStr (lit ''metadata''), PDict [])]),
      (PStr (lit ''endpoints''), PList [PDict [(PStr (lit ''transport''), PStr (lit ''lan'')), (PStr (lit ''address''), PStr a),
        (PStr (lit ''metadata''), PDict [])]]), (PStr (lit ''metadata''), PDict [])]"
    by (simp add: announce_payload_def demo_service_def demo_peer_def demo_endpoint_def opt_name_def TRANSPORT_NAME_def
        DISCOVERY_PROTOCOL_VERSION_def)
  have "scalar_text v" "portable plain_rt v"
    using assms by (auto simp: d scalar_def surrogate_def)
  moreover have "\<not> 4096 < nat_bit_length (Suc 0)" by (simp add: nat_bit_length_le_iff not_less)
  then have "is_safe_json_value v" by (simp add: d is_safe_json_value_eq bit_length_def)
  moreover have "\<exists>t. json_dumps plain_rt True False v = Inr t \<and> list_all (\<lambda>c. c < 128) t \<and> length t \<le> 65507"
    using assms by (elim insertE emptyE) (simp_all add: d json_eval)
  ultimately show ?thesis using v encode_ascii by blast
qed

lemma demo_address: "address_accepted plain_url_rt (lit ''tcp://h:1'') = Inr True"
  by (simp add: address_accepted_def parse_tcp_address_def split_url_def split_scheme_def split_netloc_def
      partition_at_def rpartition_at_def host_and_port_def url_hostname_def url_user_def url_password_def url_port_def
      TCP_SCHEME_def ascii_lower_def ascii_letter_def scheme_char_def max_str_digits_def Let_def digits_nat_def)

text \<open>Discovery carries what it is given: an announcement that one service sends, with JSON metadata
  without surrogates and valid LAN endpoints, makes another service that knows the peer or has room
  cache exactly the announced peer, endpoints and metadata, as seen now, however the datagram's
  source looks.\<close>

theorem announcement_cached:
  assumes "send_announce rt sendto to_addr a = Inr (data, target)" "local_peer_info a = Some p" "peer_ident p \<noteq> []"
    and "announce_payload a = Inr v" "portable rt v" "scalar_text v"
    and "\<forall>e \<in> set (local_endpoints a). ep_transport e = TRANSPORT_NAME \<and> address_accepted u (ep_address e) = Inr True"
    and "local_peer_info b = Some me" "peer_ident p \<noteq> peer_ident me" "cache_ok b"
    and "validate_ttl (discovery_ttl (settings b)) = Inr ()" "length data \<le> max_datagram (settings b)"
    and "peer_ident p \<in> set (dkeys (discovered b)) \<or> length (discovered b) < max_discovered (settings b)"
  shows "\<exists>x b'. datagram_received rt u answer now data from_addr b = (Inr None, b')
    \<and> map_of (discovered b') (peer_ident p) = Some x
    \<and> disc_peer x = p \<and> endpoints x = local_endpoints a \<and> disc_metadata x = own_metadata (settings a)
    \<and> last_seen x = utc_dt (utc_now now)"
proof -
  from assms(2,4) obtain kvs where v: "v = PDict kvs" and kvs: "dget kvs (lit ''paqto'') = PInt 1"
      "dget kvs (lit ''kind'') = PStr (lit ''announce'')" "parse_peer (dget kvs (lit ''peer'')) = Some p"
      "parse_endpoints u (dget kvs (lit ''endpoints'')) = Inr (Some (local_endpoints a))"
      "optional_dict (dget kvs (lit ''metadata'')) = Some (own_metadata (settings a))"
    using parse_peer_sent [OF assms(3)] parse_endpoints_sent [OF assms(7)]
    by (auto simp: announce_payload_def opt_res_def dget_def DISCOVERY_PROTOCOL_VERSION_def optional_dict_def)
  have "encode_packet rt (max_datagram (settings a)) (PDict kvs) = Inr data"
    using assms(1,4) v by (auto simp: send_announce_def send_packet_def elim!: rbind_InrE split: if_split_asm)
  then have "decode_packet rt data = Inr (Some kvs)"
    using assms(5,6) v kvs(1) by (intro packet_decoded) auto
  then have "datagram_received rt u answer now data from_addr b
      = (case handle_announce u now kvs b of (r, b') \<Rightarrow> (rbind r (\<lambda>_. Inr None), b'))"
    using kvs(2) assms(12) by (simp add: datagram_received_def)
  with announce_cached [OF assms(8-10) kvs(3-5) assms(11,13), of now] show ?thesis
    by (auto simp: observed_def)
qed

theorem announcement_cached_witness:
  "\<exists>data target x b. send_announce plain_rt (Inr ()) None (demo_service (demo_peer 97) [demo_endpoint (lit ''tcp://h:1'')])
       = Inr (data, target)
     \<and> datagram_received plain_rt plain_url_rt (Inr ()) \<lparr>utc_now = 7, monotonic = 1\<rparr> data PNone (demo_service (demo_peer 98) [])
       = (Inr None, b)
     \<and> map_of (discovered b) [97] = Some x \<and> endpoints x = [demo_endpoint (lit ''tcp://h:1'')]"
proof -
  let ?a = "demo_service (demo_peer 97) [demo_endpoint (lit ''tcp://h:1'')]" and ?b = "demo_service (demo_peer 98) []"
  obtain v data where v: "announce_payload ?a = Inr v" "portable plain_rt v" "scalar_text v"
      "encode_packet plain_rt 65507 v = Inr data" "length data \<le> 65507"
    using demo_announcement [of "lit ''tcp://h:1''"] by auto
  have sent: "send_announce plain_rt (Inr ()) None ?a = Inr (data, (lit ''255.255.255.255'', 37020))"
    using v(1,4) by (simp add: send_announce_def send_packet_def demo_service_def)
  have b: "local_peer_info ?b = Some (demo_peer 98)" "discovered ?b = []" "max_discovered (settings ?b) = 1"
      "max_datagram (settings ?b) = 65507" and a: "local_peer_info ?a = Some (demo_peer 97)"
      "local_endpoints ?a = [demo_endpoint (lit ''tcp://h:1'')]"
    by (simp_all add: demo_service_def)
  let ?now = "\<lparr>utc_now = 7, monotonic = 1\<rparr>"
  have "\<exists>x b'. datagram_received plain_rt plain_url_rt (Inr ()) ?now data PNone ?b = (Inr None, b')
      \<and> map_of (discovered b') (peer_ident (demo_peer 97)) = Some x \<and> disc_peer x = demo_peer 97
      \<and> endpoints x = local_endpoints ?a \<and> disc_metadata x = own_metadata (settings ?a) \<and> last_seen x = utc_dt (utc_now ?now)"
    by (rule announcement_cached [OF sent a(1) _ v(1-3) _ b(1) _ demo_service_ok])
      (use v(5) demo_address in \<open>simp_all add: demo_service_def demo_peer_def demo_endpoint_def\<close>)
  then show ?thesis using sent a(2) by (auto simp: demo_peer_def)
qed

text \<open>One kind of malformed announcement is not ignored: a LAN endpoint whose address is rejected
  by \<open>urlparse\<close> itself, for instance with an unmatched bracket, raises \<open>ValueError\<close> out of the
  protocol's callback, since \<open>_parse_endpoint\<close> expects only \<open>TransportError\<close>; the cache is left as it was.\<close>

theorem malformed_announcement_raises:
  assumes "decode_packet rt data = Inr (Some kvs)" "length data \<le> max_datagram (settings d)"
    and "dget kvs (lit ''kind'') = PStr (lit ''announce'')" "local_peer_info d = Some me"
    and "parse_peer (dget kvs (lit ''peer'')) = Some p" "peer_ident p \<noteq> peer_ident me"
    and "dget kvs (lit ''endpoints'') = PList vs" "PDict e \<in> set vs" "dget e (lit ''transport'') = PStr TRANSPORT_NAME"
    and "dget e (lit ''address'') = PStr a" "split_url u a = Inl ValueError"
  shows "datagram_received rt u answer now data from_addr d = (Inl ValueError, d)"
proof -
  have "parse_endpoint u (PDict e) = Inl ValueError"
    using assms(9-11) by (simp add: parse_endpoint_def address_accepted_def parse_tcp_address_def exn_isa_def)
  then have "parse_endpoints u (PList vs) = Inl ValueError"
    using rmap_ValueError [of "PDict e" vs "parse_endpoint u"] assms(8) parse_endpoint_error
    by (simp add: parse_endpoints_def)
  then show ?thesis
    using assms(1-7) by (simp add: datagram_received_def handle_announce_def)
qed

theorem malformed_announcement_raises_witness:
  "\<exists>v data. announce_payload (demo_service (demo_peer 97) [demo_endpoint (lit ''tcp://['')]) = Inr v
     \<and> encode_packet plain_rt 65507 v = Inr data
     \<and> datagram_received plain_rt plain_url_rt (Inr ()) \<lparr>utc_now = 7, monotonic = 1\<rparr> data PNone (demo_service (demo_peer 98) [])
       = (Inl ValueError, demo_service (demo_peer 98) [])"
proof -
  let ?a = "demo_service (demo_peer 97) [demo_endpoint (lit ''tcp://['')]" and ?b = "demo_service (demo_peer 98) []"
  obtain v data where v: "announce_payload ?a = Inr v" "portable plain_rt v" "scalar_text v"
      "encode_packet plain_rt 65507 v = Inr data" "length data \<le> 65507"
    using demo_announcement [of "lit ''tcp://[''"] by auto
  have bad: "split_url plain_url_rt (lit ''tcp://['') = Inl ValueError"
    by (simp add: split_url_def split_scheme_def split_netloc_def partition_at_def ascii_lower_def ascii_letter_def scheme_char_def)
  let ?e = "[(PStr (lit ''transport''), PStr TRANSPORT_NAME), (PStr (lit ''address''), PStr (lit ''tcp://['')),
     (PStr (lit ''metadata''), PDict [])]"
  have e: "dget ?e (lit ''transport'') = PStr TRANSPORT_NAME" "dget ?e (lit ''address'') = PStr (lit ''tcp://['')"
    by (simp_all add: dget_def)
  from v(1) obtain kvs where k: "v = PDict kvs" "dget kvs (lit ''paqto'') = PInt 1"
      "dget kvs (lit ''kind'') = PStr (lit ''announce'')" "parse_peer (dget kvs (lit ''peer'')) = Some (demo_peer 97)"
      "dget kvs (lit ''endpoints'') = PList [PDict ?e]"
    using parse_peer_sent [of "demo_peer 97"]
    by (auto simp: announce_payload_def dget_def DISCOVERY_PROTOCOL_VERSION_def demo_service_def demo_peer_def demo_endpoint_def)
  have "decode_packet plain_rt data = Inr (Some kvs)"
    using v k(1,2) by (intro packet_decoded) auto
  moreover have b: "local_peer_info ?b = Some (demo_peer 98)" "max_datagram (settings ?b) = 65507"
    by (simp_all add: demo_service_def)
  ultimately have "datagram_received plain_rt plain_url_rt (Inr ()) \<lparr>utc_now = 7, monotonic = 1\<rparr> data PNone ?b = (Inl ValueError, ?b)"
    by - (rule malformed_announcement_raises [OF _ _ k(3) b(1) k(4) _ k(5) _ e bad],
      use v(5) in \<open>simp_all add: demo_service_def demo_peer_def\<close>)
  with v show ?thesis by blast
qed

end
