(* ===== verification/Reconnect.thy ===== *)
theory Reconnect
  imports Reader
begin

text \<open>
  Opening a session on demand and keeping it: \<open>_connect_discovered\<close>, \<open>disconnect\<close>, the heartbeat
  supervisor, the end of a session (\<open>_connection_ended\<close>) and the reconnect supervisor
  (\<open>src/paqto/core/node.py\<close>). Each method is cut at its awaits: \<open>connect_begin\<close> ends where the
  connection manager is awaited and \<open>connect_end\<close> starts where it returned, and so on.

  \<open>reconnect_loop\<close> is the whole reconnect supervisor over what it observes: in round \<open>i\<close> it reads
  the node \<open>seen_node\<close> of \<open>view i\<close>, sleeps, reads \<open>woken_node\<close> and attempts a connection with
  the outcome \<open>attempt\<close>.

  The lemmas: a bounded policy attempts at most so many connections and waits the policy's
  delays in between; an explicit disconnect stops it; there is one supervisor per peer; and a
  session whose only waiter was cancelled is handed out although nobody reads it.
\<close>

section \<open>Heartbeat\<close>

definition session_canonical :: "conn \<Rightarrow> protocol_session \<Rightarrow> node \<Rightarrow> bool" where
  "session_canonical c s n \<longleftrightarrow> map_of (peer_connections n) (session_peer_id s) = Some c"

definition task_live :: "node \<Rightarrow> nat option \<Rightarrow> bool" where
  "task_live n t \<longleftrightarrow> (case t of Some u \<Rightarrow> \<not> task_done n u | None \<Rightarrow> False)"

definition ensure_heartbeat :: "world \<Rightarrow> conn \<Rightarrow> protocol_session \<Rightarrow> unit node_act" where
  "ensure_heartbeat w c s = reads (\<lambda>n.
     if heartbeat_interval (cfg n) = None \<or> HEARTBEAT_CAPABILITY \<notin> set (session_capabilities s)
        \<or> \<not> session_canonical c s n
     then ret ()
     else if task_live n (map_of (heartbeat_tasks n) c) then ret ()
     else
       seq (update (\<lambda>n. n\<lparr>last_received_activity := dput c (monotonic (clk w)) (last_received_activity n)\<rparr>)) (\<lambda>_.
       seq create_task (\<lambda>t. update (\<lambda>n. n\<lparr>heartbeat_tasks := dput c t (heartbeat_tasks n)\<rparr>))))"

definition heartbeat_continues :: "world \<Rightarrow> conn \<Rightarrow> protocol_session \<Rightarrow> node \<Rightarrow> bool" where
  "heartbeat_continues w c s n \<longleftrightarrow> running n \<and> c \<notin> closed_conns w \<and> session_canonical c s n"

datatype heartbeat_action = HeartbeatStop | HeartbeatSleep | HeartbeatPinged nat queue_answer

definition heartbeat_ping :: "pyrt \<Rightarrow> world \<Rightarrow> conn \<Rightarrow> pystr \<Rightarrow> heartbeat_action node_act" where
  "heartbeat_ping rt w c pid =
     seq (open_heartbeat pid c) (\<lambda>f.
       try_except
         (seq (lift_res (encode_ping_frame rt (PStr pid))) (\<lambda>frame.
          seq (queue_frame w c frame) (\<lambda>a. ret (HeartbeatPinged f a))))
         (\<lambda>e. seq (update (close_heartbeat pid f)) (\<lambda>_. raise e)))"

text \<open>One turn of the loop after its sleep; \<open>pid\<close> is the generated ping id.\<close>

definition heartbeat_tick ::
    "pyrt \<Rightarrow> world \<Rightarrow> rat \<Rightarrow> conn \<Rightarrow> protocol_session \<Rightarrow> pystr \<Rightarrow> heartbeat_action node_act" where
  "heartbeat_tick rt w interval c s pid = reads (\<lambda>n.
     if \<not> heartbeat_continues w c s n then ret HeartbeatStop
     else
       let now = monotonic (clk w);
           last = (case map_of (last_received_activity n) c of Some t \<Rightarrow> t | None \<Rightarrow> now)
       in if now - last < interval then ret HeartbeatSleep else heartbeat_ping rt w c pid)"

text \<open>The end of the wait for the PONG; the result is whether the connection is closed.\<close>

definition heartbeat_answer :: "pystr \<Rightarrow> nat \<Rightarrow> exn + unit \<Rightarrow> bool node_act" where
  "heartbeat_answer pid f outcome =
     seq (update (close_heartbeat pid f)) (\<lambda>_.
       case outcome of
         Inr _ \<Rightarrow> ret False
       | Inl e \<Rightarrow> if exn_isa e TimeoutError then ret True else raise e)"

definition forget_heartbeat :: "conn \<Rightarrow> nat \<Rightarrow> node \<Rightarrow> node" where
  "forget_heartbeat c t n =
     (if map_of (heartbeat_tasks n) c = Some t
      then n\<lparr>heartbeat_tasks := dpop c (heartbeat_tasks n)\<rparr> else n)"

definition heartbeat_end :: "conn \<Rightarrow> nat \<Rightarrow> node \<Rightarrow> node" where
  "heartbeat_end c t n = forget_heartbeat c t (fail_heartbeats_for_connection c n)"

section \<open>Reader tasks\<close>

definition register_connection_task :: "conn \<Rightarrow> nat \<Rightarrow> node \<Rightarrow> node" where
  "register_connection_task c t n = n\<lparr>reader_tasks := dput c t (reader_tasks n)\<rparr>"

definition ensure_reader :: "world \<Rightarrow> conn \<Rightarrow> protocol_session \<Rightarrow> unit node_act" where
  "ensure_reader w c s = reads (\<lambda>n.
     if task_live n (map_of (reader_tasks n) c) then ret ()
     else seq create_task (\<lambda>t.
          seq (update (register_connection_task c t)) (\<lambda>_. ensure_heartbeat w c s)))"

definition reader_finished :: "conn \<Rightarrow> node \<Rightarrow> node" where
  "reader_finished c n = n\<lparr>reader_tasks := dpop c (reader_tasks n)\<rparr>"

section \<open>Scheduling a reconnect\<close>

definition schedule_reconnect :: "world \<Rightarrow> pystr \<Rightarrow> unit node_act" where
  "schedule_reconnect w p = reads (\<lambda>n.
     if \<not> running n \<or> \<not> enabled (reconnect (cfg n)) \<or> p \<in> set (reconnect_suppressed n) then ret ()
     else (case map_of (known_peers n) p of
         None \<Rightarrow> ret ()
       | Some d \<Rightarrow>
           (case is_fresh (clk w) (peer_ttl (cfg n)) d of
              (d', verdict) \<Rightarrow>
                seq (update (\<lambda>n. n\<lparr>known_peers := dput p d' (known_peers n)\<rparr>)) (\<lambda>_.
                seq (lift_res verdict) (\<lambda>fresh.
                  if \<not> fresh \<or> task_live n (map_of (reconnect_tasks n) p) then ret ()
                  else seq create_task (\<lambda>t.
                    update (\<lambda>n. n\<lparr>reconnect_tasks := dput p t (reconnect_tasks n)\<rparr>)))))))"

definition reconnect_finished :: "pystr \<Rightarrow> nat \<Rightarrow> node \<Rightarrow> node" where
  "reconnect_finished p t n =
     (if map_of (reconnect_tasks n) p = Some t
      then n\<lparr>reconnect_tasks := dpop p (reconnect_tasks n)\<rparr> else n)"

text \<open>
  The last part of \<open>_connection_ended\<close>, after the manager and the connection have been awaited:
  \<open>was_canonical\<close> is what \<open>ended_begin\<close> returned, \<open>removed\<close> what the manager did.
\<close>

definition ended_finish ::
    "world \<Rightarrow> conn \<Rightarrow> protocol_session \<Rightarrow> bool \<Rightarrow> bool \<Rightarrow> unit node_act" where
  "ended_finish w c s was_canonical removed =
     (if was_canonical \<or> removed then
        seq (emit_event DISCONNECTED_EVENT (Some (session_peer_id s)) (Some c) None []) (\<lambda>_.
          schedule_reconnect w (session_peer_id s))
      else ret ())"

section \<open>Connecting and disconnecting\<close>

text \<open>
  \<open>connect\<close> and \<open>_connect_discovered\<close> before the manager is awaited: an existing connection,
  or the observation (whose freshness check may have re-anchored it) and the endpoint.
\<close>

definition connect_begin ::
    "world \<Rightarrow> pystr \<Rightarrow> discovered_peer \<Rightarrow> bool \<Rightarrow> (conn + discovered_peer \<times> endpoint) node_act" where
  "connect_begin w transport d reconnecting = reads (\<lambda>n.
     let p = peer_ident (disc_peer d) in
     case connection_for_peer w p n of
       Some c \<Rightarrow> ret (Inl c)
     | None \<Rightarrow>
         (case is_fresh (clk w) (peer_ttl (cfg n)) d of
            (d', verdict) \<Rightarrow>
              seq (lift_res verdict) (\<lambda>fresh.
                if \<not> fresh then
                  seq (emit_event PEER_EXPIRED (Some p) None None []) (\<lambda>_. raise PeerExpiredError)
                else
                  seq (lift_res (select_endpoint transport d')) (\<lambda>ep.
                  seq (emit_event (if reconnecting then EV_RECONNECTING else EV_CONNECTING)
                         (Some p) None None []) (\<lambda>_. ret (Inr (d', ep)))))))"

definition connect_request ::
    "world \<Rightarrow> pystr \<Rightarrow> target \<Rightarrow> (conn + discovered_peer \<times> endpoint) node_act" where
  "connect_request w transport tgt =
     seq ensure_running (\<lambda>_. reads (\<lambda>n.
     seq (lift_res (resolve_target w tgt n)) (\<lambda>d.
     seq (update (\<lambda>n. n\<lparr>reconnect_suppressed := removeAll (peer_ident (disc_peer d)) (reconnect_suppressed n)\<rparr>)) (\<lambda>_.
       connect_begin w transport d False))))"

text \<open>
  After the manager returned \<open>c\<close>. Without a session the caller closes the peer and raises;
  otherwise the reconnect task returned, if any, is cancelled.
\<close>

datatype connected = NoSession | Ready "nat option"

definition connect_end :: "world \<Rightarrow> conn \<Rightarrow> discovered_peer \<Rightarrow> nat \<Rightarrow> connected node_act" where
  "connect_end w c d current_task =
     seq (remember d) (\<lambda>_. reads (\<lambda>n.
       case map_of (sessions n) c of
         None \<Rightarrow> ret NoSession
       | Some s \<Rightarrow>
           let p = peer_ident (disc_peer d) in
           seq (ensure_reader w c s) (\<lambda>_.
           seq (update (\<lambda>n. n\<lparr>last_reconnect_errors := dpop p (last_reconnect_errors n)\<rparr>)) (\<lambda>_. reads (\<lambda>n.
             ret (Ready (case map_of (reconnect_tasks n) p of
                    Some t \<Rightarrow> if t \<noteq> current_task then Some t else None | None \<Rightarrow> None)))))))"

definition disconnect_begin :: "pystr \<Rightarrow> node \<Rightarrow> nat option \<times> node" where
  "disconnect_begin p n =
     (map_of (reconnect_tasks n) p, n\<lparr>reconnect_suppressed := List.insert p (reconnect_suppressed n)\<rparr>)"

text \<open>After the cancelled reconnect task, and after the heartbeat and the writer have ended.\<close>

definition disconnect_session :: "pystr \<Rightarrow> node \<Rightarrow> conn option \<times> node" where
  "disconnect_session p n =
     (case map_of (peer_connections n) p of
        None \<Rightarrow> (None, n)
      | Some c \<Rightarrow> (Some c, fail_pending_for_connection c (deactivate_session c n)))"

definition disconnect_finish :: "pystr \<Rightarrow> conn \<Rightarrow> unit node_act" where
  "disconnect_finish p c =
     seq (update (discard_connection c)) (\<lambda>_.
       emit_event DISCONNECTED_EVENT (Some p) (Some c) None
         [(PStr (lit ''reason''), PStr (lit ''explicit_disconnect''))])"

section \<open>The reconnect supervisor\<close>

text \<open>
  The decision at the head of the loop: stop, or wait \<open>delay\<close> and use the observation; and the
  decision after the sleep.
\<close>

datatype reconnect_decision = GiveUp | WaitDelay rat discovered_peer

definition reconnect_head ::
    "world \<Rightarrow> rat \<Rightarrow> reconnect_policy \<Rightarrow> pystr \<Rightarrow> nat \<Rightarrow> node \<Rightarrow> exn + reconnect_decision" where
  "reconnect_head w sample policy p tries n =
     (if \<not> running n \<or> p \<in> set (reconnect_suppressed n) then Inr GiveUp
      else if (case max_attempts policy of None \<Rightarrow> False | Some m \<Rightarrow> m \<le> int tries) then Inr GiveUp
      else (case map_of (known_peers n) p of
          None \<Rightarrow> Inr GiveUp
        | Some d \<Rightarrow>
            (case is_fresh (clk w) (peer_ttl (cfg n)) d of
               (d', verdict) \<Rightarrow> rbind verdict (\<lambda>fresh.
                 if \<not> fresh then Inr GiveUp
                 else rbind (delay_for_attempt policy (PInt (int tries)) PNone sample) (\<lambda>delay.
                   Inr (WaitDelay delay d'))))))"

definition reconnect_woken :: "pystr \<Rightarrow> node \<Rightarrow> bool" where
  "reconnect_woken p n \<longleftrightarrow> running n \<and> p \<notin> set (reconnect_suppressed n)"

definition reconnect_failed :: "pystr \<Rightarrow> exn \<Rightarrow> unit node_act" where
  "reconnect_failed p e =
     (if exn_isa e CancelledError then raise e
      else if exn_isa e ExceptionClass then
        update (\<lambda>n. n\<lparr>last_reconnect_errors := dput p e (last_reconnect_errors n)\<rparr>)
      else raise e)"

record reconnect_view =
  seen_world :: world
  seen_node :: node
  sample :: rat
  woken_node :: node
  attempt :: "exn + unit"

datatype reconnect_end = MarkDisconnected | StopSilently | Reconnected | Raised exn

partial_function (option) reconnect_loop ::
    "(nat \<Rightarrow> reconnect_view) \<Rightarrow> reconnect_policy \<Rightarrow> pystr \<Rightarrow> nat \<Rightarrow> (reconnect_end \<times> rat list) option" where
  "reconnect_loop view policy p tries =
     (case reconnect_head (seen_world (view tries)) (sample (view tries)) policy p tries
             (seen_node (view tries)) of
        Inl e \<Rightarrow> Some (Raised e, [])
      | Inr GiveUp \<Rightarrow> Some (MarkDisconnected, [])
      | Inr (WaitDelay delay d) \<Rightarrow>
          if \<not> reconnect_woken p (woken_node (view tries)) then Some (StopSilently, [delay])
          else (case attempt (view tries) of
              Inr _ \<Rightarrow> Some (Reconnected, [delay])
            | Inl e \<Rightarrow>
                if exn_isa e CancelledError \<or> \<not> exn_isa e ExceptionClass then Some (Raised e, [delay])
                else Option.bind (reconnect_loop view policy p (Suc tries)) (\<lambda>(r, ds). Some (r, delay # ds))))"

section \<open>Lemmas\<close>

lemma reconnect_head_wait:
  assumes "reconnect_head w x policy p k n = Inr (WaitDelay delay d)"
  shows "running n" "p \<notin> set (reconnect_suppressed n)" "max_attempts policy = Some m \<Longrightarrow> int k < m"
    "delay_for_attempt policy (PInt (int k)) PNone x = Inr delay"
proof -
  from assms have g: "running n \<and> p \<notin> set (reconnect_suppressed n)
      \<and> \<not> (case max_attempts policy of None \<Rightarrow> False | Some m \<Rightarrow> m \<le> int k)"
    by (simp add: reconnect_head_def split: if_split_asm)
  then show "running n" "p \<notin> set (reconnect_suppressed n)" "max_attempts policy = Some m \<Longrightarrow> int k < m"
    by auto
  from assms g show "delay_for_attempt policy (PInt (int k)) PNone x = Inr delay"
    by (auto simp: reconnect_head_def split: option.splits prod.splits if_split_asm elim!: rbind_InrE)
qed

lemma reconnect_loop_stops:
  assumes "\<nexists>delay d. reconnect_head (seen_world (view k)) (sample (view k)) policy p k
    (seen_node (view k)) = Inr (WaitDelay delay d)"
  shows "\<exists>r. reconnect_loop view policy p k = Some (r, [])"
  using assms by (subst reconnect_loop.simps) (auto split: sum.splits reconnect_decision.splits)

text \<open>The loop from round \<open>k\<close> on: it returns, having waited at most \<open>m - k\<close> times.\<close>

lemma reconnect_loop_bounded:
  assumes "policy_ok policy" "max_attempts policy = Some m" "int k \<le> m"
  shows "\<exists>r ds. reconnect_loop view policy p k = Some (r, ds) \<and> int (length ds) \<le> m - int k
    \<and> (\<forall>d \<in> set ds. initial_delay policy * (1 - jitter policy) \<le> d
         \<and> d \<le> maximum_delay policy * (1 + jitter policy))"
  using assms(3)
proof (induction "nat (m - int k)" arbitrary: k rule: less_induct)
  case less
  let ?head = "reconnect_head (seen_world (view k)) (sample (view k)) policy p k (seen_node (view k))"
  note unfold = reconnect_loop.simps [of view policy p k]
  consider (stop) r where "reconnect_loop view policy p k = Some (r, [])"
    | (wait) delay d where "?head = Inr (WaitDelay delay d)"
    using reconnect_loop_stops [of view k policy p] by blast
  then show ?case
  proof cases
    case stop
    with less.prems show ?thesis by auto
  next
    case wait
    note delay = delay_for_attempt_bounds [OF assms(1) reconnect_head_wait(4) [OF wait]]
    have k: "int k < m" by (rule reconnect_head_wait(3) [OF wait assms(2)])
    show ?thesis
    proof (cases "reconnect_woken p (woken_node (view k))
        \<and> (\<exists>e. attempt (view k) = Inl e \<and> \<not> exn_isa e CancelledError \<and> exn_isa e ExceptionClass)")
      case True
      obtain r ds where rest: "reconnect_loop view policy p (Suc k) = Some (r, ds)"
          "int (length ds) \<le> m - int (Suc k)"
          "\<forall>d \<in> set ds. initial_delay policy * (1 - jitter policy) \<le> d
             \<and> d \<le> maximum_delay policy * (1 + jitter policy)"
        using less.hyps [of "Suc k"] k by auto
      have "reconnect_loop view policy p k = Some (r, delay # ds)"
        using True wait rest(1) by (auto simp: unfold)
      with rest delay show ?thesis by auto
    next
      case False
      then have "\<exists>r. reconnect_loop view policy p k = Some (r, [delay])"
        using wait by (cases "attempt (view k)") (auto simp: unfold)
      with delay k show ?thesis by auto
    qed
  qed
qed

lemma connect_begin_existing:
  assumes "connection_for_peer w (peer_ident (disc_peer d)) n = Some c"
  shows "connect_begin w transport d reconnecting n = (Inr (Inl c), n)"
  using assms by (simp add: connect_begin_def)

lemma schedule_reconnect_creates:
  assumes "schedule_reconnect w p n = (Inr (), n')" "reconnect_tasks n' \<noteq> reconnect_tasks n"
  shows "reconnect_tasks n' = dput p (next_task n) (reconnect_tasks n)"
    "\<not> task_live n (map_of (reconnect_tasks n) p)"
    "running n" "enabled (reconnect (cfg n))" "p \<notin> set (reconnect_suppressed n)"
  using assms
  by (auto simp: schedule_reconnect_def create_task_def seq_def [of create_task] task_live_def task_done_def
      split: if_split_asm option.split_asm prod.split_asm sum.split_asm)

section \<open>Properties\<close>

text \<open>C23 The reconnect supervisor of a policy with \<open>max_attempts\<close> returns: whatever the node, the
  clocks and the transport do, it makes at most that many attempts, and every wait before an
  attempt is within the bounds of the policy's delays.\<close>

theorem reconnect_loop_terminates:
  assumes "policy_ok policy" "max_attempts policy = Some m"
  shows "\<exists>r ds. reconnect_loop view policy p 0 = Some (r, ds) \<and> int (length ds) \<le> m
    \<and> (\<forall>d \<in> set ds. initial_delay policy * (1 - jitter policy) \<le> d
         \<and> d \<le> maximum_delay policy * (1 + jitter policy))"
proof -
  have "0 \<le> m" using assms by (simp add: policy_ok_def)
  then show ?thesis using reconnect_loop_bounded [OF assms, of 0 view p] by simp
qed

definition failing_view :: "nat \<Rightarrow> reconnect_view" where
  "failing_view i =
     (let n = ready_node\<lparr>known_peers := [(lit ''b'', new_discovered \<lparr>utc_now = 0, monotonic = 0\<rparr>
            \<lparr>peer_ident = lit ''b'', peer_name = None, peer_metadata = []\<rparr> [] (utc_dt 0) [])]\<rparr>
      in \<lparr>seen_world = example_world, seen_node = n, sample = 0, woken_node = n,
          attempt = Inl TransportError\<rparr>)"

theorem reconnect_loop_terminates_witness:
  "\<exists>r ds. reconnect_loop failing_view example_policy (lit ''b'') 0 = Some (r, ds) \<and> length ds \<le> 5"
proof -
  have "policy_ok example_policy" "max_attempts example_policy = Some 5"
    by (simp_all add: policy_ok_def example_policy_def)
  from reconnect_loop_terminates [OF this, of failing_view "lit ''b''"] show ?thesis by auto
qed

text \<open>An explicit \<open>disconnect\<close> of a peer ends automatic reconnection to it at once: from its first
  step on, until \<open>connect\<close> lifts it, no reconnect supervisor is scheduled for the peer, a running
  one gives up at its next decision, before and after its sleep.\<close>

theorem disconnect_stops_reconnecting:
  "let n' = snd (disconnect_begin p n) in
     schedule_reconnect w p n' = (Inr (), n')
     \<and> reconnect_head w x policy p k n' = Inr GiveUp
     \<and> \<not> reconnect_woken p n'"
  by (simp add: disconnect_begin_def schedule_reconnect_def reconnect_head_def reconnect_woken_def)

text \<open>A session that was set up after its only waiter was cancelled is handed out unread: when the
  shielded setup of an outgoing connection registers its session, no reader task is started for
  it, and from then on \<open>connect\<close>, and with it \<open>send\<close> and \<open>request\<close>, return that connection
  without starting one, so that nothing the peer sends on it is ever received.\<close>

theorem unread_session_handed_out:
  assumes "registry_ok n" "session_peer_id s \<noteq> local_peer n" "map_of (sessions n) c = None"
    and "c \<notin> closed_conns w" "connection_for_peer w (session_peer_id s) n = None"
    and "map_of (reader_tasks n) c = None" "peer_ident (disc_peer d) = session_peer_id s"
  shows "let n' = snd (select_ready_connection w c s OUTBOUND n) in
    map_of (sessions n') c = Some s \<and> map_of (reader_tasks n') c = None
    \<and> connect_begin w transport d reconnecting n' = (Inr (Inl c), n')"
proof -
  let ?m = "without_closed w (session_peer_id s) n"
  let ?n' = "snd (select_ready_connection w c s OUTBOUND n)"
  have n': "?n' = snd (register_session w c s OUTBOUND ?m)"
    by (simp add: select_as_cases [OF assms(1,2)] assms(5) snd_seq_ret)
  have reg: "registry_of ?n' = registry_of (publish_session w c s OUTBOUND ?m)" by (simp add: n')
  have "reader_tasks (snd (emit_event t pid x err md k)) = reader_tasks k" for t pid x err md k
    by (simp add: emit_event_def split: option.splits sum.splits)
  moreover have "reader_tasks (snd (ensure_outbound_channel c k)) = reader_tasks k" for k
    by (simp add: ensure_outbound_channel_def create_task_def seq_def [of create_task] split: option.splits)
  moreover have "\<exists>q. snd (register_session w c s OUTBOUND ?m)
      = (snd (ensure_outbound_channel c (publish_session w c s OUTBOUND ?m)))\<lparr>event_queue := q\<rparr>"
    unfolding register_session_eq by (rule announce_session_only)
  moreover have "reader_tasks ?m = reader_tasks n"
    by (simp add: without_closed_def deactivate_session_def Let_def split: option.splits)
  ultimately have readers: "reader_tasks ?n' = reader_tasks n"
    by (auto simp: n' publish_session_def)
  have "map_of (sessions ?n') c = Some s" "connection_for_peer w (session_peer_id s) ?n' = Some c"
    using reg assms(4) by (simp_all add: registry_of_def publish_session_def connection_for_peer_def)
  with assms(6,7) readers show ?thesis
    by (simp add: Let_def connect_begin_existing)
qed

theorem unread_session_handed_out_witness:
  "\<exists>n' d. map_of (sessions n') 3 = Some (example_session (lit ''b'')) \<and> map_of (reader_tasks n') 3 = None
     \<and> connect_begin example_world (lit ''t'') d False n' = (Inr (Inl 3), n')"
proof -
  let ?d = "new_discovered \<lparr>utc_now = 0, monotonic = 0\<rparr>
    \<lparr>peer_ident = lit ''b'', peer_name = None, peer_metadata = []\<rparr> [] (utc_dt 0) []"
  have h: "registry_ok ready_node" "session_peer_id (example_session (lit ''b'')) \<noteq> local_peer ready_node"
    "map_of (sessions ready_node) 3 = None" "3 \<notin> closed_conns example_world"
    "connection_for_peer example_world (session_peer_id (example_session (lit ''b''))) ready_node = None"
    "map_of (reader_tasks ready_node) 3 = None"
    "peer_ident (disc_peer ?d) = session_peer_id (example_session (lit ''b''))"
    by (simp_all add: ready_node_def new_node_def example_session_def example_world_def
        connection_for_peer_def registry_ok_def new_discovered_def anchor_monotonic_age_def Let_def)
  from unread_session_handed_out [OF h, of "lit ''t''" False] show ?thesis
    by (auto simp: Let_def)
qed

end
