(* ===== verification/Lifecycle.thy ===== *)
theory Lifecycle
  imports Reconnect
begin

text \<open>
  Starting, stopping and refreshing a node: \<open>_start_locked\<close>, \<open>_stop_locked\<close>,
  \<open>_network_changed_serialized\<close> and \<open>_await_lifecycle_task\<close> of \<open>src/paqto/core/node.py\<close>. The
  transport, the listener and the discovery service are the caller's: what their methods do is a
  record of outcomes, and the model returns the list of the calls made.

  \<open>_stop_locked\<close> is cut at its three awaits. \<open>stop_begin\<close> is what happens before the first one,
  \<open>stop_tables\<close> what happens after the tasks have ended, \<open>stop_result\<close> how it returns.

  The lemmas: a failed start undoes what it began and leaves the node as it was; a stop answers
  every waiting caller and forgets every session; a stopped node is like a new one; and a
  cancelled caller of \<open>stop\<close> sees its cancellation only after the stop has finished.
\<close>

section \<open>Starting\<close>

datatype service_call =
    TransportStart | CreateListener | ListenerStart | LocalEndpoint | DiscoveryStart
  | DiscoveryStop | ListenerClose | TransportStop

type_synonym service_io = "service_call \<Rightarrow> exn + unit"

fun call_until_failure :: "service_io \<Rightarrow> service_call list \<Rightarrow> service_call list \<times> (exn + unit)" where
  "call_until_failure io [] = ([], Inr ())"
| "call_until_failure io (c # cs) =
     (case io c of
        Inl e \<Rightarrow> ([c], Inl e)
      | Inr _ \<Rightarrow> (case call_until_failure io cs of (called, r) \<Rightarrow> (c # called, r)))"

definition start_calls :: "service_call list" where
  "start_calls = [TransportStart, CreateListener, ListenerStart, LocalEndpoint, DiscoveryStart]"

text \<open>
  The clean-up of a failed start: \<open>transport_attempted\<close> is set before the first call, the
  listener exists once the second one returned, \<open>discovery_attempted\<close> is set before the fourth.
\<close>

definition rollback_calls :: "service_call list \<Rightarrow> service_call list" where
  "rollback_calls called =
     (if LocalEndpoint \<in> set called then [DiscoveryStop] else [])
     @ (if ListenerStart \<in> set called then [ListenerClose] else [])
     @ (if TransportStart \<in> set called then [TransportStop] else [])"

text \<open>The node after its services have started: queues, dispatch workers, event and accept task.\<close>

definition open_generation :: "node \<Rightarrow> node" where
  "open_generation n = n\<lparr>listening := True, running := True,
     lifecycle_generation := Suc (lifecycle_generation n), inbound_queue := Some [],
     event_queue := Some []\<rparr>"

fun start_workers :: "nat \<Rightarrow> unit node_act" where
  "start_workers 0 = ret ()"
| "start_workers (Suc k) = seq start_dispatch_worker (\<lambda>_. start_workers k)"

definition begin_generation :: "unit node_act" where
  "begin_generation =
     seq (update open_generation) (\<lambda>_. reads (\<lambda>n.
     seq (start_workers (nat (handler_concurrency (cfg n)))) (\<lambda>_.
     seq create_task (\<lambda>e. seq (update (\<lambda>n. n\<lparr>event_task := Some e\<rparr>)) (\<lambda>_.
     seq create_task (\<lambda>a. update (\<lambda>n. n\<lparr>accept_task := Some a\<rparr>)))))))"

definition start_node :: "service_io \<Rightarrow> node \<Rightarrow> service_call list \<times> (exn + unit) \<times> node" where
  "start_node io n =
     (if running n then ([], Inl AlreadyStartedError, n)
      else (case call_until_failure io start_calls of
          (called, Inl e) \<Rightarrow> (called @ rollback_calls called, Inl e, n\<lparr>listening := False\<rparr>)
        | (called, Inr _) \<Rightarrow> (called, begin_generation n)))"

section \<open>Stopping\<close>

record stop_plan =
  plan_cancelled :: "nat list"
  plan_connections :: "conn list"
  plan_listener :: bool

text \<open>The tasks that are cancelled; \<open>excluded\<close> are the stopping task and its caller.\<close>

definition stop_tasks :: "nat set \<Rightarrow> node \<Rightarrow> nat list" where
  "stop_tasks excluded n = filter (\<lambda>t. t \<notin> excluded)
     ((case accept_task n of Some t \<Rightarrow> [t] | None \<Rightarrow> []) @ List.map snd (reader_tasks n)
      @ handler_tasks n @ List.map snd (heartbeat_tasks n) @ List.map snd (reconnect_tasks n)
      @ List.map (\<lambda>(c, k). ch_task (channel_of k n)) (outbound_channels n)
      @ (case event_task n of Some t \<Rightarrow> [t] | None \<Rightarrow> []))"

definition forget_sessions :: "node \<Rightarrow> node" where
  "forget_sessions n = n\<lparr>listening := False, incoming_connections := [], outgoing_connections := [],
     sessions := [], session_connections := [], session_directions := [], peer_connections := [],
     last_received_activity := []\<rparr>"

definition stop_begin :: "nat set \<Rightarrow> node \<Rightarrow> stop_plan \<times> node" where
  "stop_begin excluded n =
     (let n1 = fail_all_heartbeats (fail_all_pending (n\<lparr>running := False\<rparr>));
          n2 = fail_all_outbound ConnectionClosedError n1
      in (\<lparr>plan_cancelled = stop_tasks excluded n1,
           plan_connections = remdups (incoming_connections n2 @ outgoing_connections n2),
           plan_listener = listening n2\<rparr>,
          forget_sessions n2))"

definition stop_tables :: "node \<Rightarrow> node" where
  "stop_tables n = n\<lparr>reader_tasks := [], handler_tasks := [], heartbeat_tasks := [],
     reconnect_tasks := [], reconnect_suppressed := [], last_reconnect_errors := [],
     known_peers := [], accept_task := None, event_task := None, outbound_channels := [],
     inbound_queue := None, event_queue := None\<rparr>"

text \<open>
  The results of closing (connections, manager, listener) and of stopping the two services: the
  first failure that is no cancellation is raised.
\<close>

definition stop_result :: "(exn + unit) list \<Rightarrow> exn + unit" where
  "stop_result rs =
     (case filter (\<lambda>e. \<not> exn_isa e CancelledError) (List.map projl (filter isl rs)) of
        [] \<Rightarrow> Inr () | e # _ \<Rightarrow> Inl e)"

definition stop_node :: "nat set \<Rightarrow> node \<Rightarrow> stop_plan option \<times> node" where
  "stop_node excluded n =
     (if running n then (case stop_begin excluded n of (plan, n') \<Rightarrow> (Some plan, stop_tables n'))
      else (None, n))"

section \<open>Refreshing\<close>

definition network_targets :: "node \<Rightarrow> pystr list" where
  "network_targets n = dkeys (peer_connections n) @ dkeys (reconnect_tasks n)"

definition network_resume :: "world \<Rightarrow> pystr list \<Rightarrow> discovered_peer list \<Rightarrow> unit node_act" where
  "network_resume w wanted found =
     each (\<lambda>d. if peer_ident (disc_peer d) \<in> set wanted
               then schedule_reconnect w (peer_ident (disc_peer d)) else ret ()) found"

section \<open>Waiting for a transition\<close>

text \<open>
  What the awaiting caller sees: its own cancellation, with what the shielded task has become by
  then, or the end of the task. A cancelled task ends with \<open>CancelledError\<close>.
\<close>

datatype 'a wait_event = CallerCancelled "(exn + 'a) option" | TaskEnded "exn + 'a"

fun await_lifecycle :: "bool \<Rightarrow> 'a wait_event list \<Rightarrow> (exn + 'a) option" where
  "await_lifecycle cancelled [] = None"
| "await_lifecycle cancelled (CallerCancelled None # evs) = await_lifecycle True evs"
| "await_lifecycle cancelled (CallerCancelled (Some r) # evs) = Some (Inl CancelledError)"
| "await_lifecycle cancelled (TaskEnded (Inl e) # evs) =
     Some (Inl (if cancelled \<or> exn_isa e CancelledError then CancelledError else e))"
| "await_lifecycle cancelled (TaskEnded (Inr x) # evs) =
     Some (if cancelled then Inl CancelledError else Inr x)"

section \<open>Lemmas\<close>

lemma start_dispatch_worker_eq: "start_dispatch_worker n =
    (Inr (), n\<lparr>handler_tasks := List.insert (next_task n) (handler_tasks n), next_task := Suc (next_task n)\<rparr>)"
  by (simp add: start_dispatch_worker_def create_task_def seq_def [of create_task])

lemma start_workers_eq:
  assumes "\<forall>u \<in> set (handler_tasks n). u < next_task n"
  shows "\<exists>hs. start_workers k n = (Inr (), n\<lparr>handler_tasks := hs, next_task := next_task n + k\<rparr>)
    \<and> length hs = length (handler_tasks n) + k \<and> (\<forall>u \<in> set hs. u < next_task n + k)"
  using assms
proof (induction k arbitrary: n)
  case (Suc k)
  let ?n = "n\<lparr>handler_tasks := next_task n # handler_tasks n, next_task := Suc (next_task n)\<rparr>"
  have new: "next_task n \<notin> set (handler_tasks n)" using Suc.prems by auto
  have "\<forall>u \<in> set (handler_tasks ?n). u < next_task ?n" using Suc.prems by auto
  from Suc.IH [OF this] obtain hs where hs: "start_workers k ?n
      = (Inr (), ?n\<lparr>handler_tasks := hs, next_task := next_task ?n + k\<rparr>)"
      "length hs = Suc (length (handler_tasks n)) + k" "\<forall>u \<in> set hs. u < Suc (next_task n) + k"
    by auto
  have "start_dispatch_worker n = (Inr (), ?n)" using new by (simp add: start_dispatch_worker_eq)
  with hs show ?case by (intro exI [of _ hs]) (simp add: seq_def)
next
  case 0
  have "n\<lparr>handler_tasks := handler_tasks n, next_task := next_task n\<rparr> = n" by (cases n) simp
  with 0 show ?case by (intro exI [of _ "handler_tasks n"]) simp
qed

lemma begin_generation_eq:
  assumes "handler_tasks n = []"
  shows "\<exists>n'. begin_generation n = (Inr (), n') \<and> running n' \<and> listening n'
    \<and> lifecycle_generation n' = Suc (lifecycle_generation n)
    \<and> inbound_queue n' = Some [] \<and> event_queue n' = Some []
    \<and> length (handler_tasks n') = nat (handler_concurrency (cfg n))
    \<and> accept_task n' \<noteq> None \<and> event_task n' \<noteq> None
    \<and> registry_of n' = registry_of n \<and> known_peers n' = known_peers n"
proof -
  have "handler_tasks (open_generation n) = []" using assms by (simp add: open_generation_def)
  then obtain hs where hs: "start_workers (nat (handler_concurrency (cfg (open_generation n)))) (open_generation n)
      = (Inr (), (open_generation n)\<lparr>handler_tasks := hs,
          next_task := next_task (open_generation n) + nat (handler_concurrency (cfg (open_generation n)))\<rparr>)"
      "length hs = nat (handler_concurrency (cfg (open_generation n)))"
    using start_workers_eq [of "open_generation n"] by auto
  then show ?thesis
    by (simp add: begin_generation_def seq_def [of "start_workers _"] create_task_def
        seq_def [of create_task] open_generation_def registry_of_def)
qed

lemma call_until_failure_ok: "call_until_failure io cs = (called, Inr u) \<Longrightarrow>
    called = cs \<and> (\<forall>c \<in> set cs. io c = Inr ())"
  by (induction cs arbitrary: called) (auto split: sum.splits prod.splits)

lemma call_until_failure_error: "call_until_failure io cs = (called, Inl e) \<Longrightarrow>
    \<exists>c before rest. cs = before @ c # rest \<and> called = before @ [c] \<and> io c = Inl e
      \<and> (\<forall>b \<in> set before. io b = Inr ())"
proof (induction cs arbitrary: called)
  case (Cons x cs)
  show ?case
  proof (cases "io x")
    case (Inl y)
    with Cons.prems show ?thesis by (intro exI [of _ x] exI [of _ "[]"] exI [of _ cs]) auto
  next
    case (Inr u)
    with Cons.prems obtain c1 where c1: "call_until_failure io cs = (c1, Inl e)" "called = x # c1"
      by (auto split: prod.splits)
    from Cons.IH [OF c1(1)] obtain c before rest where
      "cs = before @ c # rest" "c1 = before @ [c]" "io c = Inl e" "\<forall>b \<in> set before. io b = Inr ()"
      by blast
    with c1(2) Inr show ?thesis by (intro exI [of _ c] exI [of _ "x # before"] exI [of _ rest]) auto
  qed
qed simp

text \<open>Failing everything touches futures and channels only.\<close>

definition same_but_work :: "node \<Rightarrow> node \<Rightarrow> bool" where
  "same_but_work n m \<longleftrightarrow> m = n\<lparr>futures := futures m, channel_store := channel_store m\<rparr>"

lemma same_refl [simp]: "same_but_work n n"
  by (simp add: same_but_work_def)

lemma same_trans [trans]:
  assumes "same_but_work a b" "same_but_work b c" shows "same_but_work a c"
proof -
  have "c = b\<lparr>futures := futures c, channel_store := channel_store c\<rparr>"
    using assms(2) by (simp add: same_but_work_def)
  also have "b = a\<lparr>futures := futures b, channel_store := channel_store b\<rparr>"
    using assms(1) by (simp add: same_but_work_def)
  finally show ?thesis by (simp add: same_but_work_def)
qed

lemma same_futures: "same_but_work n (n\<lparr>futures := fs\<rparr>)" "same_but_work n (n\<lparr>channel_store := cs\<rparr>)"
  by (simp_all add: same_but_work_def)

lemma same_complete: "same_but_work n (complete_future f v n)"
  by (simp add: complete_future_def same_futures)

lemma same_fail_futures: "same_but_work n (fail_futures v d n)"
proof (induction d arbitrary: n)
  case (Cons x d)
  obtain k pd where "x = (k, pd)" by (cases x)
  with Cons [of "complete_future (pd_future pd) v n"] show ?case
    using same_trans [OF same_complete] by simp
qed simp

lemma same_fail_frames: "same_but_work n (fail_frames e frs n)"
proof (induction frs arbitrary: n)
  case (Cons x frs)
  from Cons [of "complete_future (fr_future x) (FutureError e) n"] show ?case
    using same_trans [OF same_complete] by (simp add: fail_frames_def set_future_error_def)
qed (simp add: fail_frames_def)

lemma same_fail_queue: "same_but_work n (fail_outbound_queue k e n)"
  unfolding fail_outbound_queue_def Let_def set_channel_def
  by (rule same_trans [OF same_futures(2) same_fail_frames])

lemma same_fail_all_outbound: "same_but_work n (fail_all_outbound e n)"
proof -
  have "same_but_work n (fold (\<lambda>(c, k) n. fail_outbound_queue k e
      (case ch_current (channel_of k n) of Some fr \<Rightarrow> set_future_error (fr_future fr) e n | None \<Rightarrow> n)) xs n)"
    for xs
  proof (induction xs arbitrary: n)
    case (Cons x xs)
    obtain c k where x: "x = (c, k)" by (cases x)
    let ?m = "case ch_current (channel_of k n) of Some fr \<Rightarrow> set_future_error (fr_future fr) e n | None \<Rightarrow> n"
    have "same_but_work n ?m" by (auto simp: set_future_error_def same_complete split: option.split)
    then have "same_but_work n (fail_outbound_queue k e ?m)" using same_trans same_fail_queue by blast
    with Cons show ?case using same_trans by (simp add: x)
  qed simp
  then show ?thesis by (simp add: fail_all_outbound_def)
qed

lemma same_fields:
  assumes "same_but_work n m"
  shows "incoming_connections m = incoming_connections n" "outgoing_connections m = outgoing_connections n"
    "outbound_channels m = outbound_channels n" "running m = running n" "cfg m = cfg n"
    "pending_requests m = pending_requests n" "pending_acknowledgements m = pending_acknowledgements n"
    "pending_heartbeats m = pending_heartbeats n" "lifecycle_generation m = lifecycle_generation n"
    "local_peer m = local_peer n" "next_task m = next_task n" "finished m = finished n"
proof -
  obtain fs cs where "m = n\<lparr>futures := fs, channel_store := cs\<rparr>"
    using assms unfolding same_but_work_def by blast
  then show "incoming_connections m = incoming_connections n" "outgoing_connections m = outgoing_connections n"
    "outbound_channels m = outbound_channels n" "running m = running n" "cfg m = cfg n"
    "pending_requests m = pending_requests n" "pending_acknowledgements m = pending_acknowledgements n"
    "pending_heartbeats m = pending_heartbeats n" "lifecycle_generation m = lifecycle_generation n"
    "local_peer m = local_peer n" "next_task m = next_task n" "finished m = finished n"
    by simp_all
qed

text \<open>Failing everything answers whoever waits.\<close>

lemma fail_queue_state:
  "future_state g (fail_outbound_queue k e n) =
     (if future_state g n = Waiting \<and> g \<in> fr_future ` set (ch_queue (channel_of k n)) then FutureError e
      else future_state g n)"
  by (simp add: fail_outbound_queue_def Let_def fail_frames_state)

lemma channel_of_set_other: "j \<noteq> k \<Longrightarrow> channel_of j (set_channel k ch n) = channel_of j n"
  by (auto simp: channel_of_def set_channel_def)

definition fail_channel :: "exn \<Rightarrow> conn \<times> nat \<Rightarrow> node \<Rightarrow> node" where
  "fail_channel e ck n = fail_outbound_queue (snd ck) e
     (case ch_current (channel_of (snd ck) n) of
        Some fr \<Rightarrow> set_future_error (fr_future fr) e n | None \<Rightarrow> n)"

lemma fail_all_outbound_fold: "fail_all_outbound e n = fold (fail_channel e) (outbound_channels n) n"
proof -
  have "(\<lambda>(c, k) n. fail_outbound_queue k e (case ch_current (channel_of k n) of
      Some fr \<Rightarrow> set_future_error (fr_future fr) e n | None \<Rightarrow> n)) = fail_channel e"
    by (auto simp: fun_eq_iff fail_channel_def)
  then show ?thesis by (simp add: fail_all_outbound_def)
qed

lemma fail_channel_state:
  "future_state g (fail_channel e ck n) =
     (if future_state g n = Waiting \<and> g \<in> fr_future ` set (backlog (snd ck) n) then FutureError e
      else future_state g n)"
  by (auto simp: fail_channel_def fail_queue_state backlog_def set_future_error_def complete_future_state
      split: option.splits)

lemma fail_channel_backlog: "j \<noteq> snd ck \<Longrightarrow> backlog j (fail_channel e ck n) = backlog j n"
  by (auto simp: fail_channel_def fail_outbound_queue_def Let_def backlog_def channel_of_set_other
      set_future_error_def split: option.splits)

lemma fail_channels_state:
  assumes "future_state g n \<noteq> Waiting
    \<or> (\<exists>ck \<in> set cks. g \<in> fr_future ` set (backlog (snd ck) n))"
  shows "future_state g (fold (fail_channel e) cks n) \<noteq> Waiting"
  using assms
proof (induction cks arbitrary: n)
  case (Cons x cks)
  have "future_state g (fail_channel e x n) \<noteq> Waiting
      \<or> (\<exists>ck \<in> set cks. g \<in> fr_future ` set (backlog (snd ck) (fail_channel e x n)))"
  proof (cases "future_state g n \<noteq> Waiting \<or> g \<in> fr_future ` set (backlog (snd x) n)")
    case False
    with Cons.prems obtain ck where ck: "ck \<in> set cks" "g \<in> fr_future ` set (backlog (snd ck) n)"
      by auto
    with False have "snd ck \<noteq> snd x" by auto
    with ck(2) have "g \<in> fr_future ` set (backlog (snd ck) (fail_channel e x n))"
      by (simp add: fail_channel_backlog)
    with ck(1) show ?thesis by blast
  qed (auto simp: fail_channel_state)
  then show ?case using Cons.IH by simp
qed simp

lemma fail_all_outbound_state:
  assumes "future_state g n \<noteq> Waiting
    \<or> (\<exists>ck \<in> set (outbound_channels n). g \<in> fr_future ` set (backlog (snd ck) n))"
  shows "future_state g (fail_all_outbound e n) \<noteq> Waiting"
  using fail_channels_state [OF assms] by (simp add: fail_all_outbound_fold)

lemma fail_futures_keep:
  "v \<noteq> Waiting \<Longrightarrow> future_state g n \<noteq> Waiting \<Longrightarrow> future_state g (fail_futures v d n) \<noteq> Waiting"
  by (simp add: fail_futures_state)

lemma fail_futures_hit:
  "v \<noteq> Waiting \<Longrightarrow> (k, pd) \<in> set d \<Longrightarrow> future_state (pd_future pd) (fail_futures v d n) \<noteq> Waiting"
  by (auto simp: fail_futures_state)

lemma fail_all_pending_state:
  "future_state g n \<noteq> Waiting \<Longrightarrow> future_state g (fail_all_pending n) \<noteq> Waiting"
  "(k, pd) \<in> set (pending_requests n @ pending_acknowledgements n) \<Longrightarrow>
     future_state (pd_future pd) (fail_all_pending n) \<noteq> Waiting"
proof -
  have st: "future_state h (n\<lparr>pending_requests := [], pending_acknowledgements := []\<rparr>) = future_state h n"
    for h by (simp add: future_state_def)
  show "future_state g n \<noteq> Waiting \<Longrightarrow> future_state g (fail_all_pending n) \<noteq> Waiting"
    unfolding fail_all_pending_def by (intro fail_futures_keep) (simp_all add: st)
  assume "(k, pd) \<in> set (pending_requests n @ pending_acknowledgements n)"
  then consider "(k, pd) \<in> set (pending_requests n)" | "(k, pd) \<in> set (pending_acknowledgements n)"
    by auto
  then show "future_state (pd_future pd) (fail_all_pending n) \<noteq> Waiting"
    unfolding fail_all_pending_def
  proof cases
    case 1
    then show "future_state (pd_future pd) (fail_futures (FutureError AcknowledgementError)
        (pending_acknowledgements n) (fail_futures (FutureError RequestError) (pending_requests n)
          (n\<lparr>pending_requests := [], pending_acknowledgements := []\<rparr>))) \<noteq> Waiting"
      by (intro fail_futures_keep fail_futures_hit [of _ k]) simp_all
  next
    case 2
    then show "future_state (pd_future pd) (fail_futures (FutureError AcknowledgementError)
        (pending_acknowledgements n) (fail_futures (FutureError RequestError) (pending_requests n)
          (n\<lparr>pending_requests := [], pending_acknowledgements := []\<rparr>))) \<noteq> Waiting"
      by (intro fail_futures_hit [of _ k]) simp_all
  qed
qed

lemma fail_all_heartbeats_state:
  "future_state g n \<noteq> Waiting \<Longrightarrow> future_state g (fail_all_heartbeats n) \<noteq> Waiting"
  "(k, pd) \<in> set (pending_heartbeats n) \<Longrightarrow> future_state (pd_future pd) (fail_all_heartbeats n) \<noteq> Waiting"
proof -
  have st: "future_state h (n\<lparr>pending_heartbeats := []\<rparr>) = future_state h n"
    for h by (simp add: future_state_def)
  show "future_state g n \<noteq> Waiting \<Longrightarrow> future_state g (fail_all_heartbeats n) \<noteq> Waiting"
    unfolding fail_all_heartbeats_def by (intro fail_futures_keep) (simp_all add: st)
  show "(k, pd) \<in> set (pending_heartbeats n) \<Longrightarrow> future_state (pd_future pd) (fail_all_heartbeats n) \<noteq> Waiting"
    unfolding fail_all_heartbeats_def by (rule fail_futures_hit) simp_all
qed

text \<open>What the futures of \<open>stop_begin\<close> are, and everything else it leaves.\<close>

definition failed_all :: "node \<Rightarrow> node" where
  "failed_all n = fail_all_outbound ConnectionClosedError
     (fail_all_heartbeats (fail_all_pending (n\<lparr>running := False\<rparr>)))"

lemma stop_begin_eq:
  "snd (stop_begin excluded n) = forget_sessions (failed_all n)"
  "plan_connections (fst (stop_begin excluded n)) =
     remdups (incoming_connections (failed_all n) @ outgoing_connections (failed_all n))"
  by (simp_all add: stop_begin_def failed_all_def Let_def)

lemma fail_all_pending_same:
  "same_but_work (n\<lparr>pending_requests := [], pending_acknowledgements := []\<rparr>) (fail_all_pending n)"
  unfolding fail_all_pending_def by (rule same_trans [OF same_fail_futures same_fail_futures])

lemma fail_all_heartbeats_same:
  "same_but_work (n\<lparr>pending_heartbeats := []\<rparr>) (fail_all_heartbeats n)"
  unfolding fail_all_heartbeats_def by (rule same_fail_futures)

lemma failed_all_eq:
  obtains fs cs where "failed_all n = n\<lparr>running := False, pending_requests := [],
    pending_acknowledgements := [], pending_heartbeats := [], futures := fs, channel_store := cs\<rparr>"
proof -
  let ?a = "fail_all_pending (n\<lparr>running := False\<rparr>)"
  let ?b = "fail_all_heartbeats ?a"
  obtain f1 c1 where a: "?a = n\<lparr>running := False, pending_requests := [],
      pending_acknowledgements := [], futures := f1, channel_store := c1\<rparr>"
    using fail_all_pending_same [of "n\<lparr>running := False\<rparr>"] unfolding same_but_work_def by auto
  obtain f2 c2 where b: "?b = ?a\<lparr>pending_heartbeats := [], futures := f2, channel_store := c2\<rparr>"
    using fail_all_heartbeats_same [of ?a] unfolding same_but_work_def by blast
  obtain f3 c3 where c: "failed_all n = ?b\<lparr>futures := f3, channel_store := c3\<rparr>"
    using same_fail_all_outbound [of ?b ConnectionClosedError] unfolding same_but_work_def failed_all_def
    by blast
  have "?b = n\<lparr>running := False, pending_requests := [], pending_acknowledgements := [],
      pending_heartbeats := [], futures := f2, channel_store := c2\<rparr>"
    by (subst b) (simp add: a)
  then show ?thesis by (intro that [of c3 f3]) (simp add: c)
qed

lemma failed_all_state:
  "(k, pd) \<in> set (pending_requests n @ pending_acknowledgements n @ pending_heartbeats n) \<Longrightarrow>
     future_state (pd_future pd) (failed_all n) \<noteq> Waiting"
  "(c, j) \<in> set (outbound_channels n) \<Longrightarrow> fr \<in> set (backlog j n) \<Longrightarrow>
     future_state (fr_future fr) (failed_all n) \<noteq> Waiting"
proof -
  let ?a = "fail_all_pending (n\<lparr>running := False\<rparr>)"
  let ?b = "fail_all_heartbeats ?a"
  have hb: "pending_heartbeats ?a = pending_heartbeats n" by (simp add: fail_all_pending_def)
  have chan: "outbound_channels ?b = outbound_channels n" "backlog j ?b = backlog j n" for j
  proof -
    have [simp]: "channel_store (fail_futures v d m) = channel_store m"
      "outbound_channels (fail_futures v d m) = outbound_channels m" for v d m
      by (induction d arbitrary: m) auto
    show "outbound_channels ?b = outbound_channels n" "backlog j ?b = backlog j n"
      by (simp_all add: fail_all_heartbeats_def fail_all_pending_def backlog_def channel_of_def)
  qed
  show "future_state (pd_future pd) (failed_all n) \<noteq> Waiting"
    if "(k, pd) \<in> set (pending_requests n @ pending_acknowledgements n @ pending_heartbeats n)"
  proof -
    have "future_state (pd_future pd) ?b \<noteq> Waiting"
    proof (cases "(k, pd) \<in> set (pending_heartbeats n)")
      case True
      then show ?thesis by (intro fail_all_heartbeats_state(2) [of k]) (simp add: hb)
    next
      case False
      with that have "(k, pd) \<in> set (pending_requests (n\<lparr>running := False\<rparr>)
          @ pending_acknowledgements (n\<lparr>running := False\<rparr>))" by auto
      from fail_all_pending_state(2) [OF this] show ?thesis by (rule fail_all_heartbeats_state(1))
    qed
    then show ?thesis unfolding failed_all_def by (intro fail_all_outbound_state) simp
  qed
  show "future_state (fr_future fr) (failed_all n) \<noteq> Waiting"
    if "(c, j) \<in> set (outbound_channels n)" "fr \<in> set (backlog j n)"
    unfolding failed_all_def
    by (rule fail_all_outbound_state) (use that chan in force)
qed

section \<open>Properties\<close>



text \<open>A stop answers everyone who waits and forgets every session: after its first step, before
  anything is awaited, no request, acknowledgement, heartbeat or queued or current frame of a
  session writer has a waiting future, no session, correlation or admitted connection is left,
  and every connection that was admitted is in the list to be closed, once.\<close>

theorem stop_answers_everyone:
  "case stop_begin excluded n of (plan, n') \<Rightarrow>
     (\<forall>(k, pd) \<in> set (pending_requests n @ pending_acknowledgements n @ pending_heartbeats n).
        future_state (pd_future pd) n' \<noteq> Waiting)
     \<and> (\<forall>(c, j) \<in> set (outbound_channels n). \<forall>fr \<in> set (backlog j n).
        future_state (fr_future fr) n' \<noteq> Waiting)
     \<and> \<not> running n' \<and> pending_requests n' = [] \<and> pending_acknowledgements n' = []
     \<and> pending_heartbeats n' = [] \<and> sessions n' = [] \<and> peer_connections n' = []
     \<and> active_connection_count n' = 0
     \<and> set (plan_connections plan) = set (incoming_connections n) \<union> set (outgoing_connections n)
     \<and> distinct (plan_connections plan)"
proof -
  obtain fs cs where f: "failed_all n = n\<lparr>running := False, pending_requests := [],
      pending_acknowledgements := [], pending_heartbeats := [], futures := fs, channel_store := cs\<rparr>"
    by (rule failed_all_eq)
  have st: "future_state g (forget_sessions m) = future_state g m" for g m
    by (simp add: forget_sessions_def future_state_def)
  obtain plan n' where pn: "stop_begin excluded n = (plan, n')" by (cases "stop_begin excluded n")
  have n': "n' = forget_sessions (failed_all n)"
    and plan: "plan_connections plan = remdups (incoming_connections n @ outgoing_connections n)"
    using stop_begin_eq [of excluded n] by (simp_all add: pn f)
  have "\<forall>(k, pd) \<in> set (pending_requests n @ pending_acknowledgements n @ pending_heartbeats n).
        future_state (pd_future pd) n' \<noteq> Waiting"
    using failed_all_state(1) by (auto simp: n' st)
  moreover have "\<forall>(c, j) \<in> set (outbound_channels n). \<forall>fr \<in> set (backlog j n).
        future_state (fr_future fr) n' \<noteq> Waiting"
    using failed_all_state(2) by (auto simp: n' st)
  moreover have "\<not> running n' \<and> pending_requests n' = [] \<and> pending_acknowledgements n' = []
     \<and> pending_heartbeats n' = [] \<and> sessions n' = [] \<and> peer_connections n' = []
     \<and> active_connection_count n' = 0"
    by (simp add: n' forget_sessions_def f active_connection_count_def)
  ultimately show ?thesis by (simp add: pn plan)
qed

theorem stop_answers_everyone_witness:
  "future_state 0 (snd (stop_begin {} example_pending)) \<noteq> Waiting"
  using stop_answers_everyone [where excluded = "{}" and n = example_pending] by (auto simp: example_pending_def)

text \<open>Stopping leaves a node as if it had just been created: when a stop has run through, every
  table, queue and cache of the node is that of a new node with the same identity and
  configuration; only the generation counter, and the futures, channel objects and task
  identities that others may still hold, remember the past.\<close>

theorem stopped_node_is_new:
  assumes "running n"
  shows "\<exists>fs cs. snd (stop_node excluded n) = (new_node (local_peer n) (cfg n))
    \<lparr>lifecycle_generation := lifecycle_generation n, futures := fs, channel_store := cs,
     next_task := next_task n, finished := finished n\<rparr>"
proof -
  obtain fs cs where f: "failed_all n = n\<lparr>running := False, pending_requests := [],
      pending_acknowledgements := [], pending_heartbeats := [], futures := fs, channel_store := cs\<rparr>"
    by (rule failed_all_eq)
  have "snd (stop_node excluded n) = stop_tables (forget_sessions (failed_all n))"
    using assms stop_begin_eq(1) [of excluded n]
    by (cases "stop_begin excluded n") (simp add: stop_node_def)
  also have "\<dots> = (new_node (local_peer n) (cfg n))
    \<lparr>lifecycle_generation := lifecycle_generation n, futures := fs, channel_store := cs,
     next_task := next_task n, finished := finished n\<rparr>"
    by (simp add: f stop_tables_def forget_sessions_def new_node_def)
  finally show ?thesis by blast
qed

theorem stopped_node_is_new_witness:
  "\<exists>fs cs. snd (stop_node {} ready_node) = (new_node (lit ''a'') example_config)
     \<lparr>futures := fs, channel_store := cs\<rparr>"
proof -
  have "running ready_node" by (simp add: ready_node_def)
  from stopped_node_is_new [OF this, of "{}"] show ?thesis
    by (auto simp: ready_node_def new_node_def)
qed

text \<open>A lifecycle transition is never abandoned half way: whoever awaits a stop or a refresh gets
  an answer only once the transition itself has ended, however often it is cancelled before, and
  the answer is \<open>CancelledError\<close> if it was cancelled and the transition's own result otherwise.\<close>

theorem cancellation_after_transition:
  assumes "await_lifecycle False evs = Some answer"
  shows "\<exists>k rest end_event. evs = replicate k (CallerCancelled None) @ end_event # rest
    \<and> end_event \<noteq> CallerCancelled None
    \<and> answer = (case end_event of
         CallerCancelled _ \<Rightarrow> Inl CancelledError
       | TaskEnded r \<Rightarrow> if k > 0 \<or> (\<exists>e. r = Inl e \<and> exn_isa e CancelledError)
                       then Inl CancelledError else r)"
proof -
  have "\<exists>k rest end_event. evs = replicate k (CallerCancelled None) @ end_event # rest
    \<and> end_event \<noteq> CallerCancelled None
    \<and> answer = (case end_event of
         CallerCancelled _ \<Rightarrow> Inl CancelledError
       | TaskEnded r \<Rightarrow> if c \<or> k > 0 \<or> (\<exists>e. r = Inl e \<and> exn_isa e CancelledError)
                       then Inl CancelledError else r)"
    if "await_lifecycle c evs = Some answer" for c
    using that
  proof (induction c evs rule: await_lifecycle.induct)
    case (2 c evs)
    then obtain k rest end_event where "evs = replicate k (CallerCancelled None) @ end_event # rest"
      "end_event \<noteq> CallerCancelled None"
      "answer = (case end_event of CallerCancelled _ \<Rightarrow> Inl CancelledError
        | TaskEnded r \<Rightarrow> if True \<or> k > 0 \<or> (\<exists>e. r = Inl e \<and> exn_isa e CancelledError)
                        then Inl CancelledError else r)"
      by auto
    then show ?case
      by (intro exI [of _ "Suc k"] exI [of _ rest] exI [of _ end_event])
        (auto split: wait_event.split)
  qed (fastforce intro: exI [of _ "0::nat"])+
  from this [OF assms] show ?thesis by (simp only: simp_thms)
qed

theorem cancellation_after_transition_witness:
  "await_lifecycle False [CallerCancelled None, TaskEnded (Inr (7 :: nat))] = Some (Inl CancelledError)
    \<and> (\<exists>k > 0. [CallerCancelled None, TaskEnded (Inr (7 :: nat))]
         = replicate k (CallerCancelled None) @ [TaskEnded (Inr 7)])"
proof -
  have "await_lifecycle False [CallerCancelled None, TaskEnded (Inr (7 :: nat))] = Some (Inl CancelledError)"
    by simp
  from cancellation_after_transition [OF this] show ?thesis
    by (auto intro: exI [of _ "1 :: nat"])
qed

end
