(* ===== verification/NodeSteps.thy ===== *)
theory NodeSteps
  imports Lifecycle "HOL-Library.Sublist"
begin

text \<open>
  What the operations of a node do to its state, seen through the contracts of predicates. Every
  operation of the theories \<open>Node\<close> to \<open>Lifecycle\<close> is a composition of a few elementary changes:
  completing or creating a future, shrinking or extending a correlation table, a change of one
  channel, one of a queue, admitting or discarding a connection, withdrawing or publishing a
  session. The locale \<open>node_property\<close> is the contract of a predicate that the elementary changes
  keep, \<open>session_property\<close> the one of a predicate that publishing a session keeps too; inside
  them, every operation of the node is shown to keep the predicate. \<open>NodeMachine\<close> interprets
  them for the invariants of the node.
\<close>

section \<open>Elementary changes\<close>

text \<open>
  The part of the state the contracts speak of. The other fields (the clocks of the peers, the
  tables of the tasks, the suppressed peers, the discovery cache) are free.
\<close>

definition tracked :: "node \<Rightarrow> _" where
  "tracked n = (registry_of n, incoming_connections n, outgoing_connections n, cfg n,
     pending_requests n, pending_acknowledgements n, pending_heartbeats n, futures n,
     channel_store n, outbound_channels n, inbound_queue n, event_queue n)"

lemma tracked_updates [simp]:
  "tracked (n\<lparr>running := x1\<rparr>) = tracked n" "tracked (n\<lparr>lifecycle_generation := x2\<rparr>) = tracked n"
  "tracked (n\<lparr>known_peers := x3\<rparr>) = tracked n" "tracked (n\<lparr>last_received_activity := x4\<rparr>) = tracked n"
  "tracked (n\<lparr>reader_tasks := x5\<rparr>) = tracked n" "tracked (n\<lparr>handler_tasks := x6\<rparr>) = tracked n"
  "tracked (n\<lparr>heartbeat_tasks := x7\<rparr>) = tracked n" "tracked (n\<lparr>reconnect_tasks := x8\<rparr>) = tracked n"
  "tracked (n\<lparr>last_reconnect_errors := x9\<rparr>) = tracked n"
  "tracked (n\<lparr>reconnect_suppressed := x10\<rparr>) = tracked n" "tracked (n\<lparr>listening := x11\<rparr>) = tracked n"
  "tracked (n\<lparr>accept_task := x12\<rparr>) = tracked n" "tracked (n\<lparr>event_task := x13\<rparr>) = tracked n"
  "tracked (n\<lparr>next_task := x14\<rparr>) = tracked n" "tracked (n\<lparr>finished := x15\<rparr>) = tracked n"
  by (simp_all add: tracked_def registry_of_def)

text \<open>A queue is closed, opened, emptied from, or extended by one item below its limit.\<close>

fun queue_step :: "int \<Rightarrow> 'q list option \<Rightarrow> 'q list option \<Rightarrow> bool" where
  "queue_step limit (Some q) (Some q') \<longleftrightarrow> q' = [] \<or> length q' \<le> length q
     \<or> int (length q) < limit \<and> length q' = Suc (length q)"
| "queue_step limit None (Some q') \<longleftrightarrow> q' = []"
| "queue_step limit q None \<longleftrightarrow> True"

lemma queue_step_bounded:
  assumes "queue_step limit q q'" "\<forall>xs. q = Some xs \<longrightarrow> int (length xs) \<le> max 0 limit"
  shows "\<forall>xs. q' = Some xs \<longrightarrow> int (length xs) \<le> max 0 limit"
  using assms by (cases q; cases q') (auto simp: max_def split: if_splits)

text \<open>A correlation is entered under a new future.\<close>

definition new_pending :: "conn \<Rightarrow> pystr \<Rightarrow> node \<Rightarrow> pending" where
  "new_pending c p n = \<lparr>pd_future = length (futures n), pd_connection = c, pd_peer = p\<rparr>"

lemma subseq_dpop: "subseq (dpop k d) d"
  by (simp add: dpop_def)

lemma subseq_without_connection: "subseq (without_connection c d) d"
proof -
  have "subseq (fold (\<lambda>(k, pd) d. dpop k d) xs d) d" for xs :: "(pystr \<times> pending) list"
  proof (induction xs arbitrary: d)
    case (Cons x xs)
    then show ?case using subseq_order.trans [OF Cons subseq_dpop] by (simp add: split_beta)
  qed simp
  then show ?thesis by (simp add: without_connection_def)
qed

section \<open>Predicates kept by the elementary changes\<close>

locale node_property =
  fixes P :: "node \<Rightarrow> bool"
  assumes untracked: "\<And>n m. P n \<Longrightarrow> tracked m = tracked n \<Longrightarrow> P m"
    and completing: "\<And>n f v. P n \<Longrightarrow> v \<noteq> Waiting \<Longrightarrow> P (complete_future f v n)"
    and new_waiting: "\<And>n. P n \<Longrightarrow> P (n\<lparr>futures := futures n @ [Waiting]\<rparr>)"
    and fewer_requests: "\<And>n d. P n \<Longrightarrow> subseq d (pending_requests n) \<Longrightarrow> P (n\<lparr>pending_requests := d\<rparr>)"
    and fewer_acknowledgements: "\<And>n d. P n \<Longrightarrow> subseq d (pending_acknowledgements n)
      \<Longrightarrow> P (n\<lparr>pending_acknowledgements := d\<rparr>)"
    and fewer_heartbeats: "\<And>n d. P n \<Longrightarrow> subseq d (pending_heartbeats n)
      \<Longrightarrow> P (n\<lparr>pending_heartbeats := d\<rparr>)"
    and enter_request: "\<And>n k c p. P n \<Longrightarrow> int (length (pending_requests n)) < max_pending_requests (cfg n)
      \<Longrightarrow> P (n\<lparr>futures := futures n @ [Waiting],
              pending_requests := dput k (new_pending c p n) (pending_requests n)\<rparr>)"
    and enter_acknowledgement: "\<And>n k c p. P n
      \<Longrightarrow> int (length (pending_acknowledgements n)) < max_pending_acknowledgements (cfg n)
      \<Longrightarrow> P (n\<lparr>futures := futures n @ [Waiting],
              pending_acknowledgements := dput k (new_pending c p n) (pending_acknowledgements n)\<rparr>)"
    and enter_heartbeat: "\<And>n k c p. P n
      \<Longrightarrow> P (n\<lparr>futures := futures n @ [Waiting],
              pending_heartbeats := dput k (new_pending c p n) (pending_heartbeats n)\<rparr>)"
    and shorter_channel: "\<And>n k ch. P n \<Longrightarrow> length (ch_queue ch) \<le> length (ch_queue (channel_of k n))
      \<Longrightarrow> P (set_channel k ch n)"
    and putting: "\<And>n k fr. P n \<Longrightarrow> \<not> queue_full n k \<Longrightarrow> P (put_frame k fr n)"
    and fewer_channels: "\<And>n d. P n \<Longrightarrow> map_of d \<subseteq>\<^sub>m map_of (outbound_channels n)
      \<Longrightarrow> P (n\<lparr>outbound_channels := d\<rparr>)"
    and inbound_change: "\<And>n q. P n \<Longrightarrow> queue_step (max_inbound_queue (cfg n)) (inbound_queue n) q
      \<Longrightarrow> P (n\<lparr>inbound_queue := q\<rparr>)"
    and event_change: "\<And>n q. P n \<Longrightarrow> queue_step (max_event_queue (cfg n)) (event_queue n) q
      \<Longrightarrow> P (n\<lparr>event_queue := q\<rparr>)"
    and admit_incoming: "\<And>n c. P n \<Longrightarrow> int (active_connection_count n) < max_connections (cfg n)
      \<Longrightarrow> P (n\<lparr>incoming_connections := List.insert c (incoming_connections n)\<rparr>)"
    and admit_outgoing: "\<And>n c. P n
      \<Longrightarrow> c \<in> set (outgoing_connections n) \<or> int (active_connection_count n) < max_connections (cfg n)
      \<Longrightarrow> P (n\<lparr>outgoing_connections := List.insert c (outgoing_connections n)\<rparr>)"
    and discard_incoming: "\<And>n c. P n \<Longrightarrow> P (n\<lparr>incoming_connections := removeAll c (incoming_connections n)\<rparr>)"
    and discard_outgoing: "\<And>n c. P n \<Longrightarrow> P (n\<lparr>outgoing_connections := removeAll c (outgoing_connections n)\<rparr>)"
    and withdraw: "\<And>n c. P n \<Longrightarrow> P (deactivate_session c n)"
    and forget_all: "\<And>n. P n \<Longrightarrow> P (forget_sessions n)"
begin

lemma quiet:
  "P n \<Longrightarrow> P (n\<lparr>running := x1\<rparr>)" "P n \<Longrightarrow> P (n\<lparr>lifecycle_generation := x2\<rparr>)"
  "P n \<Longrightarrow> P (n\<lparr>known_peers := x3\<rparr>)" "P n \<Longrightarrow> P (n\<lparr>last_received_activity := x4\<rparr>)"
  "P n \<Longrightarrow> P (n\<lparr>reader_tasks := x5\<rparr>)" "P n \<Longrightarrow> P (n\<lparr>handler_tasks := x6\<rparr>)"
  "P n \<Longrightarrow> P (n\<lparr>heartbeat_tasks := x7\<rparr>)" "P n \<Longrightarrow> P (n\<lparr>reconnect_tasks := x8\<rparr>)"
  "P n \<Longrightarrow> P (n\<lparr>last_reconnect_errors := x9\<rparr>)" "P n \<Longrightarrow> P (n\<lparr>reconnect_suppressed := x10\<rparr>)"
  "P n \<Longrightarrow> P (n\<lparr>listening := x11\<rparr>)" "P n \<Longrightarrow> P (n\<lparr>accept_task := x12\<rparr>)"
  "P n \<Longrightarrow> P (n\<lparr>event_task := x13\<rparr>)" "P n \<Longrightarrow> P (n\<lparr>next_task := x14\<rparr>)"
  "P n \<Longrightarrow> P (n\<lparr>finished := x15\<rparr>)"
  by (erule untracked, simp)+

lemma emitting: "keeps P (emit_event t pid c err md)"
  by (auto simp: keeps_def emit_event_def intro!: event_change split: option.splits sum.splits)

lemma reporting:
  "keeps P (report_protocol_error c e p)" "keeps P (report_resource_limit p' c')"
  "keeps P (report_handler_error item e)" "keeps P (report_transport_error e)"
  by (simp_all add: report_protocol_error_def report_resource_limit_def report_handler_error_def
      report_transport_error_def emitting)

lemma creating_task: "keeps P create_task"
  by (simp add: keeps_def create_task_def quiet)

lemma new_futures: "keeps P new_future"
  by (simp add: keeps_def new_future_def new_waiting)

lemma keeps_pair: "keeps P (Pair r)"
  by (simp add: keeps_def)

lemma reading: "(\<And>n. keeps P (g n)) \<Longrightarrow> keeps P (reads g)"
  by (simp add: keeps_def)

lemmas parts = keeps_seq keeps_atoms keeps_pair keeps_each keeps_update reading emitting reporting creating_task
  new_futures

lemma reads_split: "(\<And>n. P n \<Longrightarrow> P (snd (g n n))) \<Longrightarrow> keeps P (reads g)"
  by (simp add: keeps_def)

lemma report_then: "P n \<Longrightarrow> P (snd (seq (report_resource_limit x y) (\<lambda>_. raise e) n))"
  by (rule keeps_snd [OF keeps_seq [OF reporting(2) keeps_atoms(2)]])

end

section \<open>The discovery cache\<close>

context node_property begin

lemma remembering: "keeps P (remember d)"
  by (rule remember_keeps) (rule quiet)

lemma expiring: "keeps P (expire_known w pk)"
  by (auto simp: expire_known_def intro!: parts quiet split: prod.splits)

lemma starts_running: "keeps P ensure_running"
  by (auto simp: ensure_running_def intro!: parts)

lemma discovering: "keeps P (discover_begin w)"
  by (auto simp: discover_begin_def intro!: parts starts_running expiring)

lemma learning: "keeps P (learn_peer d)"
  by (auto simp: learn_peer_def Let_def intro!: parts remembering)

lemma discovered: "keeps P (discover_end w g found)"
  by (auto simp: discover_end_def intro!: parts learning)

end

section \<open>Correlations\<close>

context node_property begin

lemma entering:
  "keeps P (open_request mid c p)" "keeps P (open_acknowledgement mid c p)"
  "keeps P (open_heartbeat mid c)"
proof -
  have r: "P (n\<lparr>futures := futures n @ [Waiting], pending_requests := dput mid
      \<lparr>pd_future = length (futures n), pd_connection = c, pd_peer = p\<rparr> (pending_requests n)\<rparr>)"
    if "P n" "\<not> max_pending_requests (cfg n) \<le> int (length (pending_requests n))" for n
    using enter_request [OF that(1), of mid c p] that(2) by (simp add: new_pending_def)
  have a: "P (n\<lparr>futures := futures n @ [Waiting], pending_acknowledgements := dput mid
      \<lparr>pd_future = length (futures n), pd_connection = c, pd_peer = p\<rparr> (pending_acknowledgements n)\<rparr>)"
    if "P n" "\<not> max_pending_acknowledgements (cfg n) \<le> int (length (pending_acknowledgements n))" for n
    using enter_acknowledgement [OF that(1), of mid c p] that(2) by (simp add: new_pending_def)
  have h: "P (n\<lparr>futures := futures n @ [Waiting], pending_heartbeats := dput mid
      \<lparr>pd_future = length (futures n), pd_connection = c, pd_peer = []\<rparr> (pending_heartbeats n)\<rparr>)"
    if "P n" for n using enter_heartbeat [OF that, of mid c "[]"] by (simp add: new_pending_def)
  show "keeps P (open_request mid c p)"
    by (auto simp: keeps_def open_request_def new_future_def seq_def [of new_future] report_then
        ensure_running_def seq_def [of "reads _"] r new_waiting)
  show "keeps P (open_acknowledgement mid c p)"
    by (auto simp: keeps_def open_acknowledgement_def new_future_def seq_def [of new_future]
        report_then a new_waiting)
  show "keeps P (open_heartbeat mid c)"
    by (auto simp: keeps_def open_heartbeat_def new_future_def seq_def [of new_future] h)
qed

lemma leaving:
  assumes "P n"
  shows "P (close_request mid f n)" "P (close_acknowledgement mid f n)" "P (close_heartbeat mid f n)"
    "P (resolve_reply c s m n)" "P (resolve_acknowledgement c s mid n)" "P (resolve_heartbeat c mid n)"
  using assms
  by (auto simp: close_request_def close_acknowledgement_def close_heartbeat_def resolve_reply_def
      resolve_acknowledgement_def resolve_heartbeat_def subseq_dpop
      intro!: completing fewer_requests fewer_acknowledgements fewer_heartbeats split: option.splits)

lemma failing_futures: "P n \<Longrightarrow> v \<noteq> Waiting \<Longrightarrow> P (fail_futures v d n)"
proof (induction d arbitrary: n)
  case (Cons x d)
  then show ?case by (cases x) (simp add: completing)
qed simp

lemma failing:
  assumes "P n"
  shows "P (fail_pending_for_connection c n)" "P (fail_all_pending n)"
    "P (fail_heartbeats_for_connection c n)" "P (fail_all_heartbeats n)"
proof -
  show "P (fail_pending_for_connection c n)"
    unfolding fail_pending_for_connection_def Let_def
    by (intro failing_futures fewer_requests fewer_acknowledgements assms) (simp_all add: subseq_without_connection)
  have two: "P (n\<lparr>pending_requests := [], pending_acknowledgements := []\<rparr>)"
    using fewer_acknowledgements [OF fewer_requests [OF assms, of "[]"], of "[]"] by simp
  then show "P (fail_all_pending n)"
    unfolding fail_all_pending_def by (intro failing_futures) simp_all
  show "P (fail_heartbeats_for_connection c n)" "P (fail_all_heartbeats n)"
    unfolding fail_heartbeats_for_connection_def fail_all_heartbeats_def
    by (intro failing_futures fewer_heartbeats assms; simp add: subseq_without_connection)+
qed

end

section \<open>Writers\<close>

context node_property begin

lemma failing_frames: "P n \<Longrightarrow> P (fail_frames e frs n)"
  by (induction frs arbitrary: n) (auto simp: fail_frames_def set_future_error_def completing)

lemma failing_queue: "P n \<Longrightarrow> P (fail_outbound_queue k e n)"
  by (auto simp: fail_outbound_queue_def Let_def intro!: failing_frames shorter_channel)

lemma finishing: "P n \<Longrightarrow> v \<noteq> Waiting \<Longrightarrow> P (finish_current k v n)"
  by (auto simp: finish_current_def Let_def intro!: shorter_channel completing split: option.splits)

lemma writing:
  assumes "P n"
  shows "P (worker_sent k n)" "P (worker_failed k e n)" "P (worker_cancelled k n)" "P (worker_end k n)"
    "P (outbound_finished c t n)" "P (snd (close_channel_begin c n))" "P (close_channel_end k n)"
    "P (abandon_frame f n)"
proof -
  have drop: "map_of (dpop c d) \<subseteq>\<^sub>m map_of d" for d :: "(conn \<times> nat) list"
    by (simp add: map_le_def)
  show "P (worker_sent k n)" "P (worker_failed k e n)" "P (worker_cancelled k n)" "P (worker_end k n)"
    "P (outbound_finished c t n)" "P (snd (close_channel_begin c n))" "P (close_channel_end k n)"
    "P (abandon_frame f n)"
    using assms
    by (auto simp: worker_sent_def worker_failed_def worker_cancelled_def worker_end_def Let_def
        outbound_finished_def close_channel_begin_def close_channel_end_def abandon_frame_def drop
        intro!: finishing failing_queue quiet fewer_channels completing split: option.splits)
qed

lemma taking: "P n \<Longrightarrow> worker_take k n = Some (d, m) \<Longrightarrow> P m"
  by (auto simp: worker_take_def Let_def intro!: shorter_channel split: list.splits)

lemma queueing: "keeps P (queue_frame w c data)" "keeps P (put_waiting k fr)"
proof -
  have put: "P (put_frame k fr (n\<lparr>futures := futures n @ [Waiting]\<rparr>))"
    if "P n" "\<not> queue_full n k" for n k fr
    using that by (intro putting new_waiting) (simp_all add: queue_full_def)
  show "keeps P (queue_frame w c data)"
    by (auto simp: keeps_def queue_frame_def new_future_def seq_def [of new_future] Let_def put
        report_then new_waiting split: option.splits backpressure.splits)
  show "keeps P (put_waiting k fr)"
    by (auto simp: keeps_def put_waiting_def intro: putting)
qed

lemma failing_all_outbound: "P n \<Longrightarrow> P (fail_all_outbound e n)"
proof -
  have "P n \<Longrightarrow> P (fold (fail_channel e) cks n)" for cks
    by (induction cks arbitrary: n)
      (auto simp: fail_channel_def set_future_error_def intro!: failing_queue completing split: option.splits)
  then show "P n \<Longrightarrow> P (fail_all_outbound e n)" by (simp add: fail_all_outbound_fold)
qed

end

section \<open>Connections\<close>

context node_property begin

lemma preparing: "keeps P (prepare_begin c p)"
proof -
  have "P n \<Longrightarrow> P (snd (seq (report_resource_limit x y) (\<lambda>_. raise e) n))" for n x y and e :: exn
    by (rule report_then)
  then show ?thesis
    by (auto simp: keeps_def prepare_begin_def not_le intro!: admit_outgoing)
qed

lemma preparing_ends: "P n \<Longrightarrow> P (prepare_end c selected n)"
  by (simp add: prepare_end_def discard_outgoing)

lemma preparing_fails: "keeps P (prepare_failed c p e)"
  by (auto simp: prepare_failed_def intro!: parts discard_outgoing)

lemma accepting: "keeps P (accept_connection c)"
proof -
  have "P n \<Longrightarrow> P (snd (seq (report_resource_limit x y) (\<lambda>_. ret False) n))" for n x y
    by (rule keeps_snd [OF keeps_seq [OF reporting(2) keeps_atoms(1)]])
  then show ?thesis
    by (auto simp: keeps_def accept_connection_def not_le intro!: admit_incoming)
qed

lemma discarding: "P n \<Longrightarrow> P (discard_connection c n)"
  using discard_outgoing [OF discard_incoming, of n c c] by (simp add: discard_connection_def)

lemma ending:
  assumes "P n"
  shows "P (incoming_abort c n)" "P (snd (retire_begin c n))" "P (retire_end c n)"
    "P (snd (ended_begin c s n))" "P (snd (cancel_heartbeat_begin c n))" "P (cancel_heartbeat_end c n)"
  using assms discard_incoming [OF withdraw [OF assms], of c c]
  by (simp_all add: incoming_abort_def Let_def retire_begin_def retire_end_def ended_begin_def
      cancel_heartbeat_begin_def cancel_heartbeat_end_def withdraw failing discarding discard_incoming quiet)

lemma starting_reader: "keeps P (start_reader_task c)"
  by (auto simp: start_reader_task_def intro!: parts quiet split: option.splits)

lemma incoming_failing: "keeps P (incoming_failed c e)"
  by (auto simp: incoming_failed_def intro!: parts)

end

section \<open>Readers, dispatching and sending\<close>

context node_property begin

lemma enqueueing: "keeps P (enqueue_dispatch c s m)"
  by (auto simp: keeps_def enqueue_dispatch_def Let_def inbound_full_def report_then
      intro!: inbound_change split: option.splits backpressure.splits)

lemma delivering: "keeps P (deliver_message c s m)"
  by (auto simp: deliver_message_def intro!: parts leaving enqueueing)

lemma sending_control: "keeps P (send_control w c next f)"
  by (auto simp: send_control_def intro!: parts queueing)

lemma processing_item: "keeps P (process_item rt cd w c s item)"
  by (auto simp: process_item_def intro!: parts leaving sending_control delivering split: session_item.splits)

lemma processing_frame: "keeps P (process_frame rt cd w c s frame)"
  unfolding process_frame_def by (intro parts processing_item quiet)

lemma resuming: "keeps P (reader_resume rt cd w c s pc input)"
proof -
  have "P n \<Longrightarrow> P (snd (reader_resume rt cd w c s pc input n))" for n
  proof (induction rt cd w c s pc input rule: reader_resume.induct)
    case (6 rt cd w c s item)
    then show ?case by (auto simp: inbound_full_def intro!: inbound_change split: option.splits)
  qed (auto simp: after_sent_def
      intro!: keeps_snd [OF processing_frame] keeps_snd [OF delivering]
        keeps_snd [OF keeps_seq [OF queueing(2) keeps_atoms(1)]] split: after_send.splits)
  then show ?thesis by (simp add: keeps_def)
qed

lemma reader_failing: "keeps P (reader_failed c s e)"
  by (auto simp: reader_failed_def intro!: parts)

lemma dispatch_taking: "P n \<Longrightarrow> dispatch_take g n = Some (item, m) \<Longrightarrow> P m"
  by (auto simp: dispatch_take_def intro!: inbound_change split: if_split_asm option.splits list.splits)

lemma event_taking: "P n \<Longrightarrow> event_take g n = Some (ev, m) \<Longrightarrow> P m"
  by (auto simp: event_take_def intro!: event_change split: if_split_asm option.splits list.splits)

lemma dispatched: "keeps P (dispatch_handled item outcome)"
  by (auto simp: dispatch_handled_def intro!: parts split: sum.splits)

lemma worker_starting: "keeps P start_dispatch_worker"
  by (auto simp: start_dispatch_worker_def intro!: parts quiet)

lemma handler_ending: "keeps P (handler_finished t g)"
  by (auto simp: handler_finished_def intro!: parts quiet worker_starting)

lemma sending: "keeps P (send_begin cd c m ack)"
  by (auto simp: send_begin_def intro!: parts entering split: prod.splits option.splits bool.splits)

lemma sent: "P n \<Longrightarrow> P (send_end ack n)"
  by (auto simp: send_end_def leaving split: option.splits)

end

section \<open>Heartbeats, reconnecting and connecting\<close>

context node_property begin

lemma heartbeat_starting: "keeps P (ensure_heartbeat w c s)"
  by (auto simp: ensure_heartbeat_def intro!: parts quiet)

lemma keeps_try_except:
  "keeps P m \<Longrightarrow> (\<And>e. keeps P (h e)) \<Longrightarrow> keeps P (try_except m h)"
  by (fastforce simp: keeps_def try_except_def split: prod.splits sum.splits)

lemma pinging: "keeps P (heartbeat_ping rt w c pid)"
  by (auto simp: heartbeat_ping_def intro!: parts keeps_try_except entering queueing leaving)

lemma heartbeat_ticking: "keeps P (heartbeat_tick rt w i c s pid)"
  by (auto simp: heartbeat_tick_def Let_def intro!: parts pinging split: option.splits)

lemma heartbeat_answered: "keeps P (heartbeat_answer pid f outcome)"
  by (auto simp: heartbeat_answer_def intro!: parts leaving split: sum.splits)

lemma heartbeat_ending: "P n \<Longrightarrow> P (heartbeat_end c t n)"
  by (simp add: heartbeat_end_def forget_heartbeat_def failing quiet)

lemma reading_session: "keeps P (ensure_reader w c s)"
  by (auto simp: ensure_reader_def register_connection_task_def intro!: parts quiet heartbeat_starting)

lemma scheduling: "keeps P (schedule_reconnect w p)"
  by (auto simp: schedule_reconnect_def intro!: parts quiet split: option.splits prod.splits)

lemma reconnect_ending: "P n \<Longrightarrow> P (reconnect_finished p t n)" "P n \<Longrightarrow> P (reader_finished c n)"
  by (simp_all add: reconnect_finished_def reader_finished_def quiet)

lemma reconnect_failing: "keeps P (reconnect_failed p e)"
  by (auto simp: reconnect_failed_def intro!: parts quiet)

lemma session_ended: "keeps P (ended_finish w c s b1 b2)"
  by (auto simp: ended_finish_def intro!: parts scheduling)

lemma connecting: "keeps P (connect_begin w transport d b)"
  by (auto simp: connect_begin_def Let_def intro!: parts split: option.splits prod.splits)

lemma requesting: "keeps P (connect_request w transport tgt)"
  by (auto simp: connect_request_def intro!: parts starts_running quiet connecting)

lemma connected: "keeps P (connect_end w c d t)"
  by (auto simp: connect_end_def Let_def intro!: parts remembering reading_session quiet split: option.splits)

lemma disconnecting:
  assumes "P n"
  shows "P (snd (disconnect_begin p n))" "P (snd (disconnect_session p n))"
  using assms by (auto simp: disconnect_begin_def disconnect_session_def quiet withdraw failing split: option.splits)

lemma disconnected: "keeps P (disconnect_finish p c)"
  by (auto simp: disconnect_finish_def intro!: parts discarding)

end

section \<open>Starting and stopping\<close>

context node_property begin

lemma generation_opening: "P n \<Longrightarrow> P (open_generation n)"
proof -
  assume p: "P n"
  let ?a = "n\<lparr>listening := True, running := True, lifecycle_generation := Suc (lifecycle_generation n)\<rparr>"
  have "P (?a\<lparr>inbound_queue := Some []\<rparr>)"
    by (intro inbound_change quiet p) (cases "inbound_queue n"; simp)
  then have "P (?a\<lparr>inbound_queue := Some []\<rparr>\<lparr>event_queue := Some []\<rparr>)"
    by (intro event_change) (cases "event_queue n"; simp)+
  then show ?thesis by (simp add: open_generation_def)
qed

lemma starting_workers: "keeps P (start_workers k)"
  by (induction k) (auto intro!: parts worker_starting)

lemma beginning: "keeps P begin_generation"
  by (auto simp: begin_generation_def intro!: parts generation_opening starting_workers quiet)

lemma starting: "P n \<Longrightarrow> P (snd (snd (start_node io n)))"
  by (auto simp: start_node_def quiet keeps_snd [OF beginning] split: prod.splits sum.splits)

lemma stopping: "P n \<Longrightarrow> P (snd (stop_begin excluded n))"
  by (simp add: stop_begin_def Let_def forget_all failing_all_outbound failing quiet)

lemma clearing: "P n \<Longrightarrow> P (stop_tables n)"
proof -
  assume p: "P n"
  let ?a = "n\<lparr>reader_tasks := [], handler_tasks := [], heartbeat_tasks := [],
     reconnect_tasks := [], reconnect_suppressed := [], last_reconnect_errors := [],
     known_peers := [], accept_task := None, event_task := None\<rparr>"
  have "P (?a\<lparr>outbound_channels := []\<rparr>)"
    by (intro fewer_channels quiet p) (simp add: map_le_def)
  then have "P (?a\<lparr>outbound_channels := []\<rparr>\<lparr>inbound_queue := None\<rparr>)"
    by (intro inbound_change) (cases "inbound_queue n"; simp)+
  then have "P (?a\<lparr>outbound_channels := []\<rparr>\<lparr>inbound_queue := None\<rparr>\<lparr>event_queue := None\<rparr>)"
    by (intro event_change) (cases "event_queue n"; simp)+
  then show ?thesis by (simp add: stop_tables_def)
qed

lemma resuming_network: "keeps P (network_resume w wanted found)"
  by (auto simp: network_resume_def intro!: parts scheduling)

end

section \<open>Predicates kept by publishing a session\<close>

locale session_property = node_property +
  assumes new_channel: "\<And>n c t. P n \<Longrightarrow>
      P (n\<lparr>outbound_channels := dput c (length (channel_store n)) (outbound_channels n),
           channel_store := channel_store n @ [empty_channel t]\<rparr>)"
    and publish: "\<And>n w c s d. P n \<Longrightarrow> map_of (peer_connections n) (session_peer_id s) = None
      \<Longrightarrow> session_peer_id s \<noteq> local_peer n \<Longrightarrow> map_of (sessions n) c = None
      \<Longrightarrow> P (publish_session w c s d n)"
begin

lemma ensuring_channel: "keeps P (ensure_outbound_channel c)"
  by (auto simp: ensure_outbound_channel_def intro!: parts new_channel split: option.splits)

lemma announcing: "keeps P (announce_session w c s)"
  by (auto simp: announce_session_def intro!: parts)

lemma registering:
  assumes "P n" "map_of (peer_connections n) (session_peer_id s) = None"
    and "session_peer_id s \<noteq> local_peer n" "map_of (sessions n) c = None"
  shows "P (snd (register_session w c s d n))"
  unfolding register_session_eq
  by (intro keeps_snd [OF announcing] keeps_snd [OF ensuring_channel] publish assms)

lemma selecting:
  assumes "P n" "registry_ok n" "map_of (sessions n) c = None"
  shows "P (snd (select_ready_connection w c s d n))"
proof (cases "session_peer_id s = local_peer n")
  case True
  with assms(1) show ?thesis by (simp add: select_local)
next
  case False
  have closed: "P (without_closed w (session_peer_id s) n)"
    using assms(1) by (auto simp: without_closed_def withdraw split: option.splits)
  have peer: "map_of (peer_connections n) (session_peer_id s) = Some x"
    if "connection_for_peer w (session_peer_id s) n = Some x" for x
    using that by (auto simp: connection_for_peer_def split: option.splits if_splits)
  show ?thesis
    using assms False closed peer
    by (auto simp: select_as_cases snd_seq_ret without_closed_peer deactivate_peers
        intro!: registering withdraw split: option.splits)
qed

end

text \<open>Two such predicates can be carried along together.\<close>

lemma node_property_both:
  assumes "node_property P" "node_property Q"
  shows "node_property (\<lambda>n. P n \<and> Q n)"
proof -
  note rules = node_property.completing node_property.new_waiting node_property.fewer_requests
    node_property.fewer_acknowledgements node_property.fewer_heartbeats node_property.enter_request
    node_property.enter_acknowledgement node_property.enter_heartbeat node_property.shorter_channel
    node_property.putting node_property.fewer_channels node_property.inbound_change
    node_property.event_change node_property.admit_incoming node_property.admit_outgoing
    node_property.discard_incoming node_property.discard_outgoing node_property.withdraw
    node_property.forget_all node_property.untracked
  show ?thesis
    by (rule node_property.intro)
      (elim conjE, rule conjI; (rule rules [OF assms(1)] rules [OF assms(2)]; assumption))+
qed

lemma session_property_both:
  assumes "session_property P" "session_property Q"
  shows "session_property (\<lambda>n. P n \<and> Q n)"
  using assms node_property_both [OF assms [THEN session_property.axioms(1)]]
  unfolding session_property_def session_property_axioms_def by blast

end
