(* ===== verification/NodeMachine.thy ===== *)
theory NodeMachine
  imports NodeSteps Machines
begin

text \<open>
  A node as a machine: from its construction on, its operations happen in any order and with any
  arguments, as the tasks of the event loop, the application, the peers and the transport make
  them happen. \<open>node_operation\<close> lists the operations of the theories \<open>Node\<close> to \<open>Lifecycle\<close>,
  one rule per piece of code between two awaits. \<open>machine_step\<close> adds the three that put a
  connection into the tables. The machine remembers which connection objects the transport has
  handed out, each one once, and which of them are being negotiated: a connection is selected
  once, after its own negotiation.

  The theorems hold in every reachable state: the tables of the node are consistent and within
  their limits, an outcome once given to a caller is final, and what the node shows of its
  sessions behaves like a table of links, one per peer.
\<close>

section \<open>Operations\<close>

inductive node_operation :: "node \<Rightarrow> node \<Rightarrow> bool" where
  discover: "node_operation n (snd (discover_begin w n))"
| discover_done: "node_operation n (snd (discover_end w g found n))"
| request_entered: "node_operation n (snd (open_request mid c p n))"
| request_closed: "node_operation n (close_request mid f n)"
| send_entered: "node_operation n (snd (send_begin cd c m ack n))"
| send_closed: "node_operation n (send_end entered n)"
| frame_queued: "node_operation n (snd (queue_frame w c data n))"
| caller_woken: "node_operation n (snd (put_waiting k fr n))"
| frame_abandoned: "node_operation n (abandon_frame f n)"
| frame_taken: "worker_take k n = Some (data, m) \<Longrightarrow> node_operation n m"
| frame_written: "node_operation n (worker_sent k n)"
| write_failed: "node_operation n (worker_failed k e n)"
| write_cancelled: "node_operation n (worker_cancelled k n)"
| writer_ended: "node_operation n (worker_end k n)"
| writer_finished: "node_operation n (outbound_finished c t n)"
| channel_closing: "node_operation n (snd (close_channel_begin c n))"
| channel_closed: "node_operation n (close_channel_end k n)"
| prepare_ended: "node_operation n (prepare_end c selected n)"
| prepare_raised: "node_operation n (snd (prepare_failed c p e n))"
| reader_task: "node_operation n (snd (start_reader_task c n))"
| incoming_raised: "node_operation n (snd (incoming_failed c e n))"
| incoming_aborted: "node_operation n (incoming_abort c n)"
| heartbeat_cancelled: "node_operation n (snd (cancel_heartbeat_begin c n))"
| heartbeat_gone: "node_operation n (cancel_heartbeat_end c n)"
| retiring: "node_operation n (snd (retire_begin c n))"
| retired: "node_operation n (retire_end c n)"
| session_ending: "node_operation n (snd (ended_begin c s n))"
| session_over: "node_operation n (snd (ended_finish w c s was_canonical removed n))"
| reader_goes_on: "node_operation n (snd (reader_resume rt cd w c s pc input n))"
| reader_raised: "node_operation n (snd (reader_failed c s e n))"
| item_taken: "dispatch_take g n = Some (item, m) \<Longrightarrow> node_operation n m"
| item_handled: "node_operation n (snd (dispatch_handled item outcome n))"
| handler_over: "node_operation n (snd (handler_finished t g n))"
| listener_failed: "node_operation n (snd (report_transport_error e n))"
| event_taken: "event_take g n = Some (ev, m) \<Longrightarrow> node_operation n m"
| heartbeat_ensured: "node_operation n (snd (ensure_heartbeat w c s n))"
| heartbeat_due: "node_operation n (snd (heartbeat_tick rt w interval c s pid n))"
| heartbeat_answered: "node_operation n (snd (heartbeat_answer pid f answer n))"
| heartbeat_over: "node_operation n (heartbeat_end c t n)"
| reader_ensured: "node_operation n (snd (ensure_reader w c s n))"
| reader_over: "node_operation n (reader_finished c n)"
| reconnect_scheduled: "node_operation n (snd (schedule_reconnect w p n))"
| reconnect_raised: "node_operation n (snd (reconnect_failed p e n))"
| reconnect_over: "node_operation n (reconnect_finished p t n)"
| connect_entered: "node_operation n (snd (connect_request w transport tgt n))"
| reconnect_entered: "node_operation n (snd (connect_begin w transport d True n))"
| connect_done: "node_operation n (snd (connect_end w c d t n))"
| disconnect_entered: "node_operation n (snd (disconnect_begin p n))"
| disconnect_goes_on: "node_operation n (snd (disconnect_session p n))"
| disconnect_done: "node_operation n (snd (disconnect_finish p c n))"
| started: "node_operation n (snd (snd (start_node io n)))"
| stopping: "node_operation n (snd (stop_begin excluded n))"
| stopped: "node_operation n (stop_tables n)"
| refreshed: "node_operation n (snd (network_resume w wanted peers n))"
| task_ended: "node_operation n (n\<lparr>finished := insert t (finished n)\<rparr>)"

inductive_cases node_operationE: "node_operation n m"

text \<open>A predicate that the elementary changes keep is kept by every operation.\<close>

context node_property begin

lemmas kept_by_methods = reporting discovering discovered entering sending queueing preparing_fails
  starting_reader incoming_failing session_ended resuming reader_failing dispatched handler_ending
  heartbeat_starting heartbeat_ticking heartbeat_answered reading_session scheduling
  reconnect_failing requesting connecting connected disconnected resuming_network

lemmas kept_by_changes = leaving sent writing taking preparing_ends ending dispatch_taking
  event_taking heartbeat_ending reconnect_ending disconnecting starting stopping clearing quiet

lemma operation: "node_operation n m \<Longrightarrow> P n \<Longrightarrow> P m"
  by (induction rule: node_operation.induct) (auto intro: kept_by_changes kept_by_methods [THEN keeps_snd])

end

section \<open>The machine\<close>

record machine =
  the_node :: node
  handed_out :: "conn set"
  negotiating :: "conn set"

definition new_machine :: "pystr \<Rightarrow> config \<Rightarrow> machine" where
  "new_machine pid c = \<lparr>the_node = new_node pid c, handed_out = {}, negotiating = {}\<rparr>"

text \<open>
  An operation; a new connection that is prepared or accepted, and negotiated if it was
  admitted; the selection after its negotiation.
\<close>

inductive machine_step :: "machine \<Rightarrow> machine \<Rightarrow> bool" where
  operation: "node_operation (the_node s) n \<Longrightarrow> machine_step s (s\<lparr>the_node := n\<rparr>)"
| prepare: "c \<notin> handed_out s \<Longrightarrow> prepare_begin c p (the_node s) = (r, n) \<Longrightarrow>
    machine_step s \<lparr>the_node = n, handed_out = insert c (handed_out s),
      negotiating = (if r = Inr () then insert c (negotiating s) else negotiating s)\<rparr>"
| accept: "c \<notin> handed_out s \<Longrightarrow> accept_connection c (the_node s) = (r, n) \<Longrightarrow>
    machine_step s \<lparr>the_node = n, handed_out = insert c (handed_out s),
      negotiating = (if r = Inr True then insert c (negotiating s) else negotiating s)\<rparr>"
| select: "c \<in> negotiating s \<Longrightarrow> select_ready_connection w c ps d (the_node s) = (r, n) \<Longrightarrow>
    machine_step s (s\<lparr>the_node := n, negotiating := negotiating s - {c}\<rparr>)"

inductive_cases machine_stepE: "machine_step s t"

inductive_simps operation_step_simps: "machine_step s (s\<lparr>the_node := n\<rparr>)"

section \<open>The invariants\<close>

definition inbound_bounded :: "node \<Rightarrow> bool" where
  "inbound_bounded n \<longleftrightarrow>
     (\<forall>q. inbound_queue n = Some q \<longrightarrow> int (length q) \<le> max 0 (max_inbound_queue (cfg n)))"

definition event_bounded :: "node \<Rightarrow> bool" where
  "event_bounded n \<longleftrightarrow>
     (\<forall>q. event_queue n = Some q \<longrightarrow> int (length q) \<le> max 0 (max_event_queue (cfg n)))"

lemma registry_forget [simp]: "registry_ok (forget_sessions n)"
  by (simp add: registry_ok_def forget_sessions_def)

text \<open>Each of the invariants of the component theories discharges the contract.\<close>

interpretation registry: session_property registry_ok
  by unfold_locales
    (auto simp: put_frame_def set_channel_def Let_def tracked_def complete_future_def
      intro: registry_deactivate registry_publish registry_cong [THEN iffD2] simp: registry_of_def)

lemma admission_same:
  "admission_ok n \<Longrightarrow> incoming_connections m = incoming_connections n \<Longrightarrow>
    outgoing_connections m = outgoing_connections n \<Longrightarrow> cfg m = cfg n \<Longrightarrow> admission_ok m"
  by (simp add: admission_ok_def active_connection_count_def)

lemma complete_future_admission [simp]:
  "incoming_connections (complete_future f v n) = incoming_connections n"
  "outgoing_connections (complete_future f v n) = outgoing_connections n"
  by (simp_all add: complete_future_def)

interpretation admission: session_property admission_ok
proof unfold_locales
  fix n :: node and c
  assume a: "admission_ok n" and l: "int (active_connection_count n) < max_connections (cfg n)"
  show "admission_ok (n\<lparr>incoming_connections := List.insert c (incoming_connections n)\<rparr>)"
    using l by (intro admission_more [of n]) (auto simp: active_count_card card_insert_Suc)
next
  fix n :: node and c
  assume a: "admission_ok n"
    and l: "c \<in> set (outgoing_connections n) \<or> int (active_connection_count n) < max_connections (cfg n)"
  show "admission_ok (n\<lparr>outgoing_connections := List.insert c (outgoing_connections n)\<rparr>)"
  proof (cases "c \<in> set (outgoing_connections n)")
    case True
    with a show ?thesis by (intro admission_same [OF a]) simp_all
  next
    case False
    with l show ?thesis
      by (intro admission_more [of n]) (auto simp: active_count_card card_insert_Suc)
  qed
next
  fix n c assume a: "admission_ok n"
  show "admission_ok (forget_sessions n)"
    by (rule admission_less [OF a]) (simp_all add: forget_sessions_def)
qed (auto simp: tracked_def put_frame_def set_channel_def publish_session_def Let_def
    intro: admission_same admission_less)

lemma subseq_table:
  assumes "subseq d (e :: (pystr \<times> pending) list)"
  shows "distinct (dkeys e) \<Longrightarrow> distinct (dkeys d)" "set (table_futures d) \<subseteq> set (table_futures e)"
    "length d \<le> length e"
proof -
  obtain N where N: "d = nths e N" using assms unfolding subseq_conv_nths by blast
  show "distinct (dkeys e) \<Longrightarrow> distinct (dkeys d)"
    unfolding N nths_map [symmetric] by (rule distinct_nthsI)
  show "set (table_futures d) \<subseteq> set (table_futures e)"
    using set_nths_subset [of e N] by (auto simp: N table_futures_def)
  show "length d \<le> length e" using assms by (rule list_emb_length)
qed

lemma correlations_tables:
  assumes "correlations_ok n"
  shows "distinct (dkeys (pending_requests n))" "distinct (dkeys (pending_acknowledgements n))"
    "distinct (dkeys (pending_heartbeats n))"
  using assms by (simp_all add: correlations_ok_def)

lemma correlations_fewer:
  assumes "correlations_ok n"
  shows "subseq d (pending_requests n) \<Longrightarrow> correlations_ok (n\<lparr>pending_requests := d\<rparr>)"
    "subseq d (pending_acknowledgements n) \<Longrightarrow> correlations_ok (n\<lparr>pending_acknowledgements := d\<rparr>)"
    "subseq d (pending_heartbeats n) \<Longrightarrow> correlations_ok (n\<lparr>pending_heartbeats := d\<rparr>)"
  by (rule correlations_shrink [OF assms];
      use assms in \<open>auto simp: correlations_tables subseq_table(1,3) dest: subsetD [OF subseq_table(2)]\<close>)+

lemma correlations_same:
  assumes "correlations_ok n" "cfg m = cfg n" "futures m = futures n"
    "pending_requests m = pending_requests n" "pending_acknowledgements m = pending_acknowledgements n"
    "pending_heartbeats m = pending_heartbeats n"
  shows "correlations_ok m"
  using assms by (simp add: correlations_ok_def)

lemma deactivate_other [simp]:
  "futures (deactivate_session c n) = futures n"
  "pending_requests (deactivate_session c n) = pending_requests n"
  "pending_acknowledgements (deactivate_session c n) = pending_acknowledgements n"
  "pending_heartbeats (deactivate_session c n) = pending_heartbeats n"
  "channel_store (deactivate_session c n) = channel_store n"
  "outbound_channels (deactivate_session c n) = outbound_channels n"
  "inbound_queue (deactivate_session c n) = inbound_queue n"
  "event_queue (deactivate_session c n) = event_queue n"
  by (simp_all add: deactivate_session_def Let_def split: option.splits)

interpretation correlations: session_property correlations_ok
  by unfold_locales
    (auto simp: tracked_def new_pending_def put_frame_def set_channel_def publish_session_def
        forget_sessions_def Let_def
      intro: correlations_fewer correlations_enter correlations_same)

interpretation outbound: session_property outbound_ok
proof unfold_locales
  fix n c t assume "outbound_ok n"
  then show "outbound_ok (n\<lparr>outbound_channels := dput c (length (channel_store n)) (outbound_channels n),
      channel_store := channel_store n @ [empty_channel t]\<rparr>)"
    by (auto simp: outbound_ok_def nth_append empty_channel_def less_Suc_eq split: if_split_asm)
next
  fix n :: node and k and ch :: channel
  assume "outbound_ok n" "length (ch_queue ch) \<le> length (ch_queue (channel_of k n))"
  then show "outbound_ok (set_channel k ch n)"
    using outbound_channel [of n k] by (intro outbound_set) simp_all
next
  fix n :: node and d :: "(conn \<times> nat) list"
  assume "outbound_ok n" "map_of d \<subseteq>\<^sub>m map_of (outbound_channels n)"
  then show "outbound_ok (n\<lparr>outbound_channels := d\<rparr>)"
    by (auto simp: outbound_ok_def map_le_def) (metis domI)
qed (auto simp: outbound_put, auto simp: outbound_ok_def tracked_def publish_session_def forget_sessions_def)

interpretation inbound: session_property inbound_bounded
proof unfold_locales
  fix n q assume "inbound_bounded n" "queue_step (max_inbound_queue (cfg n)) (inbound_queue n) q"
  then show "inbound_bounded (n\<lparr>inbound_queue := q\<rparr>)"
    using queue_step_bounded [of _ "inbound_queue n" q] by (simp add: inbound_bounded_def)
qed (auto simp: inbound_bounded_def tracked_def complete_future_def put_frame_def set_channel_def
    publish_session_def forget_sessions_def Let_def)

interpretation events: session_property event_bounded
proof unfold_locales
  fix n q assume "event_bounded n" "queue_step (max_event_queue (cfg n)) (event_queue n) q"
  then show "event_bounded (n\<lparr>event_queue := q\<rparr>)"
    using queue_step_bounded [of _ "event_queue n" q] by (simp add: event_bounded_def)
qed (auto simp: event_bounded_def tracked_def complete_future_def put_frame_def set_channel_def
    publish_session_def forget_sessions_def Let_def)

text \<open>The identity and the configuration of the node never change.\<close>

definition constants :: "pystr \<Rightarrow> config \<Rightarrow> node \<Rightarrow> bool" where
  "constants pid c n \<longleftrightarrow> local_peer n = pid \<and> cfg n = c"

interpretation constants: session_property "constants pid c" for pid c
  by unfold_locales
    (auto simp: constants_def tracked_def registry_of_def complete_future_def put_frame_def
      set_channel_def publish_session_def forget_sessions_def Let_def)

text \<open>No operation but the selection brings a session into being.\<close>

definition sessions_within :: "conn set \<Rightarrow> node \<Rightarrow> bool" where
  "sessions_within U n \<longleftrightarrow> (\<forall>c. map_of (sessions n) c \<noteq> None \<longrightarrow> c \<in> U)"

interpretation within: node_property "sessions_within U" for U
  by unfold_locales
    (auto simp: sessions_within_def tracked_def registry_of_def complete_future_def put_frame_def
      set_channel_def forget_sessions_def Let_def)

text \<open>A future keeps the outcome it has: \<open>answered n0\<close> says so of the states after \<open>n0\<close>.\<close>

definition answered :: "node \<Rightarrow> node \<Rightarrow> bool" where
  "answered n0 n \<longleftrightarrow> length (futures n0) \<le> length (futures n)
     \<and> (\<forall>f < length (futures n0). future_state f n0 \<noteq> Waiting \<longrightarrow> future_state f n = future_state f n0)"

lemma answered_same: "answered n0 n \<Longrightarrow> futures m = futures n \<Longrightarrow> answered n0 m"
  by (auto simp: answered_def future_state_def)

lemma answered_new: "answered n0 n \<Longrightarrow> futures m = futures n @ [Waiting] \<Longrightarrow> answered n0 m"
  by (auto simp: answered_def future_state_def nth_append)

lemma answered_complete: "answered n0 n \<Longrightarrow> answered n0 (complete_future f v n)"
  by (auto simp: answered_def complete_future_state)

interpretation answered: session_property "answered n0" for n0
  by unfold_locales
    (auto simp: tracked_def put_frame_def set_channel_def publish_session_def forget_sessions_def
        Let_def answered_complete
      intro: answered_same answered_new)

text \<open>All tables at once.\<close>

definition node_ok :: "pystr \<Rightarrow> config \<Rightarrow> node \<Rightarrow> bool" where
  "node_ok pid c n \<longleftrightarrow> registry_ok n \<and> admission_ok n \<and> correlations_ok n \<and> outbound_ok n
     \<and> inbound_bounded n \<and> event_bounded n \<and> constants pid c n"

interpretation tables: session_property "node_ok pid c" for pid c
  unfolding node_ok_def
  by (intro session_property_both registry.session_property_axioms admission.session_property_axioms
      correlations.session_property_axioms outbound.session_property_axioms
      inbound.session_property_axioms events.session_property_axioms constants.session_property_axioms)

lemma node_okD:
  assumes "node_ok pid c n"
  shows "registry_ok n" "admission_ok n" "correlations_ok n" "outbound_ok n" "inbound_bounded n"
    "event_bounded n" "local_peer n = pid" "cfg n = c"
  using assms by (simp_all add: node_ok_def constants_def)

lemma new_node_ok: "node_ok pid c (new_node pid c)"
  by (simp add: node_ok_def constants_def admission_ok_def active_connection_count_def correlations_ok_def
      outbound_ok_def inbound_bounded_def event_bounded_def) (simp add: new_node_def)

section \<open>The invariant of the machine\<close>

definition machine_ok :: "pystr \<Rightarrow> config \<Rightarrow> machine \<Rightarrow> bool" where
  "machine_ok pid c s \<longleftrightarrow> node_ok pid c (the_node s) \<and> negotiating s \<subseteq> handed_out s
     \<and> sessions_within (handed_out s - negotiating s) (the_node s)"

lemma select_within:
  assumes "registry_ok n" "sessions_within U n"
  shows "sessions_within (insert c U) (snd (select_ready_connection w c s d n))"
  unfolding sessions_within_def
proof (intro allI impI)
  fix k assume "map_of (sessions (snd (select_ready_connection w c s d n))) k \<noteq> None"
  then have "k = c \<or> map_of (sessions n) k \<noteq> None" using sessions_select [OF assms(1)] by metis
  with assms(2) show "k \<in> insert c U" by (auto simp: sessions_within_def)
qed

lemma within_mono: "sessions_within U n \<Longrightarrow> U \<subseteq> V \<Longrightarrow> sessions_within V n"
  by (auto simp: sessions_within_def)

text \<open>Predicates that keep publishing are kept by every step of the machine.\<close>

lemma machine_registry: "machine_ok pid c s \<Longrightarrow> registry_ok (the_node s)"
  by (simp add: machine_ok_def node_ok_def)

lemma machine_negotiating:
  "machine_ok pid c s \<Longrightarrow> k \<in> negotiating s \<Longrightarrow> map_of (sessions (the_node s)) k = None"
  by (auto simp: machine_ok_def sessions_within_def)

context session_property begin

lemma machine_step:
  assumes "machine_step s t" "machine_ok pid c s" "P (the_node s)"
  shows "P (the_node t)"
  using assms(1)
proof cases
  case (operation n)
  then show ?thesis using assms(3) by (auto intro: node_property.operation [OF node_property_axioms])
next
  case (prepare x p r n)
  with keeps_snd [OF preparing assms(3), of x p] show ?thesis by simp
next
  case (accept x r n)
  with keeps_snd [OF accepting assms(3), of x] show ?thesis by simp
next
  case (select x w ps d r n)
  with selecting [OF assms(3) machine_registry [OF assms(2)] machine_negotiating [OF assms(2)], of x w ps d]
  show ?thesis by simp
qed

end

lemma machine_ok_step:
  assumes "machine_step s t" "machine_ok pid c s"
  shows "machine_ok pid c t"
proof -
  have node: "node_ok pid c (the_node t)"
    using tables.machine_step [OF assms] assms(2) by (simp add: machine_ok_def)
  have ok: "negotiating s \<subseteq> handed_out s" "sessions_within (handed_out s - negotiating s) (the_node s)"
    using assms(2) by (simp_all add: machine_ok_def)
  from assms(1) have "negotiating t \<subseteq> handed_out t
    \<and> sessions_within (handed_out t - negotiating t) (the_node t)"
  proof cases
    case (operation n)
    with ok show ?thesis by (auto intro: within.operation)
  next
    case (prepare x p r n)
    with ok keeps_snd [OF within.preparing ok(2), of x p] show ?thesis by (auto elim: within_mono)
  next
    case (accept x r n)
    with ok keeps_snd [OF within.accepting ok(2), of x] show ?thesis by (auto elim: within_mono)
  next
    case (select x w ps d r n)
    with ok select_within [OF machine_registry [OF assms(2)] ok(2), of x w ps d]
    show ?thesis by (auto elim!: within_mono)
  qed
  with node show ?thesis by (simp add: machine_ok_def)
qed

interpretation node_machine: machine_invariant machine_step "new_machine pid c" "machine_ok pid c" for pid c
proof unfold_locales
  show "machine_ok pid c (new_machine pid c)"
    by (simp add: machine_ok_def new_machine_def new_node_ok sessions_within_def) (simp add: new_node_def)
qed (rule machine_ok_step)

context session_property begin

lemma machine_run:
  assumes "reachable machine_step s t" "machine_ok pid c s" "P (the_node s)"
  shows "P (the_node t) \<and> machine_ok pid c t"
  using assms by (induction rule: reachable.induct) (auto intro: machine_step machine_ok_step)

end

text \<open>A connection that was negotiated and has no session any more.\<close>

definition spent :: "conn \<Rightarrow> machine \<Rightarrow> bool" where
  "spent k s \<longleftrightarrow> k \<in> handed_out s - negotiating s \<and> map_of (sessions (the_node s)) k = None"

lemma within_all_but: "sessions_within (- {k}) n \<longleftrightarrow> map_of (sessions n) k = None"
  by (auto simp: sessions_within_def)

lemma spent_step:
  assumes "machine_step s t" "machine_ok pid c s" "spent k s"
  shows "spent k t"
proof -
  have k: "k \<in> handed_out s" "k \<notin> negotiating s" "sessions_within (- {k}) (the_node s)"
    using assms(3) by (simp_all add: spent_def within_all_but)
  from assms(1) show ?thesis
  proof cases
    case (operation n)
    then have "sessions_within (- {k}) n" using k(3) by (auto intro: within.operation)
    with operation k show ?thesis by (simp add: spent_def within_all_but)
  next
    case (prepare x p r n)
    with k keeps_snd [OF within.preparing k(3), of x p] show ?thesis
      by (auto simp: spent_def within_all_but)
  next
    case (accept x r n)
    with k keeps_snd [OF within.accepting k(3), of x] show ?thesis
      by (auto simp: spent_def within_all_but)
  next
    case (select x w ps d r n)
    then have "k \<noteq> x" using k(2) by auto
    from sessions_select [OF machine_registry [OF assms(2)] this, of w ps d] select k
    show ?thesis by (auto simp: spent_def within_all_but)
  qed
qed

lemma spent_run:
  assumes "reachable machine_step s t" "machine_ok pid c s" "spent k s"
  shows "spent k t \<and> machine_ok pid c t"
  using assms by (induction rule: reachable.induct) (auto intro: spent_step machine_ok_step)

section \<open>Properties\<close>

text \<open>C3 The tables of a node are consistent and bounded whatever happens. In every state that any
  interleaving of the node's operations reaches from its construction with a valid configuration,
  a peer is linked to a connection exactly if that connection has a session with that peer, so
  that there is at most one session per peer and one peer per connection, and none with the node
  itself; what the node reports as its session with a peer's connection is that; and the admitted
  connections, the pending requests and acknowledgements, and the queues of every writer, of the
  dispatcher and of the observers respect the configured limits.\<close>

theorem node_tables_consistent:
  assumes "config_ok c" "reachable machine_step (new_machine pid c) s"
  shows "let n = the_node s in
    (\<forall>p k. map_of (peer_connections n) p = Some k \<longleftrightarrow>
       (\<exists>x. session_for k n = Some x \<and> session_peer_id x = p))
    \<and> map_of (peer_connections n) pid = None
    \<and> int (active_connection_count n) \<le> max_connections c
    \<and> int (pending_request_count n) \<le> max_pending_requests c
    \<and> int (pending_acknowledgement_count n) \<le> max_pending_acknowledgements c
    \<and> (\<forall>k. int (length (ch_queue (channel_of k n))) \<le> max_outbound_queue c)
    \<and> int (inbound_queue_size n) \<le> max_inbound_queue c
    \<and> (\<forall>q. event_queue n = Some q \<longrightarrow> int (length q) \<le> max_event_queue c)"
proof -
  have ok: "node_ok pid c (the_node s)"
    using node_machine.holds [OF assms(2)] by (simp add: machine_ok_def)
  note n = node_okD [OF ok]
  have limits: "0 < max_connections c" "0 < max_pending_requests c" "0 < max_pending_acknowledgements c"
    "0 < max_outbound_queue c" "0 < max_inbound_queue c" "0 < max_event_queue c"
    using assms(1) by (simp_all add: config_ok_def)
  have links: "map_of (peer_connections (the_node s)) p = Some k \<longleftrightarrow>
      (\<exists>x. session_for k (the_node s) = Some x \<and> session_peer_id x = p)" for p k
    using registry_peer [OF n(1)] registry_session(2) [OF n(1)] unfolding session_for_def by blast
  have self: "map_of (peer_connections (the_node s)) pid = None"
    using registry_peer [OF n(1)] registry_session(1) [OF n(1)] n(7) by (metis not_None_eq)
  show ?thesis
    using n(2,3,5,6) outbound_channel [OF n(4)] limits n(8)
    by (auto simp: Let_def links self admission_ok_def correlations_ok_def inbound_bounded_def
        event_bounded_def pending_request_count_def pending_acknowledgement_count_def
        inbound_queue_size_def split: option.split)
qed

definition linked_machine :: machine where
  "linked_machine = \<lparr>the_node = snd (select_ready_connection example_world 3 (example_session (lit ''b''))
       INBOUND (snd (accept_connection 3 (new_node (lit ''a'') example_config)))),
     handed_out = {3}, negotiating = {}\<rparr>"

lemma linked_machine_reachable:
  "reachable machine_step (new_machine (lit ''a'') example_config) linked_machine"
proof -
  let ?n0 = "new_node (lit ''a'') example_config"
  let ?n1 = "snd (accept_connection 3 ?n0)"
  let ?s1 = "\<lparr>the_node = ?n1, handed_out = {3}, negotiating = {3}\<rparr>"
  have acc: "accept_connection 3 ?n0 = (Inr True, ?n1)"
    by (simp add: accept_connection_def new_node_def active_connection_count_def example_config_def)
  have one: "machine_step (new_machine (lit ''a'') example_config) ?s1"
    using machine_step.accept [of 3 "new_machine (lit ''a'') example_config" "Inr True" ?n1] acc
    by (simp add: new_machine_def)
  have two: "machine_step ?s1 linked_machine"
    using machine_step.select [of 3 ?s1 example_world "example_session (lit ''b'')" INBOUND]
    by (simp add: linked_machine_def) (metis prod.collapse)
  show ?thesis
    by (rule reachable.next_state, rule reachable.next_state, rule reachable.start, rule one, rule two)
qed

lemma first_session:
  assumes "registry_ok n" "session_peer_id s \<noteq> local_peer n"
    and "map_of (peer_connections n) (session_peer_id s) = None"
  shows "map_of (sessions (snd (select_ready_connection w c s d n))) c = Some s"
proof -
  have "sessions (snd (register_session w c s d n)) = sessions (publish_session w c s d n)"
    using register_session_fields(1) [of w c s d n] by (simp add: registry_of_def)
  then show ?thesis
    using assms by (simp add: select_as_cases connection_for_peer_def snd_seq_ret without_closed_def
        publish_session_def)
qed

lemma linked_machine_session:
  "map_of (sessions (the_node linked_machine)) 3 = Some (example_session (lit ''b''))"
  unfolding linked_machine_def machine.simps
  by (rule first_session)
    (simp_all add: accept_connection_def new_node_def active_connection_count_def example_config_def
      example_session_def registry_ok_def)

theorem node_tables_consistent_witness:
  "map_of (peer_connections (the_node linked_machine)) (lit ''b'') = Some 3
    \<and> map_of (peer_connections (the_node linked_machine)) (lit ''a'') = None"
proof -
  from node_tables_consistent [OF new_config_ok [OF example_args_accepted] linked_machine_reachable] linked_machine_session
  show ?thesis by (simp add: Let_def example_session_def session_for_def)
qed

text \<open>C6 An outcome is final. Once a caller's future has an outcome (a reply, an acknowledgement, a
  written frame, an error or its cancellation), no later operation of the node changes it: a late
  reply, a second acknowledgement, the end of the writer, of the session or of the node find the
  future done and leave it alone.\<close>

theorem outcomes_final:
  assumes "reachable machine_step (new_machine pid c) s" "reachable machine_step s t"
    and "f < length (futures (the_node s))" "future_state f (the_node s) \<noteq> Waiting"
  shows "future_state f (the_node t) = future_state f (the_node s)"
proof -
  have "answered (the_node s) (the_node s)" by (simp add: answered_def)
  then have "answered (the_node s) (the_node t)"
    using answered.machine_run [OF assms(2) node_machine.holds [OF assms(1)]] by simp
  with assms(3,4) show ?thesis by (simp add: answered_def)
qed

theorem outcomes_final_witness:
  "\<exists>s t. reachable machine_step (new_machine (lit ''a'') example_config) s
    \<and> reachable machine_step s t \<and> the_node t = close_request (lit ''m'') 0 (the_node s)
    \<and> future_state 0 (the_node s) = FutureCancelled \<and> future_state 0 (the_node t) = FutureCancelled"
proof -
  let ?s0 = "new_machine (lit ''a'') example_config"
  let ?n1 = "snd (open_request (lit ''m'') 3 (lit ''b'') (the_node ?s0))"
  let ?s1 = "?s0\<lparr>the_node := ?n1\<rparr>"
  let ?s2 = "?s1\<lparr>the_node := abandon_frame 0 ?n1\<rparr>"
  let ?s3 = "?s2\<lparr>the_node := close_request (lit ''m'') 0 (the_node ?s2)\<rparr>"
  have fs: "futures ?n1 = [Waiting]"
    by (simp add: new_machine_def open_request_def new_future_def seq_def [of new_future] new_node_def
        example_config_def ensure_running_def seq_def [of "reads _"])
  have one: "machine_step ?s0 ?s1"
    by (rule machine_step.operation) (rule node_operation.request_entered)
  have two: "machine_step ?s1 ?s2"
    by (rule machine_step.operation) (simp add: node_operation.frame_abandoned)
  have three: "machine_step ?s2 ?s3"
    by (rule machine_step.operation) (rule node_operation.request_closed)
  have s2: "reachable machine_step ?s0 ?s2"
    by (rule reachable.next_state, rule reachable.next_state, rule reachable.start, rule one, rule two)
  have s3: "reachable machine_step ?s2 ?s3"
    by (rule reachable.next_state, rule reachable.start, rule three)
  have f: "0 < length (futures (the_node ?s2))" "future_state 0 (the_node ?s2) = FutureCancelled"
    using fs by (simp_all add: abandon_frame_def complete_future_def future_state_def)
  have "future_state 0 (the_node ?s3) = FutureCancelled"
    using outcomes_final [OF s2 s3 f(1)] f(2) by simp
  with s2 s3 f(2) show ?thesis by (intro exI [of _ ?s2] exI [of _ ?s3]) simp
qed

text \<open>C14 A session that has ended does not come back. Once a connection that had a session has none
  any more, because it was replaced, retired, lost, disconnected or stopped, it has none in any
  later state, and no peer is linked to it again: a new session of the peer is one of a new
  connection.\<close>

theorem ended_session_stays_ended:
  assumes "reachable machine_step (new_machine pid c) s" "map_of (sessions (the_node s)) k \<noteq> None"
    and "reachable machine_step s t" "map_of (sessions (the_node t)) k = None"
    and "reachable machine_step t u"
  shows "map_of (sessions (the_node u)) k = None \<and> map_of (peer_connections (the_node u)) p \<noteq> Some k"
proof -
  have s: "machine_ok pid c s" by (rule node_machine.holds [OF assms(1)])
  have "k \<in> handed_out s - negotiating s"
    using s assms(2) by (auto simp: machine_ok_def sessions_within_def)
  moreover have "handed_out v - negotiating v \<supseteq> handed_out s - negotiating s"
    if "reachable machine_step s v" for v
    using that
  proof (induction rule: reachable.induct)
    case (next_state v v')
    have v: "negotiating v \<subseteq> handed_out v"
      using reachable_trans [OF next_state.hyps(1) assms(1)] node_machine.holds [of pid c v]
      by (auto simp: machine_ok_def)
    from next_state.hyps(2) have "handed_out v - negotiating v \<subseteq> handed_out v' - negotiating v'"
      by cases (use v in auto)
    with next_state.IH show ?case by blast
  qed simp
  ultimately have "spent k t" using assms(3,4) by (auto simp: spent_def)
  moreover have "machine_ok pid c t"
    by (rule node_machine.holds [OF reachable_trans [OF assms(3,1)]])
  ultimately have u: "spent k u" "registry_ok (the_node u)"
    using spent_run [OF assms(5)] machine_registry by blast+
  then have "map_of (peer_connections (the_node u)) p \<noteq> Some k"
    using registry_peer [OF u(2)] by (metis spent_def option.distinct(1))
  with u(1) show ?thesis by (simp add: spent_def)
qed

theorem ended_session_stays_ended_witness:
  "\<exists>t. machine_step linked_machine t
    \<and> map_of (sessions (the_node linked_machine)) 3 = Some (example_session (lit ''b''))
    \<and> map_of (sessions (the_node t)) 3 = None
    \<and> map_of (peer_connections (the_node t)) (lit ''b'') \<noteq> Some 3"
proof -
  let ?t = "linked_machine\<lparr>the_node := snd (retire_begin 3 (the_node linked_machine))\<rparr>"
  have step: "machine_step linked_machine ?t"
    by (rule machine_step.operation) (rule node_operation.retiring)
  have run: "reachable machine_step linked_machine ?t"
    by (rule reachable.next_state, rule reachable.start, rule step)
  have "sessions (fail_pending_for_connection 3 n) = sessions n" for n
    using fail_pending_registry(1) [of 3 n] by (simp add: registry_of_def)
  then have gone: "map_of (sessions (the_node ?t)) 3 = None" by (simp add: retire_begin_def)
  have "map_of (sessions (the_node linked_machine)) 3 \<noteq> None" by (simp add: linked_machine_session)
  from ended_session_stays_ended [OF linked_machine_reachable this run gone reachable.start]
  show ?thesis using step gone linked_machine_session by blast
qed

end
