(* ===== verification/NodeCalls.thy ===== *)
theory NodeCalls
  imports NodeMachine
begin

text \<open>
  The calls of an application: \<open>connect\<close>, \<open>send\<close>, \<open>request\<close> and \<open>reply\<close> of
  \<open>src/paqto/core/node.py\<close>, and \<open>_send_message\<close>, each as a coroutine. A program counter says at
  which await the call is, a resume function what it does when it is woken there; between two
  resumptions the node goes on in any way. A wait for a future ends with the outcome the future
  has, or with the exception that interrupts it: \<open>TimeoutError\<close> when the deadline of \<open>_wait_for\<close>
  passed, \<open>CancelledError\<close> when the caller was cancelled. The connection manager is awaited
  through its answer.

  The lemmas: every call is made of the operations of \<open>NodeMachine\<close>, so what they keep is kept;
  an interrupted call ends, with the exception the interface promises; and a request that ends
  leaves no correlation behind, wherever it ended.
\<close>

section \<open>Waiting\<close>

datatype wake = Woken | Interrupted exn

fun awaited :: "fut \<Rightarrow> (exn + message option) option" where
  "awaited Waiting = None"
| "awaited (Resolved x) = Some (Inr x)"
| "awaited (FutureError e) = Some (Inl e)"
| "awaited FutureCancelled = Some (Inl CancelledError)"

definition wait_outcome :: "wake \<Rightarrow> nat \<Rightarrow> node \<Rightarrow> (exn + message option) option" where
  "wait_outcome i f n =
     (case i of Woken \<Rightarrow> awaited (future_state f n) | Interrupted e \<Rightarrow> Some (Inl e))"

section \<open>Sending a message\<close>

text \<open>The message is queued or waits for room, or its acknowledgement is awaited.\<close>

datatype send_pc =
    Queueing queue_answer "(pystr \<times> nat) option"
  | AwaitAcknowledgement pystr nat
  | SendDone "exn + unit"

definition send_finish :: "(pystr \<times> nat) option \<Rightarrow> exn + unit \<Rightarrow> node \<Rightarrow> send_pc \<times> node" where
  "send_finish entry r n = (SendDone r, send_end entry n)"

definition send_message ::
    "world \<Rightarrow> codec \<Rightarrow> conn \<Rightarrow> message \<Rightarrow> pyval \<Rightarrow> node \<Rightarrow> send_pc \<times> node" where
  "send_message w cd c m require_ack n =
     (case send_begin cd c m require_ack n of
        (Inl e, n1) \<Rightarrow> (SendDone (Inl e), n1)
      | (Inr (frame, entry), n1) \<Rightarrow>
          (case queue_frame w c frame n1 of
             (Inl e, n2) \<Rightarrow> send_finish entry (send_outcome_of (Inl e) None) n2
           | (Inr a, n2) \<Rightarrow> (Queueing a entry, n2)))"

fun send_resume :: "send_pc \<Rightarrow> wake \<Rightarrow> node \<Rightarrow> send_pc \<times> node" where
  "send_resume (Queueing (AwaitRoom k fr) entry) Woken n =
     (case put_waiting k fr n of
        (Inl e, n') \<Rightarrow> send_finish entry (send_outcome_of (Inl e) None) n'
      | (Inr a, n') \<Rightarrow> (Queueing a entry, n'))"
| "send_resume (Queueing (AwaitRoom k fr) entry) (Interrupted e) n =
     send_finish entry (send_outcome_of (Inl e) None) n"
| "send_resume (Queueing (QueuedFrame f) entry) i n =
     (case wait_outcome i f n of
        None \<Rightarrow> (Queueing (QueuedFrame f) entry, n)
      | Some (Inl e) \<Rightarrow> send_finish entry (send_outcome_of (Inl e) None) (abandon_frame f n)
      | Some (Inr _) \<Rightarrow>
          (case entry of
             None \<Rightarrow> (SendDone (Inr ()), abandon_frame f n)
           | Some (mid, g) \<Rightarrow> (AwaitAcknowledgement mid g, abandon_frame f n)))"
| "send_resume (AwaitAcknowledgement mid g) i n =
     (case wait_outcome i g n of
        None \<Rightarrow> (AwaitAcknowledgement mid g, n)
      | Some r \<Rightarrow> send_finish (Some (mid, g))
          (send_outcome_of (Inr ()) (Some (case r of Inl e \<Rightarrow> Inl e | Inr _ \<Rightarrow> Inr ()))) n)"
| "send_resume (SendDone r) i n = (SendDone r, n)"

section \<open>Connecting\<close>

text \<open>
  The call waits for the connection manager, or for it to close the peer of a connection that
  has no session. The reconnect task that a successful connect cancels is the answer of
  \<open>connect_end\<close>.
\<close>

datatype connect_pc = InManager discovered_peer endpoint | Rejecting | Connected "exn + conn"

datatype manager_answer = ManagerReturned "exn + conn" | PeerClosed "exn + unit"

definition connect_call :: "world \<Rightarrow> pystr \<Rightarrow> target \<Rightarrow> node \<Rightarrow> connect_pc \<times> node" where
  "connect_call w transport tgt n =
     (case connect_request w transport tgt n of
        (Inl e, n') \<Rightarrow> (Connected (Inl e), n')
      | (Inr (Inl c), n') \<Rightarrow> (Connected (Inr c), n')
      | (Inr (Inr (d, ep)), n') \<Rightarrow> (InManager d ep, n'))"

fun connect_resume :: "world \<Rightarrow> nat \<Rightarrow> connect_pc \<Rightarrow> manager_answer \<Rightarrow> node \<Rightarrow> connect_pc \<times> node" where
  "connect_resume w current (InManager d ep) (ManagerReturned (Inl e)) n = (Connected (Inl e), n)"
| "connect_resume w current (InManager d ep) (ManagerReturned (Inr c)) n =
     (case connect_end w c d current n of
        (Inl e, n') \<Rightarrow> (Connected (Inl e), n')
      | (Inr NoSession, n') \<Rightarrow> (Rejecting, n')
      | (Inr (Ready t), n') \<Rightarrow> (Connected (Inr c), n'))"
| "connect_resume w current Rejecting (PeerClosed (Inl e)) n = (Connected (Inl e), n)"
| "connect_resume w current Rejecting (PeerClosed (Inr _)) n = (Connected (Inl ProtocolFrameError), n)"
| "connect_resume w current pc a n = (pc, n)"

section \<open>\<open>send\<close>, \<open>request\<close> and \<open>reply\<close>\<close>

text \<open>
  The arguments of a call and what the program generates for it. \<open>headers or {}\<close> replaces every
  false value.
\<close>

record api_call =
  call_payload :: pyval
  call_type :: pyval
  call_headers :: pyval
  call_ack :: pyval
  generated_id :: pystr
  generated_time :: pyval

fun py_false :: "pyval \<Rightarrow> bool" where
  "py_false PNone \<longleftrightarrow> True"
| "py_false (PBool b) \<longleftrightarrow> \<not> b"
| "py_false (PInt i) \<longleftrightarrow> i = 0"
| "py_false (PFloat x) \<longleftrightarrow> x = Finite 0"
| "py_false (PStr s) \<longleftrightarrow> s = []"
| "py_false (PBytes b) \<longleftrightarrow> b = []"
| "py_false (PList vs) \<longleftrightarrow> vs = []"
| "py_false (PTuple vs) \<longleftrightarrow> vs = []"
| "py_false (PDict kvs) \<longleftrightarrow> kvs = []"
| "py_false (PDateTime t) \<longleftrightarrow> False"
| "py_false (PObject t) \<longleftrightarrow> False"

definition envelope :: "api_call \<Rightarrow> pystr \<Rightarrow> pyval \<Rightarrow> pyval \<Rightarrow> message" where
  "envelope call local_id to_peer reply =
     new_message local_id to_peer (call_payload call) (call_type call)
       (if py_false (call_headers call) then PDict [] else call_headers call)
       (PStr (generated_id call)) (generated_time call) reply"

datatype call_pc =
    Connecting discovered_peer connect_pc
  | Sending message "(pystr \<times> nat) option" send_pc
  | AwaitReply pystr nat
  | Returned "exn + message"

definition request_finish :: "pystr \<Rightarrow> nat \<Rightarrow> exn + message \<Rightarrow> node \<Rightarrow> call_pc \<times> node" where
  "request_finish mid f r n = (Returned r, close_request mid f n)"

text \<open>What follows \<open>await self._send_message(...)\<close>; a request has an entry in the table.\<close>

fun call_after_send :: "message \<Rightarrow> (pystr \<times> nat) option \<Rightarrow> send_pc \<times> node \<Rightarrow> call_pc \<times> node" where
  "call_after_send m None (SendDone (Inl e), n) = (Returned (Inl e), n)"
| "call_after_send m None (SendDone (Inr _), n) = (Returned (Inr m), n)"
| "call_after_send m (Some (mid, f)) (SendDone (Inl e), n) = request_finish mid f (Inl e) n"
| "call_after_send m (Some (mid, f)) (SendDone (Inr _), n) = (AwaitReply mid f, n)"
| "call_after_send m entry (pc, n) = (Sending m entry pc, n)"

definition send_connected ::
    "world \<Rightarrow> codec \<Rightarrow> api_call \<Rightarrow> pystr \<Rightarrow> conn \<Rightarrow> node \<Rightarrow> call_pc \<times> node" where
  "send_connected w cd call p c n =
     (let m = envelope call (local_peer n) (PStr p) PNone
      in call_after_send m None (send_message w cd c m (call_ack call) n))"

definition request_connected ::
    "world \<Rightarrow> codec \<Rightarrow> api_call \<Rightarrow> pystr \<Rightarrow> conn \<Rightarrow> node \<Rightarrow> call_pc \<times> node" where
  "request_connected w cd call p c n =
     (let m = envelope call (local_peer n) (PStr p) PNone; mid = generated_id call
      in case open_request mid c p n of
           (Inl e, n') \<Rightarrow> (Returned (Inl e), n')
         | (Inr f, n') \<Rightarrow> call_after_send m (Some (mid, f)) (send_message w cd c m (call_ack call) n'))"

text \<open>The connected call goes on as the method \<open>k\<close> says.\<close>

fun after_connect ::
    "(pystr \<Rightarrow> conn \<Rightarrow> node \<Rightarrow> call_pc \<times> node) \<Rightarrow> discovered_peer \<Rightarrow> connect_pc \<times> node \<Rightarrow> call_pc \<times> node"
  where
  "after_connect k d (Connected (Inl e), n) = (Returned (Inl e), n)"
| "after_connect k d (Connected (Inr c), n) = k (peer_ident (disc_peer d)) c n"
| "after_connect k d (pc, n) = (Connecting d pc, n)"

definition call_begin ::
    "(pystr \<Rightarrow> conn \<Rightarrow> node \<Rightarrow> call_pc \<times> node) \<Rightarrow> world \<Rightarrow> pystr \<Rightarrow> target \<Rightarrow> node \<Rightarrow> call_pc \<times> node" where
  "call_begin k w transport tgt n =
     (if \<not> running n then (Returned (Inl NotStartedError), n)
      else case resolve_target w tgt n of
             Inl e \<Rightarrow> (Returned (Inl e), n)
           | Inr d \<Rightarrow> after_connect k d (connect_call w transport (TargetDiscovered d) n))"

definition send_call :: "world \<Rightarrow> codec \<Rightarrow> pystr \<Rightarrow> api_call \<Rightarrow> target \<Rightarrow> node \<Rightarrow> call_pc \<times> node" where
  "send_call w cd transport call = call_begin (send_connected w cd call) w transport"

definition request_call :: "world \<Rightarrow> codec \<Rightarrow> pystr \<Rightarrow> api_call \<Rightarrow> target \<Rightarrow> node \<Rightarrow> call_pc \<times> node" where
  "request_call w cd transport call = call_begin (request_connected w cd call) w transport"

text \<open>\<open>context\<close> is the connection of the handler when \<open>m\<close> is the message it handles.\<close>

definition reply_call ::
    "world \<Rightarrow> codec \<Rightarrow> api_call \<Rightarrow> conn option \<Rightarrow> message \<Rightarrow> node \<Rightarrow> call_pc \<times> node" where
  "reply_call w cd call context m n =
     (if \<not> running n then (Returned (Inl NotStartedError), n)
      else case rbind (reply_checks m) (\<lambda>_. connection_for_reply w context m n) of
             Inl e \<Rightarrow> (Returned (Inl e), n)
           | Inr c \<Rightarrow>
               (let r = envelope call (local_peer n) (sender m) (msg_id m)
                in call_after_send r None (send_message w cd c r (call_ack call) n)))"

datatype call_input = Manager manager_answer | Wake wake

definition reply_outcome :: "wake \<Rightarrow> nat \<Rightarrow> node \<Rightarrow> (exn + message) option" where
  "reply_outcome i f n =
     (case wait_outcome i f n of
        Some (Inr (Some x)) \<Rightarrow> Some (Inr x) | Some (Inl e) \<Rightarrow> Some (request_outcome (Inl e)) | _ \<Rightarrow> None)"

fun call_resume ::
    "(pystr \<Rightarrow> conn \<Rightarrow> node \<Rightarrow> call_pc \<times> node) \<Rightarrow> world \<Rightarrow> nat \<Rightarrow> call_pc \<Rightarrow> call_input \<Rightarrow> node \<Rightarrow> call_pc \<times> node"
  where
  "call_resume k w current (Connecting d pc) (Manager a) n =
     after_connect k d (connect_resume w current pc a n)"
| "call_resume k w current (Sending m entry pc) (Wake i) n = call_after_send m entry (send_resume pc i n)"
| "call_resume k w current (AwaitReply mid f) (Wake i) n =
     (case reply_outcome i f n of
        None \<Rightarrow> (AwaitReply mid f, n) | Some r \<Rightarrow> request_finish mid f r n)"
| "call_resume k w current pc i n = (pc, n)"

section \<open>Calls are made of operations\<close>

context node_property begin

lemma send_finishing: "P n \<Longrightarrow> P (snd (send_finish entry r n))"
  by (simp add: send_finish_def sent)

lemma message_sending:
  assumes "P n" shows "P (snd (send_message w cd c m ack n))"
proof -
  obtain r n1 where b: "send_begin cd c m ack n = (r, n1)" by (cases "send_begin cd c m ack n")
  have n1: "P n1" using keepsD [OF sending assms b] .
  have q: "P n2" if "queue_frame w c frame n1 = (r', n2)" for frame r' n2
    using keepsD [OF queueing(1) n1 that] .
  show ?thesis
    using n1 q by (auto simp: send_message_def b send_finishing split: sum.splits prod.splits)
qed

lemma message_resuming: "P n \<Longrightarrow> P (snd (send_resume pc i n))"
proof (induction pc i n rule: send_resume.induct)
  case (1 k fr entry n)
  then show ?case
    using keepsD [OF queueing(2) 1, of k fr] by (auto simp: send_finishing split: sum.splits prod.splits)
next
  case (3 f entry i n)
  have "P (abandon_frame f n)" by (rule writing(8) [OF 3])
  with 3 show ?case by (auto simp: send_finishing split: option.splits sum.splits)
qed (auto simp: send_finishing split: option.splits)

lemma connect_calling: "P n \<Longrightarrow> P (snd (connect_call w transport tgt n))"
  using keepsD [OF requesting, of n w transport tgt]
  by (auto simp: connect_call_def split: prod.splits sum.splits)

lemma connect_resuming: "P n \<Longrightarrow> P (snd (connect_resume w current pc a n))"
proof (induction w current pc a n rule: connect_resume.induct)
  case (2 w current d ep c n)
  then show ?case
    using keepsD [OF connected, of n w c d current]
    by (auto split: prod.splits sum.splits connected.splits)
qed auto

lemma after_sending: "P (snd s) \<Longrightarrow> P (snd (call_after_send m entry s))"
  by (induction m entry s rule: call_after_send.induct) (auto simp: request_finish_def leaving)

lemma send_going_on: "P n \<Longrightarrow> P (snd (send_connected w cd call p c n))"
  by (simp add: send_connected_def Let_def after_sending message_sending)

lemma request_going_on: "P n \<Longrightarrow> P (snd (request_connected w cd call p c n))"
  using keepsD [OF entering(1), of n "generated_id call" c p]
  by (auto simp: request_connected_def Let_def after_sending message_sending split: prod.splits sum.splits)

lemma after_connecting:
  "(\<And>p c m. P m \<Longrightarrow> P (snd (k p c m))) \<Longrightarrow> P (snd s) \<Longrightarrow> P (snd (after_connect k d s))"
  by (induction k d s rule: after_connect.induct) auto

lemma call_beginning:
  assumes "\<And>p c m. P m \<Longrightarrow> P (snd (k p c m))" "P n"
  shows "P (snd (call_begin k w transport tgt n))"
  using assms
  by (auto simp: call_begin_def connect_calling intro: after_connecting split: sum.splits)

lemma calling:
  assumes "P n"
  shows "P (snd (send_call w cd transport call tgt n))" "P (snd (request_call w cd transport call tgt n))"
    "P (snd (reply_call w cd call context m n))"
  using assms
  by (auto simp: send_call_def request_call_def reply_call_def Let_def
      intro!: call_beginning send_going_on request_going_on after_sending message_sending split: sum.splits)

lemma call_resuming:
  assumes "\<And>p c m. P m \<Longrightarrow> P (snd (k p c m))" "P n"
  shows "P (snd (call_resume k w current pc i n))"
  using assms
  by (induction k w current pc i n rule: call_resume.induct)
    (auto simp: request_finish_def leaving intro: after_connecting connect_resuming after_sending message_resuming
      split: option.splits)

end

section \<open>How a call ends\<close>

text \<open>What a waiting call holds: the entry of its request and the one of its acknowledgement.\<close>

fun request_entry :: "call_pc \<Rightarrow> (pystr \<times> nat) option" where
  "request_entry (Sending m entry pc) = entry"
| "request_entry (AwaitReply mid f) = Some (mid, f)"
| "request_entry pc = None"

fun ack_entry :: "call_pc \<Rightarrow> (pystr \<times> nat) option" where
  "ack_entry (Sending m entry (Queueing a ack)) = ack"
| "ack_entry (Sending m entry (AwaitAcknowledgement mid g)) = Some (mid, g)"
| "ack_entry pc = None"

definition request_gone :: "pystr \<Rightarrow> nat \<Rightarrow> node \<Rightarrow> bool" where
  "request_gone mid f n \<longleftrightarrow> future_state f n \<noteq> Waiting
     \<and> (\<forall>pd. map_of (pending_requests n) mid = Some pd \<longrightarrow> pd_future pd \<noteq> f)"

definition ack_gone :: "pystr \<Rightarrow> nat \<Rightarrow> node \<Rightarrow> bool" where
  "ack_gone mid g n \<longleftrightarrow> future_state g n \<noteq> Waiting
     \<and> (\<forall>pd. map_of (pending_acknowledgements n) mid = Some pd \<longrightarrow> pd_future pd \<noteq> g)"

lemma close_request_leaves:
  "f < length (futures n) \<Longrightarrow> request_gone mid f (close_request mid f n)"
  by (simp add: request_gone_def close_request_done close_request_gone)

lemma close_acknowledgement_leaves:
  assumes "g < length (futures n)" shows "ack_gone mid g (close_acknowledgement mid g n)"
  using assms
  by (auto simp: ack_gone_def close_acknowledgement_def complete_future_state split: option.splits)

lemma close_request_acks:
  "ack_gone aid g n \<Longrightarrow> ack_gone aid g (close_request mid f n)"
proof -
  have "future_state g (n\<lparr>pending_requests := d\<rparr>) = future_state g n" for d by (simp add: future_state_def)
  then show "ack_gone aid g n \<Longrightarrow> ack_gone aid g (close_request mid f n)"
    by (auto simp: ack_gone_def close_request_def complete_future_state split: option.splits)
qed

lemma futures_closed [simp]:
  "length (futures (close_request mid f n)) = length (futures n)"
  "length (futures (close_acknowledgement mid f n)) = length (futures n)"
  "length (futures (abandon_frame f n)) = length (futures n)"
  "length (futures (send_end entry n)) = length (futures n)"
  by (auto simp: close_request_def close_acknowledgement_def abandon_frame_def send_end_def split: option.splits)

lemma futures_put_waiting: "length (futures (snd (put_waiting k fr n))) = length (futures n)"
  by (simp add: put_waiting_def put_frame_def Let_def)

text \<open>A send that ends has closed its acknowledgement, and never a future that it does not hold.\<close>

lemma send_resume_ends:
  assumes "send_resume pc i n = (SendDone r, n')" "ack_entry (Sending m entry pc) = Some (aid, g)"
    and "g < length (futures n)"
  shows "ack_gone aid g n'"
  using assms
proof (induction pc i n rule: send_resume.induct)
  case (1 k fr ack n)
  then show ?case
    using futures_put_waiting [of k fr n]
    by (auto simp: send_finish_def send_end_def close_acknowledgement_leaves split: prod.splits sum.splits)
qed (auto simp: send_finish_def send_end_def close_acknowledgement_leaves
    split: option.split_asm sum.split_asm prod.split_asm)

lemma send_resume_futures: "length (futures (snd (send_resume pc i n))) = length (futures n)"
proof (induction pc i n rule: send_resume.induct)
  case (1 k fr entry n)
  then show ?case
    using futures_put_waiting [of k fr n] by (auto simp: send_finish_def split: prod.splits sum.splits)
qed (auto simp: send_finish_def split: option.splits sum.splits prod.splits)

lemma after_send_returns:
  assumes "call_after_send m (Some (mid, f)) s = (Returned r, n')"
  obtains e n where "s = (SendDone (Inl e), n)" "r = Inl e" "n' = close_request mid f n"
  using assms by (cases "(m, Some (mid, f), s)" rule: call_after_send.cases) (auto simp: request_finish_def)

section \<open>Properties\<close>

text \<open>C7 A request leaves nothing behind. Wherever a \<open>request\<close> that is waiting ends, in the queue of the
  writer, before the acknowledgement or before the reply, and however, with the reply, a failure,
  a deadline or a cancellation, its entry is gone from the table of pending requests, its future is
  done, so that a reply that comes later finds nobody, and the same holds of the entry for the
  acknowledgement it may have asked for.\<close>

theorem request_leaves_nothing:
  assumes "call_resume k w current pc i n = (Returned r, n')" "request_entry pc = Some (mid, f)"
    and "f < length (futures n)" "\<forall>aid g. ack_entry pc = Some (aid, g) \<longrightarrow> g < length (futures n)"
  shows "request_gone mid f n' \<and> (\<forall>aid g. ack_entry pc = Some (aid, g) \<longrightarrow> ack_gone aid g n')"
proof (cases pc)
  case (Sending m entry spc)
  with assms(1,2) obtain x where i: "i = Wake x" "entry = Some (mid, f)" by (cases i) auto
  with assms(1) Sending have "call_after_send m (Some (mid, f)) (send_resume spc x n) = (Returned r, n')" by simp
  then obtain e m' where s: "send_resume spc x n = (SendDone (Inl e), m')" "n' = close_request mid f m'"
    by (rule after_send_returns)
  have len: "length (futures m') = length (futures n)" using send_resume_futures [of spc x n] s(1) by simp
  have "ack_gone aid g n'" if "ack_entry pc = Some (aid, g)" for aid g
    using send_resume_ends [OF s(1), of m entry aid g] assms(4) that
    by (simp add: Sending s(2) close_request_acks)
  with len assms(3) show ?thesis by (simp add: s(2) close_request_leaves)
next
  case (AwaitReply x y)
  with assms(1,2) obtain v where "i = Wake v" by (cases i) auto
  with assms AwaitReply show ?thesis
    by (auto simp: request_finish_def close_request_leaves split: option.splits)
qed (use assms(2) in auto)

theorem request_leaves_nothing_witness:
  "\<exists>n'. call_resume (\<lambda>p c n. (Returned (Inl TypeError), n)) example_world 0
       (AwaitReply (lit ''r'') 0) (Wake (Interrupted CancelledError)) example_pending
     = (Returned (Inl CancelledError), n') \<and> request_gone (lit ''r'') 0 n'"
proof -
  let ?n' = "close_request (lit ''r'') 0 example_pending"
  have "call_resume (\<lambda>p c n. (Returned (Inl TypeError), n)) example_world 0
       (AwaitReply (lit ''r'') 0) (Wake (Interrupted CancelledError)) example_pending
     = (Returned (Inl CancelledError), ?n')"
    by (simp add: reply_outcome_def wait_outcome_def request_outcome_def request_finish_def exn_isa_def)
  moreover have "0 < length (futures example_pending)" by (simp add: example_pending_def)
  ultimately show ?thesis using request_leaves_nothing [of _ example_world 0 "AwaitReply (lit ''r'') 0"] by fastforce
qed

text \<open>C13 A deadline and a cancellation always end a call. Interrupted at any of its waits, for room in
  the queue, for its frame to be written, for the acknowledgement or for the reply, a call returns
  at once: a passed deadline is reported as \<open>PaqtoTimeoutError\<close>, \<open>AcknowledgementTimeoutError\<close> or
  \<open>RequestTimeoutError\<close>, according to the wait, and every other interruption, the cancellation of
  the caller above all, reaches the caller as it is.\<close>

theorem interrupted_call_ends:
  assumes "case pc of Sending m entry (SendDone r) \<Rightarrow> False | Sending m entry spc \<Rightarrow> True
    | AwaitReply mid f \<Rightarrow> True | _ \<Rightarrow> False"
  shows "\<exists>n'. call_resume k w current pc (Wake (Interrupted e)) n =
    (Returned (Inl (if \<not> exn_isa e TimeoutError then e
       else case pc of AwaitReply mid f \<Rightarrow> RequestTimeoutError
            | Sending m entry (AwaitAcknowledgement mid g) \<Rightarrow> AcknowledgementTimeoutError
            | _ \<Rightarrow> PaqtoTimeoutError)), n')"
proof (cases pc)
  case (Sending m entry spc)
  have sent: "\<exists>n'. call_after_send m entry (send_finish ack (Inl x) n1) = (Returned (Inl x), n')" for ack x n1
    by (cases entry) (auto simp: send_finish_def request_finish_def)
  show ?thesis
  proof (cases spc)
    case (Queueing a ack)
    with Sending sent show ?thesis by (cases a) (auto simp: wait_outcome_def send_outcome_of_def)
  next
    case (AwaitAcknowledgement mid g)
    with Sending sent show ?thesis by (auto simp: wait_outcome_def send_outcome_of_def)
  qed (use assms Sending in auto)
qed (use assms in \<open>auto simp: reply_outcome_def wait_outcome_def request_outcome_def request_finish_def\<close>)

theorem interrupted_call_ends_witness:
  "\<exists>n'. call_resume (\<lambda>p c n. (Returned (Inl TypeError), n)) example_world 0
       (AwaitReply (lit ''r'') 0) (Wake (Interrupted TimeoutError)) example_pending
     = (Returned (Inl RequestTimeoutError), n')"
  using interrupted_call_ends [of "AwaitReply (lit ''r'') 0" "\<lambda>p c n. (Returned (Inl TypeError), n)"
      example_world 0 TimeoutError example_pending]
  by simp

definition timed_waits :: "(exn \<Rightarrow> exn) list" where
  "timed_waits = [receive_failure, exchange_failure, \<lambda>e. projl (send_outcome_of (Inl e) None),
     \<lambda>e. projl (send_outcome_of (Inr ()) (Some (Inl e))), \<lambda>e. projl (request_outcome (Inl e))]"

text \<open>
  On Python 3.10 these six deadlines are not recognised, because \<open>asyncio.TimeoutError\<close> is a class of
  its own there and passes \<open>except TimeoutError\<close>: a peer that leaves a ping unanswered is not
  disconnected, the heartbeat ends instead; a reader, a handshake, a frame in the queue, an
  acknowledgement and a request whose time is over raise that exception, and not the one of the
  library they raise on later versions.
\<close>

lemma old_timeouts_escape:
  "heartbeat_answer pid f (Inl AsyncioTimeoutError) n = (Inl AsyncioTimeoutError, close_heartbeat pid f n)
   \<and> heartbeat_answer pid f (Inl TimeoutError) n = (Inr True, close_heartbeat pid f n)
   \<and> List.map (\<lambda>g. g AsyncioTimeoutError) timed_waits = replicate 5 AsyncioTimeoutError
   \<and> List.map (\<lambda>g. g TimeoutError) timed_waits = [ConnectionIdleTimeoutError, ProtocolHandshakeTimeoutError,
        PaqtoTimeoutError, AcknowledgementTimeoutError, RequestTimeoutError]"
  by (simp add: heartbeat_answer_def timed_waits_def receive_failure_def exchange_failure_def request_outcome_def
      send_outcome_of_def exn_isa_def numeral_eq_Suc)

end
