(* ===== verification/NodeTasks.thy ===== *)
theory NodeTasks
  imports NodeCalls
begin

text \<open>
  The tasks a node runs for its connections (\<open>src/paqto/core/node.py\<close>), as coroutines over the
  operations of \<open>Sessions\<close> and \<open>Reconnect\<close>: \<open>_accept_loop\<close>, \<open>_run_incoming_connection\<close>,
  \<open>_retire_replaced_connection\<close>, \<open>_connection_ended\<close> and \<open>disconnect\<close>. A program counter says
  what the task awaits, a resume function what it does when that has come.

  The lemmas: the tasks are made of operations of \<open>NodeMachine\<close>; the accept loop ends for four
  reasons only; an incoming connection is read only while it is the one of its peer, and one that
  is not read is forgotten, except for its writer.
\<close>

section \<open>Taking a session down\<close>

text \<open>
  Three methods end a session the same way: they cancel the heartbeat task and await it, close the
  writer and await it. \<open>Down\<close> is where they part again. None of them runs in either task.
\<close>

datatype teardown_pc = DownHeartbeat | DownWriter nat | Down

definition teardown_writer :: "conn \<Rightarrow> node \<Rightarrow> teardown_pc \<times> node" where
  "teardown_writer c n =
     (case close_channel_begin c (cancel_heartbeat_end c n) of
        (None, n') \<Rightarrow> (Down, n') | (Some k, n') \<Rightarrow> (DownWriter k, n'))"

definition teardown_begin :: "conn \<Rightarrow> node \<Rightarrow> teardown_pc \<times> node" where
  "teardown_begin c n =
     (case cancel_heartbeat_begin c n of
        (None, n') \<Rightarrow> teardown_writer c n' | (Some t, n') \<Rightarrow> (DownHeartbeat, n'))"

fun teardown_resume :: "conn \<Rightarrow> teardown_pc \<Rightarrow> node \<Rightarrow> teardown_pc \<times> node" where
  "teardown_resume c DownHeartbeat n = teardown_writer c n"
| "teardown_resume c (DownWriter k) n = (Down, close_channel_end k n)"
| "teardown_resume c Down n = (Down, n)"

section \<open>Retiring a replaced connection\<close>

datatype retire_pc =
    RetireDown teardown_pc "protocol_session option" | RetireManager | RetireClose | Retired

fun retire_go_on :: "conn \<Rightarrow> protocol_session option \<Rightarrow> teardown_pc \<times> node \<Rightarrow> retire_pc \<times> node" where
  "retire_go_on c s (Down, n) = (if s = None then RetireClose else RetireManager, retire_end c n)"
| "retire_go_on c s (pc, n) = (RetireDown pc s, n)"

definition retire_start :: "conn \<Rightarrow> node \<Rightarrow> retire_pc \<times> node" where
  "retire_start c n =
     (case retire_begin c n of (s, n') \<Rightarrow> retire_go_on c s (teardown_begin c n'))"

fun retire_resume :: "conn \<Rightarrow> retire_pc \<Rightarrow> node \<Rightarrow> retire_pc \<times> node" where
  "retire_resume c (RetireDown pc s) n = retire_go_on c s (teardown_resume c pc n)"
| "retire_resume c RetireManager n = (RetireClose, n)"
| "retire_resume c RetireClose n = (Retired, n)"
| "retire_resume c Retired n = (Retired, n)"

section \<open>The end of a session and \<open>disconnect\<close>\<close>

datatype ended_pc =
    EndedDown teardown_pc bool | EndedManager bool | EndedClose bool bool | Ended "exn + unit"

fun ended_go_on :: "bool \<Rightarrow> teardown_pc \<times> node \<Rightarrow> ended_pc \<times> node" where
  "ended_go_on was_canonical (Down, n) = (EndedManager was_canonical, n)"
| "ended_go_on was_canonical (pc, n) = (EndedDown pc was_canonical, n)"

definition ended_start :: "conn \<Rightarrow> protocol_session \<Rightarrow> node \<Rightarrow> ended_pc \<times> node" where
  "ended_start c s n =
     (case ended_begin c s n of (was, n') \<Rightarrow> ended_go_on was (teardown_begin c n'))"

text \<open>
  \<open>removed\<close> is the answer of the manager's \<open>connection_lost\<close>. An await that raises, or is
  cancelled, ends the method there.
\<close>

fun ended_resume ::
    "world \<Rightarrow> conn \<Rightarrow> protocol_session \<Rightarrow> bool \<Rightarrow> ended_pc \<Rightarrow> wake \<Rightarrow> node \<Rightarrow> ended_pc \<times> node" where
  "ended_resume w c s removed (Ended r) i n = (Ended r, n)"
| "ended_resume w c s removed pc (Interrupted e) n = (Ended (Inl e), n)"
| "ended_resume w c s removed (EndedDown pc was) Woken n = ended_go_on was (teardown_resume c pc n)"
| "ended_resume w c s removed (EndedManager was) Woken n = (EndedClose was removed, n)"
| "ended_resume w c s removed (EndedClose was rem) Woken n =
     (case ended_finish w c s was rem n of (r, n') \<Rightarrow> (Ended r, n'))"

datatype disconnect_pc =
    DisconnectReconnect | DisconnectDown teardown_pc conn | DisconnectManager | Disconnected "exn + unit"

fun disconnect_go_on :: "pystr \<Rightarrow> conn \<Rightarrow> teardown_pc \<times> node \<Rightarrow> disconnect_pc \<times> node" where
  "disconnect_go_on p c (Down, n) =
     (case disconnect_finish p c n of
        (Inl e, n') \<Rightarrow> (Disconnected (Inl e), n') | (Inr _, n') \<Rightarrow> (DisconnectManager, n'))"
| "disconnect_go_on p c (pc, n) = (DisconnectDown pc c, n)"

definition disconnect_peer :: "pystr \<Rightarrow> node \<Rightarrow> disconnect_pc \<times> node" where
  "disconnect_peer p n =
     (case disconnect_session p n of
        (None, n') \<Rightarrow> (DisconnectManager, n')
      | (Some c, n') \<Rightarrow> disconnect_go_on p c (teardown_begin c n'))"

definition disconnect_start :: "nat \<Rightarrow> target \<Rightarrow> node \<Rightarrow> disconnect_pc \<times> node" where
  "disconnect_start current tgt n =
     (case disconnect_begin (target_id tgt) n of
        (Some t, n') \<Rightarrow> if t \<noteq> current then (DisconnectReconnect, n') else disconnect_peer (target_id tgt) n'
      | (None, n') \<Rightarrow> disconnect_peer (target_id tgt) n')"

fun disconnect_resume :: "pystr \<Rightarrow> disconnect_pc \<Rightarrow> wake \<Rightarrow> node \<Rightarrow> disconnect_pc \<times> node" where
  "disconnect_resume p (Disconnected r) i n = (Disconnected r, n)"
| "disconnect_resume p pc (Interrupted e) n = (Disconnected (Inl e), n)"
| "disconnect_resume p DisconnectReconnect Woken n = disconnect_peer p n"
| "disconnect_resume p (DisconnectDown pc c) Woken n = disconnect_go_on p c (teardown_resume c pc n)"
| "disconnect_resume p DisconnectManager Woken n = (Disconnected (Inr ()), n)"

section \<open>Accepting\<close>

datatype accept_pc = AcceptWait | AcceptPause | AcceptClosing conn | AcceptStopped "exn + unit"

definition accept_head :: "nat \<Rightarrow> node \<Rightarrow> accept_pc \<times> node" where
  "accept_head generation n =
     (if worker_current generation n then AcceptWait else AcceptStopped (Inr ()), n)"

definition accept_reported :: "accept_pc \<Rightarrow> (exn + unit) \<times> node \<Rightarrow> accept_pc \<times> node" where
  "accept_reported pc r = (case r of (Inl e, n) \<Rightarrow> (AcceptStopped (Inl e), n) | (Inr _, n) \<Rightarrow> (pc, n))"

definition accept_failed :: "exn \<Rightarrow> node \<Rightarrow> accept_pc \<times> node" where
  "accept_failed e n =
     (if exn_isa e CancelledError then (AcceptStopped (Inl e), n)
      else if exn_isa e ConnectionClosedError then
        (if running n then accept_reported (AcceptStopped (Inr ())) (report_transport_error e n)
         else (AcceptStopped (Inr ()), n))
      else if exn_isa e ExceptionClass then accept_reported AcceptPause (report_transport_error e n)
      else (AcceptStopped (Inl e), n))"

definition accept_one :: "nat \<Rightarrow> conn \<Rightarrow> node \<Rightarrow> accept_pc \<times> node" where
  "accept_one generation c n =
     (case accept_connection c n of
        (Inl e, n') \<Rightarrow> (AcceptStopped (Inl e), n')
      | (Inr False, n') \<Rightarrow> (AcceptClosing c, n')
      | (Inr True, n') \<Rightarrow> accept_head generation (snd (start_reader_task c n')))"

datatype accept_input = Accepted "exn + conn" | Elapsed "exn + unit"

fun accept_resume :: "nat \<Rightarrow> accept_pc \<Rightarrow> accept_input \<Rightarrow> node \<Rightarrow> accept_pc \<times> node" where
  "accept_resume g AcceptWait (Accepted (Inl e)) n = accept_failed e n"
| "accept_resume g AcceptWait (Accepted (Inr c)) n = accept_one g c n"
| "accept_resume g AcceptPause (Elapsed (Inl e)) n = (AcceptStopped (Inl e), n)"
| "accept_resume g AcceptPause (Elapsed (Inr _)) n = accept_head g n"
| "accept_resume g (AcceptClosing c) (Elapsed (Inl e)) n = (AcceptStopped (Inl e), n)"
| "accept_resume g (AcceptClosing c) (Elapsed (Inr _)) n = accept_head g n"
| "accept_resume g pc i n = (pc, n)"

section \<open>An incoming connection\<close>

text \<open>
  \<open>RetiringLoser\<close> and \<open>RetiringPrevious\<close> await \<open>_retire_replaced_connection\<close>, \<open>Adopting\<close> and
  \<open>Losing\<close> the manager; \<open>Reading\<close> is \<open>_read_connection\<close>, and \<open>ClosingUnread\<close> the end of the
  \<open>finally\<close> clause, where the connection is closed and the method ends with the outcome.
\<close>

datatype incoming_pc =
    Negotiating
  | RetiringLoser protocol_session conn retire_pc
  | Adopting protocol_session "conn option"
  | RetiringPrevious protocol_session conn retire_pc
  | Losing
  | Reading protocol_session
  | ClosingUnread "exn + unit"

datatype incoming_input =
    Negotiated "exn + protocol_session" | Adopted "exn + conn option" | Resumed "exn + unit"

definition incoming_stop :: "conn \<Rightarrow> exn + unit \<Rightarrow> node \<Rightarrow> incoming_pc \<times> node" where
  "incoming_stop c r n = (ClosingUnread r, incoming_abort c n)"

definition incoming_read :: "world \<Rightarrow> conn \<Rightarrow> protocol_session \<Rightarrow> node \<Rightarrow> incoming_pc \<times> node" where
  "incoming_read w c s n =
     (if map_of (peer_connections n) (session_peer_id s) \<noteq> Some c then (Losing, n)
      else (Reading s, snd (ensure_heartbeat w c s n)))"

fun after_loser :: "protocol_session \<Rightarrow> conn \<Rightarrow> retire_pc \<times> node \<Rightarrow> incoming_pc \<times> node" where
  "after_loser s x (Retired, n) = (Adopting s (Some x), n)"
| "after_loser s x (pc, n) = (RetiringLoser s x pc, n)"

fun after_previous ::
    "world \<Rightarrow> conn \<Rightarrow> protocol_session \<Rightarrow> conn \<Rightarrow> retire_pc \<times> node \<Rightarrow> incoming_pc \<times> node" where
  "after_previous w c s x (Retired, n) = incoming_read w c s n"
| "after_previous w c s x (pc, n) = (RetiringPrevious s x pc, n)"

definition incoming_negotiated ::
    "world \<Rightarrow> conn \<Rightarrow> exn + protocol_session \<Rightarrow> node \<Rightarrow> incoming_pc \<times> node" where
  "incoming_negotiated w c negotiated n =
     (case negotiated of
        Inl e \<Rightarrow>
          (case incoming_failed c e n of
             (Inl e', n') \<Rightarrow> incoming_stop c (Inl e') n' | (Inr _, n') \<Rightarrow> incoming_stop c (Inl e) n')
      | Inr s \<Rightarrow>
          (case select_ready_connection w c s INBOUND n of
             (Inl e, n') \<Rightarrow> incoming_stop c (Inl e) n'
           | (Inr (selected, loser), n') \<Rightarrow>
               if selected \<noteq> c then incoming_stop c (Inr ()) n'
               else (case loser of
                       None \<Rightarrow> (Adopting s None, n')
                     | Some x \<Rightarrow> after_loser s x (retire_start x n'))))"

fun incoming_resume ::
    "world \<Rightarrow> conn \<Rightarrow> incoming_pc \<Rightarrow> incoming_input \<Rightarrow> node \<Rightarrow> incoming_pc \<times> node" where
  "incoming_resume w c Negotiating (Negotiated r) n = incoming_negotiated w c r n"
| "incoming_resume w c (RetiringLoser s x pc) (Resumed (Inr _)) n = after_loser s x (retire_resume x pc n)"
| "incoming_resume w c (Adopting s loser) (Adopted (Inr previous)) n =
     (case previous of
        None \<Rightarrow> incoming_read w c s n
      | Some x \<Rightarrow> if previous = loser then incoming_read w c s n
                  else after_previous w c s x (retire_start x n))"
| "incoming_resume w c (RetiringPrevious s x pc) (Resumed (Inr _)) n =
     after_previous w c s x (retire_resume x pc n)"
| "incoming_resume w c Losing (Resumed (Inr _)) n = incoming_stop c (Inr ()) n"
| "incoming_resume w c (RetiringLoser s x pc) (Resumed (Inl e)) n = incoming_stop c (Inl e) n"
| "incoming_resume w c (Adopting s loser) (Adopted (Inl e)) n = incoming_stop c (Inl e) n"
| "incoming_resume w c (RetiringPrevious s x pc) (Resumed (Inl e)) n = incoming_stop c (Inl e) n"
| "incoming_resume w c Losing (Resumed (Inl e)) n = incoming_stop c (Inl e) n"
| "incoming_resume w c pc i n = (pc, n)"

section \<open>An outgoing connection\<close>

text \<open>
  \<open>_prepare_outgoing_connection\<close>, which the connection manager awaits: \<open>NegotiatingOut\<close> awaits the
  negotiation, \<open>RetiringOut\<close> the retiring of the connection that lost.
\<close>

datatype outgoing_pc =
    NegotiatingOut | RetiringOut conn conn retire_pc | Prepared "exn + conn"

definition prepare_start :: "conn \<Rightarrow> pystr \<Rightarrow> node \<Rightarrow> outgoing_pc \<times> node" where
  "prepare_start c p n =
     (case prepare_begin c p n of
        (Inl e, n') \<Rightarrow> (Prepared (Inl e), n') | (Inr _, n') \<Rightarrow> (NegotiatingOut, n'))"

definition prepare_raise :: "conn \<Rightarrow> pystr \<Rightarrow> exn \<Rightarrow> node \<Rightarrow> outgoing_pc \<times> node" where
  "prepare_raise c p e n =
     (case prepare_failed c p e n of
        (Inl e', n') \<Rightarrow> (Prepared (Inl e'), n') | (Inr _, n') \<Rightarrow> (Prepared (Inl e), n'))"

fun after_retired :: "conn \<Rightarrow> conn \<Rightarrow> conn \<Rightarrow> retire_pc \<times> node \<Rightarrow> outgoing_pc \<times> node" where
  "after_retired c selected x (Retired, n) = (Prepared (Inr selected), prepare_end c selected n)"
| "after_retired c selected x (pc, n) = (RetiringOut selected x pc, n)"

fun prepare_resume ::
    "world \<Rightarrow> conn \<Rightarrow> pystr \<Rightarrow> outgoing_pc \<Rightarrow> incoming_input \<Rightarrow> node \<Rightarrow> outgoing_pc \<times> node" where
  "prepare_resume w c p NegotiatingOut (Negotiated (Inl e)) n = prepare_raise c p e n"
| "prepare_resume w c p NegotiatingOut (Negotiated (Inr s)) n =
     (case select_ready_connection w c s OUTBOUND n of
        (Inl e, n') \<Rightarrow> prepare_raise c p e n'
      | (Inr (selected, loser), n') \<Rightarrow>
          (case loser of
             None \<Rightarrow> (Prepared (Inr selected), prepare_end c selected n')
           | Some x \<Rightarrow> if x = c then (Prepared (Inr selected), prepare_end c selected n')
                       else after_retired c selected x (retire_start x n')))"
| "prepare_resume w c p (RetiringOut selected x pc) (Resumed (Inr _)) n =
     after_retired c selected x (retire_resume x pc n)"
| "prepare_resume w c p (RetiringOut selected x pc) (Resumed (Inl e)) n = prepare_raise c p e n"
| "prepare_resume w c p pc i n = (pc, n)"

section \<open>Tasks are made of operations\<close>

context node_property begin

lemma tearing_down:
  assumes "P n"
  shows "P (snd (teardown_writer c n))" "P (snd (teardown_begin c n))" "P (snd (teardown_resume c pc n))"
proof -
  have writer: "P (snd (teardown_writer c m))" if "P m" for m
    using writing(6) [OF ending(6) [OF that], of c c]
    by (auto simp: teardown_writer_def split: prod.splits option.splits)
  then show "P (snd (teardown_writer c n))" using assms .
  show "P (snd (teardown_begin c n))"
    using ending(5) [OF assms, of c] writer by (auto simp: teardown_begin_def split: prod.splits option.splits)
  show "P (snd (teardown_resume c pc n))"
    using assms writer by (cases pc) (auto simp: writing)
qed

lemma retire_going_on: "P (snd x) \<Longrightarrow> P (snd (retire_go_on c s x))"
  by (induction c s x rule: retire_go_on.induct) (auto simp: ending)

lemma retiring_tasks:
  assumes "P n" shows "P (snd (retire_start c n))" "P (snd (retire_resume c pc n))"
proof -
  show "P (snd (retire_start c n))"
    using ending(2) [OF assms, of c]
    by (auto simp: retire_start_def intro!: retire_going_on tearing_down split: prod.splits)
  show "P (snd (retire_resume c pc n))"
    using assms by (cases pc) (auto intro!: retire_going_on tearing_down)
qed

lemma ended_tasks:
  assumes "P n"
  shows "P (snd (ended_start c s n))" "P (snd (ended_resume w c s removed pc i n))"
proof -
  have go: "P (snd x) \<Longrightarrow> P (snd (ended_go_on b x))" for b x
    by (induction b x rule: ended_go_on.induct) auto
  show "P (snd (ended_start c s n))"
    using ending(4) [OF assms, of c s]
    by (auto simp: ended_start_def intro!: go tearing_down split: prod.splits)
  show "P (snd (ended_resume w c s removed pc i n))"
    using assms keepsD [OF session_ended assms, of w c s]
    by (cases "(w, c, s, removed, pc, i, n)" rule: ended_resume.cases)
      (auto intro!: go tearing_down split: prod.splits)
qed

lemma disconnect_tasks:
  assumes "P n"
  shows "P (snd (disconnect_start current tgt n))" "P (snd (disconnect_resume p pc i n))"
proof -
  have go: "P (snd x) \<Longrightarrow> P (snd (disconnect_go_on p c x))" for p c x
    using keepsD [OF disconnected, of "snd x" p c]
    by (induction p c x rule: disconnect_go_on.induct) (auto split: prod.splits sum.splits)
  have peer: "P (snd (disconnect_peer p m))" if "P m" for p m
    using disconnecting(2) [OF that, of p]
    by (auto simp: disconnect_peer_def intro!: go tearing_down split: prod.splits option.splits)
  show "P (snd (disconnect_start current tgt n))"
    using disconnecting(1) [OF assms, of "target_id tgt"]
    by (auto simp: disconnect_start_def intro!: peer split: prod.splits option.splits)
  show "P (snd (disconnect_resume p pc i n))"
    using assms by (cases "(p, pc, i, n)" rule: disconnect_resume.cases) (auto intro!: go peer tearing_down)
qed

lemma accept_tasks:
  assumes "P n" shows "P (snd (accept_resume g pc i n))"
proof -
  have head: "P (snd (accept_head g m))" if "P m" for m using that by (simp add: accept_head_def)
  have rep: "P (snd (accept_reported pc' (report_transport_error e n)))" for pc' e
    using keepsD [OF reporting(4) assms, of e]
    by (cases "report_transport_error e n") (auto simp: accept_reported_def split: sum.splits)
  have one: "P (snd (accept_one g c n))" for c
  proof -
    obtain r m where a: "accept_connection c n = (r, m)" by (cases "accept_connection c n")
    have m: "P m" using keepsD [OF accepting assms a] .
    show ?thesis
      using m head [OF keeps_snd [OF starting_reader m], of c]
      by (auto simp: accept_one_def a split: sum.splits bool.splits)
  qed
  show ?thesis
    using assms head rep one
    by (cases "(g, pc, i, n)" rule: accept_resume.cases) (auto simp: accept_failed_def)
qed

end

context session_property begin

lemma incoming_tasks:
  assumes "P n" "registry_ok n" "pc = Negotiating \<Longrightarrow> map_of (sessions n) c = None"
  shows "P (snd (incoming_resume w c pc i n))"
proof -
  have stop: "P (snd (incoming_stop c r m))" if "P m" for r m
    using that by (simp add: incoming_stop_def ending)
  have read: "P (snd (incoming_read w c s m))" if "P m" for w c s m
    using that keeps_snd [OF heartbeat_starting that] by (simp add: incoming_read_def)
  have loser: "P (snd x) \<Longrightarrow> P (snd (after_loser s y x))" for s y x
    by (induction s y x rule: after_loser.induct) auto
  have previous: "P (snd x) \<Longrightarrow> P (snd (after_previous w c s y x))" for w c s y x
    by (induction w c s y x rule: after_previous.induct) (auto simp: read)
  have sel: "P m" if "select_ready_connection w c s INBOUND n = (r, m)" "pc = Negotiating" for s r m
    using selecting [OF assms(1,2) assms(3) [OF that(2)], of w s INBOUND] that(1) by simp
  have fail: "P m" if "incoming_failed c e n = (r, m)" for e r m
    using keepsD [OF incoming_failing assms(1) that] .
  show ?thesis
  proof (cases "(w, c, pc, i, n)" rule: incoming_resume.cases)
    case (1 w' c' r n')
    then show ?thesis
      using sel fail stop
      by (auto simp: incoming_negotiated_def intro!: loser retiring_tasks split: sum.splits prod.splits option.splits)
  qed (use assms(1) stop read in \<open>auto intro!: loser previous retiring_tasks split: option.splits\<close>)
qed

lemma outgoing_tasks:
  assumes "P n" "registry_ok n" "pc = NegotiatingOut \<Longrightarrow> map_of (sessions n) c = None"
  shows "P (snd (prepare_start c p n))" "P (snd (prepare_resume w c p pc i n))"
proof -
  show "P (snd (prepare_start c p n))"
    using keeps_snd [OF preparing assms(1), of c p]
    by (cases "prepare_begin c p n") (auto simp: prepare_start_def split: sum.splits)
  have fail: "P (snd (prepare_raise c p e m))" if "P m" for e m
    using keeps_snd [OF preparing_fails that, of c p e]
    by (cases "prepare_failed c p e m") (auto simp: prepare_raise_def split: sum.splits)
  have retired: "P (snd y) \<Longrightarrow> P (snd (after_retired c selected x y))" for selected x y
    by (induction c selected x y rule: after_retired.induct) (auto simp: preparing_ends)
  have sel: "P m" if "select_ready_connection w c s OUTBOUND n = (r, m)" "pc = NegotiatingOut" for s r m
    using selecting [OF assms(1,2) assms(3) [OF that(2)], of w s OUTBOUND] that(1) by simp
  show "P (snd (prepare_resume w c p pc i n))"
    using assms(1) fail sel
    by (cases "(w, c, p, pc, i, n)" rule: prepare_resume.cases)
      (auto intro!: retired retiring_tasks preparing_ends split: sum.splits prod.splits option.splits)
qed

end

section \<open>What an incoming connection leaves\<close>

lemma abort_forgets:
  assumes "registry_ok n" "correlations_ok n" "n' = incoming_abort c n"
  shows "map_of (sessions n') c = None" "map_of (peer_connections n') p \<noteq> Some c"
    "c \<notin> set (incoming_connections n')"
    "map_of (pending_requests n') k = Some pd \<Longrightarrow> pd_connection pd \<noteq> c"
    "map_of (pending_acknowledgements n') k = Some pd \<Longrightarrow> pd_connection pd \<noteq> c"
proof -
  let ?m = "(deactivate_session c n)\<lparr>incoming_connections := removeAll c (incoming_connections n)\<rparr>"
  have n': "n' = fail_pending_for_connection c ?m" by (simp add: assms(3) incoming_abort_def Let_def)
  have reg: "registry_of n' = registry_of (deactivate_session c n)" by (simp add: n')
  then show "map_of (sessions n') c = None" "map_of (peer_connections n') p \<noteq> Some c"
    using deactivate_peers [OF assms(1), of c p] by (auto simp: registry_of_def)
  show "c \<notin> set (incoming_connections n')" by (simp add: n')
  have "correlations_ok ?m" by (rule correlations_same [OF assms(2)]) simp_all
  then show "map_of (pending_requests n') k = Some pd \<Longrightarrow> pd_connection pd \<noteq> c"
    "map_of (pending_acknowledgements n') k = Some pd \<Longrightarrow> pd_connection pd \<noteq> c"
    unfolding n' by (simp_all add: fail_pending_tables split: option.split_asm if_split_asm)
qed

lemma never_stops:
  "fst (after_loser s x y) \<noteq> ClosingUnread r" "fst (incoming_read w c s n) \<noteq> ClosingUnread r"
  "fst (after_previous w c s x y) \<noteq> ClosingUnread r"
proof -
  show read: "fst (incoming_read w c s n) \<noteq> ClosingUnread r" for w c s n by (simp add: incoming_read_def)
  show "fst (after_loser s x y) \<noteq> ClosingUnread r" by (induction s x y rule: after_loser.induct) simp_all
  show "fst (after_previous w c s x y) \<noteq> ClosingUnread r"
    by (induction w c s x y rule: after_previous.induct) (simp_all add: read)
qed

text \<open>The state of which the \<open>finally\<close> clause of an unread connection takes over.\<close>

definition stops_from :: "conn \<Rightarrow> node \<Rightarrow> bool" where
  "stops_from c n' \<longleftrightarrow> (\<exists>m. registry_ok m \<and> correlations_ok m \<and> n' = incoming_abort c m)"

lemma incoming_stop_from:
  "registry_ok m \<Longrightarrow> correlations_ok m \<Longrightarrow> incoming_stop c r m = (pc, n') \<Longrightarrow> stops_from c n'"
  by (auto simp: incoming_stop_def stops_from_def)

lemma negotiated_stops:
  assumes "incoming_negotiated w c x n = (ClosingUnread r, n')"
    and "registry_ok n" "correlations_ok n" "map_of (sessions n) c = None"
  shows "stops_from c n'"
proof (cases x)
  case (Inl e)
  obtain r' m where f: "incoming_failed c e n = (r', m)" by (cases "incoming_failed c e n")
  have "registry_ok m" "correlations_ok m"
    using keepsD [OF registry.incoming_failing assms(2) f] keepsD [OF correlations.incoming_failing assms(3) f] .
  then show ?thesis
    using assms(1) by (cases r') (auto simp: incoming_negotiated_def Inl f intro: incoming_stop_from)
next
  case (Inr s)
  obtain r' m where f: "select_ready_connection w c s INBOUND n = (r', m)"
    by (cases "select_ready_connection w c s INBOUND n")
  have m: "registry_ok m" "correlations_ok m"
    using registry_select [OF assms(2,4), of w s INBOUND]
      correlations.selecting [OF assms(3,2,4), of w s INBOUND] f by simp_all
  show ?thesis
  proof (cases r')
    case (Inl e)
    with m assms(1) show ?thesis
      by (auto simp: incoming_negotiated_def \<open>x = Inr s\<close> f intro: incoming_stop_from)
  next
    case (Inr sl)
    obtain sel l where sl: "sl = (sel, l)" by (cases sl)
    show ?thesis
    proof (cases "sel = c")
      case True
      have "after_loser s y z \<noteq> (ClosingUnread r, n')" for y z using never_stops(1) by (metis fst_conv)
      with assms(1) True show ?thesis
        by (simp add: incoming_negotiated_def \<open>x = Inr s\<close> f Inr sl split: option.split_asm)
    next
      case False
      with m assms(1) show ?thesis
        by (auto simp: incoming_negotiated_def \<open>x = Inr s\<close> f Inr sl intro: incoming_stop_from)
    qed
  qed
qed

lemma incoming_stops:
  assumes "incoming_resume w c pc i n = (ClosingUnread r, n')" "\<nexists>r. pc = ClosingUnread r"
    and "registry_ok n" "correlations_ok n" "pc = Negotiating \<Longrightarrow> map_of (sessions n) c = None"
  shows "stops_from c n'"
proof -
  have never: "after_loser s x y \<noteq> (ClosingUnread r, n')" "incoming_read w c s m \<noteq> (ClosingUnread r, n')"
    "after_previous w c s x y \<noteq> (ClosingUnread r, n')" for s x y m
    using never_stops by (metis fst_conv)+
  show ?thesis
  proof (cases "(w, c, pc, i, n)" rule: incoming_resume.cases)
    case (1 w' c' x k)
    with assms negotiated_stops show ?thesis by auto
  next
    case (2 w' c' s x pc' u k)
    with assms(1) never show ?thesis by simp
  next
    case (3 w' c' s loser previous k)
    with assms(1) never show ?thesis by (simp split: option.split_asm if_split_asm)
  next
    case (4 w' c' s x pc' u k)
    with assms(1) never show ?thesis by simp
  qed (use assms(1-4) in \<open>auto intro: incoming_stop_from\<close>)
qed

lemma incoming_reads:
  assumes "incoming_resume w c pc i n = (Reading s, n')" "\<nexists>s. pc = Reading s"
  shows "map_of (peer_connections n') (session_peer_id s) = Some c"
proof -
  have stop: "incoming_stop c r m \<noteq> (Reading s, n')" for r m by (simp add: incoming_stop_def)
  have loser: "after_loser t x y \<noteq> (Reading s, n')" for t x y
    by (induction t x y rule: after_loser.induct) auto
  have peers: "peer_connections (snd (ensure_heartbeat w c t m)) = peer_connections m" for t m
    by (simp add: ensure_heartbeat_def create_task_def seq_def [of create_task])
  have read: "map_of (peer_connections n') (session_peer_id s) = Some c"
    if "incoming_read w c t m = (Reading s, n')" for t m
    using that peers by (auto simp: incoming_read_def split: if_split_asm)
  have previous: "map_of (peer_connections n') (session_peer_id s) = Some c"
    if "after_previous w c t x y = (Reading s, n')" for t x y
    using that read by (induction w c t x y rule: after_previous.induct) auto
  show ?thesis
    using assms stop loser read previous
    by (cases "(w, c, pc, i, n)" rule: incoming_resume.cases)
      (auto simp: incoming_negotiated_def split: sum.split_asm prod.split_asm option.split_asm if_split_asm)
qed

section \<open>Properties\<close>

text \<open>C16 An incoming connection is either read as the connection of its peer or forgotten. Whatever the
  negotiation, the selection, the retiring of other connections and the manager answer: the task
  reaches the reader only while the peer is linked to this connection; and when it stops without
  reading, no session, no link, no admission and no pending request or acknowledgement of the
  connection is left in the node.\<close>

theorem incoming_read_or_forgotten:
  assumes "registry_ok n" "correlations_ok n" "pc = Negotiating \<longrightarrow> map_of (sessions n) c = None"
    and "\<nexists>s. pc = Reading s" "\<nexists>r. pc = ClosingUnread r"
    and "incoming_resume w c pc i n = (pc', n')"
  shows "case pc' of
      Reading s \<Rightarrow> map_of (peer_connections n') (session_peer_id s) = Some c
    | ClosingUnread r \<Rightarrow> map_of (sessions n') c = None \<and> (\<forall>p. map_of (peer_connections n') p \<noteq> Some c)
        \<and> c \<notin> set (incoming_connections n')
        \<and> (\<forall>k pd. map_of (pending_requests n') k = Some pd \<longrightarrow> pd_connection pd \<noteq> c)
        \<and> (\<forall>k pd. map_of (pending_acknowledgements n') k = Some pd \<longrightarrow> pd_connection pd \<noteq> c)
    | _ \<Rightarrow> True"
proof (cases pc')
  case (Reading s)
  with assms(4,6) incoming_reads [of w c pc i n s n'] show ?thesis by simp
next
  case (ClosingUnread r)
  have "stops_from c n'"
    using assms ClosingUnread by (intro incoming_stops [of w c pc i n r]) auto
  then obtain m where "registry_ok m" "correlations_ok m" "n' = incoming_abort c m"
    by (auto simp: stops_from_def)
  from abort_forgets [OF this] show ?thesis by (simp add: ClosingUnread)
qed simp_all

lemma linked_node:
  "registry_ok (the_node linked_machine)" "correlations_ok (the_node linked_machine)"
  using node_machine.holds [OF linked_machine_reachable] by (simp_all add: machine_ok_def node_ok_def)

theorem incoming_read_or_forgotten_witness:
  "\<exists>n'. incoming_resume example_world 3 (Adopting (example_session (lit ''b'')) None)
       (Adopted (Inl ConnectionClosedError)) (the_node linked_machine)
     = (ClosingUnread (Inl ConnectionClosedError), n')
    \<and> map_of (sessions (the_node linked_machine)) 3 = Some (example_session (lit ''b''))
    \<and> map_of (sessions n') 3 = None"
proof -
  have run: "incoming_resume example_world 3 (Adopting (example_session (lit ''b'')) None)
       (Adopted (Inl ConnectionClosedError)) (the_node linked_machine)
     = (ClosingUnread (Inl ConnectionClosedError), incoming_abort 3 (the_node linked_machine))"
    by (simp add: incoming_stop_def)
  from incoming_read_or_forgotten [OF linked_node _ _ _ run] run linked_machine_session
  show ?thesis by simp
qed

text \<open>C17 But the writer of a connection that is not read stays. When the manager refuses to adopt the
  connection, because its peer is being closed, the session it had is withdrawn, while its
  channel stays in the table and its writer task, waiting for a frame, is not ended: closing the
  connection does not wake it, nothing can be queued for it any more, and nothing that the session
  registry or the links of the peers show leads to it.\<close>

theorem unread_connection_keeps_writer:
  assumes "registry_ok n" "correlations_ok n" "map_of (outbound_channels n) c = Some k"
    and "ch_queue (channel_of k n) = []" "\<not> task_done n (ch_task (channel_of k n))" "c \<in> closed_conns w'"
  shows "let n' = snd (incoming_resume w c (Adopting s loser) (Adopted (Inl e)) n) in
    fst (incoming_resume w c (Adopting s loser) (Adopted (Inl e)) n) = ClosingUnread (Inl e)
    \<and> map_of (sessions n') c = None \<and> (\<forall>p. map_of (peer_connections n') p \<noteq> Some c)
    \<and> map_of (outbound_channels n') c = Some k \<and> \<not> task_done n' (ch_task (channel_of k n'))
    \<and> worker_take k n' = None \<and> queue_frame w' c data n' = (Inl ConnectionClosedError, n')"
proof -
  let ?n' = "incoming_abort c n"
  have same: "channel_store (fail_futures v d m) = channel_store m" "finished (fail_futures v d m) = finished m"
    "outbound_channels (fail_futures v d m) = outbound_channels m" for v d m
    by (induction d arbitrary: m) auto
  have kept: "outbound_channels ?n' = outbound_channels n" "channel_store ?n' = channel_store n"
    "finished ?n' = finished n"
    by (simp_all add: incoming_abort_def Let_def fail_pending_for_connection_def same)
      (simp add: deactivate_session_def Let_def split: option.splits)
  then have ch: "channel_of k ?n' = channel_of k n" by (simp add: channel_of_def)
  have "worker_take k ?n' = None" using assms(4) by (simp add: worker_take_def ch)
  moreover have "queue_frame w' c data ?n' = (Inl ConnectionClosedError, ?n')"
    using assms(3,6) by (simp add: queue_frame_def kept ch)
  ultimately show ?thesis
    using assms(3,5) kept ch abort_forgets(1,2) [OF assms(1,2)]
    by (simp add: incoming_stop_def task_done_def)
qed

theorem unread_connection_keeps_writer_witness:
  "\<exists>n n'. n' = snd (incoming_resume example_world 3 (Adopting (example_session (lit ''b'')) None)
       (Adopted (Inl ConnectionClosedError)) n)
    \<and> map_of (sessions n') 3 = None \<and> map_of (outbound_channels n') 3 = Some 0 \<and> worker_take 0 n' = None"
proof -
  let ?n = "example_channel"
  have h: "registry_ok ?n" "correlations_ok ?n" "map_of (outbound_channels ?n) 3 = Some 0"
    "ch_queue (channel_of 0 ?n) = []" "\<not> task_done ?n (ch_task (channel_of 0 ?n))"
    "3 \<in> closed_conns (example_world\<lparr>closed_conns := {3}\<rparr>)"
    by (simp_all add: example_channel_def registry_ok_def new_node_def correlations_ok_def table_futures_def
        example_config_def channel_of_def empty_channel_def task_done_def)
  from unread_connection_keeps_writer [OF h, of example_world "example_session (lit ''b'')" None ConnectionClosedError]
  show ?thesis unfolding Let_def by blast
qed

text \<open>The accept loop goes on. While the node runs in the loop's generation, a failing \<open>accept\<close> of
  the listener is reported and the loop pauses, an admitted connection is registered and the loop
  waits for the next one, a connection over the limit is closed first; only the end of the listener,
  a cancellation, and a connection over the limit whose \<open>close\<close> raises end it.\<close>

theorem accept_loop_goes_on:
  assumes "worker_current g n" "local_peer n \<noteq> []"
  shows "(exn_isa e ExceptionClass \<and> \<not> exn_isa e ConnectionClosedError \<longrightarrow>
       fst (accept_resume g AcceptWait (Accepted (Inl e)) n) = AcceptPause)
    \<and> fst (accept_resume g AcceptPause (Elapsed (Inr ())) n) = AcceptWait
    \<and> (case accept_resume g AcceptWait (Accepted (Inr c)) n of (pc, n') \<Rightarrow>
        if max_connections (cfg n) \<le> int (active_connection_count n)
        then pc = AcceptClosing c \<and> incoming_connections n' = incoming_connections n
        else pc = AcceptWait \<and> c \<in> set (incoming_connections n') \<and> map_of (reader_tasks n') c \<noteq> None)
    \<and> fst (accept_resume g (AcceptClosing c) (Elapsed (Inr ())) n) = AcceptWait
    \<and> fst (accept_resume g (AcceptClosing c) (Elapsed (Inl e)) n) = AcceptStopped (Inl e)"
proof -
  have ok: "fst (emit_event t None cc err md n) = Inr ()" for t cc err md
    by (rule emit_event_ok) (simp_all add: assms(2))
  have cancelled: "\<not> exn_isa e CancelledError" if "exn_isa e ExceptionClass"
    using that by (cases e) (simp_all add: exn_isa_def)
  have failing: "fst (accept_resume g AcceptWait (Accepted (Inl e)) n) = AcceptPause"
    if "exn_isa e ExceptionClass" "\<not> exn_isa e ConnectionClosedError"
  proof -
    obtain r m where r: "report_transport_error e n = (r, m)" by (cases "report_transport_error e n")
    have "r = Inr ()" using ok r by (auto simp: report_transport_error_def) (metis fst_conv)
    with r that cancelled show ?thesis by (simp add: accept_failed_def accept_reported_def)
  qed
  have one: "case accept_resume g AcceptWait (Accepted (Inr c)) n of (pc, n') \<Rightarrow>
        if max_connections (cfg n) \<le> int (active_connection_count n)
        then pc = AcceptClosing c \<and> incoming_connections n' = incoming_connections n
        else pc = AcceptWait \<and> c \<in> set (incoming_connections n') \<and> map_of (reader_tasks n') c \<noteq> None"
  proof (cases "max_connections (cfg n) \<le> int (active_connection_count n)")
    case True
    obtain r m where r: "report_resource_limit None (Some c) n = (r, m)"
      by (cases "report_resource_limit None (Some c) n")
    have "r = Inr ()" using ok r by (auto simp: report_resource_limit_def) (metis fst_conv)
    moreover have "incoming_connections m = incoming_connections n"
      using emit_event_fields(2) r by (metis report_resource_limit_def snd_conv)
    ultimately show ?thesis using True r by (simp add: accept_one_def accept_connection_def)
  next
    case False
    let ?m = "n\<lparr>incoming_connections := List.insert c (incoming_connections n)\<rparr>"
    have "accept_connection c n = (Inr True, ?m)" using False by (simp add: accept_connection_def)
    moreover have "worker_current g (snd (start_reader_task c ?m))
        \<and> incoming_connections (snd (start_reader_task c ?m)) = incoming_connections ?m
        \<and> map_of (reader_tasks (snd (start_reader_task c ?m))) c \<noteq> None"
      using assms(1) by (auto simp: start_reader_task_def create_task_def seq_def [of create_task]
          worker_current_def split: option.splits)
    ultimately show ?thesis using False by (simp add: accept_one_def accept_head_def)
  qed
  have head: "fst (accept_head g n) = AcceptWait" using assms(1) by (simp add: accept_head_def)
  from failing one head show ?thesis by simp
qed

theorem accept_loop_goes_on_witness:
  "\<exists>n. fst (accept_resume 1 AcceptWait (Accepted (Inl OSError)) n) = AcceptPause
    \<and> fst (accept_resume 1 AcceptPause (Elapsed (Inr ())) n) = AcceptWait"
proof -
  let ?n = "(new_node (lit ''a'') example_config)\<lparr>running := True, lifecycle_generation := 1\<rparr>"
  have h: "worker_current 1 ?n" "local_peer ?n \<noteq> []"
    by (simp_all add: worker_current_def new_node_def)
  have "exn_isa OSError ExceptionClass" "\<not> exn_isa OSError ConnectionClosedError" by (simp_all add: exn_isa_def)
  with accept_loop_goes_on [OF h, of OSError] show ?thesis by blast
qed

end
