(* ===== verification/Discovery.thy ===== *)
theory Discovery
  imports LanDiscovery NodeTasks
begin

text \<open>
  The node and its discovery service. \<open>NoDiscovery\<close> (\<open>src/paqto/core/discovery.py\<close>) is the
  service of a node whose application provides the endpoints; \<open>LanDiscovery\<close> the one of a local
  network. The locale \<open>discovery_service\<close> is what \<open>PaqtoNode\<close> relies on when it asks one, and both
  are interpretations of it. The theorem composes them with the node: a peer whose announcement
  was received is found by \<open>discover\<close>, and can be connected by its identity.
\<close>

section \<open>\<open>NoDiscovery\<close>\<close>

text \<open>Its state is the flag \<open>_started\<close>; the arguments of its methods are discarded.\<close>

record no_discovery =
  nd_started :: bool

definition no_discovery_start :: "no_discovery \<Rightarrow> no_discovery" where
  "no_discovery_start d = d\<lparr>nd_started := True\<rparr>"

definition no_discovery_stop :: "no_discovery \<Rightarrow> no_discovery" where
  "no_discovery_stop d = d\<lparr>nd_started := False\<rparr>"

definition no_discovery_discover :: "no_discovery \<Rightarrow> exn + discovered_peer list" where
  "no_discovery_discover d = (if \<not> nd_started d then Inl NotStartedError else Inr [])"

section \<open>The contract of a service\<close>

text \<open>\<open>LanDiscovery.discover\<close> with both of its parts.\<close>

definition lan_discover ::
    "pyrt \<Rightarrow> exn + unit \<Rightarrow> pyval \<Rightarrow> clock \<Rightarrow> lan_discovery \<Rightarrow> (exn + discovered_peer list) \<times> lan_discovery" where
  "lan_discover rt sendto timeout now d =
     (case discover_request rt sendto timeout d of
        Inl e \<Rightarrow> (Inl e, d) | Inr _ \<Rightarrow> discover_result now d)"

locale discovery_service =
  fixes up :: "'s \<Rightarrow> bool" and halt :: "'s \<Rightarrow> 's"
    and ask :: "'s \<Rightarrow> (exn + discovered_peer list) \<times> 's"
  assumes halted: "\<not> up (halt s)"
    and ask_down: "\<not> up s \<Longrightarrow> \<exists>e. ask s = (Inl e, s) \<and> exn_isa e PaqtoError \<and> \<not> exn_isa e TimeoutError"
    and ask_up: "up (snd (ask s)) = up s"
begin

lemma down_teaches_nothing:
  assumes "\<not> up s"
  shows "\<exists>e. discover_end w g (fst (ask s)) n = (Inl e, n) \<and> exn_isa e PaqtoError"
proof -
  obtain e where "ask s = (Inl e, s)" "exn_isa e PaqtoError" "\<not> exn_isa e TimeoutError"
    using ask_down [OF assms] by blast
  then show ?thesis by (simp add: discover_end_def)
qed

lemma halted_teaches_nothing:
  "\<exists>e. discover_end w g (fst (ask (halt s))) n = (Inl e, n) \<and> exn_isa e PaqtoError"
  by (rule down_teaches_nothing [OF halted])

end

interpretation none: discovery_service nd_started no_discovery_stop "\<lambda>d. (no_discovery_discover d, d)"
  by unfold_locales (auto simp: no_discovery_stop_def no_discovery_discover_def exn_isa_def)

interpretation lan: discovery_service socket_open stop_discovery "lan_discover rt sendto timeout now"
  for rt sendto timeout now
proof unfold_locales
  show "\<not> socket_open (stop_discovery d)" for d
    by (simp add: stop_discovery_def clear_local_state_def)
  show "\<exists>e. lan_discover rt sendto timeout now d = (Inl e, d) \<and> exn_isa e PaqtoError \<and> \<not> exn_isa e TimeoutError"
    if "\<not> socket_open d" for d
    using that by (simp add: lan_discover_def discover_request_def exn_isa_def)
  have "socket_open (snd (discover_result now d)) = socket_open d" for d
    by (auto simp: discover_result_def prune_expired_def split: sum.splits)
  then show "socket_open (snd (lan_discover rt sendto timeout now d)) = socket_open d" for d
    by (simp add: lan_discover_def split: sum.splits)
qed

text \<open>A node without discovery learns nothing and never fails to ask.\<close>

lemma no_discovery_learns_nothing:
  assumes "running n" "g = lifecycle_generation n"
  shows "discover_end w g (no_discovery_discover (no_discovery_start d)) n = (Inr [], n)"
  using assms by (simp add: discover_end_def no_discovery_discover_def no_discovery_start_def fresh_only_def)

section \<open>From an announcement to a connection\<close>

text \<open>What both caches keep: an observation just received, while it is fresh, among observations whose
  times are aware.\<close>

abbreviation ident_of :: "discovered_peer \<Rightarrow> pystr" where
  "ident_of \<equiv> \<lambda>x. peer_ident (disc_peer x)"

definition aware :: "discovered_peer \<Rightarrow> bool" where
  "aware x \<longleftrightarrow> dt_utc (last_seen x) \<noteq> None"

definition within_ttl :: "clock \<Rightarrow> clock \<Rightarrow> pyval \<Rightarrow> bool" where
  "within_ttl seen now ttl \<longleftrightarrow> validate_ttl ttl = Inr () \<and> monotonic seen \<le> monotonic now
     \<and> (\<forall>limit. number_value ttl = Some limit \<longrightarrow> monotonic now - monotonic seen \<le> limit)"

definition just_seen :: "clock \<Rightarrow> discovered_peer \<Rightarrow> bool" where
  "just_seen t x \<longleftrightarrow> x = touch t x"

lemma just_seen_fresh:
  assumes "just_seen t x" "within_ttl t now ttl"
  shows "is_fresh now ttl x = (x, Inr True)"
proof (cases "number_value ttl")
  case None
  with assms(2) show ?thesis by (simp add: is_fresh_def freshness_of_def within_ttl_def)
next
  case (Some limit)
  with assms(2) is_fresh_touched [of ttl limit t now x] assms(1) show ?thesis
    by (simp add: within_ttl_def just_seen_def)
qed

lemma announcement_just_seen:
  assumes "handle_announce u now kvs d = (Inr (), d')" "map_of (discovered d') (peer_ident p) = Some x"
    and "parse_peer (dget kvs (lit ''peer'')) = Some p" "local_peer_info d = Some me" "peer_ident p \<noteq> peer_ident me"
    and "parse_endpoints u (dget kvs (lit ''endpoints'')) = Inr (Some es)"
    and "optional_dict (dget kvs (lit ''metadata'')) = Some md" "cache_ok d"
  shows "just_seen now x"
proof -
  have touched: "just_seen now (touch now y)" "just_seen now (new_discovered now p es (utc_dt (utc_now now)) md)" for y
    by (simp_all add: just_seen_def touch_def new_discovered_def anchor_monotonic_age_def seconds_def)
  show ?thesis
  proof (cases "map_of (discovered d) (peer_ident p)")
    case (Some y)
    with assms touched show ?thesis by (auto simp: handle_announce_def)
  next
    case None
    obtain r d1 where r: "prune_expired now d = (r, d1)" by fastforce
    have "map_of (discovered d1) (peer_ident p) = None"
      using prune_expired_cases(3) [OF assms(8) r] None by (auto simp: map_of_eq_None_iff)
    with assms None touched r show ?thesis
      by (auto simp: handle_announce_def split: sum.splits if_split_asm)
  qed
qed

lemma announced_keys:
  assumes "handle_announce u now kvs d = (r, d')" "parse_peer (dget kvs (lit ''peer'')) = Some p" "cache_ok d"
  shows "settings d' = settings d" "set (dkeys (discovered d')) \<subseteq> insert (peer_ident p) (set (dkeys (discovered d)))"
proof -
  obtain v d1 where v: "prune_expired now d = (v, d1)" by fastforce
  note pr = prune_expired_cases [OF assms(3) v]
  have "settings d1 = settings d" by (subst pr(2)) simp
  with assms(1,2) v pr(3) show "settings d' = settings d" "set (dkeys (discovered d')) \<subseteq> insert (peer_ident p) (set (dkeys (discovered d)))"
    by (auto simp: handle_announce_def set_dkeys_dput simp del: set_map split: option.splits sum.splits if_split_asm)
qed

lemma parse_peer_nonempty: "parse_peer v = Some p \<Longrightarrow> peer_ident p \<noteq> []"
  by (auto simp: parse_peer_def bind_eq_Some_conv split: pyval.splits)

lemma parsed_transport: "parse_endpoint u v = Inr (Some e) \<Longrightarrow> ep_transport e = TRANSPORT_NAME"
  by (auto simp: parse_endpoint_def elim!: rbind_InrE split: pyval.splits if_split_asm option.splits)

lemma rmap_set: "rmap f vs = Inr xs \<Longrightarrow> x \<in> set xs \<Longrightarrow> \<exists>v \<in> set vs. f v = Inr x"
  by (induction vs arbitrary: xs) (auto simp: res_simps)

lemma parsed_endpoint_transport:
  "parse_endpoints u v = Inr (Some es) \<Longrightarrow> e \<in> set es \<Longrightarrow> ep_transport e = TRANSPORT_NAME"
  by (auto simp: parse_endpoints_def List.map_filter_def dest!: rmap_set parsed_transport elim!: rbind_InrE split: pyval.splits)

lemma prune_keeps_fresh:
  "prune_entries now ttl xs = Inr ys \<Longrightarrow> (k, x) \<in> set xs \<Longrightarrow> is_fresh now ttl x = (x, Inr True) \<Longrightarrow> (k, x) \<in> set ys"
  by (induction xs arbitrary: ys) (auto simp: res_simps split: prod.splits)

lemma result_keeps_fresh:
  assumes "cache_ok d" "validate_ttl (discovery_ttl (settings d)) = Inr ()" "(k, x) \<in> set (discovered d)"
    and "is_fresh now (discovery_ttl (settings d)) x = (x, Inr True)"
  shows "\<exists>d'. discover_result now d = (Inr (List.map snd (discovered d')), d') \<and> (k, x) \<in> set (discovered d')
    \<and> cache_ok d' \<and> set (dkeys (discovered d')) \<subseteq> set (dkeys (discovered d))"
proof -
  obtain r d' where r: "prune_expired now d = (r, d')" by fastforce
  obtain ys where ys: "prune_entries now (discovery_ttl (settings d)) (discovered d) = Inr ys"
    using prune_entries_total [OF assms(2), of "discovered d" now] assms(1) by (auto simp: cache_ok_def)
  then have "(k, x) \<in> set ys" using assms(3,4) by (rule prune_keeps_fresh)
  with r ys assms(3) have "r = Inr ()" "(k, x) \<in> set (discovered d')"
    by (auto simp: prune_expired_def split: if_split_asm)
  with r prune_expired_cases [OF assms(1) r] show ?thesis
    by (auto simp: discover_result_def)
qed

lemma fresh_only_total:
  assumes "validate_ttl ttl = Inr ()" "\<forall>x \<in> set ds. aware x"
  shows "\<exists>fs. fresh_only now ttl ds = Inr fs \<and> (\<forall>x \<in> set fs. aware x \<and> disc_peer x \<in> disc_peer ` set ds)
    \<and> (distinct (List.map ident_of ds) \<longrightarrow> distinct (List.map ident_of fs))
    \<and> (\<forall>x \<in> set ds. is_fresh now ttl x = (x, Inr True) \<longrightarrow> x \<in> set fs)"
  using assms(2)
proof (induction ds)
  case (Cons d ds)
  then have "\<forall>x \<in> set ds. aware x" by simp
  from Cons.IH [OF this] obtain fs where fs: "fresh_only now ttl ds = Inr fs" "\<forall>x \<in> set fs. aware x \<and> disc_peer x \<in> disc_peer ` set ds"
      "distinct (List.map ident_of ds) \<longrightarrow> distinct (List.map ident_of fs)"
      "\<forall>x \<in> set ds. is_fresh now ttl x = (x, Inr True) \<longrightarrow> x \<in> set fs"
    by blast
  obtain d' b where b: "is_fresh now ttl d = (d', Inr b)"
    using is_fresh_total [OF assms(1), of d now] Cons.prems by (cases "is_fresh now ttl d") (auto simp: aware_def)
  from is_fresh_endpoints [OF b] Cons.prems have d': "disc_peer d' = disc_peer d" "aware d'" by (auto simp: aware_def)
  have "fresh_only now ttl (d # ds) = Inr (if b then d' # fs else fs)"
    using fs(1) b by (auto simp: fresh_only_def res_simps)
  moreover have "peer_ident (disc_peer d) \<notin> ident_of ` set fs"
    if "peer_ident (disc_peer d) \<notin> ident_of ` set ds"
    using fs(2) that by (force simp: image_iff)
  ultimately show ?case using fs(2-4) b d' by auto
qed (simp add: fresh_only_def)

lemma learn_peer_effect:
  assumes "local_peer n \<noteq> []" "aware x" "peer_ident (disc_peer x) \<noteq> []" "\<forall>(k, y) \<in> set (known_peers n). aware y"
  shows "\<exists>n'. learn_peer x n = (Inr (), n') \<and> local_peer n' = local_peer n \<and> (\<forall>(k, y) \<in> set (known_peers n'). aware y)
    \<and> (\<forall>k. k \<noteq> peer_ident (disc_peer x) \<longrightarrow> map_of (known_peers n') k = map_of (known_peers n) k)
    \<and> (peer_ident (disc_peer x) \<noteq> local_peer n
       \<longrightarrow> (\<forall>y. map_of (known_peers n) (peer_ident (disc_peer x)) = Some y \<longrightarrow> dt_after (last_seen y) (last_seen x) = Inr False)
       \<longrightarrow> map_of (known_peers n') (peer_ident (disc_peer x)) = Some x)"
proof -
  let ?i = "peer_ident (disc_peer x)"
  have put: "\<forall>(k, y) \<in> set (dput ?i x (known_peers n)). aware y"
    using list_all_dput [of "\<lambda>(k, y). aware y" "known_peers n" ?i x] assms(2,4) by (auto simp: list_all_iff)
  have "\<exists>b. dt_after (last_seen y) (last_seen x) = Inr b" if "map_of (known_peers n) ?i = Some y" for y
    using map_of_SomeD [OF that] assms(2,4) by (fastforce simp: aware_def dt_after_def split: option.splits)
  then have rem: "\<exists>n'. remember x n = (Inr (), n') \<and> (n' = n \<or> n' = n\<lparr>known_peers := dput ?i x (known_peers n)\<rparr>)
      \<and> (?i \<noteq> local_peer n \<longrightarrow> (\<forall>y. map_of (known_peers n) ?i = Some y \<longrightarrow> dt_after (last_seen y) (last_seen x) = Inr False)
         \<longrightarrow> n' = n\<lparr>known_peers := dput ?i x (known_peers n)\<rparr>)"
    by (cases "map_of (known_peers n) ?i") (fastforce simp: remember_def Let_def)+
  then obtain n' where n': "remember x n = (Inr (), n')"
      "n' = n \<or> n' = n\<lparr>known_peers := dput ?i x (known_peers n)\<rparr>"
      "?i \<noteq> local_peer n \<longrightarrow> (\<forall>y. map_of (known_peers n) ?i = Some y \<longrightarrow> dt_after (last_seen y) (last_seen x) = Inr False)
         \<longrightarrow> n' = n\<lparr>known_peers := dput ?i x (known_peers n)\<rparr>" by blast
  have local: "local_peer n' = local_peer n" using n'(2) by auto
  have "\<exists>q. learn_peer x n = (Inr (), n'\<lparr>event_queue := q\<rparr>)"
  proof (cases "map_of (known_peers n) ?i = None")
    case True
    obtain q where q: "snd (emit_event PEER_DISCOVERED (Some ?i) None None [] n') = n'\<lparr>event_queue := q\<rparr>"
      using emit_event_only by blast
    moreover have "fst (emit_event PEER_DISCOVERED (Some ?i) None None [] n') = Inr ()"
      using assms(1,3) local by (intro emit_event_ok) auto
    ultimately have "emit_event PEER_DISCOVERED (Some ?i) None None [] n' = (Inr (), n'\<lparr>event_queue := q\<rparr>)"
      by (metis prod.collapse)
    with n'(1) True show ?thesis by (auto simp: learn_peer_def Let_def)
  next
    case False
    with n'(1) have "learn_peer x n = (Inr (), n'\<lparr>event_queue := event_queue n'\<rparr>)" by (auto simp: learn_peer_def Let_def)
    then show ?thesis by blast
  qed
  then obtain q where q: "learn_peer x n = (Inr (), n'\<lparr>event_queue := q\<rparr>)" by blast
  show ?thesis
    by (rule exI [of _ "n'\<lparr>event_queue := q\<rparr>"]) (use q n'(2,3) local put assms(4) in auto)
qed

lemma learn_all:
  assumes "local_peer n \<noteq> []" "\<forall>x \<in> set fs. aware x \<and> peer_ident (disc_peer x) \<noteq> []" "\<forall>(k, y) \<in> set (known_peers n). aware y"
    and "distinct (List.map ident_of fs)"
  shows "\<exists>n'. each learn_peer fs n = (Inr (), n')
    \<and> (\<forall>k. k \<notin> ident_of ` set fs \<longrightarrow> map_of (known_peers n') k = map_of (known_peers n) k)
    \<and> (\<forall>x \<in> set fs. peer_ident (disc_peer x) \<noteq> local_peer n
       \<longrightarrow> (\<forall>y. map_of (known_peers n) (peer_ident (disc_peer x)) = Some y \<longrightarrow> dt_after (last_seen y) (last_seen x) = Inr False)
       \<longrightarrow> map_of (known_peers n') (peer_ident (disc_peer x)) = Some x)"
  using assms
proof (induction fs arbitrary: n)
  case (Cons f fs)
  let ?i = "peer_ident (disc_peer f)"
  from Cons.prems learn_peer_effect [of n f] obtain n1 where n1: "learn_peer f n = (Inr (), n1)" "local_peer n1 = local_peer n"
      "\<forall>(k, y) \<in> set (known_peers n1). aware y" "\<forall>k. k \<noteq> ?i \<longrightarrow> map_of (known_peers n1) k = map_of (known_peers n) k"
      "?i \<noteq> local_peer n \<longrightarrow> (\<forall>y. map_of (known_peers n) ?i = Some y \<longrightarrow> dt_after (last_seen y) (last_seen f) = Inr False)
       \<longrightarrow> map_of (known_peers n1) ?i = Some f" by (metis list.set_intros(1))
  have fresh: "?i \<notin> ident_of ` set fs" using Cons.prems(4) by auto
  have "local_peer n1 \<noteq> []" "\<forall>x \<in> set fs. aware x \<and> peer_ident (disc_peer x) \<noteq> []"
      "distinct (List.map ident_of fs)"
    using Cons.prems n1(2) by auto
  from Cons.IH [OF this(1,2) n1(3) this(3)] obtain n' where n': "each learn_peer fs n1 = (Inr (), n')"
      "\<forall>k. k \<notin> ident_of ` set fs \<longrightarrow> map_of (known_peers n') k = map_of (known_peers n1) k"
      "\<forall>x \<in> set fs. peer_ident (disc_peer x) \<noteq> local_peer n1
       \<longrightarrow> (\<forall>y. map_of (known_peers n1) (peer_ident (disc_peer x)) = Some y \<longrightarrow> dt_after (last_seen y) (last_seen x) = Inr False)
       \<longrightarrow> map_of (known_peers n') (peer_ident (disc_peer x)) = Some x" by blast
  have other: "peer_ident (disc_peer x) \<noteq> ?i" if "x \<in> set fs" for x using fresh that by (metis image_eqI)
  show ?case
  proof (intro exI conjI ballI allI impI)
    show "each learn_peer (f # fs) n = (Inr (), n')" using n1(1) n'(1) by simp
  next
    fix k assume "k \<notin> ident_of ` set (f # fs)"
    with n'(2) n1(4) show "map_of (known_peers n') k = map_of (known_peers n) k" by auto
  next
    fix x assume x: "x \<in> set (f # fs)" "peer_ident (disc_peer x) \<noteq> local_peer n"
      "\<forall>y. map_of (known_peers n) (peer_ident (disc_peer x)) = Some y \<longrightarrow> dt_after (last_seen y) (last_seen x) = Inr False"
    show "map_of (known_peers n') (peer_ident (disc_peer x)) = Some x"
    proof (cases "x = f")
      case True
      with x n1(5) n'(2) fresh show ?thesis by auto
    next
      case False
      with x have "x \<in> set fs" by auto
      with other [OF this] x n1(2,4) n'(3) show ?thesis by auto
    qed
  qed
qed simp

text \<open>C18 Discovery leads to a connection: a peer whose announcement a LAN service has accepted is, as
  long as neither time to live has passed, among what the service reports to a running node, even with
  other peers in the cache; unless the node holds a newer observation of it, the peer's identity
  resolves afterwards to this announcement, and its first announced endpoint is the one selected.\<close>

theorem announced_peer_connectable:
  assumes "cache_ok d" "local_peer_info d = Some me" "peer_ident p \<noteq> peer_ident me" "local_peer n = peer_ident me"
    and "parse_peer (dget kvs (lit ''peer'')) = Some p" "parse_endpoints u (dget kvs (lit ''endpoints'')) = Inr (Some (e # es))"
    and "optional_dict (dget kvs (lit ''metadata'')) = Some md"
    and "peer_ident p \<in> set (dkeys (discovered d)) \<or> length (discovered d) < max_discovered (settings d)"
    and "within_ttl now (clk w) (discovery_ttl (settings d))" "within_ttl now (clk w) (peer_ttl (cfg n))"
    and "running n" "g = lifecycle_generation n" "[] \<notin> insert (local_peer n) (set (dkeys (discovered d)))"
    and "\<forall>(k, y) \<in> set (known_peers n). aware y"
    and "\<forall>y. map_of (known_peers n) (peer_ident p) = Some y \<longrightarrow> dt_after (last_seen y) (utc_dt (utc_now now)) = Inr False" "socket_open d"
  shows "\<exists>d1 d2 ds found n' x. handle_announce u now kvs d = (Inr (), d1) \<and> discover_result (clk w) d1 = (Inr ds, d2)
    \<and> discover_end w g (Inr ds) n = (Inr found, n') \<and> x \<in> set found
    \<and> resolve_target w (TargetPeer p) n' = Inr x \<and> disc_peer x = p \<and> endpoints x = e # es
    \<and> select_endpoint TRANSPORT_NAME x = Inr e"
proof -
  have ttls: "validate_ttl (discovery_ttl (settings d)) = Inr ()" "validate_ttl (peer_ttl (cfg n)) = Inr ()"
    using assms(9,10) by (simp_all add: within_ttl_def)
  from announce_cached [OF assms(2,3,1,5,6,7) ttls(1) assms(8), of now] obtain x d1 where
    d1: "handle_announce u now kvs d = (Inr (), d1)" "map_of (discovered d1) (peer_ident p) = Some x"
      "observed now p (e # es) md x" by blast
  have "just_seen now x"
    by (rule announcement_just_seen [OF d1(1,2) assms(5,2,3,6,7,1)])
  then have fresh: "is_fresh (clk w) (discovery_ttl (settings d)) x = (x, Inr True)"
      "is_fresh (clk w) (peer_ttl (cfg n)) x = (x, Inr True)"
    using assms(9,10) by (blast intro: just_seen_fresh)+
  have "cache_ok (snd (handle_announce u now kvs d))" by (rule handle_announce_cache_ok [OF assms(1,16)])
  then have ok1: "cache_ok d1" "settings d1 = settings d" "[] \<notin> set (dkeys (discovered d1))"
    using announced_keys [OF d1(1) assms(5,1)] assms(13) parse_peer_nonempty [OF assms(5)] d1(1) by auto
  from result_keeps_fresh [OF ok1(1) _ map_of_SomeD [OF d1(2)], of "clk w"] fresh(1) ttls(1) ok1(2) obtain d2 where
    d2: "discover_result (clk w) d1 = (Inr (List.map snd (discovered d2)), d2)" "(peer_ident p, x) \<in> set (discovered d2)"
      "cache_ok d2" "set (dkeys (discovered d2)) \<subseteq> set (dkeys (discovered d1))" by auto
  let ?ds = "List.map snd (discovered d2)"
  have entries: "k = peer_ident (disc_peer y)" "aware y" "k \<noteq> []" if "(k, y) \<in> set (discovered d2)" for k y
    using that d2(3,4) ok1(3) by (auto simp: cache_ok_def entry_ok_def aware_def list_all_iff) force
  have "List.map ident_of ?ds = dkeys (discovered d2)"
    using entries(1) by (auto simp: comp_def intro!: map_cong)
  with d2(3) have "distinct (List.map ident_of ?ds)" unfolding cache_ok_def by metis
  moreover have "\<forall>y \<in> set ?ds. aware y" using entries(2) by auto
  moreover have "x \<in> set ?ds" using d2(2) by force
  ultimately obtain fs where fs: "fresh_only (clk w) (peer_ttl (cfg n)) ?ds = Inr fs"
      "\<forall>y \<in> set fs. aware y \<and> disc_peer y \<in> disc_peer ` set ?ds" "distinct (List.map ident_of fs)" "x \<in> set fs"
    using fresh_only_total [OF ttls(2), of ?ds "clk w"] fresh(2) by metis
  have "\<forall>y \<in> set fs. aware y \<and> peer_ident (disc_peer y) \<noteq> []" using fs(2) entries(1,3) by fastforce
  from learn_all [OF _ this assms(14) fs(3)] assms(13) obtain n' where n': "each learn_peer fs n = (Inr (), n')"
      "\<forall>y \<in> set fs. peer_ident (disc_peer y) \<noteq> local_peer n
       \<longrightarrow> (\<forall>z. map_of (known_peers n) (peer_ident (disc_peer y)) = Some z \<longrightarrow> dt_after (last_seen z) (last_seen y) = Inr False)
       \<longrightarrow> map_of (known_peers n') (peer_ident (disc_peer y)) = Some y" by auto
  have x: "disc_peer x = p" "endpoints x = e # es" "last_seen x = utc_dt (utc_now now)"
    using d1(3) by (simp_all add: observed_def)
  have "map_of (known_peers n') (peer_ident p) = Some x"
    using bspec [OF n'(2) fs(4)] x assms(3,4,15) by simp
  moreover have "discover_end w g (Inr ?ds) n = (Inr fs, n')"
    using assms(11,12) fs(1) n'(1) by (simp add: discover_end_def)
  moreover have "ep_transport e = TRANSPORT_NAME" by (rule parsed_endpoint_transport [OF assms(6)]) simp
  ultimately show ?thesis
    using d1(1) d2(1) fs(4) x by (intro exI [of _ d1] exI [of _ d2] exI [of _ ?ds] exI [of _ fs] exI [of _ n'] exI [of _ x])
      (simp add: select_endpoint_def)
qed

theorem announced_peer_connectable_witness:
  "\<exists>kvs d1 d2 ds found n' x.
     handle_announce plain_url_rt \<lparr>utc_now = 7, monotonic = 0\<rparr> kvs (demo_service (demo_peer 98) []) = (Inr (), d1)
     \<and> discover_result (clk example_world) d1 = (Inr ds, d2)
     \<and> discover_end example_world 0 (Inr ds) (ready_node\<lparr>local_peer := [98]\<rparr>) = (Inr found, n')
     \<and> resolve_target example_world (TargetPeer (demo_peer 97)) n' = Inr x
     \<and> select_endpoint TRANSPORT_NAME x = Inr (demo_endpoint (lit ''tcp://h:1''))"
proof -
  let ?now = "\<lparr>utc_now = 7, monotonic = 0\<rparr>" and ?d = "demo_service (demo_peer 98) []"
  let ?e = "[(PStr (lit ''transport''), PStr TRANSPORT_NAME), (PStr (lit ''address''), PStr (lit ''tcp://h:1''))]"
  let ?kvs = "[(PStr (lit ''peer''), PDict [(PStr (lit ''id''), PStr [97])]), (PStr (lit ''endpoints''), PList [PDict ?e])]"
  let ?n = "ready_node\<lparr>local_peer := [98]\<rparr>"
  have p: "parse_peer (dget ?kvs (lit ''peer'')) = Some (demo_peer 97)"
    by (simp add: dget_def parse_peer_def optional_dict_def demo_peer_def)
  have "parse_endpoint plain_url_rt (PDict ?e) = Inr (Some (demo_endpoint (lit ''tcp://h:1'')))"
    using demo_address by (simp add: parse_endpoint_def dget_def optional_dict_def demo_endpoint_def res_simps)
  then have es: "parse_endpoints plain_url_rt (dget ?kvs (lit ''endpoints'')) = Inr (Some [demo_endpoint (lit ''tcp://h:1'')])"
    by (simp add: parse_endpoints_def dget_def List.map_filter_def)
  have md: "optional_dict (dget ?kvs (lit ''metadata'')) = Some []"
    by (simp add: dget_def optional_dict_def)
  have node: "peer_ttl (cfg ?n) = PInt 60" "running ?n" "0 = lifecycle_generation ?n" "local_peer ?n = [98]" "known_peers ?n = []"
    by (simp_all add: ready_node_def new_node_def example_config_def)
  have ttl: "within_ttl ?now (clk example_world) (PInt 60)"
    by (simp add: within_ttl_def example_world_def validate_ttl_def check_optional_def check_number_def double_limit_def)
  have service: "local_peer_info ?d = Some (demo_peer 98)" "discovery_ttl (settings ?d) = PInt 60" "discovered ?d = []"
      "max_discovered (settings ?d) = 1" "socket_open ?d" by (simp_all add: demo_service_def)
  have "\<exists>d1 d2 ds found n' x. handle_announce plain_url_rt ?now ?kvs ?d = (Inr (), d1)
      \<and> discover_result (clk example_world) d1 = (Inr ds, d2)
      \<and> discover_end example_world 0 (Inr ds) ?n = (Inr found, n') \<and> x \<in> set found
      \<and> resolve_target example_world (TargetPeer (demo_peer 97)) n' = Inr x \<and> disc_peer x = demo_peer 97
      \<and> endpoints x = [demo_endpoint (lit ''tcp://h:1'')]
      \<and> select_endpoint TRANSPORT_NAME x = Inr (demo_endpoint (lit ''tcp://h:1''))"
    by (rule announced_peer_connectable [OF demo_service_ok(1) service(1) _ _ p es md _ _ _ node(2,3) _ _ _ service(5)])
      (unfold service node, simp_all add: ttl demo_peer_def)
  then show ?thesis by blast
qed

end
