(* ===== verification/Transitions.thy ===== *)
theory Transitions
  imports NodeMachine "HOL-Library.Multiset"
begin

text \<open>
  The transitions of a node's lifecycle as they are called: \<open>start\<close>, \<open>stop\<close> and
  \<open>network_changed\<close> of \<open>src/paqto/core/node.py\<close>, at any time and from any task, each waiting for
  \<open>_lifecycle_lock\<close>, which serves them in the order of their arrival. \<open>start\<close> runs in the task of
  its caller; the other two run in a task of their own that the caller awaits through
  \<open>_await_lifecycle_task\<close>, so that the caller's cancellation does not end it. The methods of
  \<open>Lifecycle\<close> are cut at each await here, and the rest of the node goes on between them.

  The theorems: a run of this machine is a run of \<open>NodeMachine\<close>; the services are up while the
  node runs, are never started twice, and are down while it does not run, except for those whose
  last stop or close raised or was cancelled; a transition whose tasks can end does end; and
  two tasks of the node that call \<open>stop\<close> at the same time wait for each other for ever.
\<close>

section \<open>State\<close>

datatype transition = StartUp | ShutDown | Refresh

record job =
  jb_kind :: transition
  jb_caller :: nat

text \<open>
  Where the transition that holds the lock is: awaiting a call of a service (the calls made, and
  those to make), the clean-up of a failed start, the closing of the connections, the tasks it has
  cancelled, the two services it stops, or the discovery after a refresh.
\<close>

datatype phase =
    Calling "service_call list" "service_call list"
  | RollingBack exn "service_call list"
  | Closing stop_plan
  | Gathering stop_plan "(exn + unit) list"
  | StoppingServices "(exn + unit) list"
  | Discovering nat

type_synonym answered_call = "service_call \<times> bool"

fun returned :: "exn + unit \<Rightarrow> bool" where
  "returned (Inl e) = False"
| "returned (Inr u) = True"

text \<open>
  A job is the position of its record in \<open>lc_jobs\<close>. The holder of the lock carries the peers a
  refresh wants to reconnect. \<open>lc_awaiting\<close> has for each calling task its job and what it has
  seen of it so far. \<open>lc_log\<close> has the calls that the services have answered, each with whether it
  returned; it did not if it raised an exception or was cancelled.
\<close>

record lifecycle =
  lc_machine :: machine
  lc_jobs :: "job list"
  lc_arriving :: "nat list"
  lc_waiting :: "nat list"
  lc_holder :: "(nat \<times> pystr list \<times> phase) option"
  lc_results :: "(nat \<times> (exn + unit)) list"
  lc_awaiting :: "(nat \<times> nat \<times> unit wait_event list) list"
  lc_log :: "answered_call list"

abbreviation lc_node :: "lifecycle \<Rightarrow> node" where
  "lc_node s \<equiv> the_node (lc_machine s)"

definition new_lifecycle :: "pystr \<Rightarrow> config \<Rightarrow> lifecycle" where
  "new_lifecycle pid c = \<lparr>lc_machine = new_machine pid c, lc_jobs = [], lc_arriving = [], lc_waiting = [],
     lc_holder = None, lc_results = [], lc_awaiting = [], lc_log = []\<rparr>"

definition set_node :: "node \<Rightarrow> lifecycle \<Rightarrow> lifecycle" where
  "set_node n s = s\<lparr>lc_machine := (lc_machine s)\<lparr>the_node := n\<rparr>\<rparr>"

definition set_phase :: "nat \<Rightarrow> pystr list \<Rightarrow> phase \<Rightarrow> lifecycle \<Rightarrow> lifecycle" where
  "set_phase j wanted ph s = s\<lparr>lc_holder := Some (j, wanted, ph)\<rparr>"

definition logged :: "answered_call list \<Rightarrow> lifecycle \<Rightarrow> lifecycle" where
  "logged cs s = s\<lparr>lc_log := lc_log s @ cs\<rparr>"

text \<open>The lock is released, and the job has its result.\<close>

definition finish_job :: "nat \<Rightarrow> exn + unit \<Rightarrow> lifecycle \<Rightarrow> lifecycle" where
  "finish_job j r s = s\<lparr>lc_holder := None, lc_results := (j, r) # lc_results s\<rparr>"

section \<open>The transition that holds the lock\<close>

definition begin_start :: "nat \<Rightarrow> pystr list \<Rightarrow> lifecycle \<Rightarrow> lifecycle" where
  "begin_start j wanted s =
     (if running (lc_node s) then finish_job j (Inl AlreadyStartedError) s
      else set_phase j wanted (Calling [] start_calls) s)"

definition begin_stop :: "nat \<Rightarrow> pystr list \<Rightarrow> lifecycle \<Rightarrow> lifecycle" where
  "begin_stop j wanted s =
     (if \<not> running (lc_node s) then finish_job j (Inr ()) s
      else (case stop_begin {jb_caller (lc_jobs s ! j)} (lc_node s) of
          (plan, n) \<Rightarrow> set_phase j wanted (Closing plan) (set_node n s)))"

text \<open>The first thing a job does with the lock.\<close>

definition enter_job :: "nat \<Rightarrow> lifecycle \<Rightarrow> lifecycle" where
  "enter_job j s =
     (case jb_kind (lc_jobs s ! j) of
        StartUp \<Rightarrow> begin_start j [] s
      | ShutDown \<Rightarrow> begin_stop j [] s
      | Refresh \<Rightarrow>
          if \<not> running (lc_node s) then finish_job j (Inl NotStartedError) s
          else begin_stop j (network_targets (lc_node s)) s)"

definition after_start :: "world \<Rightarrow> nat \<Rightarrow> pystr list \<Rightarrow> lifecycle \<Rightarrow> lifecycle" where
  "after_start w j wanted s =
     (if jb_kind (lc_jobs s ! j) \<noteq> Refresh then finish_job j (Inr ()) s
      else (case discover_begin w (lc_node s) of
          (Inl e, n) \<Rightarrow> finish_job j (Inl e) (set_node n s)
        | (Inr g, n) \<Rightarrow> set_phase j wanted (Discovering g) (set_node n s)))"

text \<open>The service that was called answers.\<close>

fun service_answered ::
    "world \<Rightarrow> exn + unit \<Rightarrow> nat \<Rightarrow> pystr list \<Rightarrow> service_call list \<Rightarrow> service_call list \<Rightarrow> lifecycle \<Rightarrow> lifecycle"
  where
  "service_answered w (Inl e) j wanted called (c # left) s =
     set_phase j wanted (RollingBack e (rollback_calls (called @ [c]))) (logged [(c, False)] s)"
| "service_answered w (Inr _) j wanted called (c # left) s =
     (if left \<noteq> [] then set_phase j wanted (Calling (called @ [c]) left) (logged [(c, True)] s)
      else (case begin_generation (lc_node s) of
          (Inl e, n) \<Rightarrow> finish_job j (Inl e) (logged [(c, True)] (set_node n s))
        | (Inr _, n) \<Rightarrow> after_start w j wanted (logged [(c, True)] (set_node n s))))"
| "service_answered w r j wanted called [] s = s"

text \<open>
  The clean-up is over: \<open>asyncio.gather\<close> has the results of all its calls, \<open>oks\<close> says which of
  them returned. The results are discarded. When the caller of \<open>start\<close> was cancelled meanwhile,
  \<open>gather\<close> cancelled the calls that had not ended, which may not even have begun, and then raised
  \<open>CancelledError\<close> itself.
\<close>

definition rolled_back ::
    "bool \<Rightarrow> bool list \<Rightarrow> nat \<Rightarrow> exn \<Rightarrow> service_call list \<Rightarrow> lifecycle \<Rightarrow> lifecycle" where
  "rolled_back cancelled oks j e cs s =
     (if cancelled then finish_job j (Inl CancelledError) (logged (zip cs oks) s)
      else finish_job j (Inl e) (logged (zip cs oks) (set_node ((lc_node s)\<lparr>listening := False\<rparr>) s)))"

text \<open>The results of closing the connections and the manager, then of the listener if there is one.\<close>

definition connections_closed ::
    "nat \<Rightarrow> pystr list \<Rightarrow> stop_plan \<Rightarrow> (exn + unit) list \<Rightarrow> exn + unit \<Rightarrow> lifecycle \<Rightarrow> lifecycle" where
  "connections_closed j wanted plan rs rl s =
     (if plan_listener plan
      then set_phase j wanted (Gathering plan (rs @ [rl])) (logged [(ListenerClose, returned rl)] s)
      else set_phase j wanted (Gathering plan rs) s)"

definition gathered :: "nat \<Rightarrow> pystr list \<Rightarrow> (exn + unit) list \<Rightarrow> lifecycle \<Rightarrow> lifecycle" where
  "gathered j wanted rs s =
     set_phase j wanted (StoppingServices rs) (set_node (stop_tables (lc_node s)) s)"

definition services_stopped ::
    "exn + unit \<Rightarrow> exn + unit \<Rightarrow> nat \<Rightarrow> pystr list \<Rightarrow> (exn + unit) list \<Rightarrow> lifecycle \<Rightarrow> lifecycle" where
  "services_stopped r1 r2 j wanted rs s =
     (let s' = logged [(DiscoveryStop, returned r1), (TransportStop, returned r2)] s in
      case stop_result (rs @ [r1, r2]) of
        Inl e \<Rightarrow> finish_job j (Inl e) s'
      | Inr _ \<Rightarrow> if jb_kind (lc_jobs s ! j) = Refresh then begin_start j wanted s'
                 else finish_job j (Inr ()) s')"

definition discovery_answered ::
    "world \<Rightarrow> exn + discovered_peer list \<Rightarrow> nat \<Rightarrow> pystr list \<Rightarrow> nat \<Rightarrow> lifecycle \<Rightarrow> lifecycle" where
  "discovery_answered w found j wanted g s =
     (case discover_end w g found (lc_node s) of
        (Inl e, n) \<Rightarrow> finish_job j (Inl e) (set_node n s)
      | (Inr peers, n) \<Rightarrow>
          (case network_resume w wanted peers n of (r, n') \<Rightarrow> finish_job j r (set_node n' s)))"

section \<open>The machine\<close>

text \<open>What the other tasks do leaves the fields of the lifecycle alone.\<close>

definition same_lifecycle :: "node \<Rightarrow> node \<Rightarrow> bool" where
  "same_lifecycle n m \<longleftrightarrow> running m = running n \<and> listening m = listening n
     \<and> lifecycle_generation m = lifecycle_generation n \<and> finished m = finished n"

text \<open>A task calls one of the three methods; the job then comes to the lock.\<close>

definition call_transition :: "nat \<Rightarrow> transition \<Rightarrow> lifecycle \<Rightarrow> lifecycle" where
  "call_transition t k s = s\<lparr>lc_jobs := lc_jobs s @ [\<lparr>jb_kind = k, jb_caller = t\<rparr>],
     lc_arriving := lc_arriving s @ [length (lc_jobs s)],
     lc_awaiting := dput t (length (lc_jobs s), []) (lc_awaiting s)\<rparr>"

definition arrive :: "nat \<Rightarrow> lifecycle \<Rightarrow> lifecycle" where
  "arrive j s =
     (let s' = s\<lparr>lc_arriving := remove1 j (lc_arriving s)\<rparr> in
      if lc_holder s = None \<and> lc_waiting s = [] then enter_job j s'
      else s'\<lparr>lc_waiting := lc_waiting s @ [j]\<rparr>)"

definition is_start :: "nat \<Rightarrow> lifecycle \<Rightarrow> bool" where
  "is_start j s \<longleftrightarrow> jb_kind (lc_jobs s ! j) = StartUp"

text \<open>
  A wait goes on while neither the task has ended nor the wait, by \<open>await_lifecycle\<close>; the caller
  of \<open>start\<close> is back when the job is done.
\<close>

definition wait_over :: "nat \<Rightarrow> unit wait_event list \<Rightarrow> lifecycle \<Rightarrow> bool" where
  "wait_over j evs s \<longleftrightarrow>
     (if is_start j s then map_of (lc_results s) j \<noteq> None else await_lifecycle False evs \<noteq> None)"

inductive lifecycle_step :: "lifecycle \<Rightarrow> lifecycle \<Rightarrow> bool" where
  other: "machine_step (lc_machine s) m \<Longrightarrow> same_lifecycle (lc_node s) (the_node m) \<Longrightarrow>
    lifecycle_step s (s\<lparr>lc_machine := m\<rparr>)"
| task_ends: "t \<notin> set (dkeys (lc_awaiting s)) \<Longrightarrow>
    lifecycle_step s (set_node ((lc_node s)\<lparr>finished := insert t (finished (lc_node s))\<rparr>) s)"
| call: "t \<notin> set (dkeys (lc_awaiting s)) \<Longrightarrow> t \<notin> finished (lc_node s) \<Longrightarrow> k = Refresh \<longrightarrow> running (lc_node s) \<Longrightarrow>
    lifecycle_step s (call_transition t k s)"
| arrives: "j \<in> set (lc_arriving s) \<Longrightarrow> lifecycle_step s (arrive j s)"
| acquires: "lc_holder s = None \<Longrightarrow> lc_waiting s = j # js \<Longrightarrow>
    lifecycle_step s (enter_job j (s\<lparr>lc_waiting := js\<rparr>))"
| start_cancelled: "j \<in> set (lc_waiting s) \<Longrightarrow> is_start j s \<Longrightarrow>
    lifecycle_step s (s\<lparr>lc_waiting := remove1 j (lc_waiting s),
      lc_results := (j, Inl CancelledError) # lc_results s\<rparr>)"
| service: "lc_holder s = Some (j, wanted, Calling called left) \<Longrightarrow>
    lifecycle_step s (service_answered w r j wanted called left s)"
| rollback: "lc_holder s = Some (j, wanted, RollingBack e cs) \<Longrightarrow> cancelled \<longrightarrow> is_start j s \<Longrightarrow>
    length oks = length cs \<Longrightarrow> lifecycle_step s (rolled_back cancelled oks j e cs s)"
| closes: "lc_holder s = Some (j, wanted, Closing plan) \<Longrightarrow>
    lifecycle_step s (connections_closed j wanted plan rs rl s)"
| gathers: "lc_holder s = Some (j, wanted, Gathering plan rs) \<Longrightarrow>
    set (plan_cancelled plan) \<subseteq> finished (lc_node s) \<Longrightarrow> lifecycle_step s (gathered j wanted rs s)"
| stops: "lc_holder s = Some (j, wanted, StoppingServices rs) \<Longrightarrow>
    lifecycle_step s (services_stopped r1 r2 j wanted rs s)"
| discovers: "lc_holder s = Some (j, wanted, Discovering g) \<Longrightarrow>
    lifecycle_step s (discovery_answered w found j wanted g s)"
| caller_cancelled: "map_of (lc_awaiting s) t = Some (j, evs) \<Longrightarrow> \<not> is_start j s \<Longrightarrow> \<not> wait_over j evs s \<Longrightarrow>
    lifecycle_step s (s\<lparr>lc_awaiting :=
      dput t (j, evs @ [CallerCancelled (map_of (lc_results s) j)]) (lc_awaiting s)\<rparr>)"
| caller_told: "map_of (lc_awaiting s) t = Some (j, evs) \<Longrightarrow> \<not> is_start j s \<Longrightarrow> \<not> wait_over j evs s \<Longrightarrow>
    map_of (lc_results s) j = Some r \<Longrightarrow>
    lifecycle_step s (s\<lparr>lc_awaiting := dput t (j, evs @ [TaskEnded r]) (lc_awaiting s)\<rparr>)"
| returns: "map_of (lc_awaiting s) t = Some (j, evs) \<Longrightarrow> wait_over j evs s \<Longrightarrow>
    lifecycle_step s (s\<lparr>lc_awaiting := dpop t (lc_awaiting s)\<rparr>)"

inductive_cases lifecycle_stepE: "lifecycle_step s t"

lemmas holder_defs = begin_start_def begin_stop_def enter_job_def after_start_def rolled_back_def connections_closed_def
  gathered_def services_stopped_def discovery_answered_def finish_job_def set_phase_def logged_def set_node_def

section \<open>The services\<close>

text \<open>
  What the answered calls say of a service: the transport, the listener, the discovery service. It
  is \<open>Attempted\<close> when its last start did not return, and \<open>Unclean\<close> when its last stop or close
  did not, so that it may still be up. The listener is the one of the last \<open>create_listener\<close>.
\<close>

datatype service = Down | Up | Attempted | Unclean

type_synonym services = "service \<times> service \<times> service"

definition after_start_call :: "bool \<Rightarrow> service" where
  "after_start_call ok = (if ok then Up else Attempted)"

definition after_stop_call :: "bool \<Rightarrow> service" where
  "after_stop_call ok = (if ok then Down else Unclean)"

fun after_call :: "services \<Rightarrow> answered_call \<Rightarrow> services" where
  "after_call (t, l, d) (TransportStart, ok) = (after_start_call ok, l, d)"
| "after_call (t, l, d) (CreateListener, ok) = (t, if ok then Down else l, d)"
| "after_call (t, l, d) (ListenerStart, ok) = (t, after_start_call ok, d)"
| "after_call (t, l, d) (LocalEndpoint, ok) = (t, l, d)"
| "after_call (t, l, d) (DiscoveryStart, ok) = (t, l, after_start_call ok)"
| "after_call (t, l, d) (TransportStop, ok) = (after_stop_call ok, l, d)"
| "after_call (t, l, d) (ListenerClose, ok) = (t, after_stop_call ok, d)"
| "after_call (t, l, d) (DiscoveryStop, ok) = (t, l, after_stop_call ok)"

text \<open>
  The transport and the discovery service are started only when their last call, if any, was a
  stop; the listener only when it has just been created, over a started transport; the discovery
  service only over both.
\<close>

definition not_started :: "service \<Rightarrow> bool" where
  "not_started v \<longleftrightarrow> v = Down \<or> v = Unclean"

fun call_allowed :: "services \<Rightarrow> service_call \<Rightarrow> bool" where
  "call_allowed (t, l, d) TransportStart \<longleftrightarrow> not_started t"
| "call_allowed (t, l, d) CreateListener \<longleftrightarrow> t = Up \<and> not_started l"
| "call_allowed (t, l, d) ListenerStart \<longleftrightarrow> t = Up \<and> l = Down"
| "call_allowed (t, l, d) LocalEndpoint \<longleftrightarrow> t = Up \<and> l = Up"
| "call_allowed (t, l, d) DiscoveryStart \<longleftrightarrow> t = Up \<and> l = Up \<and> not_started d"
| "call_allowed up c \<longleftrightarrow> True"

fun orderly :: "services \<Rightarrow> answered_call list \<Rightarrow> bool" where
  "orderly up [] \<longleftrightarrow> True"
| "orderly up (c # cs) \<longleftrightarrow> call_allowed up (fst c) \<and> orderly (after_call up c) cs"

abbreviation services_down :: services where
  "services_down \<equiv> (Down, Down, Down)"

abbreviation services_started :: services where
  "services_started \<equiv> (Up, Up, Up)"

fun none_started :: "services \<Rightarrow> bool" where
  "none_started (t, l, d) \<longleftrightarrow> not_started t \<and> not_started l \<and> not_started d"

definition services_up :: "answered_call list \<Rightarrow> services" where
  "services_up calls = foldl after_call services_down calls"

definition log_ok :: "answered_call list \<Rightarrow> bool" where
  "log_ok calls \<longleftrightarrow> orderly services_down calls"

text \<open>The calls that returned.\<close>

abbreviation successful :: "service_call list \<Rightarrow> answered_call list" where
  "successful cs \<equiv> List.map (\<lambda>c. (c, True)) cs"

text \<open>Every stop and every close returned.\<close>

definition clean_stops :: "answered_call list \<Rightarrow> bool" where
  "clean_stops calls \<longleftrightarrow> (\<forall>(c, ok) \<in> set calls. c \<in> {TransportStop, ListenerClose, DiscoveryStop} \<longrightarrow> ok)"

lemmas service_defs = after_start_call_def after_stop_call_def not_started_def

lemma orderly_append: "orderly up (xs @ ys) \<longleftrightarrow> orderly up xs \<and> orderly (foldl after_call up xs) ys"
  by (induction xs arbitrary: up) auto

lemma log_append [simp]:
  "services_up (calls @ cs) = foldl after_call (services_up calls) cs"
  "log_ok (calls @ cs) \<longleftrightarrow> log_ok calls \<and> orderly (services_up calls) cs"
  by (simp_all add: services_up_def log_ok_def orderly_append)

text \<open>While stops return, no service is left unclean.\<close>

fun no_unclean :: "services \<Rightarrow> bool" where
  "no_unclean (t, l, d) \<longleftrightarrow> Unclean \<notin> {t, l, d}"

lemma clean_call:
  "no_unclean up \<Longrightarrow> c \<in> {TransportStop, ListenerClose, DiscoveryStop} \<longrightarrow> ok \<Longrightarrow> no_unclean (after_call up (c, ok))"
  by (cases up; cases c) (auto simp: service_defs)

lemma clean_services:
  assumes "clean_stops calls" shows "no_unclean (services_up calls)"
  using assms
proof (induction calls rule: rev_induct)
  case Nil
  show ?case by (simp add: services_up_def)
next
  case (snoc x calls)
  then show ?case using clean_call [of "services_up calls" "fst x" "snd x"] by (auto simp: clean_stops_def)
qed

lemma none_started_clean: "none_started up \<Longrightarrow> no_unclean up \<Longrightarrow> up = services_down"
  by (cases up) (auto simp: not_started_def)

lemma start_calls_cases:
  assumes "called @ c # left = start_calls"
  shows "(called, c, left) \<in> {([], TransportStart, [CreateListener, ListenerStart, LocalEndpoint, DiscoveryStart]),
    ([TransportStart], CreateListener, [ListenerStart, LocalEndpoint, DiscoveryStart]),
    ([TransportStart, CreateListener], ListenerStart, [LocalEndpoint, DiscoveryStart]),
    ([TransportStart, CreateListener, ListenerStart], LocalEndpoint, [DiscoveryStart]),
    ([TransportStart, CreateListener, ListenerStart, LocalEndpoint], DiscoveryStart, [])}"
  using assms by (auto simp: start_calls_def append_eq_Cons_conv)

text \<open>A start from services that are not started.\<close>

lemma start_calls_split:
  assumes "called @ c # left = start_calls" "none_started up"
  shows "call_allowed (foldl after_call up (successful called)) c"
    "left = [] \<Longrightarrow> after_call (foldl after_call up (successful called)) (c, True) = services_started"
  using start_calls_cases [OF assms(1)] assms(2)
  by (cases up; auto simp: service_defs)+

text \<open>The clean-up of a failed start leaves no service started, whichever of its calls return.\<close>

lemma bools_cases:
  "length oks = Suc n \<Longrightarrow> \<exists>b bs. oks = b # bs \<and> length bs = n"
  by (cases oks) auto

lemma rollback_rests:
  assumes "called @ c # left = start_calls" "none_started up" "length oks = length (rollback_calls (called @ [c]))"
  shows "orderly (after_call (foldl after_call up (successful called)) (c, False)) (zip (rollback_calls (called @ [c])) oks)"
    "none_started (foldl after_call (after_call (foldl after_call up (successful called)) (c, False))
      (zip (rollback_calls (called @ [c])) oks))"
  using start_calls_cases [OF assms(1)] assms(2,3)
  by (cases up; auto simp: rollback_calls_def start_calls_def service_defs dest!: bools_cases)+

text \<open>Where the lifecycle of a node is.\<close>

definition at_rest :: "bool \<Rightarrow> node \<Rightarrow> bool" where
  "at_rest b n \<longleftrightarrow> running n = b \<and> listening n = b"

fun phase_ok :: "node \<Rightarrow> answered_call list \<Rightarrow> phase \<Rightarrow> bool" where
  "phase_ok n calls (Calling called left) \<longleftrightarrow>
     at_rest False n \<and> called @ left = start_calls \<and> left \<noteq> []
     \<and> (\<exists>up. none_started up \<and> services_up calls = foldl after_call up (successful called))"
| "phase_ok n calls (RollingBack e cs) \<longleftrightarrow>
     at_rest False n \<and> (\<forall>oks. length oks = length cs \<longrightarrow> orderly (services_up calls) (zip cs oks)
       \<and> none_started (foldl after_call (services_up calls) (zip cs oks)))"
| "phase_ok n calls (Closing plan) \<longleftrightarrow>
     at_rest False n \<and> plan_listener plan \<and> services_up calls = services_started"
| "phase_ok n calls (Gathering plan rs) \<longleftrightarrow>
     at_rest False n \<and> (\<exists>l. not_started l \<and> services_up calls = (Up, l, Up))"
| "phase_ok n calls (StoppingServices rs) \<longleftrightarrow>
     at_rest False n \<and> (\<exists>l. not_started l \<and> services_up calls = (Up, l, Up))"
| "phase_ok n calls (Discovering g) \<longleftrightarrow> at_rest True n \<and> services_up calls = services_started"

text \<open>What the services are when the node runs and when it does not.\<close>

definition services_rest :: "bool \<Rightarrow> services \<Rightarrow> bool" where
  "services_rest b up \<longleftrightarrow> (if b then up = services_started else none_started up)"

definition lifecycle_ok :: "lifecycle \<Rightarrow> bool" where
  "lifecycle_ok s \<longleftrightarrow> log_ok (lc_log s) \<and>
     (case lc_holder s of
        None \<Rightarrow> \<exists>b. at_rest b (lc_node s) \<and> services_rest b (services_up (lc_log s))
      | Some (j, wanted, ph) \<Rightarrow> phase_ok (lc_node s) (lc_log s) ph)"

lemma rest_updates [simp]:
  "at_rest b (n\<lparr>known_peers := x1\<rparr>) = at_rest b n" "at_rest b (n\<lparr>event_queue := x2\<rparr>) = at_rest b n"
  "at_rest b (n\<lparr>reconnect_tasks := x3\<rparr>) = at_rest b n" "at_rest b (n\<lparr>next_task := x4\<rparr>) = at_rest b n"
  "at_rest b (n\<lparr>finished := x5\<rparr>) = at_rest b n" "at_rest b (stop_tables n) = at_rest b n"
  by (simp_all add: at_rest_def stop_tables_def)

lemma rest_same: "same_lifecycle n m \<Longrightarrow> at_rest b m = at_rest b n"
  by (simp add: same_lifecycle_def at_rest_def)

lemma rest_emit: "keeps (at_rest b) (emit_event t pid c err md)"
  by (auto simp: keeps_def emit_event_def split: option.splits sum.splits)

lemma rest_remember: "keeps (at_rest b) (remember d)"
  by (rule remember_keeps) simp

lemma rest_task: "keeps (at_rest b) create_task"
  by (simp add: keeps_def create_task_def)

lemmas rest_rules = keeps_seq keeps_atoms keeps_each keeps_update keeps_reads [OF keeps_snd] rest_emit rest_remember

lemma rest_discover: "keeps (at_rest b) (discover_begin w)" "keeps (at_rest b) (discover_end w g found)"
  "keeps (at_rest b) (network_resume w wanted ds)"
proof -
  have reads: "(\<And>n. keeps (at_rest b) (f n)) \<Longrightarrow> keeps (at_rest b) (reads f)" for f :: "node \<Rightarrow> 'x node_act"
    by (simp add: keeps_def)
  have expire: "keeps (at_rest b) (expire_known w pk)" for pk
    by (auto simp: expire_known_def intro!: reads rest_rules split: prod.split)
  show "keeps (at_rest b) (discover_begin w)"
    by (auto simp: discover_begin_def ensure_running_def intro!: reads rest_rules expire)
  have learn: "keeps (at_rest b) (learn_peer d)" for d
    by (auto simp: learn_peer_def Let_def intro!: reads rest_rules)
  show "keeps (at_rest b) (discover_end w g found)"
    by (auto simp: discover_end_def intro!: reads rest_rules learn)
  have "keeps (at_rest b) (schedule_reconnect w p)" for p
    by (auto simp: schedule_reconnect_def intro!: reads rest_rules rest_task split: option.split prod.split)
  then show "keeps (at_rest b) (network_resume w wanted ds)"
    by (auto simp: network_resume_def intro!: rest_rules)
qed

section \<open>The lifecycle is consistent\<close>

lemma lifecycle_fields [simp]:
  "lc_node (set_node n s) = n" "lc_log (set_node n s) = lc_log s" "lc_holder (set_node n s) = lc_holder s"
  "lc_jobs (set_node n s) = lc_jobs s" "lc_awaiting (set_node n s) = lc_awaiting s"
  "lc_machine (logged cs s) = lc_machine s" "lc_log (logged cs s) = lc_log s @ cs"
  "lc_jobs (logged cs s) = lc_jobs s"
  "lc_machine (set_phase j wanted ph s) = lc_machine s" "lc_log (set_phase j wanted ph s) = lc_log s"
  "lc_holder (set_phase j wanted ph s) = Some (j, wanted, ph)"
  "lc_machine (finish_job j r s) = lc_machine s" "lc_log (finish_job j r s) = lc_log s"
  "lc_holder (finish_job j r s) = None"
  by (simp_all add: set_node_def logged_def set_phase_def finish_job_def)

text \<open>Outside a transition.\<close>

definition settled :: "bool \<Rightarrow> lifecycle \<Rightarrow> bool" where
  "settled b s \<longleftrightarrow> log_ok (lc_log s) \<and> at_rest b (lc_node s) \<and> services_rest b (services_up (lc_log s))"

lemma finish_ok: "settled b s \<Longrightarrow> lifecycle_ok (finish_job j r s)"
  by (auto simp: lifecycle_ok_def settled_def)

lemma begin_start_ok: "settled b s \<Longrightarrow> lifecycle_ok (begin_start j wanted s)"
  by (cases b) (auto simp: begin_start_def finish_ok lifecycle_ok_def settled_def at_rest_def start_calls_def
      services_rest_def simp del: split_paired_Ex)

lemma stop_begin_rest:
  assumes "stop_begin excluded n = (plan, m)"
  shows "at_rest False m" "plan_listener plan = listening n" "finished m = finished n"
    "plan_cancelled plan = plan_cancelled (fst (stop_begin excluded n))"
proof -
  obtain fs cs where f: "failed_all n = n\<lparr>running := False, pending_requests := [],
      pending_acknowledgements := [], pending_heartbeats := [], futures := fs, channel_store := cs\<rparr>"
    by (rule failed_all_eq)
  have "m = forget_sessions (failed_all n)" using stop_begin_eq(1) [of excluded n] assms by simp
  then show "at_rest False m" "finished m = finished n" by (simp_all add: f at_rest_def forget_sessions_def)
  have "plan_listener (fst (stop_begin excluded n)) = listening (failed_all n)"
    by (simp add: stop_begin_def failed_all_def Let_def)
  then show "plan_listener plan = listening n" using assms by (simp add: f)
qed (simp add: assms)

lemma begin_stop_ok: "settled b s \<Longrightarrow> lifecycle_ok (begin_stop j wanted s)"
  by (auto simp: begin_stop_def finish_ok lifecycle_ok_def settled_def stop_begin_rest split: prod.split)
    (auto simp: at_rest_def services_rest_def)

lemma enter_ok: "settled b s \<Longrightarrow> lifecycle_ok (enter_job j s)"
  by (auto simp: enter_job_def begin_start_ok begin_stop_ok finish_ok split: transition.split)

lemma start_workers_rest: "\<exists>m. start_workers k n = (Inr (), m) \<and> running m = running n \<and> listening m = listening n"
proof (induction k arbitrary: n)
  case (Suc k)
  obtain m where m: "start_dispatch_worker n = (Inr (), m)" "running m = running n" "listening m = listening n"
    by (simp add: start_dispatch_worker_def seq_def create_task_def)
  from Suc [of m] m show ?case by (auto simp: seq_def)
qed simp

lemma begin_generation_rest: "\<exists>m. begin_generation n = (Inr (), m) \<and> at_rest True m"
proof -
  obtain m where "start_workers (nat (handler_concurrency (cfg (open_generation n)))) (open_generation n) = (Inr (), m)"
      "running m" "listening m"
    using start_workers_rest [of "nat (handler_concurrency (cfg (open_generation n)))" "open_generation n"]
    by (auto simp: open_generation_def)
  then show ?thesis
    by (simp add: begin_generation_def seq_def [of "start_workers _"] seq_def [of create_task] create_task_def at_rest_def)
qed

lemma after_start_ok: "settled True s \<Longrightarrow> lifecycle_ok (after_start w j wanted s)"
proof -
  assume s: "settled True s"
  obtain r n where d: "discover_begin w (lc_node s) = (r, n)" by fastforce
  have "at_rest True n" using keepsD [OF rest_discover(1) _ d] s by (simp add: settled_def)
  with s have n: "settled True (set_node n s)" "phase_ok n (lc_log s) (Discovering g)" for g
    by (simp_all add: settled_def services_rest_def)
  have "lifecycle_ok (set_phase j wanted (Discovering g) (set_node n s))" for g
    using n(2) s by (simp add: lifecycle_ok_def settled_def del: phase_ok.simps)
  then show ?thesis using finish_ok [OF s] finish_ok [OF n(1)] by (simp add: after_start_def d split: sum.split)
qed

lemma service_answered_ok:
  assumes "lifecycle_ok s" "lc_holder s = Some (j, wanted, Calling called left)"
  shows "lifecycle_ok (service_answered w r j wanted called left s)"
proof -
  from assms obtain c rest up where h: "log_ok (lc_log s)" "at_rest False (lc_node s)" "left = c # rest"
      "called @ c # rest = start_calls" "services_up (lc_log s) = foldl after_call up (successful called)"
      "none_started up"
    by (cases left) (auto simp: lifecycle_ok_def)
  note split = start_calls_split [OF h(4,6)]
  obtain m where m: "begin_generation (lc_node s) = (Inr (), m)" "at_rest True m"
    using begin_generation_rest by blast
  show ?thesis
  proof (cases r)
    case (Inl e)
    with h split rollback_rests [OF h(4,6)] show ?thesis by (simp add: lifecycle_ok_def)
  next
    case (Inr u)
    show ?thesis
    proof (cases "rest = []")
      case True
      with m h split have "lifecycle_ok (after_start w j wanted (logged [(c, True)] (set_node m s)))"
        by (intro after_start_ok) (simp add: settled_def services_rest_def)
      with True h(3) Inr m show ?thesis by simp
    next
      case False
      then have "phase_ok (lc_node s) (lc_log s @ [(c, True)]) (Calling (called @ [c]) rest)"
        using h by (auto intro!: exI [of _ up] simp del: split_paired_Ex)
      with False h split Inr show ?thesis by (simp add: lifecycle_ok_def del: phase_ok.simps)
    qed
  qed
qed

lemma stopped_ok:
  assumes "lifecycle_ok s" "lc_holder s = Some (j, wanted, StoppingServices rs)"
  shows "lifecycle_ok (services_stopped r1 r2 j wanted rs s)"
proof -
  have "settled False (logged [(DiscoveryStop, returned r1), (TransportStop, returned r2)] s)"
    using assms by (auto simp: lifecycle_ok_def settled_def services_rest_def service_defs)
  then show ?thesis
    by (simp add: services_stopped_def Let_def finish_ok begin_start_ok split: sum.split)
qed

lemma discovered_ok:
  assumes "lifecycle_ok s" "lc_holder s = Some (j, wanted, Discovering g)"
  shows "lifecycle_ok (discovery_answered w found j wanted g s)"
proof -
  have s: "log_ok (lc_log s)" "at_rest True (lc_node s)" "services_up (lc_log s) = services_started"
    using assms by (simp_all add: lifecycle_ok_def)
  obtain r n where d: "discover_end w g found (lc_node s) = (r, n)" by fastforce
  with s(2) have n: "at_rest True n" using keepsD [OF rest_discover(2)] by blast
  have m: "at_rest True m" if "network_resume w wanted peers n = (r', m)" for peers r' m
    using keepsD [OF rest_discover(3) n that] .
  have "settled True (set_node k s)" if "at_rest True k" for k using that s by (simp add: settled_def services_rest_def)
  with n m show ?thesis
    by (auto simp: discovery_answered_def d intro!: finish_ok split: prod.split sum.split)
qed

lemma free_settled: "lifecycle_ok s \<Longrightarrow> lc_holder s = None \<Longrightarrow> \<exists>b. settled b s"
  by (auto simp: lifecycle_ok_def settled_def)

lemma lifecycle_ok_same:
  "lifecycle_ok s \<Longrightarrow> lc_log t = lc_log s \<Longrightarrow> lc_holder t = lc_holder s \<Longrightarrow> same_lifecycle (lc_node s) (lc_node t)
    \<or> lc_node t = (lc_node s)\<lparr>finished := f\<rparr> \<Longrightarrow> lifecycle_ok t"
proof -
  assume a: "lifecycle_ok s" "lc_log t = lc_log s" "lc_holder t = lc_holder s"
    "same_lifecycle (lc_node s) (lc_node t) \<or> lc_node t = (lc_node s)\<lparr>finished := f\<rparr>"
  have rest: "at_rest b (lc_node t) = at_rest b (lc_node s)" for b using a(4) rest_same by auto
  have "phase_ok (lc_node t) calls ph = phase_ok (lc_node s) calls ph" for calls ph
    by (cases ph) (simp_all add: rest)
  with a rest show "lifecycle_ok t" by (auto simp: lifecycle_ok_def split: option.splits)
qed

lemma same_lifecycle_refl [simp]: "same_lifecycle n n"
  by (simp add: same_lifecycle_def)

lemma lifecycle_ok_step:
  assumes "lifecycle_ok s" "lifecycle_step s t"
  shows "lifecycle_ok t"
  using assms(2)
proof cases
  case (arrives j)
  show ?thesis
  proof (cases "lc_holder s = None \<and> lc_waiting s = []")
    case True
    with free_settled [OF assms(1)] obtain b where "settled b (s\<lparr>lc_arriving := remove1 j (lc_arriving s)\<rparr>)"
      by (auto simp: settled_def)
    then show ?thesis using arrives True by (simp add: arrive_def Let_def enter_ok)
  next
    case False
    with arrives show ?thesis
      by (auto simp: arrive_def Let_def intro!: lifecycle_ok_same [OF assms(1)])
  qed
next
  case (acquires j js)
  with free_settled [OF assms(1)] obtain b where "settled b (s\<lparr>lc_waiting := js\<rparr>)" by (auto simp: settled_def)
  with acquires show ?thesis by (simp add: enter_ok)
next
  case (service j wanted called left w r)
  with service_answered_ok [OF assms(1)] show ?thesis by simp
next
  case (rollback j wanted e cs cancelled oks)
  then show ?thesis using assms(1)
    by (auto simp: lifecycle_ok_def rolled_back_def at_rest_def services_rest_def intro!: exI [of _ False])
next
  case (closes j wanted plan rs rl)
  then show ?thesis using assms(1)
    by (cases rl) (auto simp: lifecycle_ok_def connections_closed_def service_defs)
next
  case (gathers j wanted plan rs)
  then show ?thesis using assms(1) by (simp add: lifecycle_ok_def gathered_def)
next
  case (stops j wanted rs r1 r2)
  with stopped_ok [OF assms(1)] show ?thesis by simp
next
  case (discovers j wanted g w found)
  with discovered_ok [OF assms(1)] show ?thesis by simp
qed (auto simp: call_transition_def intro!: lifecycle_ok_same [OF assms(1)])

interpretation transitions: machine_invariant lifecycle_step "new_lifecycle pid c" lifecycle_ok for pid c
proof unfold_locales
  show "lifecycle_ok (new_lifecycle pid c)"
    by (auto simp: lifecycle_ok_def new_lifecycle_def new_machine_def new_node_def at_rest_def log_ok_def services_up_def
        services_rest_def not_started_def)
qed (rule lifecycle_ok_step)

section \<open>A run of the node\<close>

lemma one_operation:
  "node_operation (lc_node s) n \<Longrightarrow> reachable machine_step m (lc_machine s)
    \<Longrightarrow> reachable machine_step m (lc_machine (set_node n s))"
  by (auto simp: set_node_def intro: reachable.next_state machine_step.operation)

text \<open>The transitions are made of operations of \<open>NodeMachine\<close>.\<close>

lemma machine_begin:
  assumes "reachable machine_step m (lc_machine s)"
  shows "reachable machine_step m (lc_machine (begin_start j wanted s))"
    "reachable machine_step m (lc_machine (begin_stop j wanted s))"
    "reachable machine_step m (lc_machine (enter_job j s))"
    "reachable machine_step m (lc_machine (after_start w j wanted s))"
proof -
  show "reachable machine_step m (lc_machine (begin_start j wanted s))" for wanted
    using assms by (simp add: begin_start_def)
  moreover show "reachable machine_step m (lc_machine (begin_stop j wanted s))" for wanted
    using one_operation [OF node_operation.stopping assms, of "{jb_caller (lc_jobs s ! j)}"] assms
    by (auto simp: begin_stop_def split: prod.split)
  ultimately show "reachable machine_step m (lc_machine (enter_job j s))"
    using assms by (simp add: enter_job_def split: transition.split)
  show "reachable machine_step m (lc_machine (after_start w j wanted s))"
    using one_operation [OF node_operation.discover assms, of w] assms
    by (auto simp: after_start_def split: prod.split sum.split)
qed

lemma generation_operation:
  assumes "\<not> running n"
  shows "node_operation n (snd (begin_generation n))" "node_operation n (n\<lparr>listening := False\<rparr>)"
proof -
  have "snd (snd (start_node (\<lambda>_. Inr ()) n)) = snd (begin_generation n)"
    using assms by (simp add: start_node_def start_calls_def)
  then show "node_operation n (snd (begin_generation n))" using node_operation.started by metis
  have "snd (snd (start_node (\<lambda>_. Inl CancelledError) n)) = n\<lparr>listening := False\<rparr>"
    using assms by (simp add: start_node_def start_calls_def)
  then show "node_operation n (n\<lparr>listening := False\<rparr>)" using node_operation.started by metis
qed

lemma machine_run_step:
  assumes "lifecycle_ok s" "lifecycle_step s t" "reachable machine_step m (lc_machine s)"
  shows "reachable machine_step m (lc_machine t)"
  using assms(2)
proof cases
  case (other k)
  with assms(3) show ?thesis by (auto intro: reachable.next_state)
next
  case (task_ends x)
  then show ?thesis using one_operation [OF node_operation.task_ended assms(3)] by simp
next
  case (arrives j)
  have "reachable machine_step m (lc_machine (s\<lparr>lc_arriving := remove1 j (lc_arriving s)\<rparr>))" using assms(3) by simp
  from machine_begin(3) [OF this] arrives assms(3) show ?thesis by (simp add: arrive_def Let_def)
next
  case (acquires j js)
  have "reachable machine_step m (lc_machine (s\<lparr>lc_waiting := js\<rparr>))" using assms(3) by simp
  from machine_begin(3) [OF this] acquires show ?thesis by simp
next
  case (service j wanted called left w r)
  then obtain c rest where left: "left = c # rest" "\<not> running (lc_node s)"
    using assms(1) by (cases left) (auto simp: lifecycle_ok_def at_rest_def)
  obtain n where n: "begin_generation (lc_node s) = (Inr (), n)" using begin_generation_rest by blast
  have "reachable machine_step m (lc_machine (set_node n s))"
    using one_operation [OF generation_operation(1) [OF left(2)] assms(3)] by (simp add: n)
  then have "reachable machine_step m (lc_machine (logged [(c, True)] (set_node n s)))" by simp
  from machine_begin(4) [OF this] left(1) n service assms(3) show ?thesis
    by (cases r; cases "rest = []") simp_all
next
  case (rollback j wanted e cs cancelled oks)
  then have "\<not> running (lc_node s)" using assms(1) by (simp add: lifecycle_ok_def at_rest_def)
  from one_operation [OF generation_operation(2) [OF this] assms(3)] rollback assms(3) show ?thesis
    by (simp add: rolled_back_def)
next
  case (gathers j wanted plan rs)
  with one_operation [OF node_operation.stopped assms(3)] show ?thesis by (simp add: gathered_def)
next
  case (stops j wanted rs r1 r2)
  have "reachable machine_step m
      (lc_machine (logged [(DiscoveryStop, returned r1), (TransportStop, returned r2)] s))" using assms(3) by simp
  from machine_begin(1) [OF this] stops assms(3) show ?thesis
    by (simp add: services_stopped_def Let_def split: sum.split)
next
  case (discovers j wanted g w found)
  obtain r n where d: "discover_end w g found (lc_node s) = (r, n)" by fastforce
  have n: "reachable machine_step m (lc_machine (set_node n s))"
    using one_operation [OF node_operation.discover_done assms(3), of w g found] by (simp add: d)
  have "reachable machine_step m (lc_machine (set_node k s))" if "network_resume w wanted peers n = (r', k)" for peers r' k
    using one_operation [where s = "set_node n s", OF _ n] node_operation.refreshed [of n w wanted peers] that by (simp add: set_node_def)
  with discovers n show ?thesis by (auto simp: discovery_answered_def d split: sum.split prod.split)
qed (use assms(3) in \<open>simp_all add: connections_closed_def call_transition_def\<close>)

section \<open>The jobs\<close>

definition pending_jobs :: "lifecycle \<Rightarrow> nat list" where
  "pending_jobs s = lc_arriving s @ lc_waiting s
     @ (case lc_holder s of None \<Rightarrow> [] | Some (j, wanted, ph) \<Rightarrow> [j])"

text \<open>Each job is on its way to the lock, waits for it, holds it, or has its result, once.\<close>

definition jobs_ok :: "lifecycle \<Rightarrow> bool" where
  "jobs_ok s \<longleftrightarrow> mset (pending_jobs s @ dkeys (lc_results s)) = mset [0..<length (lc_jobs s)]"

text \<open>How much a transition has before it at most.\<close>

fun remaining :: "phase \<Rightarrow> nat" where
  "remaining (Closing plan) = 10"
| "remaining (Gathering plan rs) = 9"
| "remaining (StoppingServices rs) = 8"
| "remaining (Calling called left) = length left + 2"
| "remaining (RollingBack e cs) = 1"
| "remaining (Discovering g) = 1"

text \<open>The holder of the lock goes on, or releases it with its result.\<close>

definition serves :: "nat \<Rightarrow> nat \<Rightarrow> lifecycle \<Rightarrow> lifecycle \<Rightarrow> bool" where
  "serves bound j s t \<longleftrightarrow> lc_jobs t = lc_jobs s \<and> lc_arriving t = lc_arriving s \<and> lc_waiting t = lc_waiting s
     \<and> lc_awaiting t = lc_awaiting s
     \<and> (lc_holder t = None \<and> (\<exists>r. lc_results t = (j, r) # lc_results s)
        \<or> (\<exists>wanted ph. lc_holder t = Some (j, wanted, ph) \<and> remaining ph < bound \<and> lc_results t = lc_results s))"

lemma queue_fields [simp]:
  "lc_arriving (set_node n s) = lc_arriving s" "lc_waiting (set_node n s) = lc_waiting s"
  "lc_results (set_node n s) = lc_results s"
  "lc_arriving (logged cs s) = lc_arriving s" "lc_waiting (logged cs s) = lc_waiting s"
  "lc_results (logged cs s) = lc_results s" "lc_awaiting (logged cs s) = lc_awaiting s"
  by (simp_all add: set_node_def logged_def)

lemma serves_finish [simp]: "serves b j s (finish_job j r s)"
  by (simp add: serves_def finish_job_def)

lemma serves_phase [simp]: "remaining ph < b \<Longrightarrow> serves b j s (set_phase j wanted ph s)"
  by (simp add: serves_def set_phase_def)

lemma serves_set_node: "serves b j (set_node n s) t \<longleftrightarrow> serves b j s t"
  by (simp add: serves_def)

lemma serves_logged: "serves b j (logged cs s) t \<longleftrightarrow> serves b j s t"
  by (simp add: serves_def)

lemma serves_later [simp]:
  "serves b j s (finish_job j r (set_node n s))" "serves b j s (finish_job j r (logged cs s))"
  "serves b j s (finish_job j r (logged cs (set_node n s)))"
  "remaining ph < b \<Longrightarrow> serves b j s (set_phase j wanted ph (set_node n s))"
  "remaining ph < b \<Longrightarrow> serves b j s (set_phase j wanted ph (logged cs s))"
  by (simp_all add: serves_def finish_job_def set_phase_def set_node_def logged_def)

lemma serves_begin:
  "7 < b \<Longrightarrow> serves b j s (begin_start j wanted s)" "10 < b \<Longrightarrow> serves b j s (begin_stop j wanted s)"
  "10 < b \<Longrightarrow> serves b j s (enter_job j s)" "1 < b \<Longrightarrow> serves b j s (after_start w j wanted s)"
proof -
  show st: "7 < b \<Longrightarrow> serves b j s (begin_start j wanted s)" for wanted
    by (simp add: begin_start_def start_calls_def)
  show sp: "10 < b \<Longrightarrow> serves b j s (begin_stop j wanted s)" for wanted
    by (simp add: begin_stop_def split: prod.split)
  show "10 < b \<Longrightarrow> serves b j s (enter_job j s)"
    by (simp add: enter_job_def st sp split: transition.split)
  show "1 < b \<Longrightarrow> serves b j s (after_start w j wanted s)"
    by (simp add: after_start_def split: prod.split sum.split)
qed

lemma serves_answered:
  "left \<noteq> [] \<Longrightarrow> serves (length left + 2) j s (service_answered w r j wanted called left s)"
proof (cases left)
  case (Cons c rest)
  obtain n where n: "begin_generation (lc_node s) = (Inr (), n)" using begin_generation_rest by blast
  have "serves (Suc (Suc (Suc 0))) j (logged [(c, True)] (set_node n s)) (after_start w j wanted (logged [(c, True)] (set_node n s)))"
    by (rule serves_begin) simp
  then show ?thesis
    using n Cons by (cases r; cases "rest = []") (simp_all add: serves_set_node serves_logged)
qed simp

lemma serves_holder:
  "serves 1 j s (rolled_back cancelled oks j e cs s)" "serves 10 j s (connections_closed j wanted plan rs rl s)"
  "serves 9 j s (gathered j wanted rs s)" "serves 8 j s (services_stopped r1 r2 j wanted rs s)"
  "serves 1 j s (discovery_answered w found j wanted g s)"
  using serves_begin(1) [of 8 j "logged [(DiscoveryStop, returned r1), (TransportStop, returned r2)] s" wanted]
  by (simp_all add: rolled_back_def connections_closed_def gathered_def services_stopped_def discovery_answered_def Let_def
      serves_logged split: sum.split prod.split)

lemma served_jobs:
  "serves b j s t \<Longrightarrow> mset (pending_jobs t @ dkeys (lc_results t))
     = mset (lc_arriving s @ lc_waiting s) + add_mset j (mset (dkeys (lc_results s)))"
  by (auto simp: serves_def pending_jobs_def)

lemma serves_jobs:
  assumes "serves b j s t" "lc_holder s = Some (j, wanted, ph)" "jobs_ok s"
  shows "jobs_ok t"
  using served_jobs [OF assms(1)] assms by (simp add: jobs_ok_def serves_def pending_jobs_def)

lemma entering_jobs:
  assumes "serves b j s' t" "lc_jobs s' = lc_jobs s" "lc_holder s = None" "lc_results s' = lc_results s"
    and "add_mset j (mset (lc_arriving s' @ lc_waiting s')) = mset (lc_arriving s @ lc_waiting s)" "jobs_ok s"
  shows "jobs_ok t"
proof -
  have "lc_jobs t = lc_jobs s" using assms(1,2) by (simp add: serves_def)
  moreover have "mset (pending_jobs t @ dkeys (lc_results t)) = mset (pending_jobs s @ dkeys (lc_results s))"
    using served_jobs [OF assms(1)] assms(3-5) by (simp add: pending_jobs_def)
  ultimately show ?thesis using assms(6) by (simp add: jobs_ok_def)
qed

lemma jobs_ok_same:
  "jobs_ok s \<Longrightarrow> lc_jobs t = lc_jobs s \<Longrightarrow> pending_jobs t = pending_jobs s \<Longrightarrow> lc_results t = lc_results s \<Longrightarrow> jobs_ok t"
  by (simp add: jobs_ok_def)

text \<open>What the machine does with the lock.\<close>

lemma holder_serves:
  assumes "lifecycle_step s t" "lc_holder s = Some (j, wanted, ph)" "lifecycle_ok s"
  shows "lc_holder t = lc_holder s \<or> serves (remaining ph) j s t"
  using assms(1)
proof cases
  case (arrives k)
  with assms(2) show ?thesis by (simp add: arrive_def Let_def)
next
  case (service k v called left w r)
  with assms(2,3) serves_answered [of left j s w r wanted called] show ?thesis
    by (auto simp: lifecycle_ok_def)
qed (use assms(2) serves_holder in \<open>auto simp: call_transition_def\<close>)

lemma jobs_ok_step:
  assumes "lifecycle_ok s" "jobs_ok s" "lifecycle_step s t"
  shows "jobs_ok t"
  using assms(3)
proof cases
  case (call x k)
  with assms(2) show ?thesis by (simp add: jobs_ok_def pending_jobs_def call_transition_def)
next
  case (arrives j)
  let ?s = "s\<lparr>lc_arriving := remove1 j (lc_arriving s)\<rparr>"
  show ?thesis
  proof (cases "lc_holder s = None \<and> lc_waiting s = []")
    case True
    have "serves 11 j ?s (enter_job j ?s)" by (rule serves_begin) simp
    from entering_jobs [OF this _ _ _ _ assms(2)] True arrives show ?thesis by (simp add: arrive_def Let_def)
  next
    case False
    then have "t = ?s\<lparr>lc_waiting := lc_waiting s @ [j]\<rparr>" using arrives by (auto simp: arrive_def Let_def)
    moreover have "add_mset j (mset (remove1 j (lc_arriving s))) = mset (lc_arriving s)" using arrives by simp
    ultimately have "mset (pending_jobs t) = mset (pending_jobs s)" "lc_results t = lc_results s" "lc_jobs t = lc_jobs s"
      by (simp_all add: pending_jobs_def flip: union_mset_add_mset_left)
    then show ?thesis using assms(2) by (simp add: jobs_ok_def)
  qed
next
  case (acquires j js)
  let ?s = "s\<lparr>lc_waiting := js\<rparr>"
  have "serves 11 j ?s (enter_job j ?s)" by (rule serves_begin) simp
  from entering_jobs [OF this _ _ _ _ assms(2)] acquires show ?thesis by simp
next
  case (start_cancelled j)
  with assms(2) show ?thesis by (simp add: jobs_ok_def pending_jobs_def)
next
  case (service j wanted called left w r)
  then have "left \<noteq> []" using assms(1) by (auto simp: lifecycle_ok_def)
  from serves_jobs [OF serves_answered [OF this] _ assms(2)] service show ?thesis by simp
qed (auto intro: jobs_ok_same [OF assms(2)] serves_jobs [OF serves_holder(1) _ assms(2)] serves_jobs [OF serves_holder(2) _ assms(2)]
    serves_jobs [OF serves_holder(3) _ assms(2)] serves_jobs [OF serves_holder(4) _ assms(2)]
    serves_jobs [OF serves_holder(5) _ assms(2)] simp: pending_jobs_def)

interpretation jobs: relative_invariant lifecycle_step "new_lifecycle pid c" lifecycle_ok jobs_ok for pid c
proof unfold_locales
  show "jobs_ok (new_lifecycle pid c)"
    by (simp add: jobs_ok_def new_lifecycle_def pending_jobs_def)
qed (rule jobs_ok_step)

lemma holder_goes_on:
  assumes ok: "lifecycle_ok s" and holder: "lc_holder s = Some (j, wanted, ph)"
  shows "(\<exists>t. lifecycle_step s t \<and> lc_holder t \<noteq> lc_holder s)
      \<or> (\<exists>plan rs x. ph = Gathering plan rs \<and> x \<in> set (plan_cancelled plan) \<and> x \<notin> finished (lc_node s))"
proof -
  have moves: "lc_holder t \<noteq> lc_holder s" if "serves (remaining ph) j s t" for t
    using that holder by (auto simp: serves_def)
  show ?thesis
  proof (cases ph)
    case (Calling called left)
    with ok holder have "left \<noteq> []" by (simp add: lifecycle_ok_def)
    from moves [unfolded Calling remaining.simps, OF serves_answered [OF this]] show ?thesis
      using lifecycle_step.service holder Calling by metis
  next
    case (RollingBack e cs)
    from moves [unfolded RollingBack remaining.simps, OF serves_holder(1)] show ?thesis
      using lifecycle_step.rollback [of s j wanted e cs False "replicate (length cs) True"] holder RollingBack
      by auto
  next
    case (Closing plan)
    from moves [unfolded Closing remaining.simps, OF serves_holder(2)] show ?thesis
      using lifecycle_step.closes holder Closing by metis
  next
    case (Gathering plan rs)
    from moves [unfolded Gathering remaining.simps, OF serves_holder(3)] show ?thesis
      using lifecycle_step.gathers holder Gathering by (metis subsetI)
  next
    case (StoppingServices rs)
    from moves [unfolded StoppingServices remaining.simps, OF serves_holder(4)] show ?thesis
      using lifecycle_step.stops holder StoppingServices by metis
  next
    case (Discovering g)
    from moves [unfolded Discovering remaining.simps, OF serves_holder(5)] show ?thesis
      using lifecycle_step.discovers holder Discovering by metis
  qed
qed

section \<open>Two stops that wait for each other\<close>

text \<open>The wait of a caller survives every cancellation while the job has no result.\<close>

lemma await_cancelled:
  "await_lifecycle b evs = None \<Longrightarrow> await_lifecycle b (evs @ [CallerCancelled None]) = None"
  by (induction b evs rule: await_lifecycle.induct) auto

text \<open>The job \<open>j\<close> holds the lock and waits for the task \<open>t\<close>, which waits for the job \<open>k\<close>.\<close>

definition crossed :: "nat \<Rightarrow> nat \<Rightarrow> nat \<Rightarrow> lifecycle \<Rightarrow> bool" where
  "crossed j t k s \<longleftrightarrow> (\<exists>wanted plan rs. lc_holder s = Some (j, wanted, Gathering plan rs) \<and> t \<in> set (plan_cancelled plan))
     \<and> t \<notin> finished (lc_node s) \<and> (\<exists>evs. map_of (lc_awaiting s) t = Some (k, evs) \<and> await_lifecycle False evs = None)
     \<and> k < length (lc_jobs s) \<and> \<not> is_start k s \<and> k \<noteq> j"

lemma jobs_okD:
  assumes "jobs_ok s"
  shows "distinct (pending_jobs s @ dkeys (lc_results s))" "set (pending_jobs s @ dkeys (lc_results s)) = {..<length (lc_jobs s)}"
  using assms mset_eq_imp_distinct_iff [of "pending_jobs s @ dkeys (lc_results s)" "[0..<length (lc_jobs s)]"]
    mset_eq_setD [of "pending_jobs s @ dkeys (lc_results s)" "[0..<length (lc_jobs s)]"]
  unfolding jobs_ok_def by (simp_all only: distinct_upt set_upt atLeast0LessThan)

lemma crossed_unanswered:
  assumes "crossed j t k s" "jobs_ok s" "map_of (lc_results s) k = None"
  shows "k \<in> set (lc_arriving s @ lc_waiting s)" "map_of (lc_results s) j = None"
proof -
  note h = jobs_okD [OF assms(2)]
  have p: "pending_jobs s = lc_arriving s @ lc_waiting s @ [j]" using assms(1) by (auto simp: crossed_def pending_jobs_def)
  have "k \<in> set (pending_jobs s @ dkeys (lc_results s))" unfolding h(2) using assms(1) by (simp add: crossed_def)
  moreover have "k \<notin> set (dkeys (lc_results s))" using assms(3) by (simp add: map_of_eq_None_iff)
  ultimately show "k \<in> set (lc_arriving s @ lc_waiting s)" using assms(1) by (auto simp: p crossed_def)
  have "j \<notin> set (dkeys (lc_results s))" using h(1) by (auto simp: p simp del: set_map)
  then show "map_of (lc_results s) j = None" by (simp add: map_of_eq_None_iff)
qed

lemma crossed_same:
  "crossed j t k s \<Longrightarrow> lc_holder s' = lc_holder s \<Longrightarrow> finished (lc_node s') = finished (lc_node s)
    \<Longrightarrow> lc_awaiting s' = lc_awaiting s \<Longrightarrow> lc_jobs s' = lc_jobs s \<Longrightarrow> crossed j t k s'"
  by (simp add: crossed_def is_start_def)

lemma crossed_step:
  assumes "crossed j t k s" "lifecycle_step s s'" "map_of (lc_results s) k = None"
  shows "crossed j t k s' \<and> map_of (lc_results s') k = None"
proof -
  obtain wanted plan rs evs where h: "lc_holder s = Some (j, wanted, Gathering plan rs)" "t \<in> set (plan_cancelled plan)"
      "t \<notin> finished (lc_node s)" "map_of (lc_awaiting s) t = Some (k, evs)" "await_lifecycle False evs = None"
      "k < length (lc_jobs s)" "\<not> is_start k s" "k \<noteq> j"
    using assms(1) by (auto simp: crossed_def)
  have t: "t \<in> set (dkeys (lc_awaiting s))" using h(4) by (metis map_of_eq_None_iff not_None_eq list.set_map)
  from assms(2) show ?thesis
  proof cases
    case (other m)
    then show ?thesis using assms(3) crossed_same [OF assms(1), of s'] by (simp add: same_lifecycle_def)
  next
    case (task_ends x)
    then have "x \<noteq> t" using t by auto
    with task_ends h assms(3) show ?thesis by (auto simp: crossed_def is_start_def)
  next
    case (call x c)
    then have "x \<noteq> t" using t by auto
    with call h assms(3) show ?thesis by (auto simp: call_transition_def crossed_def is_start_def nth_append)
  next
    case (arrives i)
    with h(1) assms(3) show ?thesis by (auto simp: arrive_def Let_def intro: crossed_same [OF assms(1)])
  next
    case (start_cancelled i)
    then have "i \<noteq> k" using h(7) by auto
    with start_cancelled assms(3) show ?thesis by (auto intro: crossed_same [OF assms(1)])
  next
    case (caller_cancelled x i es)
    show ?thesis
    proof (cases "x = t")
      case True
      with caller_cancelled h(4) have "i = k" "es = evs" by auto
      with caller_cancelled True h assms(3) await_cancelled [OF h(5)] show ?thesis by (auto simp: crossed_def is_start_def)
    next
      case False
      with caller_cancelled h assms(3) show ?thesis by (auto simp: crossed_def is_start_def)
    qed
  next
    case (caller_told x i es r)
    then have "x \<noteq> t" using h(4) assms(3) by auto
    with caller_told h assms(3) show ?thesis by (auto simp: crossed_def is_start_def)
  next
    case (returns x i es)
    then have "x \<noteq> t" using h(4,5,7) by (auto simp: wait_over_def)
    with returns h assms(3) show ?thesis by (auto simp: crossed_def is_start_def)
  qed (use h in auto)
qed

lemma crossed_run:
  assumes "reachable lifecycle_step s s'" "crossed j t k s" "map_of (lc_results s) k = None"
  shows "crossed j t k s' \<and> map_of (lc_results s') k = None"
  using assms by (induction rule: reachable.induct) (auto dest: crossed_step)

section \<open>An example\<close>

text \<open>A node that the task 100 has started.\<close>

abbreviation demo_config :: config where
  "demo_config \<equiv> example_config\<lparr>handler_concurrency := 2\<rparr>"

definition demo_started :: lifecycle where
  "demo_started = (new_lifecycle (lit ''a'') demo_config)\<lparr>
     lc_machine := (new_machine (lit ''a'') demo_config)\<lparr>the_node :=
       (open_generation (new_node (lit ''a'') demo_config))\<lparr>handler_tasks := [1, 0], event_task := Some 2,
         accept_task := Some 3, next_task := 4\<rparr>\<rparr>,
     lc_jobs := [\<lparr>jb_kind = StartUp, jb_caller = 100\<rparr>], lc_results := [(0, Inr ())],
     lc_awaiting := [(100, 0, [])], lc_log := successful start_calls\<rparr>"

lemma demo_generation: "begin_generation (new_node (lit ''a'') demo_config)
    = (Inr (), (open_generation (new_node (lit ''a'') demo_config))\<lparr>handler_tasks := [1, 0], event_task := Some 2,
         accept_task := Some 3, next_task := 4\<rparr>)"
  by (simp add: begin_generation_def seq_def start_dispatch_worker_def create_task_def open_generation_def new_node_def
      eval_nat_numeral)

lemma one_step: "lifecycle_step s t \<Longrightarrow> reachable lifecycle_step s t"
  by (rule reachable.next_state, rule reachable.start)

text \<open>A start whose services all answer.\<close>

lemma start_goes_on:
  "lc_holder s = Some (j, wanted, Calling [] start_calls) \<Longrightarrow> called @ left = start_calls \<Longrightarrow> left \<noteq> [] \<Longrightarrow>
    reachable lifecycle_step s (s\<lparr>lc_holder := Some (j, wanted, Calling called left), lc_log := lc_log s @ successful called\<rparr>)"
proof (induction called arbitrary: left rule: rev_induct)
  case Nil
  then have "s\<lparr>lc_holder := Some (j, wanted, Calling [] left), lc_log := lc_log s @ []\<rparr> = s" by (cases s) simp
  then show ?case by (simp add: reachable.start)
next
  case (snoc c called)
  then have "reachable lifecycle_step s (s\<lparr>lc_holder := Some (j, wanted, Calling called (c # left)), lc_log := lc_log s @ successful called\<rparr>)"
    (is "reachable _ _ ?t") by simp
  moreover have "lifecycle_step ?t (service_answered undefined (Inr ()) j wanted called (c # left) ?t)"
    by (rule lifecycle_step.service) simp
  moreover have "service_answered undefined (Inr ()) j wanted called (c # left) ?t
      = s\<lparr>lc_holder := Some (j, wanted, Calling (called @ [c]) left), lc_log := lc_log s @ successful (called @ [c])\<rparr>"
    using snoc.prems(3) by (simp add: set_phase_def logged_def)
  ultimately show ?case by (metis reachable.next_state)
qed

lemma start_succeeds:
  assumes "lc_holder s = Some (j, wanted, Calling [] start_calls)" "begin_generation (lc_node s) = (Inr (), n)" "is_start j s"
  shows "reachable lifecycle_step s (s\<lparr>lc_machine := (lc_machine s)\<lparr>the_node := n\<rparr>, lc_holder := None,
    lc_results := (j, Inr ()) # lc_results s, lc_log := lc_log s @ successful start_calls\<rparr>)"
proof -
  let ?called = "[TransportStart, CreateListener, ListenerStart, LocalEndpoint]"
  let ?t = "s\<lparr>lc_holder := Some (j, wanted, Calling ?called [DiscoveryStart]), lc_log := lc_log s @ successful ?called\<rparr>"
  have "reachable lifecycle_step s ?t"
    by (rule start_goes_on [OF assms(1)]) (simp_all add: start_calls_def)
  moreover have "lifecycle_step ?t (service_answered undefined (Inr ()) j wanted ?called [DiscoveryStart] ?t)"
    by (rule lifecycle_step.service) simp
  moreover have "service_answered undefined (Inr ()) j wanted ?called [DiscoveryStart] ?t
      = s\<lparr>lc_machine := (lc_machine s)\<lparr>the_node := n\<rparr>, lc_holder := None,
          lc_results := (j, Inr ()) # lc_results s, lc_log := lc_log s @ successful start_calls\<rparr>"
    using assms by (simp add: after_start_def is_start_def finish_job_def logged_def set_node_def start_calls_def)
  ultimately show ?thesis using reachable.next_state by fastforce
qed

lemma demo_starting:
  defines "s0 \<equiv> new_lifecycle (lit ''a'') demo_config"
  defines "starting \<equiv> s0\<lparr>lc_jobs := [\<lparr>jb_kind = StartUp, jb_caller = 100\<rparr>], lc_awaiting := [(100, 0, [])],
      lc_holder := Some (0, [], Calling [] start_calls)\<rparr>"
  shows "reachable lifecycle_step s0 starting"
proof -
  have r1: "lifecycle_step s0 (call_transition 100 StartUp s0)"
    by (rule lifecycle_step.call) (simp_all add: s0_def new_lifecycle_def new_machine_def new_node_def)
  have "lifecycle_step (call_transition 100 StartUp s0) (arrive 0 (call_transition 100 StartUp s0))"
    by (rule lifecycle_step.arrives) (simp add: s0_def call_transition_def new_lifecycle_def)
  moreover have "arrive 0 (call_transition 100 StartUp s0) = starting"
    by (simp add: s0_def starting_def call_transition_def arrive_def Let_def enter_job_def begin_start_def
        new_lifecycle_def new_machine_def new_node_def set_phase_def)
  ultimately show ?thesis using reachable.next_state [OF one_step [OF r1]] by metis
qed

lemma demo_started_reachable: "reachable lifecycle_step (new_lifecycle (lit ''a'') demo_config) demo_started"
proof -
  let ?s0 = "new_lifecycle (lit ''a'') demo_config"
  let ?s1 = "?s0\<lparr>lc_jobs := [\<lparr>jb_kind = StartUp, jb_caller = 100\<rparr>], lc_awaiting := [(100, 0, [])],
      lc_holder := Some (0, [], Calling [] start_calls)\<rparr>"
  have "reachable lifecycle_step ?s1 demo_started"
    using start_succeeds [of ?s1 0 "[]", OF _ _ , of "snd (begin_generation (lc_node ?s0))"] demo_generation
    by (simp add: demo_started_def new_lifecycle_def new_machine_def is_start_def)
  then show ?thesis using demo_starting by (rule reachable_trans)
qed

text \<open>
  A start whose discovery fails, and whose caller is cancelled during the clean-up, so that none of
  its calls returns: the node is stopped, the lock free, and no service known to be down.
\<close>

lemma cleanup_cancelled:
  assumes "lc_holder s = Some (j, wanted, Calling called (c # left))" "is_start j s"
    and "length oks = length (rollback_calls (called @ [c]))"
  shows "reachable lifecycle_step s (rolled_back True oks j e (rollback_calls (called @ [c]))
    (service_answered w (Inl e) j wanted called (c # left) s))" (is "reachable _ _ (rolled_back _ _ _ _ _ ?t)")
proof -
  have "lifecycle_step s ?t" using assms(1) by (rule lifecycle_step.service)
  moreover have "lifecycle_step ?t (rolled_back True oks j e (rollback_calls (called @ [c])) ?t)"
    using assms(2,3) by (intro lifecycle_step.rollback) (simp_all add: is_start_def set_phase_def logged_def)
  ultimately show ?thesis using reachable.next_state [OF one_step] by metis
qed

lemma cancelled_start_leaves_services:
  "\<exists>s. reachable lifecycle_step (new_lifecycle (lit ''a'') demo_config) s \<and> lc_holder s = None
     \<and> \<not> running (lc_node s) \<and> services_up (lc_log s) = (Unclean, Unclean, Unclean)"
proof -
  define s1 where "s1 = (new_lifecycle (lit ''a'') demo_config)\<lparr>lc_jobs := [\<lparr>jb_kind = StartUp, jb_caller = 100\<rparr>],
      lc_awaiting := [(100, 0, [])], lc_holder := Some (0, [], Calling [] start_calls)\<rparr>"
  define called where "called = [TransportStart, CreateListener, ListenerStart, LocalEndpoint]"
  define s2 where "s2 = s1\<lparr>lc_holder := Some (0, [], Calling called [DiscoveryStart]), lc_log := lc_log s1 @ successful called\<rparr>"
  have "reachable lifecycle_step s1 s2"
    unfolding s2_def by (rule start_goes_on) (simp_all add: s1_def called_def start_calls_def)
  then have r2: "reachable lifecycle_step (new_lifecycle (lit ''a'') demo_config) s2"
    using demo_starting by (simp add: s1_def reachable_trans)
  have cs: "rollback_calls (called @ [DiscoveryStart]) = [DiscoveryStop, ListenerClose, TransportStop]"
    by (simp add: rollback_calls_def called_def)
  let ?t = "service_answered example_world (Inl DiscoveryError) 0 [] called [DiscoveryStart] s2"
  let ?s4 = "rolled_back True [False, False, False] 0 DiscoveryError [DiscoveryStop, ListenerClose, TransportStop] ?t"
  have "reachable lifecycle_step s2 ?s4"
    using cleanup_cancelled [of s2 0 "[]" called DiscoveryStart "[]" "[False, False, False]" DiscoveryError example_world]
    unfolding cs by (simp add: s2_def s1_def is_start_def del: service_answered.simps)
  then have "reachable lifecycle_step (new_lifecycle (lit ''a'') demo_config) ?s4"
    using r2 by (rule reachable_trans)
  moreover have "lc_holder ?s4 = None" "\<not> running (lc_node ?s4)" "services_up (lc_log ?s4) = (Unclean, Unclean, Unclean)"
    by (simp_all add: rolled_back_def s2_def s1_def called_def new_lifecycle_def new_machine_def new_node_def
        services_up_def service_defs)
  ultimately show ?thesis by blast
qed

text \<open>Two handlers of the example call \<open>stop\<close>, the task 0 first.\<close>

definition demo_crossed :: lifecycle where
  "demo_crossed = (let s = arrive 2 (arrive 1 (call_transition 1 ShutDown (call_transition 0 ShutDown demo_started)))
     in case lc_holder s of Some (j, wanted, Closing plan) \<Rightarrow> connections_closed j wanted plan [] (Inr ()) s | _ \<Rightarrow> s)"

lemma demo_crossed_state:
  "reachable lifecycle_step (new_lifecycle (lit ''a'') demo_config) demo_crossed"
  "\<exists>plan. lc_holder demo_crossed = Some (1, [], Gathering plan [Inr ()]) \<and> 1 \<in> set (plan_cancelled plan)"
  "finished (lc_node demo_crossed) = {}" "map_of (lc_awaiting demo_crossed) 1 = Some (2, [])"
  "\<not> is_start 2 demo_crossed" "lc_waiting demo_crossed = [2]" "map_of (lc_awaiting demo_crossed) 3 = None"
proof -
  let ?s1 = "call_transition 0 ShutDown demo_started"
  let ?s2 = "call_transition 1 ShutDown ?s1"
  let ?s3 = "arrive 1 ?s2"
  let ?s4 = "arrive 2 ?s3"
  note defs = demo_started_def new_lifecycle_def new_machine_def open_generation_def new_node_def call_transition_def
  obtain plan n where sb: "stop_begin {0} (lc_node demo_started) = (plan, n)" by fastforce
  have plan: "1 \<in> set (plan_cancelled plan)"
    using sb by (auto simp: stop_begin_def Let_def stop_tasks_def fail_all_pending_def fail_all_heartbeats_def defs)
  have s3: "?s3 = set_phase 1 [] (Closing plan) (set_node n (?s2\<lparr>lc_arriving := [2]\<rparr>))"
    using sb by (simp add: arrive_def Let_def enter_job_def begin_stop_def defs numeral_2_eq_2)
  have s4: "?s4 = ?s3\<lparr>lc_arriving := [], lc_waiting := [2]\<rparr>"
    unfolding s3 by (simp add: arrive_def Let_def defs set_phase_def set_node_def)
  have pl: "plan_listener plan" using stop_begin_rest(2) [OF sb] by (simp add: defs)
  have crossed: "demo_crossed = connections_closed 1 [] plan [] (Inr ()) ?s4"
    unfolding demo_crossed_def s4 unfolding s3 by (simp add: Let_def)
  have "lifecycle_step demo_started ?s1" by (rule lifecycle_step.call) (simp_all add: defs)
  note r = reachable.next_state [OF demo_started_reachable this]
  have "lifecycle_step ?s1 ?s2" by (rule lifecycle_step.call) (simp_all add: defs)
  note r = reachable.next_state [OF r this]
  have "lifecycle_step ?s2 ?s3" by (rule lifecycle_step.arrives) (simp add: defs)
  note r = reachable.next_state [OF r this]
  have "lifecycle_step ?s3 ?s4" by (rule lifecycle_step.arrives) (unfold s3, simp add: set_phase_def)
  note r = reachable.next_state [OF r this]
  have "lifecycle_step ?s4 demo_crossed"
    unfolding crossed by (rule lifecycle_step.closes) (unfold s4, unfold s3, simp)
  with r show "reachable lifecycle_step (new_lifecycle (lit ''a'') demo_config) demo_crossed"
    by (rule reachable.next_state)
  show "\<exists>plan. lc_holder demo_crossed = Some (1, [], Gathering plan [Inr ()]) \<and> 1 \<in> set (plan_cancelled plan)"
    using plan pl unfolding crossed connections_closed_def by (intro exI [of _ plan]) (simp add: set_phase_def)
  have "finished n = {}" using stop_begin_rest(3) [OF sb] by (simp add: defs)
  then show "finished (lc_node demo_crossed) = {}" using pl unfolding crossed connections_closed_def s4 unfolding s3 by (simp add: set_phase_def logged_def set_node_def)
  show "map_of (lc_awaiting demo_crossed) 1 = Some (2, [])" "\<not> is_start 2 demo_crossed" "lc_waiting demo_crossed = [2]"
    "map_of (lc_awaiting demo_crossed) 3 = None"
    using pl unfolding crossed connections_closed_def s4 unfolding s3 by (simp_all add: is_start_def set_phase_def set_node_def logged_def defs)
qed

section \<open>Properties\<close>

text \<open>C24 The services follow the lifecycle. However \<open>start\<close>, \<open>stop\<close> and \<open>network_changed\<close> are called,
  cancelled and interleaved with everything else the node does, and whatever the services answer, the
  transport and the discovery service are started only when they are not started, that is when
  nothing or a stop was their last call, the listener only when it is new and over a started
  transport, the discovery service only over both. Whenever no transition holds the lock, the node
  listens if and only if it runs; if it runs, all three have been started and not been stopped; if it
  does not run, the last call of each was a stop or close, or there was none, and once all stops and
  closes have returned without an exception and none has been cancelled, all three are down.\<close>

theorem services_follow_lifecycle:
  assumes "reachable lifecycle_step (new_lifecycle pid c) s"
  shows "orderly services_down (lc_log s) \<and> (lc_holder s = None \<longrightarrow>
    listening (lc_node s) = running (lc_node s)
    \<and> (running (lc_node s) \<longrightarrow> services_up (lc_log s) = services_started)
    \<and> (\<not> running (lc_node s) \<longrightarrow> none_started (services_up (lc_log s))
         \<and> (clean_stops (lc_log s) \<longrightarrow> services_up (lc_log s) = services_down)))"
  using transitions.holds [OF assms] none_started_clean [OF _ clean_services]
  by (auto simp: lifecycle_ok_def log_ok_def at_rest_def services_rest_def split: if_split_asm)

theorem services_follow_lifecycle_witness:
  "(lc_holder demo_started = None \<and> running (lc_node demo_started)
      \<and> services_up (lc_log demo_started) = services_started \<and> orderly services_down (lc_log demo_started))
    \<and> (\<exists>s. reachable lifecycle_step (new_lifecycle (lit ''a'') demo_config) s \<and> lc_holder s = None
      \<and> \<not> running (lc_node s) \<and> none_started (services_up (lc_log s)) \<and> services_up (lc_log s) \<noteq> services_down)"
proof -
  obtain s where s: "reachable lifecycle_step (new_lifecycle (lit ''a'') demo_config) s" "lc_holder s = None"
    "\<not> running (lc_node s)" "services_up (lc_log s) = (Unclean, Unclean, Unclean)"
    using cancelled_start_leaves_services by blast
  have "lc_holder demo_started = None" "running (lc_node demo_started)"
    by (simp_all add: demo_started_def new_lifecycle_def new_machine_def open_generation_def)
  with services_follow_lifecycle [OF demo_started_reachable] services_follow_lifecycle [OF s(1)] s show ?thesis by auto
qed

text \<open>C25 The lifecycle refines the machine of the node: whatever transitions are called, and wherever
  they are cut by their awaits, the node in their midst is one that \<open>NodeMachine\<close> reaches.\<close>

theorem lifecycle_refines_machine:
  assumes "reachable lifecycle_step (new_lifecycle pid c) s"
  shows "reachable machine_step (new_machine pid c) (lc_machine s)"
  using assms
proof (induction rule: reachable.induct)
  case start
  show ?case by (simp add: new_lifecycle_def reachable.start)
next
  case (next_state s t)
  then show ?case using machine_run_step [OF transitions.holds] by blast
qed

theorem lifecycle_refines_machine_witness:
  "reachable machine_step (new_machine (lit ''a'') demo_config) (lc_machine demo_crossed) \<and> lc_waiting demo_crossed = [2]"
  using lifecycle_refines_machine [OF demo_crossed_state(1)] demo_crossed_state(6) by blast

text \<open>C26 A transition ends. While it holds the lock, every step of it shortens what it has before it,
  ten steps at most, or releases the lock with the result of its call; it always has a step, except
  while a task it has cancelled has not ended; and such a task can end, unless it waits for a
  transition itself.\<close>

theorem transition_ends:
  assumes "reachable lifecycle_step (new_lifecycle pid c) s" "lc_holder s = Some (j, wanted, ph)"
  shows "(\<forall>t. lifecycle_step s t \<longrightarrow> lc_holder t = Some (j, wanted, ph)
        \<or> lc_holder t = None \<and> map_of (lc_results t) j \<noteq> None
        \<or> (\<exists>v ph'. lc_holder t = Some (j, v, ph') \<and> remaining ph' < remaining ph))
    \<and> remaining ph \<le> 10
    \<and> ((\<exists>t. lifecycle_step s t \<and> lc_holder t \<noteq> lc_holder s)
       \<or> (\<exists>plan rs x. ph = Gathering plan rs \<and> x \<in> set (plan_cancelled plan) \<and> x \<notin> finished (lc_node s)))
    \<and> (\<forall>x. map_of (lc_awaiting s) x = None \<longrightarrow> (\<exists>t. lifecycle_step s t \<and> x \<in> finished (lc_node t)))"
proof -
  have ok: "lifecycle_ok s" by (rule transitions.holds [OF assms(1)])
  have "remaining ph \<le> 10"
  proof (cases ph)
    case (Calling called left)
    with ok assms(2) have "length (called @ left) = length start_calls" by (simp add: lifecycle_ok_def)
    with Calling show ?thesis by (simp add: start_calls_def)
  qed simp_all
  moreover have "\<exists>t. lifecycle_step s t \<and> x \<in> finished (lc_node t)" if "map_of (lc_awaiting s) x = None" for x
    using lifecycle_step.task_ends [of x s] that by (force simp: map_of_eq_None_iff)
  moreover have "lc_holder t = Some (j, wanted, ph) \<or> lc_holder t = None \<and> map_of (lc_results t) j \<noteq> None
        \<or> (\<exists>v ph'. lc_holder t = Some (j, v, ph') \<and> remaining ph' < remaining ph)" if "lifecycle_step s t" for t
    using holder_serves [OF that assms(2) ok] assms(2) by (auto simp: serves_def)
  ultimately show ?thesis using holder_goes_on [OF ok assms(2)] by blast
qed

theorem transition_ends_witness:
  "\<exists>plan. lc_holder demo_crossed = Some (1, [], Gathering plan [Inr ()]) \<and> remaining (Gathering plan [Inr ()]) \<le> 10
    \<and> (\<exists>t. lifecycle_step demo_crossed t \<and> 3 \<in> finished (lc_node t))"
proof -
  obtain plan where plan: "lc_holder demo_crossed = Some (1, [], Gathering plan [Inr ()])" using demo_crossed_state(2) by blast
  have "map_of (lc_awaiting demo_crossed) 3 = None" by (rule demo_crossed_state(7))
  with plan transition_ends [OF demo_crossed_state(1) plan] show ?thesis by blast
qed

text \<open>C27 Two stops that cross wait for ever. When the transition that holds the lock, \<open>stop\<close> or
  \<open>network_changed\<close>, waits for a task of the node that it has cancelled, and this task, a message
  handler for instance, itself waits for a \<open>stop\<close> or \<open>network_changed\<close> it has called and that has not
  come to the lock yet, then neither call ever returns, whatever happens: the caller's cancellation
  does not end its wait for its transition, which waits for the lock, whose holder waits for the
  caller.\<close>

theorem crossing_stops_wait_forever:
  assumes "reachable lifecycle_step (new_lifecycle pid c) s" "lc_holder s = Some (j, wanted, Gathering plan rs)"
    and "t \<in> set (plan_cancelled plan)" "t \<notin> finished (lc_node s)"
    and "map_of (lc_awaiting s) t = Some (k, evs)" "await_lifecycle False evs = None" "\<not> is_start k s"
    and "k \<in> set (lc_arriving s @ lc_waiting s)" "reachable lifecycle_step s s'"
  shows "(\<exists>wanted plan rs. lc_holder s' = Some (j, wanted, Gathering plan rs))
    \<and> map_of (lc_results s') j = None \<and> map_of (lc_results s') k = None
    \<and> t \<notin> finished (lc_node s') \<and> (\<exists>evs. map_of (lc_awaiting s') t = Some (k, evs))"
proof -
  have ok: "jobs_ok s" "jobs_ok s'"
    using jobs.both.holds [OF assms(1)] jobs.both.holds [OF reachable_trans [OF assms(9,1)]] by blast+
  have p: "pending_jobs s = lc_arriving s @ lc_waiting s @ [j]" using assms(2) by (simp add: pending_jobs_def)
  note h = jobs_okD [OF ok(1)]
  have "k \<in> set (pending_jobs s @ dkeys (lc_results s))" using assms(8) by (auto simp: p)
  then have "k < length (lc_jobs s)" unfolding h(2) by simp
  moreover have "k \<noteq> j" using h(1) assms(8) by (auto simp: p simp del: set_map)
  moreover have "k \<notin> set (dkeys (lc_results s))" using h(1) assms(8) by (auto simp: p simp del: set_map)
  ultimately have "crossed j t k s" "map_of (lc_results s) k = None"
    unfolding crossed_def using assms(2-7) by (blast, simp add: map_of_eq_None_iff)
  from crossed_run [OF assms(9) this] have r: "crossed j t k s'" "map_of (lc_results s') k = None" by blast+
  from crossed_unanswered(2) [OF r(1) ok(2) r(2)] r show ?thesis unfolding crossed_def by blast
qed

theorem crossing_stops_wait_forever_witness:
  "\<exists>s'. reachable lifecycle_step demo_crossed s' \<and> map_of (lc_awaiting s') 1 = Some (2, [CallerCancelled None])
     \<and> map_of (lc_results s') 1 = None \<and> map_of (lc_results s') 2 = None"
proof -
  let ?s = "demo_crossed\<lparr>lc_awaiting := dput 1 (2, [] @ [CallerCancelled (map_of (lc_results demo_crossed) 2)]) (lc_awaiting demo_crossed)\<rparr>"
  note d = demo_crossed_state
  have "\<not> wait_over 2 [] demo_crossed" using d(5) by (simp add: wait_over_def)
  then have r: "reachable lifecycle_step demo_crossed ?s" by (intro one_step lifecycle_step.caller_cancelled d(4,5))
  obtain plan where plan: "lc_holder demo_crossed = Some (1, [], Gathering plan [Inr ()])" "1 \<in> set (plan_cancelled plan)"
    using d(2) by blast
  have h: "1 \<notin> finished (lc_node demo_crossed)" "2 \<in> set (lc_arriving demo_crossed @ lc_waiting demo_crossed)"
    using d(3,6) by simp_all
  have "map_of (lc_results ?s) 1 = None \<and> map_of (lc_results ?s) 2 = None"
    using crossing_stops_wait_forever [OF d(1) plan h(1) d(4) _ d(5) h(2) r] by simp
  moreover from this have "map_of (lc_awaiting ?s) 1 = Some (2, [CallerCancelled None])" by simp
  ultimately show ?thesis using r by blast
qed

end
