(* ===== verification/PairProtocol.thy ===== *)
theory PairProtocol
  imports LanAddress Machines
begin

text \<open>
  The coordination protocol of the two-device compatibility runs
  (\<open>src/compatibility_tests/pair/protocol.py\<close>): session identifiers, the metadata both sides
  exchange, the phases of the completion handshake and the propagation of failures. Its two
  exceptions are a type of their own; the \<open>raise\<close> statements' texts are left out, except for the
  one that a remote failure carries.

  The lemmas: what one side builds the other accepts; the server accepts one completion request
  and then one confirmation, and nothing else; and a failure without a text is not propagated.
\<close>

datatype pair_error = PairProtocolError | RemotePairFailure pystr

section \<open>Values\<close>

definition as_mapping :: "pyval \<Rightarrow> pair_error + metadata" where
  "as_mapping v = (case v of PDict kvs \<Rightarrow> Inr kvs | _ \<Rightarrow> Inl PairProtocolError)"

definition non_empty_string :: "pyval \<Rightarrow> pair_error + pystr" where
  "non_empty_string v = opt_res PairProtocolError (nonempty_str v)"

text \<open>\<open>value == n\<close> for a number.\<close>

definition equals_int :: "pyval \<Rightarrow> int \<Rightarrow> bool" where
  "equals_int v n = (case v of
     PInt i \<Rightarrow> i = n | PBool b \<Rightarrow> n = (if b then 1 else 0) | PFloat x \<Rightarrow> x = Finite (of_int n) | _ \<Rightarrow> False)"

section \<open>Session identifiers\<close>

text \<open>
  \<open>UUID(text)\<close> drops \<open>urn:\<close> and \<open>uuid:\<close>, braces at the ends and every hyphen, and reads 32
  hexadecimal digits; \<open>str\<close> of it writes them in lower case with four hyphens. The other spellings
  that \<open>int(hex, 16)\<close> reads (signs, spaces, underscores, digits outside ASCII) are errors here: in
  the code they fail in the comparison that follows, with the same exception.
\<close>

fun remove_text :: "pystr \<Rightarrow> pystr \<Rightarrow> pystr" where
  "remove_text pat [] = []"
| "remove_text pat (c # s) =
     (if pat \<noteq> [] \<and> take (length pat) (c # s) = pat then remove_text pat (drop (length pat - 1) s)
      else c # remove_text pat s)"

definition strip_braces :: "pystr \<Rightarrow> pystr" where
  "strip_braces s =
     (let brace = (\<lambda>c. c \<in> set (lit ''{}'')) in rev (dropWhile brace (rev (dropWhile brace s))))"

definition uuid_digits :: "pystr \<Rightarrow> pystr" where
  "uuid_digits text = filter (\<lambda>c. c \<noteq> 45)
     (strip_braces (remove_text (lit ''uuid:'') (remove_text (lit ''urn:'') text)))"

definition hyphenated :: "pystr \<Rightarrow> pystr" where
  "hyphenated s = take 8 s @ [45] @ take 4 (drop 8 s) @ [45] @ take 4 (drop 12 s) @ [45]
     @ take 4 (drop 16 s) @ [45] @ drop 20 s"

definition uuid_text :: "pystr \<Rightarrow> pystr option" where
  "uuid_text text =
     (let digits = uuid_digits text in
      if length digits = 32 \<and> list_all (\<lambda>c. hex_val c \<noteq> None) digits
      then Some (hyphenated (ascii_lower digits)) else None)"

text \<open>\<open>casefold\<close> differs from \<open>ascii_lower\<close> on characters outside ASCII, which no such text has.\<close>

definition validate_session_id :: "bool \<Rightarrow> pyval \<Rightarrow> pair_error + pystr option" where
  "validate_session_id allow_none v =
     (if v = PNone \<and> allow_none then Inr None
      else rbind (non_empty_string v) (\<lambda>text.
           rbind (opt_res PairProtocolError (uuid_text text)) (\<lambda>parsed.
           rbind (guard (parsed = ascii_lower text) PairProtocolError) (\<lambda>_. Inr (Some parsed)))))"

definition session_value :: "pystr option \<Rightarrow> pyval" where
  "session_value s = (case s of None \<Rightarrow> PNone | Some i \<Rightarrow> PStr i)"

section \<open>Metadata\<close>

definition PAIR_PROTOCOL_VERSION :: int where "PAIR_PROTOCOL_VERSION = 2"

definition PROTOCOL_ID :: pystr where "PROTOCOL_ID = lit ''paqto.compatibility.json.v1''"

definition platform_fields :: "pystr list" where
  "platform_fields = [lit ''os_family'', lit ''kernel_system'', lit ''release'', lit ''architecture'', lit ''sys_platform'']"

definition python_fields :: "pystr list" where
  "python_fields = [lit ''implementation'', lit ''version'']"

definition number_fields :: "pystr list" where
  "number_fields = [lit ''schema_version'', lit ''pair_protocol_version'', lit ''source_file_count'']"

definition selected :: "pystr list \<Rightarrow> metadata \<Rightarrow> pyval" where
  "selected names d = PDict (List.map (\<lambda>k. (PStr k, dget d k)) names)"

definition metadata_message ::
    "pystr option \<Rightarrow> metadata \<Rightarrow> metadata \<Rightarrow> pystr \<Rightarrow> pystr \<Rightarrow> metadata \<Rightarrow> metadata \<Rightarrow> metadata" where
  "metadata_message session platform python version path suite caps =
     [(PStr (lit ''kind''), PStr (lit ''metadata'')), (PStr (lit ''protocol_version''), PInt PAIR_PROTOCOL_VERSION),
      (PStr (lit ''serializer_id''), PStr PROTOCOL_ID), (PStr (lit ''session_id''), session_value session),
      (PStr (lit ''platform''), selected platform_fields platform), (PStr (lit ''python''), selected python_fields python),
      (PStr (lit ''paqto''), PDict [(PStr (lit ''version''), PStr version), (PStr (lit ''import_path''), PStr path)]),
      (PStr (lit ''compatibility_suite''), PDict suite), (PStr (lit ''capabilities''), PDict caps)]"

fun check_fields :: "(pyval \<Rightarrow> bool) \<Rightarrow> metadata \<Rightarrow> pystr list \<Rightarrow> pair_error + unit" where
  "check_fields ok d [] = Inr ()"
| "check_fields ok d (k # ks) = rbind (guard (ok (dget d k)) PairProtocolError) (\<lambda>_. check_fields ok d ks)"

definition named :: "pyval \<Rightarrow> bool" where
  "named v \<longleftrightarrow> nonempty_str v \<noteq> None"

definition positive_int :: "pyval \<Rightarrow> bool" where
  "positive_int v \<longleftrightarrow> (case strict_int v of Some i \<Rightarrow> 0 < i | None \<Rightarrow> False)"

definition validate_metadata :: "pyval \<Rightarrow> pystr option \<Rightarrow> bool \<Rightarrow> pair_error + metadata" where
  "validate_metadata data expected allow_missing =
     rbind (as_mapping data) (\<lambda>raw.
     rbind (guard (dget raw (lit ''kind'') = PStr (lit ''metadata'')) PairProtocolError) (\<lambda>_.
     rbind (guard (equals_int (dget raw (lit ''protocol_version'')) PAIR_PROTOCOL_VERSION) PairProtocolError) (\<lambda>_.
     rbind (guard (dget raw (lit ''serializer_id'') = PStr PROTOCOL_ID) PairProtocolError) (\<lambda>_.
     rbind (validate_session_id allow_missing (dget raw (lit ''session_id''))) (\<lambda>session.
     rbind (guard (expected = None \<or> session = expected) PairProtocolError) (\<lambda>_.
     rbind (as_mapping (dget raw (lit ''platform''))) (\<lambda>platform.
     rbind (as_mapping (dget raw (lit ''python''))) (\<lambda>python.
     rbind (as_mapping (dget raw (lit ''paqto''))) (\<lambda>paqto.
     rbind (as_mapping (dget raw (lit ''compatibility_suite''))) (\<lambda>suite.
     rbind (as_mapping (dget raw (lit ''capabilities''))) (\<lambda>caps.
     rbind (check_fields named platform platform_fields) (\<lambda>_.
     rbind (check_fields named python python_fields) (\<lambda>_.
     rbind (check_fields named paqto [lit ''version'', lit ''import_path'']) (\<lambda>_.
     rbind (check_fields named suite [lit ''version'', lit ''build_id'']) (\<lambda>_.
     rbind (check_fields positive_int suite number_fields) (\<lambda>_.
     rbind (guard (list_all (\<lambda>kv. as_str (fst kv) \<noteq> None) caps) PairProtocolError) (\<lambda>_. Inr raw)))))))))))))))))"

section \<open>Completion\<close>

definition COMPLETION_REQUEST :: pystr where "COMPLETION_REQUEST = lit ''complete''"
definition COMPLETION_REPLY :: pystr where "COMPLETION_REPLY = lit ''complete.reply''"
definition COMPLETION_CONFIRMATION :: pystr where "COMPLETION_CONFIRMATION = lit ''complete.confirmed''"
definition COMPLETION_CONFIRMATION_REPLY :: pystr where
  "COMPLETION_CONFIRMATION_REPLY = lit ''complete.confirmed.reply''"

text \<open>The keyword arguments \<open>values\<close> are a dictionary without the names of the parameters.\<close>

definition session_payload :: "pyval \<Rightarrow> metadata \<Rightarrow> pair_error + metadata" where
  "session_payload session values =
     rbind (validate_session_id False session) (\<lambda>validated.
       Inr ((PStr (lit ''session_id''), session_value validated) # values))"

definition completion_payload :: "pyval \<Rightarrow> pystr \<Rightarrow> metadata \<Rightarrow> pair_error + metadata" where
  "completion_payload session ph values =
     rbind (guard (ph \<in> {COMPLETION_REQUEST, COMPLETION_REPLY, COMPLETION_CONFIRMATION, COMPLETION_CONFIRMATION_REPLY})
       PairProtocolError) (\<lambda>_. session_payload session ((PStr (lit ''completion_phase''), PStr ph) # values))"

definition validate_session_payload :: "pyval \<Rightarrow> pystr \<Rightarrow> pair_error + metadata" where
  "validate_session_payload data expected =
     rbind (as_mapping data) (\<lambda>raw.
     rbind (validate_session_id False (dget raw (lit ''session_id''))) (\<lambda>actual.
     rbind (guard (actual = Some expected) PairProtocolError) (\<lambda>_. Inr raw)))"

definition validate_completion_payload :: "pyval \<Rightarrow> pystr \<Rightarrow> pystr \<Rightarrow> pair_error + metadata" where
  "validate_completion_payload data expected ph =
     rbind (validate_session_payload data expected) (\<lambda>raw.
     rbind (guard (dget raw (lit ''completion_phase'') = PStr ph) PairProtocolError) (\<lambda>_. Inr raw))"

record completion_state =
  cs_session_id :: pystr
  request_received :: bool
  confirmation_received :: bool

definition accept_request :: "pyval \<Rightarrow> completion_state \<Rightarrow> (pair_error + metadata) \<times> completion_state" where
  "accept_request data s =
     (case validate_completion_payload data (cs_session_id s) COMPLETION_REQUEST of
        Inl e \<Rightarrow> (Inl e, s)
      | Inr validated \<Rightarrow>
          if request_received s then (Inl PairProtocolError, s)
          else if confirmation_received s then (Inl PairProtocolError, s)
          else (Inr validated, s\<lparr>request_received := True\<rparr>))"

definition accept_confirmation :: "pyval \<Rightarrow> completion_state \<Rightarrow> (pair_error + metadata) \<times> completion_state" where
  "accept_confirmation data s =
     (case validate_completion_payload data (cs_session_id s) COMPLETION_CONFIRMATION of
        Inl e \<Rightarrow> (Inl e, s)
      | Inr validated \<Rightarrow>
          if \<not> request_received s then (Inl PairProtocolError, s)
          else if confirmation_received s then (Inl PairProtocolError, s)
          else (Inr validated, s\<lparr>confirmation_received := True\<rparr>))"

section \<open>Failures\<close>

text \<open>\<open>error_type\<close> is the name of the exception's class, \<open>detail\<close> its text.\<close>

definition failure_message :: "pystr option \<Rightarrow> pystr \<Rightarrow> pystr \<Rightarrow> metadata" where
  "failure_message session error_type detail =
     [(PStr (lit ''kind''), PStr (lit ''failure'')), (PStr (lit ''session_id''), session_value session),
      (PStr (lit ''error_type''), PStr error_type), (PStr (lit ''detail''), PStr detail)]"

text \<open>It never returns: the value is the exception.\<close>

definition raise_remote_failure :: "pyval \<Rightarrow> pystr option \<Rightarrow> pair_error" where
  "raise_remote_failure data expected =
     projl (rbind (as_mapping data) (\<lambda>raw.
       rbind (guard (dget raw (lit ''kind'') = PStr (lit ''failure'')) PairProtocolError) (\<lambda>_.
       rbind (validate_session_id (expected = None) (dget raw (lit ''session_id''))) (\<lambda>session.
       rbind (guard (expected = None \<or> session = expected) PairProtocolError) (\<lambda>_.
       rbind (non_empty_string (dget raw (lit ''error_type''))) (\<lambda>error_type.
       rbind (non_empty_string (dget raw (lit ''detail''))) (\<lambda>detail.
         (Inl (RemotePairFailure (error_type @ lit '': '' @ detail)) :: pair_error + unit))))))))"

section \<open>Identifiers are read back\<close>

definition hex_text_of :: "pystr \<Rightarrow> bool" where
  "hex_text_of s \<longleftrightarrow> list_all (\<lambda>c. hex_val c \<noteq> None) s"

lemma hex_val_char: "hex_val c \<noteq> None \<Longrightarrow> c \<noteq> 45 \<and> c \<noteq> 117 \<and> c \<noteq> 123 \<and> c \<noteq> 125"
  by (auto simp: hex_val_def split: if_splits)

lemma hex_val_lower: "hex_val (if 65 \<le> c \<and> c \<le> 90 then c + 32 else c) \<noteq> None \<longleftrightarrow> hex_val c \<noteq> None"
  by (auto simp: hex_val_def)

lemma hex_text_lower: "hex_text_of (ascii_lower s) \<longleftrightarrow> hex_text_of s"
  unfolding hex_text_of_def ascii_lower_def list.pred_map comp_def hex_val_lower ..

lemma remove_text_absent: "p \<notin> set s \<Longrightarrow> remove_text (p # ps) s = s"
proof (induction s)
  case (Cons c s)
  then show ?case by auto
qed simp

lemma dropWhile_none: "\<forall>c \<in> set s. \<not> P c \<Longrightarrow> dropWhile P s = s"
  by (cases s) auto

lemma hyphenated_digits:
  assumes "hex_text_of s"
  shows "uuid_digits (hyphenated s) = s"
proof -
  let ?h = "hyphenated s"
  have hex: "hex_val c \<noteq> None" if "c \<in> set s" for c using assms that by (auto simp: hex_text_of_def list_all_iff)
  have h: "c = 45 \<or> c \<in> set s" if "c \<in> set ?h" for c
    using that by (auto simp: hyphenated_def dest: in_set_takeD in_set_dropD)
  have no: "117 \<notin> set ?h" "\<forall>c \<in> set ?h. c \<notin> set (lit ''{}'')" "\<forall>c \<in> set (rev ?h). c \<notin> set (lit ''{}'')"
    using h hex hex_val_char by fastforce+
  have "remove_text (lit ''uuid:'') (remove_text (lit ''urn:'') ?h) = ?h"
    using no(1) by (simp add: remove_text_absent)
  moreover have "strip_braces ?h = ?h"
    unfolding strip_braces_def Let_def using dropWhile_none [OF no(2)] dropWhile_none [OF no(3)] by simp
  moreover have keep: "filter (\<lambda>c. c \<noteq> 45) t = t" if "set t \<subseteq> set s" for t
    using that hex hex_val_char by (auto simp: filter_id_conv)
  have "filter (\<lambda>c. c \<noteq> 45) ?h = take 8 s @ take 4 (drop 8 s) @ take 4 (drop 12 s) @ take 4 (drop 16 s) @ drop 20 s"
    by (simp add: hyphenated_def keep set_take_subset set_drop_subset
        order_trans [OF set_take_subset set_drop_subset])
  moreover have "drop k s = take 4 (drop k s) @ drop (k + 4) s" for k
    using append_take_drop_id [of 4 "drop k s"] by (simp add: add.commute)
  from this [of 8] this [of 12] this [of 16] have "take 4 (drop 8 s) @ take 4 (drop 12 s) @ take 4 (drop 16 s) @ drop 20 s = drop 8 s"
    by simp
  ultimately show ?thesis by (simp add: uuid_digits_def)
qed

text \<open>A session identifier that was accepted is accepted as it is.\<close>

lemma session_id_stable:
  assumes "validate_session_id allow v = Inr (Some i)"
  shows "validate_session_id allow' (PStr i) = Inr (Some i)" "i \<noteq> []" "validate_session_id False v = Inr (Some i)"
proof -
  from assms obtain raw where t: "v = PStr raw" "raw \<noteq> []" "uuid_text raw = Some i" "i = ascii_lower raw"
    by (auto simp: validate_session_id_def non_empty_string_def res_simps split: if_splits)
  let ?d = "ascii_lower (uuid_digits raw)"
  from t(3) have d: "length ?d = 32" "hex_text_of ?d" "i = hyphenated ?d"
    unfolding hex_text_lower by (auto simp: uuid_text_def Let_def ascii_lower_def hex_text_of_def split: if_splits)
  have idem: "ascii_lower (ascii_lower x) = ascii_lower x" for x by (simp add: ascii_lower_def)
  show i: "i \<noteq> []" using t(2,4) by (simp add: ascii_lower_def)
  have "uuid_text i = Some i"
    unfolding uuid_text_def d(3) hyphenated_digits [OF d(2)] using d(1,2) by (simp add: Let_def idem hex_text_of_def)
  moreover have "ascii_lower i = i" by (simp add: t(4) idem)
  ultimately show "validate_session_id allow' (PStr i) = Inr (Some i)"
    using i by (simp add: validate_session_id_def non_empty_string_def)
  show "validate_session_id False v = Inr (Some i)" using assms t(1) by (simp add: validate_session_id_def)
qed

section \<open>What is built is accepted\<close>

lemma session_payload_accepted:
  assumes "session_payload session values = Inr m" "validate_session_id False session = Inr (Some i)"
  shows "validate_session_payload (PDict m) i = Inr m"
proof -
  have "m = (PStr (lit ''session_id''), PStr i) # values" using assms by (auto simp: session_payload_def session_value_def)
  with session_id_stable(1) [OF assms(2)] show ?thesis
    by (simp add: validate_session_payload_def as_mapping_def dget_def)
qed

lemma completion_payload_accepted:
  assumes "completion_payload session ph values = Inr m" "validate_session_id False session = Inr (Some i)"
  shows "validate_completion_payload (PDict m) i ph = Inr m"
proof -
  have m: "session_payload session ((PStr (lit ''completion_phase''), PStr ph) # values) = Inr m"
    using assms(1) by (auto simp: completion_payload_def res_simps)
  then have "dget m (lit ''completion_phase'') = PStr ph"
    by (auto simp: session_payload_def res_simps dget_def)
  with session_payload_accepted [OF m assms(2)] show ?thesis by (simp add: validate_completion_payload_def)
qed

lemma failure_propagated:
  assumes "session = None \<or> validate_session_id False (session_value session) = Inr session"
    and "expected = None \<or> expected = session" "error_type \<noteq> []"
  shows "raise_remote_failure (PDict (failure_message session error_type detail)) expected
    = (if detail = [] then PairProtocolError else RemotePairFailure (error_type @ lit '': '' @ detail))"
proof -
  have "validate_session_id (expected = None) (session_value session) = Inr session" if "expected = None \<or> session \<noteq> None"
    using assms(1) that session_id_stable(1)
    by (cases session) (auto simp: validate_session_id_def session_value_def)
  moreover have "expected = None \<or> session \<noteq> None" using assms(2) by auto
  ultimately show ?thesis
    using assms(2,3) by (auto simp: raise_remote_failure_def failure_message_def as_mapping_def dget_def non_empty_string_def)
qed

lemma check_fields_ok: "(\<forall>k \<in> set ks. ok (dget d k)) \<Longrightarrow> check_fields ok d ks = Inr ()"
  by (induction ks) auto

lemma dget_selected: "k \<in> set names \<Longrightarrow> dget (List.map (\<lambda>k. (PStr k, dget d k)) names) k = dget d k"
  by (induction names) (auto simp: dget_def)

lemma metadata_accepted:
  assumes "session = None \<or> validate_session_id False (session_value session) = Inr session"
    and "expected = None \<or> expected = session" "version \<noteq> []" "path \<noteq> []"
    and "\<forall>k \<in> set platform_fields. named (dget platform k)" "\<forall>k \<in> set python_fields. named (dget python k)"
    and "\<forall>k \<in> {lit ''version'', lit ''build_id''}. named (dget suite k)" "\<forall>k \<in> set number_fields. positive_int (dget suite k)"
    and "list_all (\<lambda>kv. as_str (fst kv) \<noteq> None) caps" "m = metadata_message session platform python version path suite caps"
  shows "validate_metadata (PDict m) expected (session = None) = Inr m"
proof -
  have session: "validate_session_id (session = None) (session_value session) = Inr session"
    using assms(1) by (cases session) (auto simp: validate_session_id_def session_value_def)
  have fields: "check_fields named (List.map (\<lambda>k. (PStr k, dget platform k)) platform_fields) platform_fields = Inr ()"
    "check_fields named (List.map (\<lambda>k. (PStr k, dget python k)) python_fields) python_fields = Inr ()"
    "check_fields named suite [lit ''version'', lit ''build_id''] = Inr ()" "check_fields positive_int suite number_fields = Inr ()"
    by (rule check_fields_ok; use assms(5-8) dget_selected in \<open>simp del: lit_simps\<close>)+
  have m: "dget m (lit ''kind'') = PStr (lit ''metadata'')" "dget m (lit ''protocol_version'') = PInt PAIR_PROTOCOL_VERSION"
    "dget m (lit ''serializer_id'') = PStr PROTOCOL_ID" "dget m (lit ''session_id'') = session_value session"
    "dget m (lit ''platform'') = selected platform_fields platform" "dget m (lit ''python'') = selected python_fields python"
    "dget m (lit ''paqto'') = PDict [(PStr (lit ''version''), PStr version), (PStr (lit ''import_path''), PStr path)]"
    "dget m (lit ''compatibility_suite'') = PDict suite" "dget m (lit ''capabilities'') = PDict caps"
    by (simp_all add: assms(10) metadata_message_def dget_def)
  have paqto: "check_fields named [(PStr (lit ''version''), PStr version), (PStr (lit ''import_path''), PStr path)]
      [lit ''version'', lit ''import_path''] = Inr ()"
    using assms(3,4) by (intro check_fields_ok) (simp add: dget_def named_def)
  show ?thesis
    unfolding validate_metadata_def as_mapping_def pyval.case rbind.simps m selected_def session fields paqto
    using assms(2,9) by (auto simp: equals_int_def guard_def)
qed

section \<open>The server's side\<close>

datatype completion_message = CompletionRequest pyval | CompletionConfirmation pyval

fun receive_completion :: "completion_message \<Rightarrow> completion_state \<Rightarrow> (pair_error + metadata) \<times> completion_state" where
  "receive_completion (CompletionRequest data) s = accept_request data s"
| "receive_completion (CompletionConfirmation data) s = accept_confirmation data s"

text \<open>The messages that are accepted, in their order.\<close>

fun accepted_messages :: "completion_message list \<Rightarrow> completion_state \<Rightarrow> completion_message list" where
  "accepted_messages [] s = []"
| "accepted_messages (m # ms) s =
     (case receive_completion m s of
        (Inl e, s') \<Rightarrow> accepted_messages ms s' | (Inr d, s') \<Rightarrow> m # accepted_messages ms s')"

definition fresh_completion :: "pystr \<Rightarrow> completion_state" where
  "fresh_completion i = \<lparr>cs_session_id = i, request_received = False, confirmation_received = False\<rparr>"

text \<open>The reference: the first request for the session, and the first confirmation after it.\<close>

fun is_request :: "pystr \<Rightarrow> completion_message \<Rightarrow> bool" where
  "is_request i (CompletionRequest data) \<longleftrightarrow> isl (validate_completion_payload data i COMPLETION_REQUEST) = False"
| "is_request i m \<longleftrightarrow> False"

fun is_confirmation :: "pystr \<Rightarrow> completion_message \<Rightarrow> bool" where
  "is_confirmation i (CompletionConfirmation data) \<longleftrightarrow> isl (validate_completion_payload data i COMPLETION_CONFIRMATION) = False"
| "is_confirmation i m \<longleftrightarrow> False"

definition first_of :: "('a \<Rightarrow> bool) \<Rightarrow> 'a list \<Rightarrow> 'a list" where
  "first_of P ms = take 1 (dropWhile (\<lambda>m. \<not> P m) ms)"

definition after_first :: "('a \<Rightarrow> bool) \<Rightarrow> 'a list \<Rightarrow> 'a list" where
  "after_first P ms = drop 1 (dropWhile (\<lambda>m. \<not> P m) ms)"

abbreviation at_phase :: "pystr \<Rightarrow> bool \<Rightarrow> bool \<Rightarrow> completion_state" where
  "at_phase i r c \<equiv> \<lparr>cs_session_id = i, request_received = r, confirmation_received = c\<rparr>"

lemma waiting_for_request:
  "is_request i m \<Longrightarrow> \<exists>d. receive_completion m (at_phase i False False) = (Inr d, at_phase i True False)"
  "\<not> is_request i m \<Longrightarrow> \<exists>e. receive_completion m (at_phase i False False) = (Inl e, at_phase i False False)"
  by (cases m; force simp: accept_request_def accept_confirmation_def split: sum.splits)+

lemma waiting_for_confirmation:
  "is_confirmation i m \<Longrightarrow> \<exists>d. receive_completion m (at_phase i True False) = (Inr d, at_phase i True True)"
  "\<not> is_confirmation i m \<Longrightarrow> \<exists>e. receive_completion m (at_phase i True False) = (Inl e, at_phase i True False)"
  by (cases m; force simp: accept_request_def accept_confirmation_def split: sum.splits)+

lemma completed: "\<exists>e. receive_completion m (at_phase i True True) = (Inl e, at_phase i True True)"
  by (cases m; force simp: accept_request_def accept_confirmation_def split: sum.splits)

lemma accepted_after_confirmation: "accepted_messages ms (at_phase i True True) = []"
proof (induction ms)
  case (Cons m ms)
  with completed [of m i] show ?case by auto
qed simp

lemma accepted_after_request: "accepted_messages ms (at_phase i True False) = first_of (is_confirmation i) ms"
proof (induction ms)
  case (Cons m ms)
  show ?case
  proof (cases "is_confirmation i m")
    case True
    from waiting_for_confirmation(1) [OF this] True show ?thesis
      by (auto simp: first_of_def accepted_after_confirmation)
  next
    case False
    from waiting_for_confirmation(2) [OF this] False Cons show ?thesis by (auto simp: first_of_def)
  qed
qed (simp add: first_of_def)

lemma accepted_from_start: "accepted_messages ms (at_phase i False False)
    = first_of (is_request i) ms @ first_of (is_confirmation i) (after_first (is_request i) ms)"
proof (induction ms)
  case (Cons m ms)
  show ?case
  proof (cases "is_request i m")
    case True
    from waiting_for_request(1) [OF this] True show ?thesis
      by (auto simp: first_of_def after_first_def accepted_after_request)
  next
    case False
    from waiting_for_request(2) [OF this] False Cons show ?thesis by (auto simp: first_of_def after_first_def)
  qed
qed (simp add: first_of_def after_first_def)

section \<open>Properties\<close>

text \<open>C40 The state of the completion handshake is ordered. Of all the requests and confirmations that a
  \<open>ServerCompletionState\<close> is asked to accept, in whatever order and however malformed, it accepts
  exactly the first request that is well-formed for its session and the first such confirmation after
  it, and raises for every other; and what a client builds for the session, with the phase of a request
  or of a confirmation, is well-formed. This is the object alone: the server's handlers guard it further
  and ask it for a confirmation only once the reply of the request has been acknowledged.\<close>

theorem pair_completion_ordered:
  assumes "validate_session_id False session = Inr (Some i)"
  shows "accepted_messages ms (fresh_completion i)
      = first_of (is_request i) ms @ first_of (is_confirmation i) (after_first (is_request i) ms)
    \<and> (\<exists>m. completion_payload session COMPLETION_REQUEST values = Inr m \<and> is_request i (CompletionRequest (PDict m)))
    \<and> (\<exists>m. completion_payload session COMPLETION_CONFIRMATION values = Inr m
         \<and> is_confirmation i (CompletionConfirmation (PDict m)))"
proof -
  have "\<exists>m. completion_payload session ph values = Inr m \<and> validate_completion_payload (PDict m) i ph = Inr m"
    if "ph \<in> {COMPLETION_REQUEST, COMPLETION_CONFIRMATION}" for ph
  proof -
    have "\<exists>m. completion_payload session ph values = Inr m"
      using that assms by (auto simp: completion_payload_def session_payload_def)
    then show ?thesis using completion_payload_accepted [OF _ assms] by blast
  qed
  then have "\<exists>m. completion_payload session COMPLETION_REQUEST values = Inr m
      \<and> validate_completion_payload (PDict m) i COMPLETION_REQUEST = Inr m"
    "\<exists>m. completion_payload session COMPLETION_CONFIRMATION values = Inr m
      \<and> validate_completion_payload (PDict m) i COMPLETION_CONFIRMATION = Inr m" by simp_all
  then show ?thesis by (auto simp: fresh_completion_def accepted_from_start)
qed

theorem pair_completion_ordered_witness:
  "\<exists>m. completion_payload (PStr (lit ''00000000-0000-0000-0000-00000000000A'')) COMPLETION_REQUEST [] = Inr m
     \<and> accepted_messages [CompletionConfirmation (PDict m), CompletionRequest (PDict m), CompletionRequest (PDict m)]
         (fresh_completion (lit ''00000000-0000-0000-0000-00000000000a'')) = [CompletionRequest (PDict m)]"
proof -
  let ?i = "lit ''00000000-0000-0000-0000-00000000000a''" and ?v = "PStr (lit ''00000000-0000-0000-0000-00000000000A'')"
  have v: "validate_session_id False ?v = Inr (Some ?i)"
    by (simp add: validate_session_id_def non_empty_string_def uuid_text_def uuid_digits_def strip_braces_def
        hyphenated_def ascii_lower_def hex_val_def)
  from pair_completion_ordered [OF v] obtain m where m: "completion_payload ?v COMPLETION_REQUEST [] = Inr m"
      "is_request ?i (CompletionRequest (PDict m))" by blast
  moreover have "\<not> is_request ?i (CompletionConfirmation (PDict m))" "\<not> is_confirmation ?i (CompletionRequest (PDict m))" by simp_all
  ultimately show ?thesis
    using pair_completion_ordered [OF v, of "[CompletionConfirmation (PDict m), CompletionRequest (PDict m), CompletionRequest (PDict m)]"]
    by (intro exI [of _ m] conjI m(1)) (simp add: first_of_def after_first_def del: lit_simps is_request.simps is_confirmation.simps)
qed

text \<open>A failure whose exception has an empty text, like \<open>TimeoutError()\<close>, is not propagated as a
  failure: the other role rejects the message as malformed.\<close>

theorem silent_failure_rejected:
  "raise_remote_failure (PDict (failure_message None (lit ''TimeoutError'') [])) None = PairProtocolError"
  using failure_propagated [of None None "lit ''TimeoutError''" "[]"] by simp

end
