(* ===== verification/CompatSerializer.thy ===== *)
theory CompatSerializer
  imports Codecs PairProtocol
begin

text \<open>
  \<open>CompatibilityJsonSerializer\<close> (\<open>src/compatibility_tests/common/serializer.py\<close>), the serializer of
  the compatibility runs. Unlike the built-in ones it checks nothing: \<open>json.dumps\<close> and
  \<open>json.loads\<close> are called with their defaults, which write and read infinities and NaN, escape
  what is not ASCII and let the last of two equal member names win; the time of creation is not
  written, so that the message read back has a new one. The names of members are strings here, as
  in every message of the runs.

  The lemmas: it satisfies the contract \<open>message_codec\<close>, up to that time; and through it the
  messages of the completion handshake arrive as what was built.
\<close>

section \<open>Writing\<close>

fun number_text :: "pyrt \<Rightarrow> pyfloat \<Rightarrow> pystr" where
  "number_text rt (Finite q) = float_repr rt q"
| "number_text rt PosInf = lit ''Infinity''"
| "number_text rt NegInf = lit ''-Infinity''"
| "number_text rt NaN = lit ''NaN''"

text \<open>\<open>json.dumps\<close> with \<open>allow_nan\<close> and \<open>ensure_ascii\<close>, after the members have been sorted.\<close>

fun lenient_text :: "pyrt \<Rightarrow> nat \<Rightarrow> pyval \<Rightarrow> exn + pystr" where
  "lenient_text rt d (PFloat f) = Inr (number_text rt f)"
| "lenient_text rt d (PList vs) =
     (if d = 0 then Inl RecursionError
      else rbind (rmap (lenient_text rt (d - 1)) vs) (\<lambda>ts. Inr (91 # join_comma ts @ [93])))"
| "lenient_text rt d (PTuple vs) =
     (if d = 0 then Inl RecursionError
      else rbind (rmap (lenient_text rt (d - 1)) vs) (\<lambda>ts. Inr (91 # join_comma ts @ [93])))"
| "lenient_text rt d (PDict kvs) =
     (if d = 0 then Inl RecursionError
      else rbind (rmap (\<lambda>(k, v). rbind (key_text rt k) (\<lambda>kt. rbind (lenient_text rt (d - 1) v)
                    (\<lambda>t. Inr (str_text True kt @ 58 # t)))) kvs)
             (\<lambda>ts. Inr (123 # join_comma ts @ [125])))"
| "lenient_text rt d v = json_text rt True d v"

definition compat_fields :: "message \<Rightarrow> (pyval \<times> pyval) list" where
  "compat_fields m =
     [(PStr (lit ''payload''), payload m), (PStr (lit ''type''), msg_type m),
      (PStr (lit ''sender''), sender m), (PStr (lit ''recipient''), recipient m),
      (PStr (lit ''headers''), headers m), (PStr (lit ''id''), msg_id m),
      (PStr (lit ''reply_to''), reply_to m)]"

definition compat_serialize :: "pyrt \<Rightarrow> message \<Rightarrow> exn + bytes" where
  "compat_serialize rt m =
     rbind (sort_keys (PDict (compat_fields m))) (\<lambda>v.
     rbind (lenient_text rt (max_depth rt) v) (\<lambda>t. opt_res UnicodeError (utf8_encode t)))"

section \<open>Reading\<close>

text \<open>The default of \<open>json.loads\<close>: \<open>dict(pairs)\<close>.\<close>

definition plain_object :: "(pystr \<times> pyval) list \<Rightarrow> exn + pyval" where
  "plain_object pairs = Inr (PDict (fold (\<lambda>(k, v). dput (PStr k) v) pairs []))"

definition member :: "metadata \<Rightarrow> string \<Rightarrow> exn + pyval" where
  "member raw k = opt_res KeyError (map_of raw (PStr (lit k)))"

definition compat_deserialize :: "pyrt \<Rightarrow> int \<Rightarrow> bytes \<Rightarrow> exn + message" where
  "compat_deserialize rt now data =
     rbind (opt_res UnicodeError (utf8_decode data)) (\<lambda>text.
     rbind (json_loads rt plain_object float_constant text) (\<lambda>raw.
       (case raw of
          PDict kvs \<Rightarrow>
            rbind (member kvs ''payload'') (\<lambda>body.
            rbind (member kvs ''type'') (\<lambda>kind.
            rbind (member kvs ''sender'') (\<lambda>from.
            rbind (member kvs ''recipient'') (\<lambda>to.
            rbind (member kvs ''headers'') (\<lambda>hs.
            rbind (member kvs ''id'') (\<lambda>i.
            rbind (member kvs ''reply_to'') (\<lambda>reply.
              Inr \<lparr>payload = body, msg_type = kind, sender = from, recipient = to, headers = hs,
                   msg_id = i, created_at = PDateTime (utc_dt now), reply_to = reply\<rparr>)))))))
        | _ \<Rightarrow> Inl TypeError)))"

text \<open>\<open>now\<close> is the clock when a message is read.\<close>

definition compat_codec :: "pyrt \<Rightarrow> int \<Rightarrow> codec" where
  "compat_codec rt now = \<lparr>codec_id = PROTOCOL_ID,
     codec_serialize = (\<lambda>m. rbind (compat_serialize rt m) (\<lambda>b. Inr (PBytes b))),
     codec_deserialize = (\<lambda>b. rbind (compat_deserialize rt now b) (\<lambda>m. Inr (Some m)))\<rparr>"

section \<open>What is written is read back\<close>

lemma plain_object_distinct:
  "distinct (List.map fst ps) \<Longrightarrow> (\<forall>k \<in> fst ` set ps. PStr k \<notin> set (dkeys d)) \<Longrightarrow>
     fold (\<lambda>(k, v). dput (PStr k) v) ps d = d @ List.map (\<lambda>(k, v). (PStr k, v)) ps"
proof (induction ps arbitrary: d)
  case (Cons p ps)
  obtain k v where p: "p = (k, v)" by fastforce
  from Cons.prems p have "fold (\<lambda>(k, v). dput (PStr k) v) ps (d @ [(PStr k, v)])
      = (d @ [(PStr k, v)]) @ List.map (\<lambda>(k, v). (PStr k, v)) ps"
    by (intro Cons.IH) auto
  with Cons.prems p show ?case by (simp add: dput_new)
qed simp

interpretation plain: object_hook plain_object
  by unfold_locales (simp add: plain_object_def plain_object_distinct dict_of_def)

lemma lenient_text_eq: "json_ok rt True d v \<Longrightarrow> lenient_text rt d v = json_text rt True d v"
proof (induction rt d v rule: lenient_text.induct)
  case (1 rt d f)
  then show ?case by (cases f) auto
next
  case (2 rt d vs)
  then have "rmap (lenient_text rt (d - 1)) vs = rmap (json_text rt True (d - 1)) vs"
    by (intro rmap_cong refl) (auto simp: list_all_iff)
  then show ?case by simp
next
  case (4 rt d kvs)
  then have "lenient_text rt (d - 1) v = json_text rt True (d - 1) v" if "(k, v) \<in> set kvs" for k v
    using that by (fastforce simp: list_all_iff split: pyval.splits)
  then have "rmap (\<lambda>(k, v). rbind (key_text rt k) (\<lambda>kt. rbind (lenient_text rt (d - 1) v)
        (\<lambda>t. Inr (str_text True kt @ 58 # t)))) kvs
      = rmap (\<lambda>(k, v). rbind (key_text rt k) (\<lambda>kt. rbind (json_text rt True (d - 1) v)
        (\<lambda>t. Inr (str_text True kt @ 58 # t)))) kvs"
    by (intro rmap_cong refl) auto
  then show ?case by simp
qed simp_all

lemma py_eq_json_ok: "py_eq v w \<Longrightarrow> json_ok rt ascii d v \<Longrightarrow> json_ok rt ascii d w"
proof (induction arbitrary: d rule: py_eq.induct)
  case (eq_list vs ws)
  then show ?case by (fastforce simp: list_all_iff dest: list_all2_right)
next
  case (eq_dict kvs kws kws')
  let ?P = "\<lambda>v w. py_eq v w \<and> (\<forall>d. json_ok rt ascii d v \<longrightarrow> json_ok rt ascii d w)"
  have m: "list_all2 (\<lambda>kv kw. fst kv = fst kw \<and> ?P (snd kv) (snd kw)) kvs kws"
    using eq_dict(1) by (rule list.rel_mono_strong) blast
  note mem = py_eq_members [OF m eq_dict(2)]
  have "(case fst kw of PStr s \<Rightarrow> str_ok ascii s | _ \<Rightarrow> False) \<and> json_ok rt ascii (d - 1) (snd kw)"
    if "kw \<in> set kws'" for kw
    using mem(3) [OF that] eq_dict(3) by (auto simp: list_all_iff)
  then show ?case using eq_dict(3) mem(2) by (auto simp: list_all_iff)
qed simp_all

text \<open>Messages whose values the standard JSON of the run can carry.\<close>

definition compat_sendable :: "pyrt \<Rightarrow> message \<Rightarrow> bool" where
  "compat_sendable rt m \<longleftrightarrow> list_all (\<lambda>(k, v). json_ok rt True (max_depth rt - 1) v) (compat_fields m)"

lemma compat_text_read:
  assumes "json_ok rt True (max_depth rt) v" "sort_keys v = Inr w" "lenient_text rt (max_depth rt) w = Inr t"
    and "utf8_encode t = Some b"
  shows "rbind (opt_res UnicodeError (utf8_decode b)) (json_loads rt plain_object float_constant) = Inr w"
proof -
  from py_eq_json_ok [OF sort_keys_eq [OF assms(2)] assms(1)] have ok: "json_ok rt True (max_depth rt) w" .
  from ok obtain t' where "json_dumps rt True False w = Inr t'" "json_loads rt plain_object float_constant t' = Inr w"
    by (rule plain.json_loads_dumps)
  with assms(3) lenient_text_eq [OF ok] have "json_loads rt plain_object float_constant t = Inr w"
    by (simp add: json_dumps_def)
  with utf8_decode_encode [OF assms(4)] show ?thesis by simp
qed

lemma str_eq: "py_eq (PStr s) w \<longleftrightarrow> w = PStr s" "py_eq PNone w \<longleftrightarrow> w = PNone"
  by (auto elim: py_eq_atomE intro: eq_same)

text \<open>The fields that name the message and its peers.\<close>

definition well_addressed :: "message \<Rightarrow> bool" where
  "well_addressed m \<longleftrightarrow> as_str (msg_type m) \<noteq> None \<and> as_str (msg_id m) \<noteq> None \<and> optional_id (sender m)
     \<and> optional_id (recipient m) \<and> optional_id (reply_to m)"

lemma compat_reads_back:
  assumes "compat_serialize rt m = Inr b" "compat_sendable rt m" "well_addressed m"
  shows "\<exists>m'. compat_deserialize rt now b = Inr m' \<and> envelope_eq m m' \<and> created_at m' = PDateTime (utc_dt now)"
proof -
  from assms(1) obtain w t where w: "sort_keys (PDict (compat_fields m)) = Inr w"
      and t: "lenient_text rt (max_depth rt) w = Inr t" "utf8_encode t = Some b"
    by (auto simp: compat_serialize_def res_simps)
  have eq: "py_eq (PDict (compat_fields m)) w" using w by (rule sort_keys_eq)
  then obtain kws where kws: "w = PDict kws" by (auto elim: py_eq_dictE)
  have dist: "distinct (dkeys (compat_fields m))" by (simp add: compat_fields_def)
  have "0 < max_depth rt" using t(1) by (auto simp: kws split: if_splits)
  with assms(2) dist have "json_ok rt True (max_depth rt) (PDict (compat_fields m))"
    by (simp add: compat_sendable_def compat_fields_def str_ok_def scalar_def surrogate_def)
  from compat_text_read [OF this w t] have read:
    "rbind (opt_res UnicodeError (utf8_decode b)) (json_loads rt plain_object float_constant) = Inr (PDict kws)"
    by (simp add: kws)
  have get: "\<exists>x. member kws k = Inr x \<and> py_eq v x" if "map_of (compat_fields m) (PStr (lit k)) = Some v" for k v
    using py_eq_lookup [OF eq [unfolded kws] dist that] by (auto simp: member_def)
  obtain p h where ph: "member kws ''payload'' = Inr p" "py_eq (payload m) p" "member kws ''headers'' = Inr h" "py_eq (headers m) h"
    using get [of "''payload''" "payload m"] get [of "''headers''" "headers m"] by (auto simp: compat_fields_def)
  have ids: "member kws ''sender'' = Inr (sender m)" "member kws ''recipient'' = Inr (recipient m)"
      "member kws ''reply_to'' = Inr (reply_to m)"
    using get [of "''sender''" "sender m"] get [of "''recipient''" "recipient m"] get [of "''reply_to''" "reply_to m"]
      assms(3) optional_id_eq by (auto simp: compat_fields_def well_addressed_def)
  have strs: "member kws ''type'' = Inr (msg_type m)" "member kws ''id'' = Inr (msg_id m)"
    using get [of "''type''" "msg_type m"] get [of "''id''" "msg_id m"] assms(3)
    by (auto simp: compat_fields_def well_addressed_def str_eq)
  let ?m = "\<lparr>payload = p, msg_type = msg_type m, sender = sender m, recipient = recipient m, headers = h,
      msg_id = msg_id m, created_at = PDateTime (utc_dt now), reply_to = reply_to m\<rparr>"
  have "compat_deserialize rt now b = Inr ?m"
    using read by (auto simp: compat_deserialize_def res_simps ph(1,3) ids strs)
  moreover have "envelope_eq m ?m" using ph(2,4) by (cases m) (simp add: envelope_eq_def)
  ultimately show ?thesis by (intro exI [of _ ?m]) simp
qed

interpretation compat: message_codec "compat_codec rt now" "\<lambda>m. compat_sendable rt m \<and> well_addressed m"
    "\<lambda>m m'. envelope_eq m m' \<and> created_at m' = PDateTime (utc_dt now)" for rt now
proof
  fix m v assume "codec_serialize (compat_codec rt now) m = Inr v" "compat_sendable rt m \<and> well_addressed m"
  then show "\<exists>b m'. v = PBytes b \<and> codec_deserialize (compat_codec rt now) b = Inr (Some m')
      \<and> envelope_eq m m' \<and> created_at m' = PDateTime (utc_dt now)"
    using compat_reads_back by (force simp: compat_codec_def res_simps)
qed simp

section \<open>The handshake over the serializer\<close>

lemma prepare_message_now: "prepare_message (compat_codec rt now) = prepare_message (compat_codec rt now')"
  by (simp add: prepare_message_def fun_eq_iff compat_codec_def)

lemma prepared_well_addressed: "prepare_message cd c m require_ack n = Inr (frame, ack, s) \<Longrightarrow> well_addressed m"
  by (auto simp: prepare_message_def validate_message_def validate_message_shape_def well_addressed_def res_simps
      elim!: rbind_InrE)

lemma dget_equal: "py_eq (PDict d) (PDict d') \<Longrightarrow> distinct (dkeys d) \<Longrightarrow> dget d k = PStr t \<Longrightarrow> dget d' k = PStr t"
  by (fastforce simp: dget_def str_eq split: option.splits dest: py_eq_lookup)

text \<open>The session and the phase are all that a role reads of such a payload.\<close>

lemma completion_payload_fields:
  assumes "completion_payload session ph values = Inr d" "validate_session_id False session = Inr (Some i)"
  shows "dget d (lit ''session_id'') = PStr i" "dget d (lit ''completion_phase'') = PStr ph"
  using assms by (auto simp: completion_payload_def session_payload_def session_value_def res_simps dget_def)

lemma completion_payload_judged:
  assumes "dget d (lit ''session_id'') = PStr i" "dget d (lit ''completion_phase'') = PStr ph"
    and "validate_session_id False (PStr i) = Inr (Some i)"
  shows "validate_completion_payload (PDict d) j ph' = (if j = i \<and> ph' = ph then Inr d else Inl PairProtocolError)"
  using assms by (simp add: validate_completion_payload_def validate_session_payload_def as_mapping_def guard_def)

text \<open>C15 The handshake crosses the network: a message of the completion handshake, built for a session and
  sent by one role's node with the serializer of the compatibility runs, arrives at the other role's
  session as a message whose payload holds the same members, and the other role accepts that payload for
  exactly the session and the phase it was built for.\<close>

theorem completion_crosses:
  assumes "completion_payload session ph values = Inr d" "validate_session_id False session = Inr (Some i)"
    and "distinct (dkeys d)" "payload m = PDict d" "compat_sendable rt m"
    and "prepare_message (compat_codec rt now) c m require_ack n = Inr (frame, ack, s)"
    and "session_max_message_size s' = session_max_message_size s"
    and "sender m = PStr (session_peer_id s')" "recipient m = PNone \<or> recipient m = PStr local_id"
  shows "\<exists>data m' d'. decode_session_frame rt (PBytes frame) (session_max_message_size s') = Inr (ApplicationData data)
    \<and> accept_message (compat_codec rt now') local_id s' data = Inr m' \<and> payload m' = PDict d' \<and> py_eq (PDict d) (PDict d')
    \<and> (\<forall>j ph'. validate_completion_payload (payload m') j ph'
         = (if j = i \<and> ph' = ph then Inr d' else Inl PairProtocolError))"
proof -
  have "prepare_message (compat_codec rt now') c m require_ack n = Inr (frame, ack, s)"
    using assms(6) prepare_message_now by metis
  from compat.delivered [OF this conjI [OF assms(5) prepared_well_addressed [OF this]] assms(7-9)] obtain data m' where
    m': "decode_session_frame rt (PBytes frame) (session_max_message_size s') = Inr (ApplicationData data)"
      "accept_message (compat_codec rt now') local_id s' data = Inr m'" "py_eq (PDict d) (payload m')"
    using assms(4) unfolding envelope_eq_def by metis
  then obtain d' where d': "payload m' = PDict d'" by (auto elim: py_eq_dictE)
  note fields = completion_payload_fields [OF assms(1,2)]
  have "dget d' (lit ''session_id'') = PStr i" "dget d' (lit ''completion_phase'') = PStr ph"
    using dget_equal [OF m'(3) [unfolded d'] assms(3)] fields by blast+
  from completion_payload_judged [OF this session_id_stable(1) [OF assms(2)]] m' d' show ?thesis by auto
qed

theorem completion_crosses_witness:
  "\<exists>m frame n s data m'.
     prepare_message (compat_codec plain_rt 0) 3 m (PBool False) n = Inr (frame, False, s)
     \<and> decode_session_frame plain_rt (PBytes frame) (session_max_message_size s) = Inr (ApplicationData data)
     \<and> accept_message (compat_codec plain_rt 7) (lit ''a'') ((example_session (lit ''b''))\<lparr>session_max_message_size := 1000\<rparr>) data = Inr m'
     \<and> validate_completion_payload (payload m') (lit ''00000000-0000-0000-0000-00000000000a'') COMPLETION_REQUEST \<noteq> Inl PairProtocolError"
proof -
  let ?i = "lit ''00000000-0000-0000-0000-00000000000a''"
  let ?d = "[(PStr (lit ''session_id''), PStr ?i), (PStr (lit ''completion_phase''), PStr COMPLETION_REQUEST)]"
  let ?m = "new_message (lit ''b'') (PStr (lit ''a'')) (PDict ?d) (PStr (lit ''t'')) (PDict []) (PStr (lit ''m''))
    (PDateTime example_time) PNone"
  let ?s = "(example_session (lit ''a''))\<lparr>session_max_message_size := 1000\<rparr>"
  let ?s' = "(example_session (lit ''b''))\<lparr>session_max_message_size := 1000\<rparr>"
  let ?n = "ready_node\<lparr>sessions := [(3, ?s)]\<rparr>" and ?cd = "compat_codec plain_rt 0"
  have i: "validate_session_id False (PStr ?i) = Inr (Some ?i)"
    by (simp add: validate_session_id_def non_empty_string_def uuid_text_def uuid_digits_def strip_braces_def
        hyphenated_def ascii_lower_def hex_val_def)
  have d: "completion_payload (PStr ?i) COMPLETION_REQUEST [] = Inr ?d"
    using i by (simp add: completion_payload_def session_payload_def session_value_def del: lit_simps)
  have "\<exists>b. compat_serialize plain_rt ?m = Inr b \<and> length b < 1000"
    by (simp add: compat_serialize_def compat_fields_def sort_members_def sort_key_def json_eval new_message_def
        COMPLETION_REQUEST_def utf8_encode_def utf8_char_def)
  then obtain b where b: "compat_serialize plain_rt ?m = Inr b" "length b < 1000" by blast
  let ?f = "APPLICATION_FRAME # b"
  have prep: "prepare_message ?cd 3 ?m (PBool False) ?n = Inr (?f, False, ?s)"
    using b by (subst prepare_message_eq)
      (simp add: compat_codec_def new_message_def validate_message_def validate_message_shape_def str_map_def optional_id_def)
  have fits: "compat_sendable plain_rt ?m"
    by (simp add: compat_sendable_def compat_fields_def new_message_def str_ok_def scalar_def surrogate_def
        COMPLETION_REQUEST_def plain_rt_def)
  have "\<exists>data m' d'. decode_session_frame plain_rt (PBytes ?f) (session_max_message_size ?s') = Inr (ApplicationData data)
      \<and> accept_message (compat_codec plain_rt 7) (lit ''a'') ?s' data = Inr m' \<and> payload m' = PDict d' \<and> py_eq (PDict ?d) (PDict d')
      \<and> (\<forall>j ph'. validate_completion_payload (payload m') j ph'
           = (if j = ?i \<and> ph' = COMPLETION_REQUEST then Inr d' else Inl PairProtocolError))"
    by (rule completion_crosses [OF d i _ _ fits prep]) (simp_all add: new_message_def example_session_def)
  then obtain data m' where m': "decode_session_frame plain_rt (PBytes ?f) (session_max_message_size ?s') = Inr (ApplicationData data)"
      "accept_message (compat_codec plain_rt 7) (lit ''a'') ?s' data = Inr m'"
      "validate_completion_payload (payload m') ?i COMPLETION_REQUEST \<noteq> Inl PairProtocolError"
    by (metis Inr_not_Inl)
  have "session_max_message_size ?s' = session_max_message_size ?s" by simp
  with prep m' show ?thesis by metis
qed

end
