(* ===== verification/Reports.thy ===== *)
theory Reports
  imports PairProtocol LanSecurity
begin

text \<open>
  Running checks and reporting their results: \<open>common/models.py\<close>, \<open>common/reporting.py\<close>,
  \<open>common/platform_info.py\<close>, \<open>common/package_info.py\<close>, the runner and the table of checks of
  \<open>solo\<close>, and \<open>run.py\<close>, all under \<open>src/compatibility_tests\<close>. What the checks themselves do is
  given by their outcomes, with the time each took; the descriptions of the interpreter and of the
  machine, the clock, \<open>str.casefold\<close> and the rounding of floats are arguments. That importing the
  table of checks may itself fail, which \<open>execute_solo_sync\<close> reports like any other failure of the
  bootstrap, is left out.

  The lemmas: the totals of a report count its results; which exit code a run ends with; and the
  file names of reports contain no separators.
\<close>

section \<open>Results\<close>

datatype check_status = PASS | FAIL | SKIP | UNAVAILABLE

fun status_value :: "check_status \<Rightarrow> pystr" where
  "status_value PASS = lit ''PASS''"
| "status_value FAIL = lit ''FAIL''"
| "status_value SKIP = lit ''SKIP''"
| "status_value UNAVAILABLE = lit ''UNAVAILABLE''"

text \<open>
  The exceptions of the harness: those of the library and the built-in ones, the two of the pair
  protocol, and its own. A raised one carries the name of its class and its text.
\<close>

datatype harness_exn =
    LibraryExc exn
  | PairExc pair_error
  | CapabilityUnavailable
  | CompletionWorkflowError

record raised =
  exc_class :: harness_exn
  exc_name :: pystr
  exc_text :: pystr

text \<open>\<open>except Exception\<close> and \<open>except CapabilityUnavailable\<close>\<close>

fun is_exception :: "harness_exn \<Rightarrow> bool" where
  "is_exception (LibraryExc e) = exn_isa e ExceptionClass"
| "is_exception c = True"

record check =
  check_id :: pystr
  check_category :: pystr
  check_description :: pystr
  run_profiles :: "pystr list"
  required_profiles :: "pystr list"

record check_result =
  result_id :: pystr
  category :: pystr
  description :: pystr
  status :: check_status
  required :: bool
  duration_ms :: rat
  detail :: pystr

definition as_dict :: "(rat \<Rightarrow> rat) \<Rightarrow> check_result \<Rightarrow> pyval" where
  "as_dict round3 r = PDict
     [(PStr (lit ''id''), PStr (result_id r)), (PStr (lit ''category''), PStr (category r)),
      (PStr (lit ''description''), PStr (description r)), (PStr (lit ''status''), PStr (status_value (status r))),
      (PStr (lit ''required''), PBool (required r)), (PStr (lit ''duration_ms''), PFloat (Finite (round3 (duration_ms r)))),
      (PStr (lit ''detail''), PStr (detail r))]"

definition overall_status :: "check_result list \<Rightarrow> pystr" where
  "overall_status rs =
     (if list_ex (\<lambda>r. status r = FAIL) rs then lit ''FAIL''
      else if list_ex (\<lambda>r. required r \<and> status r \<in> {SKIP, UNAVAILABLE}) rs then lit ''INCOMPLETE''
      else lit ''PASS'')"

definition count_status :: "check_status \<Rightarrow> check_result list \<Rightarrow> nat" where
  "count_status st rs = length (filter (\<lambda>r. status r = st) rs)"

definition tests_payload :: "(rat \<Rightarrow> rat) \<Rightarrow> check_result list \<Rightarrow> pyval" where
  "tests_payload round3 rs = PDict
     [(PStr (lit ''passed''), PInt (int (count_status PASS rs))), (PStr (lit ''failed''), PInt (int (count_status FAIL rs))),
      (PStr (lit ''skipped''), PInt (int (count_status SKIP rs))),
      (PStr (lit ''unavailable''), PInt (int (count_status UNAVAILABLE rs))),
      (PStr (lit ''total''), PInt (int (length rs))), (PStr (lit ''results''), PList (List.map (as_dict round3) rs))]"

definition exit_code :: "pyval \<Rightarrow> int" where
  "exit_code st = (if st = PStr (lit ''PASS'') then 0 else if st = PStr (lit ''INCOMPLETE'') then 2 else 1)"

section \<open>File names\<close>

text \<open>\<open>re.sub\<close> with the class of lower case letters and digits: every other run becomes one hyphen.\<close>

definition slug_char :: "nat \<Rightarrow> bool" where
  "slug_char c \<longleftrightarrow> 97 \<le> c \<and> c \<le> 122 \<or> is_digit c"

fun collapse :: "bool \<Rightarrow> pystr \<Rightarrow> pystr" where
  "collapse inside [] = []"
| "collapse inside (c # s) =
     (if slug_char c then c # collapse False s else if inside then collapse True s else 45 # collapse True s)"

definition strip_hyphens :: "pystr \<Rightarrow> pystr" where
  "strip_hyphens s = rev (dropWhile (\<lambda>c. c = 45) (rev (dropWhile (\<lambda>c. c = 45) s)))"

definition slug :: "(pystr \<Rightarrow> pystr) \<Rightarrow> pystr \<Rightarrow> pystr" where
  "slug casefold v =
     (let s = strip_hyphens (collapse False (casefold v)) in if s = [] then lit ''unknown'' else s)"

text \<open>
  \<open>default_report_path\<close> without the directory. \<open>timestamp\<close> is the formatted time, \<open>version\<close> the numbers
  of the interpreter's version, a scenario and a role are absent in a solo run.
\<close>

fun joined :: "pystr list \<Rightarrow> pystr" where
  "joined [] = []"
| "joined [p] = p"
| "joined (p # ps) = p @ 95 # joined ps"

definition default_report_name ::
    "(pystr \<Rightarrow> pystr) \<Rightarrow> pystr \<Rightarrow> pystr \<Rightarrow> pystr \<Rightarrow> int list \<Rightarrow> pystr \<Rightarrow> pystr \<Rightarrow> pystr \<Rightarrow> pystr" where
  "default_report_name casefold timestamp os_family architecture version mode scenario role =
     joined ([timestamp, slug casefold os_family, slug casefold architecture,
              lit ''python'' @ concat (List.map int_text (take 2 version)), mode]
             @ (if scenario = [] then [] else [scenario]) @ (if role = [] then [] else [role])) @ lit ''.json''"

section \<open>Platform and package\<close>

record platform_probe =
  probe_system :: pystr
  probe_release :: pystr
  probe_machine :: pystr
  probe_sys_platform :: pystr
  android_api_level :: "int option"
  android_environment :: bool

definition starts_with :: "pystr \<Rightarrow> pystr \<Rightarrow> bool" where
  "starts_with p s \<longleftrightarrow> take (length p) s = p"

definition classify_os :: "(pystr \<Rightarrow> pystr) \<Rightarrow> platform_probe \<Rightarrow> pystr \<times> pystr list" where
  "classify_os casefold p =
     (let system = casefold (probe_system p);
          sys_platform = casefold (probe_sys_platform p);
          evidence = (if android_api_level p \<noteq> None then [lit ''sys.getandroidapilevel''] else [])
            @ (if starts_with (lit ''android'') sys_platform then [lit ''sys.platform''] else [])
            @ (if system = lit ''android'' then [lit ''platform.system''] else [])
            @ (if system = lit ''linux'' \<and> android_environment p then [lit ''Android runtime environment''] else [])
      in if evidence \<noteq> [] then (lit ''Android'', evidence)
         else if system = lit ''windows'' \<or> starts_with (lit ''win'') sys_platform
           then (lit ''Windows'', [lit ''platform/system runtime''])
         else if system = lit ''darwin'' \<or> sys_platform = lit ''darwin'' then (lit ''macOS'', [lit ''Darwin runtime''])
         else if system = lit ''linux'' \<or> starts_with (lit ''linux'') sys_platform then (lit ''Linux'', [lit ''Linux runtime''])
         else (lit ''Other'', [lit ''unrecognized standard-library values'']))"

definition collect_platform_info :: "(pystr \<Rightarrow> pystr) \<Rightarrow> platform_probe \<Rightarrow> metadata" where
  "collect_platform_info casefold p =
     (case classify_os casefold p of (family, evidence) \<Rightarrow>
        [(PStr (lit ''os_family''), PStr family), (PStr (lit ''kernel_system''), PStr (probe_system p)),
         (PStr (lit ''release''), PStr (probe_release p)), (PStr (lit ''architecture''), PStr (probe_machine p)),
         (PStr (lit ''sys_platform''), PStr (probe_sys_platform p)),
         (PStr (lit ''detection_evidence''), PList (List.map PStr evidence))]
        @ (case android_api_level p of None \<Rightarrow> [] | Some l \<Rightarrow> [(PStr (lit ''android_api_level''), PInt l)]))"

definition has_metadata :: "metadata \<Rightarrow> bool" where
  "has_metadata package =
     (case dget package (lit ''distribution'') of PDict d \<Rightarrow> py_truth (dget d (lit ''available'')) | _ \<Rightarrow> False)"

definition is_installed :: "metadata \<Rightarrow> bool" where
  "is_installed package \<longleftrightarrow> \<not> py_truth (dget package (lit ''repository_source'')) \<and> has_metadata package"

definition installation_warning :: "metadata \<Rightarrow> pystr option" where
  "installation_warning package =
     (if py_truth (dget package (lit ''repository_source'')) then
        Some (lit ''Paqto is imported from this repository's src/paqto tree. ''
          @ lit ''Use --require-installed to reject editable/source imports when ''
          @ lit ''validating a wheel installation.'')
      else if \<not> has_metadata package then Some (lit ''Paqto distribution metadata is unavailable for this import.'')
      else None)"

section \<open>The solo run\<close>

text \<open>\<open>outcome\<close> is what \<open>await check.function()\<close> gives, \<open>took\<close> the milliseconds until then.\<close>

definition run_check :: "pystr \<Rightarrow> check \<Rightarrow> raised + pystr option \<Rightarrow> rat \<Rightarrow> raised + check_result" where
  "run_check profile c outcome took =
     (let res = (\<lambda>st ms text. \<lparr>result_id = check_id c, category = check_category c,
            description = check_description c, status = st, required = (profile \<in> set (required_profiles c)),
            duration_ms = ms, detail = text\<rparr>) in
      if profile \<notin> set (run_profiles c) then
        Inr (res SKIP 0 (lit ''not selected by '' @ 39 # profile @ 39 # lit '' profile''))
      else (case outcome of
          Inl e \<Rightarrow>
            if exc_class e = CapabilityUnavailable then Inr (res UNAVAILABLE took (exc_text e))
            else if is_exception (exc_class e) then Inr (res FAIL took (exc_name e @ lit '': '' @ exc_text e))
            else Inl e
        | Inr text \<Rightarrow>
            Inr (res PASS took (case text of None \<Rightarrow> lit ''passed'' | Some t \<Rightarrow> if t = [] then lit ''passed'' else t))))"

type_synonym check_run = "check \<times> (raised + pystr option) \<times> rat"

definition run_suite :: "pystr \<Rightarrow> check_run list \<Rightarrow> raised + check_result list" where
  "run_suite profile runs = rmap (\<lambda>(c, outcome, took). run_check profile c outcome took) runs"

definition make_check :: "string \<Rightarrow> string \<Rightarrow> string \<Rightarrow> pystr list \<Rightarrow> pystr list \<Rightarrow> check" where
  "make_check i cat desc run req = \<lparr>check_id = lit i, check_category = lit cat, check_description = lit desc,
     run_profiles = run, required_profiles = req\<rparr>"

definition both_profiles :: "pystr list" where "both_profiles = [lit ''ci'', lit ''full'']"

text \<open>The table without its functions.\<close>

definition CHECKS :: "check list" where
  "CHECKS =
     [make_check ''core.import_python'' ''core'' ''package import and supported Python'' both_profiles both_profiles,
      make_check ''core.serializer_router'' ''core'' ''serializer and router public APIs'' both_profiles both_profiles,
      make_check ''capability.ipv4'' ''capability'' ''IPv4 TCP loopback capability'' both_profiles both_profiles,
      make_check ''capability.udp_ipv4'' ''capability'' ''IPv4 UDP loopback capability'' both_profiles both_profiles,
      make_check ''capability.ipv6'' ''capability'' ''IPv6 Paqto TCP path and UDP loopback capability'' both_profiles [],
      make_check ''tcp.framing_reconnect'' ''tcp'' ''listener, connection, frames, disconnect, reconnect''
        both_profiles both_profiles,
      make_check ''discovery.broadcast'' ''discovery'' ''real local IPv4 UDP broadcast discovery''
        [lit ''full''] [lit ''full''],
      make_check ''tls.high_level'' ''tls'' ''TLS with high-level custom trust'' both_profiles both_profiles,
      make_check ''tls.context_mtls_identity'' ''tls'' ''injected contexts, mTLS, identity binding'' both_profiles both_profiles,
      make_check ''messaging.operations'' ''messaging'' ''send/request/reply/ACK/concurrency/timeouts/cancellation''
        both_profiles both_profiles,
      make_check ''lifecycle.restart_refresh_cleanup'' ''lifecycle'' ''restart, network change, cleanup''
        both_profiles both_profiles,
      make_check ''limits.frames'' ''limits'' ''transport and protocol frame limits'' both_profiles both_profiles,
      make_check ''limits.pending_requests'' ''limits'' ''pending request admission'' both_profiles both_profiles,
      make_check ''limits.queues'' ''limits'' ''bounded queue admission'' both_profiles both_profiles]"

definition aggregate :: "check_result list \<Rightarrow> pystr list \<Rightarrow> pyval" where
  "aggregate rs ids =
     (let chosen = filter (\<lambda>r. result_id r \<in> set ids) rs; seen = (\<lambda>st. list_ex (\<lambda>r. status r = st) chosen) in
      PDict [(PStr (lit ''status''), PStr (status_value
                (if seen FAIL then FAIL else if seen UNAVAILABLE then UNAVAILABLE else if seen PASS then PASS else SKIP))),
             (PStr (lit ''checks''), PList (List.map (PStr \<circ> result_id) chosen)),
             (PStr (lit ''detail''), PList (List.map (PStr \<circ> detail) chosen))])"

definition capability_checks :: "(pystr \<times> pystr list) list" where
  "capability_checks =
     [(lit ''ipv4'', [lit ''capability.ipv4'', lit ''capability.udp_ipv4'']), (lit ''ipv6'', [lit ''capability.ipv6'']),
      (lit ''tcp_ipv4'', [lit ''capability.ipv4'', lit ''tcp.framing_reconnect'']),
      (lit ''udp_ipv4'', [lit ''capability.udp_ipv4'']), (lit ''tcp_ipv6'', [lit ''capability.ipv6'']),
      (lit ''udp_ipv6'', [lit ''capability.ipv6'']), (lit ''local_broadcast_discovery'', [lit ''discovery.broadcast'']),
      (lit ''no_discovery'', [lit ''messaging.operations'', lit ''lifecycle.restart_refresh_cleanup'']),
      (lit ''tls'', [lit ''tls.high_level'', lit ''tls.context_mtls_identity'']),
      (lit ''custom_ca'', [lit ''tls.high_level'']), (lit ''in_memory_ca'', [lit ''tls.high_level'']),
      (lit ''ssl_context_injection'', [lit ''tls.context_mtls_identity'']),
      (lit ''mtls'', [lit ''tls.context_mtls_identity'']),
      (lit ''strict_peer_identity'', [lit ''tls.context_mtls_identity''])]"

definition SCHEMA_VERSION :: int where "SCHEMA_VERSION = 3"

text \<open>What a report says beside the results.\<close>

record report_env =
  round_ms :: "rat \<Rightarrow> rat"
  generated_at :: pystr
  platform_info :: metadata
  python_info :: metadata
  suite_info :: metadata

definition warnings_of :: "metadata \<Rightarrow> pyval" where
  "warnings_of package = PList (case installation_warning package of None \<Rightarrow> [] | Some w \<Rightarrow> [PStr w])"

definition build_report :: "report_env \<Rightarrow> pystr \<Rightarrow> check_result list \<Rightarrow> metadata \<Rightarrow> metadata" where
  "build_report env profile rs package =
     [(PStr (lit ''schema_version''), PInt SCHEMA_VERSION), (PStr (lit ''generated_at''), PStr (generated_at env)),
      (PStr (lit ''mode''), PStr (lit ''solo'')), (PStr (lit ''profile''), PStr profile),
      (PStr (lit ''status''), PStr (overall_status rs)), (PStr (lit ''platform''), PDict (platform_info env)),
      (PStr (lit ''python''), PDict (python_info env)), (PStr (lit ''paqto''), PDict package),
      (PStr (lit ''paqto_version''), case map_of package (PStr (lit ''version'')) of
         None \<Rightarrow> PStr (lit ''unknown'') | Some v \<Rightarrow> v),
      (PStr (lit ''compatibility_suite''), PDict (suite_info env)),
      (PStr (lit ''capabilities''), PDict (List.map (\<lambda>(name, ids). (PStr name, aggregate rs ids)) capability_checks)),
      (PStr (lit ''tests''), tests_payload (round_ms env) rs),
      (PStr (lit ''durations''), PDict [(PStr (lit ''total_ms''),
         PFloat (Finite (round_ms env (sum_list (List.map duration_ms rs)))))]),
      (PStr (lit ''warnings''), warnings_of package)]"

definition provenance_result :: "metadata \<Rightarrow> check_result" where
  "provenance_result package =
     \<lparr>result_id = lit ''package.require_installed'', category = lit ''core'',
      description = lit ''Paqto is imported from an installed distribution'',
      status = (if is_installed package then PASS else FAIL), required = True, duration_ms = 0,
      detail = (if is_installed package
        then lit ''Paqto import is outside the repository source tree and distribution metadata is available''
        else lit ''Paqto is a repository-source import or has no distribution metadata'')\<rparr>"

text \<open>\<open>package\<close> is the outcome of \<open>collect_package_info\<close>.\<close>

definition execute_solo ::
    "report_env \<Rightarrow> pystr \<Rightarrow> bool \<Rightarrow> raised + metadata \<Rightarrow> check_run list \<Rightarrow> raised + metadata \<times> check_result list" where
  "execute_solo env profile require_installed package runs =
     rbind package (\<lambda>p. rbind (run_suite profile runs) (\<lambda>rs.
       let all = (if require_installed then rs @ [provenance_result p] else rs) in
       Inr (build_report env profile all p, all)))"

definition bootstrap_result :: "raised \<Rightarrow> check_result" where
  "bootstrap_result e = \<lparr>result_id = lit ''suite.bootstrap'', category = lit ''core'',
     description = lit ''load compatibility checks and Paqto'', status = FAIL, required = True, duration_ms = 0,
     detail = exc_name e @ lit '': '' @ exc_text e\<rparr>"

definition unavailable_package :: metadata where
  "unavailable_package =
     [(PStr (lit ''version''), PStr (lit ''unknown'')), (PStr (lit ''import_path''), PNone),
      (PStr (lit ''import_origin''), PStr (lit ''unavailable'')), (PStr (lit ''repository_source''), PBool False),
      (PStr (lit ''distribution''), PDict [(PStr (lit ''available''), PBool False)])]"

definition execute_solo_sync ::
    "report_env \<Rightarrow> pystr \<Rightarrow> bool \<Rightarrow> raised + metadata \<Rightarrow> check_run list \<Rightarrow> raised + metadata \<times> check_result list" where
  "execute_solo_sync env profile require_installed package runs =
     (case execute_solo env profile require_installed package runs of
        Inr r \<Rightarrow> Inr r
      | Inl e \<Rightarrow>
          if is_exception (exc_class e)
          then Inr (build_report env profile [bootstrap_result e] unavailable_package, [bootstrap_result e])
          else Inl e)"

text \<open>\<open>main\<close> in solo mode: the report it writes and the process's exit code.\<close>

definition solo_main ::
    "report_env \<Rightarrow> pystr \<Rightarrow> bool \<Rightarrow> raised + metadata \<Rightarrow> check_run list \<Rightarrow> raised + metadata \<times> int" where
  "solo_main env profile require_installed package runs =
     rbind (execute_solo_sync env profile require_installed package runs) (\<lambda>(report, rs).
       Inr (report, exit_code (dget report (lit ''status''))))"

section \<open>Totals and file names\<close>

lemma counts_total:
  "count_status PASS rs + count_status FAIL rs + count_status SKIP rs + count_status UNAVAILABLE rs = length rs"
proof (induction rs)
  case (Cons r rs)
  then show ?case by (cases "status r") (auto simp: count_status_def)
qed (simp add: count_status_def)

definition name_char :: "nat \<Rightarrow> bool" where
  "name_char c \<longleftrightarrow> slug_char c \<or> c = 45"

lemma collapse_chars: "c \<in> set (collapse inside s) \<Longrightarrow> name_char c"
  by (induction inside s rule: collapse.induct) (auto simp: name_char_def split: if_splits)

lemma strip_hyphens_set: "set (strip_hyphens s) \<subseteq> set s"
proof -
  have drop: "set (dropWhile (\<lambda>c. c = 45) t) \<subseteq> set t" for t :: pystr by (blast dest: set_dropWhileD)
  from drop [of "rev (dropWhile (\<lambda>c. c = 45) s)"] have "set (strip_hyphens s) \<subseteq> set (dropWhile (\<lambda>c. c = 45) s)"
    unfolding strip_hyphens_def set_rev .
  then show ?thesis using drop [of s] by (rule order_trans)
qed

lemma strip_hyphens_ends: "strip_hyphens s \<noteq> [] \<Longrightarrow> hd (strip_hyphens s) \<noteq> 45 \<and> last (strip_hyphens s) \<noteq> 45"
proof -
  let ?t = "dropWhile (\<lambda>c. c = 45) s"
  let ?u = "dropWhile (\<lambda>c. c = 45) (rev ?t)"
  assume "strip_hyphens s \<noteq> []"
  then have u: "?u \<noteq> []" by (simp add: strip_hyphens_def)
  then have "?t \<noteq> []" by (metis dropWhile.simps(1) rev.simps(1))
  then have "hd ?t \<noteq> 45" by (rule hd_dropWhile)
  moreover have "last ?u = hd ?t"
    using u \<open>?t \<noteq> []\<close> by (metis dropWhile_append1 dropWhile_eq_Nil_conv hd_rev last_appendR last_rev rev_rev_ident
        self_append_conv2 takeWhile_dropWhile_id)
  moreover have "hd ?u \<noteq> 45" using u by (rule hd_dropWhile)
  ultimately show ?thesis using u by (simp add: strip_hyphens_def hd_rev last_rev)
qed

lemma slug_text:
  "slug casefold v \<noteq> []" "list_all name_char (slug casefold v)"
  "hd (slug casefold v) \<noteq> 45 \<and> last (slug casefold v) \<noteq> 45"
  using strip_hyphens_set [of "collapse False (casefold v)"] collapse_chars [of _ False "casefold v"]
    strip_hyphens_ends [of "collapse False (casefold v)"]
  by (auto simp: slug_def Let_def list_all_iff name_char_def slug_char_def)

section \<open>Exit codes\<close>

definition check_failed :: "pystr \<Rightarrow> check_run \<Rightarrow> bool" where
  "check_failed profile r \<longleftrightarrow> (case r of (c, outcome, took) \<Rightarrow>
     profile \<in> set (run_profiles c) \<and> (case outcome of Inl e \<Rightarrow> exc_class e \<noteq> CapabilityUnavailable | Inr t \<Rightarrow> False))"

definition check_missing :: "pystr \<Rightarrow> check_run \<Rightarrow> bool" where
  "check_missing profile r \<longleftrightarrow> (case r of (c, outcome, took) \<Rightarrow>
     profile \<in> set (required_profiles c) \<and> (profile \<notin> set (run_profiles c)
       \<or> (case outcome of Inl e \<Rightarrow> exc_class e = CapabilityUnavailable | Inr t \<Rightarrow> False)))"

definition interrupted :: "check_run \<Rightarrow> bool" where
  "interrupted r \<longleftrightarrow> (case r of (c, outcome, took) \<Rightarrow>
     (case outcome of Inl e \<Rightarrow> \<not> is_exception (exc_class e) | Inr t \<Rightarrow> False))"

lemma run_check_result:
  assumes "\<not> interrupted (c, outcome, took)"
  shows "\<exists>r. run_check profile c outcome took = Inr r \<and> (status r = FAIL \<longleftrightarrow> check_failed profile (c, outcome, took))
    \<and> (required r \<and> status r \<in> {SKIP, UNAVAILABLE} \<longleftrightarrow> check_missing profile (c, outcome, took))"
  using assms by (cases outcome)
    (auto simp: run_check_def check_failed_def check_missing_def interrupted_def Let_def)

lemma run_suite_results:
  assumes "\<forall>r \<in> set runs. \<not> interrupted r"
  shows "\<exists>rs. run_suite profile runs = Inr rs \<and> (list_ex (\<lambda>r. status r = FAIL) rs \<longleftrightarrow> list_ex (check_failed profile) runs)
    \<and> (list_ex (\<lambda>r. required r \<and> status r \<in> {SKIP, UNAVAILABLE}) rs \<longleftrightarrow> list_ex (check_missing profile) runs)"
  using assms
proof (induction runs)
  case (Cons x runs)
  obtain c outcome took where x: "x = (c, outcome, took)" by (cases x) auto
  from Cons obtain rs where rs: "run_suite profile runs = Inr rs" "list_ex (\<lambda>r. status r = FAIL) rs \<longleftrightarrow> list_ex (check_failed profile) runs"
      "list_ex (\<lambda>r. required r \<and> status r \<in> {SKIP, UNAVAILABLE}) rs \<longleftrightarrow> list_ex (check_missing profile) runs" by auto
  from Cons.prems run_check_result [of c outcome took profile] obtain r where
    "run_check profile c outcome took = Inr r" "status r = FAIL \<longleftrightarrow> check_failed profile x"
    "required r \<and> status r \<in> {SKIP, UNAVAILABLE} \<longleftrightarrow> check_missing profile x" unfolding x by auto
  with rs show ?case by (intro exI [of _ "r # rs"]) (auto simp: run_suite_def x)
qed (simp add: run_suite_def)

lemma report_status: "dget (build_report env profile rs package) (lit ''status'') = PStr (overall_status rs)"
  by (simp add: build_report_def dget_def)

lemma exit_code_overall: "exit_code (PStr (overall_status rs))
    = (if list_ex (\<lambda>r. status r = FAIL) rs then 1
       else if list_ex (\<lambda>r. required r \<and> status r \<in> {SKIP, UNAVAILABLE}) rs then 2 else 0)"
  by (simp add: overall_status_def exit_code_def)

text \<open>C39 The exit code of a solo run says what happened: when no check is interrupted, it is 1 if a check of the
  profile failed, the installation was demanded and missing, or the package could not be described; otherwise
  2 if a check the profile requires was skipped or its capability unavailable; and 0 if neither.\<close>

theorem solo_exit_code:
  assumes "\<forall>r \<in> set runs. \<not> interrupted r" "\<forall>e. package = Inl e \<longrightarrow> is_exception (exc_class e)"
  shows "\<exists>report. solo_main env profile demanded package runs = Inr (report,
     if list_ex (check_failed profile) runs \<or> isl package \<or> demanded \<and> \<not> is_installed (projr package) then 1
     else if list_ex (check_missing profile) runs then 2 else 0)"
proof (cases package)
  case (Inl e)
  with assms(2) show ?thesis
    by (auto simp: solo_main_def execute_solo_sync_def execute_solo_def report_status exit_code_overall bootstrap_result_def
        simp del: lit_simps)
next
  case (Inr p)
  from run_suite_results [OF assms(1), of profile] obtain rs where rs: "run_suite profile runs = Inr rs"
      "list_ex (\<lambda>r. status r = FAIL) rs \<longleftrightarrow> list_ex (check_failed profile) runs"
      "list_ex (\<lambda>r. required r \<and> status r \<in> {SKIP, UNAVAILABLE}) rs \<longleftrightarrow> list_ex (check_missing profile) runs" by blast
  then show ?thesis
    by (simp add: solo_main_def execute_solo_sync_def execute_solo_def Inr report_status exit_code_overall
        provenance_result_def Let_def del: lit_simps)
qed

text \<open>A full run in which only the optional IPv6 check finds its capability unavailable.\<close>

theorem solo_exit_code_witness:
  "\<forall>env. \<exists>report. solo_main env (lit ''full'') False (Inr [])
     (List.map (\<lambda>c. (c, if check_id c = lit ''capability.ipv6''
        then Inl \<lparr>exc_class = CapabilityUnavailable, exc_name = [], exc_text = lit ''no IPv6''\<rparr> else Inr None, 1)) CHECKS)
     = Inr (report, 0)"
proof (rule allI, goal_cases)
  case (1 env)
  let ?runs = "List.map (\<lambda>c. (c, if check_id c = lit ''capability.ipv6''
    then Inl \<lparr>exc_class = CapabilityUnavailable, exc_name = [], exc_text = lit ''no IPv6''\<rparr> else Inr None, 1 :: rat)) CHECKS"
  have "\<forall>r \<in> set ?runs. \<not> interrupted r" by (auto simp: interrupted_def)
  from solo_exit_code [OF this, of "Inr []" env "lit ''full''" False] obtain report where
    r: "solo_main env (lit ''full'') False (Inr []) ?runs = Inr (report,
      if list_ex (check_failed (lit ''full'')) ?runs \<or> False then 1
      else if list_ex (check_missing (lit ''full'')) ?runs then 2 else 0)" by auto
  have "\<not> list_ex (check_failed (lit ''full'')) ?runs" by (auto simp: list_ex_iff check_failed_def)
  moreover have "\<not> list_ex (check_missing (lit ''full'')) ?runs"
    by (simp add: CHECKS_def make_check_def both_profiles_def check_missing_def)
  ultimately show ?case using r by auto
qed

end
