(* ===== verification/PairRun.thy ===== *)
theory PairRun
  imports Reports Outbound
begin

text \<open>
  What both roles of a pair run share (\<open>src/compatibility_tests/pair/runner.py\<close>, and the command
  line of \<open>run.py\<close> they are configured by): the configuration, the recorder of results, the
  inspection of a READY connection, the search for the remote peer, the final cleanup, and
  \<open>execute_pair\<close> with its report. Exceptions are values of \<open>raised\<close>; the texts of the pair
  protocol's exceptions, which \<open>PairProtocol\<close> leaves out, the names and texts of those of the library,
  the digest of a text and the error that encoding it gives are arguments.

  The lemmas: the recorder keeps one result per identifier, the first one unless a later one fails;
  the locale \<open>pair_role\<close> states what a role's coroutine has recorded when it returns, and concludes
  what the exit code 0 of its process means.
\<close>

section \<open>Configuration\<close>

record cli_args =
  arg_role :: pystr
  arg_scenario :: pystr
  arg_target :: "pystr option"
  arg_bind :: pystr
  arg_advertise :: "pystr option"
  arg_port :: int
  arg_timeout :: pyfloat
  arg_discovery_port :: int
  arg_broadcast :: pystr
  arg_keep_alive :: bool
  arg_require_installed :: bool

record pair_config =
  cfg_role :: pystr
  cfg_scenario :: pystr
  cfg_target :: "pystr option"
  cfg_bind :: pystr
  cfg_advertise :: pystr
  cfg_port :: int
  cfg_timeout :: pyfloat
  cfg_discovery_port :: int
  cfg_broadcast :: pystr
  cfg_keep_alive :: bool
  cfg_require_installed :: bool

fun not_positive :: "pyfloat \<Rightarrow> bool" where
  "not_positive (Finite q) = (q \<le> 0)"
| "not_positive NegInf = True"
| "not_positive f = False"

definition given :: "pystr option \<Rightarrow> bool" where
  "given v \<longleftrightarrow> v \<noteq> None \<and> v \<noteq> Some []"

text \<open>\<open>_pair_config\<close>; \<open>parser.error\<close> ends the process with its text.\<close>

definition make_pair_config :: "cli_args \<Rightarrow> pystr + pair_config" where
  "make_pair_config a =
     (let wildcard = (arg_bind a \<in> {lit ''0.0.0.0'', lit ''::''}) in
      rbind (guard (1 \<le> arg_port a \<and> arg_port a \<le> 65535) (lit ''--port must be between 1 and 65535'')) (\<lambda>_.
      rbind (guard (1 \<le> arg_discovery_port a \<and> arg_discovery_port a \<le> 65535)
        (lit ''--discovery-port must be between 1 and 65535'')) (\<lambda>_.
      rbind (guard (\<not> not_positive (arg_timeout a)) (lit ''--timeout must be positive'')) (\<lambda>_.
      rbind (guard (\<not> (arg_scenario a = lit ''direct'' \<and> arg_role a = lit ''client'' \<and> \<not> given (arg_target a)))
        (lit ''pair direct --role client requires --target'')) (\<lambda>_.
      rbind (guard (\<not> (arg_scenario a = lit ''discovery'' \<and> wildcard \<and> \<not> given (arg_advertise a)))
        (lit ''pair discovery with a wildcard --bind requires --advertise'')) (\<lambda>_.
        Inr \<lparr>cfg_role = arg_role a, cfg_scenario = arg_scenario a, cfg_target = arg_target a, cfg_bind = arg_bind a,
             cfg_advertise = (case arg_advertise a of Some (c # s) \<Rightarrow> c # s
               | _ \<Rightarrow> if wildcard then lit ''127.0.0.1'' else arg_bind a),
             cfg_port = arg_port a, cfg_timeout = arg_timeout a, cfg_discovery_port = arg_discovery_port a,
             cfg_broadcast = arg_broadcast a, cfg_keep_alive = arg_keep_alive a,
             cfg_require_installed = arg_require_installed a\<rparr>))))))"

definition local_peer_id :: "pair_config \<Rightarrow> pystr" where
  "local_peer_id c = (if cfg_role c = lit ''server'' then lit ''node-b'' else lit ''node-a'')"

definition remote_peer_id :: "pair_config \<Rightarrow> pystr" where
  "remote_peer_id c = (if cfg_role c = lit ''server'' then lit ''node-a'' else lit ''node-b'')"

text \<open>\<open>min(15.0, timeout)\<close>: the first argument unless the second is smaller, so NaN gives 15.\<close>

definition operation_timeout :: "pair_config \<Rightarrow> pyfloat" where
  "operation_timeout c = (case cfg_timeout c of
     Finite q \<Rightarrow> Finite (if q < 15 then q else 15) | NegInf \<Rightarrow> NegInf | _ \<Rightarrow> Finite 15)"

section \<open>Raising\<close>

record pair_env = report_env +
  config_of :: pair_config
  local_paqto :: metadata
  protocol_text :: "pair_error \<Rightarrow> pystr"
  sha256_hex :: "bytes \<Rightarrow> pystr"
  encode_text :: "pystr \<Rightarrow> pystr"
  timeout_text :: pystr
  library_text :: "exn \<Rightarrow> pystr \<times> pystr"

definition assertion :: "string \<Rightarrow> raised" where
  "assertion text = \<lparr>exc_class = LibraryExc AssertionError, exc_name = lit ''AssertionError'', exc_text = lit text\<rparr>"

definition type_error :: "string \<Rightarrow> raised" where
  "type_error text = \<lparr>exc_class = LibraryExc TypeError, exc_name = lit ''TypeError'', exc_text = lit text\<rparr>"

definition protocol_error :: "pystr \<Rightarrow> raised" where
  "protocol_error text = \<lparr>exc_class = PairExc PairProtocolError, exc_name = lit ''PairProtocolError'', exc_text = text\<rparr>"

definition remote_failure :: "pystr \<Rightarrow> raised" where
  "remote_failure text = \<lparr>exc_class = PairExc (RemotePairFailure text), exc_name = lit ''RemotePairFailure'', exc_text = text\<rparr>"

definition unavailable :: "pystr \<Rightarrow> raised" where
  "unavailable text = \<lparr>exc_class = CapabilityUnavailable, exc_name = lit ''CapabilityUnavailable'', exc_text = text\<rparr>"

definition workflow_error :: "pystr \<Rightarrow> raised" where
  "workflow_error text = \<lparr>exc_class = CompletionWorkflowError, exc_name = lit ''CompletionWorkflowError'', exc_text = text\<rparr>"

definition library_raised :: "pair_env \<Rightarrow> exn \<Rightarrow> raised" where
  "library_raised env e = \<lparr>exc_class = LibraryExc e, exc_name = fst (library_text env e), exc_text = snd (library_text env e)\<rparr>"

definition pair_raised :: "pair_env \<Rightarrow> pair_error \<Rightarrow> raised" where
  "pair_raised env e = (case e of
     PairProtocolError \<Rightarrow> protocol_error (protocol_text env e) | RemotePairFailure t \<Rightarrow> remote_failure t)"

definition pair_result :: "pair_env \<Rightarrow> pair_error + 'a \<Rightarrow> raised + 'a" where
  "pair_result env r = (case r of Inl e \<Rightarrow> Inl (pair_raised env e) | Inr x \<Rightarrow> Inr x)"

text \<open>\<open>isinstance\<close> with a class of the library\<close>

fun library_isa :: "harness_exn \<Rightarrow> exn \<Rightarrow> bool" where
  "library_isa (LibraryExc e) c = exn_isa e c"
| "library_isa (PairExc PairProtocolError) c = exn_isa ValueError c"
| "library_isa _ c = exn_isa RuntimeError c"

section \<open>The recorder\<close>

record recorder =
  rec_results :: "check_result list"
  rec_ids :: "pystr set"

definition new_recorder :: recorder where
  "new_recorder = \<lparr>rec_results = [], rec_ids = {}\<rparr>"

text \<open>The loop of \<open>add\<close> over the results: the first one of this identifier that has not failed is replaced.\<close>

fun replace_result :: "check_result \<Rightarrow> check_result list \<Rightarrow> check_result list" where
  "replace_result x [] = []"
| "replace_result x (r # rs) =
     (if result_id r = result_id x \<and> status r \<noteq> FAIL then x # rs else r # replace_result x rs)"

definition recorder_add :: "check_result \<Rightarrow> recorder \<Rightarrow> recorder" where
  "recorder_add x r =
     (if result_id x \<in> rec_ids r then
        (if status x = FAIL then r\<lparr>rec_results := replace_result x (rec_results r)\<rparr> else r)
      else r\<lparr>rec_ids := insert (result_id x) (rec_ids r), rec_results := rec_results r @ [x]\<rparr>)"

text \<open>The arguments of \<open>add\<close> as the result it makes: the category is the identifier up to its first dot.\<close>

definition entry :: "pystr \<Rightarrow> pystr \<Rightarrow> check_status \<Rightarrow> pystr \<Rightarrow> bool \<Rightarrow> check_result" where
  "entry i desc st text req = \<lparr>result_id = i, category = takeWhile (\<lambda>c. c \<noteq> 46) i, description = desc, status = st,
     required = req, duration_ms = 0, detail = text\<rparr>"

definition passed :: "string \<Rightarrow> string \<Rightarrow> string \<Rightarrow> recorder \<Rightarrow> recorder" where
  "passed i desc text = recorder_add (entry (lit i) (lit desc) PASS (lit text) True)"

abbreviation passed_plain :: "string \<Rightarrow> string \<Rightarrow> recorder \<Rightarrow> recorder" where
  "passed_plain i desc \<equiv> passed i desc ''passed''"

definition has_failure :: "recorder \<Rightarrow> bool" where
  "has_failure r \<longleftrightarrow> list_ex (\<lambda>x. status x = FAIL) (rec_results r)"

section \<open>Connections and metadata\<close>

text \<open>
  \<open>_identity_from_test_uri\<close>: the first URI of the certificate's \<open>subjectAltName\<close> with the prefix. The
  certificate is the pairs of kind and value; other shapes do not come from \<open>getpeercert\<close>.
\<close>

definition TEST_IDENTITY_PREFIX :: pystr where "TEST_IDENTITY_PREFIX = lit ''urn:test:peer:''"

fun identity_from_test_uri :: "(pystr \<times> pystr) list \<Rightarrow> pystr option" where
  "identity_from_test_uri [] = None"
| "identity_from_test_uri ((kind, v) # alts) =
     (if kind = lit ''URI'' \<and> starts_with TEST_IDENTITY_PREFIX v then Some (drop (length TEST_IDENTITY_PREFIX) v)
      else identity_from_test_uri alts)"

definition run_metadata :: "pair_env \<Rightarrow> pystr option \<Rightarrow> raised + metadata" where
  "run_metadata env session =
     (case nonempty_str (dget (local_paqto env) (lit ''import_path'')) of
        None \<Rightarrow> Inl (protocol_error (lit ''local Paqto import path is unavailable''))
      | Some path \<Rightarrow> Inr (metadata_message session (platform_info env) (python_info env)
          (case dget (local_paqto env) (lit ''version'') of PStr v \<Rightarrow> v | _ \<Rightarrow> lit ''unknown'') path (suite_info env)
          (List.map (\<lambda>k. (PStr (lit k), PBool True)) [''tcp'', ''tls'', ''mtls'', ''strict_peer_identity''])))"

text \<open>What a role sees of a connection: its session, with the identity of the object, and its security.\<close>

record ready_view =
  view_conn :: conn
  view_session :: "(protocol_session \<times> nat) option"
  view_security :: security_info

definition inspect_ready :: "ready_view \<Rightarrow> pystr \<Rightarrow> bool \<Rightarrow> recorder \<Rightarrow> (raised + nat) \<times> recorder" where
  "inspect_ready v expected again r =
     (case view_session v of
        None \<Rightarrow> (Inl (assertion ''connection has no READY session for the expected peer''), r)
      | Some (s, obj) \<Rightarrow>
          if session_peer_id s \<noteq> expected then
            (Inl (assertion ''connection has no READY session for the expected peer''), r)
          else if \<not> encrypted (view_security v) then (Inl (assertion ''pair connection is not encrypted''), r)
          else if \<not> authenticated (view_security v) then
            (Inl (assertion ''pair connection is not mutually authenticated''), r)
          else if authenticated_peer_id (view_security v) \<noteq> Some expected then
            (Inl (assertion ''certificate identity does not match the remote peer id''), r)
          else if \<not> peer_id_authenticated s then
            (Inl (assertion ''READY session is not strictly bound to TLS identity''), r)
          else (Inr obj,
            if again then
              passed ''lifecycle.new_handshake'' ''new Paqto handshake after disconnect''
                ''fresh connection negotiated a distinct READY session''
                (passed ''lifecycle.new_tls_session'' ''new TLS/mTLS connection after disconnect''
                  ''fresh connection completed TLS and mutual certificate authentication'' r)
            else
              passed_plain ''protocol.ready'' ''Paqto READY session''
                (passed_plain ''protocol.handshake'' ''Paqto protocol handshake''
                (passed_plain ''security.identity'' ''authenticated peer identity binding''
                (passed_plain ''security.mtls'' ''mutual TLS authentication''
                (passed_plain ''security.tls'' ''TLS encryption and CA validation''
                (passed_plain ''network.tcp'' ''TCP connection'' r)))))))"

section \<open>Finding the other role\<close>

text \<open>
  \<open>_discover_remote\<close>. One round is the time that remains of the deadline and the outcome of
  \<open>node.discover\<close>; the budgets of the two awaits, \<open>min(1.5, remaining)\<close> and \<open>min(0.2, remaining)\<close>,
  shape these inputs only. The value is \<open>None\<close> while the rounds given do not end the loop.
\<close>

fun of_remote :: "pystr \<Rightarrow> pystr \<Rightarrow> discovered_peer list \<Rightarrow> (raised + discovered_peer) option" where
  "of_remote i transport [] = None"
| "of_remote i transport (d # ds) =
     (if peer_ident (disc_peer d) \<noteq> i then of_remote i transport ds
      else if endpoint_for transport (endpoints d) = None
        then Some (Inl (unavailable (lit ''remote discovery announcement has no LAN endpoint'')))
      else Some (Inr d))"

definition not_discovered :: "pair_env \<Rightarrow> raised" where
  "not_discovered env = unavailable (lit ''cross-device broadcast did not discover '' @ 39 # remote_peer_id (config_of env)
     @ 39 # lit '' within '' @ timeout_text env @ lit ''s'')"

fun discover_remote ::
    "pair_env \<Rightarrow> (rat \<times> (raised + discovered_peer list)) list \<Rightarrow> (raised + discovered_peer) option" where
  "discover_remote env [] = None"
| "discover_remote env ((remaining, outcome) # rounds) =
     (if remaining \<le> 0 then Some (Inl (not_discovered env))
      else (case outcome of
          Inl e \<Rightarrow>
            if library_isa (exc_class e) DiscoveryError \<or> library_isa (exc_class e) PaqtoTimeoutError
            then discover_remote env rounds else Some (Inl e)
        | Inr ds \<Rightarrow>
            (case of_remote (remote_peer_id (config_of env)) TRANSPORT_NAME ds of
               Some r \<Rightarrow> Some r | None \<Rightarrow> discover_remote env rounds)))"

text \<open>\<open>_start_node\<close>: the exception that leaves it.\<close>

definition start_failure :: "pair_env \<Rightarrow> raised \<Rightarrow> raised" where
  "start_failure env e =
     (if library_isa (exc_class e) DiscoveryError \<and> cfg_scenario (config_of env) = lit ''discovery''
      then unavailable (lit ''LAN broadcast discovery could not start: '' @ exc_text e) else e)"

section \<open>Completion and cleanup\<close>

definition failure_detail :: "pystr \<Rightarrow> raised \<Rightarrow> pystr" where
  "failure_detail stage e =
     (if library_isa (exc_class e) RequestTimeoutError
        then stage @ lit '' timed out while waiting for its correlated reply: '' @ exc_text e
      else if library_isa (exc_class e) RequestError
        then lit ''connection was lost during '' @ stage @ lit '': '' @ exc_text e
      else if exc_class e = PairExc PairProtocolError then stage @ lit '' payload was invalid: '' @ exc_text e
      else stage @ lit '' failed with '' @ exc_name e @ lit '': '' @ exc_text e)"

definition record_completion_failure ::
    "string \<Rightarrow> string \<Rightarrow> string \<Rightarrow> raised \<Rightarrow> recorder \<Rightarrow> raised \<times> recorder" where
  "record_completion_failure i desc stage e r =
     (let text = failure_detail (lit stage) e in
      (workflow_error text, recorder_add (entry (lit i) (lit desc) FAIL text True) r))"

text \<open>\<open>_assert_clean\<close> over the counters of a node; its text shows the dictionary of those that are not zero.\<close>

definition counters :: "node \<Rightarrow> (string \<times> nat) list" where
  "counters n =
     [(''active connections'', active_connection_count n), (''pending requests'', pending_request_count n),
      (''pending acknowledgements'', pending_acknowledgement_count n), (''reconnect tasks'', reconnect_task_count n),
      (''heartbeat tasks'', heartbeat_task_count n), (''inbound queue'', inbound_queue_size n),
      (''outbound queue'', outbound_queue_size n)]"

fun members_text :: "(string \<times> nat) list \<Rightarrow> pystr" where
  "members_text [] = []"
| "members_text [(k, v)] = 39 # lit k @ 39 # 58 # 32 # nat_digits v"
| "members_text ((k, v) # kvs) = 39 # lit k @ 39 # 58 # 32 # nat_digits v @ 44 # 32 # members_text kvs"

definition assert_clean :: "node \<Rightarrow> raised + unit" where
  "assert_clean n =
     (let leaked = filter (\<lambda>(k, v). v \<noteq> 0) (counters n) in
      if leaked = [] then Inr ()
      else Inl \<lparr>exc_class = LibraryExc AssertionError, exc_name = lit ''AssertionError'',
        exc_text = lit ''Paqto resources remain after stop: '' @ 123 # members_text leaked @ [125]\<rparr>)"

text \<open>\<open>_stop_and_record\<close>, after \<open>await node.stop()\<close>: its exception, or the node it leaves.\<close>

definition stop_and_record :: "raised + node \<Rightarrow> recorder \<Rightarrow> (raised + unit) \<times> recorder" where
  "stop_and_record stopped r =
     (case rbind stopped assert_clean of
        Inl e \<Rightarrow> (Inl e,
          if is_exception (exc_class e)
          then recorder_add (entry (lit ''lifecycle.cleanup'') (lit ''final task/socket/correlation cleanup'') FAIL
            (lit ''cleanup failed with '' @ exc_name e @ lit '': '' @ exc_text e) True) r
          else r)
      | Inr _ \<Rightarrow> (Inr (), passed_plain ''lifecycle.cleanup'' ''final task/socket/correlation cleanup'' r))"

text \<open>The \<open>finally\<close> clause of a role: its own exception replaces the outcome of the body.\<close>

definition finally_stop :: "raised + unit \<Rightarrow> raised + node \<Rightarrow> recorder \<Rightarrow> (raised + unit) \<times> recorder" where
  "finally_stop res stopped r =
     (case stop_and_record stopped r of (Inl e, r') \<Rightarrow> (Inl e, r') | (Inr _, r') \<Rightarrow> (res, r'))"

section \<open>Running a role\<close>

definition build_pair_report ::
    "pair_env \<Rightarrow> pystr option \<Rightarrow> metadata option \<Rightarrow> check_result list \<Rightarrow> rat \<Rightarrow> metadata" where
  "build_pair_report env session remote rs took =
     (let loc = PDict [(PStr (lit ''platform''), PDict (platform_info env)), (PStr (lit ''python''), PDict (python_info env)),
        (PStr (lit ''paqto''), PDict (local_paqto env)), (PStr (lit ''compatibility_suite''), PDict (suite_info env)),
        (PStr (lit ''capabilities''), PDict (List.map (\<lambda>k. (PStr (lit k), PBool True))
           [''tcp'', ''tls'', ''mtls'', ''strict_peer_identity'']))] in
      [(PStr (lit ''schema_version''), PInt SCHEMA_VERSION), (PStr (lit ''generated_at''), PStr (generated_at env)),
       (PStr (lit ''mode''), PStr (lit ''pair'')), (PStr (lit ''scenario''), PStr (cfg_scenario (config_of env))),
       (PStr (lit ''role''), PStr (cfg_role (config_of env))), (PStr (lit ''session_id''), session_value session),
       (PStr (lit ''status''), PStr (overall_status rs)), (PStr (lit ''local''), loc),
       (PStr (lit ''remote''), case remote of None \<Rightarrow> PNone | Some m \<Rightarrow> PDict m),
       (PStr (lit ''compatibility_suite''), PDict (suite_info env)), (PStr (lit ''tests''), tests_payload (round_ms env) rs),
       (PStr (lit ''capabilities''), PDict (fold (\<lambda>r. dput (PStr (result_id r)) (PDict
          [(PStr (lit ''status''), PStr (status_value (status r))), (PStr (lit ''detail''), PStr (detail r))])) rs [])),
       (PStr (lit ''durations''), PDict [(PStr (lit ''total_ms''), PFloat (Finite (round_ms env took)))]),
       (PStr (lit ''warnings''), warnings_of (local_paqto env))])"

text \<open>
  \<open>execute_pair\<close> before the role: the recorder it starts with, and whether it is run at all.
\<close>

definition pair_begin :: "pair_env \<Rightarrow> bool \<times> recorder" where
  "pair_begin env =
     (if \<not> cfg_require_installed (config_of env) then (True, new_recorder)
      else if \<not> is_installed (local_paqto env) then
        (False, recorder_add (entry (lit ''package.require_installed'') (lit ''Paqto installed-package provenance'') FAIL
           (lit ''Paqto is a repository-source import or lacks distribution metadata'') True) new_recorder)
      else (True, passed_plain ''package.require_installed'' ''Paqto installed-package provenance'' new_recorder))"

text \<open>The boundary after it: what the role's coroutine returned or raised.\<close>

definition pair_results :: "raised + unit \<Rightarrow> recorder \<Rightarrow> raised + recorder" where
  "pair_results res r =
     (case res of
        Inr _ \<Rightarrow> Inr r
      | Inl e \<Rightarrow>
          if exc_class e = CapabilityUnavailable then
            Inr (recorder_add (entry (lit ''pair.execution'') (lit ''requested pair scenario'') UNAVAILABLE (exc_text e) True) r)
          else if \<not> is_exception (exc_class e) then Inl e
          else Inr (if has_failure r then r else recorder_add (entry (lit ''pair.execution'') (lit ''requested pair scenario'')
             FAIL (exc_name e @ lit '': '' @ exc_text e) True) r))"

text \<open>
  \<open>main\<close> in pair mode: the report that is written, if one is, and the exit code. What leaves
  \<open>asyncio.run\<close> is the interruption by the keyboard. A role that \<open>pair_begin\<close> does not run counts as
  returned.
\<close>

definition pair_main ::
    "pair_env \<Rightarrow> pystr option \<Rightarrow> metadata option \<Rightarrow> rat \<Rightarrow> raised + unit \<Rightarrow> recorder \<Rightarrow> metadata option \<times> int" where
  "pair_main env session remote took res r =
     (case pair_results res r of
        Inl e \<Rightarrow> (None, 130)
      | Inr r' \<Rightarrow>
          (let report = build_pair_report env session remote (rec_results r') took in
           (Some report, exit_code (dget report (lit ''status'')))))"

section \<open>What the recorder keeps\<close>

definition recorder_ok :: "recorder \<Rightarrow> bool" where
  "recorder_ok r \<longleftrightarrow> distinct (List.map result_id (rec_results r)) \<and> rec_ids r = result_id ` set (rec_results r)"

lemma replace_result_eq:
  "distinct (List.map result_id rs) \<Longrightarrow>
     replace_result x rs = List.map (\<lambda>r. if result_id r = result_id x \<and> status r \<noteq> FAIL then x else r) rs"
proof (induction rs)
  case (Cons r rs)
  then show ?case by (auto intro!: map_idI [symmetric]) (metis image_eqI)
qed simp

lemma replace_result_ids: "List.map result_id (replace_result x rs) = List.map result_id rs"
  by (induction rs) auto

lemma recorder_add_ok: "recorder_ok r \<Longrightarrow> recorder_ok (recorder_add x r)"
  by (auto simp: recorder_ok_def recorder_add_def replace_result_ids simp flip: set_map)

lemma recorder_add_ids: "rec_ids (recorder_add x r) = insert (result_id x) (rec_ids r)"
  by (auto simp: recorder_add_def)

lemma recorder_add_results:
  "result_id x \<in> rec_ids r \<Longrightarrow> status x = FAIL \<Longrightarrow> rec_results (recorder_add x r) = replace_result x (rec_results r)"
  "result_id x \<in> rec_ids r \<Longrightarrow> status x \<noteq> FAIL \<Longrightarrow> recorder_add x r = r"
  "result_id x \<notin> rec_ids r \<Longrightarrow> rec_results (recorder_add x r) = rec_results r @ [x]"
  by (simp_all add: recorder_add_def)

lemma new_recorder_ok: "recorder_ok new_recorder"
  by (simp add: recorder_ok_def new_recorder_def)

text \<open>A failure that was recorded stays.\<close>

lemma replace_result_fails: "x \<in> set rs \<Longrightarrow> status x = FAIL \<Longrightarrow> x \<in> set (replace_result y rs)"
  by (induction rs) auto

lemma recorder_add_fails: "x \<in> set (rec_results r) \<Longrightarrow> status x = FAIL \<Longrightarrow> x \<in> set (rec_results (recorder_add y r))"
  by (auto simp: recorder_add_def replace_result_fails)

lemma has_failure_add: "has_failure r \<Longrightarrow> has_failure (recorder_add x r)"
  using recorder_add_fails by (fastforce simp: has_failure_def list_ex_iff)

text \<open>The reference: one result for each identifier, in the order of first use: the first failure of the
  identifier if there is one, and otherwise the first result.\<close>

definition first_ids :: "check_result list \<Rightarrow> pystr list" where
  "first_ids xs = rev (remdups (rev (List.map result_id xs)))"

definition kept_result :: "check_result list \<Rightarrow> pystr \<Rightarrow> check_result" where
  "kept_result xs i = hd (filter (\<lambda>x. result_id x = i \<and> status x = FAIL) xs @ filter (\<lambda>x. result_id x = i) xs)"

lemma first_ids_set: "set (first_ids xs) = result_id ` set xs"
  by (simp add: first_ids_def)

lemma kept_result_id: "i \<in> result_id ` set xs \<Longrightarrow> result_id (kept_result xs i) = i"
proof -
  assume "i \<in> result_id ` set xs"
  then have "filter (\<lambda>x. result_id x = i \<and> status x = FAIL) xs @ filter (\<lambda>x. result_id x = i) xs \<noteq> []"
    by (auto simp: filter_empty_conv)
  from hd_in_set [OF this] show ?thesis by (auto simp: kept_result_def)
qed

lemma kept_result_fails:
  "status (kept_result xs i) = FAIL \<longleftrightarrow> (\<exists>x \<in> set xs. result_id x = i \<and> status x = FAIL)" if "i \<in> result_id ` set xs"
proof (cases "filter (\<lambda>x. result_id x = i \<and> status x = FAIL) xs = []")
  case True
  from that have "filter (\<lambda>x. result_id x = i) xs \<noteq> []" by (auto simp: filter_empty_conv)
  from hd_in_set [OF this] True show ?thesis by (auto simp: kept_result_def filter_empty_conv)
next
  case False
  from hd_in_set [OF this] have "kept_result xs i \<in> {x \<in> set xs. result_id x = i \<and> status x = FAIL}"
    unfolding kept_result_def hd_append2 [OF False] by simp
  then show ?thesis by blast
qed

lemma first_ids_snoc: "first_ids (xs @ [x]) = (if result_id x \<in> result_id ` set xs then first_ids xs else first_ids xs @ [result_id x])"
  by (simp add: first_ids_def)

lemma kept_result_snoc:
  assumes "i \<in> result_id ` set xs"
  shows "kept_result (xs @ [x]) i
    = (if i = result_id x \<and> status x = FAIL \<and> status (kept_result xs i) \<noteq> FAIL then x else kept_result xs i)"
proof -
  let ?f = "filter (\<lambda>x. result_id x = i \<and> status x = FAIL) xs"
  have some: "filter (\<lambda>x. result_id x = i) xs \<noteq> []" using assms by (auto simp: filter_empty_conv)
  have "?f = [] \<longleftrightarrow> status (kept_result xs i) \<noteq> FAIL"
    using kept_result_fails [OF assms] by (auto simp: filter_empty_conv)
  then show ?thesis using some by (cases ?f) (auto simp: kept_result_def)
qed

lemma reference_again:
  assumes r: "rec_results r = List.map (kept_result xs) (first_ids xs)" "rec_ids r = result_id ` set xs"
    and seen: "result_id x \<in> result_id ` set xs"
  shows "rec_results (recorder_add x r) = List.map (kept_result (xs @ [x])) (first_ids xs)"
proof (cases "status x = FAIL")
  case fails: True
  have ids: "set (first_ids xs) = result_id ` set xs" by (rule first_ids_set)
  have "List.map result_id (rec_results r) = first_ids xs" using r ids kept_result_id by (auto intro!: map_idI)
  then have "distinct (List.map result_id (rec_results r))" by (simp add: first_ids_def)
  with seen fails r have "rec_results (recorder_add x r)
      = List.map (\<lambda>r. if result_id r = result_id x \<and> status r \<noteq> FAIL then x else r) (List.map (kept_result xs) (first_ids xs))"
    by (simp add: recorder_add_results replace_result_eq)
  also have "\<dots> = List.map (kept_result (xs @ [x])) (first_ids xs)"
    using ids fails by (auto simp: kept_result_snoc kept_result_id)
  finally show ?thesis .
qed (use seen r first_ids_set [of xs] in \<open>auto simp: recorder_add_results kept_result_snoc\<close>)

lemma reference_new:
  assumes "result_id x \<notin> result_id ` set xs"
  shows "List.map (kept_result (xs @ [x])) (first_ids (xs @ [x])) = List.map (kept_result xs) (first_ids xs) @ [x]"
proof -
  from assms have "\<forall>y \<in> set xs. result_id y \<noteq> result_id x" by (metis image_eqI)
  then have "filter (\<lambda>y. result_id y = result_id x \<and> status y = FAIL) xs = []" "filter (\<lambda>y. result_id y = result_id x) xs = []"
    by (auto simp: filter_empty_conv)
  then have "kept_result (xs @ [x]) (result_id x) = x" by (simp add: kept_result_def)
  moreover have "kept_result (xs @ [x]) i = kept_result xs i" if "i \<in> set (first_ids xs)" for i
  proof -
    from that have i: "i \<in> result_id ` set xs" by (simp add: first_ids_set)
    with assms have "i \<noteq> result_id x" by blast
    then show ?thesis by (simp add: kept_result_snoc [OF i])
  qed
  ultimately show ?thesis using assms by (simp add: first_ids_snoc)
qed

lemma recorder_is_reference:
  "rec_results (fold recorder_add xs new_recorder) = List.map (kept_result xs) (first_ids xs)
     \<and> rec_ids (fold recorder_add xs new_recorder) = result_id ` set xs"
proof (induction xs rule: rev_induct)
  case Nil
  show ?case by (simp add: new_recorder_def first_ids_def)
next
  case (snoc x xs)
  show ?case
  proof (cases "result_id x \<in> result_id ` set xs")
    case True
    with snoc reference_again [of _ xs x] show ?thesis by (auto simp: first_ids_snoc recorder_add_ids)
  next
    case False
    with snoc reference_new [of x xs] show ?thesis by (simp add: recorder_add_results recorder_add_ids)
  qed
qed

section \<open>Using the recorder\<close>

abbreviation execution_id :: pystr where "execution_id \<equiv> lit ''pair.execution''"

text \<open>What a role does to the recorder: it adds results, none of them under the identifier of the run itself.\<close>

definition extends :: "recorder \<Rightarrow> recorder \<Rightarrow> bool" where
  "extends r r' \<longleftrightarrow> (\<exists>xs. r' = fold recorder_add xs r \<and> execution_id \<notin> result_id ` set xs)"

named_theorems extend_rules

lemma extends_refl [extend_rules]: "extends r r"
  unfolding extends_def by (rule exI [of _ "[]"]) simp

lemma extends_trans: "extends r s \<Longrightarrow> extends s t \<Longrightarrow> extends r t"
  unfolding extends_def by (metis (no_types, opaque_lifting) fold_append comp_apply image_Un set_append Un_iff)

lemma extends_add [extend_rules]: "extends r s \<Longrightarrow> result_id x \<noteq> execution_id \<Longrightarrow> extends r (recorder_add x s)"
  by (erule extends_trans) (auto simp: extends_def intro: exI [of _ "[x]"] simp del: lit_simps)

lemma entry_id [simp]: "result_id (entry i desc st text req) = i"
  by (simp add: entry_def)

lemma extends_passed [extend_rules]: "extends r s \<Longrightarrow> i \<noteq> ''pair.execution'' \<Longrightarrow> extends r (passed i desc text s)"
  unfolding passed_def by (erule extends_add) (simp add: inj_lit del: lit_simps)

lemma extends_fold: "extends r r' \<Longrightarrow> recorder_ok r \<Longrightarrow> recorder_ok r' \<and> rec_ids r \<subseteq> rec_ids r'
    \<and> (execution_id \<in> rec_ids r' \<longrightarrow> execution_id \<in> rec_ids r)"
proof -
  have "recorder_ok r \<Longrightarrow> recorder_ok (fold recorder_add xs r) \<and> rec_ids (fold recorder_add xs r) = rec_ids r \<union> result_id ` set xs"
    for xs :: "check_result list" and r
    by (induction xs arbitrary: r) (auto simp: recorder_add_ok recorder_add_ids)
  moreover assume "extends r r'" "recorder_ok r"
  ultimately show ?thesis unfolding extends_def by fastforce
qed

lemma extends_ids: "extends r r' \<Longrightarrow> rec_ids r \<subseteq> rec_ids r'"
proof -
  have "rec_ids (fold recorder_add xs r) = rec_ids r \<union> result_id ` set xs" for xs :: "check_result list" and r
    by (induction xs arbitrary: r) (auto simp: recorder_add_ids)
  then show "extends r r' \<Longrightarrow> rec_ids r \<subseteq> rec_ids r'" unfolding extends_def by blast
qed

lemma passed_ids: "rec_ids (passed i desc text r) = insert (lit i) (rec_ids r)"
  by (simp add: passed_def recorder_add_ids)

lemma inspect_ready_extends [extend_rules]: "extends r s \<Longrightarrow> extends r (snd (inspect_ready v expected again s))"
  by (auto simp: inspect_ready_def intro!: extend_rules split: option.splits prod.splits)

lemma record_completion_failure_extends [extend_rules]:
  "extends r s \<Longrightarrow> i \<noteq> ''pair.execution'' \<Longrightarrow> extends r (snd (record_completion_failure i desc stage e s))"
  unfolding record_completion_failure_def Let_def snd_conv
  by (erule extends_add) (simp add: inj_lit del: lit_simps)

lemma finally_stop_extends [extend_rules]: "extends r s \<Longrightarrow> extends r (snd (finally_stop res stopped s))"
  unfolding finally_stop_def stop_and_record_def
  by (auto intro!: extend_rules simp: inj_lit simp del: lit_simps split: sum.splits)

text \<open>A \<open>finally\<close> clause that ends without an exception has recorded the cleanup.\<close>

lemma finally_stop_returns:
  "finally_stop res stopped r = (Inr u, r') \<Longrightarrow> res = Inr u \<and> rec_ids r' = insert (lit ''lifecycle.cleanup'') (rec_ids r)"
  by (auto simp: finally_stop_def stop_and_record_def passed_ids simp del: lit_simps split: sum.splits)

section \<open>What an exit code says\<close>

lemma report_exit: "exit_code (dget (build_pair_report env session remote rs took) (lit ''status''))
    = (if list_ex (\<lambda>r. status r = FAIL) rs then 1
       else if list_ex (\<lambda>r. required r \<and> status r \<in> {SKIP, UNAVAILABLE}) rs then 2 else 0)"
  unfolding exit_code_overall [symmetric] by (simp add: build_pair_report_def dget_def Let_def)

text \<open>Whatever a role raises leaves a mark that the exit code shows.\<close>

lemma raising_marks:
  assumes "pair_results (Inl e) r = Inr r'" "recorder_ok r" "execution_id \<notin> rec_ids r"
  shows "\<exists>x \<in> set (rec_results r'). status x = FAIL \<or> required x \<and> status x = UNAVAILABLE"
proof -
  have marked: ?thesis if "r' = recorder_add x r" "result_id x = execution_id" "status x = FAIL \<or> required x \<and> status x = UNAVAILABLE" for x
    using that assms(3) by (auto simp: recorder_add_results simp del: lit_simps)
  from assms(1) consider "has_failure r'" | x where "r' = recorder_add x r" "result_id x = execution_id"
      "status x = FAIL \<or> required x \<and> status x = UNAVAILABLE"
    by (fastforce simp: pair_results_def entry_def simp del: lit_simps split: if_splits)
  then show ?thesis by cases (use marked in \<open>auto simp: has_failure_def list_ex_iff\<close>)
qed

lemma exit_zero_means:
  assumes "pair_main env session remote took res r = (report, 0)" "recorder_ok r" "execution_id \<notin> rec_ids r"
  shows "res = Inr () \<and> report = Some (build_pair_report env session remote (rec_results r) took)
    \<and> (\<forall>x \<in> set (rec_results r). status x = PASS \<or> \<not> required x \<and> status x \<noteq> FAIL)"
proof -
  from assms(1) obtain r' where r': "pair_results res r = Inr r'"
      and report: "report = Some (build_pair_report env session remote (rec_results r') took)"
      and ok: "\<not> list_ex (\<lambda>r. status r = FAIL) (rec_results r')"
        "\<not> list_ex (\<lambda>r. required r \<and> status r \<in> {SKIP, UNAVAILABLE}) (rec_results r')"
    by (auto simp: pair_main_def report_exit Let_def simp del: lit_simps split: sum.splits if_splits)
  have res: "res = Inr ()"
  proof (cases res)
    case (Inl e)
    from raising_marks [OF r' [unfolded Inl] assms(2,3)] ok show ?thesis by (auto simp: list_ex_iff)
  qed simp
  moreover have "r' = r" using r' res by (simp add: pair_results_def)
  moreover have "status x = PASS \<or> \<not> required x \<and> status x \<noteq> FAIL" if "x \<in> set (rec_results r)" for x
    using that ok \<open>r' = r\<close> by (cases "status x") (auto simp: list_ex_iff)
  ultimately show ?thesis using report by blast
qed

lemma pair_begin_recorder: "recorder_ok (snd (pair_begin env))" "execution_id \<notin> rec_ids (snd (pair_begin env))"
  by (simp_all add: pair_begin_def passed_def recorder_add_ok new_recorder_ok recorder_add_ids entry_def)
    (simp add: new_recorder_def)

text \<open>
  The contract of a role: started with a recorder it reaches states, some of which give the outcome of
  its coroutine; it uses the recorder only through \<open>add\<close>, leaves the identifier \<open>pair.execution\<close>
  alone, and when it returns it has recorded every one of its checks.
\<close>

locale pair_role =
  fixes runs :: "recorder \<Rightarrow> 's \<Rightarrow> bool" and outcome_of :: "'s \<Rightarrow> (raised + unit) option"
    and recorder_of :: "'s \<Rightarrow> recorder" and checks :: "pystr list"
  assumes through_add: "runs r s \<Longrightarrow> extends r (recorder_of s)"
    and all_recorded: "runs r s \<Longrightarrow> outcome_of s = Some (Inr ()) \<Longrightarrow> set checks \<subseteq> rec_ids (recorder_of s)"
begin

lemma exit_zero:
  assumes "runs (snd (pair_begin env)) s" "outcome_of s = Some res"
    and "pair_main env session remote took res (recorder_of s) = (report, 0)"
  shows "res = Inr () \<and> report = Some (build_pair_report env session remote (rec_results (recorder_of s)) took)
    \<and> (\<forall>i \<in> set checks. \<exists>x \<in> set (rec_results (recorder_of s)). result_id x = i \<and> (status x = PASS \<or> \<not> required x \<and> status x \<noteq> FAIL))"
proof -
  from extends_fold [OF through_add [OF assms(1)] pair_begin_recorder(1)] pair_begin_recorder(2)
  have ok: "recorder_ok (recorder_of s)" and "execution_id \<notin> rec_ids (recorder_of s)" by blast+
  from exit_zero_means [OF assms(3) this] have *: "res = Inr ()"
      "report = Some (build_pair_report env session remote (rec_results (recorder_of s)) took)"
      "\<forall>x \<in> set (rec_results (recorder_of s)). status x = PASS \<or> \<not> required x \<and> status x \<noteq> FAIL" by blast+
  then have "set checks \<subseteq> result_id ` set (rec_results (recorder_of s))"
    using all_recorded [OF assms(1)] assms(2) ok by (simp add: recorder_ok_def)
  with * show ?thesis by (auto simp: subset_iff image_iff)
qed

end

section \<open>Other facts\<close>

lemma discovered_remote:
  "discover_remote env rounds = Some (Inr d) \<Longrightarrow>
     peer_ident (disc_peer d) = remote_peer_id (config_of env) \<and> endpoint_for TRANSPORT_NAME (endpoints d) \<noteq> None"
proof (induction env rounds rule: discover_remote.induct)
  case (2 env remaining outcome rounds)
  have found: "of_remote i t ds = Some (Inr d) \<Longrightarrow> peer_ident (disc_peer d) = i \<and> endpoint_for t (endpoints d) \<noteq> None" for i t ds
    by (induction ds) (auto split: if_splits)
  show ?case using 2 found by (auto split: if_splits sum.splits option.splits)
qed simp

text \<open>The two wildcard addresses are never announced.\<close>

lemma advertise_reachable:
  assumes "make_pair_config a = Inr c" "cfg_scenario c = lit ''discovery''" "\<not> given (arg_advertise a)"
  shows "cfg_advertise c = arg_bind a \<and> arg_bind a \<notin> {lit ''0.0.0.0'', lit ''::''}"
proof -
  have "arg_bind a \<notin> {lit ''0.0.0.0'', lit ''::''}"
    using assms by (auto simp: make_pair_config_def res_simps Let_def simp del: lit_simps)
  then show ?thesis using assms
    by (auto simp: make_pair_config_def res_simps Let_def given_def simp del: lit_simps split: option.splits list.splits)
qed

text \<open>What the check of \<open>--timeout\<close> lets through: an infinite timeout and NaN as well.\<close>

lemma timeout_accepted: "make_pair_config a = Inr c \<Longrightarrow> cfg_timeout c = arg_timeout a \<and> \<not> not_positive (arg_timeout a)"
  by (auto simp: make_pair_config_def res_simps Let_def simp del: lit_simps)

lemma timeout_kept: "make_pair_config a = Inr c \<Longrightarrow> \<not> not_positive t \<Longrightarrow> make_pair_config (a\<lparr>arg_timeout := t\<rparr>) = Inr (c\<lparr>cfg_timeout := t\<rparr>)"
  unfolding make_pair_config_def Let_def res_simps
  by (elim exE conjE, drule sum.inject(2) [THEN iffD1], hypsubst) (simp del: lit_simps split: option.split list.split)

lemma infinite_timeout_accepted:
  "make_pair_config a = Inr c \<Longrightarrow> make_pair_config (a\<lparr>arg_timeout := PosInf\<rparr>) = Inr (c\<lparr>cfg_timeout := PosInf\<rparr>)"
  "operation_timeout (c\<lparr>cfg_timeout := PosInf\<rparr>) = Finite 15"
  by (rule timeout_kept; simp) (simp add: operation_timeout_def)

end
