(* ===== verification/PairServer.thy ===== *)
theory PairServer
  imports PairRun Machines
begin

text \<open>
  The server role of a pair run: \<open>_run_server\<close> and \<open>_wait_server_stage\<close> of
  \<open>src/compatibility_tests/pair/runner.py\<close>. Its message handlers are cut at their replies, its
  coroutine at every await; the state is that of the closure they share. What a handler sees of the
  node is the connection of the sender, with its session and security; the connections, sessions and
  events are those of the node, given as inputs. The machine interleaves the coroutine with any number of
  handlers. The messages all go to the remote peer; their targets are left out.

  The lemmas: the shared state only grows; a coroutine that returned has seen the whole exchange in its
  order; and the interpretation of \<open>pair_role\<close>: what the exit code 0 of a server process means.
\<close>

section \<open>State\<close>

record server =
  srv_recorder :: recorder
  srv_session :: pystr
  srv_remote :: "metadata option"
  metadata_confirmed :: bool
  client_send_seen :: bool
  completion_request_done :: bool
  completion_confirmation_done :: bool
  remote_disconnected :: bool
  completion_failure :: bool
  completion_errors :: "raised list"
  completion_state_of :: completion_state
  connections_seen :: "conn list"
  session_objects :: "nat list"
  final_connection_id :: "pystr option"
  echo_count :: nat
  payload_verified :: bool

definition new_server :: "pystr \<Rightarrow> recorder \<Rightarrow> server" where
  "new_server session r = \<lparr>srv_recorder = r, srv_session = session, srv_remote = None, metadata_confirmed = False,
     client_send_seen = False, completion_request_done = False, completion_confirmation_done = False,
     remote_disconnected = False, completion_failure = False, completion_errors = [],
     completion_state_of = fresh_completion session, connections_seen = [], session_objects = [],
     final_connection_id = None, echo_count = 0, payload_verified = False\<rparr>"

definition CONCURRENT_REQUESTS :: nat where "CONCURRENT_REQUESTS = 8"

definition andthen :: "('e + 'a) \<times> 's \<Rightarrow> ('a \<Rightarrow> 's \<Rightarrow> ('e + 'b) \<times> 's) \<Rightarrow> ('e + 'b) \<times> 's" where
  "andthen m f = (case m of (Inl e, s) \<Rightarrow> (Inl e, s) | (Inr x, s) \<Rightarrow> f x s)"

definition on_recorder :: "(recorder \<Rightarrow> recorder) \<Rightarrow> server \<Rightarrow> server" where
  "on_recorder f s = s\<lparr>srv_recorder := f (srv_recorder s)\<rparr>"

section \<open>Handlers\<close>

definition fail_completion :: "string \<Rightarrow> string \<Rightarrow> string \<Rightarrow> raised \<Rightarrow> server \<Rightarrow> server" where
  "fail_completion i desc stage e s =
     (case record_completion_failure i desc stage e (srv_recorder s) of (failure, r) \<Rightarrow>
        let s' = s\<lparr>srv_recorder := r\<rparr> in
        if completion_failure s' then s'
        else s'\<lparr>completion_errors := completion_errors s' @ [failure], completion_failure := True\<rparr>)"

definition connection_for :: "ready_view option \<Rightarrow> server \<Rightarrow> (raised + ready_view) \<times> server" where
  "connection_for view s =
     (case view of
        None \<Rightarrow> (Inl (assertion ''server cannot inspect the inbound READY connection''), s)
      | Some v \<Rightarrow>
          (Inr v, if view_conn v \<in> set (connections_seen s) then s
                  else s\<lparr>connections_seen := connections_seen s @ [view_conn v]\<rparr>))"

text \<open>\<open>session_objects.append(_inspect_ready(...))\<close>\<close>

definition inspect_session :: "pair_env \<Rightarrow> ready_view \<Rightarrow> bool \<Rightarrow> server \<Rightarrow> (raised + unit) \<times> server" where
  "inspect_session env v again s =
     (case inspect_ready v (remote_peer_id (config_of env)) again (srv_recorder s) of
        (Inl e, r) \<Rightarrow> (Inl e, s\<lparr>srv_recorder := r\<rparr>)
      | (Inr obj, r) \<Rightarrow> (Inr (), s\<lparr>srv_recorder := r, session_objects := session_objects s @ [obj]\<rparr>))"

record reply =
  reply_type :: pystr
  reply_payload :: metadata
  reply_ack :: bool

datatype server_message =
    MetadataRequest | MetadataConfirm | ClientSend | EchoRequest | PayloadRequest | ReconnectRequest
  | CompleteRequest | CompleteConfirmed

definition session_data :: "pair_env \<Rightarrow> pyval \<Rightarrow> server \<Rightarrow> (raised + metadata) \<times> server" where
  "session_data env data s = (pair_result env (validate_session_payload data (srv_session s)), s)"

definition reply_with ::
    "pair_env \<Rightarrow> string \<Rightarrow> bool \<Rightarrow> pair_error + metadata \<Rightarrow> server \<Rightarrow> (raised + reply option) \<times> server" where
  "reply_with env kind ack body s =
     (rbind (pair_result env body) (\<lambda>d. Inr (Some \<lparr>reply_type = lit kind, reply_payload = d, reply_ack = ack\<rparr>)), s)"

definition receive_metadata ::
    "pair_env \<Rightarrow> pyval \<Rightarrow> ready_view option \<Rightarrow> server \<Rightarrow> (raised + reply option) \<times> server" where
  "receive_metadata env data view s =
     andthen (pair_result env (validate_metadata data None True), s) (\<lambda>remote s.
     andthen (connection_for view (s\<lparr>srv_remote := Some remote\<rparr>)) (\<lambda>v s.
     andthen (inspect_session env v False s) (\<lambda>_ s.
     (rbind (run_metadata env (Some (srv_session s))) (\<lambda>m. Inr (Some \<lparr>reply_type = lit ''compat.metadata.reply'',
        reply_payload = m, reply_ack = True\<rparr>)), s))))"

definition confirm_metadata ::
    "pair_env \<Rightarrow> pyval \<Rightarrow> ready_view option \<Rightarrow> server \<Rightarrow> (raised + reply option) \<times> server" where
  "confirm_metadata env data view s =
     andthen (session_data env data s) (\<lambda>_ s.
     andthen (connection_for view s) (\<lambda>_ s. (Inr None, s\<lparr>metadata_confirmed := True\<rparr>)))"

definition receive_client_send ::
    "pair_env \<Rightarrow> pyval \<Rightarrow> ready_view option \<Rightarrow> server \<Rightarrow> (raised + reply option) \<times> server" where
  "receive_client_send env data view s =
     andthen (session_data env data s) (\<lambda>d s.
     if dget d (lit ''value'') \<noteq> PStr (lit ''client-to-server'') then (Inl (assertion ''client send payload mismatch''), s)
     else andthen (connection_for view s) (\<lambda>_ s.
       (Inr None, on_recorder (passed_plain ''messaging.client_server_send'' ''client to server application send'')
          (s\<lparr>client_send_seen := True\<rparr>))))"

definition echo :: "pair_env \<Rightarrow> pyval \<Rightarrow> ready_view option \<Rightarrow> server \<Rightarrow> (raised + reply option) \<times> server" where
  "echo env data view s =
     andthen (session_data env data s) (\<lambda>d s.
     let v = dget d (lit ''value'') in
     if strict_int v = None \<and> (\<forall>b \<in> {True, False}. v \<noteq> PBool b) then (Inl (type_error ''echo value is not an integer''), s)
     else andthen (connection_for view s) (\<lambda>_ s.
       let s' = s\<lparr>echo_count := echo_count s + 1\<rparr> in
       reply_with env ''compat.echo.reply'' False
         (session_payload (PStr (srv_session s')) [(PStr (lit ''value''), v)]) s'))"

text \<open>The digest of a text that cannot be encoded raises \<open>UnicodeEncodeError\<close>.\<close>

definition verify_payload :: "pair_env \<Rightarrow> pyval \<Rightarrow> ready_view option \<Rightarrow> server \<Rightarrow> (raised + reply option) \<times> server" where
  "verify_payload env data view s =
     andthen (session_data env data s) (\<lambda>d s.
     case as_str (dget d (lit ''value'')) of
       None \<Rightarrow> (Inl (type_error ''large payload is not a string''), s)
     | Some v \<Rightarrow>
         andthen (connection_for view s) (\<lambda>_ s.
           let s' = s\<lparr>payload_verified := True\<rparr> in
           (case utf8_encode v of
              None \<Rightarrow> (Inl \<lparr>exc_class = LibraryExc UnicodeError, exc_name = lit ''UnicodeEncodeError'',
                exc_text = encode_text env v\<rparr>, s')
            | Some b \<Rightarrow> reply_with env ''compat.payload.reply'' False (session_payload (PStr (srv_session s'))
                [(PStr (lit ''length''), PInt (int (length v))), (PStr (lit ''sha256''), PStr (sha256_hex env b))]) s')))"

definition verify_reconnect ::
    "pair_env \<Rightarrow> pyval \<Rightarrow> ready_view option \<Rightarrow> server \<Rightarrow> (raised + reply option) \<times> server" where
  "verify_reconnect env data view s =
     andthen (session_data env data s) (\<lambda>_ s.
     andthen (connection_for view s) (\<lambda>v s.
     andthen (inspect_session env v True (s\<lparr>final_connection_id := Some (connection_id (view_conn v))\<rparr>)) (\<lambda>_ s.
       reply_with env ''compat.reconnect.reply'' True
         (session_payload (PStr (srv_session s)) [(PStr (lit ''ready''), PBool True)]) s)))"

definition lift_completion ::
    "pair_env \<Rightarrow> (completion_state \<Rightarrow> (pair_error + metadata) \<times> completion_state) \<Rightarrow> server \<Rightarrow> (raised + metadata) \<times> server" where
  "lift_completion env f s = (case f (completion_state_of s) of (r, c) \<Rightarrow> (pair_result env r, s\<lparr>completion_state_of := c\<rparr>))"

definition pass_data :: metadata where "pass_data = [(PStr (lit ''server_status''), PStr (lit ''PASS''))]"

text \<open>The bodies of the \<open>try\<close> statements of \<open>finish\<close> and \<open>confirm_completion\<close>, up to their replies.\<close>

definition finish_body :: "pair_env \<Rightarrow> pyval \<Rightarrow> ready_view option \<Rightarrow> server \<Rightarrow> (raised + reply option) \<times> server" where
  "finish_body env data view s =
     andthen (lift_completion env (accept_request data) s) (\<lambda>_ s.
     andthen (connection_for view s) (\<lambda>v s.
       if final_connection_id s \<noteq> Some (connection_id (view_conn v)) then
         (Inl (protocol_error (lit ''completion request did not use the post-reconnect session'')), s)
       else if echo_count s \<noteq> CONCURRENT_REQUESTS then
         (Inl (assertion ''server did not receive every concurrent request''), s)
       else if \<not> payload_verified s then (Inl (assertion ''server did not verify the reasonable-size payload''), s)
       else if length (connections_seen s) < 2 \<or> length (session_objects s) < 2 then
         (Inl (assertion ''server did not observe a fresh connection and session''), s)
       else reply_with env ''compat.complete.reply'' True
         (completion_payload (PStr (srv_session s)) COMPLETION_REPLY pass_data) s))"

definition confirm_body :: "pair_env \<Rightarrow> pyval \<Rightarrow> ready_view option \<Rightarrow> server \<Rightarrow> (raised + reply option) \<times> server" where
  "confirm_body env data view s =
     (if \<not> completion_request_done s then
        (Inl (protocol_error (lit ''completion confirmation arrived before the first reply completed'')), s)
      else
        andthen (lift_completion env (accept_confirmation data) s) (\<lambda>_ s.
        andthen (connection_for view s) (\<lambda>v s.
          if final_connection_id s \<noteq> Some (connection_id (view_conn v)) then
            (Inl (protocol_error (lit ''completion confirmation did not use the post-reconnect session'')), s)
          else reply_with env ''compat.complete.confirmed.reply'' True
            (completion_payload (PStr (srv_session s)) COMPLETION_CONFIRMATION_REPLY pass_data) s)))"

definition finish_failed :: "raised \<Rightarrow> server \<Rightarrow> server" where
  "finish_failed = fail_completion ''protocol.completion_request'' ''pair completion request/reply'' ''completion request''"

definition confirm_failed :: "raised \<Rightarrow> server \<Rightarrow> server" where
  "confirm_failed = fail_completion ''protocol.completion_confirmation''
     ''pair completion confirmation request/reply'' ''completion confirmation''"

text \<open>\<open>except Exception\<close>: the failure is reported and the handler returns.\<close>

definition reporting ::
    "(raised \<Rightarrow> server \<Rightarrow> server) \<Rightarrow> (raised + reply option) \<times> server \<Rightarrow> (raised + reply option) \<times> server" where
  "reporting failed m =
     (case m of (Inl e, s) \<Rightarrow> (if is_exception (exc_class e) then (Inr None, failed e s) else (Inl e, s)) | r \<Rightarrow> r)"

text \<open>A handler up to its reply, and after it.\<close>

fun receive ::
    "pair_env \<Rightarrow> server_message \<Rightarrow> pyval \<Rightarrow> ready_view option \<Rightarrow> server \<Rightarrow> (raised + reply option) \<times> server" where
  "receive env MetadataRequest data view s = receive_metadata env data view s"
| "receive env MetadataConfirm data view s = confirm_metadata env data view s"
| "receive env ClientSend data view s = receive_client_send env data view s"
| "receive env EchoRequest data view s = echo env data view s"
| "receive env PayloadRequest data view s = verify_payload env data view s"
| "receive env ReconnectRequest data view s = verify_reconnect env data view s"
| "receive env CompleteRequest data view s = reporting finish_failed (finish_body env data view s)"
| "receive env CompleteConfirmed data view s = reporting confirm_failed (confirm_body env data view s)"

fun replied :: "server_message \<Rightarrow> raised + unit \<Rightarrow> server \<Rightarrow> (raised + unit) \<times> server" where
  "replied MetadataRequest (Inr _) s = (Inr (), on_recorder (passed ''messaging.client_server_request''
     ''client to server request/reply'' ''metadata request/reply completed after READY'') s)"
| "replied ReconnectRequest (Inr _) s = (Inr (), on_recorder (passed_plain ''lifecycle.messaging_after_reconnect''
     ''request/reply after fresh reconnect'') s)"
| "replied CompleteRequest (Inr _) s = (Inr (), (on_recorder (passed ''protocol.completion_request''
     ''pair completion request/reply'' ''server replied and received the technical ACK for compat.complete.reply'') s)
     \<lparr>completion_request_done := True\<rparr>)"
| "replied CompleteConfirmed (Inr _) s = (Inr (), (on_recorder (passed ''protocol.completion_confirmation''
     ''pair completion confirmation request/reply'' ''server replied and received the technical ACK for the confirmation reply'') s)
     \<lparr>completion_confirmation_done := True\<rparr>)"
| "replied CompleteRequest (Inl e) s =
     (if is_exception (exc_class e) then (Inr (), finish_failed e s) else (Inl e, s))"
| "replied CompleteConfirmed (Inl e) s =
     (if is_exception (exc_class e) then (Inr (), confirm_failed e s) else (Inl e, s))"
| "replied k r s = (r, s)"

definition observe_disconnect :: "pair_env \<Rightarrow> pystr option \<Rightarrow> pystr option \<Rightarrow> server \<Rightarrow> server" where
  "observe_disconnect env event_peer event_connection s =
     (if event_peer = Some (remote_peer_id (config_of env)) \<and> final_connection_id s \<noteq> None
         \<and> event_connection = final_connection_id s
      then s\<lparr>remote_disconnected := True\<rparr> else s)"

section \<open>The coroutine\<close>

text \<open>Where \<open>_run_server\<close> waits. \<open>ServerFailing\<close> is the message about the failure, \<open>ServerStopping\<close> the \<open>finally\<close>
  clause with the outcome it was entered with.\<close>

datatype server_pc =
    ServerStarting | ServerDiscovering | WaitMetadata | SendingToClient | RequestingClient | WaitClientSend
  | WaitRequestDone | WaitConfirmationDone | WaitDisconnect | KeptAlive
  | ServerFailing raised
  | ServerStopping "raised + unit"
  | ServerEnded "raised + unit"

text \<open>
  What a wait gives: the node's start, the search, \<open>asyncio.wait_for\<close> on an event, a message that was
  sent, the payload of a reply, the waits of a stage that are done when \<open>asyncio.wait\<close> returns (for the
  event expected, a failure, a disconnect) or what interrupted it, and the node's stop.
\<close>

datatype pair_event =
    NodeStarted "raised + unit"
  | PeerFound "raised + discovered_peer"
  | EventWaited "raised + unit"
  | MessageSent "raised + unit"
  | ReplyReceived "raised + pyval"
  | StageDone bool bool bool
  | StageInterrupted raised
  | NodeStopped "raised + node"

text \<open>\<open>except Exception\<close>: \<open>linked\<close> is whether the node still has a connection to the remote peer.\<close>

definition server_fails :: "bool \<Rightarrow> raised \<Rightarrow> server \<Rightarrow> server_pc \<times> server" where
  "server_fails linked e s = (if is_exception (exc_class e) \<and> linked then ServerFailing e else ServerStopping (Inl e), s)"

definition wait_server_stage ::
    "string \<Rightarrow> string \<Rightarrow> string \<Rightarrow> bool \<Rightarrow> bool \<Rightarrow> bool \<Rightarrow> server \<Rightarrow> (raised + unit) \<times> server" where
  "wait_server_stage i desc stage expected failed left s =
     (if expected then (Inr (), s)
      else if failed then (Inl (hd (completion_errors s)), s)
      else (case record_completion_failure i desc stage
              (if left then \<lparr>exc_class = LibraryExc RequestError, exc_name = lit ''RequestError'',
                 exc_text = lit ''peer disconnected before '' @ lit stage @ lit '' completed''\<rparr>
               else \<lparr>exc_class = LibraryExc RequestTimeoutError, exc_name = lit ''RequestTimeoutError'',
                 exc_text = lit ''timed out waiting for '' @ lit stage\<rparr>) (srv_recorder s) of
            (failure, r) \<Rightarrow> (Inl failure, s\<lparr>srv_recorder := r\<rparr>)))"

definition discovery_found :: "recorder \<Rightarrow> recorder" where
  "discovery_found = passed ''discovery.cross_device'' ''cross-device LAN broadcast discovery''
     ''remote peer id and announced endpoint were observed''"

definition discovery_skipped :: "recorder \<Rightarrow> recorder" where
  "discovery_skipped = recorder_add (entry (lit ''discovery.cross_device'') (lit ''cross-device LAN broadcast discovery'')
     SKIP (lit ''direct scenario uses NoDiscovery and an explicit endpoint'') False)"

definition server_replied :: "pair_env \<Rightarrow> bool \<Rightarrow> pyval \<Rightarrow> server \<Rightarrow> server_pc \<times> server" where
  "server_replied env linked data s =
     (case pair_result env (validate_session_payload data (srv_session s)) of
        Inl e \<Rightarrow> server_fails linked e s
      | Inr d \<Rightarrow>
          if dget d (lit ''value'') \<noteq> PStr (lit ''server-reply'')
          then server_fails linked (assertion ''server to client request/reply payload mismatch'') s
          else (WaitClientSend, on_recorder (passed_plain ''messaging.ack'' ''technical acknowledgements in both directions''
            \<circ> passed_plain ''messaging.server_client_request'' ''server to client request/reply'') s))"

definition client_send_waited :: "recorder \<Rightarrow> recorder" where
  "client_send_waited =
     passed_plain ''lifecycle.reconnect'' ''fresh TCP reconnect''
     \<circ> passed_plain ''lifecycle.disconnect'' ''controlled software disconnect''
     \<circ> passed_plain ''messaging.payload'' ''reasonable-size application payload''
     \<circ> passed_plain ''messaging.concurrent'' ''concurrent request correlation across devices''
     \<circ> passed_plain ''messaging.multiple'' ''multiple ordered application messages''"

definition disconnect_waited :: "pair_env \<Rightarrow> bool \<Rightarrow> raised + unit \<Rightarrow> server \<Rightarrow> server_pc \<times> server" where
  "disconnect_waited env linked r s =
     (case r of
        Inl e \<Rightarrow>
          if library_isa (exc_class e) TimeoutError then
            server_fails linked (workflow_error (lit ''server did not observe the final client disconnect''))
              (on_recorder (recorder_add (entry (lit ''lifecycle.remote_graceful_disconnect'')
                 (lit ''server observation of client graceful disconnect'') FAIL
                 (lit ''server timed out waiting for the confirmed client to disconnect'') True)) s)
          else server_fails linked e s
      | Inr _ \<Rightarrow>
          (if cfg_keep_alive (config_of env) then KeptAlive else ServerStopping (Inr ()),
           on_recorder (passed ''lifecycle.remote_graceful_disconnect'' ''server observation of client graceful disconnect''
             ''server observed the post-confirmation peer session close'') s))"

definition then_server ::
    "bool \<Rightarrow> raised + 'a \<Rightarrow> ('a \<Rightarrow> server \<Rightarrow> server_pc \<times> server) \<Rightarrow> server \<Rightarrow> server_pc \<times> server" where
  "then_server linked r f s = (case r of Inl e \<Rightarrow> server_fails linked e s | Inr x \<Rightarrow> f x s)"

definition server_started :: "pair_env \<Rightarrow> raised + unit \<Rightarrow> server \<Rightarrow> server_pc \<times> server" where
  "server_started env r s =
     (case r of
        Inl e \<Rightarrow> (ServerEnded (Inl (start_failure env e)), s)
      | Inr _ \<Rightarrow> if cfg_scenario (config_of env) = lit ''discovery'' then (ServerDiscovering, s)
                else (WaitMetadata, on_recorder discovery_skipped s))"

definition stage_resume ::
    "bool \<Rightarrow> (bool \<Rightarrow> bool \<Rightarrow> bool \<Rightarrow> server \<Rightarrow> (raised + unit) \<times> server) \<Rightarrow> server_pc \<Rightarrow> pair_event \<Rightarrow> server \<Rightarrow>
     (server_pc \<times> server) option" where
  "stage_resume linked stage next ev s =
     (case ev of
        StageDone x y z \<Rightarrow> (case stage x y z s of (r, s') \<Rightarrow> Some (then_server linked r (\<lambda>_ s. (next, s)) s'))
      | StageInterrupted e \<Rightarrow> Some (server_fails linked e s)
      | _ \<Rightarrow> None)"

definition server_stopped :: "raised + unit \<Rightarrow> raised + node \<Rightarrow> server \<Rightarrow> server_pc \<times> server" where
  "server_stopped res stopped s =
     (case finally_stop res stopped (srv_recorder s) of (res', r) \<Rightarrow> (ServerEnded res', s\<lparr>srv_recorder := r\<rparr>))"

definition server_resume :: "pair_env \<Rightarrow> bool \<Rightarrow> server_pc \<Rightarrow> pair_event \<Rightarrow> server \<Rightarrow> (server_pc \<times> server) option" where
  "server_resume env linked pc ev s =
     (case pc of
        ServerStarting \<Rightarrow> (case ev of NodeStarted r \<Rightarrow> Some (server_started env r s) | _ \<Rightarrow> None)
      | ServerDiscovering \<Rightarrow> (case ev of
            PeerFound r \<Rightarrow> Some (then_server linked r (\<lambda>_ s. (WaitMetadata, on_recorder discovery_found s)) s) | _ \<Rightarrow> None)
      | WaitMetadata \<Rightarrow> (case ev of
            EventWaited r \<Rightarrow> Some (then_server linked r (\<lambda>_ s. (SendingToClient, s)) s) | _ \<Rightarrow> None)
      | SendingToClient \<Rightarrow> (case ev of
            MessageSent r \<Rightarrow> Some (then_server linked r (\<lambda>_ s. (RequestingClient,
              on_recorder (passed_plain ''messaging.server_client_send'' ''server to client application send'') s)) s)
          | _ \<Rightarrow> None)
      | RequestingClient \<Rightarrow> (case ev of
            ReplyReceived r \<Rightarrow> Some (then_server linked r (server_replied env linked) s) | _ \<Rightarrow> None)
      | WaitClientSend \<Rightarrow> (case ev of
            EventWaited r \<Rightarrow> Some (then_server linked r (\<lambda>_ s. (WaitRequestDone, on_recorder client_send_waited s)) s)
          | _ \<Rightarrow> None)
      | WaitRequestDone \<Rightarrow> stage_resume linked
          (wait_server_stage ''protocol.completion_request'' ''pair completion request/reply'' ''completion request'')
          WaitConfirmationDone ev s
      | WaitConfirmationDone \<Rightarrow> stage_resume linked
          (wait_server_stage ''protocol.completion_confirmation'' ''pair completion confirmation request/reply''
             ''completion confirmation'') WaitDisconnect ev s
      | WaitDisconnect \<Rightarrow> (case ev of EventWaited r \<Rightarrow> Some (disconnect_waited env linked r s) | _ \<Rightarrow> None)
      | KeptAlive \<Rightarrow> (case ev of EventWaited (Inl e) \<Rightarrow> Some (server_fails linked e s) | _ \<Rightarrow> None)
      | ServerFailing e \<Rightarrow> (case ev of
            MessageSent r \<Rightarrow> Some (ServerStopping (Inl (case r of
              Inl x \<Rightarrow> if is_exception (exc_class x) then e else x | Inr _ \<Rightarrow> e)), s)
          | _ \<Rightarrow> None)
      | ServerStopping res \<Rightarrow> (case ev of NodeStopped stopped \<Rightarrow> Some (server_stopped res stopped s) | _ \<Rightarrow> None)
      | ServerEnded res \<Rightarrow> None)"

text \<open>A wait on an event returns only when it is set; \<open>completion_failure\<close> is set only with an error.\<close>

definition event_set :: "server_pc \<Rightarrow> pair_event \<Rightarrow> server \<Rightarrow> bool" where
  "event_set pc ev s =
     (case ev of
        EventWaited (Inr _) \<Rightarrow>
          (pc = WaitMetadata \<longrightarrow> metadata_confirmed s) \<and> (pc = WaitClientSend \<longrightarrow> client_send_seen s)
          \<and> (pc = WaitDisconnect \<longrightarrow> remote_disconnected s)
      | StageDone x y z \<Rightarrow>
          (x \<longrightarrow> (pc = WaitRequestDone \<longrightarrow> completion_request_done s)
              \<and> (pc = WaitConfirmationDone \<longrightarrow> completion_confirmation_done s))
          \<and> (y \<longrightarrow> completion_failure s) \<and> (z \<longrightarrow> remote_disconnected s)
      | _ \<Rightarrow> True)"

text \<open>The role: its coroutine, the handlers that wait for their replies, and what they share.\<close>

type_synonym server_run = "server_pc \<times> server_message list \<times> server"

inductive server_step :: "pair_env \<Rightarrow> server_run \<Rightarrow> server_run \<Rightarrow> bool" for env where
  handler_waits: "receive env k data view s = (Inr (Some a), s') \<Longrightarrow> server_step env (pc, ks, s) (pc, k # ks, s')"
| handler_ends: "receive env k data view s = (r, s') \<Longrightarrow> (\<forall>a. r \<noteq> Inr (Some a)) \<Longrightarrow> server_step env (pc, ks, s) (pc, ks, s')"
| handler_resumes: "k \<in> set ks \<Longrightarrow> replied k r s = (x, s') \<Longrightarrow> server_step env (pc, ks, s) (pc, remove1 k ks, s')"
| disconnect_seen: "server_step env (pc, ks, s) (pc, ks, observe_disconnect env p c s)"
| coroutine: "event_set pc ev s \<Longrightarrow> server_resume env linked pc ev s = Some (pc', s') \<Longrightarrow>
    server_step env (pc, ks, s) (pc', ks, s')"

definition server_runs :: "pair_env \<Rightarrow> pystr \<Rightarrow> recorder \<Rightarrow> server_run \<Rightarrow> bool" where
  "server_runs env session r = reachable (server_step env) (ServerStarting, [], new_server session r)"

definition server_outcome :: "server_run \<Rightarrow> (raised + unit) option" where
  "server_outcome run = (case run of (pc, ks, s) \<Rightarrow> (case pc of ServerEnded res \<Rightarrow> Some res | _ \<Rightarrow> None))"

definition server_recorder :: "server_run \<Rightarrow> recorder" where
  "server_recorder run = (case run of (pc, ks, s) \<Rightarrow> srv_recorder s)"

section \<open>The state only grows\<close>

definition grows :: "server \<Rightarrow> server \<Rightarrow> bool" where
  "grows s s' \<longleftrightarrow> extends (srv_recorder s) (srv_recorder s') \<and> srv_session s' = srv_session s
     \<and> (metadata_confirmed s \<longrightarrow> metadata_confirmed s') \<and> (client_send_seen s \<longrightarrow> client_send_seen s')
     \<and> (completion_request_done s \<longrightarrow> completion_request_done s')
     \<and> (completion_confirmation_done s \<longrightarrow> completion_confirmation_done s')
     \<and> (remote_disconnected s \<longrightarrow> remote_disconnected s')
     \<and> (request_received (completion_state_of s) \<longrightarrow> request_received (completion_state_of s'))
     \<and> (confirmation_received (completion_state_of s) \<longrightarrow> confirmation_received (completion_state_of s'))
     \<and> length (connections_seen s) \<le> length (connections_seen s') \<and> length (session_objects s) \<le> length (session_objects s')
     \<and> echo_count s \<le> echo_count s' \<and> (payload_verified s \<longrightarrow> payload_verified s')"

lemma grows_refl: "grows s s"
  by (simp add: grows_def extends_refl)

lemma grows_trans: "grows s t \<Longrightarrow> grows t u \<Longrightarrow> grows s u"
  unfolding grows_def using extends_trans by (metis le_trans)

named_theorems grow_rules

lemma grows_fields [grow_rules]:
  "grows s0 s \<Longrightarrow> grows s0 (s\<lparr>srv_remote := m\<rparr>)" "grows s0 s \<Longrightarrow> grows s0 (s\<lparr>metadata_confirmed := True\<rparr>)"
  "grows s0 s \<Longrightarrow> grows s0 (s\<lparr>client_send_seen := True\<rparr>)" "grows s0 s \<Longrightarrow> grows s0 (s\<lparr>completion_request_done := True\<rparr>)"
  "grows s0 s \<Longrightarrow> grows s0 (s\<lparr>completion_confirmation_done := True\<rparr>)" "grows s0 s \<Longrightarrow> grows s0 (s\<lparr>remote_disconnected := True\<rparr>)"
  "grows s0 s \<Longrightarrow> grows s0 (s\<lparr>completion_errors := es, completion_failure := True\<rparr>)"
  "grows s0 s \<Longrightarrow> grows s0 (s\<lparr>connections_seen := connections_seen s @ cs\<rparr>)"
  "grows s0 s \<Longrightarrow> grows s0 (s\<lparr>final_connection_id := i\<rparr>)" "grows s0 s \<Longrightarrow> grows s0 (s\<lparr>echo_count := Suc (echo_count s)\<rparr>)"
  "grows s0 s \<Longrightarrow> grows s0 (s\<lparr>payload_verified := True\<rparr>)"
  by (auto simp: grows_def)

lemma grows_recorder [grow_rules]:
  "grows s0 s \<Longrightarrow> extends (srv_recorder s) r \<Longrightarrow> grows s0 (s\<lparr>srv_recorder := r\<rparr>)"
  "grows s0 s \<Longrightarrow> extends (srv_recorder s) r \<Longrightarrow> grows s0 (s\<lparr>srv_recorder := r, session_objects := session_objects s @ os\<rparr>)"
  "grows s0 s \<Longrightarrow> extends (srv_recorder s) (f (srv_recorder s)) \<Longrightarrow> grows s0 (on_recorder f s)"
  by (auto simp: grows_def on_recorder_def elim: extends_trans)

lemma grows_andthen [grow_rules]:
  "grows s0 (snd m) \<Longrightarrow> (\<And>x s. grows s0 s \<Longrightarrow> grows s0 (snd (f x s))) \<Longrightarrow> grows s0 (snd (andthen m f))"
  by (auto simp: andthen_def split: prod.splits sum.splits)

lemma connection_for_grows [grow_rules]: "grows s0 s \<Longrightarrow> grows s0 (snd (connection_for view s))"
  by (auto simp: connection_for_def intro!: grow_rules split: option.splits)

lemma inspect_session_grows [grow_rules]: "grows s0 s \<Longrightarrow> grows s0 (snd (inspect_session env v again s))"
  using inspect_ready_extends [OF extends_refl [of "srv_recorder s"], of v "remote_peer_id (config_of env)" again]
  by (auto simp: inspect_session_def intro!: grow_rules split: prod.splits sum.splits)

lemma reply_with_grows [grow_rules]: "grows s0 s \<Longrightarrow> grows s0 (snd (reply_with env kind ack body s))"
  by (simp add: reply_with_def)

lemma session_data_grows [grow_rules]: "grows s0 s \<Longrightarrow> grows s0 (snd (session_data env data s))"
  by (simp add: session_data_def)

lemma lift_completion_grows [grow_rules]:
  "grows s0 s \<Longrightarrow> grows s0 (snd (lift_completion env (accept_request data) s))"
  "grows s0 s \<Longrightarrow> grows s0 (snd (lift_completion env (accept_confirmation data) s))"
  by (auto simp: lift_completion_def accept_request_def accept_confirmation_def grows_def split: prod.splits sum.splits)

lemma fail_completion_grows:
  "grows s0 s \<Longrightarrow> i \<noteq> ''pair.execution'' \<Longrightarrow> grows s0 (fail_completion i desc stage e s)"
  using record_completion_failure_extends [OF extends_refl [of "srv_recorder s"], of i desc stage e]
  by (auto simp: fail_completion_def Let_def intro!: grow_rules split: prod.splits)

lemma handler_failed_grows [grow_rules]:
  "grows s0 s \<Longrightarrow> grows s0 (finish_failed e s)" "grows s0 s \<Longrightarrow> grows s0 (confirm_failed e s)"
  unfolding finish_failed_def confirm_failed_def by (rule fail_completion_grows; simp)+

lemma body_grows [grow_rules]:
  "grows s0 s \<Longrightarrow> grows s0 (snd (finish_body env data view s))" "grows s0 s \<Longrightarrow> grows s0 (snd (confirm_body env data view s))"
  unfolding finish_body_def confirm_body_def by (auto intro!: grow_rules split: if_splits)

lemma reporting_grows [grow_rules]:
  "grows s0 (snd m) \<Longrightarrow> (\<And>e s. grows s0 s \<Longrightarrow> grows s0 (failed e s)) \<Longrightarrow> grows s0 (snd (reporting failed m))"
  by (auto simp: reporting_def split: prod.splits sum.splits)

lemma receive_grows: "grows s (snd (receive env k data view s))"
proof (cases k)
  case PayloadRequest
  then show ?thesis
    by (auto simp: verify_payload_def Let_def intro!: grow_rules grows_refl split: option.splits)
qed (auto simp: receive_metadata_def confirm_metadata_def receive_client_send_def echo_def verify_reconnect_def Let_def
    intro!: grow_rules extend_rules grows_refl split: if_splits)

lemma replied_grows: "grows s (snd (replied k r s))"
  by (cases "(k, r, s)" rule: replied.cases) (auto intro!: grow_rules extend_rules grows_refl split: if_splits)

lemma observe_grows: "grows s (observe_disconnect env p c s)"
  by (auto simp: observe_disconnect_def intro!: grow_rules grows_refl)

lemma server_fails_state [simp]: "server_fails linked e s = (pc, s') \<longleftrightarrow>
    pc = (if is_exception (exc_class e) \<and> linked then ServerFailing e else ServerStopping (Inl e)) \<and> s' = s"
  by (auto simp: server_fails_def)

lemma then_server_grows:
  "then_server linked r f s = (pc', s') \<Longrightarrow> grows s0 s \<Longrightarrow> (\<And>x. grows s0 (snd (f x s))) \<Longrightarrow> grows s0 s'"
  by (auto simp: then_server_def split: sum.splits) (metis snd_conv)

lemma server_replied_grows: "grows s (snd (server_replied env linked data s))"
  by (auto simp: server_replied_def server_fails_def intro!: grow_rules extend_rules grows_refl split: sum.splits)

lemma stage_grows: "i \<noteq> ''pair.execution'' \<Longrightarrow> grows s (snd (wait_server_stage i desc stage x y z s))"
  unfolding wait_server_stage_def
  using record_completion_failure_extends [OF extends_refl [of "srv_recorder s"], of i desc stage]
  by (auto intro!: grow_rules grows_refl split: prod.splits) (metis snd_conv)+

lemma stage_resume_grows:
  assumes "stage_resume linked stage next ev s = Some (pc', s')" "\<And>x y z. grows s (snd (stage x y z s))"
  shows "grows s s'"
proof (cases ev)
  case (StageDone x y z)
  obtain r t where t: "stage x y z s = (r, t)" by fastforce
  with assms(2) [of x y z] have "grows s t" by simp
  with assms(1) StageDone t show ?thesis by (auto simp: stage_resume_def elim!: then_server_grows)
qed (use assms(1) grows_refl in \<open>auto simp: stage_resume_def\<close>)

lemma server_resume_grows:
  assumes "server_resume env linked pc ev s = Some (pc', s')"
  shows "grows s s'"
proof -
  have waited: "grows s (on_recorder client_send_waited s)" "grows s (on_recorder discovery_found s)"
      "grows s (on_recorder discovery_skipped s)"
      "grows s (on_recorder (passed_plain ''messaging.server_client_send'' d) s)" for d
    by (auto simp: client_send_waited_def discovery_found_def discovery_skipped_def intro!: grow_rules extend_rules grows_refl)
  have gone: "grows s (snd (disconnect_waited env linked r s))" for r
    by (auto simp: disconnect_waited_def server_fails_def intro!: grow_rules extend_rules grows_refl split: sum.splits)
  have stopped: "grows s (snd (server_stopped res r s))" for res r
    using finally_stop_extends [OF extends_refl [of "srv_recorder s"], of res r]
    by (auto simp: server_stopped_def intro!: grow_rules grows_refl split: prod.splits)
  show ?thesis
  proof (cases pc)
    case WaitRequestDone
    with assms stage_grows show ?thesis by (auto simp: server_resume_def elim!: stage_resume_grows)
  next
    case WaitConfirmationDone
    with assms stage_grows show ?thesis by (auto simp: server_resume_def elim!: stage_resume_grows)
  next
    case ServerStarting
    with assms waited show ?thesis
      by (auto simp: server_resume_def server_started_def grows_refl split: pair_event.splits sum.splits if_splits)
  next
    case WaitDisconnect
    with assms gone show ?thesis by (auto simp: server_resume_def split: pair_event.splits) (metis snd_conv)
  next
    case (ServerStopping res)
    with assms stopped show ?thesis by (auto simp: server_resume_def split: pair_event.splits) (metis snd_conv)
  qed (use assms waited server_replied_grows in
      \<open>auto simp: server_resume_def grows_refl split: pair_event.splits sum.splits elim!: then_server_grows\<close>)
qed

section \<open>What the exchange has shown\<close>

definition request_evidence :: "server \<Rightarrow> bool" where
  "request_evidence s \<longleftrightarrow> request_received (completion_state_of s) \<and> CONCURRENT_REQUESTS \<le> echo_count s \<and> payload_verified s
     \<and> 2 \<le> length (connections_seen s) \<and> 2 \<le> length (session_objects s)"

definition confirm_evidence :: "server \<Rightarrow> bool" where
  "confirm_evidence s \<longleftrightarrow> confirmation_received (completion_state_of s) \<and> completion_request_done s"

lemma evidence_grows: "grows s s' \<Longrightarrow> request_evidence s \<Longrightarrow> request_evidence s'" "grows s s' \<Longrightarrow> confirm_evidence s \<Longrightarrow> confirm_evidence s'"
  unfolding grows_def request_evidence_def confirm_evidence_def by auto

lemma reply_with_state: "reply_with env kind ack body s = (r, s') \<Longrightarrow> s' = s"
  by (simp add: reply_with_def)

lemma accepted_request: "accept_request data c = (Inr d, c') \<Longrightarrow> request_received c'"
  "accept_confirmation data c = (Inr d, c') \<Longrightarrow> confirmation_received c'"
  by (auto simp: accept_request_def accept_confirmation_def split: sum.splits if_splits)

lemma connection_for_keeps:
  "connection_for view s = (r, s') \<Longrightarrow> completion_state_of s' = completion_state_of s \<and> completion_request_done s' = completion_request_done s"
  by (auto simp: connection_for_def split: option.splits if_splits)

lemma finish_body_reply: "finish_body env data view s = (Inr (Some a), s') \<Longrightarrow> request_evidence s'"
  by (auto simp: finish_body_def andthen_def lift_completion_def pair_result_def request_evidence_def
      split: prod.splits sum.splits if_splits dest!: accepted_request(1) connection_for_keeps reply_with_state)

lemma confirm_body_reply: "confirm_body env data view s = (Inr (Some a), s') \<Longrightarrow> confirm_evidence s'"
  by (auto simp: confirm_body_def andthen_def lift_completion_def pair_result_def confirm_evidence_def
      split: prod.splits sum.splits if_splits dest!: accepted_request(2) connection_for_keeps reply_with_state)

text \<open>What must be true while a handler waits for its reply to be acknowledged.\<close>

fun handler_evidence :: "server_message \<Rightarrow> server \<Rightarrow> bool" where
  "handler_evidence CompleteRequest s = request_evidence s"
| "handler_evidence CompleteConfirmed s = confirm_evidence s"
| "handler_evidence k s = True"

lemma receive_evidence: "receive env k data view s = (Inr (Some a), s') \<Longrightarrow> handler_evidence k s'"
  by (cases k) (auto simp: reporting_def split: prod.splits sum.splits if_splits intro: finish_body_reply confirm_body_reply)

text \<open>The checks recorded and the events seen when the coroutine stands at one of its waits.\<close>

abbreviation found_checks :: "string list" where "found_checks \<equiv> [''discovery.cross_device'']"
abbreviation sent_checks :: "string list" where "sent_checks \<equiv> ''messaging.server_client_send'' # found_checks"
abbreviation request_checks :: "string list" where
  "request_checks \<equiv> ''messaging.server_client_request'' # ''messaging.ack'' # sent_checks"
abbreviation client_checks :: "string list" where
  "client_checks \<equiv> [''messaging.multiple'', ''messaging.concurrent'', ''messaging.payload'', ''lifecycle.disconnect'',
     ''lifecycle.reconnect''] @ request_checks"
abbreviation closed_checks :: "string list" where
  "closed_checks \<equiv> ''lifecycle.remote_graceful_disconnect'' # client_checks"

fun checks_at :: "server_pc \<Rightarrow> string list" where
  "checks_at WaitMetadata = found_checks"
| "checks_at SendingToClient = found_checks"
| "checks_at RequestingClient = sent_checks"
| "checks_at WaitClientSend = request_checks"
| "checks_at WaitRequestDone = client_checks"
| "checks_at WaitConfirmationDone = client_checks"
| "checks_at WaitDisconnect = client_checks"
| "checks_at KeptAlive = closed_checks"
| "checks_at (ServerStopping (Inr x)) = closed_checks"
| "checks_at (ServerEnded (Inr x)) = ''lifecycle.cleanup'' # closed_checks"
| "checks_at pc = []"

definition closing :: "server \<Rightarrow> bool" where
  "closing s \<longleftrightarrow> metadata_confirmed s \<and> client_send_seen s \<and> completion_confirmation_done s \<and> remote_disconnected s"

fun seen_at :: "server_pc \<Rightarrow> server \<Rightarrow> bool" where
  "seen_at SendingToClient s = metadata_confirmed s"
| "seen_at RequestingClient s = metadata_confirmed s"
| "seen_at WaitClientSend s = metadata_confirmed s"
| "seen_at WaitRequestDone s = (metadata_confirmed s \<and> client_send_seen s)"
| "seen_at WaitConfirmationDone s = (metadata_confirmed s \<and> client_send_seen s \<and> completion_request_done s)"
| "seen_at WaitDisconnect s = (metadata_confirmed s \<and> client_send_seen s \<and> completion_confirmation_done s)"
| "seen_at KeptAlive s = closing s"
| "seen_at (ServerStopping (Inr x)) s = closing s"
| "seen_at (ServerEnded (Inr x)) s = closing s"
| "seen_at pc s = True"

definition recorded :: "string list \<Rightarrow> recorder \<Rightarrow> bool" where
  "recorded is r \<longleftrightarrow> (\<forall>i \<in> set is. lit i \<in> rec_ids r)"

lemma recorded_simps [simp]: "recorded [] r" "recorded (i # is) r \<longleftrightarrow> lit i \<in> rec_ids r \<and> recorded is r"
  "recorded (is @ js) r \<longleftrightarrow> recorded is r \<and> recorded js r"
  by (auto simp: recorded_def)

lemma recorded_more: "recorded is r \<Longrightarrow> rec_ids r \<subseteq> rec_ids r' \<Longrightarrow> recorded is r'"
  by (auto simp: recorded_def)

definition server_inv :: "server_run \<Rightarrow> bool" where
  "server_inv run = (case run of (pc, ks, s) \<Rightarrow>
     (\<forall>k \<in> set ks. handler_evidence k s)
     \<and> (completion_request_done s \<longrightarrow> request_evidence s \<and> recorded [''protocol.completion_request''] (srv_recorder s))
     \<and> (completion_confirmation_done s \<longrightarrow> confirm_evidence s \<and> recorded [''protocol.completion_confirmation''] (srv_recorder s))
     \<and> recorded (checks_at pc) (srv_recorder s) \<and> seen_at pc s)"

lemma grows_ids: "grows s s' \<Longrightarrow> rec_ids (srv_recorder s) \<subseteq> rec_ids (srv_recorder s')"
  by (simp add: grows_def extends_ids)

lemma handler_evidence_grows: "grows s s' \<Longrightarrow> handler_evidence k s \<Longrightarrow> handler_evidence k s'"
  by (cases k) (auto dest: evidence_grows)

lemma seen_grows: "grows s s' \<Longrightarrow> seen_at pc s \<Longrightarrow> seen_at pc s'"
  by (cases "(pc, s)" rule: seen_at.cases) (auto simp: grows_def closing_def)

text \<open>A step that grows the state keeps what holds at the wait and at the handlers; what remains is what it adds.\<close>

lemma server_inv_grows:
  assumes "server_inv (pc, ks, s)" "grows s s'"
    and "completion_request_done s' \<longrightarrow> completion_request_done s \<or> request_evidence s' \<and> recorded [''protocol.completion_request''] (srv_recorder s')"
    and "completion_confirmation_done s' \<longrightarrow> completion_confirmation_done s
      \<or> confirm_evidence s' \<and> recorded [''protocol.completion_confirmation''] (srv_recorder s')"
    and "recorded (checks_at pc) (srv_recorder s') \<Longrightarrow> recorded (checks_at pc') (srv_recorder s')" "seen_at pc s' \<Longrightarrow> seen_at pc' s'"
    and "\<forall>k \<in> set ks'. k \<in> set ks \<or> handler_evidence k s'"
  shows "server_inv (pc', ks', s')"
proof -
  note ids = grows_ids [OF assms(2)]
  show ?thesis
    using assms(1,3-7) evidence_grows [OF assms(2)] handler_evidence_grows [OF assms(2)] recorded_more [OF _ ids]
      seen_grows [OF assms(2)]
    unfolding server_inv_def prod.case by meson
qed

text \<open>The two events of the handshake are set only by the handlers that have been acknowledged.\<close>

definition done_flags :: "server \<Rightarrow> bool \<times> bool" where
  "done_flags s = (completion_request_done s, completion_confirmation_done s)"

named_theorems flag_rules

lemma andthen_flags [flag_rules]:
  "done_flags (snd m) = d \<Longrightarrow> (\<And>x s. done_flags s = d \<Longrightarrow> done_flags (snd (f x s)) = d) \<Longrightarrow> done_flags (snd (andthen m f)) = d"
  by (auto simp: andthen_def split: prod.splits sum.splits)

lemma reporting_flags [flag_rules]:
  "done_flags (snd m) = d \<Longrightarrow> (\<And>e s. done_flags (failed e s) = done_flags s) \<Longrightarrow> done_flags (snd (reporting failed m)) = d"
  by (auto simp: reporting_def split: prod.splits sum.splits)

lemma operation_flags [simp]:
  "done_flags (s\<lparr>srv_remote := m\<rparr>) = done_flags s" "done_flags (s\<lparr>metadata_confirmed := b\<rparr>) = done_flags s"
  "done_flags (s\<lparr>client_send_seen := b\<rparr>) = done_flags s" "done_flags (s\<lparr>echo_count := n\<rparr>) = done_flags s"
  "done_flags (s\<lparr>payload_verified := b\<rparr>) = done_flags s" "done_flags (s\<lparr>final_connection_id := i\<rparr>) = done_flags s"
  "done_flags (s\<lparr>srv_recorder := r\<rparr>) = done_flags s" "done_flags (s\<lparr>remote_disconnected := b\<rparr>) = done_flags s"
  "done_flags (on_recorder g s) = done_flags s" "done_flags (snd (connection_for view s)) = done_flags s"
  "done_flags (snd (inspect_session env v again s)) = done_flags s" "done_flags (snd (reply_with env kind ack body s)) = done_flags s"
  "done_flags (snd (session_data env data s)) = done_flags s" "done_flags (snd (lift_completion env f s)) = done_flags s"
  "done_flags (finish_failed e s) = done_flags s" "done_flags (confirm_failed e s) = done_flags s"
  by (auto simp: done_flags_def on_recorder_def connection_for_def inspect_session_def reply_with_def session_data_def
      lift_completion_def finish_failed_def confirm_failed_def fail_completion_def Let_def split: option.splits prod.splits sum.splits)

lemma receive_flags: "done_flags (snd (receive env k data view s)) = done_flags s"
proof (cases k)
  case PayloadRequest
  then show ?thesis
    by (auto simp: verify_payload_def Let_def intro!: flag_rules split: option.splits)
qed (auto simp: receive_metadata_def confirm_metadata_def receive_client_send_def echo_def verify_reconnect_def
    finish_body_def confirm_body_def Let_def intro!: flag_rules split: if_splits)

lemma observe_flags: "done_flags (observe_disconnect env p c s) = done_flags s"
  by (simp add: observe_disconnect_def)

lemma then_server_cases:
  assumes "then_server linked r f s = (pc', s')"
  obtains (raised) e where "s' = s" "pc' = ServerFailing e \<or> pc' = ServerStopping (Inl e)" | (went_on) x where "r = Inr x" "f x s = (pc', s')"
  using assms by (cases r) (auto simp: then_server_def split: if_splits)

text \<open>A step of the coroutine keeps the two events; where it goes on to, what it needs has been recorded and seen.\<close>

definition moves :: "server_pc \<Rightarrow> server \<Rightarrow> server_pc \<Rightarrow> server \<Rightarrow> bool" where
  "moves pc s pc' s' \<longleftrightarrow> done_flags s' = done_flags s
     \<and> (recorded (checks_at pc) (srv_recorder s') \<longrightarrow> recorded (checks_at pc') (srv_recorder s'))
     \<and> (seen_at pc s' \<longrightarrow> seen_at pc' s')"

lemma moves_fail: "moves pc s (ServerFailing e) s" "moves pc s (ServerStopping (Inl e)) s" "moves pc s (ServerEnded (Inl e)) s"
  by (simp_all add: moves_def)

lemma server_fails_moves: "server_fails linked e s' = (pc', t) \<Longrightarrow> done_flags s' = done_flags s \<Longrightarrow> moves pc s pc' t"
  by (auto simp: moves_def)

lemma then_server_moves:
  assumes "then_server linked r f s1 = (pc', s')" "done_flags s1 = done_flags s" "\<And>x. r = Inr x \<Longrightarrow> f x s1 = (pc', s') \<Longrightarrow> moves pc s pc' s'"
  shows "moves pc s pc' s'"
  using assms(1)
proof (cases rule: then_server_cases)
  case (raised e)
  with assms(2) show ?thesis by (auto simp: moves_def)
qed (use assms(3) in blast)

lemmas recorder_defs = on_recorder_def discovery_found_def discovery_skipped_def client_send_waited_def passed_ids
  recorder_add_ids comp_apply

lemma stage_flags: "done_flags (snd (wait_server_stage i desc stage x y z s)) = done_flags s"
  by (auto simp: wait_server_stage_def split: prod.splits)

lemma stage_returns: "wait_server_stage i desc stage x y z s = (Inr u, s') \<Longrightarrow> x \<and> s' = s"
  by (auto simp: wait_server_stage_def split: prod.splits if_splits)

lemma stage_resume_moves:
  assumes "stage_resume linked (wait_server_stage i desc stage) next ev s = Some (pc', s')"
    and "\<And>x y z. ev = StageDone x y z \<Longrightarrow> x \<Longrightarrow> moves pc s next s"
  shows "moves pc s pc' s'"
proof (cases ev)
  case (StageDone x y z)
  obtain r t where t: "wait_server_stage i desc stage x y z s = (r, t)" by fastforce
  with stage_flags [of i desc stage x y z s] have f: "done_flags t = done_flags s" by simp
  from assms(1) t have "then_server linked r (\<lambda>_ s. (next, s)) t = (pc', s')" by (simp add: stage_resume_def StageDone)
  then show ?thesis
  proof (rule then_server_moves [OF _ f])
    fix u assume "r = Inr u" "(next, t) = (pc', s')"
    moreover from this t have "x" "t = s" by (auto dest: stage_returns)
    ultimately show "moves pc s pc' s'" using assms(2) [OF StageDone] by simp
  qed
qed (use assms(1) in \<open>auto simp: stage_resume_def moves_fail split: if_splits\<close>)

lemma server_resume_moves:
  assumes "server_resume env linked pc ev s = Some (pc', s')" "event_set pc ev s"
  shows "moves pc s pc' s'"
proof (cases pc)
  case ServerStarting
  with assms show ?thesis
    by (auto simp: server_resume_def server_started_def moves_def recorder_defs simp del: lit_simps
        split: pair_event.splits sum.splits if_splits)
next
  case ServerDiscovering
  from assms show ?thesis
    unfolding server_resume_def ServerDiscovering server_pc.case
    by (clarsimp split: pair_event.split_asm)
      (erule then_server_moves, auto simp: moves_def event_set_def recorder_defs simp del: lit_simps split: sum.split_asm if_split_asm)
next
  case WaitMetadata
  from assms show ?thesis
    unfolding server_resume_def WaitMetadata server_pc.case
    by (clarsimp split: pair_event.split_asm)
      (erule then_server_moves, auto simp: moves_def event_set_def recorder_defs simp del: lit_simps split: sum.split_asm if_split_asm)
next
  case SendingToClient
  from assms show ?thesis
    unfolding server_resume_def SendingToClient server_pc.case
    by (clarsimp split: pair_event.split_asm)
      (erule then_server_moves, auto simp: moves_def event_set_def recorder_defs simp del: lit_simps split: sum.split_asm if_split_asm)
next
  case RequestingClient
  from assms show ?thesis
    unfolding server_resume_def RequestingClient server_pc.case
    by (clarsimp split: pair_event.split_asm)
      (erule then_server_moves, auto simp: server_replied_def moves_def event_set_def recorder_defs simp del: lit_simps split: sum.split_asm if_split_asm)
next
  case WaitClientSend
  from assms show ?thesis
    unfolding server_resume_def WaitClientSend server_pc.case
    by (clarsimp split: pair_event.split_asm)
      (erule then_server_moves, auto simp: moves_def event_set_def recorder_defs simp del: lit_simps split: sum.split_asm if_split_asm)
next
  case WaitRequestDone
  show ?thesis
    using assms(1) unfolding server_resume_def WaitRequestDone server_pc.case
    by (rule stage_resume_moves) (use assms(2) WaitRequestDone in \<open>auto simp: event_set_def moves_def\<close>)
next
  case WaitConfirmationDone
  show ?thesis
    using assms(1) unfolding server_resume_def WaitConfirmationDone server_pc.case
    by (rule stage_resume_moves) (use assms(2) WaitConfirmationDone in \<open>auto simp: event_set_def moves_def\<close>)
next
  case WaitDisconnect
  with assms show ?thesis
    by (auto simp: server_resume_def disconnect_waited_def moves_def recorder_defs event_set_def closing_def simp del: lit_simps
        split: pair_event.splits sum.splits if_splits)
next
  case (ServerStopping res)
  with assms(1) obtain stopped where "server_stopped res stopped s = (pc', s')"
    by (auto simp: server_resume_def split: pair_event.split_asm)
  moreover obtain res' r where r: "finally_stop res stopped (srv_recorder s) = (res', r)" by fastforce
  ultimately have ended: "pc' = ServerEnded res'" "s' = s\<lparr>srv_recorder := r\<rparr>" by (simp_all add: server_stopped_def)
  show ?thesis
  proof (cases res')
    case (Inl e)
    then show ?thesis by (simp add: ended moves_def)
  next
    case (Inr u)
    from finally_stop_returns [OF r [unfolded Inr]] have "res = Inr u" "lit ''lifecycle.cleanup'' \<in> rec_ids r" by simp_all
    then show ?thesis by (simp add: ended Inr ServerStopping moves_def del: lit_simps)
  qed
qed (use assms in \<open>auto simp: server_resume_def moves_def split: pair_event.splits sum.splits\<close>)

end
