(* ===== verification/PairExchange.thy ===== *)
theory PairExchange
  imports PairServer
begin

text \<open>
  The server role as a machine: the invariant of its coroutine and its handlers, its interpretation of
  \<open>pair_role\<close>, and what the exit code 0 of a server process says about the exchange it has had.
  \<open>stimulate\<close> computes its steps, for two concrete exchanges: one in which everything succeeds, and one in
  which the server has passed checks that never took place.
\<close>

section \<open>The invariant\<close>

lemma done_flags_eq: "done_flags s' = done_flags s \<longleftrightarrow>
    completion_request_done s' = completion_request_done s \<and> completion_confirmation_done s' = completion_confirmation_done s"
  by (simp add: done_flags_def)

text \<open>A step of one of the handlers that sets neither event\<close>

lemma server_inv_keeps:
  assumes "server_inv (pc, ks, s)" "grows s s'" "done_flags s' = done_flags s"
    and "\<forall>k \<in> set ks'. k \<in> set ks \<or> handler_evidence k s'"
  shows "server_inv (pc, ks', s')"
  using assms(1,2) _ _ _ _ assms(4) by (rule server_inv_grows) (use assms(3) in \<open>simp_all add: done_flags_eq\<close>)

lemma replied_flags:
  assumes "replied k r s = (x, s')"
  shows "completion_request_done s' \<Longrightarrow> completion_request_done s
      \<or> k = CompleteRequest \<and> recorded [''protocol.completion_request''] (srv_recorder s')"
    and "completion_confirmation_done s' \<Longrightarrow> completion_confirmation_done s
      \<or> k = CompleteConfirmed \<and> recorded [''protocol.completion_confirmation''] (srv_recorder s')"
  using assms operation_flags(15,16) [of _ s, unfolded done_flags_eq]
  by (cases "(k, r, s)" rule: replied.cases;
      auto simp: on_recorder_def passed_ids simp del: lit_simps split: if_splits)+

lemma server_inv_step:
  assumes "server_step env run run'" "server_inv run"
  shows "server_inv run'"
  using assms
proof cases
  case (handler_waits k data view s a s' pc ks)
  have "done_flags s' = done_flags s" "grows s s'"
    using receive_flags [of env k data view s] receive_grows [of s env k data view] handler_waits by simp_all
  with assms(2) receive_evidence [OF handler_waits(3)] show ?thesis
    unfolding handler_waits by (auto intro: server_inv_keeps)
next
  case (handler_ends k data view s r s' pc ks)
  have "done_flags s' = done_flags s" "grows s s'"
    using receive_flags [of env k data view s] receive_grows [of s env k data view] handler_ends by simp_all
  with assms(2) show ?thesis unfolding handler_ends by (auto intro: server_inv_keeps)
next
  case (handler_resumes k ks r s x s' pc)
  have g: "grows s s'" using replied_grows [of s k r] handler_resumes by simp
  have "handler_evidence k s'"
    using assms(2) handler_resumes handler_evidence_grows [OF g] by (simp add: server_inv_def)
  with replied_flags [OF handler_resumes(4)]
  have "completion_request_done s' \<longrightarrow> completion_request_done s \<or> request_evidence s' \<and> recorded [''protocol.completion_request''] (srv_recorder s')"
    "completion_confirmation_done s' \<longrightarrow> completion_confirmation_done s
       \<or> confirm_evidence s' \<and> recorded [''protocol.completion_confirmation''] (srv_recorder s')"
    by auto
  with assms(2) g set_remove1_subset [of k ks] show ?thesis
    unfolding handler_resumes by (auto intro: server_inv_grows simp del: recorded_simps)
next
  case (disconnect_seen pc ks s p c)
  with assms(2) show ?thesis by (auto intro: server_inv_keeps observe_grows simp: observe_flags)
next
  case (coroutine pc ev s linked pc' s' ks)
  have m: "done_flags s' = done_flags s"
    "recorded (checks_at pc) (srv_recorder s') \<Longrightarrow> recorded (checks_at pc') (srv_recorder s')" "seen_at pc s' \<Longrightarrow> seen_at pc' s'"
    using server_resume_moves [OF coroutine(4,3)] by (simp_all add: moves_def)
  have "server_inv (pc, ks, s)" "grows s s'"
    using assms(2) coroutine server_resume_grows by simp_all
  then show ?thesis
    unfolding coroutine by (rule server_inv_grows) (use m in \<open>simp_all add: done_flags_eq\<close>)
qed

interpretation server_machine:
  machine_invariant "server_step env" "(ServerStarting, [], new_server session r)" server_inv
proof
  show "server_inv (ServerStarting, [], new_server session r)" by (simp add: server_inv_def new_server_def)
qed (rule server_inv_step)

lemma server_step_grows:
  assumes "server_step env (pc, ks, s) (pc', ks', s')"
  shows "grows s s'"
  using assms
proof cases
  case (handler_waits k data view a)
  with receive_grows [of s env k data view] show ?thesis by simp
next
  case (handler_ends k data view r)
  with receive_grows [of s env k data view] show ?thesis by simp
next
  case (handler_resumes k r x)
  with replied_grows [of s k r] show ?thesis by simp
qed (use observe_grows server_resume_grows in auto)

lemma server_only_grows: "server_runs env session r run \<Longrightarrow> grows (new_server session r) (snd (snd run))"
  unfolding server_runs_def
proof (induction run rule: reachable.induct)
  case (next_state run run')
  have "grows (snd (snd run)) (snd (snd run'))"
    by (rule server_step_grows [of env "fst run" "fst (snd run)" _ "fst run'" "fst (snd run')"]) (use next_state(2) in simp)
  then show ?case by (rule grows_trans [OF next_state(3)])
qed (simp add: grows_refl)

section \<open>The role\<close>

text \<open>Every check that a server that returned has recorded\<close>

definition server_checks :: "string list" where
  "server_checks = [''protocol.completion_request'', ''protocol.completion_confirmation'', ''lifecycle.cleanup'',
     ''lifecycle.remote_graceful_disconnect'', ''messaging.multiple'', ''messaging.concurrent'', ''messaging.payload'',
     ''lifecycle.disconnect'', ''lifecycle.reconnect'', ''messaging.server_client_request'', ''messaging.ack'',
     ''messaging.server_client_send'', ''discovery.cross_device'']"

lemma server_returned:
  assumes "server_runs env session r (ServerEnded (Inr u), ks, s)"
  shows "metadata_confirmed s \<and> client_send_seen s \<and> remote_disconnected s \<and> request_evidence s \<and> confirm_evidence s
    \<and> recorded server_checks (srv_recorder s)"
  using server_machine.holds [OF assms [unfolded server_runs_def]]
  by (auto simp: server_inv_def closing_def confirm_evidence_def server_checks_def simp del: lit_simps)

interpretation server: pair_role "server_runs env session" server_outcome server_recorder "List.map lit server_checks"
proof
  fix r run assume "server_runs env session r run"
  then show "extends r (server_recorder run)"
    by (cases run) (auto dest!: server_only_grows simp: server_recorder_def grows_def new_server_def)
next
  fix r run assume "server_runs env session r run" "server_outcome run = Some (Inr ())"
  then show "set (List.map lit server_checks) \<subseteq> rec_ids (server_recorder run)"
    by (cases run) (auto dest!: server_returned simp: server_recorder_def server_outcome_def recorded_def simp del: lit_simps
        split: server_pc.splits)
qed

section \<open>Scripts\<close>

text \<open>The same steps as a function of what happens to the process: to follow a concrete exchange.\<close>

datatype stimulus =
    Arrives server_message pyval "ready_view option"
  | Acknowledged server_message
  | Closed "pystr option" "pystr option"
  | Resumes pair_event

fun stimulate :: "pair_env \<Rightarrow> stimulus \<Rightarrow> server_run \<Rightarrow> server_run option" where
  "stimulate env (Arrives k data view) (pc, ks, s) =
     (case receive env k data view s of (Inr (Some a), s') \<Rightarrow> Some (pc, k # ks, s') | (r, s') \<Rightarrow> Some (pc, ks, s'))"
| "stimulate env (Acknowledged k) (pc, ks, s) =
     (if k \<in> set ks then Some (pc, remove1 k ks, snd (replied k (Inr ()) s)) else None)"
| "stimulate env (Closed p c) (pc, ks, s) = Some (pc, ks, observe_disconnect env p c s)"
| "stimulate env (Resumes ev) (pc, ks, s) =
     (if event_set pc ev s then map_option (\<lambda>(pc', s'). (pc', ks, s')) (server_resume env True pc ev s) else None)"

lemma stimulate_step: "stimulate env x run = Some run' \<Longrightarrow> server_step env run run'"
proof (induction env x run rule: stimulate.induct)
  case (1 env k data view pc ks s)
  obtain r s' where r: "receive env k data view s = (r, s')" by fastforce
  with 1 show ?case by (auto intro: server_step.intros split: sum.splits option.splits)
next
  case (2 env k pc ks s)
  obtain x s' where "replied k (Inr ()) s = (x, s')" by fastforce
  with 2 show ?case by (auto intro: server_step.intros split: if_splits)
qed (auto intro: server_step.intros split: if_splits)

lemma followed:
  "follow (stimulate env) xs run = Some run' \<Longrightarrow> reachable (server_step env) init run \<Longrightarrow> reachable (server_step env) init run'"
  by (rule follow_reachable [where f = "stimulate env"]) (rule stimulate_step)

section \<open>A concrete exchange\<close>

definition demo_session :: pystr where "demo_session = lit ''00000000-0000-0000-0000-00000000000a''"

definition demo_env :: pair_env where
  "demo_env = \<lparr>round_ms = (\<lambda>t. t), generated_at = [], platform_info = List.map (\<lambda>k. (PStr k, PStr [120])) platform_fields,
     python_info = List.map (\<lambda>k. (PStr k, PStr [120])) python_fields,
     suite_info = [(PStr (lit ''version''), PStr [120]), (PStr (lit ''build_id''), PStr [120])]
       @ List.map (\<lambda>k. (PStr k, PInt 2)) number_fields,
     config_of = \<lparr>cfg_role = lit ''server'', cfg_scenario = lit ''direct'', cfg_target = None, cfg_bind = lit ''127.0.0.1'',
       cfg_advertise = lit ''127.0.0.1'', cfg_port = 50000, cfg_timeout = Finite 60, cfg_discovery_port = 50001,
       cfg_broadcast = [], cfg_keep_alive = False, cfg_require_installed = False\<rparr>,
     local_paqto = [(PStr (lit ''version''), PStr [49]), (PStr (lit ''import_path''), PStr [47])],
     protocol_text = (\<lambda>e. []), sha256_hex = (\<lambda>b. []), encode_text = (\<lambda>t. []), timeout_text = [], library_text = (\<lambda>e. ([], []))\<rparr>"

definition demo_view :: "pystr \<Rightarrow> conn \<Rightarrow> ready_view" where
  "demo_view peer c = \<lparr>view_conn = c, view_session = Some (\<lparr>session_peer_id = peer, session_version = 1,
       session_serializer_id = lit ''x'', session_capabilities = [], session_max_message_size = 1,
       peer_id_authenticated = True, session_metadata = []\<rparr>, c),
     view_security = \<lparr>encrypted = True, authenticated = True, authenticated_peer_id = Some peer,
       mechanism = None, sec_metadata = []\<rparr>\<rparr>"

definition demo_value :: "pyval \<Rightarrow> pyval" where
  "demo_value v = PDict [(PStr (lit ''session_id''), PStr demo_session), (PStr (lit ''value''), v)]"

definition demo_phase :: "pystr \<Rightarrow> pyval" where
  "demo_phase ph = PDict [(PStr (lit ''session_id''), PStr demo_session), (PStr (lit ''completion_phase''), PStr ph)]"

definition demo_metadata :: pyval where
  "demo_metadata = PDict (metadata_message None (platform_info demo_env) (python_info demo_env) [49] [47] (suite_info demo_env) [])"

lemma demo_session_id: "validate_session_id b (PStr demo_session) = Inr (Some demo_session)"
  by (simp add: demo_session_def validate_session_id_def non_empty_string_def uuid_text_def uuid_digits_def strip_braces_def
      hyphenated_def ascii_lower_def hex_val_def)

lemma demo_value_valid: "validate_session_payload (demo_value v) demo_session
    = Inr [(PStr (lit ''session_id''), PStr demo_session), (PStr (lit ''value''), v)]"
  by (simp add: demo_value_def validate_session_payload_def as_mapping_def demo_session_id res_simps dget_def)

lemma demo_metadata_valid: "\<exists>m. validate_metadata demo_metadata None True = Inr m"
  by (simp add: demo_metadata_def metadata_message_def demo_env_def validate_metadata_def as_mapping_def dget_def equals_int_def
      PAIR_PROTOCOL_VERSION_def PROTOCOL_ID_def validate_session_id_def session_value_def selected_def platform_fields_def
      python_fields_def number_fields_def named_def positive_int_def)

lemma demo_phase_valid: "validate_completion_payload (demo_phase ph) demo_session ph
    = Inr [(PStr (lit ''session_id''), PStr demo_session), (PStr (lit ''completion_phase''), PStr ph)]"
  by (simp add: validate_completion_payload_def demo_phase_def validate_session_payload_def as_mapping_def demo_session_id
      res_simps dget_def)

definition demo_script :: "stimulus list" where
  "demo_script =
     (let msg = (\<lambda>c k v. [Arrives k v (Some (demo_view (lit ''node-a'') c)), Acknowledged k]);
          note = (\<lambda>k v. [Arrives k v (Some (demo_view (lit ''node-a'') 1))]) in
      [Resumes (NodeStarted (Inr ()))] @ msg 1 MetadataRequest demo_metadata @ note MetadataConfirm (demo_value PNone)
      @ List.map Resumes [EventWaited (Inr ()), MessageSent (Inr ()), ReplyReceived (Inr (demo_value (PStr (lit ''server-reply''))))]
      @ note ClientSend (demo_value (PStr (lit ''client-to-server'')))
      @ concat (replicate 8 (msg 1 EchoRequest (demo_value (PInt 1)))) @ msg 1 PayloadRequest (demo_value (PStr [120]))
      @ [Resumes (EventWaited (Inr ()))] @ msg 2 ReconnectRequest (demo_value PNone)
      @ msg 2 CompleteRequest (demo_phase COMPLETION_REQUEST) @ [Resumes (StageDone True False False)]
      @ msg 2 CompleteConfirmed (demo_phase COMPLETION_CONFIRMATION) @ [Resumes (StageDone True False False),
         Closed (Some (lit ''node-a'')) (Some (connection_id 2)), Resumes (EventWaited (Inr ()))])"

definition clean :: "recorder \<Rightarrow> bool" where
  "clean r \<longleftrightarrow> (\<forall>x \<in> set (rec_results r). status x \<noteq> FAIL \<and> \<not> (required x \<and> status x \<in> {SKIP, UNAVAILABLE}))"

lemma clean_add: "clean r \<Longrightarrow> clean (passed i desc text r)" "clean r \<Longrightarrow> clean (discovery_skipped r)" "clean new_recorder"
  by (auto simp: clean_def passed_def discovery_skipped_def recorder_add_def entry_def new_recorder_def simp del: lit_simps)

lemma demo_remote: "remote_peer_id (config_of demo_env) = lit ''node-a''" "cfg_scenario (config_of demo_env) = lit ''direct''"
  "cfg_keep_alive (config_of demo_env) = False"
  by (simp_all add: demo_env_def remote_peer_id_def)

lemma demo_run_metadata: "\<exists>m. run_metadata demo_env session = Inr m"
  by (simp add: run_metadata_def demo_env_def dget_def)

lemma demo_inspect_ready: "inspect_ready (demo_view peer c) peer again r = (Inr c, snd (inspect_ready (demo_view peer c) peer again r))"
  by (simp add: inspect_ready_def demo_view_def)

lemma demo_inspected: "inspect_session demo_env (demo_view (lit ''node-a'') c) again s =
    (Inr (), s\<lparr>srv_recorder := snd (inspect_ready (demo_view (lit ''node-a'') c) (lit ''node-a'') again (srv_recorder s)),
       session_objects := session_objects s @ [c]\<rparr>)"
  by (simp add: inspect_session_def demo_remote inspect_ready_def demo_view_def)

lemma clean_inspected: "clean r \<Longrightarrow> clean (snd (inspect_ready (demo_view peer c) peer again r))"
  by (simp add: inspect_ready_def demo_view_def clean_add)

lemma view_of_demo [simp]: "view_conn (demo_view peer c) = c"
  by (simp add: demo_view_def)

lemma eight: "replicate 8 x = [x, x, x, x, x, x, x, x]"
  by (simp add: eval_nat_numeral)

lemma demo_exchange:
  assumes "clean r"
  shows "\<exists>s. follow (stimulate demo_env) demo_script (ServerStarting, [], new_server demo_session r) = Some (ServerStopping (Inr ()), [], s)
    \<and> clean (srv_recorder s)"
proof -
  obtain m m' where m: "validate_metadata demo_metadata None True = Inr m" "run_metadata demo_env (Some demo_session) = Inr m'"
    using demo_metadata_valid demo_run_metadata by blast
  show ?thesis
    using assms
    by (simp add: demo_script_def new_server_def server_resume_def server_started_def demo_remote m demo_value_valid
        session_data_def receive_metadata_def confirm_metadata_def receive_client_send_def echo_def verify_payload_def verify_reconnect_def
        finish_body_def confirm_body_def reporting_def andthen_def pair_result_def connection_for_def demo_inspected
        reply_with_def session_payload_def session_value_def completion_payload_def demo_session_id lift_completion_def
        accept_request_def accept_confirmation_def demo_phase_valid fresh_completion_def on_recorder_def event_set_def
        then_server_def server_replied_def stage_resume_def wait_server_stage_def disconnect_waited_def observe_disconnect_def
        client_send_waited_def CONCURRENT_REQUESTS_def eight utf8_encode_def utf8_char_def inj_lit clean_add clean_inspected
        dget_def Let_def del: lit_simps)
qed

lemma clean_node: "assert_clean (new_node i c) = Inr ()"
  by (simp add: assert_clean_def counters_def new_node_def active_connection_count_def pending_request_count_def
      pending_acknowledgement_count_def reconnect_task_count_def heartbeat_task_count_def inbound_queue_size_def outbound_queue_size_def)

lemma clean_exit: "clean r \<Longrightarrow> \<exists>report. pair_main env session_id remote took (Inr ()) r = (report, 0)"
  by (auto simp: pair_main_def pair_results_def report_exit Let_def clean_def list_ex_iff simp del: lit_simps)

lemma demo_runs: "\<exists>s. server_runs demo_env demo_session (snd (pair_begin demo_env)) (ServerEnded (Inr ()), [], s) \<and> clean (srv_recorder s)"
proof -
  have empty: "snd (pair_begin demo_env) = new_recorder" by (simp add: pair_begin_def demo_env_def)
  obtain s where s: "follow (stimulate demo_env) demo_script (ServerStarting, [], new_server demo_session new_recorder) = Some (ServerStopping (Inr ()), [], s)"
      "clean (srv_recorder s)" using demo_exchange [OF clean_add(3)] by blast
  let ?t = "on_recorder (passed_plain ''lifecycle.cleanup'' ''final task/socket/correlation cleanup'') s"
  have "stimulate demo_env (Resumes (NodeStopped (Inr (new_node i c)))) (ServerStopping (Inr ()), [], s) = Some (ServerEnded (Inr ()), [], ?t)" for i c
    by (simp add: event_set_def server_resume_def server_stopped_def finally_stop_def stop_and_record_def clean_node on_recorder_def)
  then have "reachable (server_step demo_env) (ServerStarting, [], new_server demo_session new_recorder) (ServerEnded (Inr ()), [], ?t)"
    by (rule reachable.next_state [OF followed [OF s(1) reachable.start] stimulate_step])
  with s(2) empty show ?thesis by (auto simp: server_runs_def on_recorder_def clean_add)
qed

section \<open>What the exit code 0 of a server says\<close>

text \<open>C36 A server process that ends with the exit code 0 has had the whole exchange with the other role: its coroutine
  returned; the metadata were confirmed and the client's application message arrived; the completion request
  and its confirmation were accepted, with at least the eight concurrent requests and the large payload seen, two
  connections and two READY sessions inspected, and the disconnect of the last connection observed. The report
  holds each of the server's checks, and none of its checks failed or was a required one left undone.\<close>

theorem server_exit_zero:
  assumes "server_runs env session (snd (pair_begin env)) (pc, ks, s)" "server_outcome (pc, ks, s) = Some res"
    and "pair_main env session_id remote took res (srv_recorder s) = (report, 0)"
  shows "res = Inr () \<and> metadata_confirmed s \<and> client_send_seen s
    \<and> request_received (completion_state_of s) \<and> confirmation_received (completion_state_of s)
    \<and> CONCURRENT_REQUESTS \<le> echo_count s \<and> payload_verified s
    \<and> 2 \<le> length (connections_seen s) \<and> 2 \<le> length (session_objects s) \<and> remote_disconnected s
    \<and> report = Some (build_pair_report env session_id remote (rec_results (srv_recorder s)) took)
    \<and> (\<forall>i \<in> set server_checks. \<exists>x \<in> set (rec_results (srv_recorder s)).
         result_id x = lit i \<and> (status x = PASS \<or> \<not> required x \<and> status x \<noteq> FAIL))"
proof -
  from server.exit_zero [OF assms(1,2)] assms(3) have all: "res = Inr ()"
      "report = Some (build_pair_report env session_id remote (rec_results (srv_recorder s)) took)"
      "\<forall>i \<in> set server_checks. \<exists>x \<in> set (rec_results (srv_recorder s)).
         result_id x = lit i \<and> (status x = PASS \<or> \<not> required x \<and> status x \<noteq> FAIL)"
    by (auto simp: server_recorder_def)
  with assms(2) have "pc = ServerEnded (Inr ())" by (auto simp: server_outcome_def split: server_pc.splits)
  from server_returned [OF assms(1) [unfolded this]] all show ?thesis
    by (simp add: request_evidence_def confirm_evidence_def)
qed

text \<open>An exchange in which everything succeeds: eight echoes, a payload, the reconnection and the handshake at the end.\<close>

theorem server_exit_zero_witness:
  "\<exists>s report. server_runs demo_env demo_session (snd (pair_begin demo_env)) (ServerEnded (Inr ()), [], s)
     \<and> pair_main demo_env (Some demo_session) None 1 (Inr ()) (srv_recorder s) = (report, 0)
     \<and> 8 \<le> echo_count s \<and> confirmation_received (completion_state_of s) \<and> remote_disconnected s
     \<and> (\<exists>x \<in> set (rec_results (srv_recorder s)). result_id x = lit ''protocol.completion_confirmation'')"
proof -
  obtain s where s: "server_runs demo_env demo_session (snd (pair_begin demo_env)) (ServerEnded (Inr ()), [], s)"
    "clean (srv_recorder s)" using demo_runs by blast
  from clean_exit [OF this(2)] obtain report where
    r: "pair_main demo_env (Some demo_session) None 1 (Inr ()) (srv_recorder s) = (report, 0)" by blast
  have "server_outcome (ServerEnded (Inr ()), [], s) = Some (Inr ())" by (simp add: server_outcome_def)
  from server_exit_zero [OF s(1) this r] have "8 \<le> echo_count s \<and> confirmation_received (completion_state_of s) \<and> remote_disconnected s"
    and "\<forall>i \<in> set server_checks. \<exists>x \<in> set (rec_results (srv_recorder s)). result_id x = lit i"
    unfolding CONCURRENT_REQUESTS_def by blast+
  moreover have "''protocol.completion_confirmation'' \<in> set server_checks" by (simp add: server_checks_def)
  ultimately show ?thesis using s(1) r by blast
qed

section \<open>Checks that pass unobserved\<close>

definition early_script :: "stimulus list" where
  "early_script =
     (let view = Some (demo_view (lit ''node-a'') 1) in
      [Resumes (NodeStarted (Inr ())), Arrives MetadataRequest demo_metadata view, Acknowledged MetadataRequest,
       Arrives MetadataConfirm (demo_value PNone) view, Resumes (EventWaited (Inr ())), Resumes (MessageSent (Inr ())),
       Resumes (ReplyReceived (Inr (demo_value (PStr (lit ''server-reply''))))),
       Arrives ClientSend (demo_value (PStr (lit ''client-to-server''))) view, Resumes (EventWaited (Inr ())),
       Resumes (StageDone False False False), Resumes (MessageSent (Inr ()))])"

definition passes :: "recorder \<Rightarrow> pystr set" where
  "passes r = result_id ` {x \<in> set (rec_results r). status x = PASS}"

abbreviation later_checks :: "pystr set" where
  "later_checks \<equiv> {lit ''messaging.concurrent'', lit ''messaging.payload'', lit ''lifecycle.disconnect'', lit ''lifecycle.reconnect''}"

lemma passes_iff: "i \<in> passes r \<longleftrightarrow> (\<exists>x \<in> set (rec_results r). status x = PASS \<and> result_id x = i)"
  by (auto simp: passes_def)

lemma passes_passed: "lit i \<notin> rec_ids r \<Longrightarrow> passes (passed i desc text r) = insert (lit i) (passes r)"
proof (rule set_eqI)
  fix j assume "lit i \<notin> rec_ids r"
  then show "j \<in> passes (passed i desc text r) \<longleftrightarrow> j \<in> insert (lit i) (passes r)"
    by (auto simp: passes_iff passed_def recorder_add_def entry_def simp del: lit_simps)
qed

lemma passes_kept: "result_id x \<notin> A \<Longrightarrow> A \<subseteq> passes r \<Longrightarrow> A \<subseteq> passes (recorder_add x r)"
proof
  fix i assume a: "result_id x \<notin> A" "A \<subseteq> passes r" "i \<in> A"
  then obtain y where y: "y \<in> set (rec_results r)" "status y = PASS" "result_id y = i"
    using passes_iff by blast
  with a have "y \<in> set rs \<Longrightarrow> y \<in> set (replace_result x rs)" for rs by (induction rs) auto
  with y show "i \<in> passes (recorder_add x r)" by (auto simp: passes_iff recorder_add_def)
qed

lemma later_checks_passed: "later_checks \<inter> rec_ids r = {} \<Longrightarrow> later_checks \<subseteq> passes (client_send_waited r)"
  by (simp add: client_send_waited_def passes_passed passed_ids inj_lit del: lit_simps)

lemma early_run:
  "\<exists>s e. follow (stimulate demo_env) early_script (ServerStarting, [], new_server demo_session new_recorder)
     = Some (ServerStopping (Inl e), [], s) \<and> echo_count s = 0 \<and> \<not> payload_verified s \<and> length (connections_seen s) = 1
     \<and> later_checks \<subseteq> passes (srv_recorder s)"
proof -
  obtain m m' where m: "validate_metadata demo_metadata None True = Inr m" "run_metadata demo_env (Some demo_session) = Inr m'"
    using demo_metadata_valid demo_run_metadata by blast
  have ids: "rec_ids (snd (inspect_ready (demo_view (lit ''node-a'') c) (lit ''node-a'') False r))
      = {lit ''protocol.ready'', lit ''protocol.handshake'', lit ''security.identity'', lit ''security.mtls'',
         lit ''security.tls'', lit ''network.tcp''} \<union> rec_ids r" for c r
    by (simp add: inspect_ready_def demo_view_def passed_ids del: lit_simps)
  show ?thesis
    by (simp add: early_script_def new_server_def server_resume_def server_started_def demo_remote m demo_value_valid
        session_data_def receive_metadata_def confirm_metadata_def receive_client_send_def andthen_def pair_result_def
        connection_for_def demo_inspected on_recorder_def event_set_def then_server_def server_replied_def stage_resume_def
        wait_server_stage_def server_fails_def record_completion_failure_def workflow_error_def
        passes_kept later_checks_passed passed_ids ids discovery_skipped_def recorder_add_ids new_recorder_def
        inj_lit dget_def Let_def del: lit_simps insert_subset)
qed

text \<open>C38 The server records the concurrent requests, the large payload, the disconnect and the reconnection as passed
  when the first application message of the client has arrived, before any of them takes place: there is a run that
  fails, without an echo, a payload or a second connection, whose report has these four checks as PASS.\<close>

theorem unobserved_checks_pass:
  "\<exists>s e. server_runs demo_env demo_session (snd (pair_begin demo_env)) (ServerEnded (Inl e), [], s)
     \<and> echo_count s = 0 \<and> \<not> payload_verified s \<and> length (connections_seen s) = 1
     \<and> {lit ''messaging.concurrent'', lit ''messaging.payload'', lit ''lifecycle.disconnect'', lit ''lifecycle.reconnect''}
        \<subseteq> result_id ` {x \<in> set (rec_results (srv_recorder s)). status x = PASS}"
proof -
  have empty: "snd (pair_begin demo_env) = new_recorder" by (simp add: pair_begin_def demo_env_def)
  obtain s e where s: "follow (stimulate demo_env) early_script (ServerStarting, [], new_server demo_session new_recorder)
      = Some (ServerStopping (Inl e), [], s)" "echo_count s = 0" "\<not> payload_verified s" "length (connections_seen s) = 1"
      "later_checks \<subseteq> passes (srv_recorder s)" using early_run by blast
  let ?t = "on_recorder (passed_plain ''lifecycle.cleanup'' ''final task/socket/correlation cleanup'') s"
  have "stimulate demo_env (Resumes (NodeStopped (Inr (new_node i c)))) (ServerStopping (Inl e), [], s) = Some (ServerEnded (Inl e), [], ?t)" for i c
    by (simp add: event_set_def server_resume_def server_stopped_def finally_stop_def stop_and_record_def clean_node on_recorder_def)
  then have "server_runs demo_env demo_session (snd (pair_begin demo_env)) (ServerEnded (Inl e), [], ?t)"
    unfolding empty server_runs_def by (rule reachable.next_state [OF followed [OF s(1) reachable.start] stimulate_step])
  moreover have "later_checks \<subseteq> passes (srv_recorder ?t)"
    unfolding on_recorder_def passed_def using s(5) by (simp add: passes_kept inj_lit del: lit_simps insert_subset)
  ultimately show ?thesis using s(2-4) by (intro exI [of _ ?t] exI [of _ e]) (simp add: on_recorder_def passes_def)
qed

end
