(* ===== verification/PairClient.thy ===== *)
theory PairClient
  imports PairExchange
begin

text \<open>
  The client role of a pair run: \<open>_run_client\<close>, \<open>_run_client_completion\<close>, \<open>_wait_client_event\<close> and
  \<open>_known_direct\<close> of \<open>src/compatibility_tests/pair/runner.py\<close>, as a machine like that of \<open>PairServer\<close>.
  The locals of the coroutine that later steps compare are fields of the state.

  The lemmas: the invariant of the coroutine, its interpretation of \<open>pair_role\<close>, and what the exit code 0
  of a client process means.
\<close>

section \<open>State\<close>

record client =
  cl_recorder :: recorder
  cl_session :: "pystr option"
  cl_remote :: "metadata option"
  server_send_seen :: bool
  server_request_seen :: bool
  remote_failure_seen :: bool
  remote_failures :: "raised list"
  first_connection :: "conn option"
  first_session :: "nat option"
  second_session :: "nat option"
  echo_values :: "pyval list"
  payload_result :: metadata
  completion_results :: "metadata list"

definition new_client :: "recorder \<Rightarrow> client" where
  "new_client r = \<lparr>cl_recorder = r, cl_session = None, cl_remote = None, server_send_seen = False,
     server_request_seen = False, remote_failure_seen = False, remote_failures = [], first_connection = None,
     first_session = None, second_session = None, echo_values = [], payload_result = [], completion_results = []\<rparr>"

definition on_rec :: "(recorder \<Rightarrow> recorder) \<Rightarrow> client \<Rightarrow> client" where
  "on_rec f s = s\<lparr>cl_recorder := f (cl_recorder s)\<rparr>"

section \<open>Handlers\<close>

datatype client_message = ServerSend | ServerRequest | RemoteFailure

definition receive_server_send :: "pair_env \<Rightarrow> pyval \<Rightarrow> client \<Rightarrow> (raised + reply option) \<times> client" where
  "receive_server_send env data s =
     (case cl_session s of
        None \<Rightarrow> (Inl (assertion ''server sent application data before metadata confirmation''), s)
      | Some i \<Rightarrow>
          (case pair_result env (validate_session_payload data i) of
             Inl e \<Rightarrow> (Inl e, s)
           | Inr d \<Rightarrow>
               if dget d (lit ''value'') \<noteq> PStr (lit ''server-to-client'')
               then (Inl (assertion ''server send payload mismatch''), s)
               else (Inr None, on_rec (passed_plain ''messaging.server_client_send'' ''server to client application send'')
                 (s\<lparr>server_send_seen := True\<rparr>))))"

definition receive_server_request :: "pair_env \<Rightarrow> pyval \<Rightarrow> client \<Rightarrow> (raised + reply option) \<times> client" where
  "receive_server_request env data s =
     (case cl_session s of
        None \<Rightarrow> (Inl (assertion ''server requested before metadata confirmation''), s)
      | Some i \<Rightarrow>
          (rbind (pair_result env (validate_session_payload data i)) (\<lambda>d.
           rbind (guard (dget d (lit ''value'') = PStr (lit ''server-request'')) (assertion ''server request payload mismatch'')) (\<lambda>_.
           rbind (pair_result env (session_payload (PStr i) [(PStr (lit ''value''), PStr (lit ''server-reply''))])) (\<lambda>m.
             Inr (Some \<lparr>reply_type = lit ''compat.request.reply'', reply_payload = m, reply_ack = True\<rparr>)))), s))"

definition receive_remote_failure :: "pair_env \<Rightarrow> pyval \<Rightarrow> client \<Rightarrow> (raised + reply option) \<times> client" where
  "receive_remote_failure env data s =
     (case raise_remote_failure data (cl_session s) of
        RemotePairFailure t \<Rightarrow>
          (Inr None, s\<lparr>remote_failures := remote_failures s @ [remote_failure t], remote_failure_seen := True\<rparr>)
      | e \<Rightarrow> (Inl (pair_raised env e), s))"

fun client_receive :: "pair_env \<Rightarrow> client_message \<Rightarrow> pyval \<Rightarrow> client \<Rightarrow> (raised + reply option) \<times> client" where
  "client_receive env ServerSend data s = receive_server_send env data s"
| "client_receive env ServerRequest data s = receive_server_request env data s"
| "client_receive env RemoteFailure data s = receive_remote_failure env data s"

fun client_replied :: "client_message \<Rightarrow> raised + unit \<Rightarrow> client \<Rightarrow> (raised + unit) \<times> client" where
  "client_replied ServerRequest (Inr _) s = (Inr (), on_rec (passed_plain ''messaging.server_client_request''
     ''server to client request/reply'') (s\<lparr>server_request_seen := True\<rparr>))"
| "client_replied k r s = (r, s)"

section \<open>The coroutine\<close>

datatype client_pc =
    ClientStarting | ClientDiscovering | FirstConnecting | MetadataWait | Confirming | WaitServerSend | WaitServerRequest
  | SendingToServer | Echoing | PayloadWait | Disconnecting | Sleeping | SecondConnecting | ReconnectWait
  | CompletionWait | ConfirmationWait | FinalDisconnecting
  | ClientStopping "raised + unit"
  | ClientEnded "raised + unit"

text \<open>
  What a wait gives, beside the events of the server: the connection of \<open>connect\<close>, the payloads of the
  gathered replies in the order of their requests, what is done when \<open>asyncio.wait\<close> returns (the
  expected event, a failure), and the outcomes of \<open>disconnect\<close> and \<open>sleep\<close>.
\<close>

datatype client_event =
    Common pair_event
  | ClientConnected "raised + ready_view"
  | RepliesReceived "raised + pyval list"
  | WaitDone bool bool
  | Returned "raised + unit"

definition then_client ::
    "raised + 'a \<Rightarrow> ('a \<Rightarrow> client \<Rightarrow> client_pc \<times> client) \<Rightarrow> client \<Rightarrow> client_pc \<times> client" where
  "then_client r f s = (case r of Inl e \<Rightarrow> (ClientStopping (Inl e), s) | Inr x \<Rightarrow> f x s)"

definition known_direct :: "pair_env \<Rightarrow> raised + endpoint list" where
  "known_direct env =
     (case cfg_target (config_of env) of
        None \<Rightarrow> Inl \<lparr>exc_class = LibraryExc ValueError, exc_name = lit ''ValueError'',
          exc_text = lit ''direct client requires a target''\<rparr>
      | Some h \<Rightarrow>
          (case endpoint_from_host_port h (cfg_port (config_of env)) [] of
             Inl e \<Rightarrow> Inl (library_raised env e) | Inr p \<Rightarrow> Inr [p]))"

definition client_started :: "pair_env \<Rightarrow> raised + unit \<Rightarrow> client \<Rightarrow> client_pc \<times> client" where
  "client_started env r s =
     (case r of
        Inl e \<Rightarrow> (ClientEnded (Inl (start_failure env e)), s)
      | Inr _ \<Rightarrow>
          if cfg_scenario (config_of env) = lit ''discovery'' then (ClientDiscovering, s)
          else then_client (known_direct env) (\<lambda>_ s. (FirstConnecting, on_rec discovery_skipped s)) s)"

text \<open>A message of the session, built before it is sent\<close>

definition sending ::
    "pair_env \<Rightarrow> string \<Rightarrow> pyval \<Rightarrow> client_pc \<Rightarrow> client \<Rightarrow> client_pc \<times> client" where
  "sending env key v pc s =
     then_client (pair_result env (session_payload (session_value (cl_session s)) [(PStr (lit key), v)])) (\<lambda>_ s. (pc, s)) s"

definition session_reply ::
    "pair_env \<Rightarrow> raised + pyval \<Rightarrow> (metadata \<Rightarrow> client \<Rightarrow> client_pc \<times> client) \<Rightarrow> client \<Rightarrow> client_pc \<times> client" where
  "session_reply env r f s =
     then_client (rbind r (\<lambda>data. pair_result env (validate_session_payload data (the (cl_session s))))) f s"

definition inspected ::
    "pair_env \<Rightarrow> ready_view \<Rightarrow> bool \<Rightarrow> (nat \<Rightarrow> client \<Rightarrow> client_pc \<times> client) \<Rightarrow> client \<Rightarrow> client_pc \<times> client" where
  "inspected env v again f s =
     (case inspect_ready v (remote_peer_id (config_of env)) again (cl_recorder s) of
        (r, rec) \<Rightarrow> then_client r f (s\<lparr>cl_recorder := rec\<rparr>))"

definition connected_first :: "pair_env \<Rightarrow> ready_view \<Rightarrow> client \<Rightarrow> client_pc \<times> client" where
  "connected_first env v s =
     inspected env v False (\<lambda>obj s.
       then_client (run_metadata env None) (\<lambda>_ s. (MetadataWait, s))
         (s\<lparr>first_connection := Some (view_conn v), first_session := Some obj\<rparr>)) s"

text \<open>\<open>str(remote["session_id"])\<close>: the metadata that were validated hold a text.\<close>

definition metadata_replied :: "pair_env \<Rightarrow> raised + pyval \<Rightarrow> client \<Rightarrow> client_pc \<times> client" where
  "metadata_replied env r s =
     then_client (rbind r (\<lambda>data. pair_result env (validate_metadata data None False))) (\<lambda>remote s.
       sending env ''confirmed'' (PBool True) Confirming
         (on_rec (passed_plain ''messaging.client_server_request'' ''client to server request/reply'')
           (s\<lparr>cl_session := as_str (dget remote (lit ''session_id'')), cl_remote := Some remote\<rparr>))) s"

text \<open>\<open>_wait_client_event\<close>\<close>

definition wait_client_event :: "bool \<Rightarrow> bool \<Rightarrow> client \<Rightarrow> raised + unit" where
  "wait_client_event expected failed s =
     (if \<not> expected \<and> \<not> failed then
        Inl \<lparr>exc_class = LibraryExc TimeoutError, exc_name = lit ''TimeoutError'',
          exc_text = lit ''timed out waiting for the remote pair role''\<rparr>
      else if failed then Inl (hd (remote_failures s)) else Inr ())"

definition PAYLOAD_SIZE :: nat where "PAYLOAD_SIZE = 32 * 1024"

definition large_value :: pystr where
  "large_value = concat (replicate (PAYLOAD_SIZE div 20) (lit ''paqto-compatibility-''))"

text \<open>The text is ASCII, so it is encoded.\<close>

definition large_digest :: "pair_env \<Rightarrow> pystr" where
  "large_digest env = sha256_hex env (the (utf8_encode large_value))"

text \<open>The eight requests differ in their values only, which do not matter to building them.\<close>

definition client_sent :: "pair_env \<Rightarrow> client \<Rightarrow> client_pc \<times> client" where
  "client_sent env s =
     sending env ''value'' (PInt 0) Echoing
       (on_rec (passed_plain ''messaging.ack'' ''technical acknowledgements in both directions''
         \<circ> passed_plain ''messaging.client_server_send'' ''client to server application send'') s)"

text \<open>The replies to the concurrent requests, validated in the order of the requests\<close>

definition echoed :: "pair_env \<Rightarrow> raised + pyval list \<Rightarrow> client \<Rightarrow> client_pc \<times> client" where
  "echoed env r s =
     then_client (rbind r (\<lambda>datas. rmap (\<lambda>data. rbind (pair_result env
         (validate_session_payload data (the (cl_session s)))) (\<lambda>d. Inr (dget d (lit ''value'')))) datas)) (\<lambda>vs s.
       if \<not> list_all2 equals_int vs (List.map int [0..<CONCURRENT_REQUESTS])
       then (ClientStopping (Inl (assertion ''concurrent pair requests were mis-correlated'')), s)
       else sending env ''value'' (PStr large_value) PayloadWait
         (on_rec (passed_plain ''messaging.concurrent'' ''concurrent request correlation across devices''
           \<circ> passed_plain ''messaging.multiple'' ''multiple ordered application messages'') (s\<lparr>echo_values := vs\<rparr>))) s"

definition payload_replied :: "pair_env \<Rightarrow> metadata \<Rightarrow> client \<Rightarrow> client_pc \<times> client" where
  "payload_replied env d s =
     (if \<not> equals_int (dget d (lit ''length'')) (int (length large_value)) then
        (ClientStopping (Inl (assertion ''reasonable-size payload length changed'')), s)
      else if dget d (lit ''sha256'') \<noteq> PStr (large_digest env) then
        (ClientStopping (Inl (assertion ''reasonable-size payload content changed'')), s)
      else (Disconnecting, on_rec (passed_plain ''messaging.payload'' ''reasonable-size application payload'')
        (s\<lparr>payload_result := d\<rparr>)))"

definition connected_again :: "pair_env \<Rightarrow> ready_view \<Rightarrow> client \<Rightarrow> client_pc \<times> client" where
  "connected_again env v s =
     (if first_connection s = Some (view_conn v) then
        (ClientStopping (Inl (assertion ''disconnect reused the old connection object'')), s)
      else inspected env v True (\<lambda>obj s.
        if first_session s = Some obj then
          (ClientStopping (Inl (assertion ''reconnect reused the old Paqto session object'')), s)
        else sending env ''ready'' (PBool True) ReconnectWait
          (on_rec (passed_plain ''lifecycle.reconnect'' ''fresh TCP reconnect'') (s\<lparr>second_session := Some obj\<rparr>))) s)"

text \<open>\<open>_run_client_completion\<close>. A stage fails with the exception that its failure is recorded as; the payload of
  its request is built inside the \<open>try\<close>.\<close>

definition completion_failed :: "string \<Rightarrow> string \<Rightarrow> string \<Rightarrow> raised \<Rightarrow> client \<Rightarrow> client_pc \<times> client" where
  "completion_failed i desc stage e s =
     (if is_exception (exc_class e)
      then (case record_completion_failure i desc stage e (cl_recorder s) of
        (failure, r) \<Rightarrow> (ClientStopping (Inl failure), s\<lparr>cl_recorder := r\<rparr>))
      else (ClientStopping (Inl e), s))"

definition request_failed :: "raised \<Rightarrow> client \<Rightarrow> client_pc \<times> client" where
  "request_failed = completion_failed ''protocol.completion_request'' ''pair completion request/reply'' ''completion request''"

definition confirmation_failed :: "raised \<Rightarrow> client \<Rightarrow> client_pc \<times> client" where
  "confirmation_failed = completion_failed ''protocol.completion_confirmation''
     ''pair completion confirmation request/reply'' ''completion confirmation''"

definition completion_sending ::
    "pair_env \<Rightarrow> pystr \<Rightarrow> client_pc \<Rightarrow> (raised \<Rightarrow> client \<Rightarrow> client_pc \<times> client) \<Rightarrow> client \<Rightarrow> client_pc \<times> client" where
  "completion_sending env ph pc failed s =
     (case pair_result env (completion_payload (session_value (cl_session s)) ph []) of
        Inl e \<Rightarrow> failed e s | Inr _ \<Rightarrow> (pc, s))"

definition reconnect_replied :: "pair_env \<Rightarrow> metadata \<Rightarrow> client \<Rightarrow> client_pc \<times> client" where
  "reconnect_replied env d s =
     (if dget d (lit ''ready'') \<noteq> PBool True then
        (ClientStopping (Inl (assertion ''post-reconnect READY response mismatch'')), s)
      else completion_sending env COMPLETION_REQUEST CompletionWait request_failed
        (on_rec (passed_plain ''lifecycle.messaging_after_reconnect'' ''request/reply after fresh reconnect'') s))"

definition completion_result :: "pair_env \<Rightarrow> pystr \<Rightarrow> string \<Rightarrow> raised + pyval \<Rightarrow> client \<Rightarrow> raised + metadata" where
  "completion_result env ph text r s =
     rbind r (\<lambda>data.
     rbind (pair_result env (validate_completion_payload data (the (cl_session s)) ph)) (\<lambda>d.
     rbind (guard (dget d (lit ''server_status'') = PStr (lit ''PASS'')) (remote_failure (lit text))) (\<lambda>_. Inr d)))"

definition completion_replied :: "pair_env \<Rightarrow> raised + pyval \<Rightarrow> client \<Rightarrow> client_pc \<times> client" where
  "completion_replied env r s =
     (case completion_result env COMPLETION_REPLY ''server did not propagate a PASS result'' r s of
        Inl e \<Rightarrow> request_failed e s
      | Inr d \<Rightarrow> completion_sending env COMPLETION_CONFIRMATION ConfirmationWait confirmation_failed
          (on_rec (passed ''protocol.completion_request'' ''pair completion request/reply''
             ''client received and validated compat.complete.reply'') (s\<lparr>completion_results := [d]\<rparr>)))"

definition confirmation_replied :: "pair_env \<Rightarrow> raised + pyval \<Rightarrow> client \<Rightarrow> client_pc \<times> client" where
  "confirmation_replied env r s =
     (case completion_result env COMPLETION_CONFIRMATION_REPLY ''server did not confirm completion with PASS'' r s of
        Inl e \<Rightarrow> confirmation_failed e s
      | Inr d \<Rightarrow> (FinalDisconnecting,
          on_rec (passed ''protocol.completion_confirmation'' ''pair completion confirmation request/reply''
             ''client received and validated compat.complete.confirmed.reply'')
          (s\<lparr>completion_results := completion_results s @ [d]\<rparr>)))"

definition finally_disconnected :: "raised + unit \<Rightarrow> client \<Rightarrow> client_pc \<times> client" where
  "finally_disconnected r s =
     (case r of
        Inl e \<Rightarrow> (ClientStopping (Inl e),
          if is_exception (exc_class e) then
            on_rec (recorder_add (entry (lit ''lifecycle.graceful_disconnect'')
              (lit ''client-initiated disconnect after completion'') FAIL
              (lit ''explicit disconnect failed with '' @ exc_name e @ lit '': '' @ exc_text e) True)) s
          else s)
      | Inr _ \<Rightarrow> (ClientStopping (Inr ()),
          on_rec (passed ''lifecycle.graceful_disconnect'' ''client-initiated disconnect after completion''
            ''client closed the confirmed READY session voluntarily'') s))"

definition client_stopped :: "raised + unit \<Rightarrow> raised + node \<Rightarrow> client \<Rightarrow> client_pc \<times> client" where
  "client_stopped res stopped s =
     (case finally_stop res stopped (cl_recorder s) of (res', r) \<Rightarrow> (ClientEnded res', s\<lparr>cl_recorder := r\<rparr>))"

text \<open>The results of the kinds of event; an event of another kind resumes nothing.\<close>

fun as_started :: "client_event \<Rightarrow> (raised + unit) option" where
  "as_started (Common (NodeStarted r)) = Some r" | "as_started ev = None"

fun as_found :: "client_event \<Rightarrow> (raised + discovered_peer) option" where
  "as_found (Common (PeerFound r)) = Some r" | "as_found ev = None"

fun as_sent :: "client_event \<Rightarrow> (raised + unit) option" where
  "as_sent (Common (MessageSent r)) = Some r" | "as_sent ev = None"

fun as_reply :: "client_event \<Rightarrow> (raised + pyval) option" where
  "as_reply (Common (ReplyReceived r)) = Some r" | "as_reply ev = None"

fun as_stopped :: "client_event \<Rightarrow> (raised + node) option" where
  "as_stopped (Common (NodeStopped r)) = Some r" | "as_stopped ev = None"

fun as_connected :: "client_event \<Rightarrow> (raised + ready_view) option" where
  "as_connected (ClientConnected r) = Some r" | "as_connected ev = None"

fun as_replies :: "client_event \<Rightarrow> (raised + pyval list) option" where
  "as_replies (RepliesReceived r) = Some r" | "as_replies ev = None"

fun as_returned :: "client_event \<Rightarrow> (raised + unit) option" where
  "as_returned (Returned r) = Some r" | "as_returned ev = None"

fun as_waited :: "client_event \<Rightarrow> client \<Rightarrow> (raised + unit) option" where
  "as_waited (WaitDone x y) s = Some (wait_client_event x y s)"
| "as_waited (Common (StageInterrupted e)) s = Some (Inl e)"
| "as_waited ev s = None"

text \<open>What follows each of the waits; \<open>Sleeping\<close> is the pause before the second connection.\<close>

definition client_resume :: "pair_env \<Rightarrow> client_pc \<Rightarrow> client_event \<Rightarrow> client \<Rightarrow> (client_pc \<times> client) option" where
  "client_resume env pc ev s =
     (case pc of
        ClientStarting \<Rightarrow> map_option (\<lambda>r. client_started env r s) (as_started ev)
      | ClientDiscovering \<Rightarrow>
          map_option (\<lambda>r. then_client r (\<lambda>_ s. (FirstConnecting, on_rec discovery_found s)) s) (as_found ev)
      | FirstConnecting \<Rightarrow> map_option (\<lambda>r. then_client r (connected_first env) s) (as_connected ev)
      | MetadataWait \<Rightarrow> map_option (\<lambda>r. metadata_replied env r s) (as_reply ev)
      | Confirming \<Rightarrow> map_option (\<lambda>r. then_client r (\<lambda>_ s. (WaitServerSend, s)) s) (as_sent ev)
      | WaitServerSend \<Rightarrow> map_option (\<lambda>r. then_client r (\<lambda>_ s. (WaitServerRequest, s)) s) (as_waited ev s)
      | WaitServerRequest \<Rightarrow> map_option (\<lambda>r. then_client r
          (\<lambda>_. sending env ''value'' (PStr (lit ''client-to-server'')) SendingToServer) s) (as_waited ev s)
      | SendingToServer \<Rightarrow> map_option (\<lambda>r. then_client r (\<lambda>_. client_sent env) s) (as_sent ev)
      | Echoing \<Rightarrow> map_option (\<lambda>r. echoed env r s) (as_replies ev)
      | PayloadWait \<Rightarrow> map_option (\<lambda>r. session_reply env r (payload_replied env) s) (as_reply ev)
      | Disconnecting \<Rightarrow> map_option (\<lambda>r. then_client r (\<lambda>_ s. (Sleeping,
          on_rec (passed_plain ''lifecycle.disconnect'' ''controlled software disconnect'') s)) s) (as_returned ev)
      | Sleeping \<Rightarrow> map_option (\<lambda>r. then_client r (\<lambda>_ s. (SecondConnecting, s)) s) (as_returned ev)
      | SecondConnecting \<Rightarrow> map_option (\<lambda>r. then_client r (connected_again env) s) (as_connected ev)
      | ReconnectWait \<Rightarrow> map_option (\<lambda>r. session_reply env r (reconnect_replied env) s) (as_reply ev)
      | CompletionWait \<Rightarrow> map_option (\<lambda>r. completion_replied env r s) (as_reply ev)
      | ConfirmationWait \<Rightarrow> map_option (\<lambda>r. confirmation_replied env r s) (as_reply ev)
      | FinalDisconnecting \<Rightarrow> map_option (\<lambda>r. finally_disconnected r s) (as_returned ev)
      | ClientStopping res \<Rightarrow> map_option (\<lambda>r. client_stopped res r s) (as_stopped ev)
      | ClientEnded res \<Rightarrow> None)"

definition client_event_set :: "client_pc \<Rightarrow> client_event \<Rightarrow> client \<Rightarrow> bool" where
  "client_event_set pc ev s =
     (case ev of
        WaitDone x y \<Rightarrow> (x \<longrightarrow> (pc = WaitServerSend \<longrightarrow> server_send_seen s) \<and> (pc = WaitServerRequest \<longrightarrow> server_request_seen s))
          \<and> (y \<longrightarrow> remote_failure_seen s)
      | _ \<Rightarrow> True)"

type_synonym client_run = "client_pc \<times> client_message list \<times> client"

inductive client_step :: "pair_env \<Rightarrow> client_run \<Rightarrow> client_run \<Rightarrow> bool" for env where
  handler_waits: "client_receive env k data s = (Inr (Some a), s') \<Longrightarrow> client_step env (pc, ks, s) (pc, k # ks, s')"
| handler_ends: "client_receive env k data s = (r, s') \<Longrightarrow> (\<forall>a. r \<noteq> Inr (Some a)) \<Longrightarrow> client_step env (pc, ks, s) (pc, ks, s')"
| handler_resumes: "k \<in> set ks \<Longrightarrow> client_replied k r s = (x, s') \<Longrightarrow> client_step env (pc, ks, s) (pc, remove1 k ks, s')"
| coroutine: "client_event_set pc ev s \<Longrightarrow> client_resume env pc ev s = Some (pc', s') \<Longrightarrow>
    client_step env (pc, ks, s) (pc', ks, s')"

definition client_runs :: "pair_env \<Rightarrow> recorder \<Rightarrow> client_run \<Rightarrow> bool" where
  "client_runs env r = reachable (client_step env) (ClientStarting, [], new_client r)"

definition client_outcome :: "client_run \<Rightarrow> (raised + unit) option" where
  "client_outcome run = (case run of (pc, ks, s) \<Rightarrow> (case pc of ClientEnded res \<Rightarrow> Some res | _ \<Rightarrow> None))"

definition client_recorder :: "client_run \<Rightarrow> recorder" where
  "client_recorder run = (case run of (pc, ks, s) \<Rightarrow> cl_recorder s)"

section \<open>What the exchange has shown\<close>

text \<open>How far the coroutine has come without an exception\<close>

fun level :: "client_pc \<Rightarrow> nat" where
  "level FirstConnecting = 1" | "level MetadataWait = 2" | "level Confirming = 3" | "level WaitServerSend = 3"
| "level WaitServerRequest = 4" | "level SendingToServer = 5" | "level Echoing = 6" | "level PayloadWait = 7"
| "level Disconnecting = 8" | "level Sleeping = 9" | "level SecondConnecting = 9" | "level ReconnectWait = 10"
| "level CompletionWait = 11" | "level ConfirmationWait = 12" | "level FinalDisconnecting = 13"
| "level (ClientStopping (Inr x)) = 14" | "level (ClientEnded (Inr x)) = 15" | "level pc = 0"

definition trail :: "nat \<Rightarrow> string list" where
  "trail n = List.map snd (filter (\<lambda>(k, i). k \<le> n)
     [(1, ''discovery.cross_device''), (2, ''network.tcp''), (2, ''security.tls''), (2, ''security.mtls''), (2, ''security.identity''),
      (2, ''protocol.handshake''), (2, ''protocol.ready''), (3, ''messaging.client_server_request''),
      (6, ''messaging.client_server_send''), (6, ''messaging.ack''), (7, ''messaging.multiple''), (7, ''messaging.concurrent''),
      (8, ''messaging.payload''), (9, ''lifecycle.disconnect''), (10, ''lifecycle.new_tls_session''), (10, ''lifecycle.new_handshake''),
      (10, ''lifecycle.reconnect''), (11, ''lifecycle.messaging_after_reconnect''), (12, ''protocol.completion_request''),
      (13, ''protocol.completion_confirmation''), (14, ''lifecycle.graceful_disconnect''), (15, ''lifecycle.cleanup'')])"

definition answers :: "pair_env \<Rightarrow> nat \<Rightarrow> client \<Rightarrow> bool" where
  "answers env n s \<longleftrightarrow>
     (3 \<le> n \<longrightarrow> cl_session s \<noteq> None) \<and> (4 \<le> n \<longrightarrow> server_send_seen s) \<and> (5 \<le> n \<longrightarrow> server_request_seen s)
     \<and> (7 \<le> n \<longrightarrow> list_all2 equals_int (echo_values s) (List.map int [0..<CONCURRENT_REQUESTS]))
     \<and> (8 \<le> n \<longrightarrow> equals_int (dget (payload_result s) (lit ''length'')) (int (length large_value))
         \<and> dget (payload_result s) (lit ''sha256'') = PStr (large_digest env))
     \<and> (10 \<le> n \<longrightarrow> second_session s \<noteq> None \<and> second_session s \<noteq> first_session s)
     \<and> (12 \<le> n \<longrightarrow> length (completion_results s) = (if n = 12 then 1 else 2)
         \<and> (\<forall>d \<in> set (completion_results s). dget d (lit ''server_status'') = PStr (lit ''PASS'')))"

definition seen_recorded :: "client \<Rightarrow> bool" where
  "seen_recorded s \<longleftrightarrow> (server_send_seen s \<longrightarrow> recorded [''messaging.server_client_send''] (cl_recorder s))
     \<and> (server_request_seen s \<longrightarrow> recorded [''messaging.server_client_request''] (cl_recorder s))"

definition client_inv :: "pair_env \<Rightarrow> client_run \<Rightarrow> bool" where
  "client_inv env run = (case run of (pc, ks, s) \<Rightarrow>
     answers env (level pc) s \<and> recorded (trail (level pc)) (cl_recorder s) \<and> seen_recorded s)"

text \<open>What a handler does to the state: it adds to the recorder, and the coroutine's own fields stay.\<close>

definition handled :: "client \<Rightarrow> client \<Rightarrow> bool" where
  "handled s s' \<longleftrightarrow> extends (cl_recorder s) (cl_recorder s') \<and> (server_send_seen s \<longrightarrow> server_send_seen s')
     \<and> (server_request_seen s \<longrightarrow> server_request_seen s') \<and> cl_session s' = cl_session s \<and> echo_values s' = echo_values s
     \<and> payload_result s' = payload_result s \<and> second_session s' = second_session s \<and> first_session s' = first_session s
     \<and> completion_results s' = completion_results s \<and> (seen_recorded s \<longrightarrow> seen_recorded s')"

lemma recorded_extends: "extends r r' \<Longrightarrow> recorded is r \<Longrightarrow> recorded is r'"
  using extends_ids recorded_more by blast

lemma passed_recorded: "extends r (passed i d t r)" if "i \<noteq> ''pair.execution''"
  using that by (rule extends_passed [OF extends_refl])

lemma client_receive_handled: "client_receive env k data s = (r, s') \<Longrightarrow> handled s s'"
  using passed_recorded [of "''messaging.server_client_send''" "cl_recorder s"]
  by (cases k)
    (auto simp: receive_server_send_def receive_server_request_def receive_remote_failure_def handled_def on_rec_def
      seen_recorded_def passed_ids extends_refl simp del: lit_simps split: option.splits sum.splits if_splits pair_error.splits)

lemma client_replied_handled: "client_replied k r s = (x, s') \<Longrightarrow> handled s s'"
  using passed_recorded [of "''messaging.server_client_request''" "cl_recorder s"]
  by (cases "(k, r, s)" rule: client_replied.cases)
    (auto simp: handled_def on_rec_def seen_recorded_def passed_ids extends_refl simp del: lit_simps)

lemma client_inv_handled: "client_inv env (pc, ks, s) \<Longrightarrow> handled s s' \<Longrightarrow> client_inv env (pc, ks', s')"
  by (auto simp: client_inv_def handled_def answers_def recorded_extends)

text \<open>A step of the coroutine: where it goes on to, the answers and the checks of that wait are there.\<close>

definition advances :: "pair_env \<Rightarrow> client_pc \<Rightarrow> client \<Rightarrow> client_pc \<Rightarrow> client \<Rightarrow> bool" where
  "advances env pc s pc' s' \<longleftrightarrow> extends (cl_recorder s) (cl_recorder s') \<and> server_send_seen s' = server_send_seen s
     \<and> server_request_seen s' = server_request_seen s \<and> (answers env (level pc) s \<longrightarrow> answers env (level pc') s')
     \<and> (recorded (trail (level pc)) (cl_recorder s') \<longrightarrow> recorded (trail (level pc')) (cl_recorder s'))"

definition beside :: "client \<Rightarrow> client \<Rightarrow> bool" where
  "beside s s' \<longleftrightarrow> extends (cl_recorder s) (cl_recorder s') \<and> server_send_seen s' = server_send_seen s
     \<and> server_request_seen s' = server_request_seen s"

lemma advances_stop: "beside s s' \<Longrightarrow> advances env pc s (ClientStopping (Inl e)) s'" "beside s s' \<Longrightarrow> advances env pc s (ClientEnded (Inl e)) s'"
  by (simp_all add: advances_def beside_def answers_def trail_def)

lemma then_client_advances:
  assumes "then_client r f t = (pc', s')" "beside s t" "\<And>x. r = Inr x \<Longrightarrow> f x t = (pc', s') \<Longrightarrow> advances env pc s pc' s'"
  shows "advances env pc s pc' s'"
  using assms by (cases r) (auto simp: then_client_def intro: advances_stop)

lemma sending_advances:
  assumes "sending env key v next t = (pc', s')" "beside s t" "advances env pc s next t"
  shows "advances env pc s pc' s'"
  using assms(1) unfolding sending_def by (rule then_client_advances) (use assms in auto)

lemma completion_failed_advances:
  "i \<noteq> ''pair.execution'' \<Longrightarrow> completion_failed i desc stage e t = (pc', s') \<Longrightarrow> beside s t \<Longrightarrow> advances env pc s pc' s'"
  using record_completion_failure_extends [of "cl_recorder s" "cl_recorder t" i desc stage e]
  by (auto simp: completion_failed_def beside_def intro!: advances_stop split: if_splits prod.splits)

lemma stage_failed_advances:
  "request_failed e t = (pc', s') \<Longrightarrow> beside s t \<Longrightarrow> advances env pc s pc' s'"
  "confirmation_failed e t = (pc', s') \<Longrightarrow> beside s t \<Longrightarrow> advances env pc s pc' s'"
  unfolding request_failed_def confirmation_failed_def by (rule completion_failed_advances; simp)+

lemma completion_sending_advances:
  assumes "completion_sending env ph next failed t = (pc', s')" "advances env pc s next t"
    and "\<And>e. failed e t = (pc', s') \<Longrightarrow> advances env pc s pc' s'"
  shows "advances env pc s pc' s'"
  using assms by (auto simp: completion_sending_def split: sum.splits)

lemma beside_refl: "beside s s"
  by (simp add: beside_def extends_refl)

lemma beside_on_rec: "extends (cl_recorder s) (f (cl_recorder s)) \<Longrightarrow> beside s (on_rec f s)"
  by (simp add: beside_def on_rec_def)

lemma inspected_advances:
  assumes "inspected env v again f t = (pc', s')" "beside s t"
    and "\<And>obj r. inspect_ready v (remote_peer_id (config_of env)) again (cl_recorder t) = (Inr obj, r) \<Longrightarrow>
      f obj (t\<lparr>cl_recorder := r\<rparr>) = (pc', s') \<Longrightarrow> beside s (t\<lparr>cl_recorder := r\<rparr>) \<Longrightarrow> advances env pc s pc' s'"
  shows "advances env pc s pc' s'"
proof -
  obtain x r where r: "inspect_ready v (remote_peer_id (config_of env)) again (cl_recorder t) = (x, r)" by fastforce
  with assms(2) inspect_ready_extends [of "cl_recorder s" "cl_recorder t" v "remote_peer_id (config_of env)" again]
  have "beside s (t\<lparr>cl_recorder := r\<rparr>)" by (simp add: beside_def)
  then show ?thesis
    using assms(1) assms(3) [of _ r] r unfolding inspected_def by (auto elim!: then_client_advances)
qed

lemma inspected_ids: "inspect_ready v expected again r = (Inr obj, r') \<Longrightarrow>
    recorded (if again then [''lifecycle.new_tls_session'', ''lifecycle.new_handshake'']
      else [''network.tcp'', ''security.tls'', ''security.mtls'', ''security.identity'', ''protocol.handshake'', ''protocol.ready'']) r'"
  by (auto simp: inspect_ready_def passed_ids simp del: lit_simps split: option.splits prod.splits if_splits)

lemmas at_level = advances_def beside_def answers_def trail_def on_rec_def passed_ids recorder_add_ids discovery_skipped_def
  discovery_found_def comp_apply

lemma client_started_advances: "client_started env r s = (pc', s') \<Longrightarrow> advances env ClientStarting s pc' s'"
proof -
  assume r: "client_started env r s = (pc', s')"
  have b: "beside s (on_rec discovery_skipped s)"
    by (rule beside_on_rec) (auto simp: discovery_skipped_def intro!: extend_rules)
  then have "advances env ClientStarting s FirstConnecting (on_rec discovery_skipped s)"
    by (simp add: at_level del: lit_simps)
  moreover have "advances env ClientStarting s ClientDiscovering s" by (simp add: at_level extends_refl)
  ultimately show ?thesis using r beside_refl
    by (auto simp: client_started_def intro: advances_stop elim!: then_client_advances split: sum.splits if_splits)
qed

lemma connected_first_advances:
  assumes "connected_first env v s = (pc', s')"
  shows "advances env FirstConnecting s pc' s'"
  using assms(1) beside_refl unfolding connected_first_def
proof (rule inspected_advances)
  fix obj r let ?t = "s\<lparr>cl_recorder := r, first_connection := Some (view_conn v), first_session := Some obj\<rparr>"
  assume r: "inspect_ready v (remote_peer_id (config_of env)) False (cl_recorder s) = (Inr obj, r)" "beside s (s\<lparr>cl_recorder := r\<rparr>)"
    "then_client (run_metadata env None) (\<lambda>_ s. (MetadataWait, s)) ((s\<lparr>cl_recorder := r\<rparr>)
       \<lparr>first_connection := Some (view_conn v), first_session := Some obj\<rparr>) = (pc', s')"
  have "advances env FirstConnecting s MetadataWait ?t"
    using r(2) inspected_ids [OF r(1)] by (simp add: at_level del: lit_simps)
  with r(2,3) show "advances env FirstConnecting s pc' s'"
    by (auto elim!: then_client_advances simp: beside_def)
qed

lemma pair_result_Inr [simp]: "pair_result env r = Inr x \<longleftrightarrow> r = Inr x"
  by (auto simp: pair_result_def split: sum.splits)

lemma metadata_session: "validate_metadata data expected False = Inr m \<Longrightarrow> as_str (dget m (lit ''session_id'')) \<noteq> None"
  by (auto simp: validate_metadata_def validate_session_id_def non_empty_string_def res_simps simp del: lit_simps)

lemma metadata_replied_advances: "metadata_replied env r s = (pc', s') \<Longrightarrow> advances env MetadataWait s pc' s'"
  unfolding metadata_replied_def
proof (erule then_client_advances [OF _ beside_refl])
  fix m let ?t = "on_rec (passed_plain ''messaging.client_server_request'' ''client to server request/reply'')
      (s\<lparr>cl_session := as_str (dget m (lit ''session_id'')), cl_remote := Some m\<rparr>)"
  assume m: "rbind r (\<lambda>data. pair_result env (validate_metadata data None False)) = Inr m"
    and s: "sending env ''confirmed'' (PBool True) Confirming ?t = (pc', s')"
  have b: "beside s ?t" by (simp add: beside_def on_rec_def passed_recorded)
  from m obtain data where "validate_metadata data None False = Inr m" by (auto simp: res_simps)
  from metadata_session [OF this] b have "advances env MetadataWait s Confirming ?t" by (simp add: at_level del: lit_simps)
  with s b show "advances env MetadataWait s pc' s'" by (auto elim: sending_advances)
qed

lemma client_sent_advances: "client_sent env s = (pc', s') \<Longrightarrow> advances env SendingToServer s pc' s'"
  unfolding client_sent_def
proof (erule sending_advances)
  let ?t = "on_rec (passed_plain ''messaging.ack'' ''technical acknowledgements in both directions''
       \<circ> passed_plain ''messaging.client_server_send'' ''client to server application send'') s"
  show b: "beside s ?t" by (auto intro!: beside_on_rec extend_rules)
  then show "advances env SendingToServer s Echoing ?t" by (simp add: at_level del: lit_simps)
qed

lemma echoed_advances: "echoed env r s = (pc', s') \<Longrightarrow> advances env Echoing s pc' s'"
  unfolding echoed_def
proof (erule then_client_advances [OF _ beside_refl])
  fix vs let ?t = "on_rec (passed_plain ''messaging.concurrent'' ''concurrent request correlation across devices''
       \<circ> passed_plain ''messaging.multiple'' ''multiple ordered application messages'') (s\<lparr>echo_values := vs\<rparr>)"
  assume "(if \<not> list_all2 equals_int vs (List.map int [0..<CONCURRENT_REQUESTS])
      then (ClientStopping (Inl (assertion ''concurrent pair requests were mis-correlated'')), s)
      else sending env ''value'' (PStr large_value) PayloadWait ?t) = (pc', s')"
  moreover have b: "beside s ?t" by (auto simp: beside_def on_rec_def intro!: extend_rules)
  then have "advances env Echoing s PayloadWait ?t" if "list_all2 equals_int vs (List.map int [0..<CONCURRENT_REQUESTS])"
    using that by (simp add: at_level del: lit_simps)
  ultimately show "advances env Echoing s pc' s'"
    using beside_refl b by (auto intro: advances_stop elim: sending_advances split: if_splits)
qed

lemma payload_replied_advances: "payload_replied env d s = (pc', s') \<Longrightarrow> advances env PayloadWait s pc' s'"
proof -
  let ?t = "on_rec (passed_plain ''messaging.payload'' ''reasonable-size application payload'') (s\<lparr>payload_result := d\<rparr>)"
  have b: "beside s ?t" by (auto simp: beside_def on_rec_def intro!: extend_rules)
  then have "advances env PayloadWait s Disconnecting ?t"
    if "equals_int (dget d (lit ''length'')) (int (length large_value))" "dget d (lit ''sha256'') = PStr (large_digest env)"
    using that by (simp add: at_level del: lit_simps)
  then show "payload_replied env d s = (pc', s') \<Longrightarrow> ?thesis"
    using beside_refl by (auto simp: payload_replied_def intro: advances_stop split: if_splits simp del: lit_simps)
qed

lemma connected_again_advances: "connected_again env v s = (pc', s') \<Longrightarrow> advances env SecondConnecting s pc' s'"
proof -
  assume c: "connected_again env v s = (pc', s')"
  have "advances env SecondConnecting s pc' s'" if "inspected env v True (\<lambda>obj s.
        if first_session s = Some obj then (ClientStopping (Inl (assertion ''reconnect reused the old Paqto session object'')), s)
        else sending env ''ready'' (PBool True) ReconnectWait
          (on_rec (passed_plain ''lifecycle.reconnect'' ''fresh TCP reconnect'') (s\<lparr>second_session := Some obj\<rparr>))) s = (pc', s')"
    using that beside_refl
  proof (rule inspected_advances)
    fix obj r let ?s = "s\<lparr>cl_recorder := r\<rparr>"
    let ?t = "on_rec (passed_plain ''lifecycle.reconnect'' ''fresh TCP reconnect'') (?s\<lparr>second_session := Some obj\<rparr>)"
    assume r: "inspect_ready v (remote_peer_id (config_of env)) True (cl_recorder s) = (Inr obj, r)" and b: "beside s ?s"
      and went: "(if first_session ?s = Some obj then (ClientStopping (Inl (assertion ''reconnect reused the old Paqto session object'')), ?s)
        else sending env ''ready'' (PBool True) ReconnectWait ?t) = (pc', s')"
    have t: "beside s ?t" using b by (auto simp: beside_def on_rec_def intro!: extend_rules)
    then have "advances env SecondConnecting s ReconnectWait ?t" if "first_session s \<noteq> Some obj"
      using that inspected_ids [OF r] by (auto simp: at_level simp del: lit_simps)
    with went b t show "advances env SecondConnecting s pc' s'"
      by (auto intro: advances_stop elim: sending_advances split: if_splits)
  qed
  with c beside_refl show ?thesis by (auto simp: connected_again_def intro: advances_stop split: if_splits)
qed

lemma reconnect_replied_advances: "reconnect_replied env d s = (pc', s') \<Longrightarrow> advances env ReconnectWait s pc' s'"
proof -
  let ?t = "on_rec (passed_plain ''lifecycle.messaging_after_reconnect'' ''request/reply after fresh reconnect'') s"
  assume r: "reconnect_replied env d s = (pc', s')"
  have b: "beside s ?t" by (auto intro!: beside_on_rec extend_rules)
  then have "advances env ReconnectWait s CompletionWait ?t" by (simp add: at_level del: lit_simps)
  with r b show ?thesis
    using beside_refl by (auto simp: reconnect_replied_def intro: advances_stop stage_failed_advances
        elim!: completion_sending_advances split: if_splits)
qed

lemma completion_result_pass:
  "completion_result env ph text r s = Inr d \<Longrightarrow> dget d (lit ''server_status'') = PStr (lit ''PASS'')"
  by (auto simp: completion_result_def res_simps simp del: lit_simps)

lemma completion_replied_advances: "completion_replied env r s = (pc', s') \<Longrightarrow> advances env CompletionWait s pc' s'"
proof (cases "completion_result env COMPLETION_REPLY ''server did not propagate a PASS result'' r s")
  case (Inl e)
  moreover assume "completion_replied env r s = (pc', s')"
  ultimately show ?thesis using beside_refl by (auto simp: completion_replied_def intro: stage_failed_advances)
next
  case (Inr d)
  let ?t = "on_rec (passed ''protocol.completion_request'' ''pair completion request/reply''
      ''client received and validated compat.complete.reply'') (s\<lparr>completion_results := [d]\<rparr>)"
  assume r: "completion_replied env r s = (pc', s')"
  have b: "beside s ?t" by (auto simp: beside_def on_rec_def intro!: extend_rules)
  with completion_result_pass [OF Inr] have "advances env CompletionWait s ConfirmationWait ?t"
    by (simp add: at_level del: lit_simps)
  with r b Inr show ?thesis
    by (auto simp: completion_replied_def intro: stage_failed_advances elim!: completion_sending_advances)
qed

lemma confirmation_replied_advances: "confirmation_replied env r s = (pc', s') \<Longrightarrow> advances env ConfirmationWait s pc' s'"
proof (cases "completion_result env COMPLETION_CONFIRMATION_REPLY ''server did not confirm completion with PASS'' r s")
  case (Inl e)
  moreover assume "confirmation_replied env r s = (pc', s')"
  ultimately show ?thesis using beside_refl by (auto simp: confirmation_replied_def intro: stage_failed_advances)
next
  case (Inr d)
  let ?t = "on_rec (passed ''protocol.completion_confirmation'' ''pair completion confirmation request/reply''
      ''client received and validated compat.complete.confirmed.reply'') (s\<lparr>completion_results := completion_results s @ [d]\<rparr>)"
  assume r: "confirmation_replied env r s = (pc', s')"
  have b: "beside s ?t" by (auto simp: beside_def on_rec_def intro!: extend_rules)
  with completion_result_pass [OF Inr] have "advances env ConfirmationWait s FinalDisconnecting ?t"
    by (auto simp: at_level simp del: lit_simps)
  with r Inr show ?thesis by (simp add: confirmation_replied_def)
qed

lemma finally_disconnected_advances: "finally_disconnected r s = (pc', s') \<Longrightarrow> advances env FinalDisconnecting s pc' s'"
proof (cases r)
  case (Inl e)
  moreover assume "finally_disconnected r s = (pc', s')"
  ultimately show ?thesis
    by (auto simp: finally_disconnected_def beside_refl inj_lit simp del: lit_simps intro!: advances_stop beside_on_rec extend_rules split: if_splits)
next
  case (Inr x)
  let ?t = "on_rec (passed ''lifecycle.graceful_disconnect'' ''client-initiated disconnect after completion''
      ''client closed the confirmed READY session voluntarily'') s"
  assume "finally_disconnected r s = (pc', s')"
  then have e: "pc' = ClientStopping (Inr ())" "s' = ?t" by (simp_all add: finally_disconnected_def Inr)
  have "beside s ?t" by (auto intro!: beside_on_rec extend_rules)
  then show ?thesis unfolding e by (simp add: at_level del: lit_simps)
qed

lemma client_stopped_advances: "client_stopped res stopped s = (pc', s') \<Longrightarrow> advances env (ClientStopping res) s pc' s'"
proof -
  assume c: "client_stopped res stopped s = (pc', s')"
  obtain res' r where r: "finally_stop res stopped (cl_recorder s) = (res', r)" by fastforce
  with c have e: "pc' = ClientEnded res'" "s' = s\<lparr>cl_recorder := r\<rparr>" by (simp_all add: client_stopped_def)
  have b: "beside s s'"
    using finally_stop_extends [OF extends_refl [of "cl_recorder s"], of res stopped] by (simp add: r e beside_def)
  show ?thesis
  proof (cases res')
    case (Inl x)
    with b show ?thesis by (simp add: e(1) advances_stop)
  next
    case (Inr u)
    from finally_stop_returns [OF r [unfolded Inr]] b show ?thesis by (auto simp: e Inr at_level simp del: lit_simps)
  qed
qed

lemma client_resume_advances:
  assumes "client_resume env pc ev s = Some (pc', s')" "client_event_set pc ev s"
  shows "advances env pc s pc' s'"
proof -
  have to: "advances env ClientDiscovering s FirstConnecting (on_rec discovery_found s)"
    "advances env Confirming s WaitServerSend s" "advances env Sleeping s SecondConnecting s"
    "advances env Disconnecting s Sleeping (on_rec (passed_plain ''lifecycle.disconnect'' ''controlled software disconnect'') s)"
    by (auto simp: at_level simp del: lit_simps intro!: extend_rules extends_refl)
  have waited: "(pc = WaitServerSend \<longrightarrow> advances env pc s WaitServerRequest s) \<and> (pc = WaitServerRequest \<longrightarrow> advances env pc s SendingToServer s)"
    if "as_waited ev s = Some (Inr u)" for u
    using that assms(2) by (cases "(ev, s)" rule: as_waited.cases)
      (auto simp: wait_client_event_def client_event_set_def at_level extends_refl simp del: lit_simps split: if_splits)
  show ?thesis
    using assms(1) to waited beside_refl
    by (cases pc; auto simp: client_resume_def session_reply_def elim!: then_client_advances intro: client_started_advances connected_first_advances
        metadata_replied_advances client_sent_advances echoed_advances payload_replied_advances connected_again_advances
        reconnect_replied_advances completion_replied_advances confirmation_replied_advances finally_disconnected_advances
        client_stopped_advances sending_advances)
qed

section \<open>The invariant and the role\<close>

lemma client_inv_step:
  assumes "client_step env run run'" "client_inv env run"
  shows "client_inv env run'"
  using assms
proof cases
  case (coroutine pc ev s pc' s' ks)
  from client_resume_advances [OF coroutine(4,3)] assms(2) show ?thesis
    unfolding coroutine by (auto simp: client_inv_def advances_def seen_recorded_def recorded_extends simp del: recorded_simps)
qed (auto intro: client_inv_handled client_receive_handled client_replied_handled)

interpretation client_machine:
  machine_invariant "client_step env" "(ClientStarting, [], new_client r)" "client_inv env"
proof
  show "client_inv env (ClientStarting, [], new_client r)"
    by (simp add: client_inv_def answers_def trail_def new_client_def seen_recorded_def)
qed (rule client_inv_step)

lemma client_step_extends: "client_step env run run' \<Longrightarrow> extends (client_recorder run) (client_recorder run')"
proof (erule client_step.cases)
  fix pc ev s pc' s' ks assume "run = (pc, ks, s)" "run' = (pc', ks, s')" "client_event_set pc ev s" "client_resume env pc ev s = Some (pc', s')"
  with client_resume_advances show "extends (client_recorder run) (client_recorder run')"
    by (fastforce simp: client_recorder_def advances_def)
qed (auto simp: client_recorder_def handled_def dest: client_receive_handled client_replied_handled)

lemma client_only_extends: "client_runs env r run \<Longrightarrow> extends r (client_recorder run)"
  unfolding client_runs_def
proof (induction run rule: reachable.induct)
  case (next_state run run')
  from extends_trans [OF next_state(3) client_step_extends [OF next_state(2)]] show ?case .
qed (simp add: client_recorder_def new_client_def extends_refl)

definition client_checks :: "string list" where
  "client_checks = [''messaging.server_client_send'', ''messaging.server_client_request''] @ trail 15"

lemma client_returned:
  assumes "client_runs env r (ClientEnded (Inr u), ks, s)"
  shows "answers env 15 s \<and> recorded client_checks (cl_recorder s)"
  using client_machine.holds [OF assms [unfolded client_runs_def]]
  by (auto simp: client_inv_def client_checks_def seen_recorded_def answers_def simp del: lit_simps)

interpretation client: pair_role "client_runs env" client_outcome client_recorder "List.map lit client_checks"
proof
  fix r run assume "client_runs env r run"
  then show "extends r (client_recorder run)" by (rule client_only_extends)
next
  fix r run assume "client_runs env r run" "client_outcome run = Some (Inr ())"
  then show "set (List.map lit client_checks) \<subseteq> rec_ids (client_recorder run)"
    by (cases run) (auto dest!: client_returned simp: client_recorder_def client_outcome_def recorded_def simp del: lit_simps
        split: client_pc.splits)
qed

section \<open>A concrete exchange\<close>

datatype client_stimulus = ServerSends client_message pyval | ReplyAcknowledged client_message | Wakes client_event

fun client_stimulate :: "pair_env \<Rightarrow> client_stimulus \<Rightarrow> client_run \<Rightarrow> client_run option" where
  "client_stimulate env (ServerSends k data) (pc, ks, s) =
     (case client_receive env k data s of (Inr (Some a), s') \<Rightarrow> Some (pc, k # ks, s') | (r, s') \<Rightarrow> Some (pc, ks, s'))"
| "client_stimulate env (ReplyAcknowledged k) (pc, ks, s) =
     (if k \<in> set ks then Some (pc, remove1 k ks, snd (client_replied k (Inr ()) s)) else None)"
| "client_stimulate env (Wakes ev) (pc, ks, s) =
     (if client_event_set pc ev s then map_option (\<lambda>(pc', s'). (pc', ks, s')) (client_resume env pc ev s) else None)"

lemma client_stimulate_step: "client_stimulate env x run = Some run' \<Longrightarrow> client_step env run run'"
proof (induction env x run rule: client_stimulate.induct)
  case (1 env k data pc ks s)
  obtain r s' where "client_receive env k data s = (r, s')" by fastforce
  with 1 show ?case by (auto intro: client_step.intros split: sum.splits option.splits)
next
  case (2 env k pc ks s)
  obtain x s' where "client_replied k (Inr ()) s = (x, s')" by fastforce
  with 2 show ?case by (auto intro: client_step.intros split: if_splits)
qed (auto intro: client_step.intros split: if_splits)

definition demo_client :: pair_env where
  "demo_client = demo_env\<lparr>config_of := (config_of demo_env)\<lparr>cfg_role := lit ''client'', cfg_scenario := lit ''discovery''\<rparr>\<rparr>"

definition demo_data :: "metadata \<Rightarrow> pyval" where
  "demo_data kvs = PDict ((PStr (lit ''session_id''), PStr demo_session) # kvs)"

definition demo_done :: "pystr \<Rightarrow> pyval" where
  "demo_done ph = demo_data ((PStr (lit ''completion_phase''), PStr ph) # pass_data)"

definition demo_answer :: pyval where
  "demo_answer = PDict (metadata_message (Some demo_session) (platform_info demo_env) (python_info demo_env) [49] [47] (suite_info demo_env) [])"

definition client_script :: "discovered_peer \<Rightarrow> client_stimulus list" where
  "client_script d =
     List.map Wakes [Common (NodeStarted (Inr ())), Common (PeerFound (Inr d)), ClientConnected (Inr (demo_view (lit ''node-b'') 1)),
       Common (ReplyReceived (Inr demo_answer)), Common (MessageSent (Inr ()))]
     @ [ServerSends ServerSend (demo_data [(PStr (lit ''value''), PStr (lit ''server-to-client''))]),
        ServerSends ServerRequest (demo_data [(PStr (lit ''value''), PStr (lit ''server-request''))]), ReplyAcknowledged ServerRequest]
     @ List.map Wakes [WaitDone True False, WaitDone True False, Common (MessageSent (Inr ())),
       RepliesReceived (Inr (List.map (\<lambda>i. demo_data [(PStr (lit ''value''), PInt i)]) [0, 1, 2, 3, 4, 5, 6, 7])),
       Common (ReplyReceived (Inr (demo_data [(PStr (lit ''length''), PInt (int (length large_value))),
         (PStr (lit ''sha256''), PStr (large_digest demo_client))]))),
       Returned (Inr ()), Returned (Inr ()), ClientConnected (Inr (demo_view (lit ''node-b'') 2)),
       Common (ReplyReceived (Inr (demo_data [(PStr (lit ''ready''), PBool True)]))),
       Common (ReplyReceived (Inr (demo_done COMPLETION_REPLY))),
       Common (ReplyReceived (Inr (demo_done COMPLETION_CONFIRMATION_REPLY))), Returned (Inr ())]"

lemma demo_data_valid: "validate_session_payload (demo_data kvs) demo_session = Inr ((PStr (lit ''session_id''), PStr demo_session) # kvs)"
  by (simp add: demo_data_def validate_session_payload_def as_mapping_def demo_session_id res_simps dget_def)

lemma demo_done_valid: "validate_completion_payload (demo_done ph) demo_session ph
    = Inr ((PStr (lit ''session_id''), PStr demo_session) # (PStr (lit ''completion_phase''), PStr ph) # pass_data)"
  by (simp add: validate_completion_payload_def demo_done_def demo_data_valid res_simps dget_def)

lemma demo_answer_valid: "\<exists>m. validate_metadata demo_answer None False = Inr m \<and> as_str (dget m (lit ''session_id'')) = Some demo_session"
  by (simp add: demo_answer_def metadata_message_def demo_env_def validate_metadata_def as_mapping_def dget_def equals_int_def
      PAIR_PROTOCOL_VERSION_def PROTOCOL_ID_def demo_session_id session_value_def selected_def platform_fields_def
      python_fields_def number_fields_def named_def positive_int_def)

lemma demo_client_remote: "remote_peer_id (config_of demo_client) = lit ''node-b''" "cfg_scenario (config_of demo_client) = lit ''discovery''"
  "snd (pair_begin demo_client) = new_recorder" "\<exists>m. run_metadata demo_client session = Inr m"
  by (simp_all add: demo_client_def demo_env_def remote_peer_id_def pair_begin_def run_metadata_def dget_def)

lemma demo_client_inspected: "inspected demo_client (demo_view (lit ''node-b'') c) again f s =
    f c (s\<lparr>cl_recorder := snd (inspect_ready (demo_view (lit ''node-b'') c) (lit ''node-b'') again (cl_recorder s))\<rparr>)"
  unfolding inspected_def demo_client_remote by (subst demo_inspect_ready) (simp add: then_client_def)

lemma clean_found: "clean r \<Longrightarrow> clean (discovery_found r)"
  by (simp add: discovery_found_def clean_add)

lemma eight_values: "List.map int [0..<CONCURRENT_REQUESTS] = [0, 1, 2, 3, 4, 5, 6, 7]"
  by (simp add: CONCURRENT_REQUESTS_def upt_rec)

lemma dget_Cons: "dget ((k, v) # kvs) key = (if k = PStr key then v else dget kvs key)"
  by (simp add: dget_def)

lemma demo_client_exchange:
  assumes "clean r"
  shows "\<exists>s. follow (client_stimulate demo_client) (client_script d) (ClientStarting, [], new_client r) = Some (ClientStopping (Inr ()), [], s)
    \<and> clean (cl_recorder s)"
proof -
  obtain m m' where m: "validate_metadata demo_answer None False = Inr m" "as_str (dget m (lit ''session_id'')) = Some demo_session"
      "run_metadata demo_client None = Inr m'"
    using demo_answer_valid demo_client_remote(4) by blast
  show ?thesis
    using assms
    by (simp add: client_script_def new_client_def client_resume_def client_started_def then_client_def demo_client_remote m
        client_event_set_def connected_first_def demo_client_inspected metadata_replied_def sending_def session_payload_def
        session_value_def demo_session_id receive_server_send_def receive_server_request_def demo_data_valid wait_client_event_def
        client_sent_def echoed_def session_reply_def payload_replied_def connected_again_def reconnect_replied_def
        completion_sending_def completion_payload_def completion_replied_def completion_result_def demo_done_valid
        confirmation_replied_def finally_disconnected_def pair_result_def on_rec_def equals_int_def eight_values
        pass_data_def inj_lit clean_add clean_found clean_inspected dget_Cons del: lit_simps)
qed

lemma client_followed:
  "follow (client_stimulate env) xs run = Some run' \<Longrightarrow> reachable (client_step env) init run \<Longrightarrow> reachable (client_step env) init run'"
  by (rule follow_reachable [where f = "client_stimulate env"]) (rule client_stimulate_step)

lemma demo_client_runs:
  "\<exists>s. client_runs demo_client (snd (pair_begin demo_client)) (ClientEnded (Inr ()), [], s) \<and> clean (cl_recorder s)"
proof -
  obtain d :: discovered_peer where "d = d" by blast
  obtain s where s: "follow (client_stimulate demo_client) (client_script d) (ClientStarting, [], new_client new_recorder)
      = Some (ClientStopping (Inr ()), [], s)" "clean (cl_recorder s)" using demo_client_exchange [OF clean_add(3)] by blast
  let ?t = "on_rec (passed_plain ''lifecycle.cleanup'' ''final task/socket/correlation cleanup'') s"
  have "client_stimulate demo_client (Wakes (Common (NodeStopped (Inr (new_node i c))))) (ClientStopping (Inr ()), [], s)
      = Some (ClientEnded (Inr ()), [], ?t)" for i c
    by (simp add: client_event_set_def client_resume_def client_stopped_def finally_stop_def stop_and_record_def clean_node on_rec_def)
  then have "reachable (client_step demo_client) (ClientStarting, [], new_client new_recorder) (ClientEnded (Inr ()), [], ?t)"
    by (rule reachable.next_state [OF client_followed [OF s(1) reachable.start] client_stimulate_step])
  with s(2) show ?thesis by (auto simp: client_runs_def on_rec_def clean_add demo_client_remote(3))
qed

section \<open>What the exit code 0 of a client says\<close>

text \<open>C37 A client process that ends with the exit code 0 has had the whole exchange with the server: its coroutine
  returned; it had agreed on a session and received both messages of the server; the eight concurrent requests were answered each with
  its own value, the large payload with its length and digest; the second connection had another session than the
  first; both replies of the completion said PASS. The report holds each of the client's checks, and none of its checks
  failed or was a required one left undone.\<close>

theorem client_exit_zero:
  assumes "client_runs env (snd (pair_begin env)) (pc, ks, s)" "client_outcome (pc, ks, s) = Some res"
    and "pair_main env session_id remote took res (cl_recorder s) = (report, 0)"
  shows "res = Inr () \<and> cl_session s \<noteq> None \<and> server_send_seen s \<and> server_request_seen s
    \<and> list_all2 equals_int (echo_values s) [0, 1, 2, 3, 4, 5, 6, 7]
    \<and> equals_int (dget (payload_result s) (lit ''length'')) (int (length large_value))
    \<and> dget (payload_result s) (lit ''sha256'') = PStr (large_digest env)
    \<and> second_session s \<noteq> None \<and> second_session s \<noteq> first_session s
    \<and> length (completion_results s) = 2
    \<and> (\<forall>d \<in> set (completion_results s). dget d (lit ''server_status'') = PStr (lit ''PASS''))
    \<and> report = Some (build_pair_report env session_id remote (rec_results (cl_recorder s)) took)
    \<and> (\<forall>i \<in> set client_checks. \<exists>x \<in> set (rec_results (cl_recorder s)).
         result_id x = lit i \<and> (status x = PASS \<or> \<not> required x \<and> status x \<noteq> FAIL))"
proof -
  from client.exit_zero [OF assms(1,2)] assms(3) have all: "res = Inr ()"
      "report = Some (build_pair_report env session_id remote (rec_results (cl_recorder s)) took)"
      "\<forall>i \<in> set client_checks. \<exists>x \<in> set (rec_results (cl_recorder s)).
         result_id x = lit i \<and> (status x = PASS \<or> \<not> required x \<and> status x \<noteq> FAIL)"
    by (auto simp: client_recorder_def)
  with assms(2) have "pc = ClientEnded (Inr ())" by (auto simp: client_outcome_def split: client_pc.splits)
  from client_returned [OF assms(1) [unfolded this]] all show ?thesis
    by (simp add: answers_def eight_values del: lit_simps)
qed

text \<open>An exchange in which everything succeeds, of a client that has discovered its server.\<close>

theorem client_exit_zero_witness:
  "\<exists>s report. client_runs demo_client (snd (pair_begin demo_client)) (ClientEnded (Inr ()), [], s)
     \<and> pair_main demo_client (Some demo_session) None 1 (Inr ()) (cl_recorder s) = (report, 0)
     \<and> length (completion_results s) = 2 \<and> second_session s \<noteq> first_session s
     \<and> (\<exists>x \<in> set (rec_results (cl_recorder s)). result_id x = lit ''lifecycle.cleanup'')"
proof -
  obtain s where s: "client_runs demo_client (snd (pair_begin demo_client)) (ClientEnded (Inr ()), [], s)"
    "clean (cl_recorder s)" using demo_client_runs by blast
  from clean_exit [OF this(2)] obtain report where
    r: "pair_main demo_client (Some demo_session) None 1 (Inr ()) (cl_recorder s) = (report, 0)" by blast
  have "client_outcome (ClientEnded (Inr ()), [], s) = Some (Inr ())" by (simp add: client_outcome_def)
  from client_exit_zero [OF s(1) this r] have "length (completion_results s) = 2 \<and> second_session s \<noteq> first_session s"
    and "\<forall>i \<in> set client_checks. \<exists>x \<in> set (rec_results (cl_recorder s)). result_id x = lit i" by blast+
  moreover have "''lifecycle.cleanup'' \<in> set client_checks" by (simp add: client_checks_def trail_def)
  ultimately show ?thesis using s(1) r by blast
qed

end
