(* ===== verification/Spec2Isabelle.thy ===== *)
theory Spec2Isabelle
  imports Codecs Config Routing LanFraming LanTransport Discovery Transitions CompatSerializer PairClient
begin

text \<open>
  \<^bold>\<open>Paqto\<close>, a peer-to-peer messaging library: an asynchronous node (\<open>PaqtoNode\<close>) that keeps one
  READY session per connected peer, over any transport that carries frames of bytes, with
  built-in adapters for TCP, TLS and UDP discovery on a local network. This development models
  the package \<open>src/src/paqto\<close>, and the programs under \<open>src/compatibility_tests\<close> that run it on one or on
  two devices and report the results; paths below are relative to \<open>src/src\<close>.

  \<^bold>\<open>How the code is modelled.\<close> Code that may raise returns \<open>exn + 'a\<close>, \<open>Inl\<close> the exception, with
  the class hierarchy of \<open>Errors\<close>, so that an \<open>except\<close> clause is \<open>exn_isa\<close>. Objects are records,
  methods functions from the old record to the outcome and the new one (\<open>Effects\<close> has the sequencing
  and \<open>try\<close> blocks). Dictionaries are association lists in insertion order. Coroutines are cut at
  their awaits: what runs between two awaits is one function, its inputs the outcome of the await
  it resumes from; interleavings are inductive step relations over these parts (\<open>Machines\<close>).
  Connections, tasks and futures are numbers. Clocks, callbacks of the application, transports,
  sockets and the parts of the standard library that are not written out are arguments. Doubles
  are exact rationals together with the infinities and NaN.

  \<^bold>\<open>Theories and components.\<close>
  \<^item> \<open>Prelude\<close>, \<open>PyText\<close>, \<open>Errors\<close>, \<open>Effects\<close>, \<open>Machines\<close>: results, dictionaries, UTF-8 and
    decimal text, exceptions (\<open>paqto/core/errors.py\<close>), effects, machines and the locales
    \<open>machine_invariant\<close> and \<open>relative_invariant\<close>.
  \<^item> \<open>PyJson\<close>, \<open>JsonRoundtrip\<close>, \<open>SafeJson\<close>: \<open>json.dumps\<close> and \<open>json.loads\<close> as the program calls
    them, the round trip inside the locale \<open>object_hook\<close>, and the guards against duplicate
    members, large numbers and deep nesting.
  \<^item> \<open>Models\<close>: peers, endpoints, messages, security snapshots, discovery observations with their
    freshness (\<open>peer.py\<close>, \<open>endpoint.py\<close>, \<open>message.py\<close>, \<open>security.py\<close>, \<open>discovered.py\<close>).
  \<^item> \<open>Control\<close>, \<open>Handshake\<close>: \<open>protocol.py\<close>, the frames of a session and the hello negotiation.
  \<^item> \<open>Routing\<close>: \<open>router.py\<close> and \<open>events.py\<close>. \<open>Config\<close>: \<open>config.py\<close>.
  \<^item> \<open>Manager\<close>: \<open>manager.py\<close> as a machine of concurrent setups and closers.
  \<^item> \<open>Node\<close>, \<open>Correlations\<close>, \<open>Outbound\<close>, \<open>Sessions\<close>, \<open>Reader\<close>, \<open>Reconnect\<close>, \<open>Lifecycle\<close>:
    \<open>node.py\<close>. The state and what involves no connection; pending requests, acknowledgements and
    heartbeats; the writer of a session; the registry of READY sessions; its reader, the dispatch
    of messages and the checks before sending; heartbeats, reconnection, \<open>connect\<close> and
    \<open>disconnect\<close>; \<open>start\<close>, \<open>stop\<close> and \<open>network_changed\<close>.
  \<^item> \<open>NodeSteps\<close>, \<open>NodeMachine\<close>: the operations of all these as one machine. \<open>NodeSteps\<close> states in
    the locales \<open>node_property\<close> and \<open>session_property\<close> which elementary changes a predicate has to
    keep, and shows in them that every operation keeps it; \<open>NodeMachine\<close> interprets them for the
    invariants of the component theories and for limits, constants and final outcomes.
  \<^item> \<open>NodeCalls\<close>, \<open>NodeTasks\<close>: the same operations composed into the coroutines of \<open>node.py\<close>: the
    calls \<open>connect\<close>, \<open>send\<close>, \<open>request\<close> and \<open>reply\<close> of an application, \<open>disconnect\<close>, and the tasks
    that accept, negotiate, retire and end connections.
  \<^item> \<open>Transitions\<close>: \<open>start\<close>, \<open>stop\<close> and \<open>network_changed\<close> as they are called from any task, with the
    lifecycle lock, their awaits and the shielded wait of their callers, around \<open>NodeMachine\<close>.
  \<^item> \<open>Serializers\<close>, \<open>Codecs\<close>: \<open>paqto/serializers\<close>, and the locale \<open>message_codec\<close> through which
    the node uses a serializer, interpreted for both built-in ones.
  \<^item> \<open>LanAddress\<close>, \<open>LanFraming\<close>, \<open>LanListener\<close>, \<open>LanSecurity\<close>, \<open>LanTransport\<close>, \<open>LanDiscovery\<close>:
    the files of \<open>paqto/lan\<close>. \<open>Discovery\<close>: \<open>NoDiscovery\<close> (\<open>paqto/core/discovery.py\<close>), and the locale
    \<open>discovery_service\<close>, the contract of a node with its service, interpreted for both services.
  \<^item> \<open>PairProtocol\<close>, \<open>CompatSerializer\<close>, \<open>Reports\<close>: \<open>compatibility_tests\<close> (beside \<open>src\<close>), the protocol by which
    two devices coordinate a run (\<open>pair/protocol.py\<close>), its serializer, a third instance of \<open>message_codec\<close>
    (\<open>common/serializer.py\<close>), and the checks of one device with their reports (\<open>solo/runner.py\<close>, the table of
    \<open>solo/checks.py\<close>, the other files of \<open>common\<close>, \<open>run.py\<close>).
  \<^item> \<open>PairRun\<close>, \<open>PairServer\<close>, \<open>PairExchange\<close>, \<open>PairClient\<close>: \<open>pair/runner.py\<close>. What both roles share, with the
    locale \<open>pair_role\<close>: what a role must have recorded when it returns, and what the exit code of its process
    means; the two roles as machines of a coroutine and its message handlers, both instances of it
    (\<open>PairExchange\<close> holds the server's invariant).

  \<^bold>\<open>What is shown.\<close> Negotiation: both sides of a successful exchange agree on the session, and when
  it succeeds. Wire formats: every frame, hello, announcement, address and message is read back as
  it was written, tampered or oversized input is refused. Registry: however crossing connections
  are resolved, both peers keep the same one. Manager: states, connections and pending setups agree
  in every reachable state, one setup at a time per peer, no connection is leaked. Correlations:
  a reply is matched on its own connection and peer, a lost connection fails exactly its own
  callers. Writer: frames leave in the order they were queued, an ending worker answers all it has,
  but not the caller that was blocked on its full queue.
  Reader: only messages of the session's own peer are delivered. The node as a machine: in every
  reachable state its tables are consistent and within their limits, an outcome given to a caller
  is final, a session that has ended does not come back. Calls and tasks: an interrupted call ends
  with the exception its interface promises, a request leaves no correlation behind, an incoming
  connection is read as the one of its peer or forgotten, an announced peer can be connected. Transitions: the
  services are up while the node runs, and down while it does not, but for those whose stop raised
  or was cancelled; the lifecycle only takes steps of the machine, a transition ends in ten steps
  unless a task it awaits does not end. Configuration: the constructor accepts the well-formed
  arguments, all others raise, and it changes none. Lifecycle: a failed start undoes
  what it did, a stop answers every caller. LAN: a TCP connection carries frames whatever the
  chunks, a listener hands each connection to one caller, unless that caller is cancelled, a transport owns what it returned, a
  stream is trusted no more than TLS verified, the discovery cache stays within its bounds. Pair
  protocol: the state of a server accepts one request and then one confirmation, in this order only. Runs: the
  exit code of a solo run tells which kinds of outcome its checks had; a role of a pair run that exits with 0
  has had the whole exchange, and each of its checks is in its report. In this
  theory: messages prepared by one node and sent over TCP are accepted by the session of the other.
  Some theorems show that the code does not do what it should; the manifest lists them as findings.

  \<^bold>\<open>Bounds.\<close> Recursions end by their structure or by a measure; none needs fuel. \<open>exn_isa\<close> searches
  seven classes up, more than the longest chain of bases. JSON nesting is bounded by the interpreter's
  \<open>max_depth\<close>, a parameter, and by 32 in the code's own check; integers by 4300 digits. The four bytes
  of a frame's length are 8-bit words, the lengths they hold are below \<open>2 ^ 32\<close>.

  \<^bold>\<open>Not modelled.\<close> Logging (\<open>_log_context\<close>) and the draining of abandoned queues
  (\<open>_discard_queue\<close>), which change no state a caller sees; the options set on the UDP socket; the
  abstract base classes and re-exports; of \<open>compatibility_tests\<close> the bodies of the solo checks, the collection
  of package and interpreter data, the node with its TLS fixtures, and what is printed; the unit tests.
\<close>

section \<open>From one node to the other\<close>

text \<open>A frame of application data is one byte longer than what the session's limit bounds.\<close>

lemma prepared_frame_size:
  assumes "prepare_message cd c m require_ack n = Inr (frame, ack, s)"
  shows "int (length frame) \<le> session_max_message_size s + 1"
  using assms by (auto simp: prepare_message_eq)

lemma prepared_frames_size:
  assumes "list_all2 (\<lambda>m f. \<exists>ack. prepare_message cd c m require_ack n = Inr (f, ack, s)) ms frames"
    and "session_max_message_size s < int k" "f \<in> set frames"
  shows "length f \<le> k"
proof -
  from assms(1,3) obtain m ack where "prepare_message cd c m require_ack n = Inr (f, ack, s)"
    by (induction rule: list_all2_induct) auto
  from prepared_frame_size [OF this] assms(2) show ?thesis by linarith
qed

text \<open>C29 Messages cross the network: the messages a node gets past its checks with a built-in
  serializer, sent over a TCP connection whose frame limit exceeds the session's message limit and
  does not exceed the receiver's, arrive, in whatever chunks the network delivers the bytes, as
  frames of application data from which the peer's session, which expects this sender, accepts
  equal messages, all of them and in order.\<close>

theorem messages_cross_lan:
  assumes "cd = json_codec rt lims \<or> cd = bytes_codec rt"
    and "list_all2 (\<lambda>m f. \<exists>ack. prepare_message cd c m require_ack n = Inr (f, ack, s)) ms frames"
    and "\<forall>m \<in> set ms. sendable rt m \<and> sender m = PStr (session_peer_id s')
           \<and> (recipient m = PNone \<or> recipient m = PStr local_id)"
    and "session_max_message_size s' = session_max_message_size s"
    and "live a" "live b" "in_buffer (reader b) = []" "frame_limit a \<le> frame_limit b" "frame_limit a < 2 ^ 32"
    and "session_max_message_size s < int (frame_limit a)"
    and "written (snd (send_frames frames a)) = written a @ concat chunks"
  shows "\<exists>b'. receive_chunks ReadHeader b chunks = (frames, b', Inl ReadHeader)
    \<and> list_all2 (\<lambda>m f. \<exists>data m'. decode_session_frame rt (PBytes f) (session_max_message_size s') = Inr (ApplicationData data)
          \<and> accept_message cd local_id s' data = Inr m' \<and> message_eq m m') ms frames"
proof -
  have "\<forall>f \<in> set frames. length f \<le> frame_limit a"
    using prepared_frames_size [OF assms(2,10)] by blast
  from frames_cross [OF assms(5-9) this assms(11)] obtain b' where
    "receive_chunks ReadHeader b chunks = (frames, b', Inl ReadHeader)" by blast
  moreover have "list_all2 (\<lambda>m f. \<exists>data m'. decode_session_frame rt (PBytes f) (session_max_message_size s') = Inr (ApplicationData data)
      \<and> accept_message cd local_id s' data = Inr m' \<and> message_eq m m') ms frames"
  proof (rule list.rel_mono_strong [OF assms(2)])
    fix m f assume "m \<in> set ms" "\<exists>ack. prepare_message cd c m require_ack n = Inr (f, ack, s)"
    with message_delivered [OF assms(1) _ _ assms(4)] assms(3)
    show "\<exists>data m'. decode_session_frame rt (PBytes f) (session_max_message_size s') = Inr (ApplicationData data)
        \<and> accept_message cd local_id s' data = Inr m' \<and> message_eq m m'" by blast
  qed
  ultimately show ?thesis by blast
qed

theorem messages_cross_lan_witness:
  "\<exists>n frame s' b chunks b' data m'.
     prepare_message (json_codec plain_rt example_limits) 3 json_message (PBool False) n = Inr (frame, False, (example_session (lit ''a''))\<lparr>session_max_message_size := 1000\<rparr>)
     \<and> receive_chunks ReadHeader b chunks = ([frame], b', Inl ReadHeader)
     \<and> decode_session_frame plain_rt (PBytes frame) (session_max_message_size s') = Inr (ApplicationData data)
     \<and> accept_message (json_codec plain_rt example_limits) (lit ''a'') s' data = Inr m'
     \<and> message_eq json_message m'"
proof -
  let ?s = "(example_session (lit ''a''))\<lparr>session_max_message_size := 1000\<rparr>"
  let ?s' = "(example_session (lit ''b''))\<lparr>session_max_message_size := 1000\<rparr>"
  let ?n = "ready_node\<lparr>sessions := [(3, ?s)]\<rparr>" and ?cd = "json_codec plain_rt example_limits"
  let ?t = "example_tcp\<lparr>frame_limit := 2000\<rparr>"
  obtain b where b: "json_serialize plain_rt example_limits json_message = Inr b" "length b < 1000"
    using json_message_serialized by blast
  let ?f = "APPLICATION_FRAME # b"
  have prep: "prepare_message ?cd 3 json_message (PBool False) ?n = Inr (?f, False, ?s)"
    using b by (subst prepare_message_eq)
      (simp add: json_codec_def json_message_def new_message_def validate_message_def
        validate_message_shape_def str_map_def optional_id_def)
  have live: "live ?t" by (simp add: example_tcp_def live_def)
  have sent: "written (snd (send_frames [?f] ?t)) = written ?t @ concat [header (length ?f), ?f]"
    using b(2) live by (subst send_frames_written) simp_all
  have "\<exists>b'. receive_chunks ReadHeader ?t [header (length ?f), ?f] = ([?f], b', Inl ReadHeader)
      \<and> list_all2 (\<lambda>m f. \<exists>data m'. decode_session_frame plain_rt (PBytes f) (session_max_message_size ?s') = Inr (ApplicationData data)
          \<and> accept_message ?cd (lit ''a'') ?s' data = Inr m' \<and> message_eq m m') [json_message] [?f]"
    by (rule messages_cross_lan [OF disjI1 [OF HOL.refl] _ _ _ live live _ _ _ _ sent, where s = ?s and c = 3 and n = ?n
          and require_ack = "PBool False"])
      (use prep json_message_sendable in \<open>auto simp: json_message_def new_message_def example_session_def example_tcp_def\<close>)
  then obtain b' data m' where "receive_chunks ReadHeader ?t [header (length ?f), ?f] = ([?f], b', Inl ReadHeader)"
      "decode_session_frame plain_rt (PBytes ?f) (session_max_message_size ?s') = Inr (ApplicationData data)"
      "accept_message ?cd (lit ''a'') ?s' data = Inr m'" "message_eq json_message m'"
    by (auto simp del: receive_chunks.simps)
  with prep show ?thesis by (intro exI conjI)
qed

end
